(* ===== verification/Prelude.thy ===== *)
theory Prelude
  imports Main "HOL-Library.Word" "HOL-Library.Monad_Syntax"
begin

unbundle bit_operations_syntax

text \<open>
  Shared ground of the development: the machine types, the byte memory with its little-endian
  loads and stores, the panic result type, the kernel message log, and the generic lemmas on
  words and memory that the component theories use.

  The configuration of the repository (\<^verbatim>\<open>include/generated/autoconf.h\<close>) is the 64-bit
  little-endian AArch64 board, so \<^verbatim>\<open>size_t\<close>, \<^verbatim>\<open>uintptr_t\<close> and pointers are 64 bits wide.
\<close>

section \<open>Machine types\<close>

type_synonym u8 = "8 word"
type_synonym u16 = "16 word"
type_synonym u32 = "32 word"
type_synonym u64 = "64 word"
type_synonym size_t = "64 word"
type_synonym ptr = "64 word"

abbreviation NULL :: ptr where
  "NULL \<equiv> 0"

text \<open>A C \<^verbatim>\<open>int\<close> is a HOL \<open>int\<close>; \<open>c_int\<close> converts a value to its 32 bits.\<close>

definition c_int :: "int \<Rightarrow> int" where
  "c_int i = signed_take_bit 31 i"

abbreviation INT_MAX :: int where
  "INT_MAX \<equiv> 2147483647"

lemma c_int_id [simp]: "- (2 ^ 31) \<le> i \<Longrightarrow> i < 2 ^ 31 \<Longrightarrow> c_int i = i"
  by (simp add: c_int_def signed_take_bit_int_eq_self)

named_theorems mem_simps \<open>reads after writes on the byte memory\<close>
named_theorems word_nat \<open>word operations as arithmetic on their values, absent overflow\<close>

section \<open>Byte memory\<close>

text \<open>
  Memory maps byte addresses to bytes. A multi-byte access at a pointer touches consecutive
  addresses starting at the pointer's value, least significant byte first.
\<close>

type_synonym mem = "nat \<Rightarrow> 8 word"

definition rd32 :: "mem \<Rightarrow> nat \<Rightarrow> u32" where
  "rd32 m a = ucast (m a) OR push_bit 8 (ucast (m (a + 1)))
     OR push_bit 16 (ucast (m (a + 2))) OR push_bit 24 (ucast (m (a + 3)))"

definition wr32 :: "mem \<Rightarrow> nat \<Rightarrow> u32 \<Rightarrow> mem" where
  "wr32 m a v = m(a := ucast v, a + 1 := ucast (drop_bit 8 v),
     a + 2 := ucast (drop_bit 16 v), a + 3 := ucast (drop_bit 24 v))"

definition rd64 :: "mem \<Rightarrow> nat \<Rightarrow> u64" where
  "rd64 m a = ucast (rd32 m a) OR push_bit 32 (ucast (rd32 m (a + 4)))"

definition wr64 :: "mem \<Rightarrow> nat \<Rightarrow> u64 \<Rightarrow> mem" where
  "wr64 m a v = wr32 (wr32 m a (ucast v)) (a + 4) (ucast (drop_bit 32 v))"

abbreviation ld32 :: "mem \<Rightarrow> ptr \<Rightarrow> u32" where
  "ld32 m p \<equiv> rd32 m (unat p)"

abbreviation st32 :: "mem \<Rightarrow> ptr \<Rightarrow> u32 \<Rightarrow> mem" where
  "st32 m p v \<equiv> wr32 m (unat p) v"

abbreviation ld64 :: "mem \<Rightarrow> ptr \<Rightarrow> u64" where
  "ld64 m p \<equiv> rd64 m (unat p)"

abbreviation st64 :: "mem \<Rightarrow> ptr \<Rightarrow> u64 \<Rightarrow> mem" where
  "st64 m p v \<equiv> wr64 m (unat p) v"

abbreviation ld8 :: "mem \<Rightarrow> ptr \<Rightarrow> u8" where
  "ld8 m p \<equiv> m (unat p)"

abbreviation st8 :: "mem \<Rightarrow> ptr \<Rightarrow> u8 \<Rightarrow> mem" where
  "st8 m p v \<equiv> m(unat p := v)"

subsection \<open>Round trips and frames\<close>

lemma rd32_wr32_same [simp, mem_simps]: "rd32 (wr32 m a v) a = v"
proof (rule bit_eqI)
  fix n
  assume "possible_bit TYPE(u32) n"
  then consider "n < 8" | "8 \<le> n" "n < 16" | "16 \<le> n" "n < 24" | "24 \<le> n" "n < 32"
    by fastforce
  then show "bit (rd32 (wr32 m a v) a) n = bit v n"
    by cases (simp_all add: rd32_def wr32_def bit_simps less_diff_conv2)
qed

lemma wr32_apply: "x < a \<or> a + 4 \<le> x \<Longrightarrow> wr32 m a v x = m x"
  by (auto simp: wr32_def)

lemma rd32_cong: "(\<And>x. a \<le> x \<Longrightarrow> x < a + 4 \<Longrightarrow> m x = m' x) \<Longrightarrow> rd32 m a = rd32 m' a"
  by (simp add: rd32_def)

lemma rd32_wr32_other [mem_simps]:
  "a + 4 \<le> b \<or> b + 4 \<le> a \<Longrightarrow> rd32 (wr32 m b v) a = rd32 m a"
  by (rule rd32_cong) (auto intro: wr32_apply)

lemma wr64_apply: "x < a \<or> a + 8 \<le> x \<Longrightarrow> wr64 m a v x = m x"
  by (auto simp: wr64_def wr32_def)

lemma rd64_cong: "(\<And>x. a \<le> x \<Longrightarrow> x < a + 8 \<Longrightarrow> m x = m' x) \<Longrightarrow> rd64 m a = rd64 m' a"
  using rd32_cong [of a m m'] rd32_cong [of "a + 4" m m'] by (simp add: rd64_def)

lemma word64_halves:
  "ucast (ucast v :: u32) OR push_bit 32 (ucast (ucast (drop_bit 32 v) :: u32)) = v" for v :: u64
proof (rule bit_eqI)
  fix n
  assume "possible_bit TYPE(u64) n"
  then consider "n < 32" | "32 \<le> n" "n < 64"
    by fastforce
  then show "bit (ucast (ucast v :: u32) OR push_bit 32 (ucast (ucast (drop_bit 32 v) :: u32)) :: u64) n
      = bit v n"
    by cases (simp_all add: bit_simps less_diff_conv2)
qed

lemma rd64_wr64_same [simp, mem_simps]: "rd64 (wr64 m a v) a = v"
  by (simp add: rd64_def wr64_def rd32_wr32_other word64_halves)

lemma rd64_wr64_other [mem_simps]:
  "a + 8 \<le> b \<or> b + 8 \<le> a \<Longrightarrow> rd64 (wr64 m b v) a = rd64 m a"
  by (rule rd64_cong) (auto intro: wr64_apply)

lemma rd32_wr64_other [mem_simps]:
  "a + 4 \<le> b \<or> b + 8 \<le> a \<Longrightarrow> rd32 (wr64 m b v) a = rd32 m a"
  by (rule rd32_cong) (auto intro: wr64_apply)

lemma rd64_wr32_other [mem_simps]:
  "a + 8 \<le> b \<or> b + 4 \<le> a \<Longrightarrow> rd64 (wr32 m b v) a = rd64 m a"
  by (rule rd64_cong) (auto intro: wr32_apply)

section \<open>Kernel messages and panics\<close>

text \<open>
  A variadic argument of \<^verbatim>\<open>printk\<close> occupies one 64-bit register slot, or is a C string
  (\<open>None\<close> for a null pointer). A call of \<^verbatim>\<open>printk\<close> is recorded as its format and
  arguments; theory \<^verbatim>\<open>Printk\<close> says which characters it sends to the console.
\<close>

datatype va = VReg u64 | VStr "string option"

type_synonym kmsg = "string \<times> va list"

text \<open>
  \<^verbatim>\<open>k_panic()\<close> does not return to its caller: a function that may panic either returns a
  value with the new state or stops in the state the panic found.
\<close>

datatype ('s, 'a) outcome = Ret 'a 's | Panic 's

fun outcome_state :: "('s, 'a) outcome \<Rightarrow> 's" where
  "outcome_state (Ret a s) = s"
| "outcome_state (Panic s) = s"

section \<open>Words as naturals\<close>

lemma unat_add_u64 [word_nat]: "unat a + unat b < 2 ^ 64 \<Longrightarrow> unat (a + b :: u64) = unat a + unat b"
  by (simp add: unat_word_ariths)

lemma unat_sub_u64 [word_nat]: "unat b \<le> unat a \<Longrightarrow> unat (a - b :: u64) = unat a - unat b"
  by (simp add: unat_sub word_le_nat_alt)

lemma unat_of_nat_u64 [word_nat]: "n < 2 ^ 64 \<Longrightarrow> unat (of_nat n :: u64) = n"
  by (simp add: unat_of_nat)

lemma unat_of_nat_u32 [word_nat]: "n < 2 ^ 32 \<Longrightarrow> unat (of_nat n :: u32) = n"
  by (simp add: unat_of_nat)

lemma unat_ucast_32_64 [simp, word_nat]: "unat (ucast (w :: u32) :: u64) = unat w"
  by (simp add: unsigned_ucast_eq take_bit_nat_eq_self_iff order_less_le_trans [OF unsigned_less])

lemma uint_ucast_32_64 [simp]: "uint (ucast (w :: u32) :: u64) = uint w"
proof -
  have "int (unat (ucast w :: u64)) = int (unat w)" by simp
  then show ?thesis by (simp only: uint_nat)
qed

lemma unat_u64_bound: "unat (w :: u64) < 2 ^ 64"
  using unsigned_less [of w, where ?'a = nat] by simp

lemma unat_u32_bound: "unat (w :: u32) < 2 ^ 32"
  using unsigned_less [of w, where ?'a = nat] by simp

lemma ucast_u32_id: "unat (w :: u64) < 2 ^ 32 \<Longrightarrow> ucast (ucast w :: u32) = w"
proof -
  assume "unat w < 2 ^ 32"
  then have "unat (ucast w :: u32) = unat w"
    by (simp only: unsigned_ucast_eq) (simp add: take_bit_nat_eq_self)
  then show ?thesis
    by (intro word_unat_eq_iff [THEN iffD2]) (simp only: unat_ucast_32_64)
qed

end
