(* ===== verification/Div64.thy ===== *)
theory Div64
  imports Prelude
begin

unbundle bit_operations_syntax

text \<open>
  The 64-bit divide and modulo helpers of \<^verbatim>\<open>lib/mylib/math/helper.c\<close>: a restoring division, one
  quotient bit per round of the loop from bit 63 down to bit 0.
\<close>

fun udivdi3_loop :: "u64 \<Rightarrow> u64 \<Rightarrow> nat \<Rightarrow> u64 \<Rightarrow> u64 \<Rightarrow> u64" where
  "udivdi3_loop a b 0 q r = q"
| "udivdi3_loop a b (Suc i) q r =
     (let r = push_bit 1 r OR (drop_bit i a AND 1)
      in if r \<ge> b then udivdi3_loop a b i (q OR push_bit i 1) (r - b)
         else udivdi3_loop a b i q r)"

definition udivdi3 :: "u64 \<Rightarrow> u64 \<Rightarrow> u64" where
  "udivdi3 a b = (if b = 0 then - 1 else udivdi3_loop a b 64 0 0)"

definition umoddi3 :: "u64 \<Rightarrow> u64 \<Rightarrow> u64" where
  "umoddi3 a b = (if b = 0 then - 1 else a - udivdi3 a b * b)"

section \<open>The loop invariant\<close>

lemma unat_shift_in:
  assumes "unat r < 2 ^ 63"
  shows "unat (push_bit 1 r OR (drop_bit i a AND 1) :: u64) = 2 * unat r + unat a div 2 ^ i mod 2"
proof -
  have "push_bit 1 r OR (drop_bit i a AND 1) = push_bit 1 r + (drop_bit i a AND 1)"
    by (rule disjunctive_add_eq_or [symmetric]) (auto intro!: bit_eqI simp: bit_simps bit_0)
  moreover have "unat (push_bit 1 r) = 2 * unat r"
    using assms by (simp add: push_bit_eq_mult unat_word_ariths)
  moreover have "unat (drop_bit i a AND 1 :: u64) = unat a div 2 ^ i mod 2"
  proof -
    have "unat (drop_bit i a) = unat a div 2 ^ i"
      using unat_u64_bound [of a]
      by (subst unsigned_drop_bit_eq) (simp add: take_bit_nat_eq_self drop_bit_eq_div)
    then show ?thesis
      by (simp only: and_one_eq unat_mod_distrib) simp
  qed
  moreover have "2 * unat r + unat a div 2 ^ i mod 2 < 2 ^ 64"
    using assms by simp
  ultimately show ?thesis
    by (simp add: unat_add_u64)
qed

lemma unat_or_bit:
  assumes "i < 64" and "2 ^ Suc i dvd unat q"
  shows "unat (q OR push_bit i 1 :: u64) = unat q + 2 ^ i"
proof -
  have z: "\<not> bit q n" if "n \<le> i" for n
  proof -
    have "take_bit (Suc i) (unat q) = 0"
      using assms(2) by (simp add: take_bit_eq_mod mod_eq_0_iff_dvd)
    then have "\<not> bit (take_bit (Suc i) (unat q)) n"
      by simp
    then show ?thesis
      using that by (simp add: bit_simps bit_unsigned_iff)
  qed
  have "q OR push_bit i 1 = q + push_bit i 1"
    using z by (intro disjunctive_add_eq_or [symmetric]) (auto intro!: bit_eqI simp: bit_simps)
  moreover have "unat (push_bit i 1 :: u64) = 2 ^ i"
    using assms(1) unat_of_nat_u64 [of "2 ^ i"] power_strict_increasing [OF assms(1), of "2 :: nat"]
    by (simp add: push_bit_eq_mult)
  moreover have "unat q + 2 ^ i < 2 ^ 64"
  proof -
    obtain k where k: "unat q = 2 ^ Suc i * k"
      using assms(2) by blast
    obtain j where j: "64 = Suc i + j"
      using assms(1) by (metis Suc_leI le_Suc_ex)
    have "2 ^ Suc i * k < 2 ^ Suc i * 2 ^ j"
      using k unat_u64_bound [of q] j by (metis power_add)
    then have "k < 2 ^ j"
      by simp
    then have "2 ^ Suc i * (k + 1) \<le> 2 ^ Suc i * 2 ^ j"
      by (intro mult_le_mono2) simp
    then have "unat q + 2 ^ Suc i \<le> 2 ^ 64"
      using k j by (simp only: power_add [symmetric] add_mult_distrib2 mult_1_right)
    moreover have "(2 :: nat) ^ i < 2 ^ Suc i"
      by simp
    ultimately show ?thesis
      by linarith
  qed
  ultimately show ?thesis
    by (simp add: unat_add_u64)
qed

lemma div_shift_in:
  "(A :: nat) div 2 ^ i = 2 * (A div 2 ^ Suc i) + A div 2 ^ i mod 2"
proof -
  have "A div 2 ^ Suc i = A div 2 ^ i div 2"
    by (metis div_mult2_eq mult.commute power_Suc)
  then show ?thesis
    by simp
qed

lemma divide_step:
  fixes X B D t :: nat
  assumes "0 < B" and "r' = 2 * (X mod B) + t" and "t < 2"
  shows "(2 * X + t) div B = 2 * (X div B) + (if B \<le> r' then 1 else 0)"
    and "(2 * X + t) mod B = (if B \<le> r' then r' - B else r')"
proof -
  have "X mod B < B"
    using assms(1) by simp
  then have lt: "r' < 2 * B"
    using assms(2,3) by linarith
  have "X = B * (X div B) + X mod B"
    by simp
  then have eq: "2 * X + t = B * (2 * (X div B)) + r'"
    using assms(2) by (metis add.assoc add_mult_distrib2 mult.left_commute)
  have "r' div B = (if B \<le> r' then 1 else 0)" "r' mod B = (if B \<le> r' then r' - B else r')"
    using lt assms(1) by (auto simp: div_eq_0_iff le_div_geq le_mod_geq)
  then show "(2 * X + t) div B = 2 * (X div B) + (if B \<le> r' then 1 else 0)"
    "(2 * X + t) mod B = (if B \<le> r' then r' - B else r')"
    unfolding eq using assms(1) by simp_all
qed

lemma udivdi3_loop_correct:
  assumes "b \<noteq> 0" and "n \<le> 64" and "unat r = unat a div 2 ^ n mod unat b"
    and "unat q = unat a div 2 ^ n div unat b * 2 ^ n"
  shows "unat (udivdi3_loop a b n q r) = unat a div unat b"
  using assms(2-)
proof (induction n arbitrary: q r)
  case 0
  then show ?case by simp
next
  case (Suc i)
  define A B where "A = unat a" and "B = unat b"
  have B: "0 < B"
    using assms(1) by (simp add: B_def unat_gt_0)
  have "unat a div 2 ^ Suc i < 2 ^ 63"
  proof -
    have "unat a div 2 ^ Suc i \<le> unat a div 2 ^ 1"
      by (rule div_le_mono2) simp_all
    then show ?thesis
      using unat_u64_bound [of a] by simp
  qed
  then have "unat r < 2 ^ 63"
    using Suc.prems(2) by (metis le_less_trans mod_less_eq_dividend)
  then have r: "unat (push_bit 1 r OR (drop_bit i a AND 1) :: u64) = 2 * (A div 2 ^ Suc i mod B) + A div 2 ^ i mod 2"
    using Suc.prems(2) by (simp only: unat_shift_in A_def B_def)
  note step = divide_step [OF B refl, of "A div 2 ^ i mod 2" "A div 2 ^ Suc i", folded div_shift_in]
  have q: "unat (q OR push_bit i 1) = unat q + 2 ^ i"
    using Suc.prems(1,3) by (intro unat_or_bit) auto
  show ?case
    using Suc.IH Suc.prems(1,3) step q r
    by (simp add: Let_def word_le_nat_alt unat_sub_u64 A_def [symmetric] B_def [symmetric] algebra_simps)
qed

text \<open>C39: for every dividend and every non-zero divisor the helpers compute the quotient and the
  remainder of the 64-bit division, also for divisors above \<open>2 ^ 63\<close>; a zero divisor gives the
  all-ones word instead of a trap.\<close>

theorem udivdi3_correct:
  "udivdi3 a b = (if b = 0 then - 1 else a div b) \<and> umoddi3 a b = (if b = 0 then - 1 else a mod b)"
proof (cases "b = 0")
  case True
  then show ?thesis by (simp add: udivdi3_def umoddi3_def)
next
  case False
  then have "unat (udivdi3_loop a b 64 0 0) = unat a div unat b"
    by (intro udivdi3_loop_correct) (simp_all add: div_eq_0_iff order_less_le_trans [OF unat_u64_bound])
  then have "udivdi3 a b = a div b"
    using False by (simp add: udivdi3_def word_unat_eq_iff unat_div_distrib)
  moreover from this have "umoddi3 a b = a mod b"
    using False by (simp add: umoddi3_def minus_div_mult_eq_mod)
  ultimately show ?thesis
    using False by simp
qed

end
