(* ===== verification/Fdt_Base.thy ===== *)
theory Fdt_Base
  imports Prelude
begin

unbundle bit_operations_syntax

text \<open>
  The flattened device tree core: \<^verbatim>\<open>lib/libfdt/fdt.c\<close>, the header accessors and byte-order helpers
  of \<^verbatim>\<open>libfdt.h\<close>, \<^verbatim>\<open>fdt.h\<close>, \<^verbatim>\<open>libfdt_env.h\<close> and \<^verbatim>\<open>libfdt_internal.h\<close>.

  A blob is the buffer the caller hands over: its address and its bytes.  A pointer into the blob is
  the offset from its start.  Every function is in the option monad: \<open>None\<close> means that the code
  would read outside the buffer, or loop forever, so a result \<open>Some\<close> also says that the call is
  memory safe and returns.  Offsets and error codes are C \<^verbatim>\<open>int\<close>s, header fields 32-bit words; the
  build uses \<^verbatim>\<open>FDT_ASSUME_MASK == 0\<close>, so every \<^verbatim>\<open>can_assume(...)\<close> is false and every check is made.
  Names of C functions with a trailing underscore end in a prime.
\<close>

section \<open>Blob access\<close>

record fdt =
  fdt_addr :: ptr
  fdt_bytes :: "u8 list"

definition rd8 :: "fdt \<Rightarrow> int \<Rightarrow> u8 option" where
  "rd8 fdt p = (if 0 \<le> p \<and> p < int (length (fdt_bytes fdt)) then Some (fdt_bytes fdt ! nat p) else None)"

text \<open>Big-endian loads. \<^verbatim>\<open>fdt32_to_cpu\<close> puts the first byte at bits 24 to 31.\<close>

definition fdt32_to_cpu :: "u8 \<Rightarrow> u8 \<Rightarrow> u8 \<Rightarrow> u8 \<Rightarrow> u32" where
  "fdt32_to_cpu b0 b1 b2 b3 =
     push_bit 24 (ucast b0) OR push_bit 16 (ucast b1) OR push_bit 8 (ucast b2) OR ucast b3"

definition fdt32_ld :: "fdt \<Rightarrow> int \<Rightarrow> u32 option" where
  "fdt32_ld fdt p = do {
     b0 \<leftarrow> rd8 fdt p; b1 \<leftarrow> rd8 fdt (p + 1); b2 \<leftarrow> rd8 fdt (p + 2); b3 \<leftarrow> rd8 fdt (p + 3);
     Some (fdt32_to_cpu b0 b1 b2 b3) }"

definition fdt64_ld :: "fdt \<Rightarrow> int \<Rightarrow> u64 option" where
  "fdt64_ld fdt p = do {
     hi \<leftarrow> fdt32_ld fdt p; lo \<leftarrow> fdt32_ld fdt (p + 4);
     Some (push_bit 32 (ucast hi) OR ucast lo) }"

text \<open>Code equations for evaluation: a byte is found by counting down, a word is built by arithmetic.\<close>

fun byte_at :: "u8 list \<Rightarrow> int \<Rightarrow> u8 option" where
  "byte_at [] p = None"
| "byte_at (b # bs) p = (if p = 0 then Some b else byte_at bs (p - 1))"

lemma byte_at_nth: "0 \<le> p \<Longrightarrow> byte_at bs p = (if p < int (length bs) then Some (bs ! nat p) else None)"
  by (induction bs p rule: byte_at.induct) (auto simp: nth_Cons' nat_diff_distrib)

lemma rd8_code [code]: "rd8 fdt p = (if p < 0 then None else byte_at (fdt_bytes fdt) p)"
  by (simp add: rd8_def byte_at_nth)

lemma fdt32_to_cpu_code [code]:
  "fdt32_to_cpu b0 b1 b2 b3 = word_of_int (((uint b0 * 256 + uint b1) * 256 + uint b2) * 256 + uint b3)"
proof -
  let ?a = "push_bit 24 (ucast b0) :: u32" and ?b = "push_bit 16 (ucast b1) :: u32"
    and ?c = "push_bit 8 (ucast b2) :: u32" and ?d = "ucast b3 :: u32"
  have "?a AND (?b OR ?c OR ?d) = 0" "?b AND (?c OR ?d) = 0" "?c AND ?d = 0"
    by (auto simp: bit_eq_iff bit_simps dest!: bit_imp_le_length)
  then have "fdt32_to_cpu b0 b1 b2 b3 = ?a + (?b + (?c + ?d))"
    by (simp add: fdt32_to_cpu_def disjunctive_add_eq_or or.assoc)
  also have "\<dots> = word_of_int (((uint b0 * 256 + uint b1) * 256 + uint b2) * 256 + uint b3)"
    by (simp add: push_bit_eq_mult algebra_simps)
  finally show ?thesis .
qed

text \<open>\<^verbatim>\<open>memcmp\<close> of blob bytes with given bytes, tested against 0: it stops at the first difference.\<close>

fun blob_eq :: "fdt \<Rightarrow> int \<Rightarrow> u8 list \<Rightarrow> bool option" where
  "blob_eq fdt p [] = Some True"
| "blob_eq fdt p (c # s) = do { b \<leftarrow> rd8 fdt p; if b = c then blob_eq fdt (p + 1) s else Some False }"

text \<open>\<^verbatim>\<open>memchr\<close> on blob bytes: the position of the byte within \<open>n\<close> bytes.\<close>

fun blob_chr :: "fdt \<Rightarrow> int \<Rightarrow> u8 \<Rightarrow> nat \<Rightarrow> int option option" where
  "blob_chr fdt p c 0 = Some None"
| "blob_chr fdt p c (Suc n) =
     do { b \<leftarrow> rd8 fdt p; if b = c then Some (Some p) else blob_chr fdt (p + 1) c n }"

text \<open>\<^verbatim>\<open>strlen\<close>, and the bytes of the string, at a blob pointer; \<^verbatim>\<open>strnlen\<close> likewise.\<close>

partial_function (option) blob_str :: "fdt \<Rightarrow> int \<Rightarrow> u8 list option" where
  [code]: "blob_str fdt p =
     do { b \<leftarrow> rd8 fdt p; if b = 0 then Some [] else do { s \<leftarrow> blob_str fdt (p + 1); Some (b # s) } }"

definition blob_strlen :: "fdt \<Rightarrow> int \<Rightarrow> int option" where
  "blob_strlen fdt p = do { s \<leftarrow> blob_str fdt p; Some (int (length s)) }"

fun blob_strnlen :: "fdt \<Rightarrow> int \<Rightarrow> nat \<Rightarrow> int option" where
  "blob_strnlen fdt p 0 = Some 0"
| "blob_strnlen fdt p (Suc n) =
     do { b \<leftarrow> rd8 fdt p; if b = 0 then Some 0 else do { k \<leftarrow> blob_strnlen fdt (p + 1) n; Some (k + 1) } }"

text \<open>\<^verbatim>\<open>strrchr\<close> on a string at a blob pointer.\<close>

definition blob_strrchr :: "fdt \<Rightarrow> int \<Rightarrow> u8 \<Rightarrow> int option option" where
  "blob_strrchr fdt p c = do {
     s \<leftarrow> blob_str fdt p;
     Some (if c \<in> set s then Some (p + int (length s - 1 - length (takeWhile (\<lambda>b. b \<noteq> c) (rev s)))) else None) }"

section \<open>Header\<close>

definition fdt_magic :: "fdt \<Rightarrow> u32 option" where
  "fdt_magic fdt = fdt32_ld fdt 0"

definition fdt_totalsize :: "fdt \<Rightarrow> u32 option" where
  "fdt_totalsize fdt = fdt32_ld fdt 4"

definition fdt_off_dt_struct :: "fdt \<Rightarrow> u32 option" where
  "fdt_off_dt_struct fdt = fdt32_ld fdt 8"

definition fdt_off_dt_strings :: "fdt \<Rightarrow> u32 option" where
  "fdt_off_dt_strings fdt = fdt32_ld fdt 12"

definition fdt_off_mem_rsvmap :: "fdt \<Rightarrow> u32 option" where
  "fdt_off_mem_rsvmap fdt = fdt32_ld fdt 16"

definition fdt_version :: "fdt \<Rightarrow> u32 option" where
  "fdt_version fdt = fdt32_ld fdt 20"

definition fdt_last_comp_version :: "fdt \<Rightarrow> u32 option" where
  "fdt_last_comp_version fdt = fdt32_ld fdt 24"

definition fdt_boot_cpuid_phys :: "fdt \<Rightarrow> u32 option" where
  "fdt_boot_cpuid_phys fdt = fdt32_ld fdt 28"

definition fdt_size_dt_strings :: "fdt \<Rightarrow> u32 option" where
  "fdt_size_dt_strings fdt = fdt32_ld fdt 32"

definition fdt_size_dt_struct :: "fdt \<Rightarrow> u32 option" where
  "fdt_size_dt_struct fdt = fdt32_ld fdt 36"

lemmas fdt_header_defs = fdt_magic_def fdt_totalsize_def fdt_off_dt_struct_def fdt_off_dt_strings_def
  fdt_off_mem_rsvmap_def fdt_version_def fdt_last_comp_version_def fdt_boot_cpuid_phys_def
  fdt_size_dt_strings_def fdt_size_dt_struct_def

abbreviation (input) FDT_MAGIC :: u32 where "FDT_MAGIC \<equiv> 0xd00dfeed"
abbreviation (input) FDT_SW_MAGIC :: u32 where "FDT_SW_MAGIC \<equiv> NOT FDT_MAGIC"
abbreviation (input) FDT_BEGIN_NODE :: u32 where "FDT_BEGIN_NODE \<equiv> 1"
abbreviation (input) FDT_END_NODE :: u32 where "FDT_END_NODE \<equiv> 2"
abbreviation (input) FDT_PROP :: u32 where "FDT_PROP \<equiv> 3"
abbreviation (input) FDT_NOP :: u32 where "FDT_NOP \<equiv> 4"
abbreviation (input) FDT_END :: u32 where "FDT_END \<equiv> 9"
abbreviation (input) FDT_TAGSIZE :: int where "FDT_TAGSIZE \<equiv> 4"

abbreviation (input) FDT_ERR_NOTFOUND :: int where "FDT_ERR_NOTFOUND \<equiv> 1"
abbreviation (input) FDT_ERR_EXISTS :: int where "FDT_ERR_EXISTS \<equiv> 2"
abbreviation (input) FDT_ERR_NOSPACE :: int where "FDT_ERR_NOSPACE \<equiv> 3"
abbreviation (input) FDT_ERR_BADOFFSET :: int where "FDT_ERR_BADOFFSET \<equiv> 4"
abbreviation (input) FDT_ERR_BADPATH :: int where "FDT_ERR_BADPATH \<equiv> 5"
abbreviation (input) FDT_ERR_BADPHANDLE :: int where "FDT_ERR_BADPHANDLE \<equiv> 6"
abbreviation (input) FDT_ERR_BADSTATE :: int where "FDT_ERR_BADSTATE \<equiv> 7"
abbreviation (input) FDT_ERR_TRUNCATED :: int where "FDT_ERR_TRUNCATED \<equiv> 8"
abbreviation (input) FDT_ERR_BADMAGIC :: int where "FDT_ERR_BADMAGIC \<equiv> 9"
abbreviation (input) FDT_ERR_BADVERSION :: int where "FDT_ERR_BADVERSION \<equiv> 10"
abbreviation (input) FDT_ERR_BADSTRUCTURE :: int where "FDT_ERR_BADSTRUCTURE \<equiv> 11"
abbreviation (input) FDT_ERR_BADLAYOUT :: int where "FDT_ERR_BADLAYOUT \<equiv> 12"
abbreviation (input) FDT_ERR_INTERNAL :: int where "FDT_ERR_INTERNAL \<equiv> 13"
abbreviation (input) FDT_ERR_BADNCELLS :: int where "FDT_ERR_BADNCELLS \<equiv> 14"
abbreviation (input) FDT_ERR_BADVALUE :: int where "FDT_ERR_BADVALUE \<equiv> 15"
abbreviation (input) FDT_ERR_NOPHANDLES :: int where "FDT_ERR_NOPHANDLES \<equiv> 17"
abbreviation (input) FDT_ERR_BADFLAGS :: int where "FDT_ERR_BADFLAGS \<equiv> 18"
abbreviation (input) FDT_ERR_ALIGNMENT :: int where "FDT_ERR_ALIGNMENT \<equiv> 19"

section \<open>Sanity checks\<close>

definition fdt_ro_probe' :: "fdt \<Rightarrow> int option" where
  "fdt_ro_probe' fdt = do {
     totalsize \<leftarrow> fdt_totalsize fdt;
     if fdt_addr fdt AND 7 \<noteq> 0 then Some (- FDT_ERR_ALIGNMENT)
     else do {
       magic \<leftarrow> fdt_magic fdt;
       err \<leftarrow>
         (if magic = FDT_MAGIC then do {
            version \<leftarrow> fdt_version fdt;
            if version < 2 then Some (Some (- FDT_ERR_BADVERSION))
            else do {
              last_comp \<leftarrow> fdt_last_comp_version fdt;
              Some (if last_comp > 17 then Some (- FDT_ERR_BADVERSION) else None) } }
          else if magic = FDT_SW_MAGIC then do {
            sz \<leftarrow> fdt_size_dt_struct fdt;
            Some (if sz = 0 then Some (- FDT_ERR_BADSTATE) else None) }
          else Some (Some (- FDT_ERR_BADMAGIC)));
       Some (case err of
         Some e \<Rightarrow> e
       | None \<Rightarrow> if uint totalsize < 2147483647 then uint totalsize else - FDT_ERR_TRUNCATED) } }"

definition check_off' :: "u32 \<Rightarrow> u32 \<Rightarrow> u32 \<Rightarrow> bool" where
  "check_off' hdrsize totalsize off \<longleftrightarrow> off \<ge> hdrsize \<and> off \<le> totalsize"

definition check_block' :: "u32 \<Rightarrow> u32 \<Rightarrow> u32 \<Rightarrow> u32 \<Rightarrow> bool" where
  "check_block' hdrsize totalsize base sz =
     (if \<not> check_off' hdrsize totalsize base then False
      else if base + sz < base then False
      else if \<not> check_off' hdrsize totalsize (base + sz) then False
      else True)"

definition fdt_header_size' :: "u32 \<Rightarrow> u32" where
  "fdt_header_size' version =
     (if version \<le> 1 then 28
      else if version \<le> 2 then 32
      else if version \<le> 3 then 36
      else if version \<le> 16 then 36
      else 40)"

definition fdt_header_size :: "fdt \<Rightarrow> u32 option" where
  "fdt_header_size fdt = do { version \<leftarrow> fdt_version fdt; Some (fdt_header_size' version) }"

definition fdt_check_header :: "fdt \<Rightarrow> int option" where
  "fdt_check_header fdt =
     (if fdt_addr fdt AND 7 \<noteq> 0 then Some (- FDT_ERR_ALIGNMENT)
      else do {
        magic \<leftarrow> fdt_magic fdt;
        if magic \<noteq> FDT_MAGIC then Some (- FDT_ERR_BADMAGIC)
        else do {
          version \<leftarrow> fdt_version fdt;
          last_comp \<leftarrow> fdt_last_comp_version fdt;
          if version < 2 \<or> last_comp > 17 then Some (- FDT_ERR_BADVERSION)
          else if version < last_comp then Some (- FDT_ERR_BADVERSION)
          else do {
            hdrsize \<leftarrow> fdt_header_size fdt;
            totalsize \<leftarrow> fdt_totalsize fdt;
            off_mem_rsvmap \<leftarrow> fdt_off_mem_rsvmap fdt;
            off_dt_struct \<leftarrow> fdt_off_dt_struct fdt;
            if totalsize < hdrsize \<or> uint totalsize > INT_MAX then Some (- FDT_ERR_TRUNCATED)
            else if off_mem_rsvmap mod 8 \<noteq> 0 then Some (- FDT_ERR_ALIGNMENT)
            else if off_dt_struct mod 4 \<noteq> 0 then Some (- FDT_ERR_ALIGNMENT)
            else if \<not> check_off' hdrsize totalsize off_mem_rsvmap then Some (- FDT_ERR_TRUNCATED)
            else do {
              struct_ok \<leftarrow>
                (if version < 17 then Some (check_off' hdrsize totalsize off_dt_struct)
                 else do {
                   size_dt_struct \<leftarrow> fdt_size_dt_struct fdt;
                   Some (check_block' hdrsize totalsize off_dt_struct size_dt_struct) });
              if \<not> struct_ok then Some (- FDT_ERR_TRUNCATED)
              else do {
                off_dt_strings \<leftarrow> fdt_off_dt_strings fdt;
                size_dt_strings \<leftarrow> fdt_size_dt_strings fdt;
                if \<not> check_block' hdrsize totalsize off_dt_strings size_dt_strings
                then Some (- FDT_ERR_TRUNCATED)
                else Some 0 } } } } })"

section \<open>The structure block\<close>

definition fdt_offset_ptr' :: "fdt \<Rightarrow> int \<Rightarrow> int option" where
  "fdt_offset_ptr' fdt offset = do { off_dt_struct \<leftarrow> fdt_off_dt_struct fdt; Some (uint off_dt_struct + offset) }"

definition fdt_offset_ptr :: "fdt \<Rightarrow> int \<Rightarrow> u32 \<Rightarrow> int option option" where
  "fdt_offset_ptr fdt offset len = do {
     off_dt_struct \<leftarrow> fdt_off_dt_struct fdt;
     let uoffset = (word_of_int offset :: u32);
     let absoffset = uoffset + off_dt_struct;
     if offset < 0 then Some None
     else do {
       totalsize \<leftarrow> fdt_totalsize fdt;
       if absoffset < uoffset \<or> absoffset + len < absoffset \<or> absoffset + len > totalsize then Some None
       else do {
         version \<leftarrow> fdt_version fdt;
         if version \<ge> 0x11 then do {
           size_dt_struct \<leftarrow> fdt_size_dt_struct fdt;
           if uoffset + len < uoffset \<or> uoffset + len > size_dt_struct then Some None
           else do { p \<leftarrow> fdt_offset_ptr' fdt offset; Some (Some p) } }
         else do { p \<leftarrow> fdt_offset_ptr' fdt offset; Some (Some p) } } } }"

definition FDT_TAGALIGN :: "int \<Rightarrow> int" where
  "FDT_TAGALIGN x = c_int ((x + 4 - 1) AND NOT (4 - 1))"

text \<open>The name of a node is skipped byte by byte; the result is the offset after its zero byte, or
  \<open>None\<close> where the block ends first.\<close>

partial_function (option) skip_name :: "fdt \<Rightarrow> int \<Rightarrow> int option option" where
  [code]: "skip_name fdt offset = do {
     p \<leftarrow> fdt_offset_ptr fdt offset 1;
     (case p of
        None \<Rightarrow> Some None
      | Some p \<Rightarrow> do { b \<leftarrow> rd8 fdt p;
                      if b \<noteq> 0 then skip_name fdt (c_int (offset + 1)) else Some (Some (c_int (offset + 1))) }) }"

text \<open>The offset after the length, name offset and value of a property; \<open>None\<close> is a premature end.\<close>

definition skip_prop :: "fdt \<Rightarrow> int \<Rightarrow> int option option" where
  "skip_prop fdt offset = do {
     lenp \<leftarrow> fdt_offset_ptr fdt offset 4;
     (case lenp of
        None \<Rightarrow> Some None
      | Some lenp \<Rightarrow> do {
          len \<leftarrow> fdt32_ld fdt lenp;
          let sum = len + word_of_int offset;
          if INT_MAX \<le> uint sum \<or> sum < word_of_int offset then Some None
          else do {
            let offset = c_int (offset + (12 - 4) + uint len);
            version \<leftarrow> fdt_version fdt;
            Some (Some (if version < 0x10 \<and> len \<ge> 8 \<and> (word_of_int offset - len) mod 8 \<noteq> 0
                        then c_int (offset + 4) else offset)) } }) }"

text \<open>The \<^verbatim>\<open>switch (tag)\<close> of \<^verbatim>\<open>fdt_next_tag\<close>.\<close>

definition skip_tag :: "fdt \<Rightarrow> u32 \<Rightarrow> int \<Rightarrow> int option option" where
  "skip_tag fdt tag offset =
     (if tag = FDT_BEGIN_NODE then skip_name fdt offset
      else if tag = FDT_PROP then skip_prop fdt offset
      else if tag = FDT_END \<or> tag = FDT_END_NODE \<or> tag = FDT_NOP then Some (Some offset)
      else Some None)"

definition fdt_next_tag :: "fdt \<Rightarrow> int \<Rightarrow> (u32 \<times> int) option" where
  "fdt_next_tag fdt startoffset = do {
     tagp \<leftarrow> fdt_offset_ptr fdt startoffset 4;
     (case tagp of
        None \<Rightarrow> Some (FDT_END, - FDT_ERR_TRUNCATED)
      | Some tagp \<Rightarrow> do {
          tag \<leftarrow> fdt32_ld fdt tagp;
          let offset = c_int (startoffset + FDT_TAGSIZE);
          offset \<leftarrow> skip_tag fdt tag offset;
          (case offset of
             None \<Rightarrow> Some (FDT_END, - FDT_ERR_BADSTRUCTURE)
           | Some offset \<Rightarrow> do {
               p \<leftarrow> fdt_offset_ptr fdt startoffset (word_of_int (offset - startoffset));
               Some (case p of
                 None \<Rightarrow> (FDT_END, - FDT_ERR_BADSTRUCTURE)
               | Some _ \<Rightarrow> (tag, FDT_TAGALIGN offset)) }) }) }"

definition fdt_check_node_offset' :: "fdt \<Rightarrow> int \<Rightarrow> int option" where
  "fdt_check_node_offset' fdt offset =
     (if offset < 0 \<or> offset mod FDT_TAGSIZE \<noteq> 0 then Some (- FDT_ERR_BADOFFSET)
      else do {
        (tag, nextoffset) \<leftarrow> fdt_next_tag fdt offset;
        Some (if tag \<noteq> FDT_BEGIN_NODE then - FDT_ERR_BADOFFSET else nextoffset) })"

definition fdt_check_prop_offset' :: "fdt \<Rightarrow> int \<Rightarrow> int option" where
  "fdt_check_prop_offset' fdt offset =
     (if offset < 0 \<or> offset mod FDT_TAGSIZE \<noteq> 0 then Some (- FDT_ERR_BADOFFSET)
      else do {
        (tag, nextoffset) \<leftarrow> fdt_next_tag fdt offset;
        Some (if tag \<noteq> FDT_PROP then - FDT_ERR_BADOFFSET else nextoffset) })"

text \<open>\<^verbatim>\<open>fdt_next_node\<close>: \<open>depth\<close> is \<open>None\<close> where the caller passes a null pointer; the result is the
  return value and the depth after the call.\<close>

partial_function (option) next_node_loop :: "fdt \<Rightarrow> int \<Rightarrow> int option \<Rightarrow> (int \<times> int option) option" where
  [code]: "next_node_loop fdt offset depth = do {
     (tag, nextoffset) \<leftarrow> fdt_next_tag fdt offset;
     if tag = FDT_PROP \<or> tag = FDT_NOP then next_node_loop fdt nextoffset depth
     else if tag = FDT_BEGIN_NODE then Some (offset, map_option (\<lambda>d. c_int (d + 1)) depth)
     else if tag = FDT_END_NODE then
       (case depth of
          None \<Rightarrow> next_node_loop fdt nextoffset depth
        | Some d \<Rightarrow> if c_int (d - 1) < 0 then Some (nextoffset, Some (c_int (d - 1)))
                    else next_node_loop fdt nextoffset (Some (c_int (d - 1))))
     else if tag = FDT_END then
       Some (if nextoffset \<ge> 0 \<or> nextoffset = - FDT_ERR_TRUNCATED \<and> depth = None
             then - FDT_ERR_NOTFOUND else nextoffset, depth)
     else next_node_loop fdt nextoffset depth }"

definition fdt_next_node :: "fdt \<Rightarrow> int \<Rightarrow> int option \<Rightarrow> (int \<times> int option) option" where
  "fdt_next_node fdt offset depth =
     (if offset \<ge> 0 then do {
        nextoffset \<leftarrow> fdt_check_node_offset' fdt offset;
        if nextoffset < 0 then Some (nextoffset, depth) else next_node_loop fdt nextoffset depth }
      else next_node_loop fdt 0 depth)"

definition fdt_first_subnode :: "fdt \<Rightarrow> int \<Rightarrow> int option" where
  "fdt_first_subnode fdt offset = do {
     (offset, depth) \<leftarrow> fdt_next_node fdt offset (Some 0);
     Some (if offset < 0 \<or> depth \<noteq> Some 1 then - FDT_ERR_NOTFOUND else offset) }"

partial_function (option) next_subnode_loop :: "fdt \<Rightarrow> int \<Rightarrow> int \<Rightarrow> int option" where
  [code]: "next_subnode_loop fdt offset depth = do {
     (offset, depth') \<leftarrow> fdt_next_node fdt offset (Some depth);
     let depth = the depth';
     if offset < 0 \<or> depth < 1 then Some (- FDT_ERR_NOTFOUND)
     else if depth > 1 then next_subnode_loop fdt offset depth
     else Some offset }"

definition fdt_next_subnode :: "fdt \<Rightarrow> int \<Rightarrow> int option" where
  "fdt_next_subnode fdt offset = next_subnode_loop fdt offset 1"

text \<open>\<^verbatim>\<open>fdt_find_string_len_\<close>: the scan of a table of \<open>tabsize\<close> bytes at \<open>strtab\<close> for a string.\<close>

function find_string_loop :: "fdt \<Rightarrow> int \<Rightarrow> int \<Rightarrow> u8 list \<Rightarrow> int option option" where
  "find_string_loop fdt lst p s =
     (if p \<le> lst then
        (case blob_eq fdt p s of
           None \<Rightarrow> None
         | Some eq \<Rightarrow>
             (case (if eq then rd8 fdt (p + int (length s)) else Some 1) of
                None \<Rightarrow> None
              | Some b \<Rightarrow> if eq \<and> b = 0 then Some (Some p) else find_string_loop fdt lst (p + 1) s))
      else Some None)"
  by pat_completeness auto
termination by (relation "measure (\<lambda>(_, lst, p, _). nat (lst + 1 - p))") auto

definition fdt_find_string_len' :: "fdt \<Rightarrow> int \<Rightarrow> int \<Rightarrow> u8 list \<Rightarrow> int option option" where
  "fdt_find_string_len' fdt strtab tabsize s =
     find_string_loop fdt (strtab + tabsize - (int (length s) + 1)) strtab s"

text \<open>\<^verbatim>\<open>fdt_move\<close> into a buffer of \<open>bufsize\<close> bytes: the result and the moved bytes.\<close>

definition fdt_move :: "fdt \<Rightarrow> int \<Rightarrow> (int \<times> u8 list option) option" where
  "fdt_move fdt bufsize =
     (if bufsize < 0 then Some (- FDT_ERR_NOSPACE, None)
      else do {
        totalsize' \<leftarrow> fdt_ro_probe' fdt;
        if totalsize' < 0 then Some (totalsize', None)
        else do {
          totalsize \<leftarrow> fdt_totalsize fdt;
          if uint totalsize > bufsize then Some (- FDT_ERR_NOSPACE, None)
          else if unat totalsize \<le> length (fdt_bytes fdt)
          then Some (0, Some (take (unat totalsize) (fdt_bytes fdt)))
          else None } })"

end
