(* ===== verification/Fdt_Ro.thy ===== *)
theory Fdt_Ro
  imports Fdt_Base
begin

unbundle bit_operations_syntax

text \<open>
  Read-only access to a device tree: \<^verbatim>\<open>lib/libfdt/fdt_ro.c\<close>, one definition per function and one
  per loop.  A name with its length is a byte list, so a \<^verbatim>\<open>..._namelen\<close> function and its variant
  that calls \<^verbatim>\<open>strlen\<close> are the same definition applied to the same bytes.  A function that returns
  a pointer and stores a length or an error through \<^verbatim>\<open>lenp\<close> returns \<open>Inr (pointer, length)\<close>, or
  \<open>Inl error\<close> where it returns a null pointer.
\<close>

section \<open>The string table\<close>

definition FDT_RO_PROBE :: "fdt \<Rightarrow> int option \<Rightarrow> int option" where
  "FDT_RO_PROBE fdt k = do { totalsize \<leftarrow> fdt_ro_probe' fdt; if totalsize < 0 then Some totalsize else k }"

definition fdt_get_string :: "fdt \<Rightarrow> int \<Rightarrow> (int + int \<times> int) option" where
  "fdt_get_string fdt stroffset = do {
     totalsize \<leftarrow> fdt_ro_probe' fdt;
     if totalsize < 0 then Some (Inl totalsize)
     else do {
       off_dt_strings \<leftarrow> fdt_off_dt_strings fdt;
       let absoffset = word_of_int stroffset + off_dt_strings;
       if absoffset \<ge> word_of_int totalsize then Some (Inl (- FDT_ERR_BADOFFSET))
       else do {
         let len = word_of_int totalsize - absoffset;
         magic \<leftarrow> fdt_magic fdt;
         let sw_stroffset = word_of_int (- stroffset);
         len' \<leftarrow>
           (if magic = FDT_MAGIC then
              if stroffset < 0 then Some (Inl (- FDT_ERR_BADOFFSET))
              else do {
                version \<leftarrow> fdt_version fdt;
                if version \<ge> 17 then do {
                  size_dt_strings \<leftarrow> fdt_size_dt_strings fdt;
                  Some (if word_of_int stroffset \<ge> size_dt_strings then Inl (- FDT_ERR_BADOFFSET)
                        else Inr (if size_dt_strings - word_of_int stroffset < len
                                  then size_dt_strings - word_of_int stroffset else len)) }
                else Some (Inr len) }
            else if magic = FDT_SW_MAGIC then do {
              size_dt_strings \<leftarrow> fdt_size_dt_strings fdt;
              Some (if stroffset \<ge> 0 \<or> sw_stroffset > size_dt_strings then Inl (- FDT_ERR_BADOFFSET)
                    else Inr (if sw_stroffset < len then sw_stroffset else len)) }
            else Some (Inl (- FDT_ERR_INTERNAL)));
         (case len' of
            Inl err \<Rightarrow> Some (Inl err)
          | Inr len \<Rightarrow> do {
              let s = uint absoffset;
              n \<leftarrow> blob_chr fdt s 0 (unat len);
              Some (case n of None \<Rightarrow> Inl (- FDT_ERR_TRUNCATED) | Some n \<Rightarrow> Inr (s, n - s)) }) } } }"

definition fdt_string :: "fdt \<Rightarrow> int \<Rightarrow> int option option" where
  "fdt_string fdt stroffset = do {
     r \<leftarrow> fdt_get_string fdt stroffset;
     Some (case r of Inl _ \<Rightarrow> None | Inr (s, _) \<Rightarrow> Some s) }"

definition fdt_string_eq' :: "fdt \<Rightarrow> int \<Rightarrow> u8 list \<Rightarrow> bool option" where
  "fdt_string_eq' fdt stroffset s = do {
     r \<leftarrow> fdt_get_string fdt stroffset;
     (case r of
        Inl _ \<Rightarrow> Some False
      | Inr (p, slen) \<Rightarrow> if slen = int (length s) then blob_eq fdt p s else Some False) }"

section \<open>The memory reservation map\<close>

definition fdt_mem_rsv :: "fdt \<Rightarrow> int \<Rightarrow> int option option" where
  "fdt_mem_rsv fdt n = do {
     off_mem_rsvmap \<leftarrow> fdt_off_mem_rsvmap fdt;
     totalsize \<leftarrow> fdt_totalsize fdt;
     let absoffset = off_mem_rsvmap + word_of_int (n * 16);
     Some (if absoffset < off_mem_rsvmap then None
           else if (ucast absoffset :: size_t) > ucast totalsize - 16 then None
           else Some (uint off_mem_rsvmap + n * 16)) }"

definition fdt_get_mem_rsv :: "fdt \<Rightarrow> int \<Rightarrow> (int + u64 \<times> u64) option" where
  "fdt_get_mem_rsv fdt n = do {
     probe \<leftarrow> fdt_ro_probe' fdt;
     if probe < 0 then Some (Inl probe)
     else do {
       re \<leftarrow> fdt_mem_rsv fdt n;
       (case re of
          None \<Rightarrow> Some (Inl (- FDT_ERR_BADOFFSET))
        | Some re \<Rightarrow> do {
            address \<leftarrow> fdt64_ld fdt re;
            sz \<leftarrow> fdt64_ld fdt (re + 8);
            Some (Inr (address, sz)) }) } }"

partial_function (option) num_mem_rsv_loop :: "fdt \<Rightarrow> int \<Rightarrow> int option" where
  [code]: "num_mem_rsv_loop fdt i = do {
     re \<leftarrow> fdt_mem_rsv fdt i;
     (case re of
        None \<Rightarrow> Some (- FDT_ERR_TRUNCATED)
      | Some re \<Rightarrow> do {
          sz \<leftarrow> fdt64_ld fdt (re + 8);
          if sz = 0 then Some i else num_mem_rsv_loop fdt (i + 1) }) }"

definition fdt_num_mem_rsv :: "fdt \<Rightarrow> int option" where
  "fdt_num_mem_rsv fdt = FDT_RO_PROBE fdt (num_mem_rsv_loop fdt 0)"

section \<open>Nodes and their names\<close>

definition fdt_get_name :: "fdt \<Rightarrow> int \<Rightarrow> (int + int \<times> int) option" where
  "fdt_get_name fdt nodeoffset = do {
     nh \<leftarrow> fdt_offset_ptr' fdt nodeoffset;
     err \<leftarrow> fdt_ro_probe' fdt;
     if err < 0 then Some (Inl err)
     else do {
       err \<leftarrow> fdt_check_node_offset' fdt nodeoffset;
       if err < 0 then Some (Inl err)
       else do {
         let nameptr = nh + 4;
         version \<leftarrow> fdt_version fdt;
         nameptr \<leftarrow>
           (if version < 0x10 then do {
              leaf \<leftarrow> blob_strrchr fdt nameptr 0x2f;
              Some (map_option (\<lambda>l. l + 1) leaf) }
            else Some (Some nameptr));
         (case nameptr of
            None \<Rightarrow> Some (Inl (- FDT_ERR_BADSTRUCTURE))
          | Some nameptr \<Rightarrow> do { len \<leftarrow> blob_strlen fdt nameptr; Some (Inr (nameptr, len)) }) } } }"

definition fdt_nodename_eq' :: "fdt \<Rightarrow> int \<Rightarrow> u8 list \<Rightarrow> bool option" where
  "fdt_nodename_eq' fdt offset s = do {
     r \<leftarrow> fdt_get_name fdt offset;
     (case r of
        Inl _ \<Rightarrow> Some False
      | Inr (p, olen) \<Rightarrow>
          if olen < int (length s) then Some False
          else do {
            eq \<leftarrow> blob_eq fdt p s;
            if \<not> eq then Some False
            else do {
              c \<leftarrow> rd8 fdt (p + int (length s));
              Some (if c = 0 then True
                    else if 0x40 \<notin> set s \<and> c = 0x40 then True
                    else False) } }) }"

partial_function (option) subnode_offset_loop :: "fdt \<Rightarrow> int \<Rightarrow> int \<Rightarrow> u8 list \<Rightarrow> int option" where
  [code]: "subnode_offset_loop fdt offset depth name =
     (if offset \<ge> 0 \<and> depth \<ge> 0 then do {
        eq \<leftarrow> (if depth = 1 then fdt_nodename_eq' fdt offset name else Some False);
        if eq then Some offset
        else do {
          (offset, depth') \<leftarrow> fdt_next_node fdt offset (Some depth);
          subnode_offset_loop fdt offset (the depth') name } }
      else if depth < 0 then Some (- FDT_ERR_NOTFOUND)
      else Some offset)"

definition fdt_subnode_offset_namelen :: "fdt \<Rightarrow> int \<Rightarrow> u8 list \<Rightarrow> int option" where
  "fdt_subnode_offset_namelen fdt offset name = FDT_RO_PROBE fdt (subnode_offset_loop fdt offset 0 name)"

definition fdt_subnode_offset :: "fdt \<Rightarrow> int \<Rightarrow> u8 list \<Rightarrow> int option" where
  "fdt_subnode_offset fdt parentoffset name = fdt_subnode_offset_namelen fdt parentoffset name"

section \<open>Properties\<close>

partial_function (option) nextprop' :: "fdt \<Rightarrow> int \<Rightarrow> int option" where
  [code]: "nextprop' fdt offset = do {
     (tag, nextoffset) \<leftarrow> fdt_next_tag fdt offset;
     if tag = FDT_END then Some (if nextoffset \<ge> 0 then - FDT_ERR_BADSTRUCTURE else nextoffset)
     else if tag = FDT_PROP then Some offset
     else if tag = FDT_NOP then nextprop' fdt nextoffset
     else Some (- FDT_ERR_NOTFOUND) }"

definition fdt_first_property_offset :: "fdt \<Rightarrow> int \<Rightarrow> int option" where
  "fdt_first_property_offset fdt nodeoffset = do {
     offset \<leftarrow> fdt_check_node_offset' fdt nodeoffset;
     if offset < 0 then Some offset else nextprop' fdt offset }"

definition fdt_next_property_offset :: "fdt \<Rightarrow> int \<Rightarrow> int option" where
  "fdt_next_property_offset fdt offset = do {
     offset \<leftarrow> fdt_check_prop_offset' fdt offset;
     if offset < 0 then Some offset else nextprop' fdt offset }"

definition fdt_get_property_by_offset' :: "fdt \<Rightarrow> int \<Rightarrow> (int + int \<times> int) option" where
  "fdt_get_property_by_offset' fdt offset = do {
     err \<leftarrow> fdt_check_prop_offset' fdt offset;
     if err < 0 then Some (Inl err)
     else do {
       prop \<leftarrow> fdt_offset_ptr' fdt offset;
       len \<leftarrow> fdt32_ld fdt (prop + 4);
       Some (Inr (prop, sint len)) } }"

definition fdt_get_property_by_offset :: "fdt \<Rightarrow> int \<Rightarrow> (int + int \<times> int) option" where
  "fdt_get_property_by_offset fdt offset = do {
     version \<leftarrow> fdt_version fdt;
     if version < 0x10 then Some (Inl (- FDT_ERR_BADVERSION))
     else fdt_get_property_by_offset' fdt offset }"

text \<open>The loop of \<^verbatim>\<open>fdt_get_property_namelen_\<close>; on success also the offset stored in \<^verbatim>\<open>poffset\<close>.\<close>

partial_function (option) get_property_loop ::
    "fdt \<Rightarrow> int \<Rightarrow> u8 list \<Rightarrow> (int + int \<times> int \<times> int) option" where
  [code]: "get_property_loop fdt offset name =
     (if offset \<ge> 0 then do {
        r \<leftarrow> fdt_get_property_by_offset' fdt offset;
        (case r of
           Inl _ \<Rightarrow> Some (Inl (- FDT_ERR_INTERNAL))
         | Inr (prop, len) \<Rightarrow> do {
             nameoff \<leftarrow> fdt32_ld fdt (prop + 8);
             eq \<leftarrow> fdt_string_eq' fdt (sint nameoff) name;
             if eq then Some (Inr (prop, len, offset))
             else do {
               offset \<leftarrow> fdt_next_property_offset fdt offset;
               get_property_loop fdt offset name } }) }
      else Some (Inl offset))"

definition fdt_get_property_namelen' :: "fdt \<Rightarrow> int \<Rightarrow> u8 list \<Rightarrow> (int + int \<times> int \<times> int) option" where
  "fdt_get_property_namelen' fdt offset name = do {
     offset \<leftarrow> fdt_first_property_offset fdt offset;
     get_property_loop fdt offset name }"

definition fdt_get_property_namelen :: "fdt \<Rightarrow> int \<Rightarrow> u8 list \<Rightarrow> (int + int \<times> int) option" where
  "fdt_get_property_namelen fdt offset name = do {
     version \<leftarrow> fdt_version fdt;
     if version < 0x10 then Some (Inl (- FDT_ERR_BADVERSION))
     else do {
       r \<leftarrow> fdt_get_property_namelen' fdt offset name;
       Some (case r of Inl e \<Rightarrow> Inl e | Inr (prop, len, _) \<Rightarrow> Inr (prop, len)) } }"

definition fdt_get_property :: "fdt \<Rightarrow> int \<Rightarrow> u8 list \<Rightarrow> (int + int \<times> int) option" where
  "fdt_get_property fdt nodeoffset name = fdt_get_property_namelen fdt nodeoffset name"

text \<open>The data of the property at \<open>prop\<close>, found at \<open>offset\<close>: version below 16 realigns it.\<close>

definition prop_data :: "fdt \<Rightarrow> int \<Rightarrow> int \<Rightarrow> int option" where
  "prop_data fdt offset prop = do {
     version \<leftarrow> fdt_version fdt;
     len \<leftarrow> fdt32_ld fdt (prop + 4);
     Some (if version < 0x10 \<and> (offset + 12) mod 8 \<noteq> 0 \<and> len \<ge> 8 then prop + 12 + 4 else prop + 12) }"

definition fdt_getprop_namelen :: "fdt \<Rightarrow> int \<Rightarrow> u8 list \<Rightarrow> (int + int \<times> int) option" where
  "fdt_getprop_namelen fdt nodeoffset name = do {
     r \<leftarrow> fdt_get_property_namelen' fdt nodeoffset name;
     (case r of
        Inl e \<Rightarrow> Some (Inl e)
      | Inr (prop, len, poffset) \<Rightarrow> do {
          data \<leftarrow> prop_data fdt poffset prop;
          Some (Inr (data, len)) }) }"

text \<open>\<^verbatim>\<open>fdt_getprop_by_offset\<close> with a \<^verbatim>\<open>namep\<close> that is not null: data, name and length.\<close>

definition fdt_getprop_by_offset :: "fdt \<Rightarrow> int \<Rightarrow> (int + int \<times> int \<times> int) option" where
  "fdt_getprop_by_offset fdt offset = do {
     r \<leftarrow> fdt_get_property_by_offset' fdt offset;
     (case r of
        Inl e \<Rightarrow> Some (Inl e)
      | Inr (prop, len) \<Rightarrow> do {
          nameoff \<leftarrow> fdt32_ld fdt (prop + 8);
          name \<leftarrow> fdt_get_string fdt (sint nameoff);
          (case name of
             Inl e \<Rightarrow> Some (Inl e)
           | Inr (name, _) \<Rightarrow> do {
               data \<leftarrow> prop_data fdt offset prop;
               Some (Inr (data, name, len)) }) }) }"

definition fdt_getprop :: "fdt \<Rightarrow> int \<Rightarrow> u8 list \<Rightarrow> (int + int \<times> int) option" where
  "fdt_getprop fdt nodeoffset name = fdt_getprop_namelen fdt nodeoffset name"

section \<open>Phandles\<close>

text \<open>Byte strings of the literals used below.\<close>

definition bytes_of :: "string \<Rightarrow> u8 list" where
  "bytes_of s = map (of_char :: char \<Rightarrow> u8) s"

definition fdt_get_phandle :: "fdt \<Rightarrow> int \<Rightarrow> u32 option" where
  "fdt_get_phandle fdt nodeoffset = do {
     php \<leftarrow> fdt_getprop fdt nodeoffset (bytes_of ''phandle'');
     php \<leftarrow>
       (if (case php of Inl _ \<Rightarrow> True | Inr (_, len) \<Rightarrow> len \<noteq> 4)
        then fdt_getprop fdt nodeoffset (bytes_of ''linux,phandle'') else Some php);
     (case php of
        Inl _ \<Rightarrow> Some 0
      | Inr (php, len) \<Rightarrow> if len \<noteq> 4 then Some 0 else fdt32_ld fdt php) }"

partial_function (option) find_max_phandle_loop :: "fdt \<Rightarrow> int \<Rightarrow> u32 \<Rightarrow> (int + u32) option" where
  [code]: "find_max_phandle_loop fdt offset max' = do {
     (offset, _) \<leftarrow> fdt_next_node fdt offset None;
     if offset < 0 then Some (if offset = - FDT_ERR_NOTFOUND then Inr max' else Inl offset)
     else do {
       val \<leftarrow> fdt_get_phandle fdt offset;
       find_max_phandle_loop fdt offset (if val > max' then val else max') } }"

text \<open>The value stored through \<^verbatim>\<open>phandle\<close>, or the error that is returned.\<close>

definition fdt_find_max_phandle :: "fdt \<Rightarrow> (int + u32) option" where
  "fdt_find_max_phandle fdt = find_max_phandle_loop fdt (- 1) 0"

definition fdt_generate_phandle :: "fdt \<Rightarrow> (int + u32) option" where
  "fdt_generate_phandle fdt = do {
     r \<leftarrow> fdt_find_max_phandle fdt;
     Some (case r of
       Inl err \<Rightarrow> Inl err
     | Inr max' \<Rightarrow> if max' = 0xfffffffe then Inl (- FDT_ERR_NOPHANDLES) else Inr (max' + 1)) }"

section \<open>Paths and aliases\<close>

text \<open>
  The \<^verbatim>\<open>while (p < end)\<close> loop of \<^verbatim>\<open>fdt_path_offset_namelen\<close>, on the bytes from \<^verbatim>\<open>p\<close> to \<^verbatim>\<open>end\<close>: slashes are
  skipped, then the component up to the next slash is looked up below \<open>offset\<close>.
\<close>

function path_walk :: "fdt \<Rightarrow> int \<Rightarrow> u8 list \<Rightarrow> int option" where
  "path_walk fdt offset [] = Some offset"
| "path_walk fdt offset (c # p) =
     (if c = 0x2f then path_walk fdt offset p
      else case fdt_subnode_offset_namelen fdt offset (takeWhile (\<lambda>b. b \<noteq> 0x2f) (c # p)) of
             None \<Rightarrow> None
           | Some offset \<Rightarrow>
               if offset < 0 then Some offset else path_walk fdt offset (dropWhile (\<lambda>b. b \<noteq> 0x2f) (c # p)))"
  by pat_completeness auto
termination
  by (relation "measure (\<lambda>(_, _, p). length p)") (auto simp: le_imp_less_Suc length_dropWhile_le)

text \<open>
  \<^verbatim>\<open>fdt_path_offset_namelen\<close> calls \<^verbatim>\<open>fdt_get_alias_namelen\<close> for a path that does not start with a slash, and
  that calls \<^verbatim>\<open>fdt_path_offset\<close> back on \<^verbatim>\<open>"/aliases"\<close> and then on the alias, which starts with a slash.  The
  body takes the alias lookup as its argument; on an absolute path it is never consulted.
\<close>

definition path_offset_body :: "(u8 list \<Rightarrow> int option option) \<Rightarrow> fdt \<Rightarrow> u8 list \<Rightarrow> int option" where
  "path_offset_body alias_offset fdt path =
     FDT_RO_PROBE fdt
       (if path = [] then Some (- FDT_ERR_BADPATH)
        else if hd path \<noteq> 0x2f then do {
          offset \<leftarrow> alias_offset (takeWhile (\<lambda>b. b \<noteq> 0x2f) path);
          (case offset of
             None \<Rightarrow> Some (- FDT_ERR_BADPATH)
           | Some offset \<Rightarrow> path_walk fdt offset (dropWhile (\<lambda>b. b \<noteq> 0x2f) path)) }
        else path_walk fdt 0 path)"

definition absolute_path_offset :: "fdt \<Rightarrow> u8 list \<Rightarrow> int option" where
  "absolute_path_offset fdt path = path_offset_body (\<lambda>_. None) fdt path"

definition fdt_path_getprop_namelen :: "fdt \<Rightarrow> u8 list \<Rightarrow> u8 list \<Rightarrow> (int + int \<times> int) option" where
  "fdt_path_getprop_namelen fdt path propname = do {
     offset \<leftarrow> absolute_path_offset fdt path;
     if offset < 0 then Some (Inl offset) else fdt_getprop_namelen fdt offset propname }"

definition fdt_get_alias_namelen :: "fdt \<Rightarrow> u8 list \<Rightarrow> int option option" where
  "fdt_get_alias_namelen fdt name = do {
     r \<leftarrow> fdt_path_getprop_namelen fdt (bytes_of ''/aliases'') name;
     (case r of
        Inl _ \<Rightarrow> Some None
      | Inr (alias, len) \<Rightarrow>
          if len > 0 then do {
            z \<leftarrow> rd8 fdt (alias + len - 1);
            c \<leftarrow> rd8 fdt alias;
            Some (if z = 0 \<and> c = 0x2f then Some alias else None) }
          else Some None) }"

definition fdt_get_symbol_namelen :: "fdt \<Rightarrow> u8 list \<Rightarrow> int option option" where
  "fdt_get_symbol_namelen fdt name = do {
     r \<leftarrow> fdt_path_getprop_namelen fdt (bytes_of ''/__symbols__'') name;
     Some (case r of Inl _ \<Rightarrow> None | Inr (val, _) \<Rightarrow> Some val) }"

definition fdt_path_offset_namelen :: "fdt \<Rightarrow> u8 list \<Rightarrow> int option" where
  "fdt_path_offset_namelen fdt path =
     path_offset_body
       (\<lambda>name. do {
          p \<leftarrow> fdt_get_alias_namelen fdt name;
          (case p of
             None \<Rightarrow> Some None
           | Some p \<Rightarrow> do { s \<leftarrow> blob_str fdt p; offset \<leftarrow> absolute_path_offset fdt s; Some (Some offset) }) })
       fdt path"

section \<open>Walking up\<close>

text \<open>
  \<^verbatim>\<open>fdt_get_path\<close> writes into a buffer of \<^verbatim>\<open>buflen\<close> bytes: \<open>get_path_back\<close> is its inner \<^verbatim>\<open>do ... while\<close>,
  \<open>get_path_pop\<close> the \<^verbatim>\<open>while (pdepth > depth)\<close> around it.
\<close>

partial_function (option) get_path_back :: "u8 list \<Rightarrow> int \<Rightarrow> int option" where
  [code]: "get_path_back buf p =
     (if 0 \<le> p - 1 - 1 \<and> p - 1 - 1 < int (length buf)
      then if buf ! nat (p - 1 - 1) \<noteq> 0x2f then get_path_back buf (p - 1) else Some (p - 1)
      else None)"

partial_function (option) get_path_pop :: "u8 list \<Rightarrow> int \<Rightarrow> int \<Rightarrow> int \<Rightarrow> (int \<times> int) option" where
  [code]: "get_path_pop buf depth pdepth p =
     (if pdepth > depth then do { p \<leftarrow> get_path_back buf p; get_path_pop buf depth (pdepth - 1) p }
      else Some (pdepth, p))"

fun blob_bytes :: "fdt \<Rightarrow> int \<Rightarrow> nat \<Rightarrow> u8 list option" where
  "blob_bytes fdt p 0 = Some []"
| "blob_bytes fdt p (Suc n) = do { b \<leftarrow> rd8 fdt p; bs \<leftarrow> blob_bytes fdt (p + 1) n; Some (b # bs) }"

definition splice :: "u8 list \<Rightarrow> int \<Rightarrow> u8 list \<Rightarrow> u8 list option" where
  "splice buf p bs =
     (if 0 \<le> p \<and> nat p + length bs \<le> length buf
      then Some (take (nat p) buf @ bs @ drop (nat p + length bs) buf) else None)"

definition get_path_error :: "int \<Rightarrow> int" where
  "get_path_error offset =
     (if offset = - FDT_ERR_NOTFOUND \<or> offset \<ge> 0 then - FDT_ERR_BADOFFSET
      else if offset = - FDT_ERR_BADOFFSET then - FDT_ERR_BADSTRUCTURE
      else offset)"

text \<open>Appending the name of the node at \<open>offset\<close>: the error of \<^verbatim>\<open>fdt_get_name\<close>, or the new buffer,
  \<^verbatim>\<open>pdepth\<close> and \<^verbatim>\<open>p\<close>.\<close>

definition get_path_push ::
    "fdt \<Rightarrow> int \<Rightarrow> int \<Rightarrow> u8 list \<Rightarrow> int \<Rightarrow> int \<Rightarrow> (int + u8 list \<times> int \<times> int) option" where
  "get_path_push fdt offset depth buf pdepth p =
     (if pdepth \<ge> depth then do {
        r \<leftarrow> fdt_get_name fdt offset;
        (case r of
           Inl e \<Rightarrow> Some (Inl e)
         | Inr (name, namelen) \<Rightarrow>
             if p + namelen + 1 \<le> int (length buf) then do {
               bs \<leftarrow> blob_bytes fdt name (nat namelen);
               buf \<leftarrow> splice buf p (bs @ [0x2f]);
               Some (Inr (buf, pdepth + 1, p + namelen + 1)) }
             else Some (Inr (buf, pdepth, p))) }
      else Some (Inr (buf, pdepth, p)))"

partial_function (option) get_path_loop ::
    "fdt \<Rightarrow> int \<Rightarrow> int \<Rightarrow> int \<Rightarrow> u8 list \<Rightarrow> int \<Rightarrow> int \<Rightarrow> (int \<times> u8 list) option" where
  [code]: "get_path_loop fdt nodeoffset offset depth buf pdepth p =
     (if offset \<ge> 0 \<and> offset \<le> nodeoffset then do {
        (pdepth, p) \<leftarrow> get_path_pop buf depth pdepth p;
        r \<leftarrow> get_path_push fdt offset depth buf pdepth p;
        (case r of
           Inl e \<Rightarrow> Some (e, buf)
         | Inr (buf, pdepth, p) \<Rightarrow>
             if offset = nodeoffset then
               if pdepth < depth + 1 then Some (- FDT_ERR_NOSPACE, buf)
               else do { buf \<leftarrow> splice buf (if p > 1 then p - 1 else p) [0]; Some (0, buf) }
             else do {
               (offset, depth') \<leftarrow> fdt_next_node fdt offset (Some depth);
               get_path_loop fdt nodeoffset offset (the depth') buf pdepth p }) }
      else Some (get_path_error offset, buf))"

definition fdt_get_path :: "fdt \<Rightarrow> int \<Rightarrow> u8 list \<Rightarrow> (int \<times> u8 list) option" where
  "fdt_get_path fdt nodeoffset buf = do {
     probe \<leftarrow> fdt_ro_probe' fdt;
     if probe < 0 then Some (probe, buf)
     else if length buf < 2 then Some (- FDT_ERR_NOSPACE, buf)
     else get_path_loop fdt nodeoffset 0 0 buf 0 0 }"

text \<open>The result of \<^verbatim>\<open>fdt_supernode_atdepth_offset\<close> and what it stored through \<^verbatim>\<open>nodedepth\<close>, if anything.\<close>

partial_function (option) supernode_loop ::
    "fdt \<Rightarrow> int \<Rightarrow> int \<Rightarrow> int \<Rightarrow> int \<Rightarrow> int \<Rightarrow> (int \<times> int option) option" where
  [code]: "supernode_loop fdt nodeoffset supernodedepth offset depth supernodeoffset =
     (if offset \<ge> 0 \<and> offset \<le> nodeoffset then do {
        let supernodeoffset = (if depth = supernodedepth then offset else supernodeoffset);
        if offset = nodeoffset then
          Some (if supernodedepth > depth then - FDT_ERR_NOTFOUND else supernodeoffset, Some depth)
        else do {
          (offset, depth') \<leftarrow> fdt_next_node fdt offset (Some depth);
          supernode_loop fdt nodeoffset supernodedepth offset (the depth') supernodeoffset } }
      else Some (get_path_error offset, None))"

definition fdt_supernode_atdepth_offset :: "fdt \<Rightarrow> int \<Rightarrow> int \<Rightarrow> (int \<times> int option) option" where
  "fdt_supernode_atdepth_offset fdt nodeoffset supernodedepth = do {
     probe \<leftarrow> fdt_ro_probe' fdt;
     if probe < 0 then Some (probe, None)
     else if supernodedepth < 0 then Some (- FDT_ERR_NOTFOUND, None)
     else supernode_loop fdt nodeoffset supernodedepth 0 0 (- FDT_ERR_INTERNAL) }"

definition fdt_node_depth :: "fdt \<Rightarrow> int \<Rightarrow> int option" where
  "fdt_node_depth fdt nodeoffset = do {
     (err, nodedepth) \<leftarrow> fdt_supernode_atdepth_offset fdt nodeoffset 0;
     if err \<noteq> 0 then Some (if err < 0 then err else - FDT_ERR_INTERNAL) else nodedepth }"

definition fdt_parent_offset :: "fdt \<Rightarrow> int \<Rightarrow> int option" where
  "fdt_parent_offset fdt nodeoffset = do {
     nodedepth \<leftarrow> fdt_node_depth fdt nodeoffset;
     if nodedepth < 0 then Some nodedepth
     else do {
       (offset, _) \<leftarrow> fdt_supernode_atdepth_offset fdt nodeoffset (nodedepth - 1);
       Some offset } }"

section \<open>Searching all nodes\<close>

text \<open>
  The three searches share their loop: from the node after \<open>offset\<close> on, \<open>found\<close> is tried on each node; its
  result is \<open>Some r\<close> to stop with \<open>r\<close>.
\<close>

partial_function (option) node_search :: "fdt \<Rightarrow> (int \<Rightarrow> int option option) \<Rightarrow> int \<Rightarrow> int option" where
  [code]: "node_search fdt found offset = do {
     (offset, _) \<leftarrow> fdt_next_node fdt offset None;
     if offset \<ge> 0 then do {
       r \<leftarrow> found offset;
       (case r of Some r \<Rightarrow> Some r | None \<Rightarrow> node_search fdt found offset) }
     else Some offset }"

definition fdt_node_offset_by_prop_value :: "fdt \<Rightarrow> int \<Rightarrow> u8 list \<Rightarrow> u8 list \<Rightarrow> int option" where
  "fdt_node_offset_by_prop_value fdt startoffset propname propval =
     FDT_RO_PROBE fdt (node_search fdt
       (\<lambda>offset. do {
          r \<leftarrow> fdt_getprop fdt offset propname;
          (case r of
             Inl _ \<Rightarrow> Some None
           | Inr (val, len) \<Rightarrow>
               if len = int (length propval) then do {
                 eq \<leftarrow> blob_eq fdt val propval;
                 Some (if eq then Some offset else None) }
               else Some None) }) startoffset)"

definition fdt_node_offset_by_phandle :: "fdt \<Rightarrow> u32 \<Rightarrow> int option" where
  "fdt_node_offset_by_phandle fdt phandle =
     (if phandle = 0 \<or> phandle = NOT 0 then Some (- FDT_ERR_BADPHANDLE)
      else FDT_RO_PROBE fdt (node_search fdt
        (\<lambda>offset. do { val \<leftarrow> fdt_get_phandle fdt offset; Some (if val = phandle then Some offset else None) })
        (- 1)))"

section \<open>String lists\<close>

partial_function (option) fdt_stringlist_contains :: "fdt \<Rightarrow> int \<Rightarrow> int \<Rightarrow> u8 list \<Rightarrow> bool option" where
  [code]: "fdt_stringlist_contains fdt strlist listlen str =
     (if listlen \<ge> int (length str) then do {
        eq \<leftarrow> blob_eq fdt strlist (str @ [0]);
        if eq then Some True
        else do {
          p \<leftarrow> blob_chr fdt strlist 0 (nat listlen);
          (case p of
             None \<Rightarrow> Some False
           | Some p \<Rightarrow> fdt_stringlist_contains fdt (p + 1) (listlen - ((p - strlist) + 1)) str) } }
      else Some False)"

text \<open>
  The scan that \<^verbatim>\<open>fdt_stringlist_count\<close>, \<^verbatim>\<open>fdt_stringlist_search\<close> and \<^verbatim>\<open>fdt_stringlist_get\<close> make over the
  strings between \<open>list\<close> and \<open>end\<close>: \<open>hit idx list length\<close> may stop it at a string, \<open>fin\<close> is the
  result at the end of the list.
\<close>

partial_function (option) stringlist_scan ::
    "fdt \<Rightarrow> (int \<Rightarrow> int \<Rightarrow> int \<Rightarrow> (int + int \<times> int) option option) \<Rightarrow> (int \<Rightarrow> int + int \<times> int) \<Rightarrow> int \<Rightarrow> int \<Rightarrow> int
     \<Rightarrow> (int + int \<times> int) option" where
  [code]: "stringlist_scan fdt hit fin end' list' idx =
     (if list' < end' then do {
        n \<leftarrow> blob_strnlen fdt list' (nat (end' - list'));
        let length' = n + 1;
        if list' + length' > end' then Some (Inl (- FDT_ERR_BADVALUE))
        else do {
          r \<leftarrow> hit idx list' length';
          (case r of
             Some r \<Rightarrow> Some r
           | None \<Rightarrow> stringlist_scan fdt hit fin end' (list' + length') (idx + 1)) } }
      else Some (fin idx))"

definition stringlist_prop ::
    "fdt \<Rightarrow> int \<Rightarrow> u8 list \<Rightarrow> (int \<Rightarrow> int \<Rightarrow> int \<Rightarrow> (int + int \<times> int) option option) \<Rightarrow> (int \<Rightarrow> int + int \<times> int)
     \<Rightarrow> (int + int \<times> int) option" where
  "stringlist_prop fdt nodeoffset property hit fin = do {
     r \<leftarrow> fdt_getprop fdt nodeoffset property;
     (case r of
        Inl len \<Rightarrow> Some (Inl len)
      | Inr (list', length') \<Rightarrow> stringlist_scan fdt hit fin (list' + length') list' 0) }"

definition fdt_stringlist_count :: "fdt \<Rightarrow> int \<Rightarrow> u8 list \<Rightarrow> int option" where
  "fdt_stringlist_count fdt nodeoffset property = do {
     r \<leftarrow> stringlist_prop fdt nodeoffset property (\<lambda>_ _ _. Some None) (\<lambda>count. Inl count);
     Some (case r of Inl n \<Rightarrow> n | Inr (_, n) \<Rightarrow> n) }"

definition fdt_stringlist_search :: "fdt \<Rightarrow> int \<Rightarrow> u8 list \<Rightarrow> u8 list \<Rightarrow> int option" where
  "fdt_stringlist_search fdt nodeoffset property str = do {
     r \<leftarrow> stringlist_prop fdt nodeoffset property
       (\<lambda>idx list' length'.
          if length' = int (length str) + 1 then do {
            eq \<leftarrow> blob_eq fdt list' (str @ [0]);
            Some (if eq then Some (Inl idx) else None) }
          else Some None)
       (\<lambda>_. Inl (- FDT_ERR_NOTFOUND));
     Some (case r of Inl n \<Rightarrow> n | Inr (_, n) \<Rightarrow> n) }"

definition fdt_stringlist_get :: "fdt \<Rightarrow> int \<Rightarrow> u8 list \<Rightarrow> int \<Rightarrow> (int + int \<times> int) option" where
  "fdt_stringlist_get fdt nodeoffset property idx =
     stringlist_prop fdt nodeoffset property
       (\<lambda>i list' length'. Some (if i = idx then Some (Inr (list', length' - 1)) else None))
       (\<lambda>_. Inl (- FDT_ERR_NOTFOUND))"

definition fdt_node_check_compatible :: "fdt \<Rightarrow> int \<Rightarrow> u8 list \<Rightarrow> int option" where
  "fdt_node_check_compatible fdt nodeoffset compatible = do {
     r \<leftarrow> fdt_getprop fdt nodeoffset (bytes_of ''compatible'');
     (case r of
        Inl len \<Rightarrow> Some len
      | Inr (prop, len) \<Rightarrow> do {
          c \<leftarrow> fdt_stringlist_contains fdt prop len compatible;
          Some (if c then 0 else 1) }) }"

definition fdt_node_offset_by_compatible :: "fdt \<Rightarrow> int \<Rightarrow> u8 list \<Rightarrow> int option" where
  "fdt_node_offset_by_compatible fdt startoffset compatible =
     FDT_RO_PROBE fdt (node_search fdt
       (\<lambda>offset. do {
          err \<leftarrow> fdt_node_check_compatible fdt offset compatible;
          Some (if err < 0 \<and> err \<noteq> - FDT_ERR_NOTFOUND then Some err
                else if err = 0 then Some offset else None) }) startoffset)"

end
