(* ===== verification/Fdt_Safe.thy ===== *)
theory Fdt_Safe
  imports Fdt_Ro
begin

unbundle bit_operations_syntax

text \<open>
  Memory safety and termination of the readers of a device tree on arbitrary content: the buffer is only
  required to be as large as the total size its header claims.  Every tag step moves forward inside
  the buffer, so every loop over tags, nodes or properties ends.
\<close>

section \<open>Buffers\<close>

definition fdt_buffer :: "fdt \<Rightarrow> bool" where
  "fdt_buffer fdt \<longleftrightarrow>
     40 \<le> length (fdt_bytes fdt) \<and> length (fdt_bytes fdt) < 2 ^ 31 - 4 \<and>
     (case fdt_totalsize fdt of None \<Rightarrow> False | Some t \<Rightarrow> unat t \<le> length (fdt_bytes fdt))"

named_theorems fdt_total \<open>reads that stay inside the buffer\<close>

lemma rd8_total [fdt_total]: "0 \<le> p \<Longrightarrow> p < int (length (fdt_bytes fdt)) \<Longrightarrow> \<exists>b. rd8 fdt p = Some b"
  by (simp add: rd8_def)

lemma fdt32_ld_total [fdt_total]:
  "0 \<le> p \<Longrightarrow> p + 4 \<le> int (length (fdt_bytes fdt)) \<Longrightarrow> \<exists>w. fdt32_ld fdt p = Some w"
  by (simp add: fdt32_ld_def rd8_def)

lemma fdt64_ld_total [fdt_total]:
  "0 \<le> p \<Longrightarrow> p + 8 \<le> int (length (fdt_bytes fdt)) \<Longrightarrow> \<exists>w. fdt64_ld fdt p = Some w"
  using fdt32_ld_total [of p fdt] fdt32_ld_total [of "p + 4" fdt] by (auto simp: fdt64_ld_def)

lemma blob_eq_total [fdt_total]:
  "0 \<le> p \<Longrightarrow> p + int (length s) \<le> int (length (fdt_bytes fdt)) \<Longrightarrow> \<exists>b. blob_eq fdt p s = Some b"
  by (induction fdt p s rule: blob_eq.induct) (auto simp: rd8_def)

lemma blob_chr_total:
  assumes "0 \<le> p" "p + int n \<le> int (length (fdt_bytes fdt))"
  obtains "blob_chr fdt p c n = Some None"
  | q where "blob_chr fdt p c n = Some (Some q)" "p \<le> q" "q < p + int n" "rd8 fdt q = Some c"
  using assms
proof (induction fdt p c n arbitrary: thesis rule: blob_chr.induct)
  case (2 fdt p c n)
  obtain b where b: "rd8 fdt p = Some b"
    using rd8_total [of p fdt] "2.prems"(3,4) by auto
  show ?case
  proof (cases "b = c")
    case True
    then show ?thesis using b "2.prems"(2) [of p] by simp
  next
    case False
    have "0 \<le> p + 1" "p + 1 + int n \<le> int (length (fdt_bytes fdt))"
      using "2.prems"(3,4) by auto
    from "2.IH" [OF b False _ _ this] show ?thesis
      using False b "2.prems"(1,2) by (smt (verit) bind.bind_lunit blob_chr.simps(2) of_nat_Suc)
  qed
qed auto

text \<open>The fields of the header, as the words they hold.\<close>

definition hdr :: "fdt \<Rightarrow> int \<Rightarrow> u32" where
  "hdr fdt p = the (fdt32_ld fdt p)"

lemma hdr_fields:
  assumes "40 \<le> length (fdt_bytes fdt)"
  shows "fdt_magic fdt = Some (hdr fdt 0)" "fdt_totalsize fdt = Some (hdr fdt 4)"
    "fdt_off_dt_struct fdt = Some (hdr fdt 8)" "fdt_off_dt_strings fdt = Some (hdr fdt 12)"
    "fdt_off_mem_rsvmap fdt = Some (hdr fdt 16)" "fdt_version fdt = Some (hdr fdt 20)"
    "fdt_last_comp_version fdt = Some (hdr fdt 24)" "fdt_boot_cpuid_phys fdt = Some (hdr fdt 28)"
    "fdt_size_dt_strings fdt = Some (hdr fdt 32)" "fdt_size_dt_struct fdt = Some (hdr fdt 36)"
proof -
  have "\<exists>w. fdt32_ld fdt p = Some w" if "0 \<le> p" "p \<le> 36" for p
    using assms that by (intro fdt32_ld_total) auto
  then have "fdt32_ld fdt p = Some (hdr fdt p)" if "0 \<le> p" "p \<le> 36" for p
    using that by (force simp: hdr_def)
  then show "fdt_magic fdt = Some (hdr fdt 0)" "fdt_totalsize fdt = Some (hdr fdt 4)"
    "fdt_off_dt_struct fdt = Some (hdr fdt 8)" "fdt_off_dt_strings fdt = Some (hdr fdt 12)"
    "fdt_off_mem_rsvmap fdt = Some (hdr fdt 16)" "fdt_version fdt = Some (hdr fdt 20)"
    "fdt_last_comp_version fdt = Some (hdr fdt 24)" "fdt_boot_cpuid_phys fdt = Some (hdr fdt 28)"
    "fdt_size_dt_strings fdt = Some (hdr fdt 32)" "fdt_size_dt_struct fdt = Some (hdr fdt 36)"
    by (simp_all add: fdt_header_defs)
qed

lemma fdt_buffer_header: "fdt_buffer fdt \<Longrightarrow> 40 \<le> length (fdt_bytes fdt)"
  by (simp add: fdt_buffer_def)

lemmas fdt_buffer_hdr [simp] = hdr_fields [OF fdt_buffer_header]

text \<open>The end of the structure block in the buffer, relative to its start.\<close>

definition struct_room :: "fdt \<Rightarrow> int" where
  "struct_room fdt = uint (hdr fdt 4) - uint (hdr fdt 8)"

lemma fdt_buffer_totalsize:
  assumes "fdt_buffer fdt"
  shows "uint (hdr fdt 4) \<le> int (length (fdt_bytes fdt))" "uint (hdr fdt 4) < 2 ^ 31 - 4"
    "int (length (fdt_bytes fdt)) < 2 ^ 31 - 4"
proof -
  show a: "uint (hdr fdt 4) \<le> int (length (fdt_bytes fdt))" "int (length (fdt_bytes fdt)) < 2 ^ 31 - 4"
    using assms fdt_buffer_hdr(2) [OF assms] by (auto simp: fdt_buffer_def nat_le_iff simp flip: nat_uint_eq)
  show "uint (hdr fdt 4) < 2 ^ 31 - 4"
    using a by simp
qed

section \<open>Pointers into the structure block\<close>

lemma word_of_int_uint_u32: "0 \<le> i \<Longrightarrow> i < 2 ^ 32 \<Longrightarrow> uint (word_of_int i :: u32) = i"
  by (simp add: uint_word_of_int)

lemma uint_u32_add: "uint (a :: u32) + uint b < 2 ^ 32 \<Longrightarrow> uint (a + b) = uint a + uint b"
  by (simp add: uint_word_ariths)

lemma u32_add_no_wrap: "\<not> a + b < a \<Longrightarrow> uint (a + b :: u32) = uint a + uint b"
  by (intro uint_plus_simple) (simp add: not_less)

lemma fdt_offset_ptr_total:
  assumes "fdt_buffer fdt" "offset < 2 ^ 31"
  obtains "fdt_offset_ptr fdt offset len = Some None"
  | "fdt_offset_ptr fdt offset len = Some (Some (uint (hdr fdt 8) + offset))"
    "0 \<le> offset" "offset + uint len \<le> struct_room fdt"
proof -
  note T = fdt_buffer_totalsize [OF assms(1)]
  let ?u = "word_of_int offset :: u32"
  let ?a = "?u + hdr fdt 8"
  have "uint ?u = offset" if "0 \<le> offset"
    using that assms(2) by (simp add: word_of_int_uint_u32)
  moreover have "uint ?a = uint ?u + uint (hdr fdt 8)" if "\<not> ?a < ?u"
    using that by (rule u32_add_no_wrap)
  moreover have "uint (?a + len) = uint ?a + uint len" if "\<not> ?a + len < ?a"
    using that by (rule u32_add_no_wrap)
  moreover have "uint (?a + len) \<le> uint (hdr fdt 4)" if "\<not> ?a + len > hdr fdt 4"
    using that by (simp add: word_less_def)
  ultimately have
    "fdt_offset_ptr fdt offset len = Some None \<or>
     fdt_offset_ptr fdt offset len = Some (Some (uint (hdr fdt 8) + offset)) \<and>
     0 \<le> offset \<and> offset + uint len \<le> struct_room fdt"
    using assms(1) by (simp add: fdt_offset_ptr_def fdt_offset_ptr'_def struct_room_def Let_def) linarith
  then show thesis
    using that by blast
qed

lemma int_and_not_3: "(i :: int) AND - 4 = i - i mod 4"
proof -
  have n: "Suc (Suc (n - 2)) = n" if "2 \<le> n" for n
    using that by simp
  have "i AND NOT (mask 2) = push_bit 2 (drop_bit 2 i)"
    by (rule bit_eqI) (auto simp: bit_simps n)
  also have "\<dots> = i - i mod 4"
    by (simp add: push_bit_eq_mult drop_bit_eq_div minus_mod_eq_div_mult)
  finally show ?thesis
    by (simp add: mask_eq_exp_minus_1)
qed

lemma FDT_TAGALIGN_props:
  assumes "0 \<le> x" "x < 2 ^ 31 - 3"
  shows "x \<le> FDT_TAGALIGN x" "FDT_TAGALIGN x < x + 4" "FDT_TAGALIGN x mod 4 = 0"
proof -
  let ?y = "x + 3 - (x + 3) mod 4"
  have r: "0 \<le> (x + 3) mod 4" "(x + 3) mod 4 < 4"
    by simp_all
  have "FDT_TAGALIGN x = c_int ?y"
    by (simp add: FDT_TAGALIGN_def int_and_not_3 add.commute)
  also have "\<dots> = ?y"
    using r assms by (intro c_int_id; linarith)
  finally have eq: "FDT_TAGALIGN x = ?y" .
  show "x \<le> FDT_TAGALIGN x" "FDT_TAGALIGN x < x + 4"
    using r unfolding eq by linarith+
  show "FDT_TAGALIGN x mod 4 = 0"
    unfolding eq by (metis dvd_minus_mod mod_0_imp_dvd dvd_imp_mod_0)
qed

lemma skip_name_total:
  assumes "fdt_buffer fdt" "0 \<le> offset" "offset < 2 ^ 31"
  obtains "skip_name fdt offset = Some None"
  | r where "skip_name fdt offset = Some (Some r)" "offset < r" "r \<le> struct_room fdt"
      "rd8 fdt (uint (hdr fdt 8) + r - 1) = Some 0"
  using assms(2,3)
proof (induction "nat (struct_room fdt - offset)" arbitrary: offset thesis rule: less_induct)
  case less
  note T = fdt_buffer_totalsize [OF assms(1)]
  have h8: "0 \<le> uint (hdr fdt 8)" by simp
  from assms(1) less.prems(4) show ?case
  proof (cases rule: fdt_offset_ptr_total [where len = 1])
    case 1
    then show ?thesis using less.prems(1) by (simp add: skip_name.simps)
  next
    case 2
    then have lt: "offset + 1 \<le> struct_room fdt" by simp
    have le: "struct_room fdt < 2 ^ 31 - 4"
      using T h8 unfolding struct_room_def by linarith
    obtain b where b: "rd8 fdt (uint (hdr fdt 8) + offset) = Some b"
      using rd8_total [of "uint (hdr fdt 8) + offset" fdt] less.prems(3) T h8 lt
      unfolding struct_room_def by fastforce
    have c: "c_int (offset + 1) = offset + 1"
      using lt le less.prems(3) by (intro c_int_id) auto
    show ?thesis
    proof (cases "b = 0")
      case True
      then show ?thesis
        using 2 b c lt less.prems(2) [of "offset + 1"] by (simp add: skip_name.simps add.commute)
    next
      case False
      then have eq: "skip_name fdt offset = skip_name fdt (offset + 1)"
        using 2 b c by (subst skip_name.simps) simp
      have "nat (struct_room fdt - (offset + 1)) < nat (struct_room fdt - offset)"
        using lt by linarith
      then show ?thesis
      proof (rule less.hyps)
        show "0 \<le> offset + 1" "offset + 1 < 2 ^ 31"
          using less.prems(3) lt le by linarith+
      qed (use less.prems(1,2) eq in \<open>auto\<close>)
    qed
  qed
qed

lemma struct_room_less: "fdt_buffer fdt \<Longrightarrow> struct_room fdt < 2 ^ 31 - 4"
  using fdt_buffer_totalsize(2) [of fdt] uint_ge_0 [of "hdr fdt 8"] unfolding struct_room_def by linarith

lemma struct_read_total:
  assumes "fdt_buffer fdt" "0 \<le> offset" "offset + 4 \<le> struct_room fdt"
  obtains w where "fdt32_ld fdt (uint (hdr fdt 8) + offset) = Some w"
  using fdt32_ld_total [of "uint (hdr fdt 8) + offset" fdt] assms fdt_buffer_totalsize(1) [OF assms(1)]
  unfolding struct_room_def by fastforce

section \<open>Tag steps\<close>

text \<open>
  What a successful tag step gives: the tag read at \<open>start\<close>, a next offset that is a multiple of 4 and
  lies behind it, a name that ends in the block, and property data that lie in the block.
\<close>

definition data_shift :: "fdt \<Rightarrow> int \<Rightarrow> u32 \<Rightarrow> int" where
  "data_shift fdt start len = (if hdr fdt 20 < 0x10 \<and> len \<ge> 8 \<and> (start + 12) mod 8 \<noteq> 0 then 4 else 0)"

definition tag_step :: "fdt \<Rightarrow> int \<Rightarrow> u32 \<Rightarrow> int \<Rightarrow> bool" where
  "tag_step fdt start tag n \<longleftrightarrow>
     0 \<le> start \<and> start + 4 \<le> n \<and> n mod 4 = 0 \<and> n < struct_room fdt + 4 \<and> start + 4 \<le> struct_room fdt \<and>
     fdt32_ld fdt (uint (hdr fdt 8) + start) = Some tag \<and>
     (tag = FDT_BEGIN_NODE \<longrightarrow>
        (\<exists>z. start + 4 \<le> z \<and> z < struct_room fdt \<and> z < n \<and> rd8 fdt (uint (hdr fdt 8) + z) = Some 0)) \<and>
     (tag = FDT_PROP \<longrightarrow>
        (\<exists>len. fdt32_ld fdt (uint (hdr fdt 8) + start + 4) = Some len \<and>
           start + 12 + data_shift fdt start len + uint len \<le> struct_room fdt \<and>
           n = FDT_TAGALIGN (start + 12 + data_shift fdt start len + uint len)))"

lemma word_of_int_c_int: "(word_of_int (c_int i) :: u32) = word_of_int i"
  unfolding c_int_def by (simp add: word_of_int_eq_iff take_bit_signed_take_bit)

lemma c_int_add: "c_int (c_int i + j) = c_int (i + j)"
  unfolding c_int_def by (metis signed_take_bit_add signed_take_bit_signed_take_bit min.idem)

lemma data_shift_word:
  assumes "4 \<le> offset" "offset < 2 ^ 31"
  shows "(word_of_int (c_int (offset + (12 - 4) + uint len)) - len :: u32) mod 8 \<noteq> 0 \<longleftrightarrow> (offset + 8) mod 8 \<noteq> 0"
proof -
  have "(word_of_int (c_int (offset + (12 - 4) + uint len)) - len :: u32) = word_of_int (offset + 8)"
    by (simp add: word_of_int_c_int)
  moreover have "uint (word_of_int (offset + 8) :: u32) = offset + 8"
    using assms by (intro word_of_int_uint_u32) auto
  ultimately show ?thesis
    by (simp only: word_uint_eq_iff uint_mod) simp
qed

lemma skip_prop_total:
  assumes "fdt_buffer fdt" "4 \<le> offset" "offset < 2 ^ 31"
  obtains "skip_prop fdt offset = Some None"
  | len where "skip_prop fdt offset = Some (Some (c_int (offset + 8 + data_shift fdt (offset - 4) len + uint len)))"
      "fdt32_ld fdt (uint (hdr fdt 8) + offset) = Some len"
      "offset + 4 \<le> struct_room fdt" "offset + uint len < 2 ^ 31 - 1"
  using assms(1,3)
proof (cases rule: fdt_offset_ptr_total [where len = 4])
  case 1
  then show thesis using that(1) by (simp add: skip_prop_def)
next
  case 2
  then have room: "offset + 4 \<le> struct_room fdt" by simp
  obtain len where len: "fdt32_ld fdt (uint (hdr fdt 8) + offset) = Some len"
    using struct_read_total [OF assms(1) \<open>0 \<le> offset\<close> room] .
  let ?o = "word_of_int offset :: u32"
  have uo: "uint ?o = offset"
    using assms by (intro word_of_int_uint_u32) auto
  show thesis
  proof (cases "INT_MAX \<le> uint (len + ?o) \<or> len + ?o < ?o")
    case True
    then show thesis using that(1) 2 len by (simp add: skip_prop_def Let_def)
  next
    case False
    then have "uint (len + ?o) = uint len + offset"
      using u32_add_no_wrap [of ?o len] uo by (simp add: add.commute)
    then have lt: "offset + uint len < 2 ^ 31 - 1"
      using False by simp
    have "skip_prop fdt offset = Some (Some (if hdr fdt 20 < 0x10 \<and> len \<ge> 8 \<and> (offset + 8) mod 8 \<noteq> 0
        then c_int (c_int (offset + (12 - 4) + uint len) + 4) else c_int (offset + (12 - 4) + uint len)))"
      using False 2 len assms(1) data_shift_word [OF assms(2,3), of len]
      by (simp only: skip_prop_def Let_def option.case bind.bind_lunit if_False fdt_buffer_hdr)
    also have "\<dots> = Some (Some (c_int (offset + 8 + data_shift fdt (offset - 4) len + uint len)))"
      using c_int_add [of "offset + 8 + uint len" 4] by (simp add: data_shift_def algebra_simps)
    finally show thesis
      using that(2) len room lt by blast
  qed
qed

text \<open>The end of \<^verbatim>\<open>fdt_next_tag\<close>: the span from \<open>start\<close> to the unwrapped end \<open>x\<close> is checked against the block.\<close>

lemma tag_span_total:
  assumes "fdt_buffer fdt" "0 \<le> start" "start \<le> x" "x < 2 ^ 31 + 2 ^ 30" "start < 2 ^ 31"
  obtains "fdt_offset_ptr fdt start (word_of_int (c_int x - start)) = Some None"
  | p where "fdt_offset_ptr fdt start (word_of_int (c_int x - start)) = Some (Some p)"
      "x \<le> struct_room fdt" "c_int x = x"
proof -
  have "(word_of_int (c_int x - start) :: u32) = word_of_int (c_int x) - word_of_int start"
    by simp
  also have "\<dots> = word_of_int (x - start)"
    by (simp only: word_of_int_c_int) simp
  finally have w: "(word_of_int (c_int x - start) :: u32) = word_of_int (x - start)" .
  have u: "uint (word_of_int (x - start) :: u32) = x - start"
    using assms by (intro word_of_int_uint_u32) auto
  from assms(1,5) show thesis
  proof (cases rule: fdt_offset_ptr_total [where len = "word_of_int (x - start)"])
    case 1
    then show thesis using that(1) w by simp
  next
    case 2
    then have le: "x \<le> struct_room fdt"
      using u by linarith
    then have "c_int x = x"
      using struct_room_less [OF assms(1)] assms(2,3) by (intro c_int_id) linarith+
    then show thesis
      using that(2) 2 w le by simp
  qed
qed

lemma tag_step_intro:
  assumes "fdt_buffer fdt" "0 \<le> start" "start + 4 \<le> x" "x \<le> struct_room fdt"
    "fdt32_ld fdt (uint (hdr fdt 8) + start) = Some tag"
    "tag = FDT_BEGIN_NODE \<Longrightarrow> \<exists>z. start + 4 \<le> z \<and> z < x \<and> rd8 fdt (uint (hdr fdt 8) + z) = Some 0"
    "tag = FDT_PROP \<Longrightarrow> \<exists>len. fdt32_ld fdt (uint (hdr fdt 8) + start + 4) = Some len \<and>
       x = start + 12 + data_shift fdt start len + uint len"
  shows "tag_step fdt start tag (FDT_TAGALIGN x)"
proof -
  have A: "x \<le> FDT_TAGALIGN x" "FDT_TAGALIGN x < x + 4" "FDT_TAGALIGN x mod 4 = 0"
    using assms(2-4) struct_room_less [OF assms(1)] FDT_TAGALIGN_props [of x] by linarith+
  show ?thesis
    unfolding tag_step_def
  proof (intro conjI impI)
    show "start + 4 \<le> FDT_TAGALIGN x" "FDT_TAGALIGN x < struct_room fdt + 4" "start + 4 \<le> struct_room fdt"
      using A assms(3,4) by linarith+
    show "\<exists>z\<ge>start + 4. z < struct_room fdt \<and> z < FDT_TAGALIGN x \<and> rd8 fdt (uint (hdr fdt 8) + z) = Some 0"
      if "tag = FDT_BEGIN_NODE"
      using assms(6) [OF that] A assms(4) by (meson less_le_trans)
    show "\<exists>len. fdt32_ld fdt (uint (hdr fdt 8) + start + 4) = Some len \<and>
        start + 12 + data_shift fdt start len + uint len \<le> struct_room fdt \<and>
        FDT_TAGALIGN x = FDT_TAGALIGN (start + 12 + data_shift fdt start len + uint len)"
      if "tag = FDT_PROP"
      using assms(7) [OF that] assms(4) by auto
  qed (use A assms in auto)
qed

text \<open>The \<^verbatim>\<open>switch\<close>: it ends prematurely, or gives the unwrapped end \<open>x\<close> of the tag's data.\<close>

lemma skip_tag_total:
  assumes "fdt_buffer fdt" "0 \<le> start" "start + 4 < 2 ^ 31"
  obtains "skip_tag fdt tag (start + 4) = Some None"
  | x where "skip_tag fdt tag (start + 4) = Some (Some (c_int x))" "start + 4 \<le> x" "x < 2 ^ 31 + 2 ^ 30"
      "tag \<in> {FDT_BEGIN_NODE, FDT_END_NODE, FDT_PROP, FDT_NOP, FDT_END}"
      "tag = FDT_BEGIN_NODE \<longrightarrow> (\<exists>z. start + 4 \<le> z \<and> z < x \<and> rd8 fdt (uint (hdr fdt 8) + z) = Some 0)"
      "tag = FDT_PROP \<longrightarrow> (\<exists>len. fdt32_ld fdt (uint (hdr fdt 8) + start + 4) = Some len \<and>
         x = start + 12 + data_shift fdt start len + uint len)"
proof -
  have s4: "0 \<le> start + 4" "4 \<le> start + 4"
    using assms(2) by linarith+
  consider "tag = FDT_BEGIN_NODE" | "tag = FDT_PROP" | "tag = FDT_END \<or> tag = FDT_END_NODE \<or> tag = FDT_NOP"
    | "tag \<notin> {FDT_BEGIN_NODE, FDT_END_NODE, FDT_PROP, FDT_NOP, FDT_END}" by blast
  then show thesis
  proof cases
    case 1
    from assms(1) s4(1) assms(3) show thesis
    proof (cases rule: skip_name_total)
      case (2 r)
      have "c_int r = r"
        using 2 s4 struct_room_less [OF assms(1)] c_int_id [of r] by linarith
      moreover have "r < 2 ^ 31 + 2 ^ 30"
        using 2 struct_room_less [OF assms(1)] by simp
      ultimately have "c_int r = r" "r < 2 ^ 31 + 2 ^ 30" .
      then show thesis
        using 1 2 by (intro that(2) [of r]) (auto simp: skip_tag_def add_diff_eq intro!: exI [of _ "r - 1"])
    qed (use 1 that(1) skip_tag_def in simp)
  next
    case 2
    note tag = this
    from assms(1) s4(2) assms(3) show thesis
    proof (cases rule: skip_prop_total)
      case (2 len)
      have "data_shift fdt start len \<in> {0, 4}" by (simp add: data_shift_def)
      then have "start + 12 + data_shift fdt start len + uint len < 2 ^ 31 + 2 ^ 30" "0 \<le> data_shift fdt start len"
        using 2 by auto
      then show thesis
        using tag 2 by (intro that(2) [of "start + 12 + data_shift fdt start len + uint len"])
          (auto simp: skip_tag_def algebra_simps)
    qed (use tag that(1) skip_tag_def in simp)
  next
    case 3
    then show thesis
      using assms s4 by (intro that(2) [of "start + 4"]) (auto simp: skip_tag_def)
  next
    case 4
    then show thesis using that(1) by (simp add: skip_tag_def)
  qed
qed

lemma fdt_next_tag_total:
  assumes "fdt_buffer fdt" "start < 2 ^ 31"
  obtains n where "fdt_next_tag fdt start = Some (FDT_END, n)" "n = - FDT_ERR_TRUNCATED \<or> n = - FDT_ERR_BADSTRUCTURE"
  | tag n where "fdt_next_tag fdt start = Some (tag, n)" "tag_step fdt start tag n"
      "tag \<in> {FDT_BEGIN_NODE, FDT_END_NODE, FDT_PROP, FDT_NOP, FDT_END}"
  using assms
proof (cases rule: fdt_offset_ptr_total [where len = 4])
  case 1
  then show thesis using that(1) by (simp add: fdt_next_tag_def)
next
  case 2
  note s0 = 2(2) and ptr = 2(1)
  have room: "start + 4 \<le> struct_room fdt" using 2 by simp
  have lt: "start + 4 < 2 ^ 31" using room struct_room_less [OF assms(1)] by linarith
  obtain tag where tag: "fdt32_ld fdt (uint (hdr fdt 8) + start) = Some tag"
    using struct_read_total [OF assms(1) s0 room] .
  have c4: "c_int (start + 4) = start + 4"
    using lt s0 by (intro c_int_id) linarith+
  note unfold = fdt_next_tag_def ptr tag c4 option.case bind.bind_lunit Let_def
  from assms(1) s0 lt show thesis
  proof (cases rule: skip_tag_total [where tag = tag])
    case 1
    then have "fdt_next_tag fdt start = Some (FDT_END, - FDT_ERR_BADSTRUCTURE)"
      by (simp only: unfold)
    then show thesis using that(1) by blast
  next
    case (2 x)
    note skip = this
    have "start \<le> x" using 2 by linarith
    from assms(1) s0 this 2(3) assms(2) show thesis
    proof (cases rule: tag_span_total)
      case 1
      then have "fdt_next_tag fdt start = Some (FDT_END, - FDT_ERR_BADSTRUCTURE)"
        by (simp only: unfold skip(1))
      then show thesis using that(1) by blast
    next
      case (2 p)
      then have "fdt_next_tag fdt start = Some (tag, FDT_TAGALIGN x)"
        by (simp only: unfold skip(1))
      then show thesis
        using tag_step_intro [OF assms(1) s0 skip(2) 2(2) tag] skip(4-6) that(2) by blast
    qed
  qed
qed

section \<open>Node and property steps\<close>

text \<open>An offset at which a node (a property) starts: what the two offset checks accept.\<close>

definition node_at :: "fdt \<Rightarrow> int \<Rightarrow> bool" where
  "node_at fdt offset \<longleftrightarrow> offset mod 4 = 0 \<and> (\<exists>n. fdt_next_tag fdt offset = Some (FDT_BEGIN_NODE, n) \<and>
     tag_step fdt offset FDT_BEGIN_NODE n)"

definition prop_at :: "fdt \<Rightarrow> int \<Rightarrow> bool" where
  "prop_at fdt offset \<longleftrightarrow> offset mod 4 = 0 \<and> (\<exists>n. fdt_next_tag fdt offset = Some (FDT_PROP, n) \<and>
     tag_step fdt offset FDT_PROP n)"

lemma tag_step_bounds: "tag_step fdt start tag n \<Longrightarrow>
    0 \<le> start \<and> start + 4 \<le> n \<and> n mod 4 = 0 \<and> n < struct_room fdt + 4 \<and> start + 4 \<le> struct_room fdt"
  by (simp add: tag_step_def)

lemma tag_step_next_less: "fdt_buffer fdt \<Longrightarrow> tag_step fdt start tag n \<Longrightarrow> n < 2 ^ 31"
  using struct_room_less [of fdt] tag_step_bounds [of fdt start tag n] by simp

lemma fdt_check_node_offset_total:
  assumes "fdt_buffer fdt" "offset < 2 ^ 31"
  obtains e where "fdt_check_node_offset' fdt offset = Some e" "e < 0"
  | n where "fdt_check_node_offset' fdt offset = Some n" "node_at fdt offset" "0 \<le> offset" "offset + 4 \<le> n"
      "n mod 4 = 0" "n < 2 ^ 31"
  using assms
proof (cases rule: fdt_next_tag_total)
  case (1 n)
  then show thesis by (intro that(1) [of "- FDT_ERR_BADOFFSET"]) (auto simp: fdt_check_node_offset'_def)
next
  case (2 tag n)
  show thesis
  proof (cases "offset < 0 \<or> offset mod 4 \<noteq> 0 \<or> tag \<noteq> FDT_BEGIN_NODE")
    case True
    then show thesis
      by (intro that(1) [of "- FDT_ERR_BADOFFSET"]) (use 2 in \<open>auto simp: fdt_check_node_offset'_def\<close>)
  next
    case False
    then show thesis
      using 2 tag_step_bounds [OF 2(2)] tag_step_next_less [OF assms(1) 2(2)]
      by (intro that(2) [of n]) (auto simp: fdt_check_node_offset'_def node_at_def)
  qed
qed

lemma fdt_check_prop_offset_total:
  assumes "fdt_buffer fdt" "offset < 2 ^ 31"
  obtains e where "fdt_check_prop_offset' fdt offset = Some e" "e < 0" "\<not> prop_at fdt offset"
  | n where "fdt_check_prop_offset' fdt offset = Some n" "prop_at fdt offset" "0 \<le> offset" "offset + 4 \<le> n"
      "n mod 4 = 0" "n < 2 ^ 31"
  using assms
proof (cases rule: fdt_next_tag_total)
  case (1 n)
  then show thesis
    by (intro that(1) [of "- FDT_ERR_BADOFFSET"]) (auto simp: fdt_check_prop_offset'_def prop_at_def)
next
  case (2 tag n)
  show thesis
  proof (cases "offset < 0 \<or> offset mod 4 \<noteq> 0 \<or> tag \<noteq> FDT_PROP")
    case True
    then show thesis
      by (intro that(1) [of "- FDT_ERR_BADOFFSET"])
        (use 2 tag_step_bounds [OF 2(2)] in \<open>auto simp: fdt_check_prop_offset'_def prop_at_def\<close>)
  next
    case False
    then show thesis
      using 2 tag_step_bounds [OF 2(2)] tag_step_next_less [OF assms(1) 2(2)]
      by (intro that(2) [of n]) (auto simp: fdt_check_prop_offset'_def prop_at_def)
  qed
qed

text \<open>
  The loop of \<^verbatim>\<open>fdt_next_node\<close> returns: an error, the end of the enclosing node (only when a depth is
  tracked, which is then negative), or a node at or behind the offset it started from.
\<close>

lemma next_node_loop_total:
  assumes "fdt_buffer fdt" "offset < 2 ^ 31" "offset mod 4 = 0"
  obtains e d where "next_node_loop fdt offset depth = Some (e, d)" "e < 0" "d = None \<longleftrightarrow> depth = None"
  | n d where "next_node_loop fdt offset depth = Some (n, Some d)" "d < 0" "offset < n" "n < 2 ^ 31" "depth \<noteq> None"
  | n d where "next_node_loop fdt offset depth = Some (n, d)" "node_at fdt n" "offset \<le> n" "n < 2 ^ 31"
      "d = None \<longleftrightarrow> depth = None"
  using assms(2,3)
proof (induction "nat (struct_room fdt - offset)" arbitrary: offset depth thesis rule: less_induct)
  case less
  from assms(1) less.prems(4) show ?case
  proof (cases rule: fdt_next_tag_total)
    case (1 n)
    then have "next_node_loop fdt offset depth
        = Some (if n = - FDT_ERR_TRUNCATED \<and> depth = None then - FDT_ERR_NOTFOUND else n, depth)"
      by (subst next_node_loop.simps) auto
    from less.prems(1) [OF this] show ?thesis using 1 by auto
  next
    case (2 tag n)
    note B = tag_step_bounds [OF 2(2)] and L = tag_step_next_less [OF assms(1) 2(2)]
    have rec: ?thesis if eq: "next_node_loop fdt offset depth = next_node_loop fdt n d"
        and d: "d = None \<longleftrightarrow> depth = None" for d
    proof (rule less.hyps [of n d])
      show "nat (struct_room fdt - n) < nat (struct_room fdt - offset)" "n < 2 ^ 31" "n mod 4 = 0"
        using B L by auto
    qed (use less.prems(1-3) eq d B in \<open>auto intro: order_trans less_le_trans\<close>)
    consider "tag = FDT_PROP \<or> tag = FDT_NOP" | "tag = FDT_BEGIN_NODE" | "tag = FDT_END"
      | "tag = FDT_END_NODE" using 2(3) by auto
    then show ?thesis
    proof cases
      case 1
      then have "next_node_loop fdt offset depth = next_node_loop fdt n depth"
        using 2(1) by (subst next_node_loop.simps) auto
      then show ?thesis by (rule rec) simp
    next
      case a: 2
      then have "next_node_loop fdt offset depth = Some (offset, map_option (\<lambda>d. c_int (d + 1)) depth)"
        using 2(1) by (subst next_node_loop.simps) simp
      moreover have "node_at fdt offset"
        using a 2 less.prems(5) by (auto simp: node_at_def)
      ultimately show ?thesis
        using less.prems(3,4) by simp
    next
      case 3
      then have "next_node_loop fdt offset depth = Some (- FDT_ERR_NOTFOUND, depth)"
        using 2(1) B by (subst next_node_loop.simps) simp
      then show ?thesis using less.prems(1) by force
    next
      case 4
      then have eq: "next_node_loop fdt offset depth = (case depth of
          None \<Rightarrow> next_node_loop fdt n depth
        | Some d \<Rightarrow> if c_int (d - 1) < 0 then Some (n, Some (c_int (d - 1)))
                    else next_node_loop fdt n (Some (c_int (d - 1))))"
        using 2(1) by (subst next_node_loop.simps) simp
      show ?thesis
      proof (cases "\<exists>d. depth = Some d \<and> c_int (d - 1) < 0")
        case True
        then show ?thesis using eq less.prems(2) B L by force
      next
        case False
        then show ?thesis
          using eq by (intro rec [of "map_option (\<lambda>d. c_int (d - 1)) depth"]) (auto split: option.splits)
      qed
    qed
  qed
qed

lemma fdt_next_node_total:
  assumes "fdt_buffer fdt" "offset < 2 ^ 31"
  obtains e d where "fdt_next_node fdt offset depth = Some (e, d)" "e < 0" "d = None \<longleftrightarrow> depth = None"
  | n d where "fdt_next_node fdt offset depth = Some (n, Some d)" "d < 0" "offset < n" "n < 2 ^ 31" "depth \<noteq> None"
  | n d where "fdt_next_node fdt offset depth = Some (n, d)" "node_at fdt n" "offset < n" "n < 2 ^ 31"
      "d = None \<longleftrightarrow> depth = None"
proof (cases "offset < 0")
  case True
  have "(0::int) < 2 ^ 31" "(0::int) mod 4 = 0" by simp_all
  with assms(1) show thesis
    by (cases rule: next_node_loop_total [where depth = depth])
      (use True that in \<open>auto simp: fdt_next_node_def\<close>)
next
  case False
  from assms show thesis
  proof (cases rule: fdt_check_node_offset_total)
    case (1 e)
    then show thesis using that(1) [of e depth] False by (simp add: fdt_next_node_def)
  next
    case (2 n)
    from assms(1) 2(6,5) show thesis
      by (cases rule: next_node_loop_total [where depth = depth])
        (use False 2 that in \<open>auto simp: fdt_next_node_def\<close>)
  qed
qed

lemma nextprop_total:
  assumes "fdt_buffer fdt" "offset < 2 ^ 31" "offset mod 4 = 0"
  obtains e where "nextprop' fdt offset = Some e" "e < 0"
  | n where "nextprop' fdt offset = Some n" "prop_at fdt n" "offset \<le> n" "n < 2 ^ 31"
  using assms(2,3)
proof (induction "nat (struct_room fdt - offset)" arbitrary: offset thesis rule: less_induct)
  case less
  from assms(1) less.prems(3) show ?case
  proof (cases rule: fdt_next_tag_total)
    case (1 n)
    then have "nextprop' fdt offset = Some n"
      by (subst nextprop'.simps) auto
    then show ?thesis using less.prems(1) [of n] 1 by auto
  next
    case (2 tag n)
    note B = tag_step_bounds [OF 2(2)] and L = tag_step_next_less [OF assms(1) 2(2)]
    consider "tag = FDT_NOP" | "tag = FDT_PROP" | e where "nextprop' fdt offset = Some e" "e < 0"
      using 2(1,3) B by (fastforce simp: nextprop'.simps [of fdt offset])
    then show ?thesis
    proof cases
      case 1
      then have eq: "nextprop' fdt offset = nextprop' fdt n"
        using 2(1) by (subst nextprop'.simps) simp
      show ?thesis
      proof (rule less.hyps [of n])
        show "nat (struct_room fdt - n) < nat (struct_room fdt - offset)" "n < 2 ^ 31" "n mod 4 = 0"
          using B L by auto
      qed (use less.prems(1,2) eq B in auto)
    next
      case a: 2
      then have "nextprop' fdt offset = Some offset" "prop_at fdt offset"
        using 2 less.prems(4) by (auto simp: prop_at_def nextprop'.simps [of fdt offset])
      then show ?thesis using less.prems(2,3) by blast
    qed (rule less.prems(1))
  qed
qed

lemma fdt_first_property_offset_total:
  assumes "fdt_buffer fdt" "offset < 2 ^ 31"
  obtains e where "fdt_first_property_offset fdt offset = Some e" "e < 0"
  | n where "fdt_first_property_offset fdt offset = Some n" "prop_at fdt n" "offset < n" "n < 2 ^ 31"
  using assms
proof (cases rule: fdt_check_node_offset_total)
  case (1 e)
  then show thesis using that(1) [of e] by (simp add: fdt_first_property_offset_def)
next
  case (2 n)
  from assms(1) 2(6,5) show thesis
    by (cases rule: nextprop_total) (use 2 that in \<open>auto simp: fdt_first_property_offset_def\<close>)
qed

lemma fdt_next_property_offset_total:
  assumes "fdt_buffer fdt" "offset < 2 ^ 31"
  obtains e where "fdt_next_property_offset fdt offset = Some e" "e < 0"
  | n where "fdt_next_property_offset fdt offset = Some n" "prop_at fdt n" "offset < n" "n < 2 ^ 31"
  using assms
proof (cases rule: fdt_check_prop_offset_total)
  case (1 e)
  then show thesis using that(1) [of e] by (simp add: fdt_next_property_offset_def)
next
  case (2 n)
  from assms(1) 2(6,5) show thesis
    by (cases rule: nextprop_total) (use 2 that in \<open>auto simp: fdt_next_property_offset_def\<close>)
qed

section \<open>Strings\<close>

lemma fdt_ro_probe_total:
  assumes "fdt_buffer fdt"
  obtains e where "fdt_ro_probe' fdt = Some e" "e < 0"
  | "fdt_ro_probe' fdt = Some (uint (hdr fdt 4))" "fdt_addr fdt AND 7 = 0"
      "hdr fdt 0 = FDT_MAGIC \<or> hdr fdt 0 = FDT_SW_MAGIC"
proof -
  have "fdt_ro_probe' fdt = Some (uint (hdr fdt 4)) \<and> fdt_addr fdt AND 7 = 0 \<and>
      (hdr fdt 0 = FDT_MAGIC \<or> hdr fdt 0 = FDT_SW_MAGIC) \<or> (\<exists>e<0. fdt_ro_probe' fdt = Some e)"
    using assms by (simp add: fdt_ro_probe'_def)
  then show thesis
    using that by blast
qed

lemma FDT_RO_PROBE_total:
  assumes "fdt_buffer fdt"
  obtains e where "FDT_RO_PROBE fdt k = Some e" "e < 0" | "FDT_RO_PROBE fdt k = k"
  using assms by (cases rule: fdt_ro_probe_total) (use that in \<open>auto simp: FDT_RO_PROBE_def\<close>)

text \<open>The scan for the terminator of a string: it stays below the total size.\<close>

lemma string_scan_total:
  assumes "fdt_buffer fdt" "absoffset < hdr fdt 4" "len \<le> hdr fdt 4 - absoffset"
  obtains "blob_chr fdt (uint absoffset) 0 (unat len) = Some None"
  | n where "blob_chr fdt (uint absoffset) 0 (unat len) = Some (Some n)" "uint absoffset \<le> n"
      "n < uint (hdr fdt 4)"
proof -
  have "uint len \<le> uint (hdr fdt 4) - uint absoffset"
    using assms(2,3) by (simp add: word_le_def word_less_def uint_sub_lem [THEN iffD1])
  then have *: "uint absoffset + int (unat len) \<le> uint (hdr fdt 4)"
    by (simp flip: nat_uint_eq)
  then have "uint absoffset + int (unat len) \<le> int (length (fdt_bytes fdt))"
    using fdt_buffer_totalsize(1) [OF assms(1)] by linarith
  with uint_ge_0 [of absoffset] show thesis
    by (cases rule: blob_chr_total [where c = 0]) (use that * in force)+
qed

lemma fdt_get_string_total:
  assumes "fdt_buffer fdt"
  obtains e where "fdt_get_string fdt stroffset = Some (Inl e)" "e < 0"
  | s len where "fdt_get_string fdt stroffset = Some (Inr (s, len))" "0 \<le> s" "0 \<le> len"
      "s + len < uint (hdr fdt 4)"
  using assms
proof (cases rule: fdt_ro_probe_total)
  case (1 e)
  then show thesis using that(1) [of e] by (simp add: fdt_get_string_def)
next
  case 2
  let ?a = "word_of_int stroffset + hdr fdt 12 :: u32"
  let ?res = "\<lambda>len. do { n \<leftarrow> blob_chr fdt (uint ?a) 0 (unat len);
      Some (case n of None \<Rightarrow> Inl (- FDT_ERR_TRUNCATED) | Some n \<Rightarrow> Inr (uint ?a, n - uint ?a)) }"
  consider e where "fdt_get_string fdt stroffset = Some (Inl e)" "e < 0"
    | len where "fdt_get_string fdt stroffset = ?res len" "?a < hdr fdt 4" "len \<le> hdr fdt 4 - ?a"
    using 2 assms by (fastforce simp: fdt_get_string_def Let_def not_le not_less split: if_splits)
  then show thesis
  proof cases
    case (2 len)
    from assms 2(2,3) show thesis
      by (cases rule: string_scan_total) (use 2 that in \<open>auto\<close>)
  qed (rule that(1))
qed

lemma fdt_string_eq_total: "fdt_buffer fdt \<Longrightarrow> \<exists>b. fdt_string_eq' fdt stroffset s = Some b"
proof -
  assume buf: "fdt_buffer fdt"
  then show ?thesis
  proof (cases rule: fdt_get_string_total [where stroffset = stroffset])
    case (2 p len)
    then have "p + int (length s) \<le> int (length (fdt_bytes fdt))" if "len = int (length s)"
      using that fdt_buffer_totalsize(1) [OF buf] by linarith
    then show ?thesis
      using 2 blob_eq_total [of p s fdt] by (cases "len = int (length s)") (auto simp: fdt_string_eq'_def)
  qed (auto simp: fdt_string_eq'_def)
qed

section \<open>Property lookup\<close>

text \<open>The fields of a property that the offset check accepts, and the room of its value.\<close>

lemma prop_at_fields:
  assumes "fdt_buffer fdt" "prop_at fdt offset"
  obtains len nameoff where "fdt32_ld fdt (uint (hdr fdt 8) + offset + 4) = Some len"
    "fdt32_ld fdt (uint (hdr fdt 8) + offset + 8) = Some nameoff"
    "uint (hdr fdt 8) + offset + 12 + data_shift fdt offset len + uint len \<le> uint (hdr fdt 4)"
    "0 \<le> offset" "sint len = uint len" "0 \<le> data_shift fdt offset len"
proof -
  obtain n where step: "tag_step fdt offset FDT_PROP n"
    using assms(2) by (auto simp: prop_at_def)
  then obtain len where len: "fdt32_ld fdt (uint (hdr fdt 8) + offset + 4) = Some len"
    and room: "offset + 12 + data_shift fdt offset len + uint len \<le> struct_room fdt"
    by (auto simp: tag_step_def)
  have off: "0 \<le> offset" and sh: "0 \<le> data_shift fdt offset len"
    using step by (auto simp: tag_step_def data_shift_def)
  have "0 \<le> offset + 8" "offset + 8 + 4 \<le> struct_room fdt"
    using off room sh uint_ge_0 [of len] by linarith+
  from struct_read_total [OF assms(1) this]
  obtain nameoff where nm: "fdt32_ld fdt (uint (hdr fdt 8) + (offset + 8)) = Some nameoff" .
  have "uint len < 2 ^ 31"
    using room sh off struct_room_less [OF assms(1)] by linarith
  moreover have "- (2 ^ 31) \<le> uint len"
    by (rule order_trans [OF _ uint_ge_0]) simp
  ultimately have "sint len = uint len"
    using c_int_id [of "uint len"] by (simp add: sint_uint c_int_def)
  moreover have "uint (hdr fdt 8) + offset + 12 + data_shift fdt offset len + uint len \<le> uint (hdr fdt 4)"
    using room by (simp add: struct_room_def)
  ultimately show thesis
    using that [of len nameoff] len nm off sh by (simp add: add.assoc)
qed

lemma fdt_get_property_by_offset'_total:
  assumes "fdt_buffer fdt" "offset < 2 ^ 31"
  obtains e where "fdt_get_property_by_offset' fdt offset = Some (Inl e)" "e < 0"
  | len where "fdt_get_property_by_offset' fdt offset = Some (Inr (uint (hdr fdt 8) + offset, uint len))"
      "fdt32_ld fdt (uint (hdr fdt 8) + offset + 4) = Some len" "prop_at fdt offset"
  using assms
proof (cases rule: fdt_check_prop_offset_total)
  case (1 e)
  then show thesis using that(1) by (simp add: fdt_get_property_by_offset'_def)
next
  case (2 n)
  from assms(1) 2(2) show thesis
    by (cases rule: prop_at_fields)
      (use 2 that(2) assms(1) in \<open>auto simp: fdt_get_property_by_offset'_def fdt_offset_ptr'_def\<close>)
qed

lemma get_property_loop_total:
  assumes "fdt_buffer fdt" "offset < 2 ^ 31" "offset < 0 \<or> prop_at fdt offset"
  obtains e where "get_property_loop fdt offset name = Some (Inl e)" "e < 0"
  | len n where "get_property_loop fdt offset name = Some (Inr (uint (hdr fdt 8) + n, uint len, n))"
      "fdt32_ld fdt (uint (hdr fdt 8) + n + 4) = Some len" "prop_at fdt n" "offset \<le> n" "n < 2 ^ 31"
  using assms(2,3)
proof (induction "nat (2 ^ 31 - offset)" arbitrary: offset thesis rule: less_induct)
  case less
  show ?case
  proof (cases "offset < 0")
    case True
    then have "get_property_loop fdt offset name = Some (Inl offset)"
      by (subst get_property_loop.simps) simp
    then show ?thesis using less.prems(1) True by blast
  next
    case False
    then have p: "prop_at fdt offset" using less.prems(4) by simp
    from assms(1) p obtain len nameoff where
      f: "fdt32_ld fdt (uint (hdr fdt 8) + offset + 8) = Some nameoff"
      by (rule prop_at_fields)
    obtain b where b: "fdt_string_eq' fdt (sint nameoff) name = Some b"
      using fdt_string_eq_total [OF assms(1)] by blast
    from assms(1) less.prems(3) show ?thesis
    proof (cases rule: fdt_get_property_by_offset'_total)
      case (1 e)
      then have "get_property_loop fdt offset name = Some (Inl (- FDT_ERR_INTERNAL))"
        using False by (subst get_property_loop.simps) simp
      then show ?thesis using less.prems(1) by force
    next
      case (2 len)
      show ?thesis
      proof (cases b)
        case True
        then have "get_property_loop fdt offset name = Some (Inr (uint (hdr fdt 8) + offset, uint len, offset))"
          using False b f 2 by (subst get_property_loop.simps) simp
        then show ?thesis using less.prems(2,3) 2 p by blast
      next
        case nb: False
        then have eq: "get_property_loop fdt offset name
            = fdt_next_property_offset fdt offset \<bind> (\<lambda>n. get_property_loop fdt n name)"
          using False b f 2 by (subst get_property_loop.simps) simp
        from assms(1) less.prems(3) show ?thesis
        proof (cases rule: fdt_next_property_offset_total)
          case (1 e)
          then have "get_property_loop fdt offset name = Some (Inl e)"
            using eq by (simp add: get_property_loop.simps)
          then show ?thesis using less.prems(1) 1 by blast
        next
          case (2 n)
          show ?thesis
            by (rule less.hyps [of n]) (use 2 eq less.prems(1,2) in auto)
        qed
      qed
    qed
  qed
qed

lemma fdt_get_property_namelen'_total:
  assumes "fdt_buffer fdt" "offset < 2 ^ 31"
  obtains e where "fdt_get_property_namelen' fdt offset name = Some (Inl e)" "e < 0"
  | len n where "fdt_get_property_namelen' fdt offset name = Some (Inr (uint (hdr fdt 8) + n, uint len, n))"
      "fdt32_ld fdt (uint (hdr fdt 8) + n + 4) = Some len" "prop_at fdt n" "n < 2 ^ 31"
  using assms
proof (cases rule: fdt_first_property_offset_total)
  case (1 e)
  then have "fdt_get_property_namelen' fdt offset name = Some (Inl e)"
    by (simp add: fdt_get_property_namelen'_def get_property_loop.simps)
  then show thesis using that(1) 1 by blast
next
  case (2 n)
  from assms(1) 2(4) disjI2 [OF 2(2)] show thesis
    by (cases rule: get_property_loop_total [where name = name])
      (use 2 that in \<open>auto simp: fdt_get_property_namelen'_def\<close>)
qed

lemma fdt_getprop_namelen_total:
  assumes "fdt_buffer fdt" "offset < 2 ^ 31"
  obtains e where "fdt_getprop_namelen fdt offset name = Some (Inl e)" "e < 0"
  | p len where "fdt_getprop_namelen fdt offset name = Some (Inr (p, len))" "0 \<le> p" "0 \<le> len"
      "p + len \<le> uint (hdr fdt 4)"
  using assms
proof (cases rule: fdt_get_property_namelen'_total [where name = name])
  case (1 e)
  then show thesis using that(1) by (simp add: fdt_getprop_namelen_def)
next
  case (2 len n)
  from assms(1) 2(3) show thesis
  proof (cases rule: prop_at_fields)
    case (1 len' nameoff)
    have [simp]: "len' = len" using 1 2 by simp
    have "prop_data fdt n (uint (hdr fdt 8) + n) = Some (uint (hdr fdt 8) + n + 12 + data_shift fdt n len)"
      using 1 assms(1) by (auto simp: prop_data_def data_shift_def)
    then have "fdt_getprop_namelen fdt offset name
        = Some (Inr (uint (hdr fdt 8) + n + 12 + data_shift fdt n len, uint len))"
      using 2 by (simp add: fdt_getprop_namelen_def)
    then show thesis
      using 1 by (intro that(2)) auto
  qed
qed

section \<open>Names and subnodes\<close>

lemma blob_str_total:
  assumes "rd8 fdt z = Some 0" "0 \<le> p" "p \<le> z"
  obtains s where "blob_str fdt p = Some s" "p + int (length s) \<le> z" "rd8 fdt (p + int (length s)) = Some 0"
  using assms(2,3)
proof (induction "nat (z - p)" arbitrary: p thesis rule: less_induct)
  case less
  obtain b where b: "rd8 fdt p = Some b"
    using assms(1) less.prems(2,3) rd8_total [of p fdt] by (auto simp: rd8_def split: if_splits)
  show ?case
  proof (cases "b = 0")
    case True
    then show ?thesis using less.prems b by (simp add: blob_str.simps)
  next
    case False
    then have "p \<noteq> z" using b assms(1) by auto
    then have lt: "0 \<le> p + 1" "p + 1 \<le> z" using less.prems by auto
    have "nat (z - (p + 1)) < nat (z - p)" using lt by linarith
    then obtain s where s: "blob_str fdt (p + 1) = Some s" "p + 1 + int (length s) \<le> z"
        "rd8 fdt (p + 1 + int (length s)) = Some 0"
      using less.hyps lt by blast
    have "blob_str fdt p = Some (b # s)"
      using False b s(1) by (subst blob_str.simps) simp
    then show ?thesis
      using s by (intro less.prems(1)) (auto simp: algebra_simps)
  qed
qed

lemma node_name_end:
  assumes "node_at fdt offset"
  obtains z where "offset + 4 \<le> z" "z < struct_room fdt" "rd8 fdt (uint (hdr fdt 8) + z) = Some 0" "0 \<le> offset"
  using assms by (auto simp: node_at_def tag_step_def)

lemma takeWhile_shorter: "x \<in> set xs \<Longrightarrow> \<not> P x \<Longrightarrow> length (takeWhile P xs) < length xs"
  by (induction xs) auto

lemma strrchr_total:
  assumes "rd8 fdt z = Some 0" "0 \<le> p" "p \<le> z"
  obtains "blob_strrchr fdt p c = Some None"
  | q where "blob_strrchr fdt p c = Some (Some q)" "p \<le> q" "q < z"
  using assms
proof (cases rule: blob_str_total)
  case (1 s)
  show thesis
  proof (cases "c \<in> set s")
    case True
    have "length (takeWhile (\<lambda>b. b \<noteq> c) (rev s)) < length (rev s)"
      using True by (intro takeWhile_shorter [of c]) auto
    then have "p + int (length s - 1 - length (takeWhile (\<lambda>b. b \<noteq> c) (rev s))) < z"
      using 1(2) by (simp add: of_nat_diff)
    then show thesis
      using True 1 that(2) by (simp add: blob_strrchr_def)
  next
    case False
    then show thesis using 1 that(1) by (simp add: blob_strrchr_def)
  qed
qed

lemma fdt_get_name_total:
  assumes "fdt_buffer fdt" "offset < 2 ^ 31"
  obtains e where "fdt_get_name fdt offset = Some (Inl e)" "e < 0"
  | p len where "fdt_get_name fdt offset = Some (Inr (p, len))" "0 \<le> p" "0 \<le> len" "p + len < uint (hdr fdt 4)"
      "rd8 fdt (p + len) = Some 0"
  using assms(1)
proof (cases rule: fdt_ro_probe_total)
  case (1 e)
  then show thesis using that(1) assms(1) by (simp add: fdt_get_name_def fdt_offset_ptr'_def)
next
  case 2
  note probe = this(1) and ok = that(2)
  have h4: "\<not> uint (hdr fdt 4) < 0" by simp
  from assms show thesis
  proof (cases rule: fdt_check_node_offset_total)
    case (1 e)
    then show thesis
      using that(1) [of e] assms(1) probe by (simp add: fdt_get_name_def fdt_offset_ptr'_def)
  next
    case (2 n)
    from 2(2) show thesis
    proof (cases rule: node_name_end)
      case (1 z)
      let ?p = "uint (hdr fdt 8) + offset + 4" and ?z = "uint (hdr fdt 8) + z"
      have z: "rd8 fdt ?z = Some 0" "0 \<le> ?p" "?p \<le> ?z" "?z < uint (hdr fdt 4)"
        using 1 uint_ge_0 [of "hdr fdt 8"] unfolding struct_room_def by linarith+
      have fin: thesis if q: "0 \<le> q" "q \<le> ?z" and eq: "fdt_get_name fdt offset
          = do { len \<leftarrow> blob_strlen fdt q; Some (Inr (q, len)) }" for q
        using z(1) q
      proof (cases rule: blob_str_total)
        case (1 s)
        then show thesis
          using eq q z(4) by (intro ok [of q "int (length s)"]) (auto simp: blob_strlen_def)
      qed
      have eq: "fdt_get_name fdt offset = (if hdr fdt 20 < 0x10 then blob_strrchr fdt ?p 0x2f \<bind>
          (\<lambda>leaf. case leaf of None \<Rightarrow> Some (Inl (- FDT_ERR_BADSTRUCTURE))
             | Some l \<Rightarrow> do { len \<leftarrow> blob_strlen fdt (l + 1); Some (Inr (l + 1, len)) })
          else do { len \<leftarrow> blob_strlen fdt ?p; Some (Inr (?p, len)) })"
        using assms(1) probe 2 by (cases "blob_strrchr fdt ?p 0x2f")
          (auto simp: fdt_get_name_def fdt_offset_ptr'_def Let_def split: option.splits)
      show thesis
      proof (cases "hdr fdt 20 < 0x10")
        case True
        from z(1-3) show thesis
        proof (cases rule: strrchr_total [where c = "0x2f"])
          case 1
          then show thesis using eq True that(1) by simp
        next
          case (2 q)
          then show thesis using eq True fin [of "q + 1"] z by simp
        qed
      next
        case False
        then show thesis using eq fin [of ?p] z by simp
      qed
    qed
  qed
qed

lemma fdt_nodename_eq_total:
  assumes "fdt_buffer fdt" "offset < 2 ^ 31"
  shows "\<exists>b. fdt_nodename_eq' fdt offset s = Some b"
  using assms
proof (cases rule: fdt_get_name_total)
  case (2 p len)
  then have "p + int (length s) < int (length (fdt_bytes fdt))" if "\<not> len < int (length s)"
    using that fdt_buffer_totalsize(1) [OF assms(1)] by linarith
  then show ?thesis
    using 2 blob_eq_total [of p s fdt] rd8_total [of "p + int (length s)" fdt]
    by (cases "len < int (length s)") (auto simp: fdt_nodename_eq'_def)
qed (auto simp: fdt_nodename_eq'_def)

lemma subnode_offset_loop_total:
  assumes "fdt_buffer fdt" "offset < 2 ^ 31" "depth = 1 \<longrightarrow> 0 \<le> offset \<longrightarrow> node_at fdt offset"
  obtains e where "subnode_offset_loop fdt offset depth name = Some e" "e < 0"
  | n where "subnode_offset_loop fdt offset depth name = Some n" "node_at fdt n" "offset \<le> n" "n < 2 ^ 31"
  using assms(2,3)
proof (induction "nat (2 ^ 31 - offset)" arbitrary: offset depth thesis rule: less_induct)
  case less
  let ?L = "subnode_offset_loop fdt"
  consider "depth < 0" | "offset < 0" "0 \<le> depth" | "0 \<le> offset" "0 \<le> depth" by linarith
  then show ?case
  proof cases
    case 1
    then have "?L offset depth name = Some (- FDT_ERR_NOTFOUND)" by (subst subnode_offset_loop.simps) simp
    then show ?thesis using less.prems(1) by force
  next
    case 2
    then have "?L offset depth name = Some offset" by (subst subnode_offset_loop.simps) simp
    then show ?thesis using less.prems(1) 2 by blast
  next
    case 3
    obtain b where b: "(if depth = 1 then fdt_nodename_eq' fdt offset name else Some False) = Some b"
      using fdt_nodename_eq_total [OF assms(1) less.prems(3), of name] by (cases "depth = 1") auto
    have eq: "?L offset depth name = (if b then Some offset else do {
        (offset, depth') \<leftarrow> fdt_next_node fdt offset (Some depth); ?L offset (the depth') name })"
      using 3 b by (subst subnode_offset_loop.simps) simp
    show ?thesis
    proof (cases b)
      case True
      then show ?thesis
        using eq b less.prems(2) [of offset] less.prems(3,4) 3 by (auto split: if_splits)
    next
      case nb: False
      from assms(1) less.prems(3) show ?thesis
      proof (cases rule: fdt_next_node_total [where depth = "Some depth"])
        case (1 e d)
        then have "?L offset depth name = Some (if the d < 0 then - FDT_ERR_NOTFOUND else e)"
          using eq nb by (simp add: subnode_offset_loop.simps [of fdt e])
        then show ?thesis using less.prems(1) 1 by force
      next
        case (2 n d)
        then have "?L offset depth name = Some (- FDT_ERR_NOTFOUND)"
          using eq nb by (simp add: subnode_offset_loop.simps [of fdt n])
        then show ?thesis using less.prems(1) by force
      next
        case (3 n d)
        show ?thesis
          by (rule less.hyps [of n "the d"]) (use 3 eq nb less.prems(1,2,3) in auto)
      qed
    qed
  qed
qed

lemma fdt_subnode_offset_namelen_total:
  assumes "fdt_buffer fdt" "offset < 2 ^ 31"
  obtains e where "fdt_subnode_offset_namelen fdt offset name = Some e" "e < 0"
  | n where "fdt_subnode_offset_namelen fdt offset name = Some n" "node_at fdt n" "offset \<le> n" "n < 2 ^ 31"
  using assms(1)
proof (cases rule: FDT_RO_PROBE_total [where k = "subnode_offset_loop fdt offset 0 name"])
  case (1 e)
  then show thesis using that(1) by (simp add: fdt_subnode_offset_namelen_def)
next
  case 2
  from assms show thesis
    by (rule subnode_offset_loop_total [where depth = 0 and name = name])
      (use 2 that in \<open>auto simp: fdt_subnode_offset_namelen_def\<close>)
qed

section \<open>Paths\<close>

text \<open>An offset the path functions may return: an error, the root, or the start of a node.\<close>

definition path_result :: "fdt \<Rightarrow> int \<Rightarrow> bool" where
  "path_result fdt n \<longleftrightarrow> n < 2 ^ 31 \<and> (n < 0 \<or> n = 0 \<or> node_at fdt n)"

lemma path_walk_total:
  "fdt_buffer fdt \<Longrightarrow> path_result fdt offset \<Longrightarrow> \<exists>n. path_walk fdt offset path = Some n \<and> path_result fdt n"
proof (induction fdt offset path rule: path_walk.induct)
  case (2 fdt offset c p)
  have less: "offset < 2 ^ 31"
    using "2.prems"(2) by (simp add: path_result_def)
  show ?case
  proof (cases "c = 0x2f")
    case True
    then show ?thesis using "2.IH"(1) "2.prems" by simp
  next
    case False
    let ?name = "takeWhile (\<lambda>b. b \<noteq> 0x2f) (c # p)"
    from "2.prems"(1) less show ?thesis
    proof (cases rule: fdt_subnode_offset_namelen_total [where name = ?name])
      case (1 e)
      then have "path_walk fdt offset (c # p) = Some e"
        using False by (simp only: path_walk.simps if_False option.case if_True)
      then show ?thesis using 1 by (auto simp: path_result_def)
    next
      case (2 n)
      then have "path_result fdt n" by (simp add: path_result_def)
      show ?thesis
      proof (cases "n < 0")
        case True
        then have "path_walk fdt offset (c # p) = Some n"
          using False 2 by (simp only: path_walk.simps if_False option.case if_True)
        then show ?thesis using \<open>path_result fdt n\<close> by blast
      next
        case nn: False
        then have "path_walk fdt offset (c # p) = path_walk fdt n (dropWhile (\<lambda>b. b \<noteq> 0x2f) (c # p))"
          using False 2 by (simp only: path_walk.simps if_False option.case)
        then show ?thesis
          using "2.IH"(2) [OF False 2(1) nn "2.prems"(1) \<open>path_result fdt n\<close>] by simp
      qed
    qed
  qed
qed auto

lemma FDT_RO_PROBE_path_result:
  assumes "fdt_buffer fdt" "k = Some n" "path_result fdt n"
  shows "\<exists>n. FDT_RO_PROBE fdt k = Some n \<and> path_result fdt n"
  using assms(1) by (cases rule: FDT_RO_PROBE_total [where k = k]) (use assms(2,3) in \<open>auto simp: path_result_def\<close>)

lemma path_result_error: "e < 0 \<Longrightarrow> path_result fdt e"
  by (simp add: path_result_def)

lemma path_result_root: "path_result fdt 0"
  by (simp add: path_result_def)

lemma absolute_path_offset_total:
  assumes "fdt_buffer fdt" "path = [] \<or> hd path = 0x2f"
  shows "\<exists>n. absolute_path_offset fdt path = Some n \<and> path_result fdt n"
proof -
  let ?k = "if path = [] then Some (- FDT_ERR_BADPATH) else path_walk fdt 0 path"
  obtain n where n: "?k = Some n" "path_result fdt n"
    using path_walk_total [OF assms(1) path_result_root, of path] path_result_error [of "- FDT_ERR_BADPATH" fdt]
    by (cases "path = []") auto
  have "absolute_path_offset fdt path = FDT_RO_PROBE fdt ?k"
    using assms(2) by (auto simp: absolute_path_offset_def path_offset_body_def)
  then show ?thesis
    using FDT_RO_PROBE_path_result [OF assms(1) n] by simp
qed

lemma fdt_path_getprop_namelen_total:
  assumes "fdt_buffer fdt" "hd path = 0x2f" "path \<noteq> []"
  obtains e where "fdt_path_getprop_namelen fdt path name = Some (Inl e)"
  | p len where "fdt_path_getprop_namelen fdt path name = Some (Inr (p, len))" "0 \<le> p" "0 \<le> len"
      "p + len \<le> uint (hdr fdt 4)"
proof -
  obtain n where n: "absolute_path_offset fdt path = Some n" "n < 2 ^ 31"
    using absolute_path_offset_total [OF assms(1)] assms(2) by (auto simp: path_result_def)
  show thesis
  proof (cases "n < 0")
    case True
    then show thesis using n that(1) by (simp add: fdt_path_getprop_namelen_def)
  next
    case False
    from assms(1) n(2) show thesis
      by (cases rule: fdt_getprop_namelen_total [where name = name])
        (use n False that in \<open>auto simp: fdt_path_getprop_namelen_def\<close>)
  qed
qed

text \<open>An alias is a string that starts with a slash and ends inside the buffer.\<close>

lemma fdt_get_alias_namelen_total:
  assumes "fdt_buffer fdt"
  obtains "fdt_get_alias_namelen fdt name = Some None"
  | p s where "fdt_get_alias_namelen fdt name = Some (Some p)" "blob_str fdt p = Some s" "s \<noteq> []" "hd s = 0x2f"
proof -
  have sl: "hd (bytes_of ''/aliases'') = 0x2f" "bytes_of ''/aliases'' \<noteq> []"
    by (simp_all add: bytes_of_def)
  from assms sl show thesis
  proof (cases rule: fdt_path_getprop_namelen_total [where name = name])
    case (1 e)
    then show thesis using that(1) by (simp add: fdt_get_alias_namelen_def)
  next
    case (2 p len)
    show thesis
    proof (cases "len > 0")
      case True
      have "p + len - 1 < int (length (fdt_bytes fdt))" "0 \<le> p + len - 1" "p < int (length (fdt_bytes fdt))"
        using True 2 fdt_buffer_totalsize(1) [OF assms] by linarith+
      then obtain z c where zc: "rd8 fdt (p + len - 1) = Some z" "rd8 fdt p = Some c"
        using rd8_total 2(2) by blast
      have eq: "fdt_get_alias_namelen fdt name = Some (if z = 0 \<and> c = 0x2f then Some p else None)"
        using 2 True zc by (simp add: fdt_get_alias_namelen_def)
      show thesis
      proof (cases "z = 0 \<and> c = 0x2f")
        case T: True
        then have "rd8 fdt (p + len - 1) = Some 0" "p \<le> p + len - 1" using zc True by auto
        from this(1) 2(2) this(2) show thesis
        proof (cases rule: blob_str_total)
          case (1 s)
          have "blob_str fdt p = do { s \<leftarrow> blob_str fdt (p + 1); Some (c # s) }"
            using zc T by (subst blob_str.simps) simp
          then have "s \<noteq> []" "hd s = 0x2f"
            using 1(1) T by (cases "blob_str fdt (p + 1)"; force)+
          then show thesis using that(2) [of p s] eq T 1 by simp
        qed
      next
        case F: False
        then show thesis using that(1) eq by simp
      qed
    next
      case False
      then show thesis using that(1) 2 by (simp add: fdt_get_alias_namelen_def)
    qed
  qed
qed

lemma fdt_path_offset_namelen_total:
  assumes "fdt_buffer fdt"
  shows "\<exists>n. fdt_path_offset_namelen fdt path = Some n \<and> path_result fdt n"
proof -
  define alias_offset where "alias_offset = (\<lambda>name. do {
          p \<leftarrow> fdt_get_alias_namelen fdt name;
          (case p of
             None \<Rightarrow> Some None
           | Some p \<Rightarrow> do { s \<leftarrow> blob_str fdt p; offset \<leftarrow> absolute_path_offset fdt s; Some (Some offset) }) })"
  have al: "alias_offset name = Some None \<or> (\<exists>n. alias_offset name = Some (Some n) \<and> path_result fdt n)" for name
    using assms
  proof (cases rule: fdt_get_alias_namelen_total [where name = name])
    case (2 p s)
    then show ?thesis
      using absolute_path_offset_total [OF assms, of s] by (auto simp: alias_offset_def)
  qed (simp add: alias_offset_def)
  let ?k = "if path = [] then Some (- FDT_ERR_BADPATH)
        else if hd path \<noteq> 0x2f then do {
          offset \<leftarrow> alias_offset (takeWhile (\<lambda>b. b \<noteq> 0x2f) path);
          (case offset of
             None \<Rightarrow> Some (- FDT_ERR_BADPATH)
           | Some offset \<Rightarrow> path_walk fdt offset (dropWhile (\<lambda>b. b \<noteq> 0x2f) path)) }
        else path_walk fdt 0 path"
  have bad: "path_result fdt (- FDT_ERR_BADPATH)"
    by (simp add: path_result_error)
  consider "path = []" | "path \<noteq> []" "hd path = 0x2f" | "path \<noteq> []" "hd path \<noteq> 0x2f" by blast
  then have "\<exists>n. ?k = Some n \<and> path_result fdt n"
  proof cases
    case 3
    then show ?thesis
      using al [of "takeWhile (\<lambda>b. b \<noteq> 0x2f) path"] path_walk_total [OF assms] bad by auto
  qed (use path_walk_total [OF assms path_result_root, of path] bad in auto)
  then obtain n where n: "?k = Some n" "path_result fdt n" by blast
  have "fdt_path_offset_namelen fdt path = FDT_RO_PROBE fdt ?k"
    unfolding fdt_path_offset_namelen_def path_offset_body_def alias_offset_def ..
  then show ?thesis
    using FDT_RO_PROBE_path_result [OF assms n] by simp
qed

end
