(* ===== verification/Fdt_Iter.thy ===== *)
theory Fdt_Iter
  imports Fdt_Safe
begin

unbundle bit_operations_syntax

text \<open>
  The iteration macros of \<^verbatim>\<open>libfdt.h\<close> and the searches of \<^verbatim>\<open>fdt_ro.c\<close> over all nodes, as clients of one
  contract: a step function that, on any buffer, returns an error or a larger offset.  The contract is
  a locale; the steps to the next node, the next subnode and the next property provide it.
\<close>

section \<open>The macros\<close>

text \<open>The offsets that \<^verbatim>\<open>for (o = first; o >= 0; o = next(fdt, o))\<close> visits, in order.\<close>

partial_function (option) for_each :: "(fdt \<Rightarrow> int \<Rightarrow> int option) \<Rightarrow> fdt \<Rightarrow> int \<Rightarrow> int list option" where
  [code]: "for_each next fdt o' =
     (if o' \<ge> 0 then do { n \<leftarrow> next fdt o'; os \<leftarrow> for_each next fdt n; Some (o' # os) } else Some [])"

definition fdt_for_each_subnode :: "fdt \<Rightarrow> int \<Rightarrow> int list option" where
  "fdt_for_each_subnode fdt parent = do {
     node \<leftarrow> fdt_first_subnode fdt parent;
     for_each fdt_next_subnode fdt node }"

definition fdt_for_each_property_offset :: "fdt \<Rightarrow> int \<Rightarrow> int list option" where
  "fdt_for_each_property_offset fdt node = do {
     property \<leftarrow> fdt_first_property_offset fdt node;
     for_each fdt_next_property_offset fdt property }"

section \<open>The contract\<close>

lemma offset_induct [consumes 1, case_names step]:
  fixes o' :: int
  assumes "o' < 2 ^ 31" "\<And>o'. o' < 2 ^ 31 \<Longrightarrow> (\<And>n. o' < n \<Longrightarrow> n < 2 ^ 31 \<Longrightarrow> P n) \<Longrightarrow> P o'"
  shows "P o'"
  using assms(1)
proof (induction "nat (2 ^ 31 - o')" arbitrary: o' rule: less_induct)
  case less
  show ?case
    by (rule assms(2) [OF less.prems]) (rule less.hyps, auto)
qed

locale fdt_iterator =
  fixes step :: "fdt \<Rightarrow> int \<Rightarrow> int option"
    and item :: "fdt \<Rightarrow> int \<Rightarrow> bool"
  assumes step_forward: "fdt_buffer fdt \<Longrightarrow> o' < 2 ^ 31 \<Longrightarrow>
    \<exists>n. step fdt o' = Some n \<and> (n < 0 \<or> item fdt n \<and> o' < n \<and> n < 2 ^ 31)"
begin

lemma step_cases:
  assumes "fdt_buffer fdt" "o' < 2 ^ 31"
  obtains e where "step fdt o' = Some e" "e < 0"
  | n where "step fdt o' = Some n" "item fdt n" "o' < n" "n < 2 ^ 31"
  using step_forward [OF assms] that by blast

lemma for_each_forward:
  assumes "fdt_buffer fdt" "o' < 2 ^ 31"
  shows "\<exists>os. for_each step fdt o' = Some os \<and> sorted_wrt (<) os \<and>
    (\<forall>x\<in>set os. o' \<le> x \<and> (x = o' \<or> item fdt x))"
  using assms(2)
proof (induction rule: offset_induct)
  case (step o')
  show ?case
  proof (cases "o' < 0")
    case True
    then show ?thesis by (simp add: for_each.simps)
  next
    case False
    from assms(1) step(1) show ?thesis
    proof (cases rule: step_cases)
      case (1 e)
      then show ?thesis using False by (simp add: for_each.simps [of _ fdt o'] for_each.simps [of _ fdt e])
    next
      case (2 n)
      obtain os where os: "for_each step fdt n = Some os" "sorted_wrt (<) os"
        "\<forall>x\<in>set os. n \<le> x \<and> (x = n \<or> item fdt x)"
        using step(2) [OF 2(3,4)] by blast
      then have "for_each step fdt o' = Some (o' # os)"
        using False 2 by (subst for_each.simps) simp
      then show ?thesis
        using os 2 by force
    qed
  qed
qed

text \<open>A search that tries a total test on each item ends, with the test's answer or the final error.\<close>

lemma search_total:
  assumes "fdt_buffer fdt" "o' < 2 ^ 31"
    and found: "\<And>n. item fdt n \<Longrightarrow> n < 2 ^ 31 \<Longrightarrow> \<exists>r. found n = Some r"
    and loop: "\<And>o'. search o' = step fdt o' \<bind> (\<lambda>n. if n \<ge> 0 then found n \<bind> (\<lambda>r. case r of
      Some r \<Rightarrow> Some r | None \<Rightarrow> search n) else Some n)"
  shows "\<exists>r. search o' = Some (r :: int) \<and> (r < 0 \<or> (\<exists>n. item fdt n \<and> found n = Some (Some r)))"
  using assms(2)
proof (induction rule: offset_induct)
  case (step o')
  from assms(1) step(1) show ?case
  proof (cases rule: step_cases)
    case (1 e)
    then show ?thesis by (simp add: loop [of o'])
  next
    case (2 n)
    obtain r where r: "found n = Some r" using found 2 by blast
    show ?thesis
    proof (cases "n \<ge> 0")
      case True
      show ?thesis
        using step(2) [OF 2(3,4)] 2 r True by (cases r) (auto simp: loop [of o'])
    next
      case False
      then show ?thesis using 2 by (simp add: loop [of o'])
    qed
  qed
qed

end

section \<open>The providers\<close>

definition next_node :: "fdt \<Rightarrow> int \<Rightarrow> int option" where
  "next_node fdt offset = map_option fst (fdt_next_node fdt offset None)"

lemma next_node_forward:
  assumes "fdt_buffer fdt" "offset < 2 ^ 31"
  shows "\<exists>n. next_node fdt offset = Some n \<and> (n < 0 \<or> node_at fdt n \<and> offset < n \<and> n < 2 ^ 31)"
  using assms by (cases rule: fdt_next_node_total [where depth = None]) (auto simp: next_node_def)

lemma next_subnode_loop_forward:
  assumes "fdt_buffer fdt" "offset < 2 ^ 31"
  shows "\<exists>n. next_subnode_loop fdt offset depth = Some n \<and> (n < 0 \<or> node_at fdt n \<and> offset < n \<and> n < 2 ^ 31)"
  using assms(2)
proof (induction "nat (2 ^ 31 - offset)" arbitrary: offset depth rule: less_induct)
  case less
  from assms(1) less.prems show ?case
  proof (cases rule: fdt_next_node_total [where depth = "Some depth"])
    case (1 e d)
    then show ?thesis by (subst next_subnode_loop.simps) simp
  next
    case (2 n d)
    then show ?thesis by (subst next_subnode_loop.simps) simp
  next
    case (3 n d)
    have "\<exists>m. next_subnode_loop fdt n (the d) = Some m \<and> (m < 0 \<or> node_at fdt m \<and> n < m \<and> m < 2 ^ 31)"
      using 3 by (intro less.hyps) auto
    then show ?thesis
      using 3 by (subst next_subnode_loop.simps) (auto simp: Let_def intro: less_trans)
  qed
qed

interpretation nodes: fdt_iterator next_node node_at
  by unfold_locales (rule next_node_forward)

interpretation subnodes: fdt_iterator fdt_next_subnode node_at
  by unfold_locales (simp only: fdt_next_subnode_def next_subnode_loop_forward)

interpretation properties: fdt_iterator fdt_next_property_offset prop_at
proof
  fix fdt o'
  assume "fdt_buffer fdt" "o' < (2 :: int) ^ 31"
  then show "\<exists>n. fdt_next_property_offset fdt o' = Some n \<and> (n < 0 \<or> prop_at fdt n \<and> o' < n \<and> n < 2 ^ 31)"
    by (cases rule: fdt_next_property_offset_total) auto
qed

end
