(* ===== verification/Fdt_Write.thy ===== *)
theory Fdt_Write
  imports Fdt_Iter
begin

unbundle bit_operations_syntax

text \<open>
  Writing into a device tree blob: big-endian stores, the header setters of \<^verbatim>\<open>libfdt.h\<close>, and the in-place
  operations of \<^verbatim>\<open>fdt_wip.c\<close>.  A function that writes returns its result with the new blob; a store that
  would leave the buffer is \<open>None\<close>.  The laws that relate stores to the loads of \<^verbatim>\<open>Fdt_Base\<close> are at the
  end.
\<close>

section \<open>Stores\<close>

definition wr_bytes :: "fdt \<Rightarrow> int \<Rightarrow> u8 list \<Rightarrow> fdt option" where
  "wr_bytes fdt p bs = do { bytes \<leftarrow> splice (fdt_bytes fdt) p bs; Some (fdt\<lparr>fdt_bytes := bytes\<rparr>) }"

definition cpu_to_fdt32 :: "u32 \<Rightarrow> u8 list" where
  "cpu_to_fdt32 x = [ucast (drop_bit 24 x), ucast (drop_bit 16 x), ucast (drop_bit 8 x), ucast x]"

definition cpu_to_fdt64 :: "u64 \<Rightarrow> u8 list" where
  "cpu_to_fdt64 x = cpu_to_fdt32 (ucast (drop_bit 32 x)) @ cpu_to_fdt32 (ucast x)"

definition fdt32_st :: "fdt \<Rightarrow> int \<Rightarrow> u32 \<Rightarrow> fdt option" where
  "fdt32_st fdt p x = wr_bytes fdt p (cpu_to_fdt32 x)"

definition fdt64_st :: "fdt \<Rightarrow> int \<Rightarrow> u64 \<Rightarrow> fdt option" where
  "fdt64_st fdt p x = wr_bytes fdt p (cpu_to_fdt64 x)"

definition fdt_set_magic :: "fdt \<Rightarrow> u32 \<Rightarrow> fdt option" where
  "fdt_set_magic fdt val = fdt32_st fdt 0 val"

definition fdt_set_totalsize :: "fdt \<Rightarrow> u32 \<Rightarrow> fdt option" where
  "fdt_set_totalsize fdt val = fdt32_st fdt 4 val"

definition fdt_set_off_dt_struct :: "fdt \<Rightarrow> u32 \<Rightarrow> fdt option" where
  "fdt_set_off_dt_struct fdt val = fdt32_st fdt 8 val"

definition fdt_set_off_dt_strings :: "fdt \<Rightarrow> u32 \<Rightarrow> fdt option" where
  "fdt_set_off_dt_strings fdt val = fdt32_st fdt 12 val"

definition fdt_set_off_mem_rsvmap :: "fdt \<Rightarrow> u32 \<Rightarrow> fdt option" where
  "fdt_set_off_mem_rsvmap fdt val = fdt32_st fdt 16 val"

definition fdt_set_version :: "fdt \<Rightarrow> u32 \<Rightarrow> fdt option" where
  "fdt_set_version fdt val = fdt32_st fdt 20 val"

definition fdt_set_last_comp_version :: "fdt \<Rightarrow> u32 \<Rightarrow> fdt option" where
  "fdt_set_last_comp_version fdt val = fdt32_st fdt 24 val"

definition fdt_set_boot_cpuid_phys :: "fdt \<Rightarrow> u32 \<Rightarrow> fdt option" where
  "fdt_set_boot_cpuid_phys fdt val = fdt32_st fdt 28 val"

definition fdt_set_size_dt_strings :: "fdt \<Rightarrow> u32 \<Rightarrow> fdt option" where
  "fdt_set_size_dt_strings fdt val = fdt32_st fdt 32 val"

definition fdt_set_size_dt_struct :: "fdt \<Rightarrow> u32 \<Rightarrow> fdt option" where
  "fdt_set_size_dt_struct fdt val = fdt32_st fdt 36 val"

lemmas fdt_set_defs = fdt_set_magic_def fdt_set_totalsize_def fdt_set_off_dt_struct_def
  fdt_set_off_dt_strings_def fdt_set_off_mem_rsvmap_def fdt_set_version_def fdt_set_last_comp_version_def
  fdt_set_boot_cpuid_phys_def fdt_set_size_dt_strings_def fdt_set_size_dt_struct_def

text \<open>\<^verbatim>\<open>memmove\<close> inside the blob.\<close>

definition mv_bytes :: "fdt \<Rightarrow> int \<Rightarrow> int \<Rightarrow> int \<Rightarrow> fdt option" where
  "mv_bytes fdt dst src n =
     (if n < 0 then None else do { bs \<leftarrow> blob_bytes fdt src (nat n); wr_bytes fdt dst bs })"

section \<open>In-place operations\<close>

text \<open>
  \<^verbatim>\<open>fdt_setprop_inplace_namelen_partial\<close>: \<^verbatim>\<open>len + idx\<close> is an unsigned sum, compared with the length of the
  property.
\<close>

definition fdt_setprop_inplace_namelen_partial ::
    "fdt \<Rightarrow> int \<Rightarrow> u8 list \<Rightarrow> u32 \<Rightarrow> u8 list \<Rightarrow> (int \<times> fdt) option" where
  "fdt_setprop_inplace_namelen_partial fdt nodeoffset name idx val = do {
     r \<leftarrow> fdt_getprop_namelen fdt nodeoffset name;
     (case r of
        Inl proplen \<Rightarrow> Some (proplen, fdt)
      | Inr (propval, proplen) \<Rightarrow>
          if (word_of_int proplen :: u32) < of_nat (length val) + idx then Some (- FDT_ERR_NOSPACE, fdt)
          else do { fdt \<leftarrow> wr_bytes fdt (propval + uint idx) val; Some (0, fdt) }) }"

definition fdt_setprop_inplace :: "fdt \<Rightarrow> int \<Rightarrow> u8 list \<Rightarrow> u8 list \<Rightarrow> (int \<times> fdt) option" where
  "fdt_setprop_inplace fdt nodeoffset name val = do {
     r \<leftarrow> fdt_getprop fdt nodeoffset name;
     (case r of
        Inl proplen \<Rightarrow> Some (proplen, fdt)
      | Inr (_, proplen) \<Rightarrow>
          if proplen \<noteq> int (length val) then Some (- FDT_ERR_NOSPACE, fdt)
          else fdt_setprop_inplace_namelen_partial fdt nodeoffset name 0 val) }"

definition fdt_setprop_inplace_u32 :: "fdt \<Rightarrow> int \<Rightarrow> u8 list \<Rightarrow> u32 \<Rightarrow> (int \<times> fdt) option" where
  "fdt_setprop_inplace_u32 fdt nodeoffset name val = fdt_setprop_inplace fdt nodeoffset name (cpu_to_fdt32 val)"

definition fdt_setprop_inplace_u64 :: "fdt \<Rightarrow> int \<Rightarrow> u8 list \<Rightarrow> u64 \<Rightarrow> (int \<times> fdt) option" where
  "fdt_setprop_inplace_u64 fdt nodeoffset name val = fdt_setprop_inplace fdt nodeoffset name (cpu_to_fdt64 val)"

text \<open>\<^verbatim>\<open>fdt_nop_region_\<close>: a NOP tag at \<open>p\<close>, \<open>p + 4\<close>, ... up to \<open>start + len\<close>.\<close>

function nop_loop :: "fdt \<Rightarrow> int \<Rightarrow> int \<Rightarrow> fdt option" where
  "nop_loop fdt p end' =
     (if p < end' then
        (case fdt32_st fdt p FDT_NOP of None \<Rightarrow> None | Some fdt \<Rightarrow> nop_loop fdt (p + 4) end')
      else Some fdt)"
  by pat_completeness auto
termination by (relation "measure (\<lambda>(_, p, e). nat (e - p))") auto

definition fdt_nop_region' :: "fdt \<Rightarrow> int \<Rightarrow> int \<Rightarrow> fdt option" where
  "fdt_nop_region' fdt start len = nop_loop fdt start (start + len)"

definition fdt_nop_property :: "fdt \<Rightarrow> int \<Rightarrow> u8 list \<Rightarrow> (int \<times> fdt) option" where
  "fdt_nop_property fdt nodeoffset name = do {
     r \<leftarrow> fdt_get_property fdt nodeoffset name;
     (case r of
        Inl len \<Rightarrow> Some (len, fdt)
      | Inr (prop, len) \<Rightarrow> do { fdt \<leftarrow> fdt_nop_region' fdt prop (c_int (len + 12)); Some (0, fdt) }) }"

partial_function (option) node_end_loop :: "fdt \<Rightarrow> int \<Rightarrow> int \<Rightarrow> int option" where
  [code]: "node_end_loop fdt offset depth =
     (if offset \<ge> 0 \<and> depth \<ge> 0 then do {
        (offset, depth') \<leftarrow> fdt_next_node fdt offset (Some depth);
        node_end_loop fdt offset (the depth') }
      else Some offset)"

definition fdt_node_end_offset' :: "fdt \<Rightarrow> int \<Rightarrow> int option" where
  "fdt_node_end_offset' fdt offset = node_end_loop fdt offset 0"

text \<open>\<^verbatim>\<open>fdt_offset_ptr_w(fdt, nodeoffset, 0)\<close> may be null; then the region is at address 0, which is no part of
  the blob.\<close>

definition fdt_nop_node :: "fdt \<Rightarrow> int \<Rightarrow> (int \<times> fdt) option" where
  "fdt_nop_node fdt nodeoffset = do {
     endoffset \<leftarrow> fdt_node_end_offset' fdt nodeoffset;
     if endoffset < 0 then Some (endoffset, fdt)
     else do {
       start \<leftarrow> fdt_offset_ptr fdt nodeoffset 0;
       (case start of
          None \<Rightarrow> None
        | Some start \<Rightarrow> do { fdt \<leftarrow> fdt_nop_region' fdt start (endoffset - nodeoffset); Some (0, fdt) }) } }"

section \<open>Loads after stores\<close>

named_theorems fdt_mem \<open>loads after stores in the blob\<close>

lemma splice_length: "splice buf p bs = Some buf' \<Longrightarrow> length buf' = length buf"
  by (auto simp: splice_def split: if_splits)

lemma splice_nth:
  assumes "splice buf p bs = Some buf'" "i < length buf"
  shows "buf' ! i = (if nat p \<le> i \<and> i < nat p + length bs then bs ! (i - nat p) else buf ! i)"
  using assms by (auto simp: splice_def nth_append min_def split: if_splits)

lemma wr_bytes_total:
  "0 \<le> p \<Longrightarrow> p + int (length bs) \<le> int (length (fdt_bytes fdt)) \<Longrightarrow> \<exists>fdt'. wr_bytes fdt p bs = Some fdt'"
  by (auto simp: wr_bytes_def splice_def)

lemma wr_bytes_length [fdt_mem]: "wr_bytes fdt p bs = Some fdt' \<Longrightarrow> length (fdt_bytes fdt') = length (fdt_bytes fdt)"
  by (auto simp: wr_bytes_def bind_eq_Some_conv dest: splice_length)

lemma wr_bytes_addr [fdt_mem]: "wr_bytes fdt p bs = Some fdt' \<Longrightarrow> fdt_addr fdt' = fdt_addr fdt"
  by (auto simp: wr_bytes_def bind_eq_Some_conv)

lemma wr_bytes_inside: "wr_bytes fdt p bs = Some fdt' \<Longrightarrow> 0 \<le> p \<and> p + int (length bs) \<le> int (length (fdt_bytes fdt))"
  by (auto simp: wr_bytes_def bind_eq_Some_conv splice_def split: if_splits)

lemma rd8_wr_bytes [fdt_mem]:
  assumes "wr_bytes fdt p bs = Some fdt'"
  shows "rd8 fdt' q = (if p \<le> q \<and> q < p + int (length bs) then Some (bs ! nat (q - p)) else rd8 fdt q)"
proof -
  obtain bytes where s: "splice (fdt_bytes fdt) p bs = Some bytes" and f: "fdt' = fdt\<lparr>fdt_bytes := bytes\<rparr>"
    using assms by (auto simp: wr_bytes_def bind_eq_Some_conv)
  note in' = wr_bytes_inside [OF assms]
  show ?thesis
    using splice_length [OF s] splice_nth [OF s, of "nat q"] in'
    by (auto simp: f rd8_def nat_diff_distrib)
qed

lemma rd8_wr_bytes_other:
  "wr_bytes fdt p bs = Some fdt' \<Longrightarrow> q < p \<or> p + int (length bs) \<le> q \<Longrightarrow> rd8 fdt' q = rd8 fdt q"
  by (auto simp: rd8_wr_bytes)

lemma fdt32_ld_cong:
  "rd8 fdt' p = rd8 fdt p \<Longrightarrow> rd8 fdt' (p + 1) = rd8 fdt (p + 1) \<Longrightarrow> rd8 fdt' (p + 2) = rd8 fdt (p + 2)
   \<Longrightarrow> rd8 fdt' (p + 3) = rd8 fdt (p + 3) \<Longrightarrow> fdt32_ld fdt' p = fdt32_ld fdt p"
  by (simp add: fdt32_ld_def)

lemma fdt32_ld_wr_other:
  assumes "wr_bytes fdt p bs = Some fdt'" "q + 4 \<le> p \<or> p + int (length bs) \<le> q"
  shows "fdt32_ld fdt' q = fdt32_ld fdt q"
  using assms(2) by (intro fdt32_ld_cong rd8_wr_bytes_other [OF assms(1)]) auto

lemma length_cpu_to_fdt32 [simp]: "length (cpu_to_fdt32 x) = 4"
  by (simp add: cpu_to_fdt32_def)

lemma length_cpu_to_fdt64 [simp]: "length (cpu_to_fdt64 x) = 8"
  by (simp add: cpu_to_fdt64_def)

lemma fdt32_bytes_roundtrip:
  "fdt32_to_cpu (ucast (drop_bit 24 x)) (ucast (drop_bit 16 x)) (ucast (drop_bit 8 x)) (ucast x) = x"
proof (rule bit_eqI)
  fix n
  assume "possible_bit TYPE(u32) n"
  then consider "n < 8" | "8 \<le> n" "n < 16" | "16 \<le> n" "n < 24" | "24 \<le> n" "n < 32"
    by fastforce
  then show "bit (fdt32_to_cpu (ucast (drop_bit 24 x)) (ucast (drop_bit 16 x)) (ucast (drop_bit 8 x)) (ucast x)) n
      = bit x n"
    by cases (simp_all add: fdt32_to_cpu_def bit_simps less_diff_conv2)
qed

lemma fdt32_ld_wr_same:
  assumes "wr_bytes fdt p bs = Some fdt'" "bs = pre @ cpu_to_fdt32 x @ post" "q = p + int (length pre)"
  shows "fdt32_ld fdt' q = Some x"
  using assms(2,3)
  by (simp add: fdt32_ld_def rd8_wr_bytes [OF assms(1)] nth_append nat_add_distrib cpu_to_fdt32_def
      fdt32_bytes_roundtrip)

lemma fdt32_ld_st_same [fdt_mem]: "fdt32_st fdt p x = Some fdt' \<Longrightarrow> fdt32_ld fdt' p = Some x"
  using fdt32_ld_wr_same [of fdt p _ fdt' "[]" x "[]" p] by (simp add: fdt32_st_def)

lemma fdt32_ld_st_other [fdt_mem]:
  "fdt32_st fdt p x = Some fdt' \<Longrightarrow> q + 4 \<le> p \<or> p + 4 \<le> q \<Longrightarrow> fdt32_ld fdt' q = fdt32_ld fdt q"
  using fdt32_ld_wr_other [of fdt p _ fdt' q] by (simp add: fdt32_st_def)

lemma rd8_st_other [fdt_mem]: "fdt32_st fdt p x = Some fdt' \<Longrightarrow> q < p \<or> p + 4 \<le> q \<Longrightarrow> rd8 fdt' q = rd8 fdt q"
  by (simp add: fdt32_st_def rd8_wr_bytes_other)

lemma fdt32_st_length [fdt_mem]: "fdt32_st fdt p x = Some fdt' \<Longrightarrow> length (fdt_bytes fdt') = length (fdt_bytes fdt)"
  by (simp add: fdt32_st_def wr_bytes_length)

lemma fdt32_st_addr [fdt_mem]: "fdt32_st fdt p x = Some fdt' \<Longrightarrow> fdt_addr fdt' = fdt_addr fdt"
  by (simp add: fdt32_st_def wr_bytes_addr)

lemma fdt32_st_total: "0 \<le> p \<Longrightarrow> p + 4 \<le> int (length (fdt_bytes fdt)) \<Longrightarrow> \<exists>fdt'. fdt32_st fdt p x = Some fdt'"
  by (simp add: fdt32_st_def wr_bytes_total)

end
