(* ===== verification/Fdt_Sw.thy ===== *)
theory Fdt_Sw
  imports Fdt_Write
begin

unbundle bit_operations_syntax

text \<open>
  Sequential writing of a new tree (\<^verbatim>\<open>lib/libfdt/fdt_sw.c\<close>): the header keeps the state of the writer, the
  structure block grows upwards behind the reservation map and the string table grows downwards from
  the end of the buffer.  Every function returns its result and the blob.
\<close>

section \<open>The states of the writer\<close>

definition fdt_sw_probe' :: "fdt \<Rightarrow> int option" where
  "fdt_sw_probe' fdt = do {
     magic \<leftarrow> fdt_magic fdt;
     Some (if magic = FDT_MAGIC then - FDT_ERR_BADSTATE
           else if magic \<noteq> FDT_SW_MAGIC then - FDT_ERR_BADMAGIC
           else 0) }"

definition fdt_sw_probe_memrsv' :: "fdt \<Rightarrow> int option" where
  "fdt_sw_probe_memrsv' fdt = do {
     err \<leftarrow> fdt_sw_probe' fdt;
     if err \<noteq> 0 then Some err
     else do {
       off_dt_strings \<leftarrow> fdt_off_dt_strings fdt;
       Some (if off_dt_strings \<noteq> 0 then - FDT_ERR_BADSTATE else 0) } }"

definition fdt_sw_probe_struct' :: "fdt \<Rightarrow> int option" where
  "fdt_sw_probe_struct' fdt = do {
     err \<leftarrow> fdt_sw_probe' fdt;
     if err \<noteq> 0 then Some err
     else do {
       off_dt_strings \<leftarrow> fdt_off_dt_strings fdt;
       totalsize \<leftarrow> fdt_totalsize fdt;
       Some (if off_dt_strings \<noteq> totalsize then - FDT_ERR_BADSTATE else 0) } }"

text \<open>The macros \<^verbatim>\<open>FDT_SW_PROBE...\<close>: return the error of a probe, or go on.\<close>

definition sw_probed :: "int option \<Rightarrow> fdt \<Rightarrow> (int \<times> fdt) option \<Rightarrow> (int \<times> fdt) option" where
  "sw_probed probe fdt k = do { err \<leftarrow> probe; if err \<noteq> 0 then Some (err, fdt) else k }"

definition sw_flags :: "fdt \<Rightarrow> u32 option" where
  "sw_flags fdt = fdt_last_comp_version fdt"

text \<open>\<^verbatim>\<open>FDT_ALIGN\<close> of an \<^verbatim>\<open>int\<close> to a tag, as the \<^verbatim>\<open>size_t\<close> it is at the calls below.\<close>

definition tag_size :: "int \<Rightarrow> size_t" where
  "tag_size x = word_of_int ((x + 4 - 1) AND NOT (4 - 1))"

text \<open>The pointer to \<open>len\<close> more bytes of the structure block, or \<open>None\<close> where there is no room.\<close>

definition fdt_grab_space' :: "fdt \<Rightarrow> size_t \<Rightarrow> (int option \<times> fdt) option" where
  "fdt_grab_space' fdt len = do {
     offset \<leftarrow> fdt_size_dt_struct fdt;
     totalsize \<leftarrow> fdt_totalsize fdt;
     off_dt_struct \<leftarrow> fdt_off_dt_struct fdt;
     size_dt_strings \<leftarrow> fdt_size_dt_strings fdt;
     let spaceleft = totalsize - off_dt_struct - size_dt_strings;
     if ucast offset + len < ucast offset \<or> ucast offset + len > ucast spaceleft then Some (None, fdt)
     else do {
       fdt \<leftarrow> fdt_set_size_dt_struct fdt (ucast (ucast offset + len));
       p \<leftarrow> fdt_offset_ptr' fdt (sint offset);
       Some (Some p, fdt) } }"

section \<open>Creating a blob\<close>

definition fdt_create_with_flags :: "fdt \<Rightarrow> int \<Rightarrow> u32 \<Rightarrow> (int \<times> fdt) option" where
  "fdt_create_with_flags buf bufsize flags =
     (if bufsize < 48 then Some (- FDT_ERR_NOSPACE, buf)
      else if flags AND NOT 1 \<noteq> 0 then Some (- FDT_ERR_BADFLAGS, buf)
      else do {
        fdt \<leftarrow> wr_bytes buf 0 (replicate (nat bufsize) 0);
        fdt \<leftarrow> fdt_set_magic fdt FDT_SW_MAGIC;
        fdt \<leftarrow> fdt_set_version fdt 17;
        fdt \<leftarrow> fdt_set_last_comp_version fdt flags;
        fdt \<leftarrow> fdt_set_totalsize fdt (word_of_int bufsize);
        fdt \<leftarrow> fdt_set_off_mem_rsvmap fdt 48;
        off_mem_rsvmap \<leftarrow> fdt_off_mem_rsvmap fdt;
        fdt \<leftarrow> fdt_set_off_dt_struct fdt off_mem_rsvmap;
        fdt \<leftarrow> fdt_set_off_dt_strings fdt 0;
        Some (0, fdt) })"

definition fdt_create :: "fdt \<Rightarrow> int \<Rightarrow> (int \<times> fdt) option" where
  "fdt_create buf bufsize = fdt_create_with_flags buf bufsize 0"

definition fdt_add_reservemap_entry :: "fdt \<Rightarrow> u64 \<Rightarrow> u64 \<Rightarrow> (int \<times> fdt) option" where
  "fdt_add_reservemap_entry fdt addr sz =
     sw_probed (fdt_sw_probe_memrsv' fdt) fdt (do {
       offset \<leftarrow> fdt_off_dt_struct fdt;
       totalsize \<leftarrow> fdt_totalsize fdt;
       if (word_of_int (sint offset) + 16 :: size_t) > ucast totalsize then Some (- FDT_ERR_NOSPACE, fdt)
       else do {
         let re = sint offset;
         fdt \<leftarrow> fdt64_st fdt re addr;
         fdt \<leftarrow> fdt64_st fdt (re + 8) sz;
         fdt \<leftarrow> fdt_set_off_dt_struct fdt (offset + 16);
         Some (0, fdt) } })"

definition fdt_finish_reservemap :: "fdt \<Rightarrow> (int \<times> fdt) option" where
  "fdt_finish_reservemap fdt = do {
     (err, fdt) \<leftarrow> fdt_add_reservemap_entry fdt 0 0;
     if err \<noteq> 0 then Some (err, fdt)
     else do {
       totalsize \<leftarrow> fdt_totalsize fdt;
       fdt \<leftarrow> fdt_set_off_dt_strings fdt totalsize;
       Some (0, fdt) } }"

section \<open>Nodes and properties\<close>

text \<open>Strings are passed as their bytes before the terminating zero, so \<^verbatim>\<open>strlen\<close> is their length.\<close>

definition fdt_begin_node :: "fdt \<Rightarrow> u8 list \<Rightarrow> (int \<times> fdt) option" where
  "fdt_begin_node fdt name =
     sw_probed (fdt_sw_probe_struct' fdt) fdt (do {
       let namelen = int (length name) + 1;
       (nh, fdt) \<leftarrow> fdt_grab_space' fdt (4 + tag_size namelen);
       (case nh of
          None \<Rightarrow> Some (- FDT_ERR_NOSPACE, fdt)
        | Some nh \<Rightarrow> do {
            fdt \<leftarrow> fdt32_st fdt nh FDT_BEGIN_NODE;
            fdt \<leftarrow> wr_bytes fdt (nh + 4) (name @ [0]);
            Some (0, fdt) }) })"

definition fdt_end_node :: "fdt \<Rightarrow> (int \<times> fdt) option" where
  "fdt_end_node fdt =
     sw_probed (fdt_sw_probe_struct' fdt) fdt (do {
       (en, fdt) \<leftarrow> fdt_grab_space' fdt 4;
       (case en of
          None \<Rightarrow> Some (- FDT_ERR_NOSPACE, fdt)
        | Some en \<Rightarrow> do { fdt \<leftarrow> fdt32_st fdt en FDT_END_NODE; Some (0, fdt) }) })"

definition fdt_add_string' :: "fdt \<Rightarrow> u8 list \<Rightarrow> (int \<times> fdt) option" where
  "fdt_add_string' fdt s = do {
     totalsize \<leftarrow> fdt_totalsize fdt;
     strtabsize \<leftarrow> fdt_size_dt_strings fdt;
     let len = of_nat (length s) + 1;
     let offset = strtabsize + len;
     off_dt_struct \<leftarrow> fdt_off_dt_struct fdt;
     size_dt_struct \<leftarrow> fdt_size_dt_struct fdt;
     let struct_top = off_dt_struct + size_dt_struct;
     if totalsize - offset < struct_top then Some (0, fdt)
     else do {
       fdt \<leftarrow> wr_bytes fdt (uint totalsize - uint offset) (s @ [0]);
       fdt \<leftarrow> fdt_set_size_dt_strings fdt (strtabsize + len);
       Some (sint (- offset), fdt) } }"

definition fdt_del_last_string' :: "fdt \<Rightarrow> u8 list \<Rightarrow> fdt option" where
  "fdt_del_last_string' fdt s = do {
     strtabsize \<leftarrow> fdt_size_dt_strings fdt;
     fdt_set_size_dt_strings fdt (strtabsize - (of_nat (length s) + 1)) }"

text \<open>The offset of the string from the end of the buffer, whether it was added, and the blob.\<close>

definition fdt_find_add_string' :: "fdt \<Rightarrow> u8 list \<Rightarrow> (int \<times> bool \<times> fdt) option" where
  "fdt_find_add_string' fdt s = do {
     totalsize \<leftarrow> fdt_totalsize fdt;
     size_dt_strings \<leftarrow> fdt_size_dt_strings fdt;
     let strtab = uint totalsize;
     let strtabsize = sint size_dt_strings;
     p \<leftarrow> fdt_find_string_len' fdt (strtab - strtabsize) strtabsize s;
     (case p of
        Some p \<Rightarrow> Some (c_int (p - strtab), False, fdt)
      | None \<Rightarrow> do { (offset, fdt) \<leftarrow> fdt_add_string' fdt s; Some (offset, True, fdt) }) }"

text \<open>The result, the blob, and the pointer stored through \<^verbatim>\<open>valp\<close>.\<close>

definition fdt_property_placeholder :: "fdt \<Rightarrow> u8 list \<Rightarrow> int \<Rightarrow> (int \<times> fdt \<times> int option) option" where
  "fdt_property_placeholder fdt name len = do {
     err \<leftarrow> fdt_sw_probe_struct' fdt;
     if err \<noteq> 0 then Some (err, fdt, None)
     else do {
       flags \<leftarrow> sw_flags fdt;
       (nameoff, allocated, fdt) \<leftarrow>
         (if flags AND 1 \<noteq> 0 then do { (nameoff, fdt) \<leftarrow> fdt_add_string' fdt name; Some (nameoff, True, fdt) }
          else fdt_find_add_string' fdt name);
       if nameoff = 0 then Some (- FDT_ERR_NOSPACE, fdt, None)
       else do {
         (prop, fdt) \<leftarrow> fdt_grab_space' fdt (12 + tag_size len);
         (case prop of
            None \<Rightarrow> do {
              fdt \<leftarrow> (if allocated then fdt_del_last_string' fdt name else Some fdt);
              Some (- FDT_ERR_NOSPACE, fdt, None) }
          | Some prop \<Rightarrow> do {
              fdt \<leftarrow> fdt32_st fdt prop FDT_PROP;
              fdt \<leftarrow> fdt32_st fdt (prop + 8) (word_of_int nameoff);
              fdt \<leftarrow> fdt32_st fdt (prop + 4) (word_of_int len);
              Some (0, fdt, Some (prop + 12)) }) } } }"

definition fdt_property :: "fdt \<Rightarrow> u8 list \<Rightarrow> u8 list \<Rightarrow> (int \<times> fdt) option" where
  "fdt_property fdt name val = do {
     (ret, fdt, ptr) \<leftarrow> fdt_property_placeholder fdt name (int (length val));
     if ret \<noteq> 0 then Some (ret, fdt)
     else do { p \<leftarrow> ptr; fdt \<leftarrow> wr_bytes fdt p val; Some (0, fdt) } }"

definition fdt_property_u32 :: "fdt \<Rightarrow> u8 list \<Rightarrow> u32 \<Rightarrow> (int \<times> fdt) option" where
  "fdt_property_u32 fdt name val = fdt_property fdt name (cpu_to_fdt32 val)"

definition fdt_property_u64 :: "fdt \<Rightarrow> u8 list \<Rightarrow> u64 \<Rightarrow> (int \<times> fdt) option" where
  "fdt_property_u64 fdt name val = fdt_property fdt name (cpu_to_fdt64 val)"

section \<open>Finishing\<close>

text \<open>The walk of \<^verbatim>\<open>fdt_finish\<close> that rebases the name offsets; its result is the last \<^verbatim>\<open>nextoffset\<close>.\<close>

partial_function (option) finish_loop :: "fdt \<Rightarrow> int \<Rightarrow> (int \<times> fdt) option" where
  [code]: "finish_loop fdt offset = do {
     (tag, nextoffset) \<leftarrow> fdt_next_tag fdt offset;
     if tag = FDT_END then Some (nextoffset, fdt)
     else if tag = FDT_PROP then do {
       prop \<leftarrow> fdt_offset_ptr' fdt offset;
       nameoff \<leftarrow> fdt32_ld fdt (prop + 8);
       size_dt_strings \<leftarrow> fdt_size_dt_strings fdt;
       fdt \<leftarrow> fdt32_st fdt (prop + 8) (nameoff + size_dt_strings);
       finish_loop fdt nextoffset }
     else finish_loop fdt nextoffset }"

definition fdt_finish :: "fdt \<Rightarrow> (int \<times> fdt) option" where
  "fdt_finish fdt =
     sw_probed (fdt_sw_probe_struct' fdt) fdt (do {
       (end', fdt) \<leftarrow> fdt_grab_space' fdt 4;
       (case end' of
          None \<Rightarrow> Some (- FDT_ERR_NOSPACE, fdt)
        | Some end' \<Rightarrow> do {
            fdt \<leftarrow> fdt32_st fdt end' FDT_END;
            totalsize \<leftarrow> fdt_totalsize fdt;
            size_dt_strings \<leftarrow> fdt_size_dt_strings fdt;
            off_dt_struct \<leftarrow> fdt_off_dt_struct fdt;
            size_dt_struct \<leftarrow> fdt_size_dt_struct fdt;
            let oldstroffset = sint (totalsize - size_dt_strings);
            let newstroffset = sint (off_dt_struct + size_dt_struct);
            fdt \<leftarrow> mv_bytes fdt newstroffset oldstroffset (uint size_dt_strings);
            fdt \<leftarrow> fdt_set_off_dt_strings fdt (word_of_int newstroffset);
            (nextoffset, fdt) \<leftarrow> finish_loop fdt 0;
            if nextoffset < 0 then Some (nextoffset, fdt)
            else do {
              size_dt_strings \<leftarrow> fdt_size_dt_strings fdt;
              fdt \<leftarrow> fdt_set_totalsize fdt (word_of_int newstroffset + size_dt_strings);
              fdt \<leftarrow> fdt_set_last_comp_version fdt 16;
              fdt \<leftarrow> fdt_set_magic fdt FDT_MAGIC;
              Some (0, fdt) } }) })"

end
