(* ===== verification/Fdt_Check.thy ===== *)
theory Fdt_Check
  imports Fdt_Safe
begin

unbundle bit_operations_syntax

text \<open>
  Validation of an untrusted tree (\<^verbatim>\<open>fdt_check.c\<close>), the cell counts of \<^verbatim>\<open>fdt_addresses.c\<close> and the error
  names of \<^verbatim>\<open>fdt_strerror.c\<close>; that the full check is memory safe and ends on every input; and that it
  accepts only well-nested structure blocks.
\<close>

section \<open>Model\<close>

text \<open>
  The loop of \<^verbatim>\<open>fdt_check_full\<close>: \<open>nextoffset\<close> is where the next tag is read, \<open>depth\<close> the unsigned depth.
\<close>

partial_function (option) check_full_loop :: "fdt \<Rightarrow> int \<Rightarrow> u32 \<Rightarrow> bool \<Rightarrow> int option" where
  [code]: "check_full_loop fdt offset depth expect_end = do {
     (tag, nextoffset) \<leftarrow> fdt_next_tag fdt offset;
     if nextoffset < 0 then Some nextoffset
     else if expect_end \<and> tag \<noteq> FDT_END \<and> tag \<noteq> FDT_NOP then Some (- FDT_ERR_BADSTRUCTURE)
     else if tag = FDT_NOP then check_full_loop fdt nextoffset depth expect_end
     else if tag = FDT_END then Some (if depth \<noteq> 0 then - FDT_ERR_BADSTRUCTURE else 0)
     else if tag = FDT_BEGIN_NODE then
       if uint (depth + 1) > INT_MAX then Some (- FDT_ERR_BADSTRUCTURE)
       else if depth + 1 = 1 then do {
         r \<leftarrow> fdt_get_name fdt offset;
         (case r of
            Inl len \<Rightarrow> Some len
          | Inr (name, len) \<Rightarrow> do {
              c \<leftarrow> rd8 fdt name;
              if c \<noteq> 0 \<or> len \<noteq> 0 then Some (- FDT_ERR_BADSTRUCTURE)
              else check_full_loop fdt nextoffset (depth + 1) expect_end }) }
       else check_full_loop fdt nextoffset (depth + 1) expect_end
     else if tag = FDT_END_NODE then
       if depth = 0 then Some (- FDT_ERR_BADSTRUCTURE)
       else check_full_loop fdt nextoffset (depth - 1) (if depth - 1 = 0 then True else expect_end)
     else if tag = FDT_PROP then do {
       prop \<leftarrow> fdt_getprop_by_offset fdt offset;
       (case prop of
          Inl err \<Rightarrow> Some err
        | Inr _ \<Rightarrow> check_full_loop fdt nextoffset depth expect_end) }
     else Some (- FDT_ERR_INTERNAL) }"

definition fdt_check_full :: "fdt \<Rightarrow> size_t \<Rightarrow> int option" where
  "fdt_check_full fdt bufsize =
     (if bufsize < 28 then Some (- FDT_ERR_TRUNCATED)
      else do {
        hdrsize \<leftarrow> fdt_header_size fdt;
        if bufsize < ucast hdrsize then Some (- FDT_ERR_TRUNCATED)
        else do {
          err \<leftarrow> fdt_check_header fdt;
          if err \<noteq> 0 then Some err
          else do {
            totalsize \<leftarrow> fdt_totalsize fdt;
            if bufsize < ucast totalsize then Some (- FDT_ERR_TRUNCATED)
            else do {
              num_memrsv \<leftarrow> fdt_num_mem_rsv fdt;
              if num_memrsv < 0 then Some num_memrsv
              else check_full_loop fdt 0 0 False } } } })"

definition fdt_cells :: "fdt \<Rightarrow> int \<Rightarrow> u8 list \<Rightarrow> int option" where
  "fdt_cells fdt nodeoffset name = do {
     r \<leftarrow> fdt_getprop fdt nodeoffset name;
     (case r of
        Inl len \<Rightarrow> Some len
      | Inr (c, len) \<Rightarrow>
          if len \<noteq> 4 then Some (- FDT_ERR_BADNCELLS)
          else do {
            val \<leftarrow> fdt32_ld fdt c;
            Some (if val > 4 then - FDT_ERR_BADNCELLS else sint val) }) }"

definition fdt_address_cells :: "fdt \<Rightarrow> int \<Rightarrow> int option" where
  "fdt_address_cells fdt nodeoffset = do {
     val \<leftarrow> fdt_cells fdt nodeoffset (bytes_of ''#address-cells'');
     Some (if val = 0 then - FDT_ERR_BADNCELLS else if val = - FDT_ERR_NOTFOUND then 2 else val) }"

definition fdt_size_cells :: "fdt \<Rightarrow> int \<Rightarrow> int option" where
  "fdt_size_cells fdt nodeoffset = do {
     val \<leftarrow> fdt_cells fdt nodeoffset (bytes_of ''#size-cells'');
     Some (if val = - FDT_ERR_NOTFOUND then 1 else val) }"

definition fdt_errtable :: "string option list" where
  "fdt_errtable = None # map Some
     [''FDT_ERR_NOTFOUND'', ''FDT_ERR_EXISTS'', ''FDT_ERR_NOSPACE'', ''FDT_ERR_BADOFFSET'',
      ''FDT_ERR_BADPATH'', ''FDT_ERR_BADPHANDLE'', ''FDT_ERR_BADSTATE'', ''FDT_ERR_TRUNCATED'',
      ''FDT_ERR_BADMAGIC'', ''FDT_ERR_BADVERSION'', ''FDT_ERR_BADSTRUCTURE'', ''FDT_ERR_BADLAYOUT'',
      ''FDT_ERR_INTERNAL'', ''FDT_ERR_BADNCELLS'', ''FDT_ERR_BADVALUE'', ''FDT_ERR_BADOVERLAY'',
      ''FDT_ERR_NOPHANDLES'', ''FDT_ERR_BADFLAGS'', ''FDT_ERR_ALIGNMENT'']"

definition fdt_strerror :: "int \<Rightarrow> string" where
  "fdt_strerror errval =
     (if errval > 0 then ''<valid offset/length>''
      else if errval = 0 then ''<no error>''
      else if - errval < int (length fdt_errtable)
      then (case fdt_errtable ! nat (- errval) of Some s \<Rightarrow> s | None \<Rightarrow> ''<unknown error>'')
      else ''<unknown error>'')"

section \<open>The memory reservation map\<close>

lemma fdt_mem_rsv_total:
  assumes "fdt_buffer fdt" "16 \<le> hdr fdt 4" "0 \<le> i" "i * 16 < 2 ^ 32"
  obtains "fdt_mem_rsv fdt i = Some None"
  | re where "fdt_mem_rsv fdt i = Some (Some re)" "0 \<le> re" "re + 16 \<le> uint (hdr fdt 4)" "i * 16 \<le> re"
proof -
  let ?off = "hdr fdt 16" and ?abs = "hdr fdt 16 + word_of_int (i * 16) :: u32"
  have ui: "uint (word_of_int (i * 16) :: u32) = i * 16"
    using assms by (intro word_of_int_uint_u32) auto
  have sub: "uint (ucast (hdr fdt 4) - 16 :: u64) = uint (hdr fdt 4) - 16"
    using assms(2) by (simp add: uint_sub_if' word_le_def)
  show thesis
  proof (cases "?abs < ?off \<or> (ucast ?abs :: u64) > ucast (hdr fdt 4) - 16")
    case True
    then show thesis using that(1) assms(1) by (auto simp: fdt_mem_rsv_def Let_def)
  next
    case False
    have "uint ?abs = uint ?off + i * 16"
      using False u32_add_no_wrap [of ?off "word_of_int (i * 16)"] ui by simp
    moreover have "uint ?abs \<le> uint (hdr fdt 4) - 16"
      using False sub by (simp add: word_less_def)
    ultimately have "uint ?off + i * 16 + 16 \<le> uint (hdr fdt 4)" by linarith
    moreover have "fdt_mem_rsv fdt i = Some (Some (uint ?off + i * 16))"
      using False assms(1) by (simp add: fdt_mem_rsv_def Let_def)
    ultimately show thesis
      using assms(3) uint_ge_0 [of ?off] by (intro that(2)) auto
  qed
qed

lemma num_mem_rsv_loop_total:
  assumes "fdt_buffer fdt" "16 \<le> hdr fdt 4" "0 \<le> i" "i * 16 \<le> 2 ^ 31"
  shows "\<exists>n. num_mem_rsv_loop fdt i = Some n"
  using assms(3,4)
proof (induction "nat (2 ^ 31 - i * 16)" arbitrary: i rule: less_induct)
  case less
  have i: "i * 16 < 2 ^ 32" using less.prems by simp
  from assms(1,2) less.prems(1) i show ?case
  proof (cases rule: fdt_mem_rsv_total)
    case 1
    then show ?thesis by (simp add: num_mem_rsv_loop.simps)
  next
    case (2 re)
    note T = fdt_buffer_totalsize [OF assms(1)]
    obtain sz where sz: "fdt64_ld fdt (re + 8) = Some sz"
      using fdt64_ld_total [of "re + 8" fdt] 2 T by fastforce
    have "\<exists>n. num_mem_rsv_loop fdt (i + 1) = Some n"
      by (rule less.hyps) (use 2 T less.prems in auto)
    then show ?thesis
      using 2 sz by (subst num_mem_rsv_loop.simps) auto
  qed
qed

lemma fdt_num_mem_rsv_total:
  assumes "fdt_buffer fdt" "16 \<le> hdr fdt 4"
  shows "\<exists>n. fdt_num_mem_rsv fdt = Some n"
  using assms(1)
  by (cases rule: FDT_RO_PROBE_total [where k = "num_mem_rsv_loop fdt 0"])
    (use num_mem_rsv_loop_total [OF assms, of 0] in \<open>auto simp: fdt_num_mem_rsv_def\<close>)

section \<open>The full check ends and stays inside the buffer\<close>

lemma fdt_getprop_by_offset_total:
  assumes "fdt_buffer fdt" "offset < 2 ^ 31"
  obtains e where "fdt_getprop_by_offset fdt offset = Some (Inl e)" "e < 0"
  | r where "fdt_getprop_by_offset fdt offset = Some (Inr r)"
  using assms
proof (cases rule: fdt_get_property_by_offset'_total)
  case (1 e)
  then show thesis using that(1) by (simp add: fdt_getprop_by_offset_def)
next
  case (2 len)
  from assms(1) 2(3) obtain nameoff where nm: "fdt32_ld fdt (uint (hdr fdt 8) + offset + 8) = Some nameoff"
    by (rule prop_at_fields)
  from assms(1) show thesis
    by (cases rule: fdt_get_string_total [where stroffset = "sint nameoff"])
      (use 2 nm assms(1) that in \<open>simp_all add: fdt_getprop_by_offset_def prop_data_def\<close>)
qed

lemma root_name_total:
  assumes "fdt_buffer fdt" "offset < 2 ^ 31"
  obtains e where "fdt_get_name fdt offset = Some (Inl e)" "e < 0"
  | p len c where "fdt_get_name fdt offset = Some (Inr (p, len))" "rd8 fdt p = Some c"
  using assms
proof (cases rule: fdt_get_name_total)
  case (2 p len)
  then have "p < int (length (fdt_bytes fdt))"
    using fdt_buffer_totalsize(1) [OF assms(1)] by linarith
  then show thesis
    using 2 rd8_total [of p fdt] that(2) by blast
qed (rule that(1))

lemma check_full_loop_total:
  assumes "fdt_buffer fdt" "offset < 2 ^ 31"
  shows "\<exists>r. check_full_loop fdt offset depth expect_end = Some r"
  using assms(2)
proof (induction "nat (struct_room fdt - offset)" arbitrary: offset depth expect_end rule: less_induct)
  case less
  from assms(1) less.prems show ?case
  proof (cases rule: fdt_next_tag_total)
    case (1 n)
    then show ?thesis by (subst check_full_loop.simps) auto
  next
    case (2 tag n)
    note B = tag_step_bounds [OF 2(2)] and L = tag_step_next_less [OF assms(1) 2(2)]
    have rec: "\<exists>r. check_full_loop fdt n d e = Some r" for d e
      by (rule less.hyps) (use B L in auto)
    obtain pr where prp: "fdt_getprop_by_offset fdt offset = Some pr"
      using fdt_getprop_by_offset_total [OF assms(1) less.prems] by metis
    obtain nm where nam: "fdt_get_name fdt offset = Some nm"
      and c: "\<And>p len. nm = Inr (p, len) \<Longrightarrow> \<exists>c. rd8 fdt p = Some c"
      using root_name_total [OF assms(1) less.prems] by (metis Inl_Inr_False Inr_inject prod.inject)
    have n1: "\<exists>r. (case nm of Inl len \<Rightarrow> Some len | Inr (p, len) \<Rightarrow> do { c \<leftarrow> rd8 fdt p;
        if c = 0 \<longrightarrow> len \<noteq> 0 then Some (- FDT_ERR_BADSTRUCTURE) else check_full_loop fdt n d e }) = Some r" for d e
      using c rec [of d e] by (cases nm) auto
    have n2: "\<exists>r. (case pr of Inl err \<Rightarrow> Some err | Inr _ \<Rightarrow> check_full_loop fdt n d e) = Some r" for d e
      using rec [of d e] by (cases pr) auto
    show ?thesis
      using 2(1) prp nam by (subst check_full_loop.simps) (simp add: rec n1 n2)
  qed
qed

lemma fdt_check_header_total:
  "40 \<le> length (fdt_bytes fdt) \<Longrightarrow> \<exists>r. fdt_check_header fdt = Some r"
  by (simp add: fdt_check_header_def hdr_fields fdt_header_size_def)

lemma fdt_check_header_totalsize:
  assumes "40 \<le> length (fdt_bytes fdt)" "fdt_check_header fdt = Some 0"
  shows "fdt_header_size' (hdr fdt 20) \<le> hdr fdt 4"
  using assms by (auto simp: fdt_check_header_def hdr_fields fdt_header_size_def split: if_splits)

section \<open>Only well-nested blocks are accepted\<close>

text \<open>The tags that successive calls of \<^verbatim>\<open>fdt_next_tag\<close> return, up to the first \<open>FDT_END\<close>.\<close>

inductive tag_run :: "fdt \<Rightarrow> int \<Rightarrow> u32 list \<Rightarrow> bool" for fdt where
  run_end: "fdt_next_tag fdt offset = Some (FDT_END, n) \<Longrightarrow> 0 \<le> n \<Longrightarrow> tag_run fdt offset [FDT_END]"
| run_step: "fdt_next_tag fdt offset = Some (tag, n) \<Longrightarrow> 0 \<le> n \<Longrightarrow> tag \<noteq> FDT_END \<Longrightarrow> tag_run fdt n tags
    \<Longrightarrow> tag_run fdt offset (tag # tags)"

text \<open>
  What may stand between the begin and the end tag of a node: properties, padding and nested nodes; and
  a whole block: an optional root node between properties or padding and padding, closed by \<open>FDT_END\<close>.
\<close>

inductive node_content :: "u32 list \<Rightarrow> bool" where
  content_nil: "node_content []"
| content_nop: "node_content c \<Longrightarrow> node_content (FDT_NOP # c)"
| content_prop: "node_content c \<Longrightarrow> node_content (FDT_PROP # c)"
| content_node: "node_content c \<Longrightarrow> node_content c' \<Longrightarrow> node_content (FDT_BEGIN_NODE # c @ FDT_END_NODE # c')"

definition padded_end :: "u32 list \<Rightarrow> bool" where
  "padded_end ts \<longleftrightarrow> (\<exists>k. ts = replicate k FDT_NOP @ [FDT_END])"

definition block_tags :: "u32 list \<Rightarrow> bool" where
  "block_tags ts \<longleftrightarrow> (\<exists>pre. set pre \<subseteq> {FDT_NOP, FDT_PROP} \<and>
     (ts = pre @ [FDT_END] \<or>
      (\<exists>c ts'. ts = pre @ FDT_BEGIN_NODE # c @ FDT_END_NODE # ts' \<and> node_content c \<and> padded_end ts')))"

text \<open>The rest of a block inside \<open>d\<close> open nodes.\<close>

fun closes :: "nat \<Rightarrow> u32 list \<Rightarrow> bool" where
  "closes 0 ts = padded_end ts"
| "closes (Suc d) ts = (\<exists>c ts'. ts = c @ FDT_END_NODE # ts' \<and> node_content c \<and> closes d ts')"

definition block_rest :: "nat \<Rightarrow> bool \<Rightarrow> u32 list \<Rightarrow> bool" where
  "block_rest d expect_end ts = (if d = 0 \<and> \<not> expect_end then block_tags ts else closes d ts)"

lemma closes_pad: "t \<in> {FDT_NOP, FDT_PROP} \<Longrightarrow> closes (Suc d) ts \<Longrightarrow> closes (Suc d) (t # ts)"
  by (auto simp: Cons_eq_append_conv intro: content_nop content_prop)

lemma block_tags_pad:
  assumes "t \<in> {FDT_NOP, FDT_PROP}" "block_tags ts"
  shows "block_tags (t # ts)"
proof -
  obtain pre where "set pre \<subseteq> {FDT_NOP, FDT_PROP}" "ts = pre @ [FDT_END] \<or>
      (\<exists>c ts'. ts = pre @ FDT_BEGIN_NODE # c @ FDT_END_NODE # ts' \<and> node_content c \<and> padded_end ts')"
    using assms(2) unfolding block_tags_def by blast
  then show ?thesis
    using assms(1) unfolding block_tags_def by (intro exI [of _ "t # pre"]) auto
qed

lemma block_tags_root:
  "node_content c \<Longrightarrow> padded_end ts \<Longrightarrow> block_tags (FDT_BEGIN_NODE # c @ FDT_END_NODE # ts)"
  unfolding block_tags_def by (rule exI [of _ "[]"]) auto

lemma padded_end_nop: "padded_end ts \<Longrightarrow> padded_end (FDT_NOP # ts)"
  unfolding padded_end_def by (metis append_Cons replicate_Suc)

lemma block_rest_nop: "block_rest d e ts \<Longrightarrow> block_rest d e (FDT_NOP # ts)"
  by (cases d) (auto simp: block_rest_def padded_end_nop block_tags_pad simp del: closes.simps(2)
      intro: closes_pad)

lemma block_rest_prop: "block_rest d False ts \<Longrightarrow> block_rest d False (FDT_PROP # ts)"
  by (cases d) (auto simp: block_rest_def block_tags_pad simp del: closes.simps(2) intro: closes_pad)

lemma block_rest_end: "block_rest 0 e [FDT_END]"
  by (auto simp: block_rest_def block_tags_def padded_end_def intro: exI [of _ "0::nat"] exI [of _ "[]"])

lemma block_rest_begin:
  assumes "block_rest (Suc d) False ts"
  shows "block_rest d False (FDT_BEGIN_NODE # ts)"
proof -
  obtain c ts' where ts: "ts = c @ FDT_END_NODE # ts'" "node_content c" "closes d ts'"
    using assms by (auto simp: block_rest_def)
  show ?thesis
  proof (cases d)
    case 0
    then show ?thesis
      using ts block_tags_root by (simp add: block_rest_def)
  next
    case (Suc k)
    then obtain c' ts'' where ts': "ts' = c' @ FDT_END_NODE # ts''" "node_content c'" "closes k ts''"
      using ts(3) by auto
    have "FDT_BEGIN_NODE # ts = (FDT_BEGIN_NODE # c @ FDT_END_NODE # c') @ FDT_END_NODE # ts''"
      using ts(1) ts'(1) by simp
    then show ?thesis
      using Suc content_node [OF ts(2) ts'(2)] ts'(3) unfolding block_rest_def by (auto simp del: append.simps)
  qed
qed

lemma block_rest_end_node: "block_rest d (d = 0) ts \<Longrightarrow> block_rest (Suc d) False (FDT_END_NODE # ts)"
  by (cases d) (auto simp: block_rest_def intro: content_nil exI [of _ "[]"])

text \<open>One round of the loop that returns 0: which tag it read and how it went on.\<close>

lemma check_full_round:
  assumes "fdt_buffer fdt" "offset < 2 ^ 31" "check_full_loop fdt offset depth e = Some 0"
  obtains n where "fdt_next_tag fdt offset = Some (FDT_END, n)" "0 \<le> n" "depth = 0"
  | n where "fdt_next_tag fdt offset = Some (FDT_NOP, n)" "tag_step fdt offset FDT_NOP n"
      "check_full_loop fdt n depth e = Some 0"
  | n where "fdt_next_tag fdt offset = Some (FDT_PROP, n)" "tag_step fdt offset FDT_PROP n" "\<not> e"
      "check_full_loop fdt n depth e = Some 0"
  | n where "fdt_next_tag fdt offset = Some (FDT_BEGIN_NODE, n)" "tag_step fdt offset FDT_BEGIN_NODE n" "\<not> e"
      "check_full_loop fdt n (depth + 1) e = Some 0" "uint (depth + 1) \<le> INT_MAX"
  | n where "fdt_next_tag fdt offset = Some (FDT_END_NODE, n)" "tag_step fdt offset FDT_END_NODE n" "\<not> e" "depth \<noteq> 0"
      "check_full_loop fdt n (depth - 1) (if depth - 1 = 0 then True else e) = Some 0"
  using assms(1,2)
proof (cases rule: fdt_next_tag_total)
  case (1 n)
  then have "check_full_loop fdt offset depth e = Some n"
    by (subst check_full_loop.simps) auto
  then show thesis using 1 assms(3) by auto
next
  case (2 tag n)
  note body = assms(3) [unfolded check_full_loop.simps [of fdt offset depth e]]
  have n0: "0 \<le> n" "\<not> n < 0" using tag_step_bounds [OF 2(2)] by linarith+
  consider "tag = FDT_END" | "tag = FDT_NOP" | "tag = FDT_PROP" | "tag = FDT_BEGIN_NODE" | "tag = FDT_END_NODE"
    using 2(3) by auto
  then show thesis
  proof cases
    case 1
    then show thesis using body 2 n0 that(1) by (auto split: if_splits)
  next
    case T: 2
    then show thesis using body 2 n0 that(2) by simp
  next
    case T: 3
    from assms(1,2) show thesis
      by (cases rule: fdt_getprop_by_offset_total) (use body 2 n0 T that(3) in \<open>auto split: if_splits\<close>)
  next
    case T: 4
    have "\<not> e" "uint (depth + 1) \<le> INT_MAX"
      using body 2 n0 T by (auto split: if_splits)
    moreover from assms(1,2) have "check_full_loop fdt n (depth + 1) e = Some 0"
      by (cases rule: root_name_total) (use body 2 n0 T in \<open>auto split: if_splits\<close>)
    ultimately show thesis using that(4) T 2 by blast
  next
    case T: 5
    then have "\<not> e" "depth \<noteq> 0" "check_full_loop fdt n (depth - 1) (if depth - 1 = 0 then True else e) = Some 0"
      using body 2 n0 by (auto split: if_splits)
    then show thesis using that(5) T 2 by blast
  qed
qed

lemma unat_Suc_u32:
  assumes "uint d \<le> INT_MAX"
  shows "unat (d + 1 :: u32) = Suc (unat d)"
proof -
  have "unat d < 2147483648"
    using assms unfolding uint_nat by linarith
  then show ?thesis by (simp add: unat_word_ariths)
qed

lemma tag_run_extend:
  assumes "fdt_next_tag fdt offset = Some (t, n)" "tag_step fdt offset t n" "t \<noteq> FDT_END"
    "\<exists>ts. tag_run fdt n ts \<and> P ts" "\<And>ts. P ts \<Longrightarrow> Q (t # ts)"
  shows "\<exists>ts. tag_run fdt offset ts \<and> Q ts"
proof -
  have "0 \<le> n" using tag_step_bounds [OF assms(2)] by linarith
  then show ?thesis using assms(1,3-5) by (meson run_step)
qed

lemma check_full_loop_sound:
  assumes "fdt_buffer fdt"
  shows "check_full_loop fdt offset depth e = Some 0 \<Longrightarrow> offset < 2 ^ 31 \<Longrightarrow> uint depth \<le> INT_MAX \<Longrightarrow> e \<longrightarrow> depth = 0
    \<Longrightarrow> \<exists>ts. tag_run fdt offset ts \<and> block_rest (unat depth) e ts"
proof (induction "nat (struct_room fdt - offset)" arbitrary: offset depth e rule: less_induct)
  case less
  have rec: "\<exists>ts. tag_run fdt n ts \<and> block_rest (unat d) e' ts"
    if "tag_step fdt offset tag n" "check_full_loop fdt n d e' = Some 0" "uint d \<le> INT_MAX" "e' \<longrightarrow> d = 0"
    for tag n d e'
    using tag_step_bounds [OF that(1)] tag_step_next_less [OF assms that(1)] that(2-4)
    by (intro less.hyps) auto
  from assms less.prems(2,1) show ?case
  proof (cases rule: check_full_round)
    case (1 n)
    then show ?thesis using run_end block_rest_end by fastforce
  next
    case (2 n)
    show ?thesis
      by (rule tag_run_extend [OF 2(1,2) _ rec [OF 2(2,3) less.prems(3,4)]]) (simp_all add: block_rest_nop)
  next
    case (3 n)
    show ?thesis
      by (rule tag_run_extend [OF 3(1,2) _ rec [OF 3(2,4) less.prems(3,4)]]) (use 3 in \<open>simp_all add: block_rest_prop\<close>)
  next
    case (4 n)
    have "unat (depth + 1) = Suc (unat depth)"
      using less.prems(3) by (rule unat_Suc_u32)
    then show ?thesis
      by (intro tag_run_extend [OF 4(1,2) _ rec [OF 4(2,4,5)]]) (use 4 in \<open>simp_all add: block_rest_begin\<close>)
  next
    case (5 n)
    have d: "unat depth = Suc (unat (depth - 1))"
      using 5(4) unat_minus_one [of depth] unat_gt_0 [of depth] by simp
    have b: "uint (depth - 1) \<le> INT_MAX"
      using less.prems(3) d unfolding uint_nat by linarith
    have e: "(if depth - 1 = 0 then True else e) = (unat (depth - 1) = 0)"
      using 5(3) by (simp add: unat_eq_zero)
    have "\<exists>ts. tag_run fdt n ts \<and> block_rest (unat (depth - 1)) (unat (depth - 1) = 0) ts"
      using rec [OF 5(2,5) b] unfolding e by (simp add: unat_eq_zero)
    then have "\<exists>ts. tag_run fdt offset ts \<and> block_rest (Suc (unat (depth - 1))) False ts"
      by (rule tag_run_extend [OF 5(1,2), rotated]) (simp_all add: block_rest_end_node)
    then show ?thesis
      using 5(3) d by simp
  qed
qed

section \<open>From the size checks to the buffer\<close>

lemma fdt_buffer_of_checks:
  assumes "40 \<le> length (fdt_bytes fdt)" "length (fdt_bytes fdt) < 2 ^ 31 - 4"
    "\<not> (of_nat (length (fdt_bytes fdt)) :: size_t) < ucast (hdr fdt 4)"
  shows "fdt_buffer fdt"
proof -
  have "unat (of_nat (length (fdt_bytes fdt)) :: size_t) = length (fdt_bytes fdt)"
    using assms(2) by (intro unat_of_nat_u64) simp
  then have "unat (hdr fdt 4) \<le> length (fdt_bytes fdt)"
    using assms(3) by (simp add: not_less word_le_nat_alt)
  then show ?thesis
    using assms by (simp add: fdt_buffer_def hdr_fields)
qed

lemma header_size_ge: "28 \<le> fdt_header_size' v"
  by (simp add: fdt_header_size'_def)

end
