(* ===== verification/Fdt_Rw.thy ===== *)
theory Fdt_Rw
  imports Fdt_Sw Fdt_Check
begin

unbundle bit_operations_syntax

text \<open>
  Editing a tree in place (\<^verbatim>\<open>lib/libfdt/fdt_rw.c\<close>), the operations of \<^verbatim>\<open>fdt_addresses.c\<close> and \<^verbatim>\<open>fdt_empty_tree.c\<close>
  that write, and the inline setters of \<^verbatim>\<open>libfdt.h\<close>.  An operation returns its result with the blob.  A name
  is passed as the bytes of the C string it points into, with the length \<open>namelen\<close> of the part that counts.
\<close>

section \<open>Probing and splicing\<close>

definition fdt_blocks_misordered' :: "fdt \<Rightarrow> int \<Rightarrow> int \<Rightarrow> bool option" where
  "fdt_blocks_misordered' fdt mem_rsv_size struct_size = do {
     off_mem_rsvmap \<leftarrow> fdt_off_mem_rsvmap fdt;
     off_dt_struct \<leftarrow> fdt_off_dt_struct fdt;
     off_dt_strings \<leftarrow> fdt_off_dt_strings fdt;
     totalsize \<leftarrow> fdt_totalsize fdt;
     size_dt_strings \<leftarrow> fdt_size_dt_strings fdt;
     Some (off_mem_rsvmap < 40
       \<or> off_dt_struct < off_mem_rsvmap + word_of_int mem_rsv_size
       \<or> off_dt_strings < off_dt_struct + word_of_int struct_size
       \<or> totalsize < off_dt_strings + size_dt_strings) }"

definition fdt_downgrade_version :: "fdt \<Rightarrow> fdt option" where
  "fdt_downgrade_version fdt = do {
     version \<leftarrow> fdt_version fdt;
     if version > 17 then fdt_set_version fdt 17 else Some fdt }"

definition fdt_rw_probe' :: "fdt \<Rightarrow> (int \<times> fdt) option" where
  "fdt_rw_probe' fdt = do {
     totalsize \<leftarrow> fdt_ro_probe' fdt;
     if totalsize < 0 then Some (totalsize, fdt)
     else do {
       version \<leftarrow> fdt_version fdt;
       if version < 17 then Some (- FDT_ERR_BADVERSION, fdt)
       else do {
         size_dt_struct \<leftarrow> fdt_size_dt_struct fdt;
         misordered \<leftarrow> fdt_blocks_misordered' fdt 16 (sint size_dt_struct);
         if misordered then Some (- FDT_ERR_BADLAYOUT, fdt)
         else do { fdt \<leftarrow> fdt_downgrade_version fdt; Some (0, fdt) } } } }"

text \<open>The macro \<^verbatim>\<open>FDT_RW_PROBE\<close>: return the error of the probe, or go on.\<close>

definition FDT_RW_PROBE :: "fdt \<Rightarrow> (fdt \<Rightarrow> (int \<times> fdt) option) \<Rightarrow> (int \<times> fdt) option" where
  "FDT_RW_PROBE fdt k = do {
     (err, fdt) \<leftarrow> fdt_rw_probe' fdt;
     if err \<noteq> 0 then Some (err, fdt) else k fdt }"

definition fdt_data_size' :: "fdt \<Rightarrow> u32 option" where
  "fdt_data_size' fdt = do {
     off_dt_strings \<leftarrow> fdt_off_dt_strings fdt;
     size_dt_strings \<leftarrow> fdt_size_dt_strings fdt;
     Some (off_dt_strings + size_dt_strings) }"

text \<open>
  \<^verbatim>\<open>fdt_splice_\<close>: the bytes behind \<open>p + oldlen\<close> move to \<open>p + newlen\<close>.  \<^verbatim>\<open>soff\<close> is a \<^verbatim>\<open>size_t\<close>, \<^verbatim>\<open>dsize\<close> an
  \<^verbatim>\<open>unsigned int\<close>.
\<close>

definition fdt_splice' :: "fdt \<Rightarrow> int \<Rightarrow> int \<Rightarrow> int \<Rightarrow> (int \<times> fdt) option" where
  "fdt_splice' fdt p oldlen newlen = do {
     dsize \<leftarrow> fdt_data_size' fdt;
     totalsize \<leftarrow> fdt_totalsize fdt;
     let soff = (word_of_int p :: size_t);
     if oldlen < 0 \<or> soff + word_of_int oldlen < soff \<or> soff + word_of_int oldlen > ucast dsize
     then Some (- FDT_ERR_BADOFFSET, fdt)
     else if p < 0 \<or> dsize + word_of_int newlen < word_of_int oldlen then Some (- FDT_ERR_BADOFFSET, fdt)
     else if dsize - word_of_int oldlen + word_of_int newlen > totalsize then Some (- FDT_ERR_NOSPACE, fdt)
     else do {
       fdt \<leftarrow> mv_bytes fdt (p + newlen) (p + oldlen) (uint dsize - (p + oldlen));
       Some (0, fdt) } }"

definition fdt_splice_mem_rsv' :: "fdt \<Rightarrow> int \<Rightarrow> int \<Rightarrow> int \<Rightarrow> (int \<times> fdt) option" where
  "fdt_splice_mem_rsv' fdt p oldn newn = do {
     let delta = c_int ((newn - oldn) * 16);
     (err, fdt) \<leftarrow> fdt_splice' fdt p (c_int (oldn * 16)) (c_int (newn * 16));
     if err \<noteq> 0 then Some (err, fdt)
     else do {
       off_dt_struct \<leftarrow> fdt_off_dt_struct fdt;
       fdt \<leftarrow> fdt_set_off_dt_struct fdt (off_dt_struct + word_of_int delta);
       off_dt_strings \<leftarrow> fdt_off_dt_strings fdt;
       fdt \<leftarrow> fdt_set_off_dt_strings fdt (off_dt_strings + word_of_int delta);
       Some (0, fdt) } }"

definition fdt_splice_struct' :: "fdt \<Rightarrow> int \<Rightarrow> int \<Rightarrow> int \<Rightarrow> (int \<times> fdt) option" where
  "fdt_splice_struct' fdt p oldlen newlen = do {
     let delta = newlen - oldlen;
     (err, fdt) \<leftarrow> fdt_splice' fdt p oldlen newlen;
     if err \<noteq> 0 then Some (err, fdt)
     else do {
       size_dt_struct \<leftarrow> fdt_size_dt_struct fdt;
       fdt \<leftarrow> fdt_set_size_dt_struct fdt (size_dt_struct + word_of_int delta);
       off_dt_strings \<leftarrow> fdt_off_dt_strings fdt;
       fdt \<leftarrow> fdt_set_off_dt_strings fdt (off_dt_strings + word_of_int delta);
       Some (0, fdt) } }"

definition fdt_rw_del_last_string' :: "fdt \<Rightarrow> u8 list \<Rightarrow> fdt option" where
  "fdt_rw_del_last_string' fdt s = do {
     let newlen = of_nat (length s) + 1;
     size_dt_strings \<leftarrow> fdt_size_dt_strings fdt;
     fdt_set_size_dt_strings fdt (size_dt_strings - newlen) }"

definition fdt_splice_string' :: "fdt \<Rightarrow> int \<Rightarrow> (int \<times> fdt) option" where
  "fdt_splice_string' fdt newlen = do {
     off_dt_strings \<leftarrow> fdt_off_dt_strings fdt;
     size_dt_strings \<leftarrow> fdt_size_dt_strings fdt;
     let p = uint off_dt_strings + uint size_dt_strings;
     (err, fdt) \<leftarrow> fdt_splice' fdt p 0 newlen;
     if err \<noteq> 0 then Some (err, fdt)
     else do {
       size_dt_strings \<leftarrow> fdt_size_dt_strings fdt;
       fdt \<leftarrow> fdt_set_size_dt_strings fdt (size_dt_strings + word_of_int newlen);
       Some (0, fdt) } }"

text \<open>The offset of the string or an error, \<^verbatim>\<open>*allocated\<close>, and the blob; \<open>s\<close> are the \<^verbatim>\<open>slen\<close> bytes of the name.\<close>

definition fdt_rw_find_add_string' :: "fdt \<Rightarrow> u8 list \<Rightarrow> (int \<times> bool \<times> fdt) option" where
  "fdt_rw_find_add_string' fdt s = do {
     let slen = int (length s);
     off_dt_strings \<leftarrow> fdt_off_dt_strings fdt;
     size_dt_strings \<leftarrow> fdt_size_dt_strings fdt;
     let strtab = uint off_dt_strings;
     p \<leftarrow> fdt_find_string_len' fdt strtab (sint size_dt_strings) s;
     (case p of
        Some p \<Rightarrow> Some (c_int (p - strtab), False, fdt)
      | None \<Rightarrow> do {
          let new = strtab + uint size_dt_strings;
          (err, fdt) \<leftarrow> fdt_splice_string' fdt (c_int (slen + 1));
          if err \<noteq> 0 then Some (err, False, fdt)
          else do {
            fdt \<leftarrow> wr_bytes fdt new s;
            fdt \<leftarrow> wr_bytes fdt (new + slen) [0];
            Some (c_int (new - strtab), True, fdt) } }) }"

section \<open>The memory reservation map\<close>

definition fdt_mem_rsv_w' :: "fdt \<Rightarrow> int \<Rightarrow> int option" where
  "fdt_mem_rsv_w' fdt n = do { off_mem_rsvmap \<leftarrow> fdt_off_mem_rsvmap fdt; Some (uint off_mem_rsvmap + n * 16) }"

definition fdt_add_mem_rsv :: "fdt \<Rightarrow> u64 \<Rightarrow> u64 \<Rightarrow> (int \<times> fdt) option" where
  "fdt_add_mem_rsv fdt address sz =
     FDT_RW_PROBE fdt (\<lambda>fdt. do {
       err \<leftarrow> fdt_num_mem_rsv fdt;
       if err < 0 then Some (err, fdt)
       else do {
         re \<leftarrow> fdt_mem_rsv_w' fdt err;
         (err, fdt) \<leftarrow> fdt_splice_mem_rsv' fdt re 0 1;
         if err \<noteq> 0 then Some (err, fdt)
         else do {
           fdt \<leftarrow> fdt64_st fdt re address;
           fdt \<leftarrow> fdt64_st fdt (re + 8) sz;
           Some (0, fdt) } } })"

definition fdt_del_mem_rsv :: "fdt \<Rightarrow> int \<Rightarrow> (int \<times> fdt) option" where
  "fdt_del_mem_rsv fdt n = do {
     re \<leftarrow> fdt_mem_rsv_w' fdt n;
     FDT_RW_PROBE fdt (\<lambda>fdt. do {
       num \<leftarrow> fdt_num_mem_rsv fdt;
       if num < 0 then Some (num, fdt)
       else if n \<ge> num then Some (- FDT_ERR_NOTFOUND, fdt)
       else fdt_splice_mem_rsv' fdt re 1 0 }) }"

section \<open>Properties\<close>

text \<open>The result, the blob, and the pointer to the property.\<close>

definition fdt_resize_property' :: "fdt \<Rightarrow> int \<Rightarrow> u8 list \<Rightarrow> int \<Rightarrow> (int \<times> fdt \<times> int) option" where
  "fdt_resize_property' fdt nodeoffset name len = do {
     r \<leftarrow> fdt_get_property_namelen fdt nodeoffset name;
     (case r of
        Inl oldlen \<Rightarrow> Some (oldlen, fdt, 0)
      | Inr (prop, oldlen) \<Rightarrow> do {
          (err, fdt) \<leftarrow> fdt_splice_struct' fdt (prop + 12) (FDT_TAGALIGN oldlen) (FDT_TAGALIGN len);
          if err \<noteq> 0 then Some (err, fdt, prop)
          else do { fdt \<leftarrow> fdt32_st fdt (prop + 4) (word_of_int len); Some (0, fdt, prop) } }) }"

text \<open>
  \<^verbatim>\<open>fdt_add_property_\<close>: the name added to the string table is \<open>take namelen name\<close>, and the rollback removes
  \<^verbatim>\<open>strlen(name) + 1\<close> bytes.
\<close>

definition fdt_add_property' :: "fdt \<Rightarrow> int \<Rightarrow> u8 list \<Rightarrow> nat \<Rightarrow> int \<Rightarrow> (int \<times> fdt \<times> int) option" where
  "fdt_add_property' fdt nodeoffset name namelen len = do {
     nextoffset \<leftarrow> fdt_check_node_offset' fdt nodeoffset;
     if nextoffset < 0 then Some (nextoffset, fdt, 0)
     else do {
       (namestroff, allocated, fdt) \<leftarrow> fdt_rw_find_add_string' fdt (take namelen name);
       if namestroff < 0 then Some (namestroff, fdt, 0)
       else do {
         prop \<leftarrow> fdt_offset_ptr' fdt nextoffset;
         let proplen = c_int (12 + FDT_TAGALIGN len);
         (err, fdt) \<leftarrow> fdt_splice_struct' fdt prop 0 proplen;
         if err \<noteq> 0 then do {
           fdt \<leftarrow> (if allocated then fdt_rw_del_last_string' fdt name else Some fdt);
           Some (err, fdt, prop) }
         else do {
           fdt \<leftarrow> fdt32_st fdt prop FDT_PROP;
           fdt \<leftarrow> fdt32_st fdt (prop + 8) (word_of_int namestroff);
           fdt \<leftarrow> fdt32_st fdt (prop + 4) (word_of_int len);
           Some (0, fdt, prop) } } } }"

definition fdt_set_name :: "fdt \<Rightarrow> int \<Rightarrow> u8 list \<Rightarrow> (int \<times> fdt) option" where
  "fdt_set_name fdt nodeoffset name =
     FDT_RW_PROBE fdt (\<lambda>fdt. do {
       r \<leftarrow> fdt_get_name fdt nodeoffset;
       (case r of
          Inl oldlen \<Rightarrow> Some (oldlen, fdt)
        | Inr (namep, oldlen) \<Rightarrow> do {
            let newlen = int (length name);
            (err, fdt) \<leftarrow> fdt_splice_struct' fdt namep (FDT_TAGALIGN (oldlen + 1)) (FDT_TAGALIGN (newlen + 1));
            if err \<noteq> 0 then Some (err, fdt)
            else do { fdt \<leftarrow> wr_bytes fdt namep (name @ [0]); Some (0, fdt) } }) })"

definition fdt_setprop_placeholder_namelen :: "fdt \<Rightarrow> int \<Rightarrow> u8 list \<Rightarrow> nat \<Rightarrow> int \<Rightarrow> (int \<times> fdt \<times> int) option" where
  "fdt_setprop_placeholder_namelen fdt nodeoffset name namelen len = do {
     (err, fdt) \<leftarrow> fdt_rw_probe' fdt;
     if err \<noteq> 0 then Some (err, fdt, 0)
     else do {
       (err, fdt, prop) \<leftarrow> fdt_resize_property' fdt nodeoffset (take namelen name) len;
       (err, fdt, prop) \<leftarrow>
         (if err = - FDT_ERR_NOTFOUND then fdt_add_property' fdt nodeoffset name namelen len
          else Some (err, fdt, prop));
       if err \<noteq> 0 then Some (err, fdt, 0) else Some (0, fdt, prop + 12) } }"

definition fdt_setprop_namelen :: "fdt \<Rightarrow> int \<Rightarrow> u8 list \<Rightarrow> nat \<Rightarrow> u8 list \<Rightarrow> (int \<times> fdt) option" where
  "fdt_setprop_namelen fdt nodeoffset name namelen val = do {
     (err, fdt, prop_data) \<leftarrow> fdt_setprop_placeholder_namelen fdt nodeoffset name namelen (int (length val));
     if err \<noteq> 0 then Some (err, fdt)
     else do {
       fdt \<leftarrow> (if length val \<noteq> 0 then wr_bytes fdt prop_data val else Some fdt);
       Some (0, fdt) } }"

definition fdt_setprop :: "fdt \<Rightarrow> int \<Rightarrow> u8 list \<Rightarrow> u8 list \<Rightarrow> (int \<times> fdt) option" where
  "fdt_setprop fdt nodeoffset name val = fdt_setprop_namelen fdt nodeoffset name (length name) val"

definition fdt_setprop_u32 :: "fdt \<Rightarrow> int \<Rightarrow> u8 list \<Rightarrow> u32 \<Rightarrow> (int \<times> fdt) option" where
  "fdt_setprop_u32 fdt nodeoffset name val = fdt_setprop fdt nodeoffset name (cpu_to_fdt32 val)"

definition fdt_setprop_u64 :: "fdt \<Rightarrow> int \<Rightarrow> u8 list \<Rightarrow> u64 \<Rightarrow> (int \<times> fdt) option" where
  "fdt_setprop_u64 fdt nodeoffset name val = fdt_setprop fdt nodeoffset name (cpu_to_fdt64 val)"

definition fdt_appendprop :: "fdt \<Rightarrow> int \<Rightarrow> u8 list \<Rightarrow> u8 list \<Rightarrow> (int \<times> fdt) option" where
  "fdt_appendprop fdt nodeoffset name val =
     FDT_RW_PROBE fdt (\<lambda>fdt. do {
       let len = int (length val);
       r \<leftarrow> fdt_get_property fdt nodeoffset name;
       (case r of
          Inr (prop, oldlen) \<Rightarrow> do {
            let newlen = len + oldlen;
            (err, fdt) \<leftarrow> fdt_splice_struct' fdt (prop + 12) (FDT_TAGALIGN oldlen) (FDT_TAGALIGN newlen);
            if err \<noteq> 0 then Some (err, fdt)
            else do {
              fdt \<leftarrow> fdt32_st fdt (prop + 4) (word_of_int newlen);
              fdt \<leftarrow> wr_bytes fdt (prop + 12 + oldlen) val;
              Some (0, fdt) } }
        | Inl _ \<Rightarrow> do {
            (err, fdt, prop) \<leftarrow> fdt_add_property' fdt nodeoffset name (length name) len;
            if err \<noteq> 0 then Some (err, fdt)
            else do { fdt \<leftarrow> wr_bytes fdt (prop + 12) val; Some (0, fdt) } }) })"

definition fdt_appendprop_u32 :: "fdt \<Rightarrow> int \<Rightarrow> u8 list \<Rightarrow> u32 \<Rightarrow> (int \<times> fdt) option" where
  "fdt_appendprop_u32 fdt nodeoffset name val = fdt_appendprop fdt nodeoffset name (cpu_to_fdt32 val)"

definition fdt_appendprop_u64 :: "fdt \<Rightarrow> int \<Rightarrow> u8 list \<Rightarrow> u64 \<Rightarrow> (int \<times> fdt) option" where
  "fdt_appendprop_u64 fdt nodeoffset name val = fdt_appendprop fdt nodeoffset name (cpu_to_fdt64 val)"

definition fdt_delprop :: "fdt \<Rightarrow> int \<Rightarrow> u8 list \<Rightarrow> (int \<times> fdt) option" where
  "fdt_delprop fdt nodeoffset name =
     FDT_RW_PROBE fdt (\<lambda>fdt. do {
       r \<leftarrow> fdt_get_property fdt nodeoffset name;
       (case r of
          Inl len \<Rightarrow> Some (len, fdt)
        | Inr (prop, len) \<Rightarrow> do {
            let proplen = c_int (12 + FDT_TAGALIGN len);
            fdt_splice_struct' fdt prop proplen 0 }) })"

section \<open>Nodes\<close>

text \<open>The \<^verbatim>\<open>do ... while\<close> loop of \<^verbatim>\<open>fdt_add_subnode_namelen\<close>: the first offset behind the parent's properties.\<close>

partial_function (option) behind_properties :: "fdt \<Rightarrow> int \<Rightarrow> int option" where
  [code]: "behind_properties fdt offset = do {
     (tag, nextoffset) \<leftarrow> fdt_next_tag fdt offset;
     if tag = FDT_PROP \<or> tag = FDT_NOP then behind_properties fdt nextoffset else Some offset }"

definition fdt_add_subnode_namelen :: "fdt \<Rightarrow> int \<Rightarrow> u8 list \<Rightarrow> (int \<times> fdt) option" where
  "fdt_add_subnode_namelen fdt parentoffset name =
     FDT_RW_PROBE fdt (\<lambda>fdt. do {
       let namelen = int (length name);
       offset \<leftarrow> fdt_subnode_offset_namelen fdt parentoffset name;
       if offset \<ge> 0 then Some (- FDT_ERR_EXISTS, fdt)
       else if offset \<noteq> - FDT_ERR_NOTFOUND then Some (offset, fdt)
       else do {
         (tag, nextoffset) \<leftarrow> fdt_next_tag fdt parentoffset;
         if tag \<noteq> FDT_BEGIN_NODE then Some (- FDT_ERR_INTERNAL, fdt)
         else do {
           offset \<leftarrow> behind_properties fdt nextoffset;
           nh \<leftarrow> fdt_offset_ptr' fdt offset;
           let nodelen = c_int (4 + FDT_TAGALIGN (namelen + 1) + FDT_TAGSIZE);
           (err, fdt) \<leftarrow> fdt_splice_struct' fdt nh 0 nodelen;
           if err \<noteq> 0 then Some (err, fdt)
           else do {
             fdt \<leftarrow> fdt32_st fdt nh FDT_BEGIN_NODE;
             fdt \<leftarrow> wr_bytes fdt (nh + 4) (replicate (nat (FDT_TAGALIGN (namelen + 1))) 0);
             fdt \<leftarrow> wr_bytes fdt (nh + 4) name;
             let endtag = nh + nodelen - FDT_TAGSIZE;
             fdt \<leftarrow> fdt32_st fdt endtag FDT_END_NODE;
             Some (offset, fdt) } } } })"

definition fdt_add_subnode :: "fdt \<Rightarrow> int \<Rightarrow> u8 list \<Rightarrow> (int \<times> fdt) option" where
  "fdt_add_subnode fdt parentoffset name = fdt_add_subnode_namelen fdt parentoffset name"

definition fdt_del_node :: "fdt \<Rightarrow> int \<Rightarrow> (int \<times> fdt) option" where
  "fdt_del_node fdt nodeoffset =
     FDT_RW_PROBE fdt (\<lambda>fdt. do {
       endoffset \<leftarrow> fdt_node_end_offset' fdt nodeoffset;
       if endoffset < 0 then Some (endoffset, fdt)
       else do {
         p \<leftarrow> fdt_offset_ptr' fdt nodeoffset;
         fdt_splice_struct' fdt p (endoffset - nodeoffset) 0 } })"

section \<open>Two buffers in one memory\<close>

text \<open>
  \<^verbatim>\<open>fdt_resize\<close>, \<^verbatim>\<open>fdt_open_into\<close> and \<^verbatim>\<open>fdt_packblocks_\<close> work on two buffers that may overlap.  The model of such a
  call is one area of memory, itself a record of an address and bytes, and the buffers are offsets into it.
  \<open>fdt_in\<close> is the blob at an offset, \<open>put_in\<close> stores it back, and \<open>set_in\<close> applies a header setter there.
\<close>

definition fdt_in :: "fdt \<Rightarrow> int \<Rightarrow> fdt option" where
  "fdt_in mem p =
     (if 0 \<le> p \<and> p \<le> int (length (fdt_bytes mem))
      then Some \<lparr>fdt_addr = fdt_addr mem + word_of_int p, fdt_bytes = drop (nat p) (fdt_bytes mem)\<rparr> else None)"

definition set_in :: "(fdt \<Rightarrow> u32 \<Rightarrow> fdt option) \<Rightarrow> fdt \<Rightarrow> int \<Rightarrow> u32 \<Rightarrow> fdt option" where
  "set_in set_field mem p val = do {
     fdt \<leftarrow> fdt_in mem p;
     fdt \<leftarrow> set_field fdt val;
     wr_bytes mem p (fdt_bytes fdt) }"

definition get_in :: "(fdt \<Rightarrow> 'a option) \<Rightarrow> fdt \<Rightarrow> int \<Rightarrow> 'a option" where
  "get_in get_field mem p = do { fdt \<leftarrow> fdt_in mem p; get_field fdt }"

definition fdt_resize :: "fdt \<Rightarrow> int \<Rightarrow> int \<Rightarrow> int \<Rightarrow> (int \<times> fdt) option" where
  "fdt_resize mem fdt buf bufsize = do {
     err \<leftarrow> get_in fdt_sw_probe' mem fdt;
     if err \<noteq> 0 then Some (err, mem)
     else if bufsize < 0 then Some (- FDT_ERR_NOSPACE, mem)
     else do {
       off_dt_struct \<leftarrow> get_in fdt_off_dt_struct mem fdt;
       size_dt_struct \<leftarrow> get_in fdt_size_dt_struct mem fdt;
       tailsize \<leftarrow> get_in fdt_size_dt_strings mem fdt;
       totalsize \<leftarrow> get_in fdt_totalsize mem fdt;
       let headsize = uint (off_dt_struct + size_dt_struct);
       let tailsize = uint tailsize;
       if headsize + tailsize > uint totalsize then Some (- FDT_ERR_INTERNAL, mem)
       else if headsize + tailsize > bufsize then Some (- FDT_ERR_NOSPACE, mem)
       else do {
         let oldtail = fdt + uint totalsize - tailsize;
         let newtail = buf + bufsize - tailsize;
         mem \<leftarrow>
           (if buf \<le> fdt then do { mem \<leftarrow> mv_bytes mem buf fdt headsize; mv_bytes mem newtail oldtail tailsize }
            else do { mem \<leftarrow> mv_bytes mem newtail oldtail tailsize; mv_bytes mem buf fdt headsize });
         mem \<leftarrow> set_in fdt_set_totalsize mem buf (word_of_int bufsize);
         off_dt_strings \<leftarrow> get_in fdt_off_dt_strings mem buf;
         mem \<leftarrow>
           (if off_dt_strings \<noteq> 0 then set_in fdt_set_off_dt_strings mem buf (word_of_int bufsize) else Some mem);
         Some (0, mem) } } }"

definition fdt_packblocks' :: "fdt \<Rightarrow> int \<Rightarrow> int \<Rightarrow> int \<Rightarrow> int \<Rightarrow> int \<Rightarrow> fdt option" where
  "fdt_packblocks' mem old new mem_rsv_size struct_size strings_size = do {
     let mem_rsv_off = 40;
     let struct_off = mem_rsv_off + mem_rsv_size;
     let strings_off = struct_off + struct_size;
     off_mem_rsvmap \<leftarrow> get_in fdt_off_mem_rsvmap mem old;
     mem \<leftarrow> mv_bytes mem (new + mem_rsv_off) (old + uint off_mem_rsvmap) mem_rsv_size;
     mem \<leftarrow> set_in fdt_set_off_mem_rsvmap mem new (word_of_int mem_rsv_off);
     off_dt_struct \<leftarrow> get_in fdt_off_dt_struct mem old;
     mem \<leftarrow> mv_bytes mem (new + struct_off) (old + uint off_dt_struct) struct_size;
     mem \<leftarrow> set_in fdt_set_off_dt_struct mem new (word_of_int struct_off);
     mem \<leftarrow> set_in fdt_set_size_dt_struct mem new (word_of_int struct_size);
     off_dt_strings \<leftarrow> get_in fdt_off_dt_strings mem old;
     mem \<leftarrow> mv_bytes mem (new + strings_off) (old + uint off_dt_strings) strings_size;
     mem \<leftarrow> set_in fdt_set_off_dt_strings mem new (word_of_int strings_off);
     size_dt_strings \<leftarrow> get_in fdt_size_dt_strings mem old;
     set_in fdt_set_size_dt_strings mem new size_dt_strings }"

text \<open>The walk that measures the structure block of a version 16 tree.\<close>

partial_function (option) struct_size_loop :: "fdt \<Rightarrow> int \<Rightarrow> int option" where
  [code]: "struct_size_loop fdt struct_size = do {
     (tag, struct_size) \<leftarrow> fdt_next_tag fdt struct_size;
     if tag \<noteq> FDT_END then struct_size_loop fdt struct_size else Some struct_size }"

definition open_struct_size :: "fdt \<Rightarrow> (int + int) option" where
  "open_struct_size fdt = do {
     version \<leftarrow> fdt_version fdt;
     if version \<ge> 17 then do { size_dt_struct \<leftarrow> fdt_size_dt_struct fdt; Some (Inr (sint size_dt_struct)) }
     else if version = 16 then do {
       struct_size \<leftarrow> struct_size_loop fdt 0;
       Some (if struct_size < 0 then Inl struct_size else Inr struct_size) }
     else Some (Inl (- FDT_ERR_BADVERSION)) }"

text \<open>The two ways to fill the buffer: the blocks are in order and the blob is moved, or they are packed anew.\<close>

definition open_move :: "fdt \<Rightarrow> fdt \<Rightarrow> int \<Rightarrow> int \<Rightarrow> int \<Rightarrow> (int \<times> fdt) option" where
  "open_move mem blob buf bufsize struct_size = do {
     (err, bytes) \<leftarrow> fdt_move blob bufsize;
     (case bytes of
        None \<Rightarrow> Some (err, mem)
      | Some bytes \<Rightarrow> do {
          mem \<leftarrow> wr_bytes mem buf bytes;
          mem \<leftarrow> set_in fdt_set_version mem buf 17;
          mem \<leftarrow> set_in fdt_set_size_dt_struct mem buf (word_of_int struct_size);
          mem \<leftarrow> set_in fdt_set_totalsize mem buf (word_of_int bufsize);
          Some (0, mem) }) }"

definition open_reorder :: "fdt \<Rightarrow> int \<Rightarrow> int \<Rightarrow> int \<Rightarrow> int \<Rightarrow> int \<Rightarrow> (int \<times> fdt) option" where
  "open_reorder mem fdt buf bufsize mem_rsv_size struct_size = do {
     totalsize \<leftarrow> get_in fdt_totalsize mem fdt;
     size_dt_strings \<leftarrow> get_in fdt_size_dt_strings mem fdt;
     let fdtend = fdt + uint totalsize;
     let newsize = c_int (40 + mem_rsv_size + struct_size + uint size_dt_strings);
     if bufsize < newsize then Some (- FDT_ERR_NOSPACE, mem)
     else do {
       let overlap = buf + newsize > fdt \<and> buf < fdtend;
       let tmp = (if overlap then fdtend else buf);
       if overlap \<and> tmp + newsize > buf + bufsize then Some (- FDT_ERR_NOSPACE, mem)
       else do {
         mem \<leftarrow> fdt_packblocks' mem fdt tmp mem_rsv_size struct_size (sint size_dt_strings);
         mem \<leftarrow> mv_bytes mem buf tmp newsize;
         mem \<leftarrow> set_in fdt_set_magic mem buf FDT_MAGIC;
         mem \<leftarrow> set_in fdt_set_totalsize mem buf (word_of_int bufsize);
         mem \<leftarrow> set_in fdt_set_version mem buf 17;
         mem \<leftarrow> set_in fdt_set_last_comp_version mem buf 16;
         boot_cpuid_phys \<leftarrow> get_in fdt_boot_cpuid_phys mem fdt;
         mem \<leftarrow> set_in fdt_set_boot_cpuid_phys mem buf boot_cpuid_phys;
         Some (0, mem) } } }"

definition fdt_open_into :: "fdt \<Rightarrow> int \<Rightarrow> int \<Rightarrow> int \<Rightarrow> (int \<times> fdt) option" where
  "fdt_open_into mem fdt buf bufsize = do {
     blob \<leftarrow> fdt_in mem fdt;
     totalsize \<leftarrow> fdt_ro_probe' blob;
     if totalsize < 0 then Some (totalsize, mem)
     else do {
       err \<leftarrow> fdt_num_mem_rsv blob;
       if err < 0 then Some (err, mem)
       else do {
         let mem_rsv_size = c_int ((err + 1) * 16);
         struct_size \<leftarrow> open_struct_size blob;
         (case struct_size of
            Inl err \<Rightarrow> Some (err, mem)
          | Inr struct_size \<Rightarrow> do {
              misordered \<leftarrow> fdt_blocks_misordered' blob mem_rsv_size struct_size;
              if \<not> misordered then open_move mem blob buf bufsize struct_size
              else open_reorder mem fdt buf bufsize mem_rsv_size struct_size }) } } }"

definition fdt_pack :: "fdt \<Rightarrow> (int \<times> fdt) option" where
  "fdt_pack fdt =
     FDT_RW_PROBE fdt (\<lambda>fdt. do {
       err \<leftarrow> fdt_num_mem_rsv fdt;
       if err < 0 then Some (err, fdt)
       else do {
         let mem_rsv_size = c_int ((err + 1) * 16);
         size_dt_struct \<leftarrow> fdt_size_dt_struct fdt;
         size_dt_strings \<leftarrow> fdt_size_dt_strings fdt;
         fdt \<leftarrow> fdt_packblocks' fdt 0 0 mem_rsv_size (sint size_dt_struct) (sint size_dt_strings);
         dsize \<leftarrow> fdt_data_size' fdt;
         fdt \<leftarrow> fdt_set_totalsize fdt dsize;
         Some (0, fdt) } })"

section \<open>Built on the above\<close>

definition fdt_create_empty_tree :: "fdt \<Rightarrow> int \<Rightarrow> (int \<times> fdt) option" where
  "fdt_create_empty_tree buf bufsize = do {
     (err, buf) \<leftarrow> fdt_create buf bufsize;
     if err \<noteq> 0 then Some (err, buf)
     else do {
       (err, buf) \<leftarrow> fdt_finish_reservemap buf;
       if err \<noteq> 0 then Some (err, buf)
       else do {
         (err, buf) \<leftarrow> fdt_begin_node buf [];
         if err \<noteq> 0 then Some (err, buf)
         else do {
           (err, buf) \<leftarrow> fdt_end_node buf;
           if err \<noteq> 0 then Some (err, buf)
           else do {
             (err, buf) \<leftarrow> fdt_finish buf;
             if err \<noteq> 0 then Some (err, buf) else fdt_open_into buf 0 0 bufsize } } } } }"

text \<open>
  \<^verbatim>\<open>fdt_appendprop_addrrange\<close>: the encodings of the address and of the size in the cells of the parent, or the
  error.
\<close>

definition encode_addr :: "int \<Rightarrow> u64 \<Rightarrow> u64 \<Rightarrow> int + u8 list" where
  "encode_addr addr_cells addr sz =
     (if addr_cells = 1 then
        if addr > 0xFFFFFFFF \<or> 0xFFFFFFFF + 1 - addr < sz then Inl (- FDT_ERR_BADVALUE)
        else Inr (cpu_to_fdt32 (ucast addr))
      else if addr_cells = 2 then Inr (cpu_to_fdt64 addr)
      else Inl (- FDT_ERR_BADNCELLS))"

definition encode_size :: "int \<Rightarrow> u64 \<Rightarrow> int + u8 list" where
  "encode_size size_cells sz =
     (if size_cells = 1 then
        if sz > 0xFFFFFFFF then Inl (- FDT_ERR_BADVALUE) else Inr (cpu_to_fdt32 (ucast sz))
      else if size_cells = 2 then Inr (cpu_to_fdt64 sz)
      else Inl (- FDT_ERR_BADNCELLS))"

definition fdt_appendprop_addrrange :: "fdt \<Rightarrow> int \<Rightarrow> int \<Rightarrow> u8 list \<Rightarrow> u64 \<Rightarrow> u64 \<Rightarrow> (int \<times> fdt) option" where
  "fdt_appendprop_addrrange fdt parent nodeoffset name addr sz = do {
     addr_cells \<leftarrow> fdt_address_cells fdt parent;
     if addr_cells < 0 then Some (addr_cells, fdt)
     else do {
       size_cells \<leftarrow> fdt_size_cells fdt parent;
       if size_cells < 0 then Some (size_cells, fdt)
       else (case encode_addr addr_cells addr sz of
               Inl err \<Rightarrow> Some (err, fdt)
             | Inr a \<Rightarrow>
                 (case encode_size size_cells sz of
                    Inl err \<Rightarrow> Some (err, fdt)
                  | Inr b \<Rightarrow> fdt_appendprop fdt nodeoffset name (a @ b))) } }"

end
