(* ===== verification/Fdt_Tokens.thy ===== *)
theory Fdt_Tokens
  imports Fdt_Sw
begin

unbundle bit_operations_syntax

text \<open>
  What the sequential writer promises: the structure block as a list of tokens.  \<open>tok_at\<close> says that the
  bytes at an offset encode a token; a blob that extends another keeps every token; and the readers
  \<^verbatim>\<open>fdt_next_tag\<close> and \<^verbatim>\<open>fdt_getprop_by_offset\<close> return what the token says.
\<close>

section \<open>Tokens in a blob\<close>

datatype token = TBegin "u8 list" | TEnd | TProp "u8 list" "u8 list"

fun tag_of :: "token \<Rightarrow> u32" where
  "tag_of (TBegin _) = FDT_BEGIN_NODE"
| "tag_of TEnd = FDT_END_NODE"
| "tag_of (TProp _ _) = FDT_PROP"

definition bytes_at :: "fdt \<Rightarrow> int \<Rightarrow> u8 list \<Rightarrow> bool" where
  "bytes_at fdt p bs \<longleftrightarrow> (\<forall>i < length bs. rd8 fdt (p + int i) = Some (bs ! i))"

definition round4 :: "int \<Rightarrow> int" where
  "round4 x = x + 3 - (x + 3) mod 4"

text \<open>The state of the writer between \<^verbatim>\<open>fdt_finish_reservemap\<close> and \<^verbatim>\<open>fdt_finish\<close>.\<close>

definition sw_inv :: "fdt \<Rightarrow> bool" where
  "sw_inv fdt \<longleftrightarrow>
     fdt_buffer fdt \<and> fdt_addr fdt AND 7 = 0 \<and> hdr fdt 0 = FDT_SW_MAGIC \<and> hdr fdt 20 = 17 \<and> hdr fdt 12 = hdr fdt 4 \<and>
     48 \<le> uint (hdr fdt 8) \<and> uint (hdr fdt 36) mod 4 = 0 \<and>
     uint (hdr fdt 8) + uint (hdr fdt 36) + uint (hdr fdt 32) \<le> uint (hdr fdt 4)"

text \<open>A property's name: a string in the table at the end of the buffer, at a negative offset.\<close>

definition name_at :: "fdt \<Rightarrow> u32 \<Rightarrow> u8 list \<Rightarrow> bool" where
  "name_at fdt nameoff name \<longleftrightarrow>
     0 \<notin> set name \<and> int (length name) + 1 \<le> uint (- nameoff) \<and> uint (- nameoff) \<le> uint (hdr fdt 32) \<and>
     bytes_at fdt (uint (hdr fdt 4) - uint (- nameoff)) (name @ [0])"

text \<open>A token, with what is known of the names of properties.\<close>

fun tok_in :: "(u32 \<Rightarrow> u8 list \<Rightarrow> bool) \<Rightarrow> fdt \<Rightarrow> int \<Rightarrow> token \<Rightarrow> int \<Rightarrow> bool" where
  "tok_in N fdt o' (TBegin name) n \<longleftrightarrow>
     0 \<le> o' \<and> fdt32_ld fdt (uint (hdr fdt 8) + o') = Some FDT_BEGIN_NODE \<and>
     bytes_at fdt (uint (hdr fdt 8) + o' + 4) (name @ [0]) \<and> 0 \<notin> set name \<and>
     n = o' + 4 + round4 (int (length name) + 1) \<and> n \<le> uint (hdr fdt 36)"
| "tok_in N fdt o' TEnd n \<longleftrightarrow>
     0 \<le> o' \<and> fdt32_ld fdt (uint (hdr fdt 8) + o') = Some FDT_END_NODE \<and> n = o' + 4 \<and> n \<le> uint (hdr fdt 36)"
| "tok_in N fdt o' (TProp name val) n \<longleftrightarrow>
     0 \<le> o' \<and> fdt32_ld fdt (uint (hdr fdt 8) + o') = Some FDT_PROP \<and>
     fdt32_ld fdt (uint (hdr fdt 8) + o' + 4) = Some (of_nat (length val)) \<and>
     (\<exists>nameoff. fdt32_ld fdt (uint (hdr fdt 8) + o' + 8) = Some nameoff \<and> N nameoff name) \<and>
     bytes_at fdt (uint (hdr fdt 8) + o' + 12) val \<and>
     n = o' + 12 + round4 (int (length val)) \<and> n \<le> uint (hdr fdt 36)"

fun toks_in :: "(u32 \<Rightarrow> u8 list \<Rightarrow> bool) \<Rightarrow> fdt \<Rightarrow> int \<Rightarrow> token list \<Rightarrow> int \<Rightarrow> bool" where
  "toks_in N fdt o' [] n \<longleftrightarrow> n = o'"
| "toks_in N fdt o' (t # ts) n \<longleftrightarrow> (\<exists>m. tok_in N fdt o' t m \<and> toks_in N fdt m ts n)"

abbreviation tok_at :: "fdt \<Rightarrow> int \<Rightarrow> token \<Rightarrow> int \<Rightarrow> bool" where
  "tok_at fdt \<equiv> tok_in (name_at fdt) fdt"

abbreviation toks_at :: "fdt \<Rightarrow> int \<Rightarrow> token list \<Rightarrow> int \<Rightarrow> bool" where
  "toks_at fdt \<equiv> toks_in (name_at fdt) fdt"

lemma toks_in_append: "toks_in N fdt o' (ts @ us) n \<longleftrightarrow> (\<exists>m. toks_in N fdt o' ts m \<and> toks_in N fdt m us n)"
  by (induction ts arbitrary: o') auto

section \<open>Extending a blob\<close>

definition sw_extends :: "fdt \<Rightarrow> fdt \<Rightarrow> bool" where
  "sw_extends fdt fdt' \<longleftrightarrow>
     fdt_addr fdt' = fdt_addr fdt \<and> length (fdt_bytes fdt') = length (fdt_bytes fdt) \<and>
     hdr fdt' 4 = hdr fdt 4 \<and> hdr fdt' 8 = hdr fdt 8 \<and> hdr fdt' 16 = hdr fdt 16 \<and>
     uint (hdr fdt 32) \<le> uint (hdr fdt' 32) \<and> uint (hdr fdt 36) \<le> uint (hdr fdt' 36) \<and>
     (\<forall>p. 40 \<le> p \<and> p < uint (hdr fdt 8) \<longrightarrow> rd8 fdt' p = rd8 fdt p) \<and>
     (\<forall>p. uint (hdr fdt 8) \<le> p \<and> p < uint (hdr fdt 8) + uint (hdr fdt 36) \<longrightarrow> rd8 fdt' p = rd8 fdt p) \<and>
     (\<forall>p. uint (hdr fdt 4) - uint (hdr fdt 32) \<le> p \<and> p < uint (hdr fdt 4) \<longrightarrow> rd8 fdt' p = rd8 fdt p)"

lemma sw_extends_refl [simp]: "sw_extends fdt fdt"
  by (simp add: sw_extends_def)

lemma sw_extends_trans: "sw_extends a b \<Longrightarrow> sw_extends b c \<Longrightarrow> sw_extends a c"
  by (force simp: sw_extends_def)

lemma round4_bounds: "x \<le> round4 x" "round4 x < x + 4"
proof -
  have "0 \<le> (x + 3) mod 4" "(x + 3) mod 4 < 4" by simp_all
  then show "x \<le> round4 x" "round4 x < x + 4" unfolding round4_def by linarith+
qed

lemma round4_mod: "round4 x mod 4 = 0"
  unfolding round4_def by (metis dvd_minus_mod dvd_imp_mod_0)

lemma bytes_at_extends:
  assumes "sw_extends fdt fdt'" "bytes_at fdt p bs"
    "uint (hdr fdt 8) \<le> p \<and> p + int (length bs) \<le> uint (hdr fdt 8) + uint (hdr fdt 36) \<or>
     uint (hdr fdt 4) - uint (hdr fdt 32) \<le> p \<and> p + int (length bs) \<le> uint (hdr fdt 4)"
  shows "bytes_at fdt' p bs"
  using assms by (force simp: bytes_at_def sw_extends_def)

lemma ld_extends:
  assumes "sw_extends fdt fdt'" "uint (hdr fdt 8) \<le> p" "p + 4 \<le> uint (hdr fdt 8) + uint (hdr fdt 36)"
  shows "fdt32_ld fdt' p = fdt32_ld fdt p"
  using assms by (intro fdt32_ld_cong) (auto simp: sw_extends_def)

lemma name_at_extends:
  assumes "sw_extends fdt fdt'" "name_at fdt nameoff name"
  shows "name_at fdt' nameoff name"
proof -
  have "bytes_at fdt' (uint (hdr fdt 4) - uint (- nameoff)) (name @ [0])"
    using assms(2) by (intro bytes_at_extends [OF assms(1)]) (auto simp: name_at_def)
  then show ?thesis
    using assms by (auto simp: name_at_def sw_extends_def)
qed

lemma bytes_at_cong:
  assumes "bytes_at fdt p bs" "\<And>q. p \<le> q \<Longrightarrow> q < p + int (length bs) \<Longrightarrow> rd8 fdt' q = rd8 fdt q"
  shows "bytes_at fdt' p bs"
  using assms by (auto simp: bytes_at_def)

lemma tok_in_mono: "tok_in N fdt o' t n \<Longrightarrow> (\<And>off nm. N off nm \<Longrightarrow> N' off nm) \<Longrightarrow> tok_in N' fdt o' t n"
  by (cases t) auto

text \<open>A token depends on its own bytes and on the place of the structure block only.\<close>

lemma tok_in_cong:
  assumes "tok_in N fdt o' t n" "hdr fdt' 8 = hdr fdt 8" "uint (hdr fdt 36) \<le> uint (hdr fdt' 36)"
    "\<And>p. uint (hdr fdt 8) + o' \<le> p \<Longrightarrow> p < uint (hdr fdt 8) + n \<Longrightarrow> rd8 fdt' p = rd8 fdt p"
  shows "tok_in N fdt' o' t n"
proof -
  have ld: "fdt32_ld fdt' (uint (hdr fdt 8) + o' + k) = fdt32_ld fdt (uint (hdr fdt 8) + o' + k)"
    if "0 \<le> k" "o' + k + 4 \<le> n" for k
    using that by (intro fdt32_ld_cong assms(4)) auto
  have bt: "bytes_at fdt' (uint (hdr fdt 8) + o' + k) bs"
    if "bytes_at fdt (uint (hdr fdt 8) + o' + k) bs" "0 \<le> k" "o' + k + int (length bs) \<le> n" for k bs
    using that by (intro bytes_at_cong [OF that(1)] assms(4)) auto
  show ?thesis
  proof (cases t)
    case (TBegin name)
    then show ?thesis
      using assms(1-3) ld [of 0] bt [of 4 "name @ [0]"] round4_bounds(1) [of "int (length name) + 1"] by auto
  next
    case TEnd
    then show ?thesis using assms(1-3) ld [of 0] by auto
  next
    case (TProp name val)
    then show ?thesis
      using assms(1-3) ld [of 0] ld [of 4] ld [of 8] bt [of 12 val] round4_bounds(1) [of "int (length val)"] by auto
  qed
qed

lemma tok_in_bounds: "tok_in N fdt o' t n \<Longrightarrow> 0 \<le> o' \<and> o' + 4 \<le> n \<and> n \<le> uint (hdr fdt 36)"
  using round4_bounds(1) [of "int (length (case t of TBegin name \<Rightarrow> name | TProp _ val \<Rightarrow> val | TEnd \<Rightarrow> []))"]
    round4_bounds(1) [of "int (length (case t of TBegin name \<Rightarrow> name | TProp _ val \<Rightarrow> val | TEnd \<Rightarrow> [])) + 1"]
  by (cases t) auto

lemma tok_at_extends:
  assumes "sw_extends fdt fdt'" "tok_at fdt o' t n"
  shows "tok_at fdt' o' t n"
proof -
  have "tok_in (name_at fdt) fdt' o' t n"
    using assms(1) tok_in_bounds [OF assms(2)] by (intro tok_in_cong [OF assms(2)]) (auto simp: sw_extends_def)
  then show ?thesis
    by (rule tok_in_mono) (rule name_at_extends [OF assms(1)])
qed

lemma toks_at_extends: "sw_extends fdt fdt' \<Longrightarrow> toks_at fdt o' ts n \<Longrightarrow> toks_at fdt' o' ts n"
  by (induction ts arbitrary: o') (auto intro: tok_at_extends)

section \<open>Reading tokens\<close>

lemma uint_u32_sum: "uint (a :: u32) = x \<Longrightarrow> uint b = y \<Longrightarrow> x + y < 4294967296 \<Longrightarrow> uint (a + b) = x + y"
  using uint_u32_add [of a b] by simp

lemma uint_u32_of_int: "0 \<le> i \<Longrightarrow> i < 4294967296 \<Longrightarrow> uint (word_of_int i :: u32) = i"
  using word_of_int_uint_u32 [of i] by simp

lemma round4_shift: "o' mod 4 = 0 \<Longrightarrow> round4 (o' + x) = o' + round4 x"
proof -
  assume "o' mod 4 = 0"
  then have "(o' + x + 3) mod 4 = (x + 3) mod 4"
    by (metis add.assoc add_0 mod_add_left_eq)
  then show ?thesis by (simp add: round4_def)
qed

lemma FDT_TAGALIGN_round4: "0 \<le> x \<Longrightarrow> x < 2 ^ 31 - 3 \<Longrightarrow> FDT_TAGALIGN x = round4 x"
proof -
  assume x: "0 \<le> x" "x < 2 ^ 31 - 3"
  have "FDT_TAGALIGN x = c_int (round4 x)"
    by (simp add: FDT_TAGALIGN_def round4_def int_and_not_3 add.commute)
  also have "\<dots> = round4 x"
    using x round4_bounds [of x] by (intro c_int_id) linarith+
  finally show ?thesis .
qed

lemma sw_inv_buffer: "sw_inv fdt \<Longrightarrow> fdt_buffer fdt"
  by (simp add: sw_inv_def)

lemma sw_inv_sizes:
  assumes "sw_inv fdt"
  shows "uint (hdr fdt 8) + uint (hdr fdt 36) \<le> uint (hdr fdt 4)" "uint (hdr fdt 4) < 2147483644"
    "uint (hdr fdt 4) \<le> int (length (fdt_bytes fdt))" "uint (hdr fdt 36) < 2147483596" "48 \<le> uint (hdr fdt 8)"
    "uint (hdr fdt 32) + 48 \<le> uint (hdr fdt 4)" "48 \<le> uint (hdr fdt 8) + uint (hdr fdt 36)"
    "uint (hdr fdt 8) + uint (hdr fdt 36) + uint (hdr fdt 32) \<le> uint (hdr fdt 4)"
proof -
  note inv = assms [unfolded sw_inv_def] and T = fdt_buffer_totalsize [OF sw_inv_buffer [OF assms]]
  show a: "48 \<le> uint (hdr fdt 8)" "uint (hdr fdt 4) < 2147483644" "uint (hdr fdt 4) \<le> int (length (fdt_bytes fdt))"
    using inv T by auto
  show "uint (hdr fdt 8) + uint (hdr fdt 36) \<le> uint (hdr fdt 4)" "uint (hdr fdt 32) + 48 \<le> uint (hdr fdt 4)"
    using inv uint_ge_0 [of "hdr fdt 32"] uint_ge_0 [of "hdr fdt 36"] by linarith+
  then show "uint (hdr fdt 36) < 2147483596"
    using a by linarith
  show "48 \<le> uint (hdr fdt 8) + uint (hdr fdt 36)"
    "uint (hdr fdt 8) + uint (hdr fdt 36) + uint (hdr fdt 32) \<le> uint (hdr fdt 4)"
    using inv uint_ge_0 [of "hdr fdt 36"] by linarith+
qed

text \<open>The part of the invariant that the walk over the structure block needs.\<close>

definition blk_inv :: "fdt \<Rightarrow> bool" where
  "blk_inv fdt \<longleftrightarrow>
     fdt_buffer fdt \<and> hdr fdt 20 = 17 \<and> 48 \<le> uint (hdr fdt 8) \<and> uint (hdr fdt 8) + uint (hdr fdt 36) \<le> uint (hdr fdt 4)"

lemma blk_inv_buffer: "blk_inv fdt \<Longrightarrow> fdt_buffer fdt"
  by (simp add: blk_inv_def)

lemma blk_inv_sizes:
  assumes "blk_inv fdt"
  shows "uint (hdr fdt 8) + uint (hdr fdt 36) \<le> uint (hdr fdt 4)" "uint (hdr fdt 4) < 2147483644"
    "uint (hdr fdt 4) \<le> int (length (fdt_bytes fdt))" "uint (hdr fdt 36) < 2147483596" "48 \<le> uint (hdr fdt 8)"
  using assms fdt_buffer_totalsize [OF blk_inv_buffer [OF assms]] by (auto simp: blk_inv_def)

lemma sw_inv_blk_inv: "blk_inv fdt" if "sw_inv fdt"
  using sw_inv_sizes(1) [OF that] that unfolding sw_inv_def blk_inv_def by blast

lemma blk_offset_ptr:
  assumes "blk_inv fdt" "0 \<le> o'" "o' + uint len \<le> uint (hdr fdt 36)"
  shows "fdt_offset_ptr fdt o' len = Some (Some (uint (hdr fdt 8) + o'))"
proof -
  note buf = blk_inv_buffer [OF assms(1)] and S = blk_inv_sizes [OF assms(1)]
  have v: "hdr fdt 20 = 17" using assms(1) by (simp add: blk_inv_def)
  let ?u = "word_of_int o' :: u32"
  have u: "uint ?u = o'"
    using assms S uint_ge_0 [of len] by (intro uint_u32_of_int) linarith+
  have a: "uint (?u + hdr fdt 8) = o' + uint (hdr fdt 8)"
    using assms S uint_ge_0 [of len] by (intro uint_u32_sum [OF u refl]) linarith
  have b: "uint (?u + hdr fdt 8 + len) = o' + uint (hdr fdt 8) + uint len"
    using assms S by (intro uint_u32_sum [OF a refl]) linarith
  have c: "uint (?u + len) = o' + uint len"
    using assms S by (intro uint_u32_sum [OF u refl]) linarith
  have "\<not> ?u + hdr fdt 8 < ?u" "\<not> ?u + hdr fdt 8 + len < ?u + hdr fdt 8" "\<not> hdr fdt 4 < ?u + hdr fdt 8 + len"
    "\<not> ?u + len < ?u" "\<not> hdr fdt 36 < ?u + len" "\<not> o' < 0"
    using a b c u assms S uint_ge_0 [of len] uint_ge_0 [of "hdr fdt 8"]
    unfolding word_less_def by linarith+
  then show ?thesis
    using buf v by (simp add: fdt_offset_ptr_def fdt_offset_ptr'_def Let_def)
qed

lemma bytes_at_Cons: "bytes_at fdt p (b # bs) \<longleftrightarrow> rd8 fdt p = Some b \<and> bytes_at fdt (p + 1) bs"
  unfolding bytes_at_def by (simp only: list.size add_0_right add_Suc_right All_less_Suc2) (simp add: algebra_simps)

lemma bytes_at_Nil [simp]: "bytes_at fdt p []"
  by (simp add: bytes_at_def)

lemma skip_name_at:
  assumes "blk_inv fdt"
  shows "bytes_at fdt (uint (hdr fdt 8) + o') (name @ [0]) \<Longrightarrow> 0 \<notin> set name \<Longrightarrow> 0 \<le> o'
    \<Longrightarrow> o' + int (length name) + 1 \<le> uint (hdr fdt 36)
    \<Longrightarrow> skip_name fdt o' = Some (Some (o' + int (length name) + 1))"
proof (induction name arbitrary: o')
  case Nil
  have "c_int (o' + 1) = o' + 1"
    using Nil blk_inv_sizes [OF assms] by (intro c_int_id) auto
  then show ?case
    using Nil blk_offset_ptr [OF assms, of o' 1] by (simp add: skip_name.simps bytes_at_Cons)
next
  case (Cons b name)
  have c: "c_int (o' + 1) = o' + 1"
    using Cons.prems blk_inv_sizes [OF assms] by (intro c_int_id) auto
  have "skip_name fdt (o' + 1) = Some (Some (o' + 1 + int (length name) + 1))"
    using Cons.prems by (intro Cons.IH) (auto simp: bytes_at_Cons algebra_simps)
  then show ?case
    using Cons.prems blk_offset_ptr [OF assms, of o' 1] c
    by (subst skip_name.simps) (simp add: bytes_at_Cons algebra_simps)
qed

lemma sint_small_u32: "uint (w :: u32) < 2147483648 \<Longrightarrow> sint w = uint w"
  using c_int_id [of "uint w"] order_trans [OF _ uint_ge_0, of "- (2 ^ 31)" w] by (simp add: sint_uint c_int_def)

lemma length_u32: "int n < 4294967296 \<Longrightarrow> uint (of_nat n :: u32) = int n"
  using uint_u32_of_int [of "int n"] by simp

lemma skip_prop_at:
  assumes "blk_inv fdt" "tok_in N fdt o' (TProp name val) n"
  shows "skip_prop fdt (o' + 4) = Some (Some (o' + 12 + int (length val)))"
proof -
  note S = blk_inv_sizes [OF assms(1)]
  have room: "0 \<le> o'" "o' + 12 + int (length val) \<le> uint (hdr fdt 36)"
    using assms(2) round4_bounds(1) [of "int (length val)"] by auto
  let ?len = "of_nat (length val) :: u32" and ?o = "word_of_int (o' + 4) :: u32"
  have len: "uint ?len = int (length val)"
    using room S by (intro length_u32) linarith
  have u: "uint ?o = o' + 4"
    using room S by (intro uint_u32_of_int) linarith+
  have sum: "uint (?len + ?o) = int (length val) + (o' + 4)"
    using room S by (intro uint_u32_sum [OF len u]) linarith
  have "\<not> (INT_MAX \<le> uint (?len + ?o) \<or> ?len + ?o < ?o)"
    using sum u room S unfolding word_less_def by linarith
  moreover have "fdt_offset_ptr fdt (o' + 4) 4 = Some (Some (uint (hdr fdt 8) + (o' + 4)))"
    using room by (intro blk_offset_ptr [OF assms(1)]) auto
  moreover have "fdt32_ld fdt (uint (hdr fdt 8) + (o' + 4)) = Some ?len"
    using assms(2) by (simp add: add.assoc)
  moreover have "c_int (o' + 4 + (12 - 4) + uint ?len) = o' + 12 + int (length val)"
    using room S len by (subst c_int_id) auto
  moreover have "fdt_version fdt = Some 17"
    using assms(1) by (simp add: blk_inv_def)
  ultimately show ?thesis
    by (simp only: skip_prop_def Let_def option.case bind.bind_lunit if_False) simp
qed

lemma tok_at_head:
  assumes "tok_in N fdt o' t n"
  shows "0 \<le> o' \<and> fdt32_ld fdt (uint (hdr fdt 8) + o') = Some (tag_of t) \<and> o' + 4 \<le> n \<and> n \<le> uint (hdr fdt 36)"
proof (cases t)
  case (TBegin name)
  then show ?thesis using assms round4_bounds(1) [of "int (length name) + 1"] by auto
next
  case (TProp name val)
  then show ?thesis using assms round4_bounds(1) [of "int (length val)"] by auto
qed (use assms in auto)

lemma tok_at_aligned: "tok_in N fdt o' t n \<Longrightarrow> o' mod 4 = 0 \<Longrightarrow> n mod 4 = 0"
proof -
  assume a: "tok_in N fdt o' t n" "o' mod 4 = 0"
  have r: "(o' + 4 * k + round4 x) mod 4 = 0" for k x
    using a(2) round4_mod [of x] by (metis add_0 mod_add_eq mod_mult_self1_is_0 mod_mult_self2)
  show "n mod 4 = 0"
    using a r [of 1] r [of 3] by (cases t) auto
qed

lemma next_tag_step:
  assumes "blk_inv fdt" "fdt32_ld fdt (uint (hdr fdt 8) + o') = Some tag" "0 \<le> o'" "o' + 4 \<le> uint (hdr fdt 36)"
    "skip_tag fdt tag (o' + 4) = Some (Some x)" "o' \<le> x" "x \<le> uint (hdr fdt 36)"
  shows "fdt_next_tag fdt o' = Some (tag, round4 x)"
proof -
  note S = blk_inv_sizes [OF assms(1)]
  have c4: "c_int (o' + 4) = o' + 4"
    using assms(3,4) S by (intro c_int_id) auto
  have "uint (word_of_int (x - o') :: u32) = x - o'"
    using assms S word_of_int_uint_u32 [of "x - o'"] by simp
  then have "fdt_offset_ptr fdt o' (word_of_int (x - o')) = Some (Some (uint (hdr fdt 8) + o'))"
    using assms by (intro blk_offset_ptr [OF assms(1)]) auto
  moreover have "FDT_TAGALIGN x = round4 x"
    using assms S FDT_TAGALIGN_round4 [of x] by simp
  ultimately show ?thesis
    using assms(2-5) c4 blk_offset_ptr [OF assms(1), of o' 4]
    by (simp add: fdt_next_tag_def del: of_int_diff)
qed

lemma next_tag_end:
  assumes "blk_inv fdt" "fdt32_ld fdt (uint (hdr fdt 8) + o') = Some FDT_END" "0 \<le> o'" "o' + 4 \<le> uint (hdr fdt 36)" "o' mod 4 = 0"
  shows "fdt_next_tag fdt o' = Some (FDT_END, o' + 4)"
  using next_tag_step [OF assms(1-4), of "o' + 4"] assms round4_shift [of o' 4] by (simp add: skip_tag_def round4_def)

text \<open>\<^verbatim>\<open>fdt_next_tag\<close> returns the tag of a token and the offset behind it.\<close>

lemma next_tag_at:
  assumes "blk_inv fdt" "tok_in N fdt o' t n" "o' mod 4 = 0"
  shows "fdt_next_tag fdt o' = Some (tag_of t, n)"
proof -
  have o': "0 \<le> o'" "o' + 4 \<le> uint (hdr fdt 36)" "fdt32_ld fdt (uint (hdr fdt 8) + o') = Some (tag_of t)"
    using tok_at_head [OF assms(2)] by linarith+
  note fin = next_tag_step [OF assms(1) o'(3,1,2)]
  show ?thesis
  proof (cases t)
    case (TBegin name)
    let ?x = "o' + 4 + int (length name) + 1"
    have "skip_name fdt (o' + 4) = Some (Some ?x)"
      using assms(2) TBegin round4_bounds(1) [of "int (length name) + 1"]
      by (intro skip_name_at [OF assms(1)]) (auto simp: algebra_simps)
    then have "fdt_next_tag fdt o' = Some (tag_of t, round4 ?x)"
      using assms(2) TBegin round4_bounds(1) [of "int (length name) + 1"] by (intro fin) (auto simp: skip_tag_def)
    moreover have "round4 ?x = n"
      using assms(2,3) TBegin round4_shift [of "o' + 4" "int (length name) + 1"] by (simp add: add.assoc)
    ultimately show ?thesis by simp
  next
    case TEnd
    then show ?thesis
      using assms(2,3) round4_shift [of o' 4] fin [of "o' + 4"] by (simp add: skip_tag_def round4_def)
  next
    case (TProp name val)
    let ?x = "o' + 12 + int (length val)"
    have "skip_prop fdt (o' + 4) = Some (Some ?x)"
      using assms(1,2) TProp by (intro skip_prop_at) auto
    then have "fdt_next_tag fdt o' = Some (tag_of t, round4 ?x)"
      using assms(2) TProp round4_bounds(1) [of "int (length val)"] by (intro fin) (auto simp: skip_tag_def)
    moreover have "(o' + 12) mod 4 = 0"
      using assms(3) by presburger
    then have "round4 ?x = n"
      using assms(2) TProp round4_shift [of "o' + 12" "int (length val)"] by simp
    ultimately show ?thesis by simp
  qed
qed

lemma blob_chr_string:
  "bytes_at fdt p (s @ [c]) \<Longrightarrow> c \<notin> set s \<Longrightarrow> length s < n \<Longrightarrow> blob_chr fdt p c n = Some (Some (p + int (length s)))"
proof (induction s arbitrary: p n)
  case Nil
  then show ?case by (cases n) (auto simp: bytes_at_Cons)
next
  case (Cons b s)
  then obtain m where n: "n = Suc m" "length s < m" by (cases n) auto
  then have "blob_chr fdt (p + 1) c m = Some (Some (p + 1 + int (length s)))"
    using Cons.prems by (intro Cons.IH) (auto simp: bytes_at_Cons)
  then show ?case
    using Cons.prems n by (auto simp: bytes_at_Cons)
qed

lemma sint_neg_offset:
  assumes "uint (- w :: u32) \<le> 2147483647"
  shows "sint w = - uint (- w)"
proof -
  have "sint w = sint (- (- w))" by simp
  also have "\<dots> = signed_take_bit 31 (- uint (- w))"
    by (simp only: sint_uint uint_word_ariths(4)) (simp add: signed_take_bit_eq_iff_take_bit_eq take_bit_eq_mod)
  also have "\<dots> = - uint (- w)"
  proof (rule signed_take_bit_int_eq_self)
    show "- (2 ^ 31) \<le> - uint (- w)" using assms by simp
    show "- uint (- w) < 2 ^ 31" by (rule le_less_trans [of _ 0]) simp_all
  qed
  finally show ?thesis .
qed

text \<open>The name of a property in the string table of the writer.\<close>

lemma get_string_at:
  assumes "sw_inv fdt" "name_at fdt nameoff name" "0 < uint (hdr fdt 36)"
  shows "fdt_get_string fdt (sint nameoff)
    = Some (Inr (uint (hdr fdt 4) - uint (- nameoff), int (length name)))"
proof -
  note inv = assms(1) [unfolded sw_inv_def] and S = sw_inv_sizes [OF assms(1)] and N = assms(2) [unfolded name_at_def]
  let ?k = "uint (- nameoff)" and ?T = "uint (hdr fdt 4)"
  have k: "0 < ?k" "?k + 48 \<le> ?T" using N S by linarith+
  have sk: "sint nameoff = - ?k"
    using N S by (intro sint_neg_offset) linarith
  have abs: "word_of_int (sint nameoff) + hdr fdt 12 = word_of_int (?T - ?k)"
    using inv by (simp add: sk)
  have uabs: "uint (word_of_int (?T - ?k) :: u32) = ?T - ?k"
    using k S by (intro uint_u32_of_int) linarith+
  have probe: "fdt_ro_probe' fdt = Some ?T" "\<not> ?T < 0"
    using inv S assms(3) by (auto simp: fdt_ro_probe'_def word_eq_iff_unsigned)
  have less: "\<not> word_of_int (?T - ?k) \<ge> (word_of_int ?T :: u32)"
    using uabs k by (simp add: word_le_def)
  have len: "word_of_int ?T - word_of_int (?T - ?k) = - nameoff"
    by simp
  have sw: "word_of_int (- sint nameoff) = - nameoff" "\<not> - nameoff > hdr fdt 32" "sint nameoff < 0"
    using N sk k by (auto simp: word_less_def)
  have "length name < unat (- nameoff)"
    using N unfolding uint_nat by linarith
  then have chr: "blob_chr fdt (?T - ?k) 0 (unat (- nameoff)) = Some (Some (?T - ?k + int (length name)))"
    using N by (intro blob_chr_string) auto
  have magic: "fdt_magic fdt = Some FDT_SW_MAGIC" "FDT_SW_MAGIC \<noteq> FDT_MAGIC"
    using inv by auto
  show ?thesis
    unfolding fdt_get_string_def probe bind.bind_lunit Let_def fdt_buffer_hdr [OF sw_inv_buffer [OF assms(1)]] abs
      if_not_P [OF probe(2)] if_not_P [OF less] len
    using sw inv chr uabs magic by simp
qed

text \<open>\<^verbatim>\<open>fdt_getprop_by_offset\<close> on a property token gives its name and its value, where \<^verbatim>\<open>fdt_get_string\<close> finds names.\<close>

definition strings_found :: "(u32 \<Rightarrow> u8 list \<Rightarrow> bool) \<Rightarrow> fdt \<Rightarrow> bool" where
  "strings_found N fdt \<longleftrightarrow>
     (\<forall>off name. N off name \<longrightarrow>
        (\<exists>p. fdt_get_string fdt (sint off) = Some (Inr (p, int (length name))) \<and> bytes_at fdt p (name @ [0])))"

lemma sw_strings_found:
  assumes "sw_inv fdt" "0 < uint (hdr fdt 36)"
  shows "strings_found (name_at fdt) fdt"
  using get_string_at [OF assms(1) _ assms(2)] unfolding strings_found_def by (auto simp: name_at_def)

lemma get_property_at:
  assumes "blk_inv fdt" "tok_in N fdt o' (TProp name val) n" "o' mod 4 = 0"
  shows "fdt_check_prop_offset' fdt o' = Some n"
    "fdt_get_property_by_offset' fdt o' = Some (Inr (uint (hdr fdt 8) + o', int (length val)))"
proof -
  note S = blk_inv_sizes [OF assms(1)] and buf = blk_inv_buffer [OF assms(1)]
  have room: "0 \<le> o'" "o' + 12 + int (length val) \<le> uint (hdr fdt 36)"
    using assms(2) round4_bounds(1) [of "int (length val)"] by auto
  have len: "uint (of_nat (length val) :: u32) = int (length val)"
    using room S by (intro length_u32) linarith
  have slen: "sint (of_nat (length val) :: u32) = int (length val)"
    unfolding sint_uint len using room S by (simp add: signed_take_bit_int_eq_self)
  have n0: "\<not> n < 0" using tok_at_head [OF assms(2)] by linarith
  show "fdt_check_prop_offset' fdt o' = Some n"
    using next_tag_at [OF assms] room assms(3) by (simp add: fdt_check_prop_offset'_def)
  then show "fdt_get_property_by_offset' fdt o' = Some (Inr (uint (hdr fdt 8) + o', int (length val)))"
    using buf assms(2) n0 slen by (simp add: fdt_get_property_by_offset'_def fdt_offset_ptr'_def)
qed

lemma getprop_in:
  assumes "blk_inv fdt" "tok_in N fdt o' (TProp name val) n" "o' mod 4 = 0" "strings_found N fdt"
  shows "\<exists>p q. fdt_getprop_by_offset fdt o' = Some (Inr (q, p, int (length val))) \<and>
    bytes_at fdt p (name @ [0]) \<and> bytes_at fdt q val"
proof -
  obtain nameoff where nm: "fdt32_ld fdt (uint (hdr fdt 8) + o' + 8) = Some nameoff" "N nameoff name"
    using assms(2) by auto
  obtain p where p: "fdt_get_string fdt (sint nameoff) = Some (Inr (p, int (length name)))" "bytes_at fdt p (name @ [0])"
    using assms(4) nm(2) unfolding strings_found_def by blast
  have "fdt_version fdt = Some 17"
    using assms(1) blk_inv_buffer [OF assms(1)] by (simp add: blk_inv_def)
  then have "fdt_getprop_by_offset fdt o' = Some (Inr (uint (hdr fdt 8) + o' + 12, p, int (length val)))"
    using get_property_at [OF assms(1-3)] nm p(1) assms(2) by (simp add: fdt_getprop_by_offset_def prop_data_def)
  then show ?thesis
    using p(2) assms(2) by auto
qed

end
