(* ===== verification/Fdt_Sw_Correct.thy ===== *)
theory Fdt_Sw_Correct
  imports Fdt_Tokens
begin

unbundle bit_operations_syntax

text \<open>
  The writer against its specification: on a blob in the \<^verbatim>\<open>struct\<close> state, \<^verbatim>\<open>fdt_begin_node\<close>,
  \<^verbatim>\<open>fdt_property\<close> and \<^verbatim>\<open>fdt_end_node\<close> append one token or report that there is no room, and keep every token
  that was written before.
\<close>

section \<open>Stores outside the header\<close>

lemma hdr_st_same [fdt_mem]: "fdt32_st fdt p x = Some fdt' \<Longrightarrow> hdr fdt' p = x"
  by (simp add: hdr_def fdt32_ld_st_same)

lemma hdr_st_other [fdt_mem]: "fdt32_st fdt p x = Some fdt' \<Longrightarrow> q + 4 \<le> p \<or> p + 4 \<le> q \<Longrightarrow> hdr fdt' q = hdr fdt q"
  by (simp add: hdr_def fdt32_ld_st_other)

lemma hdr_wr_other: "wr_bytes fdt p bs = Some fdt' \<Longrightarrow> q + 4 \<le> p \<Longrightarrow> hdr fdt' q = hdr fdt q"
  by (simp add: hdr_def fdt32_ld_wr_other)

lemma bytes_at_wr: "wr_bytes fdt p bs = Some fdt' \<Longrightarrow> bytes_at fdt' p bs"
  by (simp add: bytes_at_def rd8_wr_bytes)

lemma bytes_at_wr_other:
  "wr_bytes fdt p bs = Some fdt' \<Longrightarrow> bytes_at fdt q cs \<Longrightarrow> q + int (length cs) \<le> p \<or> p + int (length bs) \<le> q
   \<Longrightarrow> bytes_at fdt' q cs"
  by (auto simp: bytes_at_def rd8_wr_bytes)

lemma fdt_buffer_cong:
  assumes "length (fdt_bytes fdt') = length (fdt_bytes fdt)" "hdr fdt' 4 = hdr fdt 4" "fdt_buffer fdt"
  shows "fdt_buffer fdt'"
proof -
  have "40 \<le> length (fdt_bytes fdt')" using assms by (simp add: fdt_buffer_def)
  then show ?thesis
    using assms fdt_buffer_hdr(2) [OF assms(3)] by (simp add: fdt_buffer_def hdr_fields)
qed

lemma sw_inv_wr:
  assumes "sw_inv fdt" "wr_bytes fdt p bs = Some fdt'" "40 \<le> p"
  shows "sw_inv fdt'"
proof -
  have h: "hdr fdt' k = hdr fdt k" if "k \<le> 36" for k
    using hdr_wr_other [OF assms(2)] that assms(3) by simp
  show ?thesis
    using assms(1) fdt_buffer_cong [OF wr_bytes_length [OF assms(2)] h] wr_bytes_addr [OF assms(2)]
    by (simp add: sw_inv_def h)
qed

text \<open>The room between the structure block and the string table.\<close>

lemma sw_extends_wr:
  assumes "sw_extends fdt fdt1" "wr_bytes fdt1 p bs = Some fdt2" "40 \<le> p"
    "uint (hdr fdt 8) + uint (hdr fdt 36) \<le> p" "p + int (length bs) \<le> uint (hdr fdt 4) - uint (hdr fdt 32)"
  shows "sw_extends fdt fdt2"
proof -
  have h: "hdr fdt2 k = hdr fdt1 k" if "k \<le> 36" for k
    using hdr_wr_other [OF assms(2)] that assms(3) by simp
  have "uint (hdr fdt 8) \<le> p" using assms(4) uint_ge_0 [of "hdr fdt 36"] by linarith
  then show ?thesis
    using assms wr_bytes_length [OF assms(2)] wr_bytes_addr [OF assms(2)]
    by (auto simp: sw_extends_def h rd8_wr_bytes [OF assms(2)])
qed

lemma tag_size_round4:
  assumes "0 \<le> x" "x < 2 ^ 32"
  shows "uint (tag_size x) = round4 x"
proof -
  have "tag_size x = word_of_int (round4 x)"
    by (simp add: tag_size_def round4_def int_and_not_3 add.commute)
  moreover have "0 \<le> round4 x" "round4 x < 2 ^ 64"
    using round4_bounds [of x] assms by simp_all
  ultimately show ?thesis
    by (simp add: uint_word_of_int)
qed

lemma uint_u64_add: "uint (a :: u64) + uint b < 2 ^ 64 \<Longrightarrow> uint (a + b) = uint a + uint b"
  by (simp add: uint_word_ariths)

lemma uint_u64_sum: "uint (a :: u64) = x \<Longrightarrow> uint b = y \<Longrightarrow> x + y < 18446744073709551616 \<Longrightarrow> uint (a + b) = x + y"
  using uint_u64_add [of a b] by simp

lemma uint_u32_diff: "uint (a :: u32) = x \<Longrightarrow> uint b = y \<Longrightarrow> y \<le> x \<Longrightarrow> uint (a - b) = x - y"
  by (simp add: uint_sub_if')

lemma ucast_u32_uint: "uint (w :: u64) < 4294967296 \<Longrightarrow> uint (ucast w :: u32) = uint w"
  by (simp add: unsigned_ucast_eq take_bit_int_eq_self)

section \<open>Grabbing space\<close>

lemma fdt_grab_space_cases:
  assumes "sw_inv fdt" "uint len mod 4 = 0" "uint len < 2 ^ 33"
  obtains "fdt_grab_space' fdt len = Some (None, fdt)"
      "uint (hdr fdt 4) < uint (hdr fdt 8) + uint (hdr fdt 36) + uint len + uint (hdr fdt 32)"
  | fdt' where "fdt_grab_space' fdt len = Some (Some (uint (hdr fdt 8) + uint (hdr fdt 36)), fdt')"
      "sw_inv fdt'" "sw_extends fdt fdt'" "uint (hdr fdt' 36) = uint (hdr fdt 36) + uint len" "hdr fdt' 32 = hdr fdt 32"
      "uint (hdr fdt 8) + uint (hdr fdt 36) + uint len \<le> uint (hdr fdt 4) - uint (hdr fdt 32)"
proof -
  note inv = assms(1) [unfolded sw_inv_def] and S = sw_inv_sizes [OF assms(1)] and buf = sw_inv_buffer [OF assms(1)]
  let ?size = "hdr fdt 36" and ?left = "hdr fdt 4 - hdr fdt 8 - hdr fdt 32"
  have sum3: "uint (hdr fdt 8) + uint ?size + uint (hdr fdt 32) \<le> uint (hdr fdt 4)"
    using inv by blast
  have left: "uint ?left = uint (hdr fdt 4) - uint (hdr fdt 8) - uint (hdr fdt 32)"
    using sum3 uint_ge_0 [of ?size] uint_ge_0 [of "hdr fdt 32"] by (intro uint_u32_diff refl) linarith+
  have sum: "uint (ucast ?size + len) = uint ?size + uint len"
    using assms(3) S by (intro uint_u64_sum) auto
  have nowrap: "\<not> ucast ?size + len < ucast ?size"
    using sum by (simp add: word_less_def)
  show thesis
  proof (cases "ucast ?size + len > ucast ?left")
    case True
    then have "uint (hdr fdt 4) - uint (hdr fdt 8) - uint (hdr fdt 32) < uint ?size + uint len"
      using sum left by (simp add: word_less_def)
    then show thesis using that(1) True buf by (simp add: fdt_grab_space'_def Let_def)
  next
    case False
    then have room: "uint ?size + uint len \<le> uint (hdr fdt 4) - uint (hdr fdt 8) - uint (hdr fdt 32)"
      using sum left by (simp add: word_less_def)
    let ?new = "ucast (ucast ?size + len) :: u32"
    have new: "uint ?new = uint ?size + uint len"
      using room S uint_ge_0 [of "hdr fdt 32"] unfolding sum [symmetric] by (intro ucast_u32_uint) linarith
    obtain fdt' where st: "fdt32_st fdt 36 ?new = Some fdt'"
      using fdt32_st_total [of 36 fdt ?new] buf by (auto simp: fdt_buffer_def)
    have h: "hdr fdt' k = hdr fdt k" if "k \<le> 32" for k
      using hdr_st_other [OF st] that by simp
    have h36: "hdr fdt' 36 = ?new" using hdr_st_same [OF st] .
    have buf': "fdt_buffer fdt'"
      by (rule fdt_buffer_cong [OF fdt32_st_length [OF st] h buf]) simp
    have m4: "(uint ?size + uint len) mod 4 = 0"
      using inv assms(2) by (simp add: mod_add_eq [symmetric])
    have "sw_inv fdt'"
      using inv buf' m4 new room fdt32_st_addr [OF st] by (simp add: sw_inv_def h h36)
    moreover have "sw_extends fdt fdt'"
      using new S(5,6) rd8_st_other [OF st] fdt32_st_length [OF st] fdt32_st_addr [OF st] by (auto simp: sw_extends_def h h36)
    moreover have "sint ?size = uint ?size"
      using S by (intro sint_small_u32) linarith
    ultimately show thesis
      using that(2) [of fdt'] False nowrap buf buf' st new room h h36
      by (simp add: fdt_grab_space'_def Let_def fdt_set_size_dt_struct_def fdt_offset_ptr'_def)
  qed
qed

section \<open>The tokens written so far\<close>

definition sw_toks :: "fdt \<Rightarrow> token list \<Rightarrow> bool" where
  "sw_toks fdt ts \<longleftrightarrow> sw_inv fdt \<and> toks_at fdt 0 ts (uint (hdr fdt 36))"

lemma sw_toks_snoc:
  assumes "sw_toks fdt ts" "sw_inv fdt'" "sw_extends fdt fdt'"
    "tok_at fdt' (uint (hdr fdt 36)) t (uint (hdr fdt' 36))"
  shows "sw_toks fdt' (ts @ [t])"
  using assms toks_at_extends [OF assms(3), of 0 ts] by (auto simp: sw_toks_def toks_in_append)

lemma sw_toks_keep:
  assumes "sw_toks fdt ts" "sw_inv fdt'" "sw_extends fdt fdt'" "hdr fdt' 36 = hdr fdt 36"
  shows "sw_toks fdt' ts"
  using assms toks_at_extends [OF assms(3), of 0 ts] by (auto simp: sw_toks_def)

lemma sw_probe_struct_ok: "sw_inv fdt \<Longrightarrow> fdt_sw_probe_struct' fdt = Some 0"
  by (simp add: sw_inv_def fdt_sw_probe_struct'_def fdt_sw_probe'_def)

text \<open>The free bytes between the structure block and the string table, and the most that a token takes of them.\<close>

definition sw_room :: "fdt \<Rightarrow> int" where
  "sw_room fdt = uint (hdr fdt 4) - (uint (hdr fdt 8) + uint (hdr fdt 36) + uint (hdr fdt 32))"

fun token_cost :: "token \<Rightarrow> int" where
  "token_cost (TBegin name) = 4 + round4 (int (length name) + 1)"
| "token_cost TEnd = 4"
| "token_cost (TProp name val) = 13 + int (length name) + round4 (int (length val))"

lemma token_cost_nonneg: "0 \<le> token_cost t"
proof (cases t)
  case (TBegin name)
  then show ?thesis using round4_bounds(1) [of "int (length name) + 1"] by simp
next
  case (TProp name val)
  then show ?thesis using round4_bounds(1) [of "int (length val)"] by simp
qed simp

lemma sw_room_extends:
  "sw_extends fdt fdt' \<Longrightarrow> sw_room fdt' = sw_room fdt - (uint (hdr fdt' 36) - uint (hdr fdt 36)) - (uint (hdr fdt' 32) - uint (hdr fdt 32))"
  by (simp add: sw_room_def sw_extends_def)

text \<open>What each operation promises: the blob is extended, and no room and the same tokens, or success and one token more.\<close>

definition appends :: "fdt \<Rightarrow> (int \<times> fdt) option \<Rightarrow> token list \<Rightarrow> token \<Rightarrow> bool" where
  "appends fdt r ts t \<longleftrightarrow>
     (case r of
        None \<Rightarrow> False
      | Some (err, fdt') \<Rightarrow> sw_extends fdt fdt' \<and>
          (err = 0 \<and> sw_toks fdt' (ts @ [t]) \<and> sw_room fdt - token_cost t \<le> sw_room fdt'
           \<or> err = - FDT_ERR_NOSPACE \<and> sw_toks fdt' ts \<and> sw_room fdt < token_cost t))"

text \<open>A store into the grabbed room.\<close>

lemma gap_write:
  assumes "sw_inv fdt" "sw_inv fdt1" "sw_extends fdt fdt1"
    "uint (hdr fdt 8) + uint (hdr fdt 36) \<le> p" "p + int (length bs) \<le> uint (hdr fdt 4) - uint (hdr fdt 32)"
  obtains fdt2 where "wr_bytes fdt1 p bs = Some fdt2" "sw_inv fdt2" "sw_extends fdt fdt2"
    "hdr fdt2 8 = hdr fdt 8" "hdr fdt2 4 = hdr fdt 4" "hdr fdt2 36 = hdr fdt1 36" "hdr fdt2 32 = hdr fdt1 32"
proof -
  note S = sw_inv_sizes [OF assms(1)] and S1 = sw_inv_sizes [OF assms(2)]
  have h: "hdr fdt1 8 = hdr fdt 8" "hdr fdt1 4 = hdr fdt 4" using assms(3) by (auto simp: sw_extends_def)
  have p: "40 \<le> p" using assms(4) S by linarith
  obtain fdt2 where wr: "wr_bytes fdt1 p bs = Some fdt2"
    using wr_bytes_total [of p bs fdt1] p assms(5) S1 h uint_ge_0 [of "hdr fdt 32"] by fastforce
  show thesis
    using that [OF wr sw_inv_wr [OF assms(2) wr p] sw_extends_wr [OF assms(3) wr p assms(4,5)]]
      hdr_wr_other [OF wr] p h by simp
qed

lemma gap_store:
  assumes "sw_inv fdt" "sw_inv fdt1" "sw_extends fdt fdt1"
    "uint (hdr fdt 8) + uint (hdr fdt 36) \<le> p" "p + 4 \<le> uint (hdr fdt 4) - uint (hdr fdt 32)"
  obtains fdt2 where "fdt32_st fdt1 p x = Some fdt2" "sw_inv fdt2" "sw_extends fdt fdt2"
    "hdr fdt2 8 = hdr fdt 8" "hdr fdt2 4 = hdr fdt 4" "hdr fdt2 36 = hdr fdt1 36" "hdr fdt2 32 = hdr fdt1 32"
proof -
  have len: "p + int (length (cpu_to_fdt32 x)) \<le> uint (hdr fdt 4) - uint (hdr fdt 32)"
    using assms(5) by (simp add: cpu_to_fdt32_def)
  show thesis
    using gap_write [OF assms(1-4) len] that by (metis fdt32_st_def)
qed

lemma fdt_end_node_appends:
  assumes "sw_toks fdt ts"
  shows "appends fdt (fdt_end_node fdt) ts TEnd"
proof -
  have inv: "sw_inv fdt" using assms by (simp add: sw_toks_def)
  have l: "uint (4 :: size_t) mod 4 = 0" "uint (4 :: size_t) < 2 ^ 33" by simp_all
  from inv l show ?thesis
  proof (cases rule: fdt_grab_space_cases)
    case 1
    then show ?thesis
      using assms inv by (simp add: fdt_end_node_def sw_probed_def sw_probe_struct_ok appends_def sw_room_def)
  next
    case (2 fdt1)
    obtain fdt2 where st: "fdt32_st fdt1 (uint (hdr fdt 8) + uint (hdr fdt 36)) FDT_END_NODE = Some fdt2"
      "sw_inv fdt2" "sw_extends fdt fdt2" "hdr fdt2 8 = hdr fdt 8" "hdr fdt2 36 = hdr fdt1 36" "hdr fdt2 32 = hdr fdt1 32"
      by (rule gap_store [OF inv 2(2,3), of "uint (hdr fdt 8) + uint (hdr fdt 36)" FDT_END_NODE]) (use 2 in auto)
    then have "tok_at fdt2 (uint (hdr fdt 36)) TEnd (uint (hdr fdt2 36))"
      using fdt32_ld_st_same [OF st(1)] 2 by simp
    then have "sw_toks fdt2 (ts @ [TEnd])"
      by (rule sw_toks_snoc [OF assms st(2,3)])
    then show ?thesis
      using 2 st inv by (simp add: fdt_end_node_def sw_probed_def sw_probe_struct_ok appends_def sw_room_extends)
  qed
qed

lemma fdt_begin_node_appends:
  assumes "sw_toks fdt ts" "0 \<notin> set name" "int (length name) < INT_MAX"
  shows "appends fdt (fdt_begin_node fdt name) ts (TBegin name)"
proof -
  have inv: "sw_inv fdt" using assms by (simp add: sw_toks_def)
  let ?k = "int (length name) + 1" and ?nh = "uint (hdr fdt 8) + uint (hdr fdt 36)"
  let ?len = "4 + tag_size ?k"
  have r: "uint (tag_size ?k) = round4 ?k"
    using assms(3) by (intro tag_size_round4) auto
  have len: "uint ?len = 4 + round4 ?k"
    using round4_bounds [of ?k] assms(3) by (intro uint_u64_sum [OF _ r]) auto
  have l: "uint ?len mod 4 = 0" "uint ?len < 2 ^ 33"
    using round4_mod [of ?k] round4_bounds [of ?k] assms(3) unfolding len by (simp_all add: mod_add_eq [symmetric])
  from inv l show ?thesis
  proof (cases rule: fdt_grab_space_cases)
    case 1
    then show ?thesis
      using assms inv len by (simp add: fdt_begin_node_def sw_probed_def sw_probe_struct_ok appends_def sw_room_def)
  next
    case (2 fdt1)
    have room: "?nh + 4 + int (length (name @ [0])) \<le> uint (hdr fdt 4) - uint (hdr fdt 32)"
      using 2(6) len round4_bounds(1) [of ?k] by simp
    obtain fdt2 where st: "fdt32_st fdt1 ?nh FDT_BEGIN_NODE = Some fdt2"
      "sw_inv fdt2" "sw_extends fdt fdt2" "hdr fdt2 8 = hdr fdt 8" "hdr fdt2 36 = hdr fdt1 36" "hdr fdt2 32 = hdr fdt1 32"
      by (rule gap_store [OF inv 2(2,3), of ?nh FDT_BEGIN_NODE]) (use room in auto)
    obtain fdt3 where wr: "wr_bytes fdt2 (?nh + 4) (name @ [0]) = Some fdt3"
      "sw_inv fdt3" "sw_extends fdt fdt3" "hdr fdt3 8 = hdr fdt 8" "hdr fdt3 36 = hdr fdt2 36" "hdr fdt3 32 = hdr fdt2 32"
      by (rule gap_write [OF inv st(2,3), of "?nh + 4" "name @ [0]"]) (use room in auto)
    have "fdt32_ld fdt3 ?nh = Some FDT_BEGIN_NODE"
      using fdt32_ld_wr_other [OF wr(1), of ?nh] fdt32_ld_st_same [OF st(1)] by simp
    then have "tok_at fdt3 (uint (hdr fdt 36)) (TBegin name) (uint (hdr fdt3 36))"
      using bytes_at_wr [OF wr(1)] 2 st wr assms(2) len by simp
    then have "sw_toks fdt3 (ts @ [TBegin name])"
      by (rule sw_toks_snoc [OF assms(1) wr(2,3)])
    then show ?thesis
      using 2 st wr inv len by (simp add: fdt_begin_node_def sw_probed_def sw_probe_struct_ok appends_def sw_room_extends)
  qed
qed

section \<open>The string table\<close>

declare find_string_loop.simps [simp del]

lemma bytes_at_append:
  "bytes_at fdt p (bs @ cs) \<longleftrightarrow> bytes_at fdt p bs \<and> bytes_at fdt (p + int (length bs)) cs"
  by (induction bs arbitrary: p) (auto simp: bytes_at_Cons algebra_simps)

lemma blob_eq_bytes_at: "blob_eq fdt p s = Some True \<Longrightarrow> bytes_at fdt p s"
  by (induction fdt p s rule: blob_eq.induct) (auto simp: bytes_at_Cons bind_eq_Some_conv split: if_splits)

lemma find_string_loop_found:
  assumes "0 \<le> p" "lst + int (length s) + 1 \<le> int (length (fdt_bytes fdt))"
  shows "\<exists>r. find_string_loop fdt lst p s = Some r \<and>
    (\<forall>q. r = Some q \<longrightarrow> p \<le> q \<and> q \<le> lst \<and> bytes_at fdt q (s @ [0]))"
  using assms
proof (induction fdt lst p s rule: find_string_loop.induct)
  case (1 fdt lst p s)
  note unfold = find_string_loop.simps [of fdt lst p s]
  show ?case
  proof (cases "p \<le> lst")
    case False
    then show ?thesis by (simp add: unfold)
  next
    case True
    obtain eq where eq: "blob_eq fdt p s = Some eq"
      using blob_eq_total [of p s fdt] "1.prems" True by auto
    obtain b where b: "rd8 fdt (p + int (length s)) = Some b"
      using rd8_total [of "p + int (length s)" fdt] "1.prems" True by auto
    show ?thesis
    proof (cases "eq \<and> b = 0")
      case found: True
      then have "bytes_at fdt p (s @ [0])"
        using blob_eq_bytes_at [of fdt p s] eq b by (auto simp: bytes_at_append bytes_at_Cons)
      then show ?thesis
        using True found eq b by (simp add: unfold)
    next
      case False
      then have step: "find_string_loop fdt lst p s = find_string_loop fdt lst (p + 1) s"
        using True eq b unfolding unfold by auto
      have "\<exists>r. find_string_loop fdt lst (p + 1) s = Some r \<and>
          (\<forall>q. r = Some q \<longrightarrow> p + 1 \<le> q \<and> q \<le> lst \<and> bytes_at fdt q (s @ [0]))"
        using "1.IH" [OF True eq, of "if eq then b else 1"] False b "1.prems" by (cases eq) simp_all
      then show ?thesis unfolding step by fastforce
    qed
  qed
qed

lemma uint_u32_neg: "uint (w :: u32) = x \<Longrightarrow> x \<le> 2147483647 \<Longrightarrow> sint (- w) = - x"
  using sint_neg_offset [of "- w"] by simp

text \<open>A new string goes below the table, or there is no room above the structure block.\<close>

lemma fdt_add_string_cases:
  assumes "sw_inv fdt" "0 \<notin> set s" "uint (hdr fdt 32) + int (length s) + 1 \<le> uint (hdr fdt 4)"
  obtains "fdt_add_string' fdt s = Some (0, fdt)" "sw_room fdt < int (length s) + 1"
  | fdt' off where "fdt_add_string' fdt s = Some (off, fdt')" "off < 0" "sw_inv fdt'" "sw_extends fdt fdt'"
      "hdr fdt' 36 = hdr fdt 36" "uint (hdr fdt' 32) = uint (hdr fdt 32) + int (length s) + 1"
      "name_at fdt' (word_of_int off) s"
proof -
  note inv = assms(1) [unfolded sw_inv_def] and S = sw_inv_sizes [OF assms(1)] and buf = sw_inv_buffer [OF assms(1)]
  let ?len = "of_nat (length s) + 1 :: u32" and ?T = "uint (hdr fdt 4)" and ?k = "uint (hdr fdt 32) + (int (length s) + 1)"
  have len: "uint ?len = int (length s) + 1"
    using assms(3) S uint_ge_0 [of "hdr fdt 32"] by (intro uint_u32_sum length_u32) (linarith | simp)+
  have off: "uint (hdr fdt 32 + ?len) = ?k"
    using assms(3) S by (intro uint_u32_sum [OF refl len]) linarith
  have left: "uint (hdr fdt 4 - (hdr fdt 32 + ?len)) = ?T - ?k"
    using assms(3) by (intro uint_u32_diff [OF refl off]) linarith
  have top: "uint (hdr fdt 8 + hdr fdt 36) = uint (hdr fdt 8) + uint (hdr fdt 36)"
    using S by (intro uint_u32_sum refl) linarith
  show thesis
  proof (cases "hdr fdt 4 - (hdr fdt 32 + ?len) < hdr fdt 8 + hdr fdt 36")
    case True
    then have "?T - ?k < uint (hdr fdt 8) + uint (hdr fdt 36)"
      unfolding word_less_def left top .
    then show thesis using that(1) True buf by (simp add: fdt_add_string'_def Let_def sw_room_def)
  next
    case False
    then have room: "uint (hdr fdt 8) + uint (hdr fdt 36) \<le> ?T - ?k"
      unfolding word_less_def left top by linarith
    obtain fdt1 where wr: "wr_bytes fdt (?T - ?k) (s @ [0]) = Some fdt1" "sw_inv fdt1" "sw_extends fdt fdt1"
      "hdr fdt1 8 = hdr fdt 8" "hdr fdt1 4 = hdr fdt 4" "hdr fdt1 36 = hdr fdt 36" "hdr fdt1 32 = hdr fdt 32"
      using room by (auto intro: gap_write [OF assms(1,1) sw_extends_refl, of "?T - ?k" "s @ [0]"])
    obtain fdt' where st: "fdt32_st fdt1 32 (hdr fdt 32 + ?len) = Some fdt'"
      using fdt32_st_total [of 32 fdt1] sw_inv_buffer [OF wr(2)] by (auto simp: fdt_buffer_def)
    have h: "hdr fdt' k = hdr fdt1 k" if "k \<le> 28 \<or> k = 36" for k
      using hdr_st_other [OF st] that by auto
    have h32: "hdr fdt' 32 = hdr fdt 32 + ?len" using hdr_st_same [OF st] .
    have buf': "fdt_buffer fdt'"
      by (rule fdt_buffer_cong [OF fdt32_st_length [OF st] h sw_inv_buffer [OF wr(2)]]) simp
    have inv': "sw_inv fdt'"
      using wr(2) buf' off room fdt32_st_addr [OF st] wr(4-7) by (simp add: sw_inv_def h h32)
    have ext: "sw_extends fdt fdt'"
      using wr off S(5,6) rd8_st_other [OF st] h [of 4] h [of 8] h [of 16] h [of 36] fdt32_st_length [OF st] fdt32_st_addr [OF st]
      by (auto simp: sw_extends_def h32)
    have neg: "sint (- (hdr fdt 32 + ?len)) = - ?k"
      using S assms(3) by (intro uint_u32_neg [OF off]) linarith
    have "bytes_at fdt' (?T - ?k) (s @ [0])"
      using bytes_at_wr [OF wr(1)] rd8_st_other [OF st] room S(7) by (auto simp: bytes_at_def)
    then have nm: "name_at fdt' (word_of_int (sint (- (hdr fdt 32 + ?len)))) s"
      using assms(2) off wr(5) h [of 4] by (simp add: name_at_def h32 del: minus_add_distrib)
    have "fdt_add_string' fdt s = Some (sint (- (hdr fdt 32 + ?len)), fdt')"
      using buf False wr st off by (simp add: fdt_add_string'_def Let_def fdt_set_size_dt_strings_def)
    moreover have "sint (- (hdr fdt 32 + ?len)) < 0"
      unfolding neg using uint_ge_0 [of "hdr fdt 32"] by linarith
    ultimately show thesis
      using that(2) [OF _ _ inv' ext _ _ nm] h [of 36] wr(6) off h32 by (simp add: add.assoc)
  qed
qed


text \<open>Whether the name is found or added, its offset names it and the blob is extended.\<close>

definition names :: "fdt \<Rightarrow> u8 list \<Rightarrow> int \<times> bool \<times> fdt \<Rightarrow> bool" where
  "names fdt s = (\<lambda>(off, allocated, fdt').
     off < 0 \<and> sw_inv fdt' \<and> sw_extends fdt fdt' \<and> hdr fdt' 36 = hdr fdt 36 \<and>
     uint (hdr fdt' 32) = uint (hdr fdt 32) + (if allocated then int (length s) + 1 else 0) \<and>
     name_at fdt' (word_of_int off) s)"

lemma fdt_find_add_string_cases:
  assumes "sw_inv fdt" "0 \<notin> set s" "uint (hdr fdt 32) + int (length s) + 1 \<le> uint (hdr fdt 4)"
  obtains "fdt_find_add_string' fdt s = Some (0, True, fdt)" "sw_room fdt < int (length s) + 1"
  | r where "fdt_find_add_string' fdt s = Some r" "names fdt s r"
proof -
  note S = sw_inv_sizes [OF assms(1)] and buf = sw_inv_buffer [OF assms(1)]
  let ?T = "uint (hdr fdt 4)" and ?n = "uint (hdr fdt 32)"
  have sn: "sint (hdr fdt 32) = ?n"
    using S by (intro sint_small_u32) linarith
  obtain r where r: "fdt_find_string_len' fdt (?T - ?n) ?n s = Some r"
      "\<forall>q. r = Some q \<longrightarrow> ?T - ?n \<le> q \<and> q \<le> ?T - (int (length s) + 1) \<and> bytes_at fdt q (s @ [0])"
    using find_string_loop_found [of "?T - ?n" "?T - ?n + ?n - (int (length s) + 1)" s fdt] S
    by (auto simp: fdt_find_string_len'_def)
  show thesis
  proof (cases r)
    case None
    then have add: "fdt_find_add_string' fdt s = do { (offset, fdt) \<leftarrow> fdt_add_string' fdt s; Some (offset, True, fdt) }"
      using buf r(1) sn by (simp add: fdt_find_add_string'_def Let_def)
    show thesis
      by (rule fdt_add_string_cases [OF assms]) (use that in \<open>auto simp: add names_def\<close>)
  next
    case (Some q)
    then have q: "?T - ?n \<le> q" "q \<le> ?T - (int (length s) + 1)" "bytes_at fdt q (s @ [0])"
      using r(2) by auto
    have "- 2147483648 \<le> q - ?T" "q - ?T < 2147483648"
      using q S uint_ge_0 [of "hdr fdt 32"] by linarith+
    then have c: "c_int (q - ?T) = q - ?T"
      by (intro c_int_id) simp_all
    have u: "uint (- word_of_int (q - ?T) :: u32) = ?T - q"
      using uint_u32_of_int [of "?T - q"] q S by simp
    then have "name_at fdt (word_of_int (q - ?T)) s"
      using q assms(2) unfolding name_at_def u by simp
    then show thesis
      using that(2) [of "(q - ?T, False, fdt)"] Some r(1) sn buf c q assms(1)
      by (simp add: fdt_find_add_string'_def Let_def names_def)
  qed
qed

text \<open>The name step of \<^verbatim>\<open>fdt_property_placeholder\<close>, with and without de-duplication.\<close>

definition sw_name :: "fdt \<Rightarrow> u8 list \<Rightarrow> (int \<times> bool \<times> fdt) option" where
  "sw_name fdt name = do {
     flags \<leftarrow> sw_flags fdt;
     if flags AND 1 \<noteq> 0 then do { (nameoff, fdt) \<leftarrow> fdt_add_string' fdt name; Some (nameoff, True, fdt) }
     else fdt_find_add_string' fdt name }"

lemma sw_name_cases:
  assumes "sw_inv fdt" "0 \<notin> set s" "uint (hdr fdt 32) + int (length s) + 1 \<le> uint (hdr fdt 4)"
  obtains "sw_name fdt s = Some (0, True, fdt)" "sw_room fdt < int (length s) + 1"
  | off allocated fdt' where "sw_name fdt s = Some (off, allocated, fdt')" "names fdt s (off, allocated, fdt')"
proof (cases "hdr fdt 24 AND 1 \<noteq> 0")
  case True
  then have add: "sw_name fdt s = do { (offset, fdt) \<leftarrow> fdt_add_string' fdt s; Some (offset, True, fdt) }"
    using sw_inv_buffer [OF assms(1)] by (simp add: sw_name_def sw_flags_def)
  show thesis
    by (rule fdt_add_string_cases [OF assms]) (use that in \<open>auto simp: add names_def\<close>)
next
  case False
  then have "sw_name fdt s = fdt_find_add_string' fdt s"
    using sw_inv_buffer [OF assms(1)] by (simp add: sw_name_def sw_flags_def)
  then show thesis
    using fdt_find_add_string_cases [OF assms] that by (metis prod_cases3)
qed

text \<open>Undoing the addition of a string.\<close>

lemma fdt_del_last_string_undoes:
  assumes "sw_inv fdt" "names fdt s (off, True, fdt1)"
  obtains fdt2 where "fdt_del_last_string' fdt1 s = Some fdt2" "sw_inv fdt2" "sw_extends fdt fdt2" "hdr fdt2 36 = hdr fdt 36"
proof -
  note N = assms(2) [unfolded names_def, simplified]
  have inv1: "sw_inv fdt1" and ext: "sw_extends fdt fdt1" using N by auto
  note S1 = sw_inv_sizes [OF inv1] and buf1 = sw_inv_buffer [OF inv1]
  let ?len = "of_nat (length s) + 1 :: u32"
  have len: "uint ?len = int (length s) + 1"
    using N S1 uint_ge_0 [of "hdr fdt 32"] by (intro uint_u32_sum length_u32) (linarith | simp)+
  have "uint (hdr fdt1 32 - ?len) = uint (hdr fdt1 32) - (int (length s) + 1)"
    using N uint_ge_0 [of "hdr fdt 32"] by (intro uint_u32_diff [OF refl len]) linarith
  then have "uint (hdr fdt1 32 - ?len) = uint (hdr fdt 32)"
    using N by simp
  then have w: "hdr fdt1 32 - ?len = hdr fdt 32"
    by (metis word_of_int_uint)
  obtain fdt2 where st: "fdt32_st fdt1 32 (hdr fdt 32) = Some fdt2"
    using fdt32_st_total [of 32 fdt1] buf1 by (auto simp: fdt_buffer_def)
  have h: "hdr fdt2 k = hdr fdt1 k" if "k \<le> 28 \<or> k = 36" for k
    using hdr_st_other [OF st] that by auto
  have h32: "hdr fdt2 32 = hdr fdt 32" using hdr_st_same [OF st] .
  have buf2: "fdt_buffer fdt2"
    by (rule fdt_buffer_cong [OF fdt32_st_length [OF st] h buf1]) simp
  have "sw_inv fdt2"
    using inv1 assms(1) ext N buf2 fdt32_st_addr [OF st] by (simp add: sw_inv_def sw_extends_def h h32)
  moreover have "sw_extends fdt fdt2"
    using ext sw_inv_sizes(5,6) [OF assms(1)] rd8_st_other [OF st] h [of 4] h [of 8] h [of 16] h [of 36]
      fdt32_st_length [OF st] fdt32_st_addr [OF st]
    by (auto simp: sw_extends_def h32)
  ultimately show thesis
    using that buf1 st w h [of 36] N by (simp add: fdt_del_last_string'_def fdt_set_size_dt_strings_def)
qed


section \<open>Properties\<close>

lemma fdt_property_unfold:
  assumes "sw_inv fdt"
  shows "fdt_property fdt name val = do {
    (nameoff, allocated, fdt) \<leftarrow> sw_name fdt name;
    if nameoff = 0 then Some (- FDT_ERR_NOSPACE, fdt)
    else do {
      (p, fdt) \<leftarrow> fdt_grab_space' fdt (12 + tag_size (int (length val)));
      (case p of
         None \<Rightarrow> do {
           fdt \<leftarrow> (if allocated then fdt_del_last_string' fdt name else Some fdt);
           Some (- FDT_ERR_NOSPACE, fdt) }
       | Some p \<Rightarrow> do {
           fdt \<leftarrow> fdt32_st fdt p FDT_PROP;
           fdt \<leftarrow> fdt32_st fdt (p + 8) (word_of_int nameoff);
           fdt \<leftarrow> fdt32_st fdt (p + 4) (of_nat (length val));
           fdt \<leftarrow> wr_bytes fdt (p + 12) val;
           Some (0, fdt) }) } }"
  using sw_probe_struct_ok [OF assms] sw_inv_buffer [OF assms]
  by (auto simp: fdt_property_def fdt_property_placeholder_def sw_name_def sw_flags_def split: option.splits
      intro!: Option.bind_cong)

lemma prop_stores:
  assumes "sw_inv fdt1" "sw_inv fdt2" "sw_extends fdt1 fdt2" "name_at fdt1 nameoff name"
    "nh = uint (hdr fdt1 8) + uint (hdr fdt1 36)" "nh + 12 + int (length val) \<le> uint (hdr fdt1 4) - uint (hdr fdt1 32)"
    "uint (hdr fdt2 36) = uint (hdr fdt1 36) + (12 + round4 (int (length val)))"
  obtains fdt3 fdt4 fdt5 fdt6 where "fdt32_st fdt2 nh FDT_PROP = Some fdt3" "fdt32_st fdt3 (nh + 8) nameoff = Some fdt4"
    "fdt32_st fdt4 (nh + 4) (of_nat (length val)) = Some fdt5" "wr_bytes fdt5 (nh + 12) val = Some fdt6"
    "sw_inv fdt6" "sw_extends fdt1 fdt6" "tok_at fdt6 (uint (hdr fdt1 36)) (TProp name val) (uint (hdr fdt6 36))"
    "hdr fdt6 32 = hdr fdt2 32" "hdr fdt6 36 = hdr fdt2 36"
proof -
  obtain fdt3 where st3: "fdt32_st fdt2 nh FDT_PROP = Some fdt3" "sw_inv fdt3" "sw_extends fdt1 fdt3" "hdr fdt3 36 = hdr fdt2 36" "hdr fdt3 32 = hdr fdt2 32"
    by (rule gap_store [OF assms(1-3), of nh FDT_PROP]) (use assms in auto)
  obtain fdt4 where st4: "fdt32_st fdt3 (nh + 8) nameoff = Some fdt4" "sw_inv fdt4" "sw_extends fdt1 fdt4" "hdr fdt4 36 = hdr fdt3 36" "hdr fdt4 32 = hdr fdt3 32"
    by (rule gap_store [OF assms(1) st3(2,3), of "nh + 8" nameoff]) (use assms in auto)
  obtain fdt5 where st5: "fdt32_st fdt4 (nh + 4) (of_nat (length val)) = Some fdt5" "sw_inv fdt5" "sw_extends fdt1 fdt5"
      "hdr fdt5 36 = hdr fdt4 36" "hdr fdt5 32 = hdr fdt4 32"
    by (rule gap_store [OF assms(1) st4(2,3), of "nh + 4" "of_nat (length val)"]) (use assms in auto)
  obtain fdt6 where wr: "wr_bytes fdt5 (nh + 12) val = Some fdt6" "sw_inv fdt6" "sw_extends fdt1 fdt6" "hdr fdt6 8 = hdr fdt1 8"
      "hdr fdt6 36 = hdr fdt5 36" "hdr fdt6 32 = hdr fdt5 32"
    by (rule gap_write [OF assms(1) st5(2,3), of "nh + 12" val]) (use assms in auto)
  have "fdt32_ld fdt6 nh = Some FDT_PROP" "fdt32_ld fdt6 (nh + 4) = Some (of_nat (length val))"
      "fdt32_ld fdt6 (nh + 8) = Some nameoff"
    using fdt32_ld_wr_other [OF wr(1)] fdt32_ld_st_other [OF st5(1)] fdt32_ld_st_other [OF st4(1)]
      fdt32_ld_st_same [OF st3(1)] fdt32_ld_st_same [OF st4(1)] fdt32_ld_st_same [OF st5(1)] by simp_all
  moreover have "name_at fdt6 nameoff name"
    by (rule name_at_extends [OF wr(3) assms(4)])
  ultimately have "tok_at fdt6 (uint (hdr fdt1 36)) (TProp name val) (uint (hdr fdt6 36))"
    using assms(5,7) bytes_at_wr [OF wr(1)] wr(4,5) st3(4) st4(4) st5(4) by auto
  then show thesis
    using that st3(1) st4(1) st5(1) wr(1-3) st3(4,5) st4(4,5) st5(4,5) wr(5,6) by (metis (no_types))
qed

lemma fdt_property_appends:
  assumes "sw_toks fdt ts" "0 \<notin> set name" "uint (hdr fdt 32) + int (length name) + 1 \<le> uint (hdr fdt 4)"
    "int (length val) \<le> INT_MAX"
  shows "appends fdt (fdt_property fdt name val) ts (TProp name val)"
proof -
  have inv: "sw_inv fdt" using assms by (simp add: sw_toks_def)
  note unfold = fdt_property_unfold [OF inv, of name val]
  let ?k = "int (length val)"
  let ?len = "12 + tag_size ?k"
  have r: "uint (tag_size ?k) = round4 ?k"
    using assms(4) by (intro tag_size_round4) auto
  have len: "uint ?len = 12 + round4 ?k"
    using round4_bounds [of ?k] assms(4) by (intro uint_u64_sum [OF _ r]) auto
  have l: "uint ?len mod 4 = 0" "uint ?len < 2 ^ 33"
    using round4_mod [of ?k] round4_bounds [of ?k] assms(4) unfolding len by (simp_all add: mod_add_eq [symmetric])
  from inv assms(2,3) show ?thesis
  proof (cases rule: sw_name_cases)
    case 1
    then show ?thesis using assms(1) round4_bounds(1) [of ?k] by (simp add: unfold appends_def)
  next
    case (2 off allocated fdt1)
    note N = 2(2) [unfolded names_def, simplified]
    have inv1: "sw_inv fdt1" and toks1: "sw_toks fdt1 ts"
      using N sw_toks_keep [OF assms(1)] by auto
    have r1: "sw_room fdt - (int (length name) + 1) \<le> sw_room fdt1"
      using N sw_room_extends [of fdt fdt1] by simp
    from inv1 l show ?thesis
    proof (cases rule: fdt_grab_space_cases)
      case noroom: 1
      have full: "sw_room fdt < 13 + int (length name) + round4 ?k"
        using r1 noroom(2) len by (simp add: sw_room_def)
      show ?thesis
      proof (cases allocated)
        case True
        then obtain fdt2 where "fdt_del_last_string' fdt1 name = Some fdt2" "sw_inv fdt2" "sw_extends fdt fdt2"
            "hdr fdt2 36 = hdr fdt 36"
          using fdt_del_last_string_undoes [OF inv, of name off fdt1] 2(2) by auto
        then show ?thesis
          using 2 N noroom True full sw_toks_keep [OF assms(1)] by (simp add: unfold appends_def)
      next
        case False
        then show ?thesis
          using 2 N noroom full toks1 by (simp add: unfold appends_def)
      qed
    next
      case room: (2 fdt2)
      have "uint (hdr fdt1 8) + uint (hdr fdt1 36) + 12 + ?k \<le> uint (hdr fdt1 4) - uint (hdr fdt1 32)"
        using room(6) len round4_bounds(1) [of ?k] by simp
      then obtain fdt3 fdt4 fdt5 fdt6 where st:
          "fdt32_st fdt2 (uint (hdr fdt1 8) + uint (hdr fdt1 36)) FDT_PROP = Some fdt3"
          "fdt32_st fdt3 (uint (hdr fdt1 8) + uint (hdr fdt1 36) + 8) (word_of_int off) = Some fdt4"
          "fdt32_st fdt4 (uint (hdr fdt1 8) + uint (hdr fdt1 36) + 4) (of_nat (length val)) = Some fdt5"
          "wr_bytes fdt5 (uint (hdr fdt1 8) + uint (hdr fdt1 36) + 12) val = Some fdt6" "sw_inv fdt6" "sw_extends fdt1 fdt6"
          "tok_at fdt6 (uint (hdr fdt1 36)) (TProp name val) (uint (hdr fdt6 36))" "hdr fdt6 32 = hdr fdt2 32" "hdr fdt6 36 = hdr fdt2 36"
        using N room(4) by (auto intro: prop_stores [OF inv1 room(2,3) _ refl, of "word_of_int off" name val] simp: len)
      have "sw_toks fdt6 (ts @ [TProp name val])"
        by (rule sw_toks_snoc [OF toks1 st(5-7)])
      moreover have "sw_extends fdt fdt6" using N st(6) sw_extends_trans by blast
      moreover have "sw_room fdt6 = sw_room fdt1 - (12 + round4 ?k)"
        using sw_room_extends [OF st(6)] st(8,9) room(4,5) len by simp
      ultimately show ?thesis
        using 2 N room(1) st(1-4) r1 by (simp add: unfold appends_def)
    qed
  qed
qed

end
