(* ===== verification/Fdt_Sw_Props.thy ===== *)
theory Fdt_Sw_Props
  imports Fdt_Sw_Correct
begin

unbundle bit_operations_syntax

text \<open>
  The sequential writer as a whole: starting a blob, writing a sequence of tokens, and reading them back
  with the read functions.
\<close>

section \<open>Starting a blob\<close>

text \<open>A store into a header field.\<close>

lemma hdr_store:
  assumes "40 \<le> length (fdt_bytes fdt)" "0 \<le> p" "p \<le> 36"
  obtains fdt' where "fdt32_st fdt p x = Some fdt'" "length (fdt_bytes fdt') = length (fdt_bytes fdt)"
    "fdt_addr fdt' = fdt_addr fdt" "hdr fdt' p = x" "\<And>q. q + 4 \<le> p \<or> p + 4 \<le> q \<Longrightarrow> hdr fdt' q = hdr fdt q"
proof -
  obtain fdt' where st: "fdt32_st fdt p x = Some fdt'"
    using fdt32_st_total [of p fdt x] assms by auto
  show thesis
    by (rule that [OF st fdt32_st_length [OF st] fdt32_st_addr [OF st] hdr_st_same [OF st] hdr_st_other [OF st]])
qed

lemma hdr_zero:
  assumes "wr_bytes fdt 0 (replicate n 0) = Some fdt'" "0 \<le> q" "q + 4 \<le> int n"
  shows "hdr fdt' q = 0"
proof -
  have "rd8 fdt' (q + k) = Some 0" if "0 \<le> k" "k < 4" for k
    using rd8_wr_bytes [OF assms(1), of "q + k"] that assms(2,3) by (simp add: nat_less_iff)
  from this [of 0] this [of 1] this [of 2] this [of 3] show ?thesis
    by (simp add: hdr_def fdt32_ld_def fdt32_to_cpu_def)
qed

lemma fdt_create_with_flags_ok:
  assumes "48 \<le> bufsize" "bufsize < 2 ^ 31" "bufsize \<le> int (length (fdt_bytes buf))" "flags AND NOT 1 = 0"
  obtains fdt where "fdt_create_with_flags buf bufsize flags = Some (0, fdt)"
    "length (fdt_bytes fdt) = length (fdt_bytes buf)" "fdt_addr fdt = fdt_addr buf"
    "hdr fdt 0 = FDT_SW_MAGIC" "uint (hdr fdt 4) = bufsize" "hdr fdt 8 = 48" "hdr fdt 12 = 0" "hdr fdt 16 = 48"
    "hdr fdt 20 = 17" "hdr fdt 24 = flags" "hdr fdt 32 = 0" "hdr fdt 36 = 0"
proof -
  obtain f0 where f0: "wr_bytes buf 0 (replicate (nat bufsize) 0) = Some f0"
    using wr_bytes_total [of 0 "replicate (nat bufsize) 0" buf] assms by auto
  have l0: "length (fdt_bytes f0) = length (fdt_bytes buf)" "fdt_addr f0 = fdt_addr buf"
    using wr_bytes_length [OF f0] wr_bytes_addr [OF f0] by auto
  have z: "hdr f0 32 = 0" "hdr f0 36 = 0"
    using hdr_zero [OF f0] assms(1) by auto
  have len: "40 \<le> length (fdt_bytes buf)" using assms by linarith
  obtain f1 where f1: "fdt32_st f0 0 FDT_SW_MAGIC = Some f1" "length (fdt_bytes f1) = length (fdt_bytes buf)"
    "fdt_addr f1 = fdt_addr buf" "hdr f1 0 = FDT_SW_MAGIC" "\<And>q. q + 4 \<le> 0 \<or> 0 + 4 \<le> q \<Longrightarrow> hdr f1 q = hdr f0 q"
    by (rule hdr_store [of f0 0 FDT_SW_MAGIC]) (use len l0 in auto)
  obtain f2 where f2: "fdt32_st f1 20 17 = Some f2" "length (fdt_bytes f2) = length (fdt_bytes buf)"
    "fdt_addr f2 = fdt_addr buf" "hdr f2 20 = 17" "\<And>q. q + 4 \<le> 20 \<or> 20 + 4 \<le> q \<Longrightarrow> hdr f2 q = hdr f1 q"
    by (rule hdr_store [of f1 20 17]) (use len f1 in auto)
  obtain f3 where f3: "fdt32_st f2 24 flags = Some f3" "length (fdt_bytes f3) = length (fdt_bytes buf)"
    "fdt_addr f3 = fdt_addr buf" "hdr f3 24 = flags" "\<And>q. q + 4 \<le> 24 \<or> 24 + 4 \<le> q \<Longrightarrow> hdr f3 q = hdr f2 q"
    by (rule hdr_store [of f2 24 flags]) (use len f2 in auto)
  obtain f4 where f4: "fdt32_st f3 4 (word_of_int bufsize) = Some f4" "length (fdt_bytes f4) = length (fdt_bytes buf)"
    "fdt_addr f4 = fdt_addr buf" "hdr f4 4 = word_of_int bufsize" "\<And>q. q + 4 \<le> 4 \<or> 4 + 4 \<le> q \<Longrightarrow> hdr f4 q = hdr f3 q"
    by (rule hdr_store [of f3 4 "word_of_int bufsize"]) (use len f3 in auto)
  obtain f5 where f5: "fdt32_st f4 16 48 = Some f5" "length (fdt_bytes f5) = length (fdt_bytes buf)"
    "fdt_addr f5 = fdt_addr buf" "hdr f5 16 = 48" "\<And>q. q + 4 \<le> 16 \<or> 16 + 4 \<le> q \<Longrightarrow> hdr f5 q = hdr f4 q"
    by (rule hdr_store [of f4 16 48]) (use len f4 in auto)
  obtain f6 where f6: "fdt32_st f5 8 48 = Some f6" "length (fdt_bytes f6) = length (fdt_bytes buf)"
    "fdt_addr f6 = fdt_addr buf" "hdr f6 8 = 48" "\<And>q. q + 4 \<le> 8 \<or> 8 + 4 \<le> q \<Longrightarrow> hdr f6 q = hdr f5 q"
    by (rule hdr_store [of f5 8 48]) (use len f5 in auto)
  obtain f7 where f7: "fdt32_st f6 12 0 = Some f7" "length (fdt_bytes f7) = length (fdt_bytes buf)"
    "fdt_addr f7 = fdt_addr buf" "hdr f7 12 = 0" "\<And>q. q + 4 \<le> 12 \<or> 12 + 4 \<le> q \<Longrightarrow> hdr f7 q = hdr f6 q"
    by (rule hdr_store [of f6 12 0]) (use len f6 in auto)
  have rsv: "fdt_off_mem_rsvmap f5 = Some 48"
    using hdr_fields(5) [of f5] f5(2,4) len by simp
  have run: "fdt_create_with_flags buf bufsize flags = Some (0, f7)"
    using assms(1,4) f0 f1(1) f2(1) f3(1) f4(1) f5(1) f6(1) f7(1) rsv
    by (simp add: fdt_create_with_flags_def fdt_set_defs)
  have "uint (word_of_int bufsize :: u32) = bufsize"
    using assms(1,2) by (intro uint_u32_of_int) auto
  then show thesis
    using that [OF run f7(2,3)] f1(4) f2(4) f3(4) f4(4) f5(4) f6(4) f7(4) z
      f1(5) f2(5) f3(5) f4(5) f5(5) f6(5) f7(5) by simp
qed

text \<open>The state of the writer between \<^verbatim>\<open>fdt_create\<close> and \<^verbatim>\<open>fdt_finish_reservemap\<close>.\<close>

definition rsv_inv :: "fdt \<Rightarrow> bool" where
  "rsv_inv fdt \<longleftrightarrow>
     fdt_buffer fdt \<and> fdt_addr fdt AND 7 = 0 \<and> hdr fdt 0 = FDT_SW_MAGIC \<and> hdr fdt 20 = 17 \<and> hdr fdt 12 = 0 \<and>
     hdr fdt 32 = 0 \<and> hdr fdt 36 = 0 \<and> 48 \<le> uint (hdr fdt 8) \<and> uint (hdr fdt 8) \<le> uint (hdr fdt 4)"

lemma fdt_create_rsv_inv:
  assumes "48 \<le> bufsize" "bufsize \<le> int (length (fdt_bytes buf))" "length (fdt_bytes buf) < 2 ^ 31 - 4"
    "flags AND NOT 1 = 0" "fdt_addr buf AND 7 = 0"
  obtains fdt where "fdt_create_with_flags buf bufsize flags = Some (0, fdt)" "rsv_inv fdt"
    "hdr fdt 8 = 48" "uint (hdr fdt 4) = bufsize" "hdr fdt 16 = 48"
    "fdt_addr fdt = fdt_addr buf" "length (fdt_bytes fdt) = length (fdt_bytes buf)"
proof -
  have b: "bufsize < 2 ^ 31" using assms by simp
  obtain fdt where c: "fdt_create_with_flags buf bufsize flags = Some (0, fdt)"
    "length (fdt_bytes fdt) = length (fdt_bytes buf)" "fdt_addr fdt = fdt_addr buf"
    "hdr fdt 0 = FDT_SW_MAGIC" "uint (hdr fdt 4) = bufsize" "hdr fdt 8 = 48" "hdr fdt 12 = 0"
    "hdr fdt 16 = 48" "hdr fdt 20 = 17" "hdr fdt 32 = 0" "hdr fdt 36 = 0"
    by (rule fdt_create_with_flags_ok [OF assms(1) b assms(2,4)])
  have "fdt_buffer fdt"
    using assms(1-3) c(2,5) hdr_fields(2) [of fdt] unat_eq_nat_uint [of "hdr fdt 4"] by (simp add: fdt_buffer_def nat_le_iff)
  then show thesis
    using that [OF c(1) _ c(6,5)] c assms by (simp add: rsv_inv_def)
qed

lemma fdt64_st_ld:
  assumes "fdt64_st fdt p x = Some fdt'"
  shows "fdt64_ld fdt' p = Some x"
proof -
  have hi: "fdt32_ld fdt' p = Some (ucast (drop_bit 32 x))" and lo: "fdt32_ld fdt' (p + 4) = Some (ucast x)"
    using fdt32_ld_wr_same [OF assms [unfolded fdt64_st_def], of "[]" "ucast (drop_bit 32 x)" "cpu_to_fdt32 (ucast x)"]
      fdt32_ld_wr_same [OF assms [unfolded fdt64_st_def], of "cpu_to_fdt32 (ucast (drop_bit 32 x))" "ucast x" "[]"]
    by (simp_all add: cpu_to_fdt64_def)
  have "push_bit 32 (ucast (ucast (drop_bit 32 x) :: u32)) OR ucast (ucast x :: u32) = x"
    by (auto simp: bit_eq_iff bit_simps)
  then show ?thesis
    using hi lo by (simp add: fdt64_ld_def)
qed

lemma fdt64_ld_wr_other:
  "wr_bytes fdt p bs = Some fdt' \<Longrightarrow> q + 8 \<le> p \<or> p + int (length bs) \<le> q \<Longrightarrow> fdt64_ld fdt' q = fdt64_ld fdt q"
  using fdt32_ld_wr_other [of fdt p bs fdt' q] fdt32_ld_wr_other [of fdt p bs fdt' "q + 4"] by (auto simp: fdt64_ld_def)

text \<open>An entry is written behind those before it, or there is no room for it.\<close>

lemma fdt_add_reservemap_entry_cases:
  assumes "rsv_inv fdt"
  obtains "fdt_add_reservemap_entry fdt addr sz = Some (- FDT_ERR_NOSPACE, fdt)" "uint (hdr fdt 4) < uint (hdr fdt 8) + 16"
  | fdt' where "fdt_add_reservemap_entry fdt addr sz = Some (0, fdt')" "rsv_inv fdt'"
      "uint (hdr fdt' 8) = uint (hdr fdt 8) + 16" "hdr fdt' 4 = hdr fdt 4" "hdr fdt' 16 = hdr fdt 16"
      "fdt64_ld fdt' (uint (hdr fdt 8)) = Some addr" "fdt64_ld fdt' (uint (hdr fdt 8) + 8) = Some sz"
      "\<And>q. 40 \<le> q \<Longrightarrow> q < uint (hdr fdt 8) \<Longrightarrow> rd8 fdt' q = rd8 fdt q"
      "fdt_addr fdt' = fdt_addr fdt" "length (fdt_bytes fdt') = length (fdt_bytes fdt)"
proof -
  note inv = assms [unfolded rsv_inv_def]
  have buf: "fdt_buffer fdt" using inv by blast
  note T = fdt_buffer_totalsize [OF buf]
  let ?re = "uint (hdr fdt 8)"
  have re: "sint (hdr fdt 8) = ?re"
    using inv T by (intro sint_small_u32) simp
  have sc: "(scast (hdr fdt 8) :: u64) = ucast (hdr fdt 8)"
    using arg_cong [OF re, of "word_of_int :: int \<Rightarrow> u64"] by simp
  have probe: "fdt_sw_probe_memrsv' fdt = Some 0"
    using inv by (simp add: fdt_sw_probe_memrsv'_def fdt_sw_probe'_def)
  have sum: "uint (word_of_int ?re + 16 :: u64) = ?re + 16"
    using inv T by (intro uint_u64_sum) (simp_all add: uint_word_of_int)
  show thesis
  proof (cases "(word_of_int ?re + 16 :: size_t) > ucast (hdr fdt 4)")
    case True
    then show thesis
      using that(1) buf probe sc sum by (simp add: fdt_add_reservemap_entry_def sw_probed_def word_less_def)
  next
    case False
    then have room: "?re + 16 \<le> uint (hdr fdt 4)"
      using sum by (simp add: word_less_def)
    obtain f1 where f1: "wr_bytes fdt ?re (cpu_to_fdt64 addr) = Some f1"
      using wr_bytes_total [of ?re "cpu_to_fdt64 addr" fdt] T room by auto
    obtain f2 where f2: "wr_bytes f1 (?re + 8) (cpu_to_fdt64 sz) = Some f2"
      using wr_bytes_total [of "?re + 8" "cpu_to_fdt64 sz" f1] T room wr_bytes_length [OF f1] by auto
    have len: "length (fdt_bytes f2) = length (fdt_bytes fdt)" "fdt_addr f2 = fdt_addr fdt"
      using wr_bytes_length [OF f2] wr_bytes_length [OF f1] wr_bytes_addr [OF f2] wr_bytes_addr [OF f1] by auto
    obtain f3 where f3: "fdt32_st f2 8 (hdr fdt 8 + 16) = Some f3"
      using fdt32_st_total [of 8 f2] len buf by (auto simp: fdt_buffer_def)
    have h: "hdr f3 q = hdr fdt q" if "q + 4 \<le> 8 \<or> 12 \<le> q \<and> q \<le> 36" for q
      using hdr_st_other [OF f3] hdr_wr_other [OF f2] hdr_wr_other [OF f1] that inv by auto
    have h8: "uint (hdr f3 8) = ?re + 16"
      unfolding hdr_st_same [OF f3] using room T by (intro uint_u32_sum) auto
    have rd: "rd8 f3 q = rd8 f2 q" if "12 \<le> q" for q
      using rd8_st_other [OF f3] that by simp
    have ld: "fdt64_ld f3 q = fdt64_ld f2 q" if "12 \<le> q" for q
      using that by (auto simp: fdt64_ld_def intro!: Option.bind_cong fdt32_ld_cong rd)
    have "fdt_buffer f3"
      by (rule fdt_buffer_cong [OF _ _ buf]) (use len fdt32_st_length [OF f3] h in auto)
    then have "rsv_inv f3"
      using inv h h8 room len fdt32_st_addr [OF f3] by (simp add: rsv_inv_def)
    moreover have "fdt_add_reservemap_entry fdt addr sz = Some (0, f3)"
      using buf probe re sc False f1 f2 f3
      by (simp add: fdt_add_reservemap_entry_def sw_probed_def fdt64_st_def fdt_set_defs)
    moreover have "fdt64_ld f3 ?re = Some addr" "fdt64_ld f3 (?re + 8) = Some sz"
      using ld [of ?re] ld [of "?re + 8"] inv fdt64_ld_wr_other [OF f2, of ?re]
        fdt64_st_ld [of fdt ?re addr f1] fdt64_st_ld [of f1 "?re + 8" sz f2] f1 f2 by (simp_all add: fdt64_st_def)
    ultimately show thesis
      using that(2) h [of 4] h [of 16] h8 rd rd8_wr_bytes_other [OF f2] rd8_wr_bytes_other [OF f1] len fdt32_st_length [OF f3]
        fdt32_st_addr [OF f3] by simp
  qed
qed

lemma fdt_finish_reservemap_starts:
  assumes "rsv_inv fdt"
  obtains "fdt_finish_reservemap fdt = Some (- FDT_ERR_NOSPACE, fdt)" "uint (hdr fdt 4) < uint (hdr fdt 8) + 16"
  | fdt' where "fdt_finish_reservemap fdt = Some (0, fdt')" "sw_toks fdt' []" "uint (hdr fdt' 8) = uint (hdr fdt 8) + 16"
      "hdr fdt' 16 = hdr fdt 16" "fdt64_ld fdt' (uint (hdr fdt 8) + 8) = Some 0" "sw_room fdt' = uint (hdr fdt 4) - uint (hdr fdt 8) - 16"
      "\<And>q. 40 \<le> q \<Longrightarrow> q < uint (hdr fdt 8) \<Longrightarrow> rd8 fdt' q = rd8 fdt q"
      "fdt_addr fdt' = fdt_addr fdt" "length (fdt_bytes fdt') = length (fdt_bytes fdt)"
      "hdr fdt' 4 = hdr fdt 4"
proof (cases rule: fdt_add_reservemap_entry_cases [OF assms, of 0 0])
  case 1
  then show thesis using that(1) by (simp add: fdt_finish_reservemap_def)
next
  case (2 f1)
  note inv = 2(2) [unfolded rsv_inv_def]
  have buf: "fdt_buffer f1" using inv by blast
  obtain f2 where f2: "fdt32_st f1 12 (hdr f1 4) = Some f2" "length (fdt_bytes f2) = length (fdt_bytes f1)"
    "fdt_addr f2 = fdt_addr f1" "hdr f2 12 = hdr f1 4" "\<And>q. q + 4 \<le> 12 \<or> 12 + 4 \<le> q \<Longrightarrow> hdr f2 q = hdr f1 q"
    by (rule hdr_store [of f1 12 "hdr f1 4"]) (use buf in \<open>auto simp: fdt_buffer_def\<close>)
  have "fdt_buffer f2"
    by (rule fdt_buffer_cong [OF f2(2) _ buf]) (use f2(5) in auto)
  then have "sw_toks f2 []"
    using inv f2 by (simp add: sw_toks_def sw_inv_def)
  moreover have "fdt_finish_reservemap fdt = Some (0, f2)"
    using 2(1) buf f2(1) by (simp add: fdt_finish_reservemap_def fdt_set_defs)
  moreover have rd: "rd8 f2 q = rd8 f1 q" if "40 \<le> q" for q
    using rd8_st_other [OF f2(1)] that by simp
  moreover have "fdt64_ld f2 (uint (hdr fdt 8) + 8) = Some 0"
    using 2(7) rd assms by (auto simp: rsv_inv_def fdt64_ld_def fdt32_ld_def)
  moreover have "sw_room f2 = uint (hdr fdt 4) - uint (hdr fdt 8) - 16"
    using inv 2(3,4) f2(5) by (simp add: sw_room_def)
  ultimately show thesis
    using that(2) 2(3-5,8-10) f2(2,3,5) by simp
qed


section \<open>Writing a sequence of tokens\<close>

definition write_token :: "fdt \<Rightarrow> token \<Rightarrow> (int \<times> fdt) option" where
  "write_token fdt t =
     (case t of
        TBegin name \<Rightarrow> fdt_begin_node fdt name
      | TProp name val \<Rightarrow> fdt_property fdt name val
      | TEnd \<Rightarrow> fdt_end_node fdt)"

text \<open>The calls of a client that stops at the first error.\<close>

fun write_tokens :: "fdt \<Rightarrow> token list \<Rightarrow> (int \<times> fdt) option" where
  "write_tokens fdt [] = Some (0, fdt)"
| "write_tokens fdt (t # ts) = do {
     (err, fdt) \<leftarrow> write_token fdt t;
     if err \<noteq> 0 then Some (err, fdt) else write_tokens fdt ts }"

text \<open>Names are C strings; a property name has at most 47 bytes (the devicetree specification allows 31).\<close>

fun token_ok :: "token \<Rightarrow> bool" where
  "token_ok (TBegin name) \<longleftrightarrow> 0 \<notin> set name \<and> int (length name) < INT_MAX"
| "token_ok (TProp name val) \<longleftrightarrow> 0 \<notin> set name \<and> length name < 48 \<and> int (length val) \<le> INT_MAX"
| "token_ok TEnd \<longleftrightarrow> True"

lemma write_token_appends:
  assumes "sw_toks fdt ts" "token_ok t"
  shows "appends fdt (write_token fdt t) ts t"
proof (cases t)
  case (TProp name val)
  have "uint (hdr fdt 32) + int (length name) + 1 \<le> uint (hdr fdt 4)"
    using assms TProp sw_inv_sizes(6) [of fdt] by (simp add: sw_toks_def)
  then show ?thesis
    using assms TProp by (simp add: write_token_def fdt_property_appends)
qed (use assms fdt_begin_node_appends fdt_end_node_appends in \<open>simp_all add: write_token_def\<close>)

lemma write_tokens_appends:
  assumes "sw_toks fdt us" "\<forall>t \<in> set ts. token_ok t"
  shows "\<exists>err fdt' n. write_tokens fdt ts = Some (err, fdt') \<and> sw_toks fdt' (us @ take n ts) \<and> sw_extends fdt fdt' \<and>
    (err = 0 \<and> n = length ts \<and> sw_room fdt - sum_list (map token_cost ts) \<le> sw_room fdt'
     \<or> err = - FDT_ERR_NOSPACE \<and> n < length ts \<and> sw_room fdt < sum_list (map token_cost ts))"
  using assms
proof (induction ts arbitrary: fdt us)
  case (Cons t ts)
  have nns: "0 \<le> sum_list (map token_cost ts)" by (intro sum_list_nonneg) (auto simp: token_cost_nonneg)
  from Cons.prems write_token_appends [of fdt us t]
  consider fdt' where "write_token fdt t = Some (- FDT_ERR_NOSPACE, fdt')" "sw_toks fdt' us" "sw_extends fdt fdt'" "sw_room fdt < token_cost t"
    | fdt' where "write_token fdt t = Some (0, fdt')" "sw_toks fdt' (us @ [t])" "sw_extends fdt fdt'" "sw_room fdt - token_cost t \<le> sw_room fdt'"
    by (auto simp: appends_def split: option.splits prod.splits)
  then show ?case
  proof cases
    case 1
    then show ?thesis using nns by (intro exI [of _ "- FDT_ERR_NOSPACE"] exI [of _ fdt'] exI [of _ 0]) simp
  next
    case (2 fdt')
    then obtain err fdt2 n where "write_tokens fdt' ts = Some (err, fdt2)" "sw_toks fdt2 ((us @ [t]) @ take n ts)" "sw_extends fdt' fdt2"
        "err = 0 \<and> n = length ts \<and> sw_room fdt' - sum_list (map token_cost ts) \<le> sw_room fdt2
         \<or> err = - FDT_ERR_NOSPACE \<and> n < length ts \<and> sw_room fdt' < sum_list (map token_cost ts)"
      using Cons.IH [of fdt' "us @ [t]"] Cons.prems by auto
    then show ?thesis
      using 2 sw_extends_trans [of fdt fdt' fdt2] by (intro exI [of _ err] exI [of _ fdt2] exI [of _ "Suc n"]) auto
  qed
qed simp

text \<open>The readers see the tokens: the walk with \<^verbatim>\<open>fdt_next_tag\<close>, and \<^verbatim>\<open>fdt_getprop_by_offset\<close> on properties.\<close>

fun reads :: "fdt \<Rightarrow> int \<Rightarrow> token list \<Rightarrow> int \<Rightarrow> bool" where
  "reads fdt o' [] e \<longleftrightarrow> e = o'"
| "reads fdt o' (t # ts) e \<longleftrightarrow>
     (\<exists>n. fdt_next_tag fdt o' = Some (tag_of t, n) \<and>
        (case t of
           TBegin name \<Rightarrow> \<exists>p. fdt_offset_ptr' fdt o' = Some p \<and> bytes_at fdt (p + 4) (name @ [0])
         | TEnd \<Rightarrow> True
         | TProp name val \<Rightarrow>
             \<exists>p q. fdt_getprop_by_offset fdt o' = Some (Inr (q, p, int (length val))) \<and>
               bytes_at fdt p (name @ [0]) \<and> bytes_at fdt q val) \<and>
        reads fdt n ts e)"

lemma toks_in_reads:
  assumes "blk_inv fdt" "strings_found N fdt"
  shows "toks_in N fdt o' ts n \<Longrightarrow> o' mod 4 = 0 \<Longrightarrow> reads fdt o' ts n"
proof (induction ts arbitrary: o')
  case (Cons t ts)
  then obtain m where m: "tok_in N fdt o' t m" "toks_in N fdt m ts n" by auto
  have "reads fdt m ts n"
    using Cons.prems m tok_at_aligned [OF m(1)] by (intro Cons.IH) auto
  moreover have "fdt_next_tag fdt o' = Some (tag_of t, m)"
    using Cons.prems m assms(1) by (intro next_tag_at)
  moreover have "\<exists>p. fdt_offset_ptr' fdt o' = Some p \<and> bytes_at fdt (p + 4) (name @ [0])" if "t = TBegin name" for name
    using m that blk_inv_buffer [OF assms(1)] by (auto simp: fdt_offset_ptr'_def)
  moreover have "\<exists>p q. fdt_getprop_by_offset fdt o' = Some (Inr (q, p, int (length val))) \<and>
      bytes_at fdt p (name @ [0]) \<and> bytes_at fdt q val" if "t = TProp name val" for name val
    using m(1) that Cons.prems assms by (intro getprop_in) auto
  ultimately show ?case by (cases t) auto
qed simp

end
