(* ===== verification/Fdt_Finish.thy ===== *)
theory Fdt_Finish
  imports Fdt_Sw_Props
begin

unbundle bit_operations_syntax

text \<open>
  \<^verbatim>\<open>fdt_finish\<close>: the string table moves down to the structure block, the walk rebases the name offsets, and
  the finished blob holds the tokens that were written.
\<close>

section \<open>Moving bytes\<close>

lemma blob_bytes_spec:
  assumes "0 \<le> p" "p + int n \<le> int (length (fdt_bytes fdt))"
  shows "\<exists>bs. blob_bytes fdt p n = Some bs \<and> length bs = n \<and> bytes_at fdt p bs"
  using assms
proof (induction n arbitrary: p)
  case (Suc n)
  obtain b where b: "rd8 fdt p = Some b" using rd8_total [of p fdt] Suc.prems by auto
  obtain bs where "blob_bytes fdt (p + 1) n = Some bs" "length bs = n" "bytes_at fdt (p + 1) bs"
    using Suc.IH [of "p + 1"] Suc.prems by auto
  then show ?case using b by (simp add: bytes_at_Cons)
qed simp

lemma mv_bytes_spec:
  assumes "0 \<le> dst" "0 \<le> src" "0 \<le> n" "dst + n \<le> int (length (fdt_bytes fdt))" "src + n \<le> int (length (fdt_bytes fdt))"
  obtains fdt' bs where "mv_bytes fdt dst src n = Some fdt'" "wr_bytes fdt dst bs = Some fdt'" "int (length bs) = n"
    "bytes_at fdt src bs"
proof -
  obtain bs where bs: "blob_bytes fdt src (nat n) = Some bs" "length bs = nat n" "bytes_at fdt src bs"
    using blob_bytes_spec [of src "nat n" fdt] assms by auto
  obtain fdt' where "wr_bytes fdt dst bs = Some fdt'"
    using wr_bytes_total [of dst bs fdt] assms bs by auto
  then show thesis using that [of fdt' bs] bs assms by (simp add: mv_bytes_def)
qed

section \<open>The walk\<close>

lemma toks_in_le: "toks_in N fdt o' ts n \<Longrightarrow> o' \<le> n"
proof (induction ts arbitrary: o')
  case (Cons t ts)
  then obtain m where "tok_in N fdt o' t m" "m \<le> n" by auto
  then show ?case using tok_in_bounds [of N fdt o' t m] by linarith
qed simp

lemma toks_in_aligned: "toks_in N fdt o' ts n \<Longrightarrow> o' mod 4 = 0 \<Longrightarrow> n mod 4 = 0"
  by (induction ts arbitrary: o') (auto dest: tok_at_aligned)

lemma toks_in_cong:
  assumes "hdr fdt' 8 = hdr fdt 8" "uint (hdr fdt 36) \<le> uint (hdr fdt' 36)"
  shows "toks_in N fdt o' ts n \<Longrightarrow>
    (\<And>p. uint (hdr fdt 8) + o' \<le> p \<Longrightarrow> p < uint (hdr fdt 8) + n \<Longrightarrow> rd8 fdt' p = rd8 fdt p) \<Longrightarrow> toks_in N fdt' o' ts n"
proof (induction ts arbitrary: o')
  case (Cons t ts)
  then obtain m where m: "tok_in N fdt o' t m" "toks_in N fdt m ts n" by auto
  note b = tok_in_bounds [OF m(1)] toks_in_le [OF m(2)]
  have "tok_in N fdt' o' t m"
    using b by (intro tok_in_cong [OF m(1) assms] Cons.prems(2)) auto
  moreover have "toks_in N fdt' m ts n"
    using b by (intro Cons.IH [OF m(2)] Cons.prems(2)) auto
  ultimately show ?case by auto
qed simp

lemma toks_in_mono: "toks_in N fdt o' ts n \<Longrightarrow> (\<And>off nm. N off nm \<Longrightarrow> N' off nm) \<Longrightarrow> toks_in N' fdt o' ts n"
proof (induction ts arbitrary: o')
  case (Cons t ts)
  then obtain m where "tok_in N fdt o' t m" "toks_in N' fdt m ts n" by auto
  then show ?case using tok_in_mono [of N fdt o' t m N'] Cons.prems(2) by auto
qed simp

text \<open>What a store at \<open>p\<close> and above leaves of the header.\<close>

definition same_above :: "int \<Rightarrow> int \<Rightarrow> fdt \<Rightarrow> fdt \<Rightarrow> bool" where
  "same_above lo hi fdt fdt' \<longleftrightarrow>
     length (fdt_bytes fdt') = length (fdt_bytes fdt) \<and> fdt_addr fdt' = fdt_addr fdt \<and>
     (\<forall>p. p < lo \<or> hi \<le> p \<longrightarrow> rd8 fdt' p = rd8 fdt p)"

lemma same_above_hdr:
  assumes "same_above lo hi fdt fdt'" "40 \<le> lo" "k \<le> 36"
  shows "hdr fdt' k = hdr fdt k"
proof -
  have "fdt32_ld fdt' k = fdt32_ld fdt k"
    using assms by (intro fdt32_ld_cong) (auto simp: same_above_def)
  then show ?thesis by (simp add: hdr_def)
qed

lemma same_above_blk_inv:
  assumes "same_above lo hi fdt fdt'" "40 \<le> lo" "blk_inv fdt"
  shows "blk_inv fdt'"
proof -
  have h: "hdr fdt' k = hdr fdt k" if "k \<le> 36" for k by (rule same_above_hdr [OF assms(1,2) that])
  have "fdt_buffer fdt'"
    by (rule fdt_buffer_cong [OF _ _ blk_inv_buffer [OF assms(3)]]) (use assms(1) h in \<open>auto simp: same_above_def\<close>)
  then show ?thesis using assms(3) by (simp add: blk_inv_def h)
qed

lemma same_above_trans:
  "same_above lo hi a b \<Longrightarrow> same_above lo' hi' b c \<Longrightarrow> lo'' \<le> lo \<Longrightarrow> lo'' \<le> lo' \<Longrightarrow> hi \<le> hi'' \<Longrightarrow> hi' \<le> hi'' \<Longrightarrow> same_above lo'' hi'' a c"
  by (auto simp: same_above_def)

lemma same_above_weaken: "same_above lo hi a b \<Longrightarrow> lo' \<le> lo \<Longrightarrow> hi \<le> hi' \<Longrightarrow> same_above lo' hi' a b"
  by (auto simp: same_above_def)

lemma same_above_st: "fdt32_st fdt p x = Some fdt' \<Longrightarrow> same_above p (p + 4) fdt fdt'"
  using rd8_st_other [of fdt p x fdt'] by (simp add: same_above_def fdt32_st_length fdt32_st_addr)

lemma same_above_wr: "wr_bytes fdt p bs = Some fdt' \<Longrightarrow> same_above p (p + int (length bs)) fdt fdt'"
  using rd8_wr_bytes_other [of fdt p bs fdt'] by (simp add: same_above_def wr_bytes_length wr_bytes_addr)

text \<open>One property of the walk: its name offset is rebased by the size of the string table.\<close>

lemma rebase_prop:
  assumes "blk_inv fdt" "tok_in N fdt o' (TProp name val) m" "\<And>off nm. N off nm \<Longrightarrow> N' (off + hdr fdt 32) nm"
  obtains nameoff fdt' where "fdt32_ld fdt (uint (hdr fdt 8) + o' + 8) = Some nameoff"
    "fdt32_st fdt (uint (hdr fdt 8) + o' + 8) (nameoff + hdr fdt 32) = Some fdt'"
    "tok_in N' fdt' o' (TProp name val) m" "same_above (uint (hdr fdt 8) + o') (uint (hdr fdt 8) + m) fdt fdt'"
proof -
  note S = blk_inv_sizes [OF assms(1)]
  obtain nameoff where nm: "fdt32_ld fdt (uint (hdr fdt 8) + o' + 8) = Some nameoff" "N nameoff name"
    using assms(2) by auto
  have room: "0 \<le> o'" "o' + 12 + int (length val) \<le> m" "m \<le> uint (hdr fdt 36)"
    using assms(2) round4_bounds(1) [of "int (length val)"] by auto
  obtain fdt' where st: "fdt32_st fdt (uint (hdr fdt 8) + o' + 8) (nameoff + hdr fdt 32) = Some fdt'"
    using fdt32_st_total [of "uint (hdr fdt 8) + o' + 8" fdt "nameoff + hdr fdt 32"] room S by auto
  have same: "same_above (uint (hdr fdt 8) + o') (uint (hdr fdt 8) + m) fdt fdt'"
    by (rule same_above_weaken [OF same_above_st [OF st]]) (use room in auto)
  have h: "hdr fdt' k = hdr fdt k" if "k \<le> 36" for k
    using same_above_hdr [OF same _ that] room S by simp
  have b: "bytes_at fdt' (uint (hdr fdt 8) + o' + 12) val"
  proof (rule bytes_at_cong)
    show "bytes_at fdt (uint (hdr fdt 8) + o' + 12) val" using assms(2) by simp
  qed (use rd8_st_other [OF st] in simp)
  have "tok_in N' fdt' o' (TProp name val) m"
    using assms(2) b h [of 8] h [of 36] fdt32_ld_st_same [OF st] fdt32_ld_st_other [OF st] assms(3) [OF nm(2)] by simp
  then show thesis by (rule that [OF nm(1) st _ same])
qed

lemma finish_loop_rebases:
  assumes N: "\<And>off nm. N off nm \<Longrightarrow> N' (off + strs) nm"
  shows "blk_inv fdt \<Longrightarrow> hdr fdt 32 = strs \<Longrightarrow> toks_in N fdt o' ts e \<Longrightarrow> 0 \<le> o' \<Longrightarrow> o' mod 4 = 0
    \<Longrightarrow> fdt32_ld fdt (uint (hdr fdt 8) + e) = Some FDT_END \<Longrightarrow> e + 4 \<le> uint (hdr fdt 36)
    \<Longrightarrow> \<exists>fdt'. finish_loop fdt o' = Some (e + 4, fdt') \<and> toks_in N' fdt' o' ts e \<and>
          same_above (uint (hdr fdt 8) + o') (uint (hdr fdt 8) + e) fdt fdt'"
proof (induction ts arbitrary: fdt o')
  case Nil
  then have "fdt_next_tag fdt o' = Some (FDT_END, e + 4)"
    by (simp add: next_tag_end)
  then show ?case
    using Nil by (subst finish_loop.simps) (simp add: same_above_def)
next
  case (Cons t ts)
  let ?s = "uint (hdr fdt 8)"
  obtain m where m: "tok_in N fdt o' t m" "toks_in N fdt m ts e" using Cons.prems(3) by auto
  have next': "fdt_next_tag fdt o' = Some (tag_of t, m)"
    by (rule next_tag_at [OF Cons.prems(1) m(1) Cons.prems(5)])
  note b = tok_in_bounds [OF m(1)] toks_in_le [OF m(2)]
  have m4: "m mod 4 = 0" by (rule tok_at_aligned [OF m(1) Cons.prems(5)])
  obtain fdt1 where fdt1: "finish_loop fdt o' = finish_loop fdt1 m" "tok_in N' fdt1 o' t m" "same_above (?s + o') (?s + m) fdt fdt1"
  proof (cases t)
    case (TProp name val)
    obtain nameoff fdt1 where "fdt32_ld fdt (?s + o' + 8) = Some nameoff"
        "fdt32_st fdt (?s + o' + 8) (nameoff + hdr fdt 32) = Some fdt1" "tok_in N' fdt1 o' (TProp name val) m"
        "same_above (?s + o') (?s + m) fdt fdt1"
      using rebase_prop [OF Cons.prems(1) m(1) [unfolded TProp], of N'] N Cons.prems(2) by metis
    moreover from this(1,2) have "finish_loop fdt o' = finish_loop fdt1 m"
      using next' TProp blk_inv_buffer [OF Cons.prems(1)]
      by (subst finish_loop.simps) (simp add: fdt_offset_ptr'_def)
    ultimately show thesis using that [of fdt1] TProp by simp
  qed (use that [of fdt] next' m in \<open>simp_all add: finish_loop.simps [of fdt o'] same_above_def\<close>)
  have lo: "40 \<le> ?s + o'" using Cons.prems(4) blk_inv_sizes [OF Cons.prems(1)] by linarith
  have h: "hdr fdt1 k = hdr fdt k" if "k \<le> 36" for k by (rule same_above_hdr [OF fdt1(3) lo that])
  have ts1: "toks_in N fdt1 m ts e"
    by (rule toks_in_cong [OF _ _ m(2)]) (use h fdt1(3) in \<open>auto simp: same_above_def\<close>)
  have end1: "fdt32_ld fdt1 (?s + e) = Some FDT_END"
    using Cons.prems(6) fdt32_ld_cong [of fdt1 "?s + e" fdt] fdt1(3) b by (auto simp: same_above_def)
  obtain fdt' where fdt': "finish_loop fdt1 m = Some (e + 4, fdt')" "toks_in N' fdt' m ts e" "same_above (?s + m) (?s + e) fdt1 fdt'"
    using Cons.IH [OF same_above_blk_inv [OF fdt1(3) lo Cons.prems(1)] _ ts1 _ m4] Cons.prems(2,7) h end1 b by auto
  have lo': "40 \<le> ?s + m" using lo b by linarith
  have h': "hdr fdt' k = hdr fdt1 k" if "k \<le> 36" for k by (rule same_above_hdr [OF fdt'(3) lo' that])
  have "tok_in N' fdt' o' t m"
    by (rule tok_in_cong [OF fdt1(2)]) (use h h' fdt'(3) in \<open>auto simp: same_above_def\<close>)
  moreover have "same_above (?s + o') (?s + e) fdt fdt'"
    by (rule same_above_trans [OF fdt1(3) fdt'(3)]) (use b in auto)
  ultimately show ?case
    using fdt1(1) fdt'(1,2) by auto
qed


section \<open>The finished blob\<close>

definition fin_inv :: "fdt \<Rightarrow> bool" where
  "fin_inv fdt \<longleftrightarrow>
     blk_inv fdt \<and> fdt_addr fdt AND 7 = 0 \<and> hdr fdt 0 = FDT_MAGIC \<and> hdr fdt 24 = 16 \<and>
     uint (hdr fdt 12) = uint (hdr fdt 8) + uint (hdr fdt 36) \<and> uint (hdr fdt 4) = uint (hdr fdt 12) + uint (hdr fdt 32)"

definition fin_name :: "fdt \<Rightarrow> u32 \<Rightarrow> u8 list \<Rightarrow> bool" where
  "fin_name fdt off name \<longleftrightarrow>
     0 \<notin> set name \<and> uint off + int (length name) + 1 \<le> uint (hdr fdt 32) \<and>
     bytes_at fdt (uint (hdr fdt 12) + uint off) (name @ [0])"

text \<open>\<^verbatim>\<open>fdt_get_string\<close> finds the names in a table inside the total size.\<close>

lemma table_strings_found:
  assumes blk: "blk_inv fdt" and al: "fdt_addr fdt AND 7 = 0" and mg: "hdr fdt 0 = FDT_MAGIC" and lc: "hdr fdt 24 \<le> 17"
    and tab: "uint (hdr fdt 12) + uint (hdr fdt 32) \<le> uint (hdr fdt 4)"
  shows "strings_found (fin_name fdt) fdt"
  unfolding strings_found_def
proof (intro allI impI)
  fix off name
  assume N: "fin_name fdt off name"
  note N' = N [unfolded fin_name_def]
  note S = blk_inv_sizes [OF blk] and buf = blk_inv_buffer [OF blk]
  let ?T = "uint (hdr fdt 4)" and ?p = "uint (hdr fdt 12) + uint off"
  have small: "?p < ?T" "uint off < uint (hdr fdt 32)"
    using tab N' by linarith+
  have so: "sint off = uint off"
    using small S tab uint_ge_0 [of "hdr fdt 12"] by (intro sint_small_u32) linarith
  have abs: "uint (off + hdr fdt 12) = ?p"
    using small S uint_u32_sum [of off _ "hdr fdt 12"] by (simp add: add.commute)
  have len: "uint (hdr fdt 4 - (off + hdr fdt 12)) = ?T - ?p"
    using small by (intro uint_u32_diff [OF refl abs]) linarith
  have len': "uint (hdr fdt 32 - off) = uint (hdr fdt 32) - uint off"
    using small by (intro uint_u32_diff refl) linarith
  have le: "hdr fdt 32 - off \<le> hdr fdt 4 - (off + hdr fdt 12)"
    unfolding word_le_def len len' using tab by linarith
  have cut: "(if hdr fdt 32 - off < hdr fdt 4 - (off + hdr fdt 12) then hdr fdt 32 - off else hdr fdt 4 - (off + hdr fdt 12))
      = hdr fdt 32 - off"
    using le by (auto simp: not_less intro: antisym)
  have probe: "fdt_ro_probe' fdt = Some ?T"
    using al mg lc blk S buf by (simp add: fdt_ro_probe'_def blk_inv_def leD)
  have cmp: "\<not> off + hdr fdt 12 \<ge> hdr fdt 4" "\<not> off \<ge> hdr fdt 32"
    using abs small by (simp_all add: word_le_def)
  have nonneg: "\<not> ?T < 0" by simp
  have mv: "hdr fdt 0 = FDT_MAGIC" "hdr fdt 20 = 17"
    using mg blk by (auto simp: blk_inv_def)
  have "length name < unat (hdr fdt 32 - off)"
    using N' len' unfolding uint_nat by linarith
  then have chr: "blob_chr fdt ?p 0 (unat (hdr fdt 32 - off)) = Some (Some (?p + int (length name)))"
    using N' by (intro blob_chr_string) auto
  have "fdt_get_string fdt (sint off) = Some (Inr (?p, int (length name)))"
    unfolding fdt_get_string_def probe bind.bind_lunit Let_def fdt_buffer_hdr [OF buf] so word_of_int_uint
      if_not_P [OF cmp(1)] if_not_P [OF nonneg] cut
    using cmp(2) abs chr mv by simp
  then show "\<exists>p. fdt_get_string fdt (sint off) = Some (Inr (p, int (length name))) \<and> bytes_at fdt p (name @ [0])"
    using N' by blast
qed

lemma fin_strings_found: "fin_inv fdt \<Longrightarrow> strings_found (fin_name fdt) fdt"
  by (rule table_strings_found) (simp_all add: fin_inv_def)

lemma bytes_at_moved:
  assumes "wr_bytes fdt dst bs = Some fdt'" "bytes_at fdt src bs" "bytes_at fdt (src + j) cs" "0 \<le> j"
    "j + int (length cs) \<le> int (length bs)"
  shows "bytes_at fdt' (dst + j) cs"
  unfolding bytes_at_def
proof (intro allI impI)
  fix i assume i: "i < length cs"
  have "rd8 fdt' (dst + j + int i) = Some (bs ! (nat j + i))"
    using rd8_wr_bytes [OF assms(1), of "dst + j + int i"] assms(4,5) i by (simp add: nat_add_distrib)
  moreover have "rd8 fdt (src + int (nat j + i)) = Some (bs ! (nat j + i))"
  proof -
    have "nat j + i < length bs" using assms(4,5) i by linarith
    then show ?thesis using assms(2) unfolding bytes_at_def by blast
  qed
  ultimately show "rd8 fdt' (dst + j + int i) = Some (cs ! i)"
    using assms(3,4) i by (simp add: bytes_at_def add.assoc)
qed

lemma rebased_name:
  assumes "name_at fdt off nm" "uint (hdr fdt 32) = int (length bs)" "wr_bytes fdt dst bs = Some fdt'"
    "bytes_at fdt (uint (hdr fdt 4) - uint (hdr fdt 32)) bs"
  shows "0 \<notin> set nm \<and> uint (off + hdr fdt 32) + int (length nm) + 1 \<le> uint (hdr fdt 32) \<and>
    bytes_at fdt' (dst + uint (off + hdr fdt 32)) (nm @ [0])"
proof -
  note N = assms(1) [unfolded name_at_def]
  have "off + hdr fdt 32 = hdr fdt 32 - (- off)" by simp
  then have u: "uint (off + hdr fdt 32) = uint (hdr fdt 32) - uint (- off)"
    using uint_u32_diff [OF refl refl, of "- off" "hdr fdt 32"] N by presburger
  have "bytes_at fdt' (dst + (uint (hdr fdt 32) - uint (- off))) (nm @ [0])"
    using N assms(2) by (intro bytes_at_moved [OF assms(3,4)]) auto
  then show ?thesis using N u by auto
qed


section \<open>Finishing\<close>

text \<open>The part of \<^verbatim>\<open>fdt_finish\<close> behind the terminator.\<close>

definition finish_tail :: "fdt \<Rightarrow> (int \<times> fdt) option" where
  "finish_tail fdt = do {
     totalsize \<leftarrow> fdt_totalsize fdt;
     size_dt_strings \<leftarrow> fdt_size_dt_strings fdt;
     off_dt_struct \<leftarrow> fdt_off_dt_struct fdt;
     size_dt_struct \<leftarrow> fdt_size_dt_struct fdt;
     let oldstroffset = sint (totalsize - size_dt_strings);
     let newstroffset = sint (off_dt_struct + size_dt_struct);
     fdt \<leftarrow> mv_bytes fdt newstroffset oldstroffset (uint size_dt_strings);
     fdt \<leftarrow> fdt_set_off_dt_strings fdt (word_of_int newstroffset);
     (nextoffset, fdt) \<leftarrow> finish_loop fdt 0;
     if nextoffset < 0 then Some (nextoffset, fdt)
     else do {
       size_dt_strings \<leftarrow> fdt_size_dt_strings fdt;
       fdt \<leftarrow> fdt_set_totalsize fdt (word_of_int newstroffset + size_dt_strings);
       fdt \<leftarrow> fdt_set_last_comp_version fdt 16;
       fdt \<leftarrow> fdt_set_magic fdt FDT_MAGIC;
       Some (0, fdt) } }"

text \<open>The names of the finished blob, while the header still has the sizes of the writer.\<close>

definition moved_name :: "fdt \<Rightarrow> fdt \<Rightarrow> u32 \<Rightarrow> u8 list \<Rightarrow> bool" where
  "moved_name fdt fdt' off nm \<longleftrightarrow>
     0 \<notin> set nm \<and> uint off + int (length nm) + 1 \<le> uint (hdr fdt 32) \<and>
     bytes_at fdt' (uint (hdr fdt 8) + uint (hdr fdt 36) + uint off) (nm @ [0])"

lemma moved_name_cong:
  assumes "moved_name fdt f off nm" "\<And>p. uint (hdr fdt 8) + uint (hdr fdt 36) \<le> p \<Longrightarrow> rd8 f' p = rd8 f p"
  shows "moved_name fdt f' off nm"
proof -
  have "bytes_at f' (uint (hdr fdt 8) + uint (hdr fdt 36) + uint off) (nm @ [0])"
  proof (rule bytes_at_cong)
    show "bytes_at f (uint (hdr fdt 8) + uint (hdr fdt 36) + uint off) (nm @ [0])"
      using assms(1) by (simp add: moved_name_def)
  qed (rule assms(2), use uint_ge_0 [of off] in linarith)
  then show ?thesis using assms(1) by (simp add: moved_name_def)
qed

text \<open>The string table is moved behind the structure block.\<close>

lemma strings_moved:
  assumes "sw_inv fdt" "toks_at fdt 0 ts e" "uint (hdr fdt 36) = e + 4"
  obtains fdt1 fdt2 where
    "mv_bytes fdt (uint (hdr fdt 8) + uint (hdr fdt 36)) (uint (hdr fdt 4) - uint (hdr fdt 32)) (uint (hdr fdt 32)) = Some fdt1"
    "fdt32_st fdt1 12 (hdr fdt 8 + hdr fdt 36) = Some fdt2" "blk_inv fdt2" "hdr fdt2 12 = hdr fdt 8 + hdr fdt 36"
    "\<forall>k. k \<le> 8 \<or> 16 \<le> k \<and> k \<le> 36 \<longrightarrow> hdr fdt2 k = hdr fdt k"
    "fdt_addr fdt2 = fdt_addr fdt" "length (fdt_bytes fdt2) = length (fdt_bytes fdt)"
    "\<forall>p. 16 \<le> p \<and> p < uint (hdr fdt 8) + uint (hdr fdt 36) \<longrightarrow> rd8 fdt2 p = rd8 fdt p"
    "\<forall>off nm. name_at fdt off nm \<longrightarrow> moved_name fdt fdt2 (off + hdr fdt 32) nm"
proof -
  note S = sw_inv_sizes [OF assms(1)] and buf = sw_inv_buffer [OF assms(1)]
  let ?s = "uint (hdr fdt 8)" and ?T = "uint (hdr fdt 4)" and ?n = "uint (hdr fdt 32)"
  let ?new = "?s + uint (hdr fdt 36)"
  have b: "0 \<le> ?new" "0 \<le> ?T - ?n" "?new + ?n \<le> int (length (fdt_bytes fdt))" "?T - ?n + ?n \<le> int (length (fdt_bytes fdt))"
    using S by linarith+
  obtain fdt1 bs where mv: "mv_bytes fdt ?new (?T - ?n) ?n = Some fdt1" "wr_bytes fdt ?new bs = Some fdt1"
      "int (length bs) = ?n" "bytes_at fdt (?T - ?n) bs"
    by (rule mv_bytes_spec [OF b(1,2) _ b(3,4)]) simp_all
  have lo: "40 \<le> ?new" using S by linarith
  note same1 = same_above_wr [OF mv(2)]
  have h1: "hdr fdt1 k = hdr fdt k" if "k \<le> 36" for k by (rule same_above_hdr [OF same1 lo that])
  have "40 \<le> length (fdt_bytes fdt1)" using buf same1 by (simp add: fdt_buffer_def same_above_def)
  then obtain fdt2 where st: "fdt32_st fdt1 12 (hdr fdt 8 + hdr fdt 36) = Some fdt2"
      "length (fdt_bytes fdt2) = length (fdt_bytes fdt1)" "fdt_addr fdt2 = fdt_addr fdt1"
      "hdr fdt2 12 = hdr fdt 8 + hdr fdt 36" "\<And>q. q + 4 \<le> 12 \<or> 12 + 4 \<le> q \<Longrightarrow> hdr fdt2 q = hdr fdt1 q"
    by (rule hdr_store [of fdt1 12 "hdr fdt 8 + hdr fdt 36"]) auto
  have rd2: "rd8 fdt2 p = rd8 fdt1 p" if "16 \<le> p" for p using rd8_st_other [OF st(1)] that by simp
  have h2: "hdr fdt2 k = hdr fdt k" if "k \<le> 8 \<or> 16 \<le> k \<and> k \<le> 36" for k
    using st(5) [of k] h1 [of k] that by auto
  have "fdt_buffer fdt2"
    by (rule fdt_buffer_cong [OF _ _ buf]) (use st(2) same1 h2 in \<open>auto simp: same_above_def\<close>)
  then have blk2: "blk_inv fdt2"
    using sw_inv_blk_inv [OF assms(1)] by (simp add: blk_inv_def h2)
  have low: "rd8 fdt2 p = rd8 fdt p" if "16 \<le> p" "p < ?new" for p
    using rd2 that same1 by (simp add: same_above_def)
  have reb: "moved_name fdt fdt2 (off + hdr fdt 32) nm" if "name_at fdt off nm" for off nm
  proof (rule moved_name_cong)
    show "moved_name fdt fdt1 (off + hdr fdt 32) nm"
      using rebased_name [OF that mv(3) [symmetric] mv(2,4)] by (simp add: moved_name_def)
  qed (use rd2 lo in auto)
  show thesis
    by (rule that [OF mv(1) st(1) blk2 st(4)]) (use st same1 h2 low reb in \<open>simp_all add: same_above_def\<close>)
qed

lemma finish_tail_moves:
  assumes "sw_inv fdt" "toks_at fdt 0 ts e" "fdt32_ld fdt (uint (hdr fdt 8) + e) = Some FDT_END" "uint (hdr fdt 36) = e + 4"
  obtains fdt3 where
    "finish_tail fdt = do {
       size_dt_strings \<leftarrow> fdt_size_dt_strings fdt3;
       fdt \<leftarrow> fdt_set_totalsize fdt3 (hdr fdt 8 + hdr fdt 36 + size_dt_strings);
       fdt \<leftarrow> fdt_set_last_comp_version fdt 16;
       fdt \<leftarrow> fdt_set_magic fdt FDT_MAGIC;
       Some (0, fdt) }"
    "blk_inv fdt3" "hdr fdt3 12 = hdr fdt 8 + hdr fdt 36" "\<And>k. k \<le> 8 \<or> 16 \<le> k \<and> k \<le> 36 \<Longrightarrow> hdr fdt3 k = hdr fdt k"
    "fdt_addr fdt3 = fdt_addr fdt" "length (fdt_bytes fdt3) = length (fdt_bytes fdt)"
    "toks_in (moved_name fdt fdt3) fdt3 0 ts e" "fdt32_ld fdt3 (uint (hdr fdt 8) + e) = Some FDT_END"
    "\<forall>p. 40 \<le> p \<and> p < uint (hdr fdt 8) \<longrightarrow> rd8 fdt3 p = rd8 fdt p"
proof -
  note S = sw_inv_sizes [OF assms(1)] and buf = sw_inv_buffer [OF assms(1)]
  let ?s = "uint (hdr fdt 8)" and ?T = "uint (hdr fdt 4)" and ?n = "uint (hdr fdt 32)"
  let ?new = "?s + uint (hdr fdt 36)"
  have e0: "0 \<le> e" by (rule toks_in_le [OF assms(2)])
  have snew: "sint (hdr fdt 8 + hdr fdt 36) = ?new"
    using S uint_u32_sum [of "hdr fdt 8" ?s "hdr fdt 36" "uint (hdr fdt 36)"] sint_small_u32 [of "hdr fdt 8 + hdr fdt 36"] by simp
  have "uint (hdr fdt 4 - hdr fdt 32) = ?T - ?n"
    using S by (intro uint_u32_diff refl) linarith
  then have sold: "sint (hdr fdt 4 - hdr fdt 32) = ?T - ?n"
    using S uint_ge_0 [of "hdr fdt 32"] sint_small_u32 [of "hdr fdt 4 - hdr fdt 32"] by linarith
  obtain fdt1 fdt2 where m: "mv_bytes fdt ?new (?T - ?n) ?n = Some fdt1"
      "fdt32_st fdt1 12 (hdr fdt 8 + hdr fdt 36) = Some fdt2" "blk_inv fdt2" "hdr fdt2 12 = hdr fdt 8 + hdr fdt 36"
      "\<forall>k. k \<le> 8 \<or> 16 \<le> k \<and> k \<le> 36 \<longrightarrow> hdr fdt2 k = hdr fdt k"
      "fdt_addr fdt2 = fdt_addr fdt" "length (fdt_bytes fdt2) = length (fdt_bytes fdt)"
      "\<forall>p. 16 \<le> p \<and> p < ?new \<longrightarrow> rd8 fdt2 p = rd8 fdt p"
      "\<forall>off nm. name_at fdt off nm \<longrightarrow> moved_name fdt fdt2 (off + hdr fdt 32) nm"
    by (rule strings_moved [OF assms(1,2,4)])
  have toks2: "toks_in (name_at fdt) fdt2 0 ts e"
    by (rule toks_in_cong [OF _ _ assms(2)]) (use m(5,8) S assms(4) in auto)
  have end2: "fdt32_ld fdt2 (?s + e) = Some FDT_END"
    using assms(3,4) m(8) S e0 fdt32_ld_cong [of fdt2 "?s + e" fdt] by simp
  obtain fdt3 where loop: "finish_loop fdt2 0 = Some (e + 4, fdt3)" "toks_in (moved_name fdt fdt2) fdt3 0 ts e"
      "same_above (?s + 0) (?s + e) fdt2 fdt3"
    using finish_loop_rebases [of "name_at fdt" "moved_name fdt fdt2" "hdr fdt 32" fdt2 0 ts e, OF m(9) [rule_format] m(3) _ toks2 _ _ _]
      end2 m(5) assms(4) by auto
  have lo3: "40 \<le> ?s + 0" using S by simp
  have h3: "hdr fdt3 k = hdr fdt2 k" if "k \<le> 36" for k by (rule same_above_hdr [OF loop(3) lo3 that])
  have up: "rd8 fdt3 p = rd8 fdt2 p" if "?s + e \<le> p" for p
    using loop(3) that by (simp add: same_above_def)
  have low: "rd8 fdt3 p = rd8 fdt p" if "40 \<le> p" "p < ?s" for p
  proof -
    have "p < ?new" using that(2) uint_ge_0 [of "hdr fdt 36"] by linarith
    then show ?thesis using that m(8) loop(3) by (simp add: same_above_def)
  qed
  have toks3: "toks_in (moved_name fdt fdt3) fdt3 0 ts e"
    by (rule toks_in_mono [OF loop(2)]) (rule moved_name_cong, assumption, rule up, use assms(4) in simp)
  have end3: "fdt32_ld fdt3 (?s + e) = Some FDT_END"
    using end2 up fdt32_ld_cong [of fdt3 "?s + e" fdt2] by simp
  have run: "finish_tail fdt = do {
       size_dt_strings \<leftarrow> fdt_size_dt_strings fdt3;
       fdt \<leftarrow> fdt_set_totalsize fdt3 (hdr fdt 8 + hdr fdt 36 + size_dt_strings);
       fdt \<leftarrow> fdt_set_last_comp_version fdt 16;
       fdt \<leftarrow> fdt_set_magic fdt FDT_MAGIC;
       Some (0, fdt) }"
    using e0 m(1,2) loop(1) snew sold arg_cong [OF snew, of "word_of_int :: int \<Rightarrow> u32"]
    by (simp add: finish_tail_def fdt_buffer_hdr [OF buf] Let_def fdt_set_off_dt_strings_def)
  show thesis
    by (rule that [OF run same_above_blk_inv [OF loop(3) lo3 m(3)] _ _ _ _ toks3 end3])
      (use h3 m(4-7) loop(3) in \<open>auto simp: same_above_def low\<close>)
qed


lemma finish_tail_finishes:
  assumes "sw_inv fdt" "toks_at fdt 0 ts e" "fdt32_ld fdt (uint (hdr fdt 8) + e) = Some FDT_END" "uint (hdr fdt 36) = e + 4"
  obtains fdt' where "finish_tail fdt = Some (0, fdt')" "fin_inv fdt'" "toks_in (fin_name fdt') fdt' 0 ts e"
    "fdt32_ld fdt' (uint (hdr fdt' 8) + e) = Some FDT_END" "uint (hdr fdt' 36) = e + 4"
    "hdr fdt' 8 = hdr fdt 8" "hdr fdt' 16 = hdr fdt 16" "\<forall>p. 40 \<le> p \<and> p < uint (hdr fdt 8) \<longrightarrow> rd8 fdt' p = rd8 fdt p"
    "fdt_addr fdt' = fdt_addr fdt" "length (fdt_bytes fdt') = length (fdt_bytes fdt)"
    "uint (hdr fdt' 4) = uint (hdr fdt 8) + uint (hdr fdt 36) + uint (hdr fdt 32)"
proof -
  note S = sw_inv_sizes [OF assms(1)]
  let ?new = "hdr fdt 8 + hdr fdt 36"
  have new: "uint ?new = uint (hdr fdt 8) + uint (hdr fdt 36)"
    using S by (intro uint_u32_sum refl) linarith
  have tot: "uint (?new + hdr fdt 32) = uint ?new + uint (hdr fdt 32)"
    using S new by (intro uint_u32_sum refl) linarith
  obtain f3 where f3: "finish_tail fdt = do {
       size_dt_strings \<leftarrow> fdt_size_dt_strings f3;
       fdt \<leftarrow> fdt_set_totalsize f3 (?new + size_dt_strings);
       fdt \<leftarrow> fdt_set_last_comp_version fdt 16;
       fdt \<leftarrow> fdt_set_magic fdt FDT_MAGIC;
       Some (0, fdt) }"
    "blk_inv f3" "hdr f3 12 = ?new" "\<And>k. k \<le> 8 \<or> 16 \<le> k \<and> k \<le> 36 \<Longrightarrow> hdr f3 k = hdr fdt k"
    "fdt_addr f3 = fdt_addr fdt" "length (fdt_bytes f3) = length (fdt_bytes fdt)"
    "toks_in (moved_name fdt f3) f3 0 ts e" "fdt32_ld f3 (uint (hdr fdt 8) + e) = Some FDT_END"
    "\<forall>p. 40 \<le> p \<and> p < uint (hdr fdt 8) \<longrightarrow> rd8 f3 p = rd8 fdt p"
    using finish_tail_moves [OF assms] by blast
  have len: "40 \<le> length (fdt_bytes f3)"
    using blk_inv_buffer [OF f3(2)] by (simp add: fdt_buffer_def)
  obtain f4 where f4: "fdt32_st f3 4 (?new + hdr fdt 32) = Some f4" "length (fdt_bytes f4) = length (fdt_bytes f3)"
      "fdt_addr f4 = fdt_addr f3" "hdr f4 4 = ?new + hdr fdt 32" "\<And>q. q + 4 \<le> 4 \<or> 4 + 4 \<le> q \<Longrightarrow> hdr f4 q = hdr f3 q"
    by (rule hdr_store [OF len, of 4 "?new + hdr fdt 32"]) auto
  obtain f5 where f5: "fdt32_st f4 24 16 = Some f5" "length (fdt_bytes f5) = length (fdt_bytes f3)"
      "fdt_addr f5 = fdt_addr f3" "hdr f5 24 = 16" "\<And>q. q + 4 \<le> 24 \<or> 24 + 4 \<le> q \<Longrightarrow> hdr f5 q = hdr f4 q"
    by (rule hdr_store [of f4 24 16]) (use f4 len in auto)
  obtain f6 where f6: "fdt32_st f5 0 FDT_MAGIC = Some f6" "length (fdt_bytes f6) = length (fdt_bytes f3)"
      "fdt_addr f6 = fdt_addr f3" "hdr f6 0 = FDT_MAGIC" "\<And>q. q + 4 \<le> 0 \<or> 0 + 4 \<le> q \<Longrightarrow> hdr f6 q = hdr f5 q"
    by (rule hdr_store [of f5 0 FDT_MAGIC]) (use f5 len in auto)
  have run: "finish_tail fdt = Some (0, f6)"
    using f3(1) f4(1) f5(1) f6(1) hdr_fields(9) [OF len] f3(4) [of 32] by (simp add: fdt_set_defs)
  have rd: "rd8 f6 p = rd8 f3 p" if "28 \<le> p" for p
    using rd8_st_other [OF f6(1)] rd8_st_other [OF f5(1)] rd8_st_other [OF f4(1)] that by simp
  have h: "hdr f6 4 = ?new + hdr fdt 32" "hdr f6 8 = hdr fdt 8" "hdr f6 12 = ?new" "hdr f6 16 = hdr fdt 16" "hdr f6 20 = hdr fdt 20"
      "hdr f6 24 = 16" "hdr f6 32 = hdr fdt 32" "hdr f6 36 = hdr fdt 36"
    using f3(3,4) f4(4,5) f5(4,5) f6(5) by simp_all
  have "fdt_buffer f6"
    using sw_inv_buffer [OF assms(1)] len f3(6) f6(2) hdr_fields(2) [of f6] h(1) S new tot
    by (simp add: fdt_buffer_def unat_eq_nat_uint nat_le_iff)
  then have inv: "fin_inv f6"
    using assms(1) h new tot S f3(5) f6(3,4) by (simp add: fin_inv_def blk_inv_def sw_inv_def)
  have "toks_in (moved_name fdt f3) f6 0 ts e"
    by (rule toks_in_cong [OF _ _ f3(7)]) (use h f3(4) rd S in auto)
  moreover have "fin_name f6 off nm" if "moved_name fdt f3 off nm" for off nm
    using moved_name_cong [OF that, of f6] rd S(7) h new by (simp add: moved_name_def fin_name_def)
  ultimately have toks: "toks_in (fin_name f6) f6 0 ts e"
    by (rule toks_in_mono)
  have "fdt32_ld f6 (uint (hdr f6 8) + e) = Some FDT_END"
    using f3(8) rd S toks_in_le [OF assms(2)] h(2) fdt32_ld_cong [of f6 "uint (hdr fdt 8) + e" f3] by simp
  then show thesis
    using that [OF run inv toks] h(1,2,4,8) assms(4) f3(5,6,9) f6(2,3) rd new tot by simp
qed

lemma fdt_finish_cases:
  assumes "sw_toks fdt ts"
  obtains "fdt_finish fdt = Some (- FDT_ERR_NOSPACE, fdt)"
      "uint (hdr fdt 4) < uint (hdr fdt 8) + uint (hdr fdt 36) + 4 + uint (hdr fdt 32)"
  | fdt' e where "fdt_finish fdt = Some (0, fdt')" "fin_inv fdt'" "toks_in (fin_name fdt') fdt' 0 ts e"
      "fdt32_ld fdt' (uint (hdr fdt' 8) + e) = Some FDT_END" "uint (hdr fdt' 36) = e + 4"
      "uint (hdr fdt 8) + uint (hdr fdt 36) + 4 + uint (hdr fdt 32) \<le> uint (hdr fdt 4)"
      "hdr fdt' 8 = hdr fdt 8" "hdr fdt' 16 = hdr fdt 16" "\<forall>p. 40 \<le> p \<and> p < uint (hdr fdt 8) \<longrightarrow> rd8 fdt' p = rd8 fdt p"
      "fdt_addr fdt' = fdt_addr fdt" "length (fdt_bytes fdt') = length (fdt_bytes fdt)"
      "uint (hdr fdt' 4) = uint (hdr fdt 4) - sw_room fdt + 4"
proof -
  have inv: "sw_inv fdt" and toks: "toks_at fdt 0 ts (uint (hdr fdt 36))" using assms by (auto simp: sw_toks_def)
  have l: "uint (4 :: size_t) mod 4 = 0" "uint (4 :: size_t) < 2 ^ 33" by simp_all
  have unfold: "fdt_finish fdt = do {
      (end', fdt) \<leftarrow> fdt_grab_space' fdt 4;
      (case end' of
         None \<Rightarrow> Some (- FDT_ERR_NOSPACE, fdt)
       | Some end' \<Rightarrow> do { fdt \<leftarrow> fdt32_st fdt end' FDT_END; finish_tail fdt }) }"
    unfolding fdt_finish_def finish_tail_def [abs_def] sw_probed_def sw_probe_struct_ok [OF inv] by simp
  from inv l show thesis
  proof (cases rule: fdt_grab_space_cases)
    case 1
    then show thesis using that(1) by (simp add: unfold)
  next
    case (2 fdt1)
    let ?p = "uint (hdr fdt 8) + uint (hdr fdt 36)"
    obtain fdt2 where st: "fdt32_st fdt1 ?p FDT_END = Some fdt2"
        "sw_inv fdt2" "sw_extends fdt fdt2" "hdr fdt2 8 = hdr fdt 8" "hdr fdt2 36 = hdr fdt1 36" "hdr fdt2 32 = hdr fdt1 32"
      by (rule gap_store [OF inv 2(2,3), of ?p FDT_END]) (use 2 in auto)
    have e: "uint (hdr fdt2 36) = uint (hdr fdt 36) + 4"
      using 2(4) st(5) by simp
    have fin: "fdt32_ld fdt2 (uint (hdr fdt2 8) + uint (hdr fdt 36)) = Some FDT_END"
      using fdt32_ld_st_same [OF st(1)] st(4) by simp
    from finish_tail_finishes [OF st(2) toks_at_extends [OF st(3) toks] fin e]
    obtain fdt' where fdt': "finish_tail fdt2 = Some (0, fdt')" "fin_inv fdt'" "toks_in (fin_name fdt') fdt' 0 ts (uint (hdr fdt 36))"
      "fdt32_ld fdt' (uint (hdr fdt' 8) + uint (hdr fdt 36)) = Some FDT_END" "uint (hdr fdt' 36) = uint (hdr fdt 36) + 4"
      "hdr fdt' 8 = hdr fdt2 8" "hdr fdt' 16 = hdr fdt2 16" "\<forall>p. 40 \<le> p \<and> p < uint (hdr fdt2 8) \<longrightarrow> rd8 fdt' p = rd8 fdt2 p"
      "fdt_addr fdt' = fdt_addr fdt2" "length (fdt_bytes fdt') = length (fdt_bytes fdt2)"
      "uint (hdr fdt' 4) = uint (hdr fdt2 8) + uint (hdr fdt2 36) + uint (hdr fdt2 32)" .
    show thesis
      by (rule that(2) [OF _ fdt'(2-5)]) (use 2(1,5,6) st(1,3,6) e fdt'(1,6-11) in \<open>simp_all add: unfold sw_extends_def sw_room_def\<close>)
  qed
qed

lemma finished_reads:
  assumes "fin_inv fdt" "toks_in (fin_name fdt) fdt 0 ts e" "fdt32_ld fdt (uint (hdr fdt 8) + e) = Some FDT_END"
    "uint (hdr fdt 36) = e + 4"
  shows "reads fdt 0 ts e \<and> fdt_next_tag fdt e = Some (FDT_END, e + 4)"
proof -
  have blk: "blk_inv fdt" using assms(1) by (simp add: fin_inv_def)
  have "e mod 4 = 0"
    using toks_in_aligned [OF assms(2)] by simp
  then have "fdt_next_tag fdt e = Some (FDT_END, e + 4)"
    using toks_in_le [OF assms(2)] assms(4) by (intro next_tag_end [OF blk assms(3)]) auto
  moreover have "reads fdt 0 ts e"
    by (rule toks_in_reads [OF blk fin_strings_found [OF assms(1)] assms(2)]) simp
  ultimately show ?thesis by simp
qed

end
