(* ===== verification/Fdt_Props.thy ===== *)
theory Fdt_Props
  imports Fdt_Check Fdt_Iter
begin

unbundle bit_operations_syntax

text \<open>
  The properties of the device tree readers: memory safety and termination on untrusted content, what the
  two validity checks establish, and that the results of the lookups lie inside the blob.  The blob
  \<open>sample_fdt\<close>, on which the theorems are applied, has a root with a \<^verbatim>\<open>compatible\<close> property, a child
  \<^verbatim>\<open>uart@9\<close> with a \<^verbatim>\<open>reg\<close> and a \<^verbatim>\<open>phandle\<close>, and a node \<^verbatim>\<open>aliases\<close> with an alias \<^verbatim>\<open>s\<close> for \<^verbatim>\<open>/uart\<close>.
\<close>

definition sample_fdt :: fdt where
  "sample_fdt = \<lparr>fdt_addr = 0x40000000, fdt_bytes =
    [208, 13, 254, 237, 0, 0, 0, 213, 0, 0, 0, 56, 0, 0, 0, 188, 0, 0, 0, 40,
     0, 0, 0, 17, 0, 0, 0, 16, 0, 0, 0, 0, 0, 0, 0, 25, 0, 0, 0, 132,
     0, 0, 0, 0, 0, 0, 0, 0, 0, 0, 0, 0, 0, 0, 0, 0, 0, 0, 0, 1,
     0, 0, 0, 0, 0, 0, 0, 3, 0, 0, 0, 5, 0, 0, 0, 0, 118, 105, 114, 116,
     0, 0, 0, 0, 0, 0, 0, 1, 117, 97, 114, 116, 64, 57, 0, 0, 0, 0, 0, 3,
     0, 0, 0, 16, 0, 0, 0, 11, 0, 0, 0, 0, 9, 0, 0, 0, 0, 0, 0, 0,
     0, 0, 16, 0, 0, 0, 0, 3, 0, 0, 0, 4, 0, 0, 0, 15, 0, 0, 0, 1,
     0, 0, 0, 2, 0, 0, 0, 1, 97, 108, 105, 97, 115, 101, 115, 0, 0, 0, 0, 3,
     0, 0, 0, 6, 0, 0, 0, 23, 47, 117, 97, 114, 116, 0, 0, 0, 0, 0, 0, 2,
     0, 0, 0, 2, 0, 0, 0, 9, 99, 111, 109, 112, 97, 116, 105, 98, 108, 101, 0, 114,
     101, 103, 0, 112, 104, 97, 110, 100, 108, 101, 0, 115, 0]\<rparr>"

lemma sample_fdt_length: "length (fdt_bytes sample_fdt) = 213"
  by (simp add: sample_fdt_def)

lemma sample_fdt_buffer: "fdt_buffer sample_fdt"
proof -
  have "fdt_totalsize sample_fdt = Some 213"
    by code_simp
  then show ?thesis
    by (simp add: fdt_buffer_def sample_fdt_length)
qed

text \<open>The smallest tree with a nested node: a root with an empty child \<^verbatim>\<open>u\<close>.\<close>

definition tiny_fdt :: fdt where
  "tiny_fdt = \<lparr>fdt_addr = 0x40000000, fdt_bytes =
    [208, 13, 254, 237, 0, 0, 0, 84, 0, 0, 0, 56, 0, 0, 0, 84, 0, 0, 0, 40,
     0, 0, 0, 17, 0, 0, 0, 16, 0, 0, 0, 0, 0, 0, 0, 0, 0, 0, 0, 28,
     0, 0, 0, 0, 0, 0, 0, 0, 0, 0, 0, 0, 0, 0, 0, 0, 0, 0, 0, 1,
     0, 0, 0, 0, 0, 0, 0, 1, 117, 0, 0, 0, 0, 0, 0, 2, 0, 0, 0, 2,
     0, 0, 0, 9]\<rparr>"

section \<open>Validation\<close>

text \<open>C11: \<^verbatim>\<open>fdt_check_full\<close> on a buffer of at least 40 bytes with any content, given its size, never reads
  outside the buffer and always returns.\<close>

theorem fdt_check_full_safe:
  assumes "40 \<le> length (fdt_bytes fdt)" "length (fdt_bytes fdt) < 2 ^ 31 - 4"
  shows "\<exists>r. fdt_check_full fdt (of_nat (length (fdt_bytes fdt))) = Some r"
proof -
  let ?n = "of_nat (length (fdt_bytes fdt)) :: size_t"
  obtain h where h: "fdt_check_header fdt = Some h"
    using fdt_check_header_total [OF assms(1)] by blast
  show ?thesis
  proof (cases "h = 0 \<and> \<not> ?n < ucast (hdr fdt 4)")
    case True
    then have buf: "fdt_buffer fdt"
      using fdt_buffer_of_checks [OF assms] by simp
    have "16 \<le> hdr fdt 4"
      using header_size_ge [of "hdr fdt 20"] fdt_check_header_totalsize [OF assms(1)] h True
      by (auto simp: word_le_def)
    from fdt_num_mem_rsv_total [OF buf this] check_full_loop_total [OF buf, of 0 0 False] show ?thesis
      using True h by (auto simp: fdt_check_full_def hdr_fields [OF assms(1)] fdt_header_size_def)
  next
    case False
    then show ?thesis
      using h by (auto simp: fdt_check_full_def hdr_fields [OF assms(1)] fdt_header_size_def)
  qed
qed

theorem fdt_check_full_safe_witness:
  "\<exists>r. fdt_check_full sample_fdt (of_nat (length (fdt_bytes sample_fdt))) = Some r"
  by (rule fdt_check_full_safe) (simp_all add: sample_fdt_length)

text \<open>C18: a buffer that \<^verbatim>\<open>fdt_check_full\<close> accepts holds a well-nested structure block: the tags read from
  offset 0 are at most one root node, with properties, padding and nested nodes inside it, closed by
  \<^verbatim>\<open>FDT_END\<close>.\<close>

theorem fdt_check_full_sound:
  assumes "40 \<le> length (fdt_bytes fdt)" "length (fdt_bytes fdt) < 2 ^ 31 - 4"
    "fdt_check_full fdt (of_nat (length (fdt_bytes fdt))) = Some 0"
  shows "\<exists>tags. tag_run fdt 0 tags \<and> block_tags tags"
proof -
  let ?n = "of_nat (length (fdt_bytes fdt)) :: size_t"
  have "\<not> ?n < ucast (hdr fdt 4) \<and> check_full_loop fdt 0 0 False = Some 0"
    using assms(3) by (auto simp: fdt_check_full_def hdr_fields [OF assms(1)] fdt_header_size_def bind_eq_Some_conv
        split: if_splits)
  then show ?thesis
    using check_full_loop_sound [OF fdt_buffer_of_checks [OF assms(1,2)], of 0 0 False]
    by (auto simp: block_rest_def)
qed

theorem fdt_check_full_sound_witness:
  "fdt_check_full tiny_fdt (of_nat (length (fdt_bytes tiny_fdt))) = Some 0 \<and>
   (\<exists>tags. tag_run tiny_fdt 0 tags \<and> block_tags tags)"
proof -
  have len: "length (fdt_bytes tiny_fdt) = 84"
    by (simp add: tiny_fdt_def)
  have ok: "fdt_check_full tiny_fdt (of_nat (length (fdt_bytes tiny_fdt))) = Some 0"
    unfolding len by code_simp
  then show ?thesis
    using fdt_check_full_sound [OF _ _ ok] by (simp add: len)
qed

text \<open>What a header that \<^verbatim>\<open>fdt_check_header\<close> accepts promises: an aligned blob with the right magic and a
  supported version, whose reservation map, structure block and string block lie between the header
  and the total size, which is at most \<^verbatim>\<open>INT_MAX\<close>.\<close>

theorem fdt_check_header_sound:
  assumes "40 \<le> length (fdt_bytes fdt)" "fdt_check_header fdt = Some 0"
  shows "fdt_addr fdt AND 7 = 0 \<and> fdt_magic fdt = Some FDT_MAGIC \<and>
    (\<exists>version lastcomp total struct strings rsvmap size_strings size_struct.
       fdt_version fdt = Some version \<and> fdt_last_comp_version fdt = Some lastcomp \<and> 2 \<le> version \<and>
       lastcomp \<le> version \<and> lastcomp \<le> 17 \<and>
       fdt_totalsize fdt = Some total \<and> uint total \<le> INT_MAX \<and>
       fdt_off_mem_rsvmap fdt = Some rsvmap \<and> uint rsvmap mod 8 = 0 \<and> uint rsvmap \<le> uint total \<and>
       fdt_off_dt_struct fdt = Some struct \<and> uint struct mod 4 = 0 \<and>
       fdt_size_dt_struct fdt = Some size_struct \<and>
       uint struct + (if version < 17 then 0 else uint size_struct) \<le> uint total \<and>
       fdt_off_dt_strings fdt = Some strings \<and> fdt_size_dt_strings fdt = Some size_strings \<and>
       uint strings + uint size_strings \<le> uint total \<and>
       uint (fdt_header_size' version) \<le> min (uint rsvmap) (min (uint struct) (uint strings)))"
proof -
  have block: "uint base + uint sz \<le> uint total" if "check_block' h total base sz" for h total base sz
    using that u32_add_no_wrap [of base sz]
    by (auto simp: check_block'_def check_off'_def word_le_def split: if_splits)
  have mod8: "uint w mod 8 = 0" if "w mod 8 = 0" for w :: u32
    using that by (simp add: word_uint_eq_iff uint_mod)
  have mod4: "uint w mod 4 = 0" if "w mod 4 = 0" for w :: u32
    using that by (simp add: word_uint_eq_iff uint_mod)
  show ?thesis
    using assms(2) block [of "fdt_header_size' (hdr fdt 20)" "hdr fdt 4" "hdr fdt 8" "hdr fdt 36"]
      block [of "fdt_header_size' (hdr fdt 20)" "hdr fdt 4" "hdr fdt 12" "hdr fdt 32"]
      mod8 [of "hdr fdt 16"] mod4 [of "hdr fdt 8"]
    by (simp add: fdt_check_header_def hdr_fields [OF assms(1)] fdt_header_size_def split: if_splits)
      (auto simp: check_block'_def check_off'_def word_le_def word_less_def split: if_splits)
qed

theorem fdt_check_header_sound_witness:
  "fdt_check_header sample_fdt = Some 0 \<and> fdt_magic sample_fdt = Some FDT_MAGIC"
proof -
  have ok: "fdt_check_header sample_fdt = Some 0" by code_simp
  then show ?thesis
    using fdt_check_header_sound [OF _ ok] by (simp add: sample_fdt_length)
qed

section \<open>Lookups\<close>

text \<open>C35: \<^verbatim>\<open>fdt_getprop\<close> on any buffer returns; when it returns a value, the value and its length lie inside
  the blob's total size.\<close>

theorem fdt_getprop_in_bounds:
  assumes "fdt_buffer fdt" "nodeoffset < 2 ^ 31"
  shows "\<exists>r total. fdt_getprop fdt nodeoffset name = Some r \<and> fdt_totalsize fdt = Some total \<and>
    (case r of Inl e \<Rightarrow> e < 0 | Inr (p, len) \<Rightarrow> 0 \<le> p \<and> 0 \<le> len \<and> p + len \<le> uint total)"
  using assms by (cases rule: fdt_getprop_namelen_total [where name = name]) (use assms(1) in \<open>auto simp: fdt_getprop_def\<close>)

theorem fdt_getprop_in_bounds_witness:
  "fdt_getprop sample_fdt 28 (bytes_of ''reg'') = Some (Inr (108, 16)) \<and>
   (\<exists>r total. fdt_getprop sample_fdt 28 (bytes_of ''reg'') = Some r \<and> fdt_totalsize sample_fdt = Some total \<and>
     (case r of Inl e \<Rightarrow> e < 0 | Inr (p, len) \<Rightarrow> 0 \<le> p \<and> 0 \<le> len \<and> p + len \<le> uint total))"
proof -
  have "fdt_getprop sample_fdt 28 (bytes_of ''reg'') = Some (Inr (108, 16))"
    by code_simp
  then show ?thesis
    using fdt_getprop_in_bounds [OF sample_fdt_buffer, of 28 "bytes_of ''reg''"] by simp
qed

text \<open>\<^verbatim>\<open>fdt_path_offset\<close> on any buffer and any path, absolute or through an alias, returns: an error, the
  root, or an offset that \<^verbatim>\<open>fdt_check_node_offset_\<close> accepts as the start of a node.\<close>

theorem fdt_path_offset_safe:
  assumes "fdt_buffer fdt"
  shows "\<exists>n. fdt_path_offset_namelen fdt path = Some n \<and>
    (n \<le> 0 \<or> (\<exists>m. fdt_check_node_offset' fdt n = Some m \<and> n < m))"
proof -
  have "\<exists>m. fdt_check_node_offset' fdt n = Some m \<and> n < m" if "node_at fdt n" for n
    using that tag_step_bounds [of fdt n FDT_BEGIN_NODE]
    by (fastforce simp: node_at_def fdt_check_node_offset'_def)
  then show ?thesis
    using fdt_path_offset_namelen_total [OF assms, of path] by (auto simp: path_result_def)
qed

theorem fdt_path_offset_safe_witness:
  "\<exists>n. fdt_path_offset_namelen sample_fdt (bytes_of ''s'') = Some n \<and>
     (n \<le> 0 \<or> (\<exists>m. fdt_check_node_offset' sample_fdt n = Some m \<and> n < m))"
  by (rule fdt_path_offset_safe [OF sample_fdt_buffer])

text \<open>The loops \<^verbatim>\<open>fdt_for_each_subnode\<close> and \<^verbatim>\<open>fdt_for_each_property_offset\<close> end on any buffer, and visit each
  offset at most once, in increasing order.\<close>

theorem fdt_for_each_ends:
  assumes "fdt_buffer fdt" "node < 2 ^ 31"
  shows "(\<exists>os. fdt_for_each_subnode fdt node = Some os \<and> sorted_wrt (<) os) \<and>
    (\<exists>os. fdt_for_each_property_offset fdt node = Some os \<and> sorted_wrt (<) os)"
proof
  obtain n where n: "fdt_first_subnode fdt node = Some n" "n < 2 ^ 31"
    using assms by (cases rule: fdt_next_node_total [where depth = "Some 0"]) (auto simp: fdt_first_subnode_def)
  then show "\<exists>os. fdt_for_each_subnode fdt node = Some os \<and> sorted_wrt (<) os"
    using subnodes.for_each_forward [OF assms(1), of n] by (auto simp: fdt_for_each_subnode_def)
  obtain p where p: "fdt_first_property_offset fdt node = Some p" "p < 2 ^ 31"
    using assms by (cases rule: fdt_first_property_offset_total) auto
  then show "\<exists>os. fdt_for_each_property_offset fdt node = Some os \<and> sorted_wrt (<) os"
    using properties.for_each_forward [OF assms(1), of p] by (auto simp: fdt_for_each_property_offset_def)
qed

theorem fdt_for_each_ends_witness:
  "(\<exists>os. fdt_for_each_subnode sample_fdt 0 = Some os \<and> sorted_wrt (<) os) \<and>
   (\<exists>os. fdt_for_each_property_offset sample_fdt 0 = Some os \<and> sorted_wrt (<) os)"
  by (rule fdt_for_each_ends [OF sample_fdt_buffer]) simp

lemma fdt_get_phandle_total:
  assumes "fdt_buffer fdt" "offset < 2 ^ 31"
  shows "\<exists>w. fdt_get_phandle fdt offset = Some w"
proof -
  have g: "\<exists>r. fdt_getprop fdt offset name = Some r \<and> (\<forall>p. r = Inr (p, 4) \<longrightarrow> (\<exists>w. fdt32_ld fdt p = Some w))" for name
    using assms
  proof (cases rule: fdt_getprop_namelen_total [where name = name])
    case (2 p len)
    then have "\<exists>w. fdt32_ld fdt p = Some w" if "len = 4"
      using that fdt_buffer_totalsize(1) [OF assms(1)] by (auto intro!: fdt32_ld_total)
    then show ?thesis
      using 2 by (auto simp: fdt_getprop_def)
  qed (simp add: fdt_getprop_def)
  obtain r where r: "fdt_getprop fdt offset (bytes_of ''phandle'') = Some r"
    "\<And>p. r = Inr (p, 4) \<Longrightarrow> \<exists>w. fdt32_ld fdt p = Some w" using g by blast
  obtain r' where r': "fdt_getprop fdt offset (bytes_of ''linux,phandle'') = Some r'"
    "\<And>p. r' = Inr (p, 4) \<Longrightarrow> \<exists>w. fdt32_ld fdt p = Some w" using g by blast
  show ?thesis
    using r r' by (cases r; cases r') (auto simp: fdt_get_phandle_def)
qed

text \<open>\<^verbatim>\<open>fdt_node_offset_by_phandle\<close> on any buffer returns, and an offset it returns is a node with that
  phandle.\<close>

theorem fdt_node_offset_by_phandle_correct:
  assumes "fdt_buffer fdt"
  shows "\<exists>n. fdt_node_offset_by_phandle fdt phandle = Some n \<and> (n < 0 \<or> fdt_get_phandle fdt n = Some phandle)"
proof -
  define found where "found = (\<lambda>offset. do { val \<leftarrow> fdt_get_phandle fdt offset;
    Some (if val = phandle then Some offset else None) })"
  have loop: "node_search fdt found o' = next_node fdt o' \<bind> (\<lambda>n. if n \<ge> 0 then found n \<bind> (\<lambda>r. case r of
      Some r \<Rightarrow> Some r | None \<Rightarrow> node_search fdt found n) else Some n)" for o'
    by (subst node_search.simps) (cases "fdt_next_node fdt o' None"; auto simp: next_node_def)
  have tot: "\<exists>r. found n = Some r" if "node_at fdt n" "n < 2 ^ 31" for n
    using fdt_get_phandle_total [OF assms that(2)] by (auto simp: found_def)
  have "\<exists>r. node_search fdt found (- 1) = Some r \<and> (r < 0 \<or> (\<exists>n. node_at fdt n \<and> found n = Some (Some r)))"
    by (rule nodes.search_total [OF assms _ tot loop]) simp
  then have "\<exists>r. node_search fdt found (- 1) = Some r \<and> (r < 0 \<or> fdt_get_phandle fdt r = Some phandle)"
    by (auto simp: found_def bind_eq_Some_conv split: if_splits)
  then obtain r where r: "node_search fdt found (- 1) = Some r" "r < 0 \<or> fdt_get_phandle fdt r = Some phandle"
    by blast
  from assms show ?thesis
    by (cases rule: FDT_RO_PROBE_total [where k = "node_search fdt found (- 1)"])
      (use r in \<open>simp_all add: fdt_node_offset_by_phandle_def flip: found_def\<close>)
qed

theorem fdt_node_offset_by_phandle_correct_witness:
  "\<exists>n. fdt_node_offset_by_phandle sample_fdt 1 = Some n \<and> (n < 0 \<or> fdt_get_phandle sample_fdt n = Some 1)"
  by (rule fdt_node_offset_by_phandle_correct [OF sample_fdt_buffer])

end
