(* ===== verification/Fdt_Rw_Props.thy ===== *)
theory Fdt_Rw_Props
  imports Fdt_Rw Fdt_Finish Fdt_Props
begin

unbundle bit_operations_syntax

text \<open>
  The splice on which every edit of a tree rests: it moves the rest of the blob, keeps everything before the splice point,
  adjusts the header, and refuses exactly the edits that do not fit.
\<close>

section \<open>The bounds checks\<close>

text \<open>The checks of \<^verbatim>\<open>fdt_splice_\<close> are made in \<^verbatim>\<open>size_t\<close> and \<^verbatim>\<open>unsigned int\<close>; on lengths of type \<^verbatim>\<open>int\<close> they mean what they say.\<close>

lemma mod_negative: "- m \<le> x \<Longrightarrow> x < 0 \<Longrightarrow> x mod m = x + m" for m x :: int
  using mod_pos_pos_trivial [of "x + m" m] by simp

lemma uint_of_int_u64: "uint (word_of_int x :: u64) = x mod 18446744073709551616"
  by (simp add: uint_word_of_int)

lemma splice_point_check:
  fixes dsize :: u32
  assumes "- 2147483648 \<le> p" "p < 2147483648" "oldlen < 2147483648"
  shows "(oldlen < 0 \<or> (word_of_int p :: u64) + word_of_int oldlen < word_of_int p
      \<or> (word_of_int p :: u64) + word_of_int oldlen > ucast dsize)
    \<longleftrightarrow> (oldlen < 0 \<or> p < 0 \<or> uint dsize < p + oldlen)"
proof (cases "oldlen < 0")
  case False
  have d: "uint dsize < 4294967296" "uint (ucast dsize :: u64) = uint dsize"
    using uint_bounded [of dsize] by (simp_all add: uint_up_ucast is_up)
  have sum: "uint ((word_of_int p :: u64) + word_of_int oldlen) = (p + oldlen) mod 18446744073709551616"
    by (simp only: wi_hom_add uint_of_int_u64)
  show ?thesis
  proof (cases "p < 0")
    case True
    have "p mod 18446744073709551616 = p + 18446744073709551616"
      using True assms by (intro mod_negative) auto
    moreover have "(p + oldlen) mod 18446744073709551616 = (if p + oldlen < 0 then p + oldlen + 18446744073709551616 else p + oldlen)"
      using True False assms by (auto intro!: mod_negative mod_pos_pos_trivial)
    ultimately show ?thesis
      using True False assms d by (auto simp: word_less_def sum uint_of_int_u64)
  next
    case p: False
    have "p mod 18446744073709551616 = p" "(p + oldlen) mod 18446744073709551616 = p + oldlen"
      using p False assms by (auto intro!: mod_pos_pos_trivial)
    then show ?thesis
      using p False d by (auto simp: word_less_def sum uint_of_int_u64)
  qed
qed simp

lemma splice_length_checks:
  fixes dsize :: u32
  assumes "uint dsize < 2147483648" "0 \<le> oldlen" "oldlen \<le> uint dsize" "0 \<le> newlen" "newlen < 2147483648"
  shows "\<not> dsize + word_of_int newlen < word_of_int oldlen"
    and "uint (dsize - word_of_int oldlen + word_of_int newlen) = uint dsize - oldlen + newlen"
proof -
  have o: "uint (word_of_int oldlen :: u32) = oldlen" and n: "uint (word_of_int newlen :: u32) = newlen"
    using assms by (simp_all add: uint_word_of_int)
  have "uint (dsize + word_of_int newlen) = uint dsize + newlen"
    unfolding uint_word_ariths n using assms by (simp add: uint_ge_0)
  then show "\<not> dsize + word_of_int newlen < word_of_int oldlen"
    using assms o by (simp add: word_less_def)
  have "uint (dsize - word_of_int oldlen) = uint dsize - oldlen"
    unfolding uint_word_ariths o using assms by simp
  then show "uint (dsize - word_of_int oldlen + word_of_int newlen) = uint dsize - oldlen + newlen"
    unfolding uint_word_ariths(1) [of "dsize - word_of_int oldlen"] n using assms by simp
qed

section \<open>The splice\<close>

text \<open>The tail of the blob behind the old region moved behind the new one, nothing else changed.\<close>

definition tail_moved :: "fdt \<Rightarrow> int \<Rightarrow> int \<Rightarrow> int \<Rightarrow> int \<Rightarrow> fdt \<Rightarrow> bool" where
  "tail_moved fdt p oldlen newlen dsize fdt' \<longleftrightarrow>
     length (fdt_bytes fdt') = length (fdt_bytes fdt) \<and> fdt_addr fdt' = fdt_addr fdt
     \<and> (\<forall>q. rd8 fdt' q = (if p + newlen \<le> q \<and> q < dsize - oldlen + newlen then rd8 fdt (q - newlen + oldlen) else rd8 fdt q))"

text \<open>A blob whose strings end inside its total size, which the probe of every edit has checked.\<close>

definition strings_inside :: "fdt \<Rightarrow> bool" where
  "strings_inside fdt \<longleftrightarrow> fdt_buffer fdt \<and> uint (hdr fdt 12) + uint (hdr fdt 32) \<le> uint (hdr fdt 4)"

lemma strings_inside_size:
  assumes "strings_inside fdt"
  shows "uint (hdr fdt 12 + hdr fdt 32) = uint (hdr fdt 12) + uint (hdr fdt 32)" "uint (hdr fdt 4) < 2147483644"
    "uint (hdr fdt 4) \<le> int (length (fdt_bytes fdt))"
proof -
  have b: "fdt_buffer fdt" and le: "uint (hdr fdt 12) + uint (hdr fdt 32) \<le> uint (hdr fdt 4)"
    using assms by (simp_all add: strings_inside_def)
  show "uint (hdr fdt 4) \<le> int (length (fdt_bytes fdt))" "uint (hdr fdt 4) < 2147483644"
    using fdt_buffer_totalsize [OF b] by simp_all
  with le show "uint (hdr fdt 12 + hdr fdt 32) = uint (hdr fdt 12) + uint (hdr fdt 32)"
    unfolding uint_word_ariths by (simp add: uint_ge_0)
qed

lemma tail_moved_write:
  assumes w: "wr_bytes fdt (p + newlen) bs = Some fdt'" and len: "int (length bs) = dsize - (p + oldlen)"
    and bs: "bytes_at fdt (p + oldlen) bs"
  shows "tail_moved fdt p oldlen newlen dsize fdt'"
proof -
  have "rd8 fdt' q = rd8 fdt (q - newlen + oldlen)" if "p + newlen \<le> q" "q < dsize - oldlen + newlen" for q
  proof -
    have i: "nat (q - (p + newlen)) < length bs"
      using that len by linarith
    with bs have "rd8 fdt (p + oldlen + int (nat (q - (p + newlen)))) = Some (bs ! nat (q - (p + newlen)))"
      unfolding bytes_at_def by blast
    moreover have "p + oldlen + int (nat (q - (p + newlen))) = q - newlen + oldlen"
      using that by simp
    ultimately show ?thesis
      using that len by (simp add: rd8_wr_bytes [OF w] add.commute)
  qed
  moreover have "rd8 fdt' q = rd8 fdt q" if "\<not> (p + newlen \<le> q \<and> q < dsize - oldlen + newlen)" for q
    using that len by (intro rd8_wr_bytes_other [OF w]) auto
  ultimately show ?thesis
    by (simp add: tail_moved_def wr_bytes_length [OF w] wr_bytes_addr [OF w])
qed

lemma splice_spec:
  assumes ok: "strings_inside fdt" and ds: "dsize = uint (hdr fdt 12) + uint (hdr fdt 32)"
    and p: "- 2147483648 \<le> p" "p < 2147483648" and len: "oldlen < 2147483648" "0 \<le> newlen" "newlen < 2147483648"
  shows "if oldlen < 0 \<or> p < 0 \<or> dsize < p + oldlen then fdt_splice' fdt p oldlen newlen = Some (- FDT_ERR_BADOFFSET, fdt)
    else if uint (hdr fdt 4) < dsize - oldlen + newlen then fdt_splice' fdt p oldlen newlen = Some (- FDT_ERR_NOSPACE, fdt)
    else \<exists>fdt'. fdt_splice' fdt p oldlen newlen = Some (0, fdt') \<and> tail_moved fdt p oldlen newlen dsize fdt'"
proof -
  have b: "fdt_buffer fdt"
    using ok by (simp add: strings_inside_def)
  note size = strings_inside_size [OF ok]
  let ?ds = "hdr fdt 12 + hdr fdt 32"
  have d: "uint ?ds = dsize" "dsize < 2147483648" "dsize \<le> uint (hdr fdt 4)"
    using size ok ds by (simp_all add: strings_inside_def)
  have eq: "fdt_splice' fdt p oldlen newlen =
      (if oldlen < 0 \<or> p < 0 \<or> dsize < p + oldlen then Some (- FDT_ERR_BADOFFSET, fdt)
       else if p < 0 \<or> ?ds + word_of_int newlen < word_of_int oldlen then Some (- FDT_ERR_BADOFFSET, fdt)
       else if ?ds - word_of_int oldlen + word_of_int newlen > hdr fdt 4 then Some (- FDT_ERR_NOSPACE, fdt)
       else do { fdt \<leftarrow> mv_bytes fdt (p + newlen) (p + oldlen) (dsize - (p + oldlen)); Some (0, fdt) })"
    using b by (simp add: fdt_splice'_def fdt_data_size'_def splice_point_check [OF p len(1)] d)
  show ?thesis
  proof (cases "oldlen < 0 \<or> p < 0 \<or> dsize < p + oldlen")
    case False
    then have "uint ?ds < 2147483648" "0 \<le> oldlen" "oldlen \<le> uint ?ds"
      using d by auto
    note c = splice_length_checks [OF this len(2,3)]
    show ?thesis
    proof (cases "uint (hdr fdt 4) < dsize - oldlen + newlen")
      case True
      then show ?thesis
        using False eq c d by (simp add: word_less_def)
    next
      case fits: False
      have "0 \<le> p + newlen" "0 \<le> p + oldlen" "0 \<le> dsize - (p + oldlen)"
        "p + newlen + (dsize - (p + oldlen)) \<le> int (length (fdt_bytes fdt))"
        "p + oldlen + (dsize - (p + oldlen)) \<le> int (length (fdt_bytes fdt))"
        using False fits len d size(3) by linarith+
      then obtain fdt' bs where m: "mv_bytes fdt (p + newlen) (p + oldlen) (dsize - (p + oldlen)) = Some fdt'"
        "wr_bytes fdt (p + newlen) bs = Some fdt'" "int (length bs) = dsize - (p + oldlen)" "bytes_at fdt (p + oldlen) bs"
        by (rule mv_bytes_spec)
      have "tail_moved fdt p oldlen newlen dsize fdt'"
        using m(2-4) by (rule tail_moved_write)
      with False fits eq c d m(1) show ?thesis
        by (simp add: word_less_def)
    qed
  qed (simp add: eq)
qed

lemma tail_moved_header:
  assumes "tail_moved fdt p oldlen newlen dsize fdt'" "40 \<le> p + newlen" "q + 4 \<le> 40"
  shows "fdt32_ld fdt' q = fdt32_ld fdt q"
  using assms by (intro fdt32_ld_cong) (auto simp: tail_moved_def)

lemma splice_struct_spec:
  assumes ok: "strings_inside fdt" and ds: "dsize = uint (hdr fdt 12) + uint (hdr fdt 32)"
    and p: "40 \<le> p" "p < 2147483648" and len: "oldlen < 2147483648" "0 \<le> newlen" "newlen < 2147483648"
  shows "if oldlen < 0 \<or> dsize < p + oldlen then fdt_splice_struct' fdt p oldlen newlen = Some (- FDT_ERR_BADOFFSET, fdt)
    else if uint (hdr fdt 4) < dsize - oldlen + newlen then fdt_splice_struct' fdt p oldlen newlen = Some (- FDT_ERR_NOSPACE, fdt)
    else \<exists>fdt'. fdt_splice_struct' fdt p oldlen newlen = Some (0, fdt')
      \<and> length (fdt_bytes fdt') = length (fdt_bytes fdt) \<and> fdt_addr fdt' = fdt_addr fdt
      \<and> (\<forall>q \<ge> 40. rd8 fdt' q =
            (if p + newlen \<le> q \<and> q < dsize - oldlen + newlen then rd8 fdt (q - newlen + oldlen) else rd8 fdt q))
      \<and> fdt_size_dt_struct fdt' = Some (hdr fdt 36 + word_of_int (newlen - oldlen))
      \<and> fdt_off_dt_strings fdt' = Some (hdr fdt 12 + word_of_int (newlen - oldlen))
      \<and> (\<forall>q \<in> {0, 4, 8, 16, 20, 24, 28, 32}. fdt32_ld fdt' q = fdt32_ld fdt q)"
proof -
  have b: "fdt_buffer fdt"
    using ok by (simp add: strings_inside_def)
  have err: "FDT_ERR_BADOFFSET \<noteq> 0" "FDT_ERR_NOSPACE \<noteq> 0"
    by simp_all
  have "- 2147483648 \<le> p" "\<not> p < 0"
    using p by auto
  note sp = splice_spec [OF ok ds this(1) p(2) len]
  show ?thesis
  proof (cases "(oldlen < 0 \<or> dsize < p + oldlen) \<or> uint (hdr fdt 4) < dsize - oldlen + newlen")
    case True
    then show ?thesis
      using sp err \<open>\<not> p < 0\<close> by (auto simp: fdt_splice_struct'_def split: if_splits)
  next
    case False
    then obtain f1 where f1: "fdt_splice' fdt p oldlen newlen = Some (0, f1)" "tail_moved fdt p oldlen newlen dsize f1"
      using sp \<open>\<not> p < 0\<close> by auto
    have h1: "fdt32_ld f1 q = fdt32_ld fdt q" if "q + 4 \<le> 40" for q
      using f1(2) _ that by (rule tail_moved_header) (use p len in auto)
    have l1: "40 \<le> int (length (fdt_bytes f1))"
      using f1(2) fdt_buffer_header [OF b] by (simp add: tail_moved_def)
    obtain f2 where f2: "fdt32_st f1 36 (hdr fdt 36 + word_of_int (newlen - oldlen)) = Some f2"
      using fdt32_st_total [of 36 f1] l1 by auto
    obtain f3 where f3: "fdt32_st f2 12 (hdr fdt 12 + word_of_int (newlen - oldlen)) = Some f3"
      using fdt32_st_total [of 12 f2] l1 fdt32_st_length [OF f2] by auto
    have flds: "fdt32_ld fdt 36 = Some (hdr fdt 36)" "fdt32_ld fdt 12 = Some (hdr fdt 12)"
      using fdt_buffer_hdr [OF b] by (simp_all add: fdt_size_dt_struct_def fdt_off_dt_strings_def)
    then have "fdt_splice_struct' fdt p oldlen newlen = Some (0, f3)"
      using f1(1) f2 f3 h1 fdt32_ld_st_other [OF f2, of 12]
      by (simp add: fdt_splice_struct'_def fdt_size_dt_struct_def fdt_off_dt_strings_def fdt_set_defs)
    moreover have "rd8 f3 q =
        (if p + newlen \<le> q \<and> q < dsize - oldlen + newlen then rd8 fdt (q - newlen + oldlen) else rd8 fdt q)" if "q \<ge> 40" for q
      using f1(2) that rd8_st_other [OF f2, of q] rd8_st_other [OF f3, of q] by (simp add: tail_moved_def)
    moreover have "fdt_size_dt_struct f3 = Some (hdr fdt 36 + word_of_int (newlen - oldlen))"
      "fdt_off_dt_strings f3 = Some (hdr fdt 12 + word_of_int (newlen - oldlen))"
      using fdt32_ld_st_same [OF f2] fdt32_ld_st_same [OF f3] fdt32_ld_st_other [OF f3, of 36]
      by (simp_all add: fdt_size_dt_struct_def fdt_off_dt_strings_def)
    moreover have "fdt32_ld f3 q = fdt32_ld fdt q" if "q \<in> {0, 4, 8, 16, 20, 24, 28, 32}" for q
      using that h1 [of q] fdt32_ld_st_other [OF f2, of q] fdt32_ld_st_other [OF f3, of q] by auto
    moreover have "length (fdt_bytes f3) = length (fdt_bytes fdt)" "fdt_addr f3 = fdt_addr fdt"
      using f1(2) f2 f3 by (simp_all add: tail_moved_def fdt32_st_length fdt32_st_addr)
    ultimately show ?thesis
      using False by auto
  qed
qed

text \<open>\<^verbatim>\<open>fdt_splice_struct_\<close>, which makes room for every edit of the structure block, at a point behind the header of a blob
  whose strings end inside its total size.  It refuses, with the blob unchanged, exactly a region that is not inside the used part
  (\<^verbatim>\<open>BADOFFSET\<close>) and a result that is larger than the total size (\<^verbatim>\<open>NOSPACE\<close>).  Otherwise the bytes behind the old region follow the
  new one, every other byte behind the header is kept, the size of the structure block and the offset of the strings change by
  the difference of the lengths, and the rest of the header is kept.\<close>
theorem fdt_splice_struct_correct:
  assumes ok: "strings_inside fdt" and ds: "dsize = uint (hdr fdt 12) + uint (hdr fdt 32)"
    and p: "40 \<le> p" "p < 2147483648" and len: "oldlen < 2147483648" "0 \<le> newlen" "newlen < 2147483648"
  shows "if oldlen < 0 \<or> dsize < p + oldlen then fdt_splice_struct' fdt p oldlen newlen = Some (- FDT_ERR_BADOFFSET, fdt)
    else if uint (hdr fdt 4) < dsize - oldlen + newlen then fdt_splice_struct' fdt p oldlen newlen = Some (- FDT_ERR_NOSPACE, fdt)
    else \<exists>fdt'. fdt_splice_struct' fdt p oldlen newlen = Some (0, fdt')
      \<and> (\<forall>q \<ge> 40. rd8 fdt' q =
            (if p + newlen \<le> q \<and> q < dsize - oldlen + newlen then rd8 fdt (q - newlen + oldlen) else rd8 fdt q))
      \<and> fdt_size_dt_struct fdt' = Some (hdr fdt 36 + word_of_int (newlen - oldlen))
      \<and> fdt_off_dt_strings fdt' = Some (hdr fdt 12 + word_of_int (newlen - oldlen))
      \<and> (\<forall>q \<in> {0, 4, 8, 16, 20, 24, 28, 32}. fdt32_ld fdt' q = fdt32_ld fdt q)"
  using splice_struct_spec [OF assms] by (auto split: if_splits)

text \<open>The sample blob has 213 bytes, and its strings end there.\<close>

theorem fdt_splice_struct_correct_witness:
  "fdt_splice_struct' sample_fdt 108 16 20 = Some (- FDT_ERR_NOSPACE, sample_fdt)
   \<and> (\<exists>fdt'. fdt_splice_struct' sample_fdt 108 16 0 = Some (0, fdt') \<and> fdt_size_dt_struct fdt' = Some 116)"
proof -
  have h: "hdr sample_fdt 4 = 213" "hdr sample_fdt 12 = 188" "hdr sample_fdt 32 = 25" "hdr sample_fdt 36 = 132"
    by code_simp+
  then have ok: "strings_inside sample_fdt"
    using sample_fdt_buffer by (simp add: strings_inside_def)
  show ?thesis
    using fdt_splice_struct_correct [OF ok refl, of 108 16 20] fdt_splice_struct_correct [OF ok refl, of 108 16 0]
    by (auto simp: h)
qed

end
