(* ===== verification/Fdt_Edit.thy ===== *)
theory Fdt_Edit
  imports Fdt_Rw_Props
begin

unbundle bit_operations_syntax

text \<open>
  Editing a tree, seen as a list of tokens.  A blob that is open for editing has its blocks in order, with room for the strings inside
  the total size; its structure block holds a list of tokens and the end tag.  A splice in the middle of the block moves the tokens
  behind it and the strings, and keeps what they say; filling the gap with the encoding of new tokens makes a blob that holds the
  edited list.
\<close>

section \<open>Blobs open for editing\<close>

definition edit_inv :: "fdt \<Rightarrow> bool" where
  "edit_inv fdt \<longleftrightarrow>
     blk_inv fdt \<and> fdt_addr fdt AND 7 = 0 \<and> hdr fdt 0 = FDT_MAGIC \<and> hdr fdt 24 \<le> 17 \<and>
     40 \<le> uint (hdr fdt 16) \<and> uint (hdr fdt 16) + 16 \<le> uint (hdr fdt 8) \<and>
     uint (hdr fdt 8) + uint (hdr fdt 36) \<le> uint (hdr fdt 12) \<and> uint (hdr fdt 12) + uint (hdr fdt 32) \<le> uint (hdr fdt 4)"

text \<open>The tokens from offset 0 to the end tag at \<open>e\<close>.\<close>

definition ends_at :: "fdt \<Rightarrow> int \<Rightarrow> bool" where
  "ends_at fdt e \<longleftrightarrow> fdt32_ld fdt (uint (hdr fdt 8) + e) = Some FDT_END \<and> e + 4 \<le> uint (hdr fdt 36)"

abbreviation edit_toks :: "fdt \<Rightarrow> int \<Rightarrow> token list \<Rightarrow> int \<Rightarrow> bool" where
  "edit_toks fdt \<equiv> toks_in (fin_name fdt) fdt"

definition tree_toks :: "fdt \<Rightarrow> token list \<Rightarrow> bool" where
  "tree_toks fdt ts \<longleftrightarrow> edit_inv fdt \<and> (\<exists>e. edit_toks fdt 0 ts e \<and> ends_at fdt e)"

text \<open>The free bytes behind the string table.\<close>

definition edit_room :: "fdt \<Rightarrow> int" where
  "edit_room fdt = uint (hdr fdt 4) - (uint (hdr fdt 12) + uint (hdr fdt 32))"

lemma tree_toksI:
  "edit_inv fdt \<Longrightarrow> edit_toks fdt 0 ts a \<Longrightarrow> edit_toks fdt a us e \<Longrightarrow> ends_at fdt e \<Longrightarrow> tree_toks fdt (ts @ us)"
  by (auto simp: tree_toks_def toks_in_append)

lemma edit_inv_blk: "edit_inv fdt \<Longrightarrow> blk_inv fdt"
  by (simp add: edit_inv_def)

lemma edit_inv_buffer: "edit_inv fdt \<Longrightarrow> fdt_buffer fdt"
  by (simp add: edit_inv_def blk_inv_def)

lemma edit_inv_sizes:
  assumes "edit_inv fdt"
  shows "uint (hdr fdt 8) + uint (hdr fdt 36) \<le> uint (hdr fdt 12)" "uint (hdr fdt 12) + uint (hdr fdt 32) \<le> uint (hdr fdt 4)"
    "uint (hdr fdt 4) < 2147483644" "uint (hdr fdt 4) \<le> int (length (fdt_bytes fdt))" "56 \<le> uint (hdr fdt 8)"
    "0 \<le> uint (hdr fdt 36)" "0 \<le> uint (hdr fdt 32)" "40 \<le> uint (hdr fdt 16)" "uint (hdr fdt 16) + 16 \<le> uint (hdr fdt 8)"
    "uint (hdr fdt 36) < 2147483588" "uint (hdr fdt 12) \<le> int (length (fdt_bytes fdt))" "uint (hdr fdt 12) < 2147483644"
proof -
  show s: "uint (hdr fdt 8) + uint (hdr fdt 36) \<le> uint (hdr fdt 12)" "uint (hdr fdt 12) + uint (hdr fdt 32) \<le> uint (hdr fdt 4)"
    "uint (hdr fdt 4) < 2147483644" "uint (hdr fdt 4) \<le> int (length (fdt_bytes fdt))" "56 \<le> uint (hdr fdt 8)"
    "0 \<le> uint (hdr fdt 36)" "0 \<le> uint (hdr fdt 32)" "40 \<le> uint (hdr fdt 16)" "uint (hdr fdt 16) + 16 \<le> uint (hdr fdt 8)"
    using assms blk_inv_sizes [OF edit_inv_blk [OF assms]] by (auto simp: edit_inv_def)
  then show "uint (hdr fdt 36) < 2147483588" "uint (hdr fdt 12) \<le> int (length (fdt_bytes fdt))" "uint (hdr fdt 12) < 2147483644"
    by linarith+
qed

lemma edit_probe:
  assumes "edit_inv fdt"
  shows "fdt_ro_probe' fdt = Some (uint (hdr fdt 4))" "fdt_rw_probe' fdt = Some (0, fdt)"
proof -
  note inv = assms [unfolded edit_inv_def blk_inv_def] and S = edit_inv_sizes [OF assms]
  have buf: "fdt_buffer fdt" by (rule edit_inv_buffer [OF assms])
  show ro: "fdt_ro_probe' fdt = Some (uint (hdr fdt 4))"
    using inv S buf by (simp add: fdt_ro_probe'_def leD)
  have s36: "sint (hdr fdt 36) = uint (hdr fdt 36)"
    using S by (intro sint_small_u32) linarith
  have a: "uint (hdr fdt 16 + 16) = uint (hdr fdt 16) + 16"
    using S by (intro uint_u32_sum refl) (simp, linarith)
  have b: "uint (hdr fdt 8 + hdr fdt 36) = uint (hdr fdt 8) + uint (hdr fdt 36)"
    using S by (intro uint_u32_sum refl) linarith
  have c: "uint (hdr fdt 12 + hdr fdt 32) = uint (hdr fdt 12) + uint (hdr fdt 32)"
    using S by (intro uint_u32_sum refl) linarith
  have "\<not> hdr fdt 16 < 40" "\<not> hdr fdt 8 < hdr fdt 16 + 16" "\<not> hdr fdt 12 < hdr fdt 8 + hdr fdt 36"
    "\<not> hdr fdt 4 < hdr fdt 12 + hdr fdt 32"
    using inv S by (simp_all add: word_less_def a b c)
  then show "fdt_rw_probe' fdt = Some (0, fdt)"
    using ro buf inv by (simp add: fdt_rw_probe'_def fdt_blocks_misordered'_def s36 fdt_downgrade_version_def)
qed

lemma edit_strings_inside: "edit_inv fdt \<Longrightarrow> strings_inside fdt"
  by (simp add: edit_inv_def strings_inside_def blk_inv_def)

text \<open>The header and the reservation map are where they were.\<close>

definition rsv_kept :: "fdt \<Rightarrow> fdt \<Rightarrow> bool" where
  "rsv_kept fdt fdt' \<longleftrightarrow> hdr fdt' 8 = hdr fdt 8 \<and> hdr fdt' 16 = hdr fdt 16 \<and>
     (\<forall>q. 40 \<le> q \<and> q < uint (hdr fdt 8) \<longrightarrow> rd8 fdt' q = rd8 fdt q)"

lemma rsv_kept_refl [simp]: "rsv_kept fdt fdt"
  by (simp add: rsv_kept_def)

lemma rsv_kept_trans: "rsv_kept a b \<Longrightarrow> rsv_kept b c \<Longrightarrow> rsv_kept a c"
  by (simp add: rsv_kept_def)

section \<open>Tokens that move\<close>

lemma bytes_at_shift:
  assumes "bytes_at fdt p bs" "\<And>q. p \<le> q \<Longrightarrow> q < p + int (length bs) \<Longrightarrow> rd8 fdt' (q + d) = rd8 fdt q"
  shows "bytes_at fdt' (p + d) bs"
  unfolding bytes_at_def
proof (intro allI impI)
  fix i assume "i < length bs"
  then show "rd8 fdt' (p + d + int i) = Some (bs ! i)"
    using assms(1) assms(2) [of "p + int i"] by (simp add: bytes_at_def algebra_simps)
qed

lemma ld_shift:
  assumes "\<And>q. p \<le> q \<Longrightarrow> q < p + 4 \<Longrightarrow> rd8 fdt' (q + d) = rd8 fdt q"
  shows "fdt32_ld fdt' (p + d) = fdt32_ld fdt p"
  using assms [of p] assms [of "p + 1"] assms [of "p + 2"] assms [of "p + 3"]
  by (simp add: fdt32_ld_def algebra_simps)

lemma tok_in_shift:
  assumes "tok_in N fdt o' t n" "0 \<le> o' + d" "n + d \<le> uint (hdr fdt' 36)" "k = uint (hdr fdt' 8) + d - uint (hdr fdt 8)"
    "\<And>p. uint (hdr fdt 8) + o' \<le> p \<Longrightarrow> p < uint (hdr fdt 8) + n \<Longrightarrow> rd8 fdt' (p + k) = rd8 fdt p"
  shows "tok_in N fdt' (o' + d) t (n + d)"
proof -
  have at: "uint (hdr fdt' 8) + (o' + d) + j = uint (hdr fdt 8) + o' + j + k" for j
    using assms(4) by simp
  have ld: "fdt32_ld fdt' (uint (hdr fdt' 8) + (o' + d) + j) = fdt32_ld fdt (uint (hdr fdt 8) + o' + j)"
    if "0 \<le> j" "o' + j + 4 \<le> n" for j
    unfolding at [of j] using that by (intro ld_shift assms(5)) auto
  have bt: "bytes_at fdt' (uint (hdr fdt' 8) + (o' + d) + j) bs"
    if "bytes_at fdt (uint (hdr fdt 8) + o' + j) bs" "0 \<le> j" "o' + j + int (length bs) \<le> n" for j bs
    unfolding at [of j] using that by (intro bytes_at_shift [OF that(1)] assms(5)) auto
  show ?thesis
  proof (cases t)
    case (TBegin name)
    then show ?thesis
      using assms(1-3) ld [of 0] bt [of 4 "name @ [0]"] round4_bounds(1) [of "int (length name) + 1"] by auto
  next
    case TEnd
    then show ?thesis using assms(1-3) ld [of 0] by auto
  next
    case (TProp name val)
    then show ?thesis
      using assms(1-3) ld [of 0] ld [of 4] ld [of 8] bt [of 12 val] round4_bounds(1) [of "int (length val)"] by auto
  qed
qed

lemma toks_in_shift:
  assumes "k = uint (hdr fdt' 8) + d - uint (hdr fdt 8)"
  shows "toks_in N fdt o' ts n \<Longrightarrow> 0 \<le> o' + d \<Longrightarrow> n + d \<le> uint (hdr fdt' 36) \<Longrightarrow>
    (\<And>p. uint (hdr fdt 8) + o' \<le> p \<Longrightarrow> p < uint (hdr fdt 8) + n \<Longrightarrow> rd8 fdt' (p + k) = rd8 fdt p)
    \<Longrightarrow> toks_in N fdt' (o' + d) ts (n + d)"
proof (induction ts arbitrary: o')
  case (Cons t ts)
  then obtain m where m: "tok_in N fdt o' t m" "toks_in N fdt m ts n" by auto
  note b = tok_in_bounds [OF m(1)] toks_in_le [OF m(2)]
  have "tok_in N fdt' (o' + d) t (m + d)"
    using b Cons.prems(2,3) by (intro tok_in_shift [OF m(1) _ _ assms] Cons.prems(4)) auto
  moreover have "toks_in N fdt' (m + d) ts (n + d)"
    using b Cons.prems(2,3) by (intro Cons.IH [OF m(2)] Cons.prems(4)) auto
  ultimately show ?case by auto
qed simp

section \<open>Making room\<close>

lemma uint_add_of_int: "0 \<le> uint w + d \<Longrightarrow> uint w + d < 4294967296 \<Longrightarrow> uint (w + word_of_int d :: u32) = uint w + d"
  by (simp add: uint_word_ariths uint_word_of_int mod_add_right_eq)

lemma fin_name_shift:
  assumes "fin_name fdt off nm" "hdr fdt' 32 = hdr fdt 32" "uint (hdr fdt' 12) = uint (hdr fdt 12) + d"
    "\<And>q. uint (hdr fdt 12) \<le> q \<Longrightarrow> q < uint (hdr fdt 12) + uint (hdr fdt 32) \<Longrightarrow> rd8 fdt' (q + d) = rd8 fdt q"
  shows "fin_name fdt' off nm"
proof -
  have "bytes_at fdt' (uint (hdr fdt 12) + uint off + d) (nm @ [0])"
  proof (rule bytes_at_shift)
    show "bytes_at fdt (uint (hdr fdt 12) + uint off) (nm @ [0])"
      using assms(1) by (simp add: fin_name_def)
    fix q assume q: "uint (hdr fdt 12) + uint off \<le> q" "q < uint (hdr fdt 12) + uint off + int (length (nm @ [0]))"
    show "rd8 fdt' (q + d) = rd8 fdt q"
    proof (rule assms(4))
      show "uint (hdr fdt 12) \<le> q" using q(1) uint_ge_0 [of off] by linarith
      show "q < uint (hdr fdt 12) + uint (hdr fdt 32)" using q(2) assms(1) by (simp add: fin_name_def)
    qed
  qed
  then show ?thesis
    using assms(1-3) by (simp add: fin_name_def algebra_simps)
qed

lemma splice_struct_toks:
  assumes inv: "edit_inv fdt" and pre: "edit_toks fdt 0 pre a" and post: "edit_toks fdt b post e" and fin: "ends_at fdt e"
    and x: "a \<le> x" "x \<le> b" and new: "0 \<le> newlen" "newlen < 2147483648" and d: "d = newlen - (b - x)"
  obtains "fdt_splice_struct' fdt (uint (hdr fdt 8) + x) (b - x) newlen = Some (- FDT_ERR_NOSPACE, fdt)"
    "edit_room fdt < d"
  | fdt' where "fdt_splice_struct' fdt (uint (hdr fdt 8) + x) (b - x) newlen = Some (0, fdt')" "edit_inv fdt'"
      "edit_toks fdt' 0 pre a" "edit_toks fdt' (x + newlen) post (e + d)" "ends_at fdt' (e + d)"
      "uint (hdr fdt' 36) = uint (hdr fdt 36) + d" "hdr fdt' 8 = hdr fdt 8"
      "\<And>q. uint (hdr fdt 8) \<le> q \<Longrightarrow> q < uint (hdr fdt 8) + x + newlen \<Longrightarrow> rd8 fdt' q = rd8 fdt q"
      "\<And>off nm. fin_name fdt off nm \<Longrightarrow> fin_name fdt' off nm" "edit_room fdt' = edit_room fdt - d" "rsv_kept fdt fdt'"
proof -
  note S = edit_inv_sizes [OF inv]
  let ?s = "uint (hdr fdt 8)" and ?ds = "uint (hdr fdt 12) + uint (hdr fdt 32)"
  have b: "0 \<le> a" "b \<le> e" "e + 4 \<le> uint (hdr fdt 36)"
    using toks_in_le [OF pre] toks_in_le [OF post] fin by (auto simp: ends_at_def)
  have p: "40 \<le> ?s + x" "?s + x < 2147483648" "b - x < 2147483648" "\<not> (b - x < 0 \<or> ?ds < ?s + x + (b - x))"
    using b x S by linarith+
  have eb: "?s + e + 4 \<le> ?ds" using b S by linarith
  note sp = splice_struct_spec [OF edit_strings_inside [OF inv] refl p(1-3) new, unfolded if_not_P [OF p(4)]]
  have len: "?ds - (b - x) + newlen = ?ds + d" using d by simp
  show thesis
  proof (cases "uint (hdr fdt 4) < ?ds + d")
    case True
    then show thesis using that(1) sp by (simp add: len edit_room_def)
  next
    case False
    then obtain fdt' where f: "fdt_splice_struct' fdt (?s + x) (b - x) newlen = Some (0, fdt')"
      "length (fdt_bytes fdt') = length (fdt_bytes fdt)" "fdt_addr fdt' = fdt_addr fdt"
      "\<And>q. q \<ge> 40 \<Longrightarrow> rd8 fdt' q = (if ?s + x + newlen \<le> q \<and> q < ?ds + d then rd8 fdt (q - newlen + (b - x)) else rd8 fdt q)"
      "fdt_size_dt_struct fdt' = Some (hdr fdt 36 + word_of_int d)" "fdt_off_dt_strings fdt' = Some (hdr fdt 12 + word_of_int d)"
      "\<And>q. q \<in> {0, 4, 8, 16, 20, 24, 28, 32} \<Longrightarrow> fdt32_ld fdt' q = fdt32_ld fdt q"
      using sp d by (auto simp: len)
    have h: "hdr fdt' q = hdr fdt q" if "q \<in> {0, 4, 8, 16, 20, 24, 28, 32}" for q
      using f(7) [OF that] by (simp add: hdr_def)
    have "hdr fdt' 36 = hdr fdt 36 + word_of_int d" "hdr fdt' 12 = hdr fdt 12 + word_of_int d"
      using f(5,6) by (simp_all add: hdr_def fdt_size_dt_struct_def fdt_off_dt_strings_def)
    moreover have "0 \<le> uint (hdr fdt 36) + d" "uint (hdr fdt 36) + d < 4294967296" "0 \<le> uint (hdr fdt 12) + d"
      "uint (hdr fdt 12) + d < 4294967296"
      using b x d new S False by linarith+
    ultimately have sz: "uint (hdr fdt' 36) = uint (hdr fdt 36) + d" and st: "uint (hdr fdt' 12) = uint (hdr fdt 12) + d"
      by (simp_all only: uint_add_of_int)
    have moved: "rd8 fdt' (q + d) = rd8 fdt q" if "?s + b \<le> q" "q < ?ds" for q
    proof -
      have "40 \<le> q + d" "?s + x + newlen \<le> q + d" "q + d < ?ds + d" and orig: "q + d - newlen + (b - x) = q"
        using that d new x b S by linarith+
      then show ?thesis using f(4) [of "q + d"] unfolding orig by simp
    qed
    have kept: "rd8 fdt' q = rd8 fdt q" if "?s \<le> q" "q < ?s + x + newlen" for q
      using f(4) [of q] that S new by simp
    have "fdt_buffer fdt'"
      using f(2) h [of 4] by (intro fdt_buffer_cong [OF _ _ edit_inv_buffer [OF inv]]) auto
    moreover have "?s + (uint (hdr fdt 36) + d) \<le> uint (hdr fdt 4)" "?ds + d \<le> uint (hdr fdt 4)"
      using S False by linarith+
    ultimately have inv': "edit_inv fdt'"
      using inv f(3) h sz st by (simp add: edit_inv_def blk_inv_def)
    have names: "fin_name fdt' off nm" if "fin_name fdt off nm" for off nm
      using moved b S by (intro fin_name_shift [OF that _ st] h) auto
    have h8: "hdr fdt' 8 = hdr fdt 8" using h by simp
    have "toks_in (fin_name fdt) fdt' (0 + 0) pre (a + 0)"
      using x b sz d new kept by (intro toks_in_shift [OF _ pre, where k = 0]) (auto simp: h8)
    then have pre': "edit_toks fdt' 0 pre a"
      using names by (auto intro: toks_in_mono)
    have "toks_in (fin_name fdt) fdt' (b + d) post (e + d)"
      using x b eb sz d new by (intro toks_in_shift [OF _ post, where k = d] moved) (auto simp: h8)
    moreover have "b + d = x + newlen" using d by simp
    ultimately have post': "edit_toks fdt' (x + newlen) post (e + d)"
      using names by (auto intro: toks_in_mono)
    have "fdt32_ld fdt' (?s + e + d) = fdt32_ld fdt (?s + e)"
      using b eb by (intro ld_shift moved) auto
    then have fin': "ends_at fdt' (e + d)"
      using fin sz h8 by (simp add: ends_at_def add.assoc)
    have room: "edit_room fdt' = edit_room fdt - d"
      using h [of 4] h [of 32] st by (simp add: edit_room_def)
    have "rd8 fdt' q = rd8 fdt q" if "40 \<le> q" "q < ?s" for q
      using f(4) [of q] that b x new by simp
    then have rsv: "rsv_kept fdt fdt'"
      using h8 h [of 16] by (simp add: rsv_kept_def)
    show thesis
      by (rule that(2) [OF f(1) inv' pre' post' fin' sz h8 kept names room rsv])
  qed
qed

section \<open>Filling the gap\<close>

text \<open>A write inside the structure block keeps the rest of the blob and the strings.\<close>

lemma edit_inv_write:
  assumes "edit_inv fdt" "same_above lo hi fdt fdt'" "40 \<le> lo"
  shows "edit_inv fdt'"
proof -
  have h: "hdr fdt' k = hdr fdt k" if "k \<le> 36" for k by (rule same_above_hdr [OF assms(2,3) that])
  have "blk_inv fdt'" by (rule same_above_blk_inv [OF assms(2,3) edit_inv_blk [OF assms(1)]])
  then show ?thesis
    using assms(1,2) h by (simp add: edit_inv_def same_above_def)
qed

lemma edit_room_write: "same_above lo hi fdt fdt' \<Longrightarrow> 40 \<le> lo \<Longrightarrow> edit_room fdt' = edit_room fdt"
  by (simp add: edit_room_def same_above_hdr)

lemma rsv_kept_write: "rsv_kept fdt f1 \<Longrightarrow> same_above lo hi f1 f2 \<Longrightarrow> 40 \<le> lo \<Longrightarrow> uint (hdr fdt 8) \<le> lo \<Longrightarrow> rsv_kept fdt f2"
  using same_above_hdr [of lo hi f1 f2] by (auto simp: rsv_kept_def same_above_def)

lemma fin_name_write:
  assumes "fin_name fdt off nm" "same_above lo hi fdt fdt'" "40 \<le> lo" "hi \<le> uint (hdr fdt 12)"
  shows "fin_name fdt' off nm"
proof -
  have h: "hdr fdt' k = hdr fdt k" if "k \<le> 36" for k by (rule same_above_hdr [OF assms(2,3) that])
  have "rd8 fdt' (q + 0) = rd8 fdt q" if "uint (hdr fdt 12) \<le> q" for q
    using assms(2,4) that by (auto simp: same_above_def)
  then show ?thesis
    using h by (intro fin_name_shift [OF assms(1), where d = 0]) auto
qed

lemma fill_gap:
  assumes inv: "edit_inv fdt" and pre: "edit_toks fdt 0 pre a" and post: "edit_toks fdt c post e" and fin: "ends_at fdt e"
    and w: "same_above (uint (hdr fdt 8) + a) (uint (hdr fdt 8) + c) fdt fdt'" and mid: "edit_toks fdt' a mid c"
  shows "tree_toks fdt' (pre @ mid @ post)"
proof -
  note S = edit_inv_sizes [OF inv]
  have b: "0 \<le> a" "a \<le> c" "c \<le> e" "e + 4 \<le> uint (hdr fdt 36)" "uint (hdr fdt 8) + c \<le> uint (hdr fdt 12)"
    using toks_in_le [OF pre] toks_in_le [OF post] toks_in_le [OF mid] fin S by (auto simp: ends_at_def)
  have lo: "40 \<le> uint (hdr fdt 8) + a" using S b by linarith
  have h: "hdr fdt' k = hdr fdt k" if "k \<le> 36" for k by (rule same_above_hdr [OF w lo that])
  have keep: "rd8 fdt' p = rd8 fdt p" if "p < uint (hdr fdt 8) + a \<or> uint (hdr fdt 8) + c \<le> p" for p
    using w that by (auto simp: same_above_def)
  have "toks_in (fin_name fdt) fdt' 0 pre a" "toks_in (fin_name fdt) fdt' c post e"
    by (rule toks_in_cong [OF _ _ pre]; simp add: h keep) (rule toks_in_cong [OF _ _ post]; simp add: h keep)
  then have "edit_toks fdt' 0 pre a" "edit_toks fdt' c post e"
    using fin_name_write [OF _ w lo b(5)] by (auto intro: toks_in_mono)
  moreover have "fdt32_ld fdt' (uint (hdr fdt 8) + e) = fdt32_ld fdt (uint (hdr fdt 8) + e)"
    using b by (intro fdt32_ld_cong keep) auto
  ultimately show ?thesis
    using mid fin edit_inv_write [OF inv w lo] h by (auto simp: tree_toks_def ends_at_def toks_in_append)
qed

end
