(* ===== verification/Fdt_Edit_Props.thy ===== *)
theory Fdt_Edit_Props
  imports Fdt_Edit
begin

unbundle bit_operations_syntax

text \<open>
  The properties of a node as an association list.  Setting, deleting and looking up a property by name on a blob open for editing are
  the list operations on the properties that the node's tokens hold; the rest of the tree keeps its tokens.
\<close>

section \<open>Properties of a node\<close>

fun is_prop :: "token \<Rightarrow> bool" where
  "is_prop (TProp _ _) = True"
| "is_prop _ = False"

fun lookup_prop :: "u8 list \<Rightarrow> token list \<Rightarrow> u8 list option" where
  "lookup_prop name (TProp n v # ps) = (if n = name then Some v else lookup_prop name ps)"
| "lookup_prop name _ = None"

fun replace_prop :: "u8 list \<Rightarrow> u8 list \<Rightarrow> token list \<Rightarrow> token list" where
  "replace_prop name val (TProp n v # ps) = (if n = name then TProp n val # ps else TProp n v # replace_prop name val ps)"
| "replace_prop name val ps = ps"

fun delete_prop :: "u8 list \<Rightarrow> token list \<Rightarrow> token list" where
  "delete_prop name (TProp n v # ps) = (if n = name then ps else TProp n v # delete_prop name ps)"
| "delete_prop name ps = ps"

text \<open>\<^verbatim>\<open>fdt_setprop\<close> replaces the first property of the name, or puts a new one in front of the others.\<close>

definition set_prop :: "u8 list \<Rightarrow> u8 list \<Rightarrow> token list \<Rightarrow> token list" where
  "set_prop name val ps = (if lookup_prop name ps = None then TProp name val # ps else replace_prop name val ps)"

lemma lookup_replace_prop:
  "lookup_prop name ps \<noteq> None \<Longrightarrow> lookup_prop n (replace_prop name val ps) = (if n = name then Some val else lookup_prop n ps)"
  by (induction name val ps rule: replace_prop.induct) auto

lemma lookup_set_prop: "lookup_prop n (set_prop name val ps) = (if n = name then Some val else lookup_prop n ps)"
  by (auto simp: set_prop_def lookup_replace_prop)

lemma list_all_edit_prop [simp]:
  "list_all is_prop ps \<Longrightarrow> list_all is_prop (replace_prop name val ps)"
  "list_all is_prop ps \<Longrightarrow> list_all is_prop (delete_prop name ps)"
  "list_all is_prop ps \<Longrightarrow> list_all is_prop (set_prop name val ps)"
proof -
  show "list_all is_prop ps \<Longrightarrow> list_all is_prop (delete_prop name ps)"
    by (induction name ps rule: delete_prop.induct) auto
  show r: "list_all is_prop ps \<Longrightarrow> list_all is_prop (replace_prop name val ps)"
    by (induction name val ps rule: replace_prop.induct) auto
  then show "list_all is_prop ps \<Longrightarrow> list_all is_prop (set_prop name val ps)"
    by (auto simp: set_prop_def)
qed

lemma lookup_prop_split:
  assumes "list_all is_prop ps" "lookup_prop name ps = Some v"
  obtains ps1 ps2 where "ps = ps1 @ TProp name v # ps2" "lookup_prop name ps1 = None" "list_all is_prop ps1"
proof -
  have "\<exists>ps1 ps2. ps = ps1 @ TProp name v # ps2 \<and> lookup_prop name ps1 = None \<and> list_all is_prop ps1"
    using assms
  proof (induction name ps rule: lookup_prop.induct)
    case (1 name n w ps)
    show ?case
    proof (cases "n = name")
      case True
      then have "TProp n w # ps = [] @ TProp name v # ps" using "1.prems" by simp
      then show ?thesis by (intro exI [of _ "[]"] exI [of _ ps]) simp
    next
      case False
      then obtain ps1 ps2 where "ps = ps1 @ TProp name v # ps2" "lookup_prop name ps1 = None" "list_all is_prop ps1"
        using 1 by auto
      then show ?thesis using False by (intro exI [of _ "TProp n w # ps1"] exI [of _ ps2]) simp
    qed
  qed auto
  then show thesis using that by blast
qed

lemma replace_prop_split:
  "list_all is_prop ps1 \<Longrightarrow> lookup_prop name ps1 = None \<Longrightarrow>
   replace_prop name val (ps1 @ TProp name v # ps2) = ps1 @ TProp name val # ps2"
  by (induction ps1 rule: lookup_prop.induct [where ?a0.0 = name]) (auto split: if_splits)

lemma delete_prop_split:
  "list_all is_prop ps1 \<Longrightarrow> lookup_prop name ps1 = None \<Longrightarrow>
   delete_prop name (ps1 @ TProp name v # ps2) = ps1 @ ps2"
  by (induction ps1 rule: lookup_prop.induct [where ?a0.0 = name]) (auto split: if_splits)

section \<open>Looking up by name\<close>

lemma blob_eq_at: "bytes_at fdt p nm \<Longrightarrow> length nm = length s \<Longrightarrow> blob_eq fdt p s = Some (nm = s)"
proof (induction s arbitrary: p nm)
  case (Cons b s)
  then show ?case by (cases nm) (auto simp: bytes_at_Cons)
qed simp

lemma string_eq_at:
  assumes "strings_found N fdt" "N off nm"
  shows "fdt_string_eq' fdt (sint off) name = Some (nm = name)"
proof -
  obtain p where p: "fdt_get_string fdt (sint off) = Some (Inr (p, int (length nm)))" "bytes_at fdt p (nm @ [0])"
    using assms unfolding strings_found_def by blast
  then show ?thesis
    using blob_eq_at [of fdt p nm name] by (auto simp: fdt_string_eq'_def bytes_at_append)
qed

lemma nextprop_at:
  assumes "blk_inv fdt" "tok_in N fdt m t n" "m mod 4 = 0"
  shows "nextprop' fdt m = Some (if is_prop t then m else - FDT_ERR_NOTFOUND)"
  using next_tag_at [OF assms] by (subst nextprop'.simps) (cases t; simp)

lemma get_property_loop_at:
  assumes "blk_inv fdt" "strings_found N fdt" "tok_in N fdt m (TProp nm v) n" "m mod 4 = 0"
  shows "get_property_loop fdt m name =
    (if nm = name then Some (Inr (uint (hdr fdt 8) + m, int (length v), m))
     else nextprop' fdt n \<bind> (\<lambda>o'. get_property_loop fdt o' name))"
proof -
  obtain off where off: "fdt32_ld fdt (uint (hdr fdt 8) + m + 8) = Some off" "N off nm"
    using assms(3) by auto
  have "0 \<le> m" "\<not> n < 0" using tok_in_bounds [OF assms(3)] by auto
  then show ?thesis
    using get_property_at [OF assms(1,3,4)] off string_eq_at [OF assms(2) off(2), of name]
    by (subst get_property_loop.simps) (simp add: fdt_next_property_offset_def)
qed

lemma find_prop_present:
  assumes "blk_inv fdt" "strings_found N fdt"
  shows "toks_in N fdt m ps1 x \<Longrightarrow> tok_in N fdt x (TProp name v) n \<Longrightarrow> list_all is_prop ps1 \<Longrightarrow> lookup_prop name ps1 = None
    \<Longrightarrow> m mod 4 = 0
    \<Longrightarrow> nextprop' fdt m \<bind> (\<lambda>o'. get_property_loop fdt o' name) = Some (Inr (uint (hdr fdt 8) + x, int (length v), x))"
proof (induction ps1 arbitrary: m)
  case Nil
  then show ?case
    using nextprop_at [OF assms(1) Nil.prems(2)] get_property_loop_at [OF assms Nil.prems(2), of name]
    by (simp del: tok_in.simps)
next
  case (Cons t ps1)
  then obtain nm w k where t: "t = TProp nm w" "tok_in N fdt m t k" "toks_in N fdt k ps1 x" "nm \<noteq> name"
    by (cases t) (auto simp del: tok_in.simps split: if_splits)
  then show ?case
    using Cons nextprop_at [OF assms(1) t(2)] get_property_loop_at [OF assms, of m nm w k name] tok_at_aligned [OF t(2)]
    by (simp del: tok_in.simps)
qed

lemma find_prop_absent:
  assumes "blk_inv fdt" "strings_found N fdt"
  shows "toks_in N fdt m (ps @ t # rest) n \<Longrightarrow> list_all is_prop ps \<Longrightarrow> \<not> is_prop t \<Longrightarrow> lookup_prop name ps = None
    \<Longrightarrow> m mod 4 = 0
    \<Longrightarrow> nextprop' fdt m \<bind> (\<lambda>o'. get_property_loop fdt o' name) = Some (Inl (- FDT_ERR_NOTFOUND))"
proof (induction ps arbitrary: m)
  case Nil
  then show ?case
    using nextprop_at [OF assms(1)] by (auto simp: get_property_loop.simps simp del: tok_in.simps)
next
  case (Cons u ps)
  then obtain nm w k where u: "u = TProp nm w" "tok_in N fdt m u k" "toks_in N fdt k (ps @ t # rest) n" "nm \<noteq> name"
    by (cases u) (auto simp del: tok_in.simps split: if_splits)
  then show ?case
    using Cons nextprop_at [OF assms(1) u(2)] get_property_loop_at [OF assms, of m nm w k name] tok_at_aligned [OF u(2)]
    by (simp del: tok_in.simps)
qed

section \<open>A node of a tree\<close>

text \<open>The node \<open>nm\<close> at offset \<open>o'\<close> of a blob open for editing: \<open>pre\<close> are the tokens before it, \<open>ps\<close> its properties, \<open>rest\<close> all
  tokens behind them.\<close>

definition node_toks :: "fdt \<Rightarrow> int \<Rightarrow> token list \<Rightarrow> u8 list \<Rightarrow> token list \<Rightarrow> token list \<Rightarrow> bool" where
  "node_toks fdt o' pre nm ps rest \<longleftrightarrow> edit_inv fdt \<and> list_all is_prop ps \<and> rest \<noteq> [] \<and> \<not> is_prop (hd rest) \<and>
     (\<exists>e. edit_toks fdt 0 pre o' \<and> edit_toks fdt o' (TBegin nm # ps @ rest) e \<and> ends_at fdt e)"

lemma edit_strings_found: "edit_inv fdt \<Longrightarrow> strings_found (fin_name fdt) fdt"
  by (rule table_strings_found) (simp_all add: edit_inv_def)

lemma node_toksE:
  assumes "node_toks fdt o' pre nm ps rest"
  obtains m e t ts where "edit_inv fdt" "edit_toks fdt 0 pre o'" "tok_in (fin_name fdt) fdt o' (TBegin nm) m"
    "edit_toks fdt m (ps @ rest) e" "ends_at fdt e" "o' mod 4 = 0" "m mod 4 = 0" "fdt_check_node_offset' fdt o' = Some m"
    "0 \<le> o'" "o' + 4 \<le> m" "rest = t # ts" "\<not> is_prop t" "list_all is_prop ps"
proof -
  obtain m e where n: "edit_inv fdt" "edit_toks fdt 0 pre o'" "tok_in (fin_name fdt) fdt o' (TBegin nm) m"
    "edit_toks fdt m (ps @ rest) e" "ends_at fdt e" "list_all is_prop ps" "rest \<noteq> []" "\<not> is_prop (hd rest)"
    using assms by (auto simp: node_toks_def simp del: tok_in.simps)
  have al: "o' mod 4 = 0" "m mod 4 = 0"
    using toks_in_aligned [OF n(2)] tok_at_aligned [OF n(3)] by auto
  have b: "0 \<le> o'" "o' + 4 \<le> m" using tok_in_bounds [OF n(3)] by auto
  have "fdt_check_node_offset' fdt o' = Some m"
    using next_tag_at [OF edit_inv_blk [OF n(1)] n(3) al(1)] al(1) b by (simp add: fdt_check_node_offset'_def)
  with n al b show thesis
    using that [of m e "hd rest" "tl rest"] by simp
qed

lemma node_get_property:
  assumes "node_toks fdt o' pre nm ps rest"
  shows "lookup_prop name ps = None \<Longrightarrow> fdt_get_property_namelen' fdt o' name = Some (Inl (- FDT_ERR_NOTFOUND))"
    and "lookup_prop name ps = Some v \<Longrightarrow> \<exists>x n ps1 ps2 e. ps = ps1 @ TProp name v # ps2 \<and> lookup_prop name ps1 = None \<and>
      list_all is_prop ps1 \<and> edit_toks fdt 0 (pre @ TBegin nm # ps1) x \<and> tok_in (fin_name fdt) fdt x (TProp name v) n \<and>
      edit_toks fdt n (ps2 @ rest) e \<and> ends_at fdt e \<and>
      fdt_get_property_namelen' fdt o' name = Some (Inr (uint (hdr fdt 8) + x, int (length v), x))"
proof -
  obtain m e t ts where n: "edit_inv fdt" "edit_toks fdt 0 pre o'" "tok_in (fin_name fdt) fdt o' (TBegin nm) m"
    "edit_toks fdt m (ps @ rest) e" "ends_at fdt e" "m mod 4 = 0" "fdt_check_node_offset' fdt o' = Some m" "0 \<le> o'"
    "o' + 4 \<le> m" "rest = t # ts" "\<not> is_prop t" "list_all is_prop ps"
    using assms by (rule node_toksE)
  note B = edit_inv_blk [OF n(1)] edit_strings_found [OF n(1)]
  have eq: "fdt_get_property_namelen' fdt o' name = nextprop' fdt m \<bind> (\<lambda>o'. get_property_loop fdt o' name)"
    using n(7-9) by (simp add: fdt_get_property_namelen'_def fdt_first_property_offset_def)
  show "lookup_prop name ps = None \<Longrightarrow> fdt_get_property_namelen' fdt o' name = Some (Inl (- FDT_ERR_NOTFOUND))"
    using find_prop_absent [OF B] n by (simp add: eq)
  assume l: "lookup_prop name ps = Some v"
  obtain ps1 ps2 where ps: "ps = ps1 @ TProp name v # ps2" "lookup_prop name ps1 = None" "list_all is_prop ps1"
    using n(12) l by (rule lookup_prop_split)
  obtain x k where x: "edit_toks fdt m ps1 x" "tok_in (fin_name fdt) fdt x (TProp name v) k" "edit_toks fdt k (ps2 @ rest) e"
    using n(4) by (auto simp: ps(1) toks_in_append simp del: tok_in.simps)
  have "edit_toks fdt 0 (pre @ TBegin nm # ps1) x"
    using n(2,3) x(1) by (auto simp: toks_in_append simp del: tok_in.simps)
  then show "\<exists>x n ps1 ps2 e. ps = ps1 @ TProp name v # ps2 \<and> lookup_prop name ps1 = None \<and>
      list_all is_prop ps1 \<and> edit_toks fdt 0 (pre @ TBegin nm # ps1) x \<and> tok_in (fin_name fdt) fdt x (TProp name v) n \<and>
      edit_toks fdt n (ps2 @ rest) e \<and> ends_at fdt e \<and>
      fdt_get_property_namelen' fdt o' name = Some (Inr (uint (hdr fdt 8) + x, int (length v), x))"
    using ps x n(5) find_prop_present [OF B x(1,2) ps(3,2) n(6)] eq
    by (intro exI [of _ x] exI [of _ k] exI [of _ ps1] exI [of _ ps2] exI [of _ e]) (simp del: tok_in.simps)
qed

text \<open>What \<^verbatim>\<open>fdt_getprop\<close> returns for a node, from the properties it holds.\<close>

definition getprop_is :: "fdt \<Rightarrow> int \<Rightarrow> u8 list \<Rightarrow> u8 list option \<Rightarrow> bool" where
  "getprop_is fdt o' name r \<longleftrightarrow> (case r of
     None \<Rightarrow> fdt_getprop fdt o' name = Some (Inl (- FDT_ERR_NOTFOUND))
   | Some v \<Rightarrow> \<exists>p. fdt_getprop fdt o' name = Some (Inr (p, int (length v))) \<and> bytes_at fdt p v)"

lemma node_getprop:
  assumes "node_toks fdt o' pre nm ps rest"
  shows "getprop_is fdt o' name (lookup_prop name ps)"
proof (cases "lookup_prop name ps")
  case None
  then show ?thesis
    using node_get_property(1) [OF assms] by (simp add: getprop_is_def fdt_getprop_def fdt_getprop_namelen_def)
next
  case (Some v)
  obtain x n where x: "tok_in (fin_name fdt) fdt x (TProp name v) n"
    "fdt_get_property_namelen' fdt o' name = Some (Inr (uint (hdr fdt 8) + x, int (length v), x))"
    using node_get_property(2) [OF assms Some] by blast
  have "edit_inv fdt" using assms by (simp add: node_toks_def)
  then have "fdt_version fdt = Some 17"
    using edit_inv_buffer [of fdt] by (simp add: edit_inv_def blk_inv_def)
  then show ?thesis
    using Some x by (simp add: getprop_is_def fdt_getprop_def fdt_getprop_namelen_def prop_data_def)
qed

section \<open>Sizes of tokens\<close>

fun tok_size :: "token \<Rightarrow> int" where
  "tok_size (TBegin nm) = 4 + round4 (int (length nm) + 1)"
| "tok_size TEnd = 4"
| "tok_size (TProp nm v) = 12 + round4 (int (length v))"

lemma tok_in_size: "tok_in N fdt o' t n \<Longrightarrow> n = o' + tok_size t"
  by (cases t) auto

lemma toks_in_size: "toks_in N fdt o' ts n \<Longrightarrow> n = o' + sum_list (map tok_size ts)"
proof (induction ts arbitrary: o')
  case (Cons t ts)
  then obtain m where m: "tok_in N fdt o' t m" "toks_in N fdt m ts n" by auto
  show ?case using Cons.IH [OF m(2)] tok_in_size [OF m(1)] by simp
qed simp

lemma node_of_tree:
  assumes "tree_toks fdt' (pre @ TBegin nm # ps' @ rest)" "node_toks fdt o' pre nm ps rest" "list_all is_prop ps'"
  shows "node_toks fdt' o' pre nm ps' rest"
proof -
  have o': "o' = sum_list (map tok_size pre)"
    using assms(2) toks_in_size [of "fin_name fdt" fdt 0 pre o'] by (auto simp: node_toks_def simp del: toks_in.simps)
  obtain k e where "edit_toks fdt' 0 pre k" "edit_toks fdt' k (TBegin nm # ps' @ rest) e" "ends_at fdt' e" "edit_inv fdt'"
    using assms(1) by (auto simp: tree_toks_def toks_in_append simp del: toks_in.simps)
  moreover from this(1) have "k = o'" using toks_in_size o' by fastforce
  ultimately show ?thesis
    using assms(2,3) by (auto simp: node_toks_def simp del: toks_in.simps)
qed

lemma prop_token_length:
  assumes "edit_inv fdt" "tok_in N fdt x (TProp nm v) n"
  shows "FDT_TAGALIGN (int (length v)) = round4 (int (length v))" "n = x + 12 + round4 (int (length v))" "0 \<le> x"
    "n \<le> uint (hdr fdt 36)" "0 \<le> round4 (int (length v))"
proof -
  show n: "n = x + 12 + round4 (int (length v))" "0 \<le> x" "n \<le> uint (hdr fdt 36)"
    using assms(2) by auto
  show "0 \<le> round4 (int (length v))"
    using round4_bounds(1) [of "int (length v)"] by linarith
  show "FDT_TAGALIGN (int (length v)) = round4 (int (length v))"
    using n edit_inv_sizes(10) [OF assms(1)] round4_bounds(1) [of "int (length v)"] by (intro FDT_TAGALIGN_round4) auto
qed

lemma edit_get_property:
  assumes "edit_inv fdt"
  shows "fdt_get_property_namelen fdt o' name = map_option (\<lambda>r. case r of Inl e \<Rightarrow> Inl e | Inr (prop', len, _) \<Rightarrow> Inr (prop', len))
    (fdt_get_property_namelen' fdt o' name)"
proof -
  have "fdt_version fdt = Some 17"
    using assms edit_inv_buffer [of fdt] by (simp add: edit_inv_def blk_inv_def)
  then show ?thesis
    by (cases "fdt_get_property_namelen' fdt o' name") (simp_all add: fdt_get_property_namelen_def)
qed

section \<open>Deleting a property\<close>

lemma delprop_node:
  assumes "node_toks fdt o' pre nm ps rest"
  shows "case lookup_prop name ps of
      None \<Rightarrow> fdt_delprop fdt o' name = Some (- FDT_ERR_NOTFOUND, fdt)
    | Some v \<Rightarrow> \<exists>fdt'. fdt_delprop fdt o' name = Some (0, fdt') \<and> node_toks fdt' o' pre nm (delete_prop name ps) rest \<and>
        edit_room fdt \<le> edit_room fdt' \<and> rsv_kept fdt fdt'"
proof -
  have inv: "edit_inv fdt" and props: "list_all is_prop ps" using assms by (simp_all add: node_toks_def)
  note S = edit_inv_sizes [OF inv]
  show ?thesis
  proof (cases "lookup_prop name ps")
    case None
    then show ?thesis
      using node_get_property(1) [OF assms] edit_probe(2) [OF inv]
      by (simp add: fdt_delprop_def FDT_RW_PROBE_def fdt_get_property_def edit_get_property [OF inv])
  next
    case (Some v)
    obtain x n ps1 ps2 e where p: "ps = ps1 @ TProp name v # ps2" "lookup_prop name ps1 = None" "list_all is_prop ps1"
      "edit_toks fdt 0 (pre @ TBegin nm # ps1) x" "tok_in (fin_name fdt) fdt x (TProp name v) n"
      "edit_toks fdt n (ps2 @ rest) e" "ends_at fdt e"
      "fdt_get_property_namelen' fdt o' name = Some (Inr (uint (hdr fdt 8) + x, int (length v), x))"
      using node_get_property(2) [OF assms Some] by blast
    note L = prop_token_length [OF inv p(5)]
    have c: "c_int (12 + round4 (int (length v))) = n - x"
      using L S(10) by (subst c_int_id) auto
    have eq: "fdt_delprop fdt o' name = fdt_splice_struct' fdt (uint (hdr fdt 8) + x) (n - x) 0"
      using p(8) edit_probe(2) [OF inv] c L(1)
      by (simp add: fdt_delprop_def FDT_RW_PROBE_def fdt_get_property_def edit_get_property [OF inv])
    have gap: "x \<le> x" "x \<le> n" "(0::int) \<le> 0" "(0::int) < 2147483648" "- (n - x) = 0 - (n - x)" using L by auto
    show ?thesis
    proof (cases rule: splice_struct_toks [OF inv p(4,6,7) gap])
      case 1
      then have False using S L by (simp add: edit_room_def)
      then show ?thesis ..
    next
      case (2 fdt')
      have "tree_toks fdt' ((pre @ TBegin nm # ps1) @ ps2 @ rest)"
        using tree_toksI [OF 2(2,3)] 2(4,5) by simp
      then have "node_toks fdt' o' pre nm (delete_prop name ps) rest"
        using delete_prop_split [OF p(3,2)] props by (intro node_of_tree [OF _ assms]) (simp_all add: p(1))
      then show ?thesis using 2(1,10,11) Some eq gap(2) by simp
    qed
  qed
qed

section \<open>Setting a property that exists\<close>

text \<open>The value is copied behind the header of the property; an empty one is not.\<close>

lemma write_value:
  assumes "0 \<le> q" "q + int (length val) \<le> int (length (fdt_bytes fdt))"
  obtains fdt' where "(if length val \<noteq> 0 then wr_bytes fdt q val else Some fdt) = Some fdt'"
    "same_above q (q + int (length val)) fdt fdt'" "bytes_at fdt' q val"
proof (cases "length val = 0")
  case True
  then show thesis using that [of fdt] by (simp add: same_above_def)
next
  case False
  obtain fdt' where w: "wr_bytes fdt q val = Some fdt'"
    using wr_bytes_total [OF assms] by blast
  show thesis
    using that [of fdt'] False w same_above_wr [OF w] bytes_at_wr [OF w] by simp
qed

lemma round4_value:
  assumes "int n < 2147483644"
  shows "FDT_TAGALIGN (int n) = round4 (int n)" "0 \<le> round4 (int n)" "round4 (int n) < 2147483648" "int n \<le> round4 (int n)"
  using assms round4_bounds [of "int n"] FDT_TAGALIGN_round4 [of "int n"] by auto

lemma resize_value:
  assumes node: "node_toks fdt o' pre nm ps rest" and l: "lookup_prop name ps = Some v" and len: "int (length w) < 2147483644"
  obtains x where "fdt_get_property_namelen' fdt o' name = Some (Inr (uint (hdr fdt 8) + x, int (length v), x))"
      "fdt_splice_struct' fdt (uint (hdr fdt 8) + x + 12) (FDT_TAGALIGN (int (length v))) (FDT_TAGALIGN (int (length w))) = Some (- FDT_ERR_NOSPACE, fdt)"
      "edit_room fdt < round4 (int (length w))"
  | x f1 f2 where "fdt_get_property_namelen' fdt o' name = Some (Inr (uint (hdr fdt 8) + x, int (length v), x))"
      "fdt_splice_struct' fdt (uint (hdr fdt 8) + x + 12) (FDT_TAGALIGN (int (length v))) (FDT_TAGALIGN (int (length w))) = Some (0, f1)"
      "fdt32_st f1 (uint (hdr fdt 8) + x + 4) (of_nat (length w)) = Some f2"
      "0 \<le> uint (hdr fdt 8) + x + 12" "uint (hdr fdt 8) + x + 12 + int (length w) \<le> int (length (fdt_bytes f2))"
      "bytes_at fdt (uint (hdr fdt 8) + x + 12) v"
      "\<And>q. uint (hdr fdt 8) + x + 12 \<le> q \<Longrightarrow> q < uint (hdr fdt 8) + x + 12 + int (length w) \<Longrightarrow> rd8 f2 q = rd8 fdt q"
      "\<And>f3. same_above (uint (hdr fdt 8) + x + 12) (uint (hdr fdt 8) + x + 12 + int (length w)) f2 f3 \<Longrightarrow>
         bytes_at f3 (uint (hdr fdt 8) + x + 12) w \<Longrightarrow>
         node_toks f3 o' pre nm (replace_prop name w ps) rest \<and> edit_room fdt - round4 (int (length w)) \<le> edit_room f3 \<and> rsv_kept fdt f3"
proof -
  have inv: "edit_inv fdt" and props: "list_all is_prop ps" using node by (simp_all add: node_toks_def)
  note S = edit_inv_sizes [OF inv] and R = round4_value [OF len]
  let ?s = "uint (hdr fdt 8)" and ?new = "round4 (int (length w))"
  obtain x n ps1 ps2 e where p: "ps = ps1 @ TProp name v # ps2" "lookup_prop name ps1 = None" "list_all is_prop ps1"
    "edit_toks fdt 0 (pre @ TBegin nm # ps1) x" "tok_in (fin_name fdt) fdt x (TProp name v) n"
    "edit_toks fdt n (ps2 @ rest) e" "ends_at fdt e"
    "fdt_get_property_namelen' fdt o' name = Some (Inr (?s + x, int (length v), x))"
    using node_get_property(2) [OF node l] by blast
  note L = prop_token_length [OF inv p(5)]
  have gap: "x \<le> x + 12" "x + 12 \<le> n" "?new - (n - (x + 12)) = ?new - (n - (x + 12))"
    using L by auto
  have args: "?s + (x + 12) = ?s + x + 12" "n - (x + 12) = FDT_TAGALIGN (int (length v))" "?new = FDT_TAGALIGN (int (length w))"
    using L(1,2) R(1) by auto
  show thesis
  proof (cases rule: splice_struct_toks [OF inv p(4,6,7) gap(1,2) R(2,3) gap(3)])
    case 1
    then show thesis using p(8) gap(2) by (intro that(1) [of x]) (simp_all add: args(1,3) flip: args(2))
  next
    case (2 f1)
    let ?c = "x + 12 + ?new"
    note S1 = edit_inv_sizes [OF 2(2)]
    have b: "?s + ?c \<le> uint (hdr f1 12)" "?s + ?c \<le> int (length (fdt_bytes f1))" "0 \<le> x" "?c \<le> uint (hdr f1 36)"
      using toks_in_le [OF 2(4)] 2(5,7) S1 L(3) by (auto simp: ends_at_def)
    obtain f2 where st: "fdt32_st f1 (?s + x + 4) (of_nat (length w)) = Some f2"
      using fdt32_st_total [of "?s + x + 4" f1] b R S by auto
    have q: "0 \<le> ?s + x + 12" "?s + x + 12 + int (length w) \<le> int (length (fdt_bytes f2))"
      using b R S fdt32_st_length [OF st] by auto
    have old: "rd8 f2 q = rd8 fdt q" if "?s + x + 12 \<le> q" "q < ?s + x + 12 + int (length w)" for q
      using 2(8) [of q] rd8_st_other [OF st, of q] that R(4) b(3) by auto
    have final: "node_toks f3 o' pre nm (replace_prop name w ps) rest \<and> edit_room fdt - ?new \<le> edit_room f3 \<and> rsv_kept fdt f3"
      if w: "same_above (?s + x + 12) (?s + x + 12 + int (length w)) f2 f3" "bytes_at f3 (?s + x + 12) w" for f3
    proof -
      have sa: "same_above (?s + x) (?s + ?c) f1 f3"
        using R by (intro same_above_trans [OF same_above_st [OF st] w(1)]) auto
      have lo: "40 \<le> ?s + x" using S b by linarith
      have h: "hdr f3 k = hdr f1 k" if "k \<le> 36" for k by (rule same_above_hdr [OF sa lo that])
      have ld: "fdt32_ld f3 (?s + x + k) = fdt32_ld fdt (?s + x + k)" if "k = 0 \<or> k = 8" for k
      proof -
        have "fdt32_ld f3 (?s + x + k) = fdt32_ld f2 (?s + x + k)"
          using w(1) that by (intro fdt32_ld_cong) (auto simp: same_above_def)
        also have "\<dots> = fdt32_ld f1 (?s + x + k)"
          using that by (intro fdt32_ld_st_other [OF st]) auto
        also have "\<dots> = fdt32_ld fdt (?s + x + k)"
          using that b R(2) by (intro fdt32_ld_cong 2(8)) auto
        finally show ?thesis .
      qed
      have ln: "fdt32_ld f3 (?s + x + 4) = Some (of_nat (length w))"
        using fdt32_ld_st_same [OF st] fdt32_ld_cong [where p = "?s + x + 4" and fdt = f2 and fdt' = f3] w(1) by (simp add: same_above_def)
      have names: "fin_name f3 off name" if "fin_name fdt off name" for off
        using fin_name_write [OF 2(9) [OF that] sa lo b(1)] .
      have "tok_in (fin_name f3) f3 x (TProp name w) ?c"
        using p(5) ld [of 0] ld [of 8] ln w(2) names b h 2(7) by auto
      then have "tree_toks f3 ((pre @ TBegin nm # ps1) @ [TProp name w] @ (ps2 @ rest))"
        using 2(7) sa by (intro fill_gap [OF 2(2-5)]) (auto simp del: tok_in.simps)
      then have "node_toks f3 o' pre nm (replace_prop name w ps) rest"
        using replace_prop_split [OF p(3,2)] props by (intro node_of_tree [OF _ node]) (simp_all add: p(1))
      moreover have "edit_room fdt - ?new \<le> edit_room f3"
        using edit_room_write [OF sa lo] 2(10) gap(2) by simp
      moreover have "rsv_kept fdt f3"
        using b(3) by (intro rsv_kept_write [OF 2(11) sa lo]) simp
      ultimately show ?thesis by blast
    qed
    have v: "bytes_at fdt (?s + x + 12) v" using p(5) by simp
    show thesis
      by (rule that(2) [OF p(8) 2(1) [unfolded args] st q v old final])
  qed
qed

lemma setprop_replace:
  assumes node: "node_toks fdt o' pre nm ps rest" and l: "lookup_prop name ps = Some v" and len: "int (length val) < 2147483644"
  shows "fdt_setprop fdt o' name val = Some (- FDT_ERR_NOSPACE, fdt) \<and> edit_room fdt < round4 (int (length val)) \<or>
    (\<exists>fdt'. fdt_setprop fdt o' name val = Some (0, fdt') \<and> node_toks fdt' o' pre nm (replace_prop name val ps) rest \<and>
      edit_room fdt - round4 (int (length val)) \<le> edit_room fdt' \<and> rsv_kept fdt fdt')"
proof -
  have inv: "edit_inv fdt" using node by (simp add: node_toks_def)
  note eq = fdt_setprop_def fdt_setprop_namelen_def fdt_setprop_placeholder_namelen_def fdt_resize_property'_def edit_probe(2) [OF inv]
    edit_get_property [OF inv]
  show ?thesis
  proof (cases rule: resize_value [OF node l len])
    case (1 x)
    then show ?thesis by (simp add: eq)
  next
    case (2 x f1 f2)
    obtain f3 where w: "(if length val \<noteq> 0 then wr_bytes f2 (uint (hdr fdt 8) + x + 12) val else Some f2) = Some f3"
      "same_above (uint (hdr fdt 8) + x + 12) (uint (hdr fdt 8) + x + 12 + int (length val)) f2 f3"
      "bytes_at f3 (uint (hdr fdt 8) + x + 12) val"
      using 2(4,5) by (rule write_value)
    have "fdt_setprop fdt o' name val = Some (0, f3)"
      using 2(1-3) w(1) by (simp add: eq cong: if_cong)
    then show ?thesis using 2(8) [OF w(2,3)] by blast
  qed
qed

section \<open>Adding a name to the string table\<close>

text \<open>The blob with more, or the same, in its string table.\<close>

definition edit_extends :: "fdt \<Rightarrow> fdt \<Rightarrow> bool" where
  "edit_extends fdt fdt' \<longleftrightarrow>
     length (fdt_bytes fdt') = length (fdt_bytes fdt) \<and> fdt_addr fdt' = fdt_addr fdt \<and>
     (\<forall>k \<in> {0, 4, 8, 12, 16, 20, 24, 28, 36}. hdr fdt' k = hdr fdt k) \<and>
     uint (hdr fdt 32) \<le> uint (hdr fdt' 32) \<and> uint (hdr fdt 12) + uint (hdr fdt' 32) \<le> uint (hdr fdt 4) \<and>
     (\<forall>q. 40 \<le> q \<and> q < uint (hdr fdt 12) + uint (hdr fdt 32) \<longrightarrow> rd8 fdt' q = rd8 fdt q)"

lemma edit_extends_rsv: "edit_inv fdt \<Longrightarrow> edit_extends fdt fdt' \<Longrightarrow> rsv_kept fdt fdt'"
proof -
  assume a: "edit_inv fdt" "edit_extends fdt fdt'"
  have "q < uint (hdr fdt 12) + uint (hdr fdt 32)" if "q < uint (hdr fdt 8)" for q
    using that edit_inv_sizes [OF a(1)] by linarith
  then show ?thesis using a(2) by (simp add: rsv_kept_def edit_extends_def)
qed

lemma edit_extends_inv:
  assumes "edit_inv fdt" "edit_extends fdt fdt'"
  shows "edit_inv fdt'"
proof -
  have "fdt_buffer fdt'"
    using assms(2) by (intro fdt_buffer_cong [OF _ _ edit_inv_buffer [OF assms(1)]]) (auto simp: edit_extends_def)
  then show ?thesis
    using assms by (simp add: edit_inv_def blk_inv_def edit_extends_def)
qed

lemma edit_extends_name:
  assumes "edit_inv fdt" "edit_extends fdt fdt'" "fin_name fdt off nm"
  shows "fin_name fdt' off nm"
proof -
  note S = edit_inv_sizes [OF assms(1)]
  have "bytes_at fdt' (uint (hdr fdt 12) + uint off) (nm @ [0])"
  proof (rule bytes_at_cong)
    show "bytes_at fdt (uint (hdr fdt 12) + uint off) (nm @ [0])" using assms(3) by (simp add: fin_name_def)
    fix q assume q: "uint (hdr fdt 12) + uint off \<le> q" "q < uint (hdr fdt 12) + uint off + int (length (nm @ [0]))"
    have "40 \<le> q" using q(1) S uint_ge_0 [of off] by linarith
    moreover have "q < uint (hdr fdt 12) + uint (hdr fdt 32)" using q(2) assms(3) by (simp add: fin_name_def)
    ultimately show "rd8 fdt' q = rd8 fdt q" using assms(2) by (simp add: edit_extends_def)
  qed
  then show ?thesis
    using assms(2,3) by (simp add: fin_name_def edit_extends_def)
qed

lemma edit_extends_node:
  assumes "node_toks fdt o' pre nm ps rest" "edit_extends fdt fdt'"
  shows "node_toks fdt' o' pre nm ps rest"
proof -
  obtain e where n: "edit_inv fdt" "edit_toks fdt 0 pre o'" "edit_toks fdt o' (TBegin nm # ps @ rest) e" "ends_at fdt e"
    using assms(1) by (auto simp: node_toks_def simp del: toks_in.simps)
  note S = edit_inv_sizes [OF n(1)]
  have h: "hdr fdt' 8 = hdr fdt 8" "uint (hdr fdt 36) \<le> uint (hdr fdt' 36)" "hdr fdt' 36 = hdr fdt 36"
    using assms(2) by (auto simp: edit_extends_def)
  have e: "e + 4 \<le> uint (hdr fdt 36)" using n(4) by (simp add: ends_at_def)
  then have b: "0 \<le> o'" "o' \<le> e" "e + 4 \<le> uint (hdr fdt 36)" "uint (hdr fdt 8) + uint (hdr fdt 36) \<le> uint (hdr fdt 12) + uint (hdr fdt 32)"
    using toks_in_le [OF n(2)] toks_in_le [OF n(3)] S by linarith+
  have same: "rd8 fdt' q = rd8 fdt q" if "uint (hdr fdt 8) \<le> q" "q < uint (hdr fdt 8) + uint (hdr fdt 36)" for q
    using assms(2) that b(4) S(5) by (simp add: edit_extends_def)
  have "toks_in (fin_name fdt) fdt' 0 pre o'" "toks_in (fin_name fdt) fdt' o' (TBegin nm # ps @ rest) e"
    using b by (auto intro!: toks_in_cong [OF h(1,2) n(2)] toks_in_cong [OF h(1,2) n(3)] same simp del: toks_in.simps)
  then have "edit_toks fdt' 0 pre o'" "edit_toks fdt' o' (TBegin nm # ps @ rest) e"
    using edit_extends_name [OF n(1) assms(2)] by (blast intro: toks_in_mono)+
  moreover have "fdt32_ld fdt' (uint (hdr fdt 8) + e) = fdt32_ld fdt (uint (hdr fdt 8) + e)"
    using b by (intro fdt32_ld_cong same) auto
  then have "ends_at fdt' e" using n(4) h by (simp add: ends_at_def)
  ultimately show ?thesis
    using assms(1) edit_extends_inv [OF n(1) assms(2)] by (auto simp: node_toks_def simp del: toks_in.simps)
qed

text \<open>The table grows by the bytes \<open>s\<close> and a zero.\<close>

lemma append_string:
  assumes inv: "edit_inv fdt" and name: "0 \<notin> set name" "int (length name) < 2147483632"
  shows "edit_room fdt < int (length name) + 1
      \<and> fdt_splice_string' fdt (int (length name) + 1) = Some (- FDT_ERR_NOSPACE, fdt)
    \<or> (\<exists>f1 f2 f3. fdt_splice_string' fdt (int (length name) + 1) = Some (0, f1) \<and>
        wr_bytes f1 (uint (hdr fdt 12) + uint (hdr fdt 32)) name = Some f2 \<and>
        wr_bytes f2 (uint (hdr fdt 12) + uint (hdr fdt 32) + int (length name)) [0] = Some f3 \<and>
        edit_extends fdt f3 \<and> fin_name f3 (hdr fdt 32) name \<and> hdr f3 32 = hdr fdt 32 + (of_nat (length name) + 1) \<and>
        edit_room f3 = edit_room fdt - (int (length name) + 1))"
proof -
  note S = edit_inv_sizes [OF inv] and buf = edit_inv_buffer [OF inv]
  let ?n = "int (length name) + 1" and ?p = "uint (hdr fdt 12) + uint (hdr fdt 32)"
  have p: "- 2147483648 \<le> ?p" "?p < 2147483648" "(0::int) < 2147483648" "0 \<le> ?n" "?n < 2147483648" "\<not> ?p < 0"
    using S name(2) uint_ge_0 [of "hdr fdt 12"] by linarith+
  note sp = splice_spec [OF edit_strings_inside [OF inv] refl p(1-5)]
  show ?thesis
  proof (cases "uint (hdr fdt 4) < ?p + ?n")
    case True
    then show ?thesis using sp p(6) buf by (simp add: fdt_splice_string'_def edit_room_def)
  next
    case False
    obtain f0 where f0: "fdt_splice' fdt ?p 0 ?n = Some (0, f0)" "tail_moved fdt ?p 0 ?n ?p f0"
      using sp p(6) False by auto
    have same0: "rd8 f0 q = rd8 fdt q" for q
      using f0(2) by (auto simp: tail_moved_def)
    have ld0: "fdt32_ld f0 q = fdt32_ld fdt q" for q by (intro fdt32_ld_cong same0)
    have len0: "length (fdt_bytes f0) = length (fdt_bytes fdt)" "fdt_addr f0 = fdt_addr fdt"
      using f0(2) by (simp_all add: tail_moved_def)
    let ?sz = "hdr fdt 32 + (of_nat (length name) + 1)"
    have sz: "uint ?sz = uint (hdr fdt 32) + ?n"
      using uint_add_of_int [of "hdr fdt 32" ?n] False S by simp
    have "40 \<le> length (fdt_bytes fdt)" using buf by (rule fdt_buffer_header)
    then obtain f1 where f1: "fdt32_st f0 32 ?sz = Some f1"
      using fdt32_st_total [of 32 f0] len0 by auto
    have len1: "length (fdt_bytes f1) = length (fdt_bytes fdt)"
      using fdt32_st_length [OF f1] len0 by simp
    have room: "0 \<le> ?p" "?p + ?n \<le> int (length (fdt_bytes f1))"
      using False S len1 uint_ge_0 [of "hdr fdt 12"] by linarith+
    obtain f2 where f2: "wr_bytes f1 ?p name = Some f2"
      using wr_bytes_total [of ?p name f1] room by auto
    obtain f3 where f3: "wr_bytes f2 (?p + int (length name)) [0] = Some f3"
      using wr_bytes_total [of "?p + int (length name)" "[0]" f2] room wr_bytes_length [OF f2] by auto
    have "fdt_splice_string' fdt ?n = Some (0, f1)"
      using f0(1) f1 buf ld0 [of 32] fdt_buffer_hdr(9) [OF buf]
      by (simp add: fdt_splice_string'_def fdt_size_dt_strings_def fdt_set_size_dt_strings_def)
    moreover have below: "rd8 f3 q = rd8 fdt q" if "q < ?p" "q < 32 \<or> 36 \<le> q" for q
      using that same0 rd8_st_other [OF f1, of q] rd8_wr_bytes_other [OF f2, of q] rd8_wr_bytes_other [OF f3, of q] by auto
    have low: "56 \<le> ?p" using S by linarith
    have h: "hdr f3 k = hdr fdt k" if "k \<le> 28 \<or> k = 36" for k
      unfolding hdr_def using that low by (intro arg_cong [where f = the] fdt32_ld_cong below) auto
    have h32: "hdr f3 32 = ?sz"
      using hdr_st_same [OF f1] hdr_wr_other [OF f2, of 32] hdr_wr_other [OF f3, of 32] low by simp
    have ext: "edit_extends fdt f3"
      using h h32 sz False below S len1 len0(2) wr_bytes_length [OF f2] wr_bytes_length [OF f3] fdt32_st_addr [OF f1]
        wr_bytes_addr [OF f2] wr_bytes_addr [OF f3] by (simp add: edit_extends_def)
    have "bytes_at f3 ?p (name @ [0])"
      using bytes_at_wr [OF f3] bytes_at_wr_other [OF f3 bytes_at_wr [OF f2]] by (simp add: bytes_at_append)
    then have "fin_name f3 (hdr fdt 32) name"
      using name(1) h h32 sz by (simp add: fin_name_def)
    moreover have "edit_room f3 = edit_room fdt - ?n"
      using h [of 4] h [of 12] h32 sz by (simp add: edit_room_def)
    ultimately show ?thesis
      using f2 f3 ext h32 by blast
  qed
qed

lemma find_add_string_cases:
  assumes inv: "edit_inv fdt" and name: "0 \<notin> set name" "int (length name) < 2147483632"
  obtains "fdt_rw_find_add_string' fdt name = Some (- FDT_ERR_NOSPACE, False, fdt)" "edit_room fdt < int (length name) + 1"
  | off where "fdt_rw_find_add_string' fdt name = Some (uint off, False, fdt)" "fin_name fdt off name"
  | off fdt' where "fdt_rw_find_add_string' fdt name = Some (uint off, True, fdt')" "edit_extends fdt fdt'"
      "fin_name fdt' off name" "hdr fdt' 32 = hdr fdt 32 + (of_nat (length name) + 1)"
      "edit_room fdt' = edit_room fdt - (int (length name) + 1)"
proof -
  note S = edit_inv_sizes [OF inv] and buf = edit_inv_buffer [OF inv]
  let ?t = "uint (hdr fdt 12)" and ?z = "uint (hdr fdt 32)"
  have sz: "sint (hdr fdt 32) = ?z" using S uint_ge_0 [of "hdr fdt 12"] by (intro sint_small_u32) linarith
  have c: "c_int (int (length name) + 1) = int (length name) + 1" using name(2) by (intro c_int_id) auto
  have b: "0 \<le> ?t" "?t + ?z - (int (length name) + 1) + int (length name) + 1 \<le> int (length (fdt_bytes fdt))"
    using S uint_ge_0 [of "hdr fdt 12"] by linarith+
  obtain r where r: "find_string_loop fdt (?t + ?z - (int (length name) + 1)) ?t name = Some r"
    "\<And>q. r = Some q \<Longrightarrow> ?t \<le> q \<and> q \<le> ?t + ?z - (int (length name) + 1) \<and> bytes_at fdt q (name @ [0])"
    using find_string_loop_found [OF b] by blast
  have found: "fdt_find_string_len' fdt ?t (sint (hdr fdt 32)) name = Some r"
    using r(1) by (simp only: fdt_find_string_len'_def sz)
  show thesis
  proof (cases r)
    case (Some q)
    have q: "?t \<le> q" "q \<le> ?t + ?z - (int (length name) + 1)" "bytes_at fdt q (name @ [0])" using r(2) [OF Some] by auto
    then have d: "0 \<le> q - ?t" "q - ?t < 2147483648" using S by linarith+
    then have u: "uint (word_of_int (q - ?t) :: u32) = q - ?t" "c_int (q - ?t) = q - ?t"
      by (intro uint_u32_of_int c_int_id; simp)+
    have "fin_name fdt (word_of_int (q - ?t)) name"
      unfolding fin_name_def u(1) using name q by simp
    then show thesis
      using found Some u buf by (intro that(2)) (simp_all add: fdt_rw_find_add_string'_def Let_def del: of_int_diff)
  next
    case None
    have "?z < 2147483648" using S uint_ge_0 [of "hdr fdt 12"] by linarith
    then have off: "c_int ?z = ?z" by (intro c_int_id) (auto intro: order_trans [OF _ uint_ge_0])
    note eq = found None buf c off
    from append_string [OF inv name] show thesis
    proof (elim disjE conjE exE)
      assume "fdt_splice_string' fdt (int (length name) + 1) = Some (- FDT_ERR_NOSPACE, fdt)" "edit_room fdt < int (length name) + 1"
      then show thesis
        using eq by (intro that(1)) (simp_all add: fdt_rw_find_add_string'_def Let_def)
    next
      fix f1 f2 f3
      assume "fdt_splice_string' fdt (int (length name) + 1) = Some (0, f1)" "wr_bytes f1 (?t + ?z) name = Some f2"
        "wr_bytes f2 (?t + ?z + int (length name)) [0] = Some f3" "edit_extends fdt f3" "fin_name f3 (hdr fdt 32) name"
        "hdr f3 32 = hdr fdt 32 + (of_nat (length name) + 1)" "edit_room f3 = edit_room fdt - (int (length name) + 1)"
      then show thesis
        using eq by (intro that(3) [of "hdr fdt 32" f3]) (simp_all add: fdt_rw_find_add_string'_def Let_def)
    qed
  qed
qed

text \<open>Taking the name back leaves the blob as good as before.\<close>

lemma del_last_string_extends:
  assumes "edit_inv fdt" "edit_extends fdt f1" "hdr f1 32 = hdr fdt 32 + (of_nat (length name) + 1)"
  shows "\<exists>f2. fdt_rw_del_last_string' f1 name = Some f2 \<and> edit_extends fdt f2"
proof -
  note S = edit_inv_sizes [OF assms(1)] and buf1 = edit_inv_buffer [OF edit_extends_inv [OF assms(1,2)]]
  have "40 \<le> length (fdt_bytes f1)" using buf1 by (rule fdt_buffer_header)
  then obtain f2 where f2: "fdt32_st f1 32 (hdr fdt 32) = Some f2"
    using fdt32_st_total [of 32 f1] by auto
  have "fdt_rw_del_last_string' f1 name = Some f2"
    using buf1 f2 assms(3) by (simp add: fdt_rw_del_last_string'_def fdt_set_size_dt_strings_def)
  moreover have "hdr f2 k = hdr f1 k" if "k \<le> 28 \<or> k = 36" for k
    using hdr_st_other [OF f2, of k] that by auto
  then have "edit_extends fdt f2"
    using assms(2) S hdr_st_same [OF f2] fdt32_st_length [OF f2] fdt32_st_addr [OF f2] rd8_st_other [OF f2] by (auto simp: edit_extends_def)
  ultimately show ?thesis by blast
qed

section \<open>Setting a property that is new\<close>

text \<open>Room for a property behind the name of the node, filled with its header and its value.\<close>

lemma insert_prop:
  assumes node: "node_toks fdt o' pre nm ps rest" and m: "fdt_check_node_offset' fdt o' = Some m" and name: "fin_name fdt off name"
    and len: "int (length val) < 2147483632"
  shows "fdt_splice_struct' fdt (uint (hdr fdt 8) + m) 0 (12 + round4 (int (length val))) = Some (- FDT_ERR_NOSPACE, fdt)
      \<and> edit_room fdt < 12 + round4 (int (length val))
    \<or> (\<exists>f1 f2 f3 f4 f5. fdt_splice_struct' fdt (uint (hdr fdt 8) + m) 0 (12 + round4 (int (length val))) = Some (0, f1) \<and>
        fdt32_st f1 (uint (hdr fdt 8) + m) FDT_PROP = Some f2 \<and> fdt32_st f2 (uint (hdr fdt 8) + m + 8) off = Some f3 \<and>
        fdt32_st f3 (uint (hdr fdt 8) + m + 4) (of_nat (length val)) = Some f4 \<and>
        (if length val \<noteq> 0 then wr_bytes f4 (uint (hdr fdt 8) + m + 12) val else Some f4) = Some f5 \<and>
        node_toks f5 o' pre nm (TProp name val # ps) rest \<and> edit_room f5 = edit_room fdt - (12 + round4 (int (length val))) \<and>
        0 \<le> uint (hdr fdt 8) + m + 12 \<and> uint (hdr fdt 8) + m + 12 + int (length val) \<le> int (length (fdt_bytes f4)) \<and> rsv_kept fdt f5)"
proof -
  obtain m' e where n: "edit_inv fdt" "edit_toks fdt 0 pre o'" "tok_in (fin_name fdt) fdt o' (TBegin nm) m'"
    "edit_toks fdt m' (ps @ rest) e" "ends_at fdt e" "fdt_check_node_offset' fdt o' = Some m'" "0 \<le> o'" "o' + 4 \<le> m'"
    "list_all is_prop ps"
    using node by (rule node_toksE)
  have [simp]: "m' = m" using n(6) m by simp
  have lv: "int (length val) < 2147483644" using len by linarith
  note S = edit_inv_sizes [OF n(1)] and R = round4_value [OF lv]
  let ?s = "uint (hdr fdt 8)" and ?new = "12 + round4 (int (length val))"
  have pre: "edit_toks fdt 0 (pre @ [TBegin nm]) m"
    using n(2,3) by (auto simp: toks_in_append simp del: tok_in.simps)
  have gap: "m \<le> m" "m \<le> m" "0 \<le> ?new" "?new < 2147483648" "?new = ?new - (m - m)"
    using R len round4_bounds(2) [of "int (length val)"] by auto
  show ?thesis
  proof (cases rule: splice_struct_toks [OF n(1) pre n(4) [simplified] n(5) gap])
    case 1
    then show ?thesis by simp
  next
    case (2 f1)
    let ?c = "m + ?new"
    note S1 = edit_inv_sizes [OF 2(2)]
    have b: "?s + ?c \<le> uint (hdr f1 12)" "?s + ?c \<le> int (length (fdt_bytes f1))" "0 \<le> m" "?c \<le> uint (hdr f1 36)"
      using toks_in_le [OF 2(4)] 2(5,7) S1 n(7,8) by (auto simp: ends_at_def)
    have st_total: "\<exists>g. fdt32_st f (?s + m + k) w = Some g" if "length (fdt_bytes f) = length (fdt_bytes f1)" "0 \<le> k" "k \<le> 8" for f k w
      using b R S that by (intro fdt32_st_total) auto
    obtain f2 where f2: "fdt32_st f1 (?s + m) FDT_PROP = Some f2" using st_total [of f1 0] by auto
    obtain f3 where f3: "fdt32_st f2 (?s + m + 8) off = Some f3"
      using st_total [of f2 8] fdt32_st_length [OF f2] by auto
    obtain f4 where f4: "fdt32_st f3 (?s + m + 4) (of_nat (length val)) = Some f4"
      using st_total [of f3 4] fdt32_st_length [OF f2] fdt32_st_length [OF f3] by auto
    have q: "0 \<le> ?s + m + 12" "?s + m + 12 + int (length val) \<le> int (length (fdt_bytes f4))"
      using b R S fdt32_st_length [OF f2] fdt32_st_length [OF f3] fdt32_st_length [OF f4] by auto
    obtain f5 where w: "(if length val \<noteq> 0 then wr_bytes f4 (?s + m + 12) val else Some f4) = Some f5"
      "same_above (?s + m + 12) (?s + m + 12 + int (length val)) f4 f5" "bytes_at f5 (?s + m + 12) val"
      using q by (rule write_value)
    have sa: "same_above (?s + m) (?s + ?c) f1 f5"
      using w(2) R rd8_st_other [OF f2] rd8_st_other [OF f3] rd8_st_other [OF f4]
      by (simp add: same_above_def fdt32_st_length [OF f2] fdt32_st_length [OF f3] fdt32_st_length [OF f4]
          fdt32_st_addr [OF f2] fdt32_st_addr [OF f3] fdt32_st_addr [OF f4])
    have lo: "40 \<le> ?s + m" using S b by linarith
    have h: "hdr f5 k = hdr f1 k" if "k \<le> 36" for k by (rule same_above_hdr [OF sa lo that])
    have head: "fdt32_ld f5 (?s + m + k) = fdt32_ld f4 (?s + m + k)" if "k \<le> 8" for k
      using w(2) that by (intro fdt32_ld_cong) (auto simp: same_above_def)
    have flds: "fdt32_ld f4 (?s + m) = Some FDT_PROP" "fdt32_ld f4 (?s + m + 8) = Some off"
      "fdt32_ld f4 (?s + m + 4) = Some (of_nat (length val))"
      using fdt32_ld_st_same [OF f2] fdt32_ld_st_same [OF f3] fdt32_ld_st_same [OF f4] fdt32_ld_st_other [OF f3, of "?s + m"]
        fdt32_ld_st_other [OF f4, of "?s + m"] fdt32_ld_st_other [OF f4, of "?s + m + 8"] by auto
    have "fin_name f5 off name"
      by (rule fin_name_write [OF 2(9) [OF name] sa lo b(1)])
    then have "tok_in (fin_name f5) f5 m (TProp name val) ?c"
      using head [of 0] head [of 4] head [of 8] flds w(3) b h 2(7) by auto
    then have "tree_toks f5 ((pre @ [TBegin nm]) @ [TProp name val] @ (ps @ rest))"
      using 2(7) sa by (intro fill_gap [OF 2(2-5)]) (auto simp del: tok_in.simps)
    then have "node_toks f5 o' pre nm (TProp name val # ps) rest"
      using n(9) by (intro node_of_tree [OF _ node]) simp_all
    moreover have "rsv_kept fdt f5"
      using b(3) by (intro rsv_kept_write [OF 2(11) sa lo]) simp
    ultimately show ?thesis
      using 2(1,10) f2 f3 f4 w(1) q edit_room_write [OF sa lo] by auto
  qed
qed

text \<open>The name of a new property is found or added, then the property is inserted behind the name of the node.  A name that was added
  for nothing is taken back.\<close>

lemma add_property_cases:
  assumes node: "node_toks fdt o' pre nm ps rest"
    and name: "0 \<notin> set name" "int (length name) < 2147483632" and len: "int (length val) < 2147483632"
  obtains fdt' p where "fdt_add_property' fdt o' name (length name) (int (length val)) = Some (- FDT_ERR_NOSPACE, fdt', p)"
    "node_toks fdt' o' pre nm ps rest" "edit_room fdt < 13 + int (length name) + round4 (int (length val))" "rsv_kept fdt fdt'"
  | f4 p fdt' where "fdt_add_property' fdt o' name (length name) (int (length val)) = Some (0, f4, p)"
    "(if length val \<noteq> 0 then wr_bytes f4 (p + 12) val else Some f4) = Some fdt'"
    "node_toks fdt' o' pre nm (TProp name val # ps) rest"
    "edit_room fdt - (13 + int (length name) + round4 (int (length val))) \<le> edit_room fdt'"
    "0 \<le> p + 12" "p + 12 + int (length val) \<le> int (length (fdt_bytes f4))" "rsv_kept fdt fdt'"
proof -
  note done' = that
  obtain m where m: "fdt_check_node_offset' fdt o' = Some m" "0 \<le> m" and inv: "edit_inv fdt"
    using node_toksE [OF node] by (metis add_increasing2 order_trans zero_le_numeral)
  have lv: "int (length val) < 2147483644" using len by linarith
  note R = round4_value [OF lv]
  have c: "c_int (12 + round4 (int (length val))) = 12 + round4 (int (length val))"
    using R len round4_bounds(2) [of "int (length val)"] by (intro c_int_id) auto
  note eq = fdt_add_property'_def fdt_offset_ptr'_def Let_def m leD [OF m(2)] c R(1)
  have ins: thesis
    if f: "fdt_rw_find_add_string' fdt name = Some (uint off, a, f)" "node_toks f o' pre nm ps rest" "fin_name f off name"
      "hdr f 8 = hdr fdt 8" "edit_room fdt \<le> edit_room f + (int (length name) + 1)" "fdt_check_node_offset' f o' = Some m" "rsv_kept fdt f"
      and undo: "\<exists>f'. (if a then fdt_rw_del_last_string' f name else Some f) = Some f' \<and> node_toks f' o' pre nm ps rest \<and>
        rsv_kept fdt f'" for off a f
    using insert_prop [OF f(2,6,3) len]
  proof (elim disjE exE conjE)
    have "edit_inv f" using f(2) by (simp add: node_toks_def)
    then have b: "fdt_buffer f" by (rule edit_inv_buffer)
    obtain f' where f': "(if a then fdt_rw_del_last_string' f name else Some f) = Some f'" "node_toks f' o' pre nm ps rest"
      "rsv_kept fdt f'"
      using undo by blast
    assume "fdt_splice_struct' f (uint (hdr f 8) + m) 0 (12 + round4 (int (length val))) = Some (- FDT_ERR_NOSPACE, f)"
      "edit_room f < 12 + round4 (int (length val))"
    then show thesis
      using f f' b by (intro done'(1) [of f' "uint (hdr f 8) + m"]) (simp_all add: eq cong: if_cong)
  next
    have "edit_inv f" using f(2) by (simp add: node_toks_def)
    then have b: "fdt_buffer f" by (rule edit_inv_buffer)
    fix f1 f2 f3 f4 f5
    assume "fdt_splice_struct' f (uint (hdr f 8) + m) 0 (12 + round4 (int (length val))) = Some (0, f1)"
      "fdt32_st f1 (uint (hdr f 8) + m) FDT_PROP = Some f2" "fdt32_st f2 (uint (hdr f 8) + m + 8) off = Some f3"
      "fdt32_st f3 (uint (hdr f 8) + m + 4) (of_nat (length val)) = Some f4"
      "(if length val \<noteq> 0 then wr_bytes f4 (uint (hdr f 8) + m + 12) val else Some f4) = Some f5"
      "node_toks f5 o' pre nm (TProp name val # ps) rest" "edit_room f5 = edit_room f - (12 + round4 (int (length val)))"
      "0 \<le> uint (hdr f 8) + m + 12" "uint (hdr f 8) + m + 12 + int (length val) \<le> int (length (fdt_bytes f4))" "rsv_kept f f5"
    then show thesis
      using f b rsv_kept_trans [of fdt f f5] by (intro done'(2) [of f4 "uint (hdr f 8) + m" f5]) (simp_all add: eq cong: if_cong)
  qed
  show thesis
  proof (cases rule: find_add_string_cases [OF inv name])
    case 1
    then show thesis using node R(2) by (intro done'(1) [of fdt 0]) (simp_all add: eq)
  next
    case (2 off)
    then show thesis using node m by (intro ins [of off False fdt]) auto
  next
    case (3 off f)
    have n: "node_toks f o' pre nm ps rest" by (rule edit_extends_node [OF node 3(2)])
    obtain f' where f': "fdt_rw_del_last_string' f name = Some f'" "edit_extends fdt f'"
      using del_last_string_extends [OF inv 3(2,4)] by blast
    have "fdt_check_node_offset' f o' = Some m"
      using node_toksE [OF n] node_toksE [OF node] m tok_in_size by metis
    then show thesis
      using 3 n f' edit_extends_node [OF node f'(2)] edit_extends_rsv [OF inv 3(2)] edit_extends_rsv [OF inv f'(2)] by (intro ins [of off True f]) (auto simp: edit_extends_def)
  qed
qed

lemma setprop_add:
  assumes node: "node_toks fdt o' pre nm ps rest" and l: "lookup_prop name ps = None"
    and name: "0 \<notin> set name" "int (length name) < 2147483632" and len: "int (length val) < 2147483632"
  obtains fdt' where "fdt_setprop fdt o' name val = Some (- FDT_ERR_NOSPACE, fdt')" "node_toks fdt' o' pre nm ps rest"
    "edit_room fdt < 13 + int (length name) + round4 (int (length val))" "rsv_kept fdt fdt'"
  | fdt' where "fdt_setprop fdt o' name val = Some (0, fdt')" "node_toks fdt' o' pre nm (TProp name val # ps) rest"
    "edit_room fdt - (13 + int (length name) + round4 (int (length val))) \<le> edit_room fdt'" "rsv_kept fdt fdt'"
proof -
  have inv: "edit_inv fdt" using node by (simp add: node_toks_def)
  note eq = fdt_setprop_def fdt_setprop_namelen_def fdt_setprop_placeholder_namelen_def fdt_resize_property'_def edit_probe(2) [OF inv]
    edit_get_property [OF inv] node_get_property(1) [OF node l]
  show thesis
  proof (cases rule: add_property_cases [OF node name len])
    case (1 fdt' p)
    then show thesis by (intro that(1) [of fdt']) (simp_all add: eq)
  next
    case (2 f4 p fdt')
    then show thesis by (intro that(2) [of fdt']) (simp_all add: eq cong: if_cong)
  qed
qed

section \<open>Properties\<close>

lemma setprop_node:
  assumes "0 \<notin> set name" "int (length name) < 2147483632" "int (length val) < 2147483632" "node_toks fdt o' pre nm ps rest"
  shows "\<exists>err fdt'. fdt_setprop fdt o' name val = Some (err, fdt') \<and>
    node_toks fdt' o' pre nm (if err = 0 then set_prop name val ps else ps) rest \<and> err \<in> {0, - FDT_ERR_NOSPACE} \<and>
    (13 + int (length name) + round4 (int (length val)) \<le> edit_room fdt \<longrightarrow> err = 0) \<and>
    (err = 0 \<longrightarrow> edit_room fdt - (13 + int (length name) + round4 (int (length val))) \<le> edit_room fdt') \<and> rsv_kept fdt fdt'"
proof (cases "lookup_prop name ps")
  case None
  show ?thesis
    by (rule setprop_add [OF assms(4) None assms(1-3)]) (use None in \<open>auto simp: set_prop_def\<close>)
next
  case (Some v)
  have "int (length val) < 2147483644" using assms(3) by linarith
  from setprop_replace [OF assms(4) Some this] show ?thesis
  proof (elim disjE conjE exE)
    assume "fdt_setprop fdt o' name val = Some (- FDT_ERR_NOSPACE, fdt)" "edit_room fdt < round4 (int (length val))"
    then show ?thesis using assms(4) by auto
  next
    fix fdt' assume "fdt_setprop fdt o' name val = Some (0, fdt')" "node_toks fdt' o' pre nm (replace_prop name val ps) rest"
      "edit_room fdt - round4 (int (length val)) \<le> edit_room fdt'" "rsv_kept fdt fdt'"
    then show ?thesis using Some by (auto simp: set_prop_def)
  qed
qed

text \<open>A blob with the root node, its property \<open>a\<close> with the byte 1, and 38 free bytes.\<close>

definition slack_fdt :: fdt where
  "slack_fdt = \<lparr>fdt_addr = 0x40000000, fdt_bytes =
    [208, 13, 254, 237, 0, 0, 0, 128, 0, 0, 0, 56, 0, 0, 0, 88, 0, 0, 0, 40,
     0, 0, 0, 17, 0, 0, 0, 16, 0, 0, 0, 0, 0, 0, 0, 2, 0, 0, 0, 32,
     0, 0, 0, 0, 0, 0, 0, 0, 0, 0, 0, 0, 0, 0, 0, 0,
     0, 0, 0, 1, 0, 0, 0, 0, 0, 0, 0, 3, 0, 0, 0, 1, 0, 0, 0, 0, 1, 0, 0, 0, 0, 0, 0, 2, 0, 0, 0, 9,
     97, 0] @ replicate 38 0\<rparr>"

lemma slack_hdr:
  "hdr slack_fdt 0 = FDT_MAGIC" "hdr slack_fdt 4 = 128" "hdr slack_fdt 8 = 56" "hdr slack_fdt 12 = 88" "hdr slack_fdt 16 = 40"
  "hdr slack_fdt 20 = 17" "hdr slack_fdt 24 = 16" "hdr slack_fdt 32 = 2" "hdr slack_fdt 36 = 32"
  by code_simp+

lemma slack_room: "edit_room slack_fdt = 38"
  by (simp add: edit_room_def slack_hdr)

lemma slack_edit_inv: "edit_inv slack_fdt"
proof -
  have "fdt_totalsize slack_fdt = Some 128" by code_simp
  then have "fdt_buffer slack_fdt" by (simp add: fdt_buffer_def slack_fdt_def del: fdt_buffer_hdr)
  then show ?thesis by (simp add: edit_inv_def blk_inv_def slack_hdr) (simp add: slack_fdt_def)
qed

lemma slack_reads:
  "fdt32_ld slack_fdt 56 = Some FDT_BEGIN_NODE" "fdt32_ld slack_fdt 64 = Some FDT_PROP" "fdt32_ld slack_fdt 68 = Some 1"
  "fdt32_ld slack_fdt 72 = Some 0" "fdt32_ld slack_fdt 80 = Some FDT_END_NODE" "fdt32_ld slack_fdt 84 = Some FDT_END"
  "rd8 slack_fdt 60 = Some 0" "rd8 slack_fdt 76 = Some 1" "rd8 slack_fdt 88 = Some 97" "rd8 slack_fdt 89 = Some 0"
  by code_simp+

lemma slack_node: "node_toks slack_fdt 0 [] [] [TProp [97] [1]] [TEnd]"
proof -
  have n: "fin_name slack_fdt 0 [97]"
    by (simp add: fin_name_def slack_hdr bytes_at_Cons slack_reads)
  have "ends_at slack_fdt 28" by (simp add: ends_at_def slack_hdr slack_reads)
  moreover have "edit_toks slack_fdt 0 [TBegin [], TProp [97] [1], TEnd] 28"
    using n by (simp add: slack_hdr slack_reads bytes_at_Cons round4_def)
  ultimately show ?thesis
    using slack_edit_inv by (auto simp: node_toks_def simp del: toks_in.simps(2))
qed

text \<open>C10: \<^verbatim>\<open>fdt_setprop\<close> on a node of a blob open for editing refines the update of an association list.  It returns 0 or
  \<^verbatim>\<open>-FDT_ERR_NOSPACE\<close>, and 0 whenever the free bytes behind the string table hold the new name, a property header and the padded
  value.  On 0 the node holds the new value (replaced in place, or as a new first property), every other token of the tree is as
  before, and \<^verbatim>\<open>fdt_getprop\<close> of the node returns the new value under this name and the old answers under all others; on
  \<^verbatim>\<open>-FDT_ERR_NOSPACE\<close> the tokens and all answers are the old ones, even where the name had to be taken back out of the string table.\<close>

theorem fdt_setprop_refines:
  assumes "node_toks fdt o' pre nm ps rest" "0 \<notin> set name" "int (length name) < 2147483632" "int (length val) < 2147483632"
  shows "\<exists>err fdt'. fdt_setprop fdt o' name val = Some (err, fdt') \<and> err \<in> {0, - FDT_ERR_NOSPACE} \<and>
    (13 + int (length name) + round4 (int (length val)) \<le> edit_room fdt \<longrightarrow> err = 0) \<and>
    node_toks fdt' o' pre nm (if err = 0 then set_prop name val ps else ps) rest \<and>
    (\<forall>n. getprop_is fdt' o' n (if err = 0 \<and> n = name then Some val else lookup_prop n ps))"
proof -
  obtain err fdt' where f: "fdt_setprop fdt o' name val = Some (err, fdt')" "err \<in> {0, - FDT_ERR_NOSPACE}"
    "13 + int (length name) + round4 (int (length val)) \<le> edit_room fdt \<longrightarrow> err = 0"
    "node_toks fdt' o' pre nm (if err = 0 then set_prop name val ps else ps) rest"
    using setprop_node [OF assms(2-4,1)] by blast
  have "getprop_is fdt' o' n (if err = 0 \<and> n = name then Some val else lookup_prop n ps)" for n
    using node_getprop [OF f(4), of n] by (auto simp: lookup_set_prop split: if_splits)
  then show ?thesis using f by blast
qed

theorem fdt_setprop_refines_witness:
  "\<exists>fdt'. fdt_setprop slack_fdt 0 [98, 97] [7, 8] = Some (0, fdt') \<and>
    node_toks fdt' 0 [] [] [TProp [98, 97] [7, 8], TProp [97] [1]] [TEnd] \<and> getprop_is fdt' 0 [98, 97] (Some [7, 8])"
  using fdt_setprop_refines [OF slack_node, of "[98, 97]" "[7, 8]"]
  by (auto simp: slack_room round4_def set_prop_def dest: spec [of _ "[98, 97]"])

text \<open>\<^verbatim>\<open>fdt_delprop\<close> on a node of a blob open for editing removes the first property of the name: it returns
  \<^verbatim>\<open>-FDT_ERR_NOTFOUND\<close> with the blob untouched exactly where the node has no such property, and otherwise 0 with the tokens of the
  tree less that property; \<^verbatim>\<open>fdt_getprop\<close> then answers from the remaining list.\<close>

theorem fdt_delprop_refines:
  assumes "node_toks fdt o' pre nm ps rest"
  shows "if lookup_prop name ps = None then fdt_delprop fdt o' name = Some (- FDT_ERR_NOTFOUND, fdt)
    else \<exists>fdt'. fdt_delprop fdt o' name = Some (0, fdt') \<and> node_toks fdt' o' pre nm (delete_prop name ps) rest \<and>
      (\<forall>n. getprop_is fdt' o' n (lookup_prop n (delete_prop name ps)))"
  using delprop_node [OF assms, of name] node_getprop by (cases "lookup_prop name ps") auto

theorem fdt_delprop_refines_witness:
  "\<exists>fdt'. fdt_delprop slack_fdt 0 [97] = Some (0, fdt') \<and> node_toks fdt' 0 [] [] [] [TEnd] \<and>
    getprop_is fdt' 0 [97] None"
  using fdt_delprop_refines [OF slack_node, of "[97]"] by auto

end
