(* ===== verification/Fdt_Layout.thy ===== *)
theory Fdt_Layout
  imports Fdt_Edit_Props
begin

unbundle bit_operations_syntax

text \<open>
  What a whole blob holds: the entries of its memory reservation map and the tokens of its structure block, whatever the order of the
  blocks.  A blob whose blocks are copied to new places, in order and without overlap, holds the same.
\<close>

section \<open>The memory reservation map as a list\<close>

text \<open>The entries from \<open>p\<close> on; the first entry of size 0 ends the list.\<close>

fun rsv_in :: "fdt \<Rightarrow> int \<Rightarrow> (u64 \<times> u64) list \<Rightarrow> bool" where
  "rsv_in fdt p [] \<longleftrightarrow> fdt64_ld fdt (p + 8) = Some 0"
| "rsv_in fdt p (r # rs) \<longleftrightarrow>
     snd r \<noteq> 0 \<and> fdt64_ld fdt p = Some (fst r) \<and> fdt64_ld fdt (p + 8) = Some (snd r) \<and> rsv_in fdt (p + 16) rs"

definition rsv_size :: "'a list \<Rightarrow> int" where
  "rsv_size rs = 16 * (int (length rs) + 1)"

lemma rsv_size_simps [simp]: "rsv_size [] = 16" "rsv_size (r # rs) = 16 + rsv_size rs"
  by (simp_all add: rsv_size_def)

lemma rsv_size_ge: "16 \<le> rsv_size rs"
  by (simp add: rsv_size_def)

lemma ld64_shift:
  assumes "\<And>q. p \<le> q \<Longrightarrow> q < p + 8 \<Longrightarrow> rd8 fdt' (q + d) = rd8 fdt q"
  shows "fdt64_ld fdt' (p + d) = fdt64_ld fdt p"
  using ld_shift [of p fdt' d fdt] ld_shift [of "p + 4" fdt' d fdt] assms by (simp add: fdt64_ld_def algebra_simps)

lemma rsv_in_shift:
  "rsv_in fdt p rs \<Longrightarrow> (\<And>q. p \<le> q \<Longrightarrow> q < p + rsv_size rs \<Longrightarrow> rd8 fdt' (q + d) = rd8 fdt q) \<Longrightarrow> rsv_in fdt' (p + d) rs"
proof (induction rs arbitrary: p)
  case Nil
  then show ?case using ld64_shift [of "p + 8" fdt' d fdt] by (simp add: algebra_simps)
next
  case (Cons r rs)
  have "rsv_in fdt' (p + 16 + d) rs"
    using Cons.prems rsv_size_ge [of rs] by (intro Cons.IH) auto
  moreover have "fdt64_ld fdt' (p + d) = fdt64_ld fdt p" "fdt64_ld fdt' (p + 8 + d) = fdt64_ld fdt (p + 8)"
    using Cons.prems(2) rsv_size_ge [of rs] by (auto intro!: ld64_shift)
  ultimately show ?case using Cons.prems(1) by (simp add: algebra_simps)
qed

lemma rsv_in_tail: "rsv_in fdt p (rs @ us) \<Longrightarrow> rsv_in fdt (p + 16 * int (length rs)) us"
proof (induction rs arbitrary: p)
  case (Cons r rs)
  then show ?case using Cons.IH [of "p + 16"] by (simp add: algebra_simps)
qed simp

lemma rsv_in_nth:
  "rsv_in fdt p rs \<Longrightarrow> n < length rs \<Longrightarrow>
     fdt64_ld fdt (p + 16 * int n) = Some (fst (rs ! n)) \<and> fdt64_ld fdt (p + 16 * int n + 8) = Some (snd (rs ! n))"
proof (induction rs arbitrary: p n)
  case (Cons r rs)
  then show ?case by (cases n) (auto simp: algebra_simps dest: Cons.IH)
qed simp

lemma rsv_in_replace:
  "rsv_in fdt p (rs @ ys) \<Longrightarrow> (\<And>q. p \<le> q \<Longrightarrow> q < p + 16 * int (length rs) \<Longrightarrow> rd8 fdt' q = rd8 fdt q)
    \<Longrightarrow> rsv_in fdt' (p + 16 * int (length rs)) us \<Longrightarrow> rsv_in fdt' p (rs @ us)"
proof (induction rs arbitrary: p)
  case (Cons r rs)
  have "rsv_in fdt' (p + 16) (rs @ us)"
    using Cons.prems by (intro Cons.IH) (auto simp: algebra_simps)
  moreover have "fdt64_ld fdt' p = fdt64_ld fdt p" "fdt64_ld fdt' (p + 8) = fdt64_ld fdt (p + 8)"
    using Cons.prems(2) ld64_shift [of p fdt' 0 fdt] ld64_shift [of "p + 8" fdt' 0 fdt] by auto
  ultimately show ?case using Cons.prems(1) by auto
qed simp

section \<open>Whole blobs\<close>

text \<open>The order of the blocks that \<^verbatim>\<open>fdt_blocks_misordered_\<close> looks for.\<close>

definition in_order :: "fdt \<Rightarrow> int \<Rightarrow> bool" where
  "in_order fdt n \<longleftrightarrow> 40 \<le> uint (hdr fdt 16) \<and> uint (hdr fdt 16) + n \<le> uint (hdr fdt 8) \<and>
     uint (hdr fdt 8) + uint (hdr fdt 36) \<le> uint (hdr fdt 12) \<and> uint (hdr fdt 12) + uint (hdr fdt 32) \<le> uint (hdr fdt 4)"

text \<open>A version 17 blob with the reservations \<open>rs\<close> and the tokens \<open>ts\<close>, its blocks anywhere inside the total size.\<close>

definition holds :: "fdt \<Rightarrow> (u64 \<times> u64) list \<Rightarrow> token list \<Rightarrow> bool" where
  "holds fdt rs ts \<longleftrightarrow>
     blk_inv fdt \<and> fdt_addr fdt AND 7 = 0 \<and> hdr fdt 0 = FDT_MAGIC \<and> hdr fdt 24 \<le> 17 \<and>
     uint (hdr fdt 16) + rsv_size rs \<le> uint (hdr fdt 4) \<and> uint (hdr fdt 12) + uint (hdr fdt 32) \<le> uint (hdr fdt 4) \<and>
     rsv_in fdt (uint (hdr fdt 16)) rs \<and> (\<exists>e. edit_toks fdt 0 ts e \<and> ends_at fdt e)"

definition holds_open :: "fdt \<Rightarrow> (u64 \<times> u64) list \<Rightarrow> token list \<Rightarrow> bool" where
  "holds_open fdt rs ts \<longleftrightarrow> holds fdt rs ts \<and> in_order fdt (rsv_size rs)"

lemma holds_open_inv: "holds_open fdt rs ts \<Longrightarrow> edit_inv fdt"
  using rsv_size_ge [of rs] by (auto simp: holds_open_def holds_def in_order_def edit_inv_def)

lemma holds_open_tree: "holds_open fdt rs ts \<Longrightarrow> tree_toks fdt ts"
  using holds_open_inv by (auto simp: tree_toks_def holds_open_def holds_def)

lemma holds_openI:
  assumes "tree_toks fdt ts" "rsv_in fdt (uint (hdr fdt 16)) rs" "uint (hdr fdt 16) + rsv_size rs \<le> uint (hdr fdt 8)"
  shows "holds_open fdt rs ts"
proof -
  have inv: "edit_inv fdt" using assms(1) by (simp add: tree_toks_def)
  note S = edit_inv_sizes [OF inv]
  have le: "uint (hdr fdt 16) + rsv_size rs \<le> uint (hdr fdt 4)" using S assms(3) by linarith
  show ?thesis
    using assms inv le S(1,2,8) by (auto simp: holds_open_def holds_def in_order_def edit_inv_def tree_toks_def)
qed

lemma holds_sizes:
  assumes "holds fdt rs ts"
  shows "fdt_buffer fdt" "uint (hdr fdt 8) + uint (hdr fdt 36) \<le> uint (hdr fdt 4)" "48 \<le> uint (hdr fdt 8)"
    "uint (hdr fdt 12) + uint (hdr fdt 32) \<le> uint (hdr fdt 4)" "uint (hdr fdt 16) + rsv_size rs \<le> uint (hdr fdt 4)"
    "uint (hdr fdt 4) < 2147483644" "uint (hdr fdt 4) \<le> int (length (fdt_bytes fdt))"
  using assms blk_inv_sizes [of fdt] blk_inv_buffer [of fdt] by (auto simp: holds_def)

lemma holds_probe: "holds fdt rs ts \<Longrightarrow> fdt_ro_probe' fdt = Some (uint (hdr fdt 4))"
  using holds_sizes(1,6) [of fdt rs ts] by (simp add: fdt_ro_probe'_def holds_def blk_inv_def leD)

lemma fdt_bufferI:
  assumes "40 \<le> length (fdt_bytes fdt)" "length (fdt_bytes fdt) < 2147483644" "uint (hdr fdt 4) \<le> int (length (fdt_bytes fdt))"
  shows "fdt_buffer fdt"
proof -
  have "unat (hdr fdt 4) \<le> length (fdt_bytes fdt)" using assms(3) by (simp only: uint_nat of_nat_le_iff)
  then show ?thesis using assms(1,2) by (simp add: fdt_buffer_def hdr_fields(2) [OF assms(1)] del: fdt_buffer_hdr)
qed

section \<open>Blocks in new places\<close>

lemma holds_moved:
  assumes h: "holds fdt rs ts"
    and head: "fdt_buffer fdt'" "fdt_addr fdt' AND 7 = 0" "hdr fdt' 0 = FDT_MAGIC" "hdr fdt' 20 = 17" "hdr fdt' 24 \<le> 17"
      "hdr fdt' 32 = hdr fdt 32" "hdr fdt' 36 = hdr fdt 36"
    and order: "in_order fdt' (rsv_size rs')"
    and rsv: "rsv_in fdt' (uint (hdr fdt' 16)) rs'"
    and struct: "\<And>q. uint (hdr fdt 8) \<le> q \<Longrightarrow> q < uint (hdr fdt 8) + uint (hdr fdt 36) \<Longrightarrow>
      rd8 fdt' (q + (uint (hdr fdt' 8) - uint (hdr fdt 8))) = rd8 fdt q"
    and strings: "\<And>q. uint (hdr fdt 12) \<le> q \<Longrightarrow> q < uint (hdr fdt 12) + uint (hdr fdt 32) \<Longrightarrow>
      rd8 fdt' (q + (uint (hdr fdt' 12) - uint (hdr fdt 12))) = rd8 fdt q"
  shows "holds_open fdt' rs' ts"
proof -
  obtain e where e: "edit_toks fdt 0 ts e" "ends_at fdt e" using h by (auto simp: holds_def)
  have b: "0 \<le> e" "e + 4 \<le> uint (hdr fdt 36)"
    using toks_in_le [OF e(1)] e(2) by (auto simp: ends_at_def)
  have "toks_in (fin_name fdt) fdt' (0 + 0) ts (e + 0)"
    using b head(7) by (intro toks_in_shift [OF refl e(1)]) (auto intro: struct)
  moreover have "fin_name fdt' off nm" if "fin_name fdt off nm" for off nm
    using strings by (intro fin_name_shift [OF that head(6), where d = "uint (hdr fdt' 12) - uint (hdr fdt 12)"]) auto
  ultimately have toks: "edit_toks fdt' 0 ts e" by (auto intro: toks_in_mono)
  have "fdt32_ld fdt' (uint (hdr fdt 8) + e + (uint (hdr fdt' 8) - uint (hdr fdt 8))) = fdt32_ld fdt (uint (hdr fdt 8) + e)"
    using b by (intro ld_shift struct) auto
  then have fin: "ends_at fdt' e"
    using e(2) head(7) by (simp add: ends_at_def algebra_simps)
  have o: "uint (hdr fdt' 8) + uint (hdr fdt' 36) \<le> uint (hdr fdt' 12)" "uint (hdr fdt' 12) + uint (hdr fdt' 32) \<le> uint (hdr fdt' 4)"
    using order by (simp_all add: in_order_def)
  have "uint (hdr fdt' 8) + uint (hdr fdt 36) \<le> uint (hdr fdt' 4)"
    unfolding head(7) [symmetric] using o uint_ge_0 [of "hdr fdt' 32"] by linarith
  then have "edit_inv fdt'"
    using order head rsv_size_ge [of rs'] by (simp add: edit_inv_def blk_inv_def in_order_def)
  then show ?thesis
    using toks fin rsv order by (intro holds_openI) (auto simp: tree_toks_def in_order_def)
qed

end
