(* ===== verification/Fdt_Rsv.thy ===== *)
theory Fdt_Rsv
  imports Fdt_Layout
begin

unbundle bit_operations_syntax

text \<open>
  The memory reservation map of a blob open for editing, as a list of addresses and sizes: \<^verbatim>\<open>fdt_num_mem_rsv\<close> and
  \<^verbatim>\<open>fdt_get_mem_rsv\<close> read it, \<^verbatim>\<open>fdt_add_mem_rsv\<close> appends to it and \<^verbatim>\<open>fdt_del_mem_rsv\<close> removes an entry, and the tree behind it
  stays the same.
\<close>

section \<open>Reading the map\<close>

lemma mem_rsv_ptr:
  assumes "holds fdt rs ts" "n \<le> length rs"
  shows "fdt_mem_rsv fdt (int n) = Some (Some (uint (hdr fdt 16) + int n * 16))"
proof -
  note S = holds_sizes [OF assms(1)]
  have n: "uint (hdr fdt 16) + int n * 16 + 16 \<le> uint (hdr fdt 4)"
    using S(5) assms(2) by (simp add: rsv_size_def)
  have w: "uint (word_of_int (int n * 16) :: u32) = int n * 16"
  proof (rule uint_u32_of_int)
    show "int n * 16 < 4294967296" using n S(6) uint_ge_0 [of "hdr fdt 16"] by linarith
  qed simp
  have a: "uint (hdr fdt 16 + word_of_int (int n * 16)) = uint (hdr fdt 16) + int n * 16"
    using n S(6) by (intro uint_u32_sum [OF refl w]) linarith
  have t: "uint (ucast (hdr fdt 4) - 16 :: u64) = uint (hdr fdt 4) - 16"
  proof -
    have "uint (ucast (hdr fdt 4) :: u64) = uint (hdr fdt 4)" by (simp add: uint_up_ucast is_up)
    moreover have "16 \<le> uint (hdr fdt 4)" using n uint_ge_0 [of "hdr fdt 16"] by linarith
    ultimately show ?thesis by (simp add: uint_sub_if')
  qed
  have "\<not> hdr fdt 16 + word_of_int (int n * 16) < hdr fdt 16"
    unfolding word_less_def a by simp
  moreover have "\<not> (ucast (hdr fdt 16 + word_of_int (int n * 16)) :: u64) > ucast (hdr fdt 4) - 16"
    using n a t by (simp add: word_less_def uint_up_ucast is_up)
  ultimately show ?thesis
    using S(1) by (simp add: fdt_mem_rsv_def Let_def)
qed

lemma num_mem_rsv_loop_at:
  assumes h: "holds fdt (us @ rs) ts" and at: "rsv_in fdt (uint (hdr fdt 16) + 16 * int (length us)) rs"
  shows "num_mem_rsv_loop fdt (int (length us)) = Some (int (length us + length rs))"
  using assms
proof (induction rs arbitrary: us)
  case Nil
  then show ?case
    using mem_rsv_ptr [OF Nil(1), of "length us"]
    by (subst num_mem_rsv_loop.simps) (simp add: mult.commute)
next
  case (Cons r rs)
  have "num_mem_rsv_loop fdt (int (length (us @ [r]))) = Some (int (length (us @ [r]) + length rs))"
    using Cons.prems by (intro Cons.IH) (simp_all add: algebra_simps)
  then show ?case
    using mem_rsv_ptr [OF Cons.prems(1), of "length us"] Cons.prems(2)
    by (subst num_mem_rsv_loop.simps) (simp add: mult.commute add.commute)
qed

lemma num_mem_rsv_at:
  assumes "holds fdt rs ts"
  shows "fdt_num_mem_rsv fdt = Some (int (length rs))"
  using num_mem_rsv_loop_at [of fdt "[]" rs ts] assms holds_probe [OF assms]
  by (simp add: fdt_num_mem_rsv_def FDT_RO_PROBE_def holds_def)

lemma get_mem_rsv_at:
  assumes "holds fdt rs ts" "n < length rs"
  shows "fdt_get_mem_rsv fdt (int n) = Some (Inr (rs ! n))"
  using mem_rsv_ptr [OF assms(1), of n] rsv_in_nth [of fdt "uint (hdr fdt 16)" rs n] assms holds_probe [OF assms(1)]
  by (simp add: fdt_get_mem_rsv_def holds_def mult.commute)

section \<open>Splicing the map\<close>

lemma le_1_cases: "(n :: nat) \<le> 1 \<Longrightarrow> n = 0 \<or> n = 1"
  by linarith

lemma splice_rsv:
  assumes h: "holds_open fdt rs ts" and i: "i + oldn \<le> length rs" and n: "oldn \<le> 1" "newn \<le> 1"
    and d: "d = 16 * (int newn - int oldn)" and p: "p = uint (hdr fdt 16) + 16 * int i"
  obtains "fdt_splice_mem_rsv' fdt p (int oldn) (int newn) = Some (- FDT_ERR_NOSPACE, fdt)" "edit_room fdt < d"
  | fdt' where "fdt_splice_mem_rsv' fdt p (int oldn) (int newn) = Some (0, fdt')"
      "length (fdt_bytes fdt') = length (fdt_bytes fdt)" "fdt_addr fdt' = fdt_addr fdt" "d \<le> edit_room fdt"
      "\<And>q. q \<in> {0, 4, 16, 20, 24, 28, 32, 36} \<Longrightarrow> hdr fdt' q = hdr fdt q"
      "uint (hdr fdt' 8) = uint (hdr fdt 8) + d" "uint (hdr fdt' 12) = uint (hdr fdt 12) + d"
      "\<And>q. 40 \<le> q \<Longrightarrow> q < p \<Longrightarrow> rd8 fdt' q = rd8 fdt q"
      "\<And>q. p + 16 * int oldn \<le> q \<Longrightarrow> q < uint (hdr fdt 12) + uint (hdr fdt 32) \<Longrightarrow> rd8 fdt' (q + d) = rd8 fdt q"
proof -
  have inv: "edit_inv fdt" by (rule holds_open_inv [OF h])
  note S = edit_inv_sizes [OF inv]
  have buf: "fdt_buffer fdt" by (rule edit_inv_buffer [OF inv])
  have dr: "- 16 \<le> d" "d \<le> 16" using d n by auto
  let ?ds = "uint (hdr fdt 12) + uint (hdr fdt 32)"
  have rsv: "uint (hdr fdt 16) + 16 * (int (length rs) + 1) \<le> uint (hdr fdt 8)"
    using h by (simp add: holds_open_def in_order_def rsv_size_def)
  have ci: "c_int (int oldn * 16) = 16 * int oldn" "c_int (int newn * 16) = 16 * int newn"
    "c_int ((int newn - int oldn) * 16) = d"
    using d by (cases rule: disjE [OF le_1_cases [OF n(1)]]; cases rule: disjE [OF le_1_cases [OF n(2)]]; simp)+
  have i': "int i + int oldn \<le> int (length rs)" using i by linarith
  have R: "p + 16 * int oldn + 16 \<le> uint (hdr fdt 8)"
    using p rsv i' by (simp add: algebra_simps)
  then have R': "40 \<le> p" "p < 2147483648"
    using p S(1,5,6,8,11,12) by linarith+
  have q: "- 2147483648 \<le> p" "16 * int oldn < 2147483648" "0 \<le> 16 * int newn" "16 * int newn < 2147483648"
    "\<not> (16 * int oldn < 0 \<or> p < 0 \<or> ?ds < p + 16 * int oldn)"
    using R R' S(1,2,6,7) n by linarith+
  note sp = splice_spec [OF edit_strings_inside [OF inv] refl q(1) R'(2) q(2-4), unfolded if_not_P [OF q(5)]]
  have len: "?ds - 16 * int oldn + 16 * int newn = ?ds + d" using d by simp
  show thesis
  proof (cases "uint (hdr fdt 4) < ?ds + d")
    case True
    then show thesis using that(1) sp ci by (simp add: len edit_room_def fdt_splice_mem_rsv'_def Let_def)
  next
    case False
    then obtain f1 where f1: "fdt_splice' fdt p (16 * int oldn) (16 * int newn) = Some (0, f1)"
      "tail_moved fdt p (16 * int oldn) (16 * int newn) ?ds f1"
      using sp by (auto simp: len)
    have h1: "hdr f1 k = hdr fdt k" if "k + 4 \<le> 40" for k
      using tail_moved_header [OF f1(2) _ that] R' q by (simp add: hdr_def)
    have l1: "40 \<le> length (fdt_bytes f1)"
      using f1(2) fdt_buffer_header [OF buf] by (simp add: tail_moved_def)
    obtain f2 where f2: "fdt32_st f1 8 (hdr fdt 8 + word_of_int d) = Some f2"
      using fdt32_st_total [of 8 f1] l1 by auto
    have l2: "40 \<le> length (fdt_bytes f2)" using l1 fdt32_st_length [OF f2] by simp
    obtain f3 where f3: "fdt32_st f2 12 (hdr fdt 12 + word_of_int d) = Some f3"
      using fdt32_st_total [of 12 f2] l2 by auto
    have h2: "hdr f2 12 = hdr fdt 12"
      using fdt32_ld_st_other [OF f2, of 12] h1 [of 12] by (simp add: hdr_def)
    have res: "fdt_splice_mem_rsv' fdt p (int oldn) (int newn) = Some (0, f3)"
      using f1(1) f2 f3 ci h1 [of 8] h2 hdr_fields(3) [OF l1] hdr_fields(4) [OF l2]
      by (simp add: fdt_splice_mem_rsv'_def Let_def fdt_set_defs)
    have hd: "hdr f3 k = hdr fdt k" if "k \<in> {0, 4, 16, 20, 24, 28, 32, 36}" for k
      using that h1 [of k] fdt32_ld_st_other [OF f2, of k] fdt32_ld_st_other [OF f3, of k] by (auto simp: hdr_def)
    have h8: "hdr f3 8 = hdr fdt 8 + word_of_int d" "hdr f3 12 = hdr fdt 12 + word_of_int d"
      using fdt32_ld_st_same [OF f2] fdt32_ld_st_same [OF f3] fdt32_ld_st_other [OF f3, of 8] by (simp_all add: hdr_def)
    have b: "0 \<le> uint (hdr fdt 8) + d" "uint (hdr fdt 8) + d < 4294967296" "0 \<le> uint (hdr fdt 12) + d" "uint (hdr fdt 12) + d < 4294967296"
      using dr S(1,3,5,6,12) by linarith+
    have rd: "rd8 f3 k = rd8 f1 k" if "40 \<le> k" for k
      using that rd8_st_other [OF f2, of k] rd8_st_other [OF f3, of k] by simp
    have tm: "rd8 f1 k = (if p + 16 * int newn \<le> k \<and> k < ?ds + d then rd8 fdt (k - d) else rd8 fdt k)" for k
    proof -
      have e: "k - 16 * int newn + 16 * int oldn = k - d" using d by simp
      show ?thesis using f1(2) unfolding tail_moved_def len by (elim conjE allE [of _ k]) (simp only: e)
    qed
    show thesis
    proof (rule that(2) [OF res _ _ _ hd])
      show "length (fdt_bytes f3) = length (fdt_bytes fdt)" "fdt_addr f3 = fdt_addr fdt"
        using f1(2) f2 f3 by (simp_all add: tail_moved_def fdt32_st_length fdt32_st_addr)
      show "d \<le> edit_room fdt" using False by (simp add: edit_room_def)
      show "uint (hdr f3 8) = uint (hdr fdt 8) + d" "uint (hdr f3 12) = uint (hdr fdt 12) + d"
        using b by (simp_all only: h8 uint_add_of_int)
      show "rd8 f3 k = rd8 fdt k" if "40 \<le> k" "k < p" for k
        using that rd tm by simp
      show "rd8 f3 (k + d) = rd8 fdt k" if "p + 16 * int oldn \<le> k" "k < ?ds" for k
        using that R R' d n rd [of "k + d"] tm [of "k + d"] by auto
    qed
  qed
qed

lemma rsv_spliced:
  assumes h: "holds_open fdt rs ts" and head: "length (fdt_bytes fdt') = length (fdt_bytes fdt)" "fdt_addr fdt' = fdt_addr fdt"
      "\<And>q. q \<in> {0, 4, 16, 20, 24, 28, 32, 36} \<Longrightarrow> hdr fdt' q = hdr fdt q"
      "uint (hdr fdt' 8) = uint (hdr fdt 8) + d" "uint (hdr fdt' 12) = uint (hdr fdt 12) + d"
    and d: "d \<le> edit_room fdt" "rsv_size rs' \<le> rsv_size rs + d"
    and moved: "\<And>q. uint (hdr fdt 8) \<le> q \<Longrightarrow> q < uint (hdr fdt 12) + uint (hdr fdt 32) \<Longrightarrow> rd8 fdt' (q + d) = rd8 fdt q"
    and rsv: "rsv_in fdt' (uint (hdr fdt' 16)) rs'"
  shows "holds_open fdt' rs' ts" "edit_room fdt' = edit_room fdt - d"
proof -
  have h': "holds fdt rs ts" and o: "in_order fdt (rsv_size rs)" using h by (simp_all add: holds_open_def)
  have hd: "hdr fdt' 0 = hdr fdt 0" "hdr fdt' 4 = hdr fdt 4" "hdr fdt' 16 = hdr fdt 16" "hdr fdt' 20 = hdr fdt 20"
    "hdr fdt' 24 = hdr fdt 24" "hdr fdt' 32 = hdr fdt 32" "hdr fdt' 36 = hdr fdt 36"
    using head(3) by simp_all
  show "edit_room fdt' = edit_room fdt - d"
    using hd head(5) by (simp add: edit_room_def)
  have "in_order fdt' (rsv_size rs')"
    using o d head(4,5) by (simp add: in_order_def hd edit_room_def)
  moreover have "fdt_buffer fdt'"
    using hd(2) head(1) by (intro fdt_buffer_cong [OF _ _ holds_sizes(1) [OF h']]) auto
  moreover have b: "uint (hdr fdt 8) \<le> uint (hdr fdt 12)" "uint (hdr fdt 8) + uint (hdr fdt 36) \<le> uint (hdr fdt 12) + uint (hdr fdt 32)"
    using o uint_ge_0 [of "hdr fdt 36"] uint_ge_0 [of "hdr fdt 32"] unfolding in_order_def by linarith+
  ultimately show "holds_open fdt' rs' ts"
  proof (intro holds_moved [OF h'])
    show "rd8 fdt' (q + (uint (hdr fdt' 8) - uint (hdr fdt 8))) = rd8 fdt q"
      if "uint (hdr fdt 8) \<le> q" "q < uint (hdr fdt 8) + uint (hdr fdt 36)" for q
      using moved [of q] that b(2) head(4) by simp
    show "rd8 fdt' (q + (uint (hdr fdt' 12) - uint (hdr fdt 12))) = rd8 fdt q"
      if "uint (hdr fdt 12) \<le> q" "q < uint (hdr fdt 12) + uint (hdr fdt 32)" for q
      using moved [of q] that b(1) head(5) by simp
  qed (use h' hd head(2) rsv in \<open>simp_all add: holds_def blk_inv_def\<close>)
qed

section \<open>Adding and deleting\<close>

lemma fdt64_st_total: "0 \<le> p \<Longrightarrow> p + 8 \<le> int (length (fdt_bytes fdt)) \<Longrightarrow> \<exists>fdt'. fdt64_st fdt p x = Some fdt'"
  by (simp add: fdt64_st_def wr_bytes_total)

lemma same_above_st64: "fdt64_st fdt p x = Some fdt' \<Longrightarrow> same_above p (p + 8) fdt fdt'"
  using same_above_wr [of fdt p "cpu_to_fdt64 x" fdt'] by (simp add: fdt64_st_def)

text \<open>An entry of size 0 would end the list, so it is not part of it.\<close>

definition add_rsv :: "u64 \<Rightarrow> u64 \<Rightarrow> (u64 \<times> u64) list \<Rightarrow> (u64 \<times> u64) list" where
  "add_rsv address sz rs = (if sz = 0 then rs else rs @ [(address, sz)])"

lemma mem_rsv_w_at: "edit_inv fdt \<Longrightarrow> fdt_mem_rsv_w' fdt n = Some (uint (hdr fdt 16) + 16 * n)"
  using edit_inv_buffer [of fdt] by (simp add: fdt_mem_rsv_w'_def)

lemma add_mem_rsv_at:
  assumes h: "holds_open fdt rs ts"
  obtains "fdt_add_mem_rsv fdt address sz = Some (- FDT_ERR_NOSPACE, fdt)" "edit_room fdt < 16"
  | fdt' where "fdt_add_mem_rsv fdt address sz = Some (0, fdt')" "holds_open fdt' (add_rsv address sz rs) ts"
      "edit_room fdt' = edit_room fdt - 16" "16 \<le> edit_room fdt"
proof -
  have h': "holds fdt rs ts" and o: "in_order fdt (rsv_size rs)" using h by (simp_all add: holds_open_def)
  have inv: "edit_inv fdt" by (rule holds_open_inv [OF h])
  note S = edit_inv_sizes [OF inv]
  let ?p = "uint (hdr fdt 16) + 16 * int (length rs)"
  have p: "40 \<le> ?p" "?p + 16 \<le> uint (hdr fdt 8)"
    using o by (simp_all add: in_order_def rsv_size_def)
  have eq: "fdt_add_mem_rsv fdt address sz = do {
      (err, fdt) \<leftarrow> fdt_splice_mem_rsv' fdt ?p 0 1;
      if err \<noteq> 0 then Some (err, fdt)
      else do { fdt \<leftarrow> fdt64_st fdt ?p address; fdt \<leftarrow> fdt64_st fdt (?p + 8) sz; Some (0, fdt) } }"
    using num_mem_rsv_at [OF h'] edit_probe(2) [OF inv] mem_rsv_w_at [OF inv]
    by (simp add: fdt_add_mem_rsv_def FDT_RW_PROBE_def del: mult.commute)
  have pl: "?p + 16 \<le> int (length (fdt_bytes fdt))"
    using p(2) S(1,6,11) by linarith
  have ds: "uint (hdr fdt 8) \<le> uint (hdr fdt 12) + uint (hdr fdt 32)"
    using S(1,6,7) by linarith
  have n: "length rs + 0 \<le> length rs" "(0 :: nat) \<le> 1" "(1 :: nat) \<le> 1" by simp_all
  show thesis
  proof (cases rule: splice_rsv [OF h n refl refl])
    case 1
    then show thesis using that(1) by (simp add: eq)
  next
    case (2 f1)
    note f1 = 2 [simplified]
    obtain f2 where f2: "fdt64_st f1 ?p address = Some f2"
      using fdt64_st_total [of ?p f1] p pl f1(2) by auto
    note s2 = same_above_st64 [OF f2]
    obtain f3 where f3: "fdt64_st f2 (?p + 8) sz = Some f3"
      using fdt64_st_total [of "?p + 8" f2] p pl f1(2) s2 by (auto simp: same_above_def)
    note s3 = same_above_st64 [OF f3]
    have sa: "same_above ?p (?p + 16) f1 f3"
      by (rule same_above_trans [OF s2 s3]) auto
    have hd: "hdr f3 k = hdr f1 k" if "k \<le> 36" for k
      using same_above_hdr [OF sa p(1) that] .
    have rd: "rd8 f3 k = rd8 f1 k" if "k < ?p \<or> ?p + 16 \<le> k" for k
      using sa that by (auto simp: same_above_def)
    have ld: "fdt64_ld f3 ?p = Some address" "fdt64_ld f3 (?p + 8) = Some sz"
      using fdt64_st_ld [OF f2] fdt64_st_ld [OF f3] fdt64_ld_wr_other [OF f3 [unfolded fdt64_st_def], of ?p] by simp_all
    have z: "fdt64_ld f3 (?p + 8 + 16) = Some 0"
    proof -
      have "fdt64_ld f3 (?p + 8 + 16) = fdt64_ld fdt (?p + 8)"
        using f1(9) rd p(2) ds by (intro ld64_shift) auto
      then show ?thesis using rsv_in_tail [of fdt "uint (hdr fdt 16)" rs "[]"] h' by (simp add: holds_def)
    qed
    let ?new = "if sz = 0 then [] else [(address, sz)]"
    have "rsv_in f3 ?p ?new" using ld z by (simp add: algebra_simps)
    then have "rsv_in f3 (uint (hdr fdt 16)) (rs @ ?new)"
    proof (rule rsv_in_replace [rotated 2])
      show "rsv_in fdt (uint (hdr fdt 16)) (rs @ [])" using h' by (simp add: holds_def)
      show "rd8 f3 q = rd8 fdt q" if "uint (hdr fdt 16) \<le> q" "q < ?p" for q
        using that S(8) f1(8) [of q] rd [of q] by simp
    qed
    then have rsv: "rsv_in f3 (uint (hdr f3 16)) (add_rsv address sz rs)"
      using hd [of 16] f1(5) by (cases "sz = 0") (simp_all add: add_rsv_def)
    have la: "length (fdt_bytes f3) = length (fdt_bytes fdt)" "fdt_addr f3 = fdt_addr fdt"
      using sa f1(2,3) by (simp_all add: same_above_def)
    have hk: "hdr f3 k = hdr fdt k" if "k \<in> {0, 4, 16, 20, 24, 28, 32, 36}" for k
    proof -
      have "k \<le> 36" using that by auto
      then show ?thesis using hd [of k] 2(5) [OF that] by simp
    qed
    have off: "uint (hdr f3 8) = uint (hdr fdt 8) + 16" "uint (hdr f3 12) = uint (hdr fdt 12) + 16"
      using hd [of 8] hd [of 12] f1(6,7) by simp_all
    have moved: "rd8 f3 (q + 16) = rd8 fdt q" if "uint (hdr fdt 8) \<le> q" "q < uint (hdr fdt 12) + uint (hdr fdt 32)" for q
      using that p(2) f1(9) [of q] rd [of "q + 16"] by simp
    have "rsv_size (add_rsv address sz rs) \<le> rsv_size rs + 16"
      by (simp add: rsv_size_def add_rsv_def)
    from rsv_spliced [OF h la hk off f1(4) this moved rsv]
    have "holds_open f3 (add_rsv address sz rs) ts" "edit_room f3 = edit_room fdt - 16" by simp_all
    moreover have "fdt_add_mem_rsv fdt address sz = Some (0, f3)"
      using f1(1) f2 f3 by (simp add: eq)
    ultimately show thesis using that(2) f1(4) by simp
  qed
qed

lemma del_mem_rsv_at:
  assumes h: "holds_open fdt (us @ r # vs) ts"
  shows "\<exists>fdt'. fdt_del_mem_rsv fdt (int (length us)) = Some (0, fdt') \<and> holds_open fdt' (us @ vs) ts \<and> edit_room fdt' = edit_room fdt + 16"
proof -
  have h': "holds fdt (us @ r # vs) ts" and o: "in_order fdt (rsv_size (us @ r # vs))" using h by (simp_all add: holds_open_def)
  have inv: "edit_inv fdt" by (rule holds_open_inv [OF h])
  note S = edit_inv_sizes [OF inv]
  let ?p = "uint (hdr fdt 16) + 16 * int (length us)"
  have p: "40 \<le> ?p" "?p + 16 + rsv_size vs \<le> uint (hdr fdt 8)"
    using o by (simp_all add: in_order_def rsv_size_def algebra_simps)
  have eq: "fdt_del_mem_rsv fdt (int (length us)) = fdt_splice_mem_rsv' fdt ?p 1 0"
    using num_mem_rsv_at [OF h'] edit_probe(2) [OF inv] mem_rsv_w_at [OF inv]
    by (simp add: fdt_del_mem_rsv_def FDT_RW_PROBE_def)
  have ds: "uint (hdr fdt 8) \<le> uint (hdr fdt 12) + uint (hdr fdt 32)"
    using S(1,6,7) by linarith
  have n: "length us + 1 \<le> length (us @ r # vs)" "(1 :: nat) \<le> 1" "(0 :: nat) \<le> 1" by simp_all
  show ?thesis
  proof (cases rule: splice_rsv [OF h n refl refl])
    case 1
    then show ?thesis using S(2) by (simp add: edit_room_def)
  next
    case (2 f1)
    note f1 = 2 [simplified]
    have tail: "rsv_in fdt (?p + 16) vs"
      using rsv_in_tail [of fdt "uint (hdr fdt 16)" us "r # vs"] h' by (simp add: holds_def)
    have "rsv_in f1 (?p + 16 + - 16) vs"
      using p(2) ds by (intro rsv_in_shift [OF tail]) (use f1(9) in simp)
    then have "rsv_in f1 ?p vs" by simp
    then have "rsv_in f1 (uint (hdr fdt 16)) (us @ vs)"
    proof (rule rsv_in_replace [rotated 2])
      show "rsv_in fdt (uint (hdr fdt 16)) (us @ r # vs)" using h' by (simp add: holds_def)
      show "rd8 f1 q = rd8 fdt q" if "uint (hdr fdt 16) \<le> q" "q < ?p" for q
        using that S(8) f1(8) [of q] by simp
    qed
    then have rsv: "rsv_in f1 (uint (hdr f1 16)) (us @ vs)" using f1(5) by simp
    have moved: "rd8 f1 (q + - 16) = rd8 fdt q" if "uint (hdr fdt 8) \<le> q" "q < uint (hdr fdt 12) + uint (hdr fdt 32)" for q
      using that p(2) f1(9) [of q] rsv_size_ge [of vs] by simp
    have off: "uint (hdr f1 8) = uint (hdr fdt 8) + - 16" "uint (hdr f1 12) = uint (hdr fdt 12) + - 16" "- 16 \<le> edit_room fdt"
      using f1(4,6,7) by simp_all
    have "rsv_size (us @ vs) \<le> rsv_size (us @ r # vs) + - 16"
      by (simp add: rsv_size_def)
    from rsv_spliced [OF h f1(2,3,5) off this moved rsv]
    have "holds_open f1 (us @ vs) ts" "edit_room f1 = edit_room fdt + 16" by simp_all
    then show ?thesis using f1(1) eq by simp
  qed
qed

section \<open>Properties\<close>

text \<open>C14: The memory reservation map of a blob open for editing is a list.  \<^verbatim>\<open>fdt_num_mem_rsv\<close> returns its length and
  \<^verbatim>\<open>fdt_get_mem_rsv\<close> its entries.  \<^verbatim>\<open>fdt_add_mem_rsv\<close> needs exactly 16 free bytes: without them it returns \<^verbatim>\<open>-FDT_ERR_NOSPACE\<close> and
  changes nothing, with them it appends the entry (one of size 0 is written, but ends the list and is not seen).
  \<^verbatim>\<open>fdt_del_mem_rsv\<close> removes the entry at its index, or returns \<^verbatim>\<open>-FDT_ERR_NOTFOUND\<close> behind the last one.  Both keep the tokens of the
  tree, and the free room changes by exactly 16 bytes.\<close>

theorem fdt_mem_rsv_refines:
  assumes "holds_open fdt rs ts"
  shows "fdt_num_mem_rsv fdt = Some (int (length rs)) \<and>
    (\<forall>n < length rs. fdt_get_mem_rsv fdt (int n) = Some (Inr (rs ! n))) \<and>
    (if edit_room fdt < 16 then fdt_add_mem_rsv fdt address sz = Some (- FDT_ERR_NOSPACE, fdt)
     else \<exists>fdt'. fdt_add_mem_rsv fdt address sz = Some (0, fdt') \<and> holds_open fdt' (add_rsv address sz rs) ts \<and>
       edit_room fdt' = edit_room fdt - 16) \<and>
    (if length rs \<le> n then fdt_del_mem_rsv fdt (int n) = Some (- FDT_ERR_NOTFOUND, fdt)
     else \<exists>fdt'. fdt_del_mem_rsv fdt (int n) = Some (0, fdt') \<and> holds_open fdt' (take n rs @ drop (Suc n) rs) ts \<and>
       edit_room fdt' = edit_room fdt + 16)"
proof (intro conjI allI impI)
  have h: "holds fdt rs ts" using assms by (simp add: holds_open_def)
  have inv: "edit_inv fdt" by (rule holds_open_inv [OF assms])
  show "fdt_num_mem_rsv fdt = Some (int (length rs))" by (rule num_mem_rsv_at [OF h])
  show "fdt_get_mem_rsv fdt (int m) = Some (Inr (rs ! m))" if "m < length rs" for m by (rule get_mem_rsv_at [OF h that])
  show "if edit_room fdt < 16 then fdt_add_mem_rsv fdt address sz = Some (- FDT_ERR_NOSPACE, fdt)
     else \<exists>fdt'. fdt_add_mem_rsv fdt address sz = Some (0, fdt') \<and> holds_open fdt' (add_rsv address sz rs) ts \<and>
       edit_room fdt' = edit_room fdt - 16"
    by (rule add_mem_rsv_at [OF assms, of address sz]) auto
  show "if length rs \<le> n then fdt_del_mem_rsv fdt (int n) = Some (- FDT_ERR_NOTFOUND, fdt)
     else \<exists>fdt'. fdt_del_mem_rsv fdt (int n) = Some (0, fdt') \<and> holds_open fdt' (take n rs @ drop (Suc n) rs) ts \<and>
       edit_room fdt' = edit_room fdt + 16"
  proof (cases "length rs \<le> n")
    case True
    then show ?thesis
      using num_mem_rsv_at [OF h] edit_probe(2) [OF inv] mem_rsv_w_at [OF inv] by (simp add: fdt_del_mem_rsv_def FDT_RW_PROBE_def)
  next
    case False
    then have "holds_open fdt (take n rs @ rs ! n # drop (Suc n) rs) ts"
      using assms by (simp flip: id_take_nth_drop)
    from del_mem_rsv_at [OF this] False show ?thesis by simp
  qed
qed

lemma slack_holds: "holds_open slack_fdt [] [TBegin [], TProp [97] [1], TEnd]"
proof (rule holds_openI)
  show "tree_toks slack_fdt [TBegin [], TProp [97] [1], TEnd]"
    using slack_node by (auto simp: node_toks_def tree_toks_def simp del: toks_in.simps(2))
  have "fdt64_ld slack_fdt 48 = Some 0" by code_simp
  then show "rsv_in slack_fdt (uint (hdr slack_fdt 16)) []" by (simp add: slack_hdr)
qed (simp add: slack_hdr)

theorem fdt_mem_rsv_refines_witness:
  "\<exists>fdt'. fdt_add_mem_rsv slack_fdt 0x80000000 0x1000 = Some (0, fdt') \<and>
     holds_open fdt' [(0x80000000, 0x1000)] [TBegin [], TProp [97] [1], TEnd] \<and> edit_room fdt' = 22"
  using fdt_mem_rsv_refines [OF slack_holds, of "0x80000000" "0x1000" 0] by (simp add: slack_room add_rsv_def)

end
