(* ===== verification/Fdt_Space.thy ===== *)
theory Fdt_Space
  imports Fdt_Rsv
begin

unbundle bit_operations_syntax

text \<open>
  \<^verbatim>\<open>fdt_open_into\<close> and \<^verbatim>\<open>fdt_pack\<close>: the blob that they leave holds the reservations and the tree of the blob they were given, in
  blocks that are in order, with all of the buffer's room or with none.
\<close>

section \<open>A blob inside a memory\<close>

lemma fdt_in_ok: "fdt_in mem p = Some f \<Longrightarrow> 0 \<le> p \<and> p \<le> int (length (fdt_bytes mem))"
  by (simp add: fdt_in_def split: if_splits)

lemma fdt_in_length: "fdt_in mem p = Some f \<Longrightarrow> int (length (fdt_bytes f)) = int (length (fdt_bytes mem)) - p"
  by (auto simp: fdt_in_def split: if_splits)

lemma fdt_in_addr: "fdt_in mem p = Some f \<Longrightarrow> fdt_addr f = fdt_addr mem + word_of_int p"
  by (auto simp: fdt_in_def split: if_splits)

lemma fdt_in_rd8:
  assumes "fdt_in mem p = Some f" "0 \<le> q"
  shows "rd8 f q = rd8 mem (p + q)"
  using assms by (auto simp: fdt_in_def rd8_def nat_add_distrib split: if_splits)

lemma fdt_in_ld: "fdt_in mem p = Some f \<Longrightarrow> 0 \<le> q \<Longrightarrow> fdt32_ld f q = fdt32_ld mem (p + q)"
  by (simp add: fdt32_ld_def fdt_in_rd8 add.assoc)

lemma fdt_in_hdr: "fdt_in mem p = Some f \<Longrightarrow> 0 \<le> q \<Longrightarrow> hdr mem (p + q) = hdr f q"
  by (simp add: hdr_def fdt_in_ld)

lemma fdt_in_0 [simp]: "fdt_in mem 0 = Some mem"
  by (simp add: fdt_in_def)

lemma get_in_ld:
  assumes "\<And>f. get_field f = fdt32_ld f k" "0 \<le> k" "0 \<le> p" "p \<le> int (length (fdt_bytes mem))"
  shows "get_in get_field mem p = fdt32_ld mem (p + k)"
proof -
  obtain f where "fdt_in mem p = Some f" using assms(3,4) by (simp add: fdt_in_def)
  then show ?thesis using assms(1,2) by (simp add: get_in_def fdt_in_ld)
qed

lemma set_in_st:
  assumes "\<And>f. set_field f = fdt32_st f k" "0 \<le> k" "0 \<le> p" "p \<le> int (length (fdt_bytes mem))"
  shows "set_in set_field mem p v = fdt32_st mem (p + k) v"
proof -
  have e: "nat k + 4 + nat p = nat p + nat k + 4" by simp
  have "set_in set_field mem p v = do {
      bytes \<leftarrow> splice (drop (nat p) (fdt_bytes mem)) k (cpu_to_fdt32 v);
      wr_bytes mem p bytes }"
    using assms by (simp add: set_in_def fdt_in_def fdt32_st_def wr_bytes_def bind_assoc)
  also have "\<dots> = wr_bytes mem (p + k) (cpu_to_fdt32 v)"
    using assms(2-4) by (auto simp: splice_def wr_bytes_def nat_add_distrib take_add e)
  finally show ?thesis by (simp add: fdt32_st_def)
qed

lemma move_at:
  assumes "0 \<le> dst" "0 \<le> src" "0 \<le> n" "dst + n \<le> int (length (fdt_bytes m))" "src + n \<le> int (length (fdt_bytes m))"
  obtains m' where "mv_bytes m dst src n = Some m'" "length (fdt_bytes m') = length (fdt_bytes m)" "fdt_addr m' = fdt_addr m"
    "\<forall>x. rd8 m' x = (if dst \<le> x \<and> x < dst + n then rd8 m (x - dst + src) else rd8 m x)"
proof -
  obtain m' bs where w: "mv_bytes m dst src n = Some m'" "wr_bytes m dst bs = Some m'" "int (length bs) = n" "bytes_at m src bs"
    using assms by (rule mv_bytes_spec)
  show thesis
  proof (rule that [OF w(1) wr_bytes_length [OF w(2)] wr_bytes_addr [OF w(2)]])
    have "rd8 m' x = (if dst \<le> x \<and> x < dst + n then rd8 m (x - dst + src) else rd8 m x)" for x
    proof (cases "dst \<le> x \<and> x < dst + n")
      case True
      then have "nat (x - dst) < length bs" "src + int (nat (x - dst)) = x - dst + src"
        using w(3) by auto
      then have "rd8 m (x - dst + src) = Some (bs ! nat (x - dst))"
        using w(4) unfolding bytes_at_def by metis
      then show ?thesis using True w(3) rd8_wr_bytes [OF w(2), of x] by simp
    qed (use rd8_wr_bytes_other [OF w(2), of x] w(3) in auto)
    then show "\<forall>x. rd8 m' x = (if dst \<le> x \<and> x < dst + n then rd8 m (x - dst + src) else rd8 m x)" by blast
  qed
qed

lemma store_at:
  assumes "0 \<le> p" "p + 4 \<le> int (length (fdt_bytes m))"
  obtains m' where "fdt32_st m p v = Some m'" "length (fdt_bytes m') = length (fdt_bytes m)" "fdt_addr m' = fdt_addr m"
    "fdt32_ld m' p = Some v" "\<forall>x. x < p \<or> p + 4 \<le> x \<longrightarrow> rd8 m' x = rd8 m x"
proof -
  obtain m' where m': "fdt32_st m p v = Some m'" using fdt32_st_total [OF assms] by auto
  show thesis
    by (rule that [OF m' fdt32_st_length [OF m'] fdt32_st_addr [OF m'] fdt32_ld_st_same [OF m']])
      (use rd8_st_other [OF m'] in blast)
qed

section \<open>Packing the blocks\<close>

text \<open>
  The moves and stores of \<^verbatim>\<open>fdt_packblocks_\<close>: blocks of \<open>n\<close>, \<open>ss\<close> and \<open>st\<close> bytes at \<open>r\<close>, \<open>s\<close> and \<open>g\<close> of the old blob.  The old blob
  is not overwritten before it is read where the blocks are packed in place, in order, or into a place of their own.
\<close>

lemma pack_moves:
  fixes mem :: fdt and old new r s g n ss st tot T :: int and wss wst :: u32
  assumes nn: "0 \<le> old" "0 \<le> new" "0 \<le> r" "0 \<le> s" "0 \<le> g" "0 \<le> ss" "0 \<le> st" "0 \<le> n"
    and T: "T = 40 + n + ss + st" "new + T \<le> int (length (fdt_bytes mem))"
    and src: "r + n \<le> tot" "s + ss \<le> tot" "g + st \<le> tot" "40 \<le> tot" "old + tot \<le> int (length (fdt_bytes mem))"
    and safe: "old = new \<and> 40 \<le> r \<and> r + n \<le> s \<and> s + ss \<le> g \<or> new + T \<le> old \<or> old + tot \<le> new"
  obtains m1 m2 m3 m4 m5 m6 m7 m8 where
    "mv_bytes mem (new + 40) (old + r) n = Some m1" "fdt32_st m1 (new + 16) 40 = Some m2"
    "mv_bytes m2 (new + (40 + n)) (old + s) ss = Some m3" "fdt32_st m3 (new + 8) (word_of_int (40 + n)) = Some m4"
    "fdt32_st m4 (new + 36) wss = Some m5" "mv_bytes m5 (new + (40 + n + ss)) (old + g) st = Some m6"
    "fdt32_st m6 (new + 12) (word_of_int (40 + n + ss)) = Some m7" "fdt32_st m7 (new + 32) wst = Some m8"
    "length (fdt_bytes m1) = length (fdt_bytes mem)" "length (fdt_bytes m2) = length (fdt_bytes mem)"
    "length (fdt_bytes m3) = length (fdt_bytes mem)" "length (fdt_bytes m4) = length (fdt_bytes mem)"
    "length (fdt_bytes m5) = length (fdt_bytes mem)" "length (fdt_bytes m6) = length (fdt_bytes mem)"
    "length (fdt_bytes m7) = length (fdt_bytes mem)" "length (fdt_bytes m8) = length (fdt_bytes mem)" "fdt_addr m8 = fdt_addr mem"
    "fdt32_ld m2 (old + 8) = fdt32_ld mem (old + 8)" "fdt32_ld m5 (old + 12) = fdt32_ld mem (old + 12)"
    "fdt32_ld m7 (old + 32) = fdt32_ld mem (old + 32)"
    "fdt32_ld m8 (new + 16) = Some 40" "fdt32_ld m8 (new + 8) = Some (word_of_int (40 + n))" "fdt32_ld m8 (new + 36) = Some wss"
    "fdt32_ld m8 (new + 12) = Some (word_of_int (40 + n + ss))" "fdt32_ld m8 (new + 32) = Some wst"
    "\<And>j. 0 \<le> j \<Longrightarrow> j < n \<Longrightarrow> rd8 m8 (new + 40 + j) = rd8 mem (old + r + j)"
    "\<And>j. 0 \<le> j \<Longrightarrow> j < ss \<Longrightarrow> rd8 m8 (new + 40 + n + j) = rd8 mem (old + s + j)"
    "\<And>j. 0 \<le> j \<Longrightarrow> j < st \<Longrightarrow> rd8 m8 (new + 40 + n + ss + j) = rd8 mem (old + g + j)"
    "\<And>x. x < new + 8 \<or> new + 20 \<le> x \<and> x < new + 32 \<or> new + T \<le> x \<Longrightarrow> rd8 m8 x = rd8 mem x"
proof -
  let ?L = "int (length (fdt_bytes mem))"
  have B: "0 \<le> new + 40" "0 \<le> old + r" "new + 40 + n \<le> ?L" "old + r + n \<le> ?L" "0 \<le> new + (40 + n)" "0 \<le> old + s"
    "new + (40 + n) + ss \<le> ?L" "old + s + ss \<le> ?L" "0 \<le> new + (40 + n + ss)" "0 \<le> old + g" "new + (40 + n + ss) + st \<le> ?L"
    "old + g + st \<le> ?L" "0 \<le> new + 16" "0 \<le> new + 8" "0 \<le> new + 36" "0 \<le> new + 12" "0 \<le> new + 32"
    "new + 16 + 4 \<le> ?L" "new + 8 + 4 \<le> ?L" "new + 36 + 4 \<le> ?L" "new + 12 + 4 \<le> ?L" "new + 32 + 4 \<le> ?L"
    using nn T src by linarith+
  obtain m1 where m1: "mv_bytes mem (new + 40) (old + r) n = Some m1" "length (fdt_bytes m1) = length (fdt_bytes mem)"
    "fdt_addr m1 = fdt_addr mem" "\<forall>x. rd8 m1 x = (if new + 40 \<le> x \<and> x < new + 40 + n then rd8 mem (x - (new + 40) + (old + r)) else rd8 mem x)"
    by (rule move_at [OF B(1,2) nn(8) B(3,4)])
  obtain m2 where m2: "fdt32_st m1 (new + 16) 40 = Some m2" "length (fdt_bytes m2) = length (fdt_bytes m1)"
    "fdt_addr m2 = fdt_addr m1" "fdt32_ld m2 (new + 16) = Some 40" "\<forall>x. x < new + 16 \<or> new + 16 + 4 \<le> x \<longrightarrow> rd8 m2 x = rd8 m1 x"
    by (rule store_at [OF B(13), of m1 40]) (use B(18) m1(2) in simp)
  obtain m3 where m3: "mv_bytes m2 (new + (40 + n)) (old + s) ss = Some m3" "length (fdt_bytes m3) = length (fdt_bytes m2)"
    "fdt_addr m3 = fdt_addr m2"
    "\<forall>x. rd8 m3 x = (if new + (40 + n) \<le> x \<and> x < new + (40 + n) + ss then rd8 m2 (x - (new + (40 + n)) + (old + s)) else rd8 m2 x)"
    by (rule move_at [OF B(5,6) nn(6), of m2]) (use B(7,8) m1(2) m2(2) in simp_all)
  obtain m4 where m4: "fdt32_st m3 (new + 8) (word_of_int (40 + n)) = Some m4" "length (fdt_bytes m4) = length (fdt_bytes m3)"
    "fdt_addr m4 = fdt_addr m3" "fdt32_ld m4 (new + 8) = Some (word_of_int (40 + n))" "\<forall>x. x < new + 8 \<or> new + 8 + 4 \<le> x \<longrightarrow> rd8 m4 x = rd8 m3 x"
    by (rule store_at [OF B(14), of m3 "word_of_int (40 + n)"]) (use B(19) m1(2) m2(2) m3(2) in simp)
  obtain m5 where m5: "fdt32_st m4 (new + 36) wss = Some m5" "length (fdt_bytes m5) = length (fdt_bytes m4)"
    "fdt_addr m5 = fdt_addr m4" "fdt32_ld m5 (new + 36) = Some wss" "\<forall>x. x < new + 36 \<or> new + 36 + 4 \<le> x \<longrightarrow> rd8 m5 x = rd8 m4 x"
    by (rule store_at [OF B(15), of m4 wss]) (use B(20) m1(2) m2(2) m3(2) m4(2) in simp)
  obtain m6 where m6: "mv_bytes m5 (new + (40 + n + ss)) (old + g) st = Some m6" "length (fdt_bytes m6) = length (fdt_bytes m5)"
    "fdt_addr m6 = fdt_addr m5"
    "\<forall>x. rd8 m6 x = (if new + (40 + n + ss) \<le> x \<and> x < new + (40 + n + ss) + st then rd8 m5 (x - (new + (40 + n + ss)) + (old + g)) else rd8 m5 x)"
    by (rule move_at [OF B(9,10) nn(7), of m5]) (use B(11,12) m1(2) m2(2) m3(2) m4(2) m5(2) in simp_all)
  obtain m7 where m7: "fdt32_st m6 (new + 12) (word_of_int (40 + n + ss)) = Some m7" "length (fdt_bytes m7) = length (fdt_bytes m6)"
    "fdt_addr m7 = fdt_addr m6" "fdt32_ld m7 (new + 12) = Some (word_of_int (40 + n + ss))"
    "\<forall>x. x < new + 12 \<or> new + 12 + 4 \<le> x \<longrightarrow> rd8 m7 x = rd8 m6 x"
    by (rule store_at [OF B(16), of m6 "word_of_int (40 + n + ss)"]) (use B(21) m1(2) m2(2) m3(2) m4(2) m5(2) m6(2) in simp)
  obtain m8 where m8: "fdt32_st m7 (new + 32) wst = Some m8" "length (fdt_bytes m8) = length (fdt_bytes m7)"
    "fdt_addr m8 = fdt_addr m7" "fdt32_ld m8 (new + 32) = Some wst" "\<forall>x. x < new + 32 \<or> new + 32 + 4 \<le> x \<longrightarrow> rd8 m8 x = rd8 m7 x"
    by (rule store_at [OF B(17), of m7 wst]) (use B(22) m1(2) m2(2) m3(2) m4(2) m5(2) m6(2) m7(2) in simp)
  note rd = m1(4) m2(5) m3(4) m4(5) m5(5) m6(4) m7(5) m8(5)
  note len = m1(2) m2(2) m3(2) m4(2) m5(2) m6(2) m7(2) m8(2)
  note A = safe nn src T(1)
  have o1: "rd8 m2 x = rd8 mem x" if "old + 8 \<le> x \<and> x < old + 16 \<or> old + 32 \<le> x \<and> x < old + 36
      \<or> old + s \<le> x \<and> x < old + s + ss \<or> old + g \<le> x \<and> x < old + g + st" for x
    using that A m1(4) [rule_format, of x] m2(5) [rule_format, of x] by auto
  have o3: "rd8 m3 x = rd8 m2 x" if "old + 8 \<le> x \<and> x < old + 16 \<or> old + 32 \<le> x \<and> x < old + 36 \<or> old + g \<le> x \<and> x < old + g + st" for x
    using that A m3(4) [rule_format, of x] by auto
  have o5: "rd8 m5 x = rd8 m3 x" if "old + 12 \<le> x \<and> x < old + 16 \<or> old + 32 \<le> x \<and> x < old + 36 \<or> old + g \<le> x \<and> x < old + g + st" for x
    using that A m4(5) [rule_format, of x] m5(5) [rule_format, of x] by auto
  have o7: "rd8 m7 x = rd8 m5 x" if "old + 32 \<le> x \<and> x < old + 36" for x
    using that A m6(4) [rule_format, of x] m7(5) [rule_format, of x] by auto
  show thesis
  proof (rule that [OF m1(1) m2(1) m3(1) m4(1) m5(1) m6(1) m7(1) m8(1)])
    show "fdt32_ld m2 (old + 8) = fdt32_ld mem (old + 8)"
      by (intro fdt32_ld_cong o1) auto
    show "fdt32_ld m5 (old + 12) = fdt32_ld mem (old + 12)"
      by (intro fdt32_ld_cong) (auto simp: o5 o3 o1)
    show "fdt32_ld m7 (old + 32) = fdt32_ld mem (old + 32)"
      by (intro fdt32_ld_cong) (auto simp: o7 o5 o3 o1)
    show "fdt_addr m8 = fdt_addr mem"
      using m1(3) m2(3) m3(3) m4(3) m5(3) m6(3) m7(3) m8(3) by simp
    show "rd8 m8 x = rd8 mem x" if "x < new + 8 \<or> new + 20 \<le> x \<and> x < new + 32 \<or> new + T \<le> x" for x
    proof -
      have "rd8 m8 x = rd8 m5 x"
        using that A m6(4) [rule_format, of x] m7(5) [rule_format, of x] m8(5) [rule_format, of x] by auto
      also have "\<dots> = rd8 m2 x"
        using that A m3(4) [rule_format, of x] m4(5) [rule_format, of x] m5(5) [rule_format, of x] by auto
      also have "\<dots> = rd8 mem x"
        using that A m1(4) [rule_format, of x] m2(5) [rule_format, of x] by auto
      finally show ?thesis .
    qed
    have up: "rd8 m8 x = rd8 m6 x" if "new + 36 \<le> x" for x
      using that m7(5) [rule_format, of x] m8(5) [rule_format, of x] by auto
    show "rd8 m8 (new + 40 + n + ss + j) = rd8 mem (old + g + j)" if "0 \<le> j" "j < st" for j
      using that A up [of "new + 40 + n + ss + j"] m6(4) [rule_format, of "new + 40 + n + ss + j"] o5 [of "old + g + j"] o3 [of "old + g + j"]
        o1 [of "old + g + j"] by (auto simp: algebra_simps)
    show "rd8 m8 (new + 40 + n + j) = rd8 mem (old + s + j)" if "0 \<le> j" "j < ss" for j
      using that A up [of "new + 40 + n + j"] m6(4) [rule_format, of "new + 40 + n + j"] m5(5) [rule_format, of "new + 40 + n + j"]
        m4(5) [rule_format, of "new + 40 + n + j"] m3(4) [rule_format, of "new + 40 + n + j"] o1 [of "old + s + j"] by (auto simp: algebra_simps)
    show "rd8 m8 (new + 40 + j) = rd8 mem (old + r + j)" if "0 \<le> j" "j < n" for j
      using that A up [of "new + 40 + j"] m6(4) [rule_format, of "new + 40 + j"] m5(5) [rule_format, of "new + 40 + j"]
        m4(5) [rule_format, of "new + 40 + j"] m3(4) [rule_format, of "new + 40 + j"] m2(5) [rule_format, of "new + 40 + j"]
        m1(4) [rule_format, of "new + 40 + j"] by (auto simp: algebra_simps)
    have "rd8 m8 x = rd8 m2 x" if "new + 16 \<le> x" "x < new + 20" for x
      using that A rd [rule_format, of x] by auto
    then show "fdt32_ld m8 (new + 16) = Some 40"
      using fdt32_ld_cong [of m8 "new + 16" m2] m2(4) by simp
    have "rd8 m8 x = rd8 m4 x" if "new + 8 \<le> x" "x < new + 12" for x
      using that A rd [rule_format, of x] by auto
    then show "fdt32_ld m8 (new + 8) = Some (word_of_int (40 + n))"
      using fdt32_ld_cong [of m8 "new + 8" m4] m4(4) by simp
    have "rd8 m8 x = rd8 m5 x" if "new + 36 \<le> x" "x < new + 40" for x
      using that A rd [rule_format, of x] by auto
    then show "fdt32_ld m8 (new + 36) = Some wss"
      using fdt32_ld_cong [of m8 "new + 36" m5] m5(4) by simp
    have "rd8 m8 x = rd8 m7 x" if "new + 12 \<le> x" "x < new + 16" for x
      using that A rd [rule_format, of x] by auto
    then show "fdt32_ld m8 (new + 12) = Some (word_of_int (40 + n + ss))"
      using fdt32_ld_cong [of m8 "new + 12" m7] m7(4) by simp
    show "fdt32_ld m8 (new + 32) = Some wst" by (rule m8(4))
  qed (use len in simp_all)
qed

text \<open>The size of the blob with its blocks packed.\<close>

definition packed_size :: "fdt \<Rightarrow> 'a list \<Rightarrow> int" where
  "packed_size fdt rs = 40 + rsv_size rs + uint (hdr fdt 36) + uint (hdr fdt 32)"

text \<open>The blocks of \<open>f\<close>, whose reservation map has \<open>n\<close> bytes, packed at \<open>new\<close>.\<close>

definition packed_at :: "fdt \<Rightarrow> int \<Rightarrow> fdt \<Rightarrow> int \<Rightarrow> bool" where
  "packed_at m new f n \<longleftrightarrow>
     fdt32_ld m (new + 16) = Some 40 \<and> fdt32_ld m (new + 8) = Some (word_of_int (40 + n)) \<and>
     fdt32_ld m (new + 36) = Some (hdr f 36) \<and> fdt32_ld m (new + 12) = Some (word_of_int (40 + n + uint (hdr f 36))) \<and>
     fdt32_ld m (new + 32) = Some (hdr f 32) \<and>
     (\<forall>j. 0 \<le> j \<and> j < n \<longrightarrow> rd8 m (new + 40 + j) = rd8 f (uint (hdr f 16) + j)) \<and>
     (\<forall>j. 0 \<le> j \<and> j < uint (hdr f 36) \<longrightarrow> rd8 m (new + 40 + n + j) = rd8 f (uint (hdr f 8) + j)) \<and>
     (\<forall>j. 0 \<le> j \<and> j < uint (hdr f 32) \<longrightarrow> rd8 m (new + 40 + n + uint (hdr f 36) + j) = rd8 f (uint (hdr f 12) + j))"

lemma packblocks_at:
  assumes f: "fdt_in mem old = Some f" and h: "holds f rs ts"
    and new: "0 \<le> new" "new + packed_size f rs \<le> int (length (fdt_bytes mem))"
    and safe: "old = new \<and> in_order f (rsv_size rs) \<or> new + packed_size f rs \<le> old \<or> old + uint (hdr f 4) \<le> new"
  obtains mem' where "fdt_packblocks' mem old new (rsv_size rs) (uint (hdr f 36)) (uint (hdr f 32)) = Some mem'"
    "length (fdt_bytes mem') = length (fdt_bytes mem)" "fdt_addr mem' = fdt_addr mem" "packed_at mem' new f (rsv_size rs)"
    "\<forall>x. x < new + 8 \<or> new + 20 \<le> x \<and> x < new + 32 \<or> new + packed_size f rs \<le> x \<longrightarrow> rd8 mem' x = rd8 mem x"
proof -
  note S = holds_sizes [OF h] and p = fdt_in_ok [OF f] and l = fdt_in_length [OF f]
  let ?n = "rsv_size rs" and ?ss = "uint (hdr f 36)" and ?st = "uint (hdr f 32)"
  have n16: "16 \<le> ?n" by (rule rsv_size_ge)
  have nn: "0 \<le> old" "0 \<le> new" "0 \<le> uint (hdr f 16)" "0 \<le> uint (hdr f 8)" "0 \<le> uint (hdr f 12)" "0 \<le> ?ss" "0 \<le> ?st" "0 \<le> ?n"
    using p new n16 by auto
  have tot: "40 \<le> uint (hdr f 4)" "old + uint (hdr f 4) \<le> int (length (fdt_bytes mem))"
    using S(2,3,7) l nn by linarith+
  have at: "old \<le> int (length (fdt_bytes mem))" "new \<le> int (length (fdt_bytes mem))"
    using p new(2) nn unfolding packed_size_def by linarith+
  have get: "get_in fdt_off_mem_rsvmap m old = fdt32_ld m (old + 16)" "get_in fdt_off_dt_struct m old = fdt32_ld m (old + 8)"
    "get_in fdt_off_dt_strings m old = fdt32_ld m (old + 12)" "get_in fdt_size_dt_strings m old = fdt32_ld m (old + 32)"
    if "length (fdt_bytes m) = length (fdt_bytes mem)" for m
    using nn at that by (intro get_in_ld; simp add: fdt_header_defs)+
  have set: "set_in fdt_set_off_mem_rsvmap m new v = fdt32_st m (new + 16) v" "set_in fdt_set_off_dt_struct m new v = fdt32_st m (new + 8) v"
    "set_in fdt_set_size_dt_struct m new v = fdt32_st m (new + 36) v" "set_in fdt_set_off_dt_strings m new v = fdt32_st m (new + 12) v"
    "set_in fdt_set_size_dt_strings m new v = fdt32_st m (new + 32) v"
    if "length (fdt_bytes m) = length (fdt_bytes mem)" for m v
    using nn at that by (intro set_in_st; simp add: fdt_set_defs fun_eq_iff)+
  have ld: "fdt32_ld mem (old + k) = Some (hdr f k)" if "0 \<le> k" "k \<le> 36" for k
  proof -
    have "\<exists>w. fdt32_ld f k = Some w"
      using that fdt_buffer_header [OF S(1)] by (intro fdt32_ld_total) auto
    then show ?thesis using fdt_in_ld [OF f that(1)] by (auto simp: hdr_def)
  qed
  have safe': "old = new \<and> 40 \<le> uint (hdr f 16) \<and> uint (hdr f 16) + ?n \<le> uint (hdr f 8) \<and> uint (hdr f 8) + ?ss \<le> uint (hdr f 12)
      \<or> new + packed_size f rs \<le> old \<or> old + uint (hdr f 4) \<le> new"
    using safe by (auto simp: in_order_def)
  show thesis
  proof (rule pack_moves [OF nn packed_size_def new(2) S(5,2,4) tot safe', of "hdr f 36" "hdr f 32"])
    fix m1 m2 m3 m4 m5 m6 m7 m8
    assume m: "mv_bytes mem (new + 40) (old + uint (hdr f 16)) ?n = Some m1" "fdt32_st m1 (new + 16) 40 = Some m2"
      "mv_bytes m2 (new + (40 + ?n)) (old + uint (hdr f 8)) ?ss = Some m3" "fdt32_st m3 (new + 8) (word_of_int (40 + ?n)) = Some m4"
      "fdt32_st m4 (new + 36) (hdr f 36) = Some m5" "mv_bytes m5 (new + (40 + ?n + ?ss)) (old + uint (hdr f 12)) ?st = Some m6"
      "fdt32_st m6 (new + 12) (word_of_int (40 + ?n + ?ss)) = Some m7" "fdt32_st m7 (new + 32) (hdr f 32) = Some m8"
      and len: "length (fdt_bytes m1) = length (fdt_bytes mem)" "length (fdt_bytes m2) = length (fdt_bytes mem)"
      "length (fdt_bytes m3) = length (fdt_bytes mem)" "length (fdt_bytes m4) = length (fdt_bytes mem)"
      "length (fdt_bytes m5) = length (fdt_bytes mem)" "length (fdt_bytes m6) = length (fdt_bytes mem)"
      "length (fdt_bytes m7) = length (fdt_bytes mem)" "length (fdt_bytes m8) = length (fdt_bytes mem)" "fdt_addr m8 = fdt_addr mem"
      and lds: "fdt32_ld m2 (old + 8) = fdt32_ld mem (old + 8)" "fdt32_ld m5 (old + 12) = fdt32_ld mem (old + 12)"
      "fdt32_ld m7 (old + 32) = fdt32_ld mem (old + 32)"
      and w: "fdt32_ld m8 (new + 16) = Some 40" "fdt32_ld m8 (new + 8) = Some (word_of_int (40 + ?n))" "fdt32_ld m8 (new + 36) = Some (hdr f 36)"
      "fdt32_ld m8 (new + 12) = Some (word_of_int (40 + ?n + ?ss))" "fdt32_ld m8 (new + 32) = Some (hdr f 32)"
      and b: "\<And>j. 0 \<le> j \<Longrightarrow> j < ?n \<Longrightarrow> rd8 m8 (new + 40 + j) = rd8 mem (old + uint (hdr f 16) + j)"
      "\<And>j. 0 \<le> j \<Longrightarrow> j < ?ss \<Longrightarrow> rd8 m8 (new + 40 + ?n + j) = rd8 mem (old + uint (hdr f 8) + j)"
      "\<And>j. 0 \<le> j \<Longrightarrow> j < ?st \<Longrightarrow> rd8 m8 (new + 40 + ?n + ?ss + j) = rd8 mem (old + uint (hdr f 12) + j)"
      "\<And>x. x < new + 8 \<or> new + 20 \<le> x \<and> x < new + 32 \<or> new + packed_size f rs \<le> x \<Longrightarrow> rd8 m8 x = rd8 mem x"
    have "fdt_packblocks' mem old new ?n ?ss ?st = Some m8"
      using m len lds ld by (simp add: fdt_packblocks'_def Let_def get set)
    moreover have "packed_at m8 new f ?n"
      using w b(1-3) nn by (simp add: packed_at_def fdt_in_rd8 [OF f] add.assoc)
    ultimately show thesis
      by (rule that [OF _ len(8,9)]) (use b(4) in blast)
  qed
qed

lemma fdt_in_moved:
  assumes "fdt_in m new = Some f'" "\<forall>j. 0 \<le> j \<and> j < len \<longrightarrow> rd8 m (new + k + j) = rd8 f (c + j)" "c \<le> q" "q < c + len" "0 \<le> k"
  shows "rd8 f' (q + (k - c)) = rd8 f q"
proof -
  have "rd8 m (new + k + (q - c)) = rd8 f (c + (q - c))"
    using assms(2-4) by simp
  then show ?thesis
    using fdt_in_rd8 [OF assms(1), of "q + (k - c)"] assms(3,5) by (simp add: algebra_simps)
qed

lemma packed_holds:
  assumes h: "holds f rs ts" and pk: "packed_at m new f (rsv_size rs)" and f': "fdt_in m new = Some f'"
    and head: "fdt_addr f' AND 7 = 0" "hdr f' 0 = FDT_MAGIC" "hdr f' 20 = 17" "hdr f' 24 \<le> 17"
    and size: "packed_size f rs \<le> uint (hdr f' 4)" "uint (hdr f' 4) \<le> int (length (fdt_bytes f'))" "length (fdt_bytes f') < 2147483644"
  shows "holds_open f' rs ts" "edit_room f' = uint (hdr f' 4) - packed_size f rs"
proof -
  let ?n = "rsv_size rs" and ?ss = "uint (hdr f 36)" and ?st = "uint (hdr f 32)"
  have nn: "16 \<le> ?n" "0 \<le> ?ss" "0 \<le> ?st" using rsv_size_ge by simp_all
  have sz: "40 + ?n + ?ss + ?st \<le> uint (hdr f' 4)" "uint (hdr f' 4) < 2147483644"
    using size by (simp_all add: packed_size_def)
  have u: "uint (word_of_int (40 + ?n) :: u32) = 40 + ?n" "uint (word_of_int (40 + ?n + ?ss) :: u32) = 40 + ?n + ?ss"
    using nn sz by (intro uint_u32_of_int; linarith)+
  have hd: "hdr f' 16 = 40" "hdr f' 8 = word_of_int (40 + ?n)" "hdr f' 36 = hdr f 36" "hdr f' 12 = word_of_int (40 + ?n + ?ss)"
    "hdr f' 32 = hdr f 32"
    using pk by (simp_all add: packed_at_def hdr_def fdt_in_ld [OF f'] del: of_int_add)
  have buf: "fdt_buffer f'"
    using size sz nn by (intro fdt_bufferI) linarith+
  have order: "in_order f' ?n"
    using sz(1) by (simp add: in_order_def hd u del: of_int_add)
  have rsv: "rsv_in f' (uint (hdr f 16) + (40 - uint (hdr f 16))) rs"
  proof (rule rsv_in_shift)
    show "rsv_in f (uint (hdr f 16)) rs" using h by (simp add: holds_def)
    fix q assume "uint (hdr f 16) \<le> q" "q < uint (hdr f 16) + ?n"
    then show "rd8 f' (q + (40 - uint (hdr f 16))) = rd8 f q"
      using pk by (intro fdt_in_moved [OF f', of ?n]) (simp_all add: packed_at_def)
  qed
  show "holds_open f' rs ts"
  proof (rule holds_moved [OF h buf head hd(5,3) order])
    show "rsv_in f' (uint (hdr f' 16)) rs" using rsv by (simp add: hd)
    show "rd8 f' (q + (uint (hdr f' 8) - uint (hdr f 8))) = rd8 f q" if "uint (hdr f 8) \<le> q" "q < uint (hdr f 8) + ?ss" for q
      using pk that nn unfolding hd(2) u(1)
      by (intro fdt_in_moved [OF f', of ?ss]) (simp_all add: packed_at_def add.assoc)
    show "rd8 f' (q + (uint (hdr f' 12) - uint (hdr f 12))) = rd8 f q" if "uint (hdr f 12) \<le> q" "q < uint (hdr f 12) + uint (hdr f 32)" for q
      using pk that nn unfolding hd(4) u(2)
      by (intro fdt_in_moved [OF f', of ?st]) (simp_all add: packed_at_def add.assoc)
  qed
  show "edit_room f' = uint (hdr f' 4) - packed_size f rs"
    by (simp add: edit_room_def packed_size_def hd u del: of_int_add)
qed

lemma packed_at_shift:
  assumes pk: "packed_at m p f (rsv_size rs)"
    and same: "\<And>j. 8 \<le> j \<and> j < 20 \<or> 32 \<le> j \<and> j < packed_size f rs \<Longrightarrow> rd8 m' (q + j) = rd8 m (p + j)"
  shows "packed_at m' q f (rsv_size rs)"
proof -
  let ?n = "rsv_size rs" and ?ss = "uint (hdr f 36)" and ?st = "uint (hdr f 32)"
  have T: "packed_size f rs = 40 + ?n + ?ss + ?st" and nn: "16 \<le> ?n" "0 \<le> ?ss" "0 \<le> ?st"
    using rsv_size_ge by (simp_all add: packed_size_def)
  have T40: "40 \<le> packed_size f rs" using nn unfolding T by linarith
  have ld: "fdt32_ld m' (q + k) = fdt32_ld m (p + k)" if "k \<in> {8, 12, 16, 32, 36}" for k
  proof -
    have "8 \<le> k + i \<and> k + i < 20 \<or> 32 \<le> k + i \<and> k + i < packed_size f rs" if "i \<in> {0, 1, 2, 3}" for i
      using that \<open>k \<in> _\<close> T40 by auto
    from this [of 0] this [of 1] this [of 2] this [of 3] show ?thesis
      using same [of k] same [of "k + 1"] same [of "k + 2"] same [of "k + 3"] by (simp add: fdt32_ld_def add.assoc)
  qed
  have rd: "rd8 m' (q + 40 + k + j) = rd8 m (p + 40 + k + j)" if "0 \<le> k" "0 \<le> j" "k + j < ?n + ?ss + ?st" for k j
    using that same [of "40 + k + j"] unfolding T by (simp add: add.assoc)
  have "0 + j < ?n + ?ss + ?st" if "j < ?n" for j using that nn by linarith
  then have r1: "rd8 m' (q + 40 + j) = rd8 m (p + 40 + j)" if "0 \<le> j" "j < ?n" for j using rd [of 0 j] that by simp
  have "?n + j < ?n + ?ss + ?st" if "j < ?ss" for j using that nn by linarith
  then have r2: "rd8 m' (q + 40 + ?n + j) = rd8 m (p + 40 + ?n + j)" if "0 \<le> j" "j < ?ss" for j using rd [of ?n j] that nn by simp
  have r3: "rd8 m' (q + 40 + ?n + ?ss + j) = rd8 m (p + 40 + ?n + ?ss + j)" if "0 \<le> j" "j < ?st" for j
    using rd [of "?n + ?ss" j] that nn by (simp add: add.assoc)
  show ?thesis
    using pk r1 r2 r3 by (simp add: packed_at_def ld)
qed

lemma rsv_bytes:
  assumes "holds fdt rs ts"
  shows "c_int ((int (length rs) + 1) * 16) = rsv_size rs" "sint (hdr fdt 36) = uint (hdr fdt 36)" "sint (hdr fdt 32) = uint (hdr fdt 32)"
    "rsv_size rs < 2147483648"
proof -
  note S = holds_sizes [OF assms]
  show r: "rsv_size rs < 2147483648"
    using S(5,6) uint_ge_0 [of "hdr fdt 16"] by linarith
  then show "c_int ((int (length rs) + 1) * 16) = rsv_size rs" by (simp add: rsv_size_def algebra_simps)
  show "sint (hdr fdt 36) = uint (hdr fdt 36)"
    using S(2,3,6) by (intro sint_small_u32) linarith
  show "sint (hdr fdt 32) = uint (hdr fdt 32)"
    using S(4,6) uint_ge_0 [of "hdr fdt 12"] by (intro sint_small_u32) linarith
qed

section \<open>Packing\<close>

lemma pack_at:
  assumes h: "holds_open fdt rs ts"
  shows "\<exists>fdt'. fdt_pack fdt = Some (0, fdt') \<and> holds_open fdt' rs ts \<and> edit_room fdt' = 0 \<and> uint (hdr fdt' 4) = packed_size fdt rs \<and>
    uint (hdr fdt' 16) = 40 \<and> uint (hdr fdt' 8) = 40 + rsv_size rs"
proof -
  have h': "holds fdt rs ts" and o: "in_order fdt (rsv_size rs)" using h by (simp_all add: holds_open_def)
  have inv: "edit_inv fdt" by (rule holds_open_inv [OF h])
  note S = holds_sizes [OF h']
  let ?T = "packed_size fdt rs"
  have T: "?T \<le> uint (hdr fdt 4)" "48 \<le> ?T"
    using o rsv_size_ge [of rs] uint_ge_0 [of "hdr fdt 36"] uint_ge_0 [of "hdr fdt 32"] unfolding in_order_def packed_size_def by linarith+
  have fit: "0 + ?T \<le> int (length (fdt_bytes fdt))" using T S(7) by linarith
  obtain m where m: "fdt_packblocks' fdt 0 0 (rsv_size rs) (uint (hdr fdt 36)) (uint (hdr fdt 32)) = Some m"
    "length (fdt_bytes m) = length (fdt_bytes fdt)" "fdt_addr m = fdt_addr fdt" "packed_at m 0 fdt (rsv_size rs)"
    "\<forall>x. x < 0 + 8 \<or> 0 + 20 \<le> x \<and> x < 0 + 32 \<or> 0 + ?T \<le> x \<longrightarrow> rd8 m x = rd8 fdt x"
    by (rule packblocks_at [OF fdt_in_0 h' order_refl fit]) (use o in auto)
  have len: "40 \<le> length (fdt_bytes m)" using m(2) fdt_buffer_header [OF S(1)] by simp
  obtain m' where st: "fdt32_st m 4 (word_of_int ?T) = Some m'" using fdt32_st_total [of 4 m] len by auto
  have u: "uint (word_of_int ?T :: u32) = ?T"
    using T S(6) by (intro uint_u32_of_int) linarith+
  have "fdt_data_size' m = Some (word_of_int ?T)"
    using m(4) hdr_fields [OF len] by (simp add: fdt_data_size'_def packed_at_def hdr_def packed_size_def fdt_off_dt_strings_def fdt_size_dt_strings_def)
  then have res: "fdt_pack fdt = Some (0, m')"
    using num_mem_rsv_at [OF h'] edit_probe(2) [OF inv] rsv_bytes [OF h'] m(1) st S(1)
    by (simp add: fdt_pack_def FDT_RW_PROBE_def Let_def fdt_set_defs)
  have pk: "packed_at m' 0 fdt (rsv_size rs)"
    by (rule packed_at_shift [OF m(4)]) (use rd8_st_other [OF st] in auto)
  have hk: "hdr m' k = hdr fdt k" if "k \<in> {0, 20, 24}" for k
  proof -
    have "fdt32_ld m' k = fdt32_ld m k" using that by (intro fdt32_ld_st_other [OF st]) auto
    also have "\<dots> = fdt32_ld fdt k" using that m(5) by (intro fdt32_ld_cong) auto
    finally show ?thesis by (simp add: hdr_def)
  qed
  have h4: "hdr m' 4 = word_of_int ?T" using fdt32_ld_st_same [OF st] by (simp add: hdr_def)
  have l: "length (fdt_bytes m') = length (fdt_bytes fdt)" "fdt_addr m' = fdt_addr fdt"
    using m(2,3) fdt32_st_length [OF st] fdt32_st_addr [OF st] by simp_all
  have "holds_open m' rs ts" "edit_room m' = uint (hdr m' 4) - ?T"
    using h' hk fit T S l fdt_buffer_totalsize(3) [OF S(1)]
    by (intro packed_holds [OF h' pk fdt_in_0]; simp add: holds_def blk_inv_def h4 u)+
  moreover have "uint (hdr m' 16) = 40" using pk by (simp add: packed_at_def hdr_def)
  moreover have "uint (hdr m' 8) = 40 + rsv_size rs"
  proof -
    have "0 \<le> 40 + rsv_size rs" "40 + rsv_size rs < 4294967296"
      using T S(6) rsv_size_ge [of rs] uint_ge_0 [of "hdr fdt 36"] uint_ge_0 [of "hdr fdt 32"] unfolding packed_size_def by linarith+
    then show ?thesis using pk by (simp add: packed_at_def hdr_def uint_u32_of_int del: of_int_add)
  qed
  ultimately show ?thesis using res by (simp add: h4 u)
qed

section \<open>Opening into a buffer\<close>

lemma misordered_at:
  assumes h: "holds f rs ts"
  shows "fdt_blocks_misordered' f (rsv_size rs) (uint (hdr f 36)) = Some (\<not> in_order f (rsv_size rs))"
proof -
  note S = holds_sizes [OF h]
  have n: "0 \<le> rsv_size rs" using rsv_size_ge [of rs] by linarith
  have w: "uint (word_of_int (rsv_size rs) :: u32) = rsv_size rs"
    using n rsv_bytes(4) [OF h] by (intro uint_u32_of_int) linarith+
  have a: "uint (hdr f 16 + word_of_int (rsv_size rs)) = uint (hdr f 16) + rsv_size rs"
    using S(5,6) by (intro uint_u32_sum [OF refl w]) linarith
  have b: "uint (hdr f 8 + hdr f 36) = uint (hdr f 8) + uint (hdr f 36)"
    using S(2,6) by (intro uint_u32_sum refl) linarith
  have c: "uint (hdr f 12 + hdr f 32) = uint (hdr f 12) + uint (hdr f 32)"
    using S(4,6) by (intro uint_u32_sum refl) linarith
  show ?thesis
    using S(1) by (auto simp: fdt_blocks_misordered'_def in_order_def word_less_def a b c)
qed

lemma open_into_eq:
  assumes f: "fdt_in mem p = Some f" and h: "holds f rs ts"
  shows "fdt_open_into mem p buf bufsize =
    (if in_order f (rsv_size rs) then open_move mem f buf bufsize (uint (hdr f 36))
     else open_reorder mem p buf bufsize (rsv_size rs) (uint (hdr f 36)))"
proof -
  have "open_struct_size f = Some (Inr (uint (hdr f 36)))"
    using h holds_sizes(1) [OF h] rsv_bytes(2) [OF h] by (simp add: open_struct_size_def holds_def blk_inv_def)
  then show ?thesis
    using f holds_probe [OF h] num_mem_rsv_at [OF h] misordered_at [OF h] rsv_bytes(1) [OF h]
    by (simp add: fdt_open_into_def Let_def)
qed

lemma open_move_at:
  assumes f: "fdt_in mem p = Some f" and h: "holds_open f rs ts"
    and buf: "0 \<le> buf" "buf + bufsize \<le> int (length (fdt_bytes mem))" "length (fdt_bytes mem) < 2147483644"
      "(fdt_addr mem + word_of_int buf) AND 7 = 0" "uint (hdr f 4) \<le> bufsize"
  shows "\<exists>mem' f'. open_move mem f buf bufsize (uint (hdr f 36)) = Some (0, mem') \<and> fdt_in mem' buf = Some f' \<and> holds_open f' rs ts \<and>
    edit_room f' = bufsize - (uint (hdr f 12) + uint (hdr f 32)) \<and> hdr f' 28 = hdr f 28"
proof -
  have h': "holds f rs ts" and o: "in_order f (rsv_size rs)" using h by (simp_all add: holds_open_def)
  note S = holds_sizes [OF h']
  let ?bs = "take (unat (hdr f 4)) (fdt_bytes f)"
  have un: "unat (hdr f 4) \<le> length (fdt_bytes f)" using S(7) by (simp only: uint_nat of_nat_le_iff)
  then have n: "int (length ?bs) = uint (hdr f 4)" by simp
  have T: "40 \<le> uint (hdr f 4)" using S(2,3) uint_ge_0 [of "hdr f 36"] by linarith
  have B: "buf + 40 \<le> int (length (fdt_bytes mem))" "buf \<le> int (length (fdt_bytes mem))" using buf T by linarith+
  have "buf + int (length ?bs) \<le> int (length (fdt_bytes mem))" using n buf by linarith
  then obtain m1 where m1: "wr_bytes mem buf ?bs = Some m1" using wr_bytes_total [OF buf(1)] by blast
  have len1: "length (fdt_bytes m1) = length (fdt_bytes mem)" by (rule wr_bytes_length [OF m1])
  obtain m2 where m2: "fdt32_st m1 (buf + 20) 17 = Some m2" "length (fdt_bytes m2) = length (fdt_bytes m1)"
    "fdt_addr m2 = fdt_addr m1" "fdt32_ld m2 (buf + 20) = Some 17" "\<forall>x. x < buf + 20 \<or> buf + 20 + 4 \<le> x \<longrightarrow> rd8 m2 x = rd8 m1 x"
    by (rule store_at [of "buf + 20" m1 17]) (use buf B len1 in simp_all)
  obtain m3 where m3: "fdt32_st m2 (buf + 36) (hdr f 36) = Some m3" "length (fdt_bytes m3) = length (fdt_bytes m2)"
    "fdt_addr m3 = fdt_addr m2" "fdt32_ld m3 (buf + 36) = Some (hdr f 36)" "\<forall>x. x < buf + 36 \<or> buf + 36 + 4 \<le> x \<longrightarrow> rd8 m3 x = rd8 m2 x"
    by (rule store_at [of "buf + 36" m2 "hdr f 36"]) (use buf B len1 m2(2) in simp_all)
  obtain m4 where m4: "fdt32_st m3 (buf + 4) (word_of_int bufsize) = Some m4" "length (fdt_bytes m4) = length (fdt_bytes m3)"
    "fdt_addr m4 = fdt_addr m3" "fdt32_ld m4 (buf + 4) = Some (word_of_int bufsize)" "\<forall>x. x < buf + 4 \<or> buf + 4 + 4 \<le> x \<longrightarrow> rd8 m4 x = rd8 m3 x"
    by (rule store_at [of "buf + 4" m3 "word_of_int bufsize"]) (use buf B len1 m2(2) m3(2) in simp_all)
  have set: "set_in fdt_set_version m buf v = fdt32_st m (buf + 20) v" "set_in fdt_set_size_dt_struct m buf v = fdt32_st m (buf + 36) v"
    "set_in fdt_set_totalsize m buf v = fdt32_st m (buf + 4) v" if "length (fdt_bytes m) = length (fdt_bytes mem)" for m v
    using buf(1) B that by (intro set_in_st; simp add: fdt_set_defs fun_eq_iff)+
  have "fdt_move f bufsize = Some (0, Some ?bs)"
  proof -
    have "0 \<le> bufsize" "\<not> uint (hdr f 4) < 0" "\<not> uint (hdr f 4) > bufsize" using buf(5) T by linarith+
    then show ?thesis using un holds_probe [OF h'] S(1) by (simp add: fdt_move_def) (use buf(5) T in linarith)
  qed
  then have res: "open_move mem f buf bufsize (uint (hdr f 36)) = Some (0, m4)"
    using m1 m2(1,2) m3(1,2) m4(1) len1 by (simp add: open_move_def set)
  obtain f' where f': "fdt_in m4 buf = Some f'"
    using buf B len1 m2(2) m3(2) m4(2) by (simp add: fdt_in_def)
  have rd: "rd8 f' q = rd8 f q" if "0 \<le> q" "q < uint (hdr f 4)" "q < 4 \<or> 8 \<le> q \<and> q < 20 \<or> 24 \<le> q \<and> q < 36 \<or> 40 \<le> q" for q
  proof -
    have "rd8 f' q = rd8 m1 (buf + q)"
      using that fdt_in_rd8 [OF f' that(1)] m2(5) [rule_format, of "buf + q"] m3(5) [rule_format, of "buf + q"] m4(5) [rule_format, of "buf + q"]
      by auto
    also have "\<dots> = Some (?bs ! nat q)"
      using that(1,2) n rd8_wr_bytes [OF m1, of "buf + q"] by simp
    also have "\<dots> = rd8 f q"
    proof -
      have "nat q < unat (hdr f 4)" "q < int (length (fdt_bytes f))" using that(1,2) S(7) unfolding uint_nat by linarith+
      then show ?thesis using that(1) by (simp add: rd8_def)
    qed
    finally show ?thesis .
  qed
  have hd: "hdr f' k = hdr f k" if "k \<in> {0, 8, 12, 16, 24, 28, 32}" for k
  proof -
    have "fdt32_ld f' k = fdt32_ld f k" using that T by (intro fdt32_ld_cong rd) auto
    then show ?thesis by (simp add: hdr_def)
  qed
  have ldk: "hdr f' k = hdr m4 (buf + k)" if "0 \<le> k" for k using fdt_in_hdr [OF f' that] by simp
  have "fdt32_ld m4 (buf + 20) = fdt32_ld m2 (buf + 20)" "fdt32_ld m4 (buf + 36) = fdt32_ld m3 (buf + 36)"
    using m3(5) m4(5) by (auto intro!: fdt32_ld_cong)
  then have hd': "hdr f' 20 = 17" "hdr f' 36 = hdr f 36" "hdr f' 4 = word_of_int bufsize"
    using m2(4) m3(4) m4(4) by (simp_all add: ldk) (simp_all add: hdr_def)
  have u: "uint (word_of_int bufsize :: u32) = bufsize"
    using buf T by (intro uint_u32_of_int) linarith+
  have len: "int (length (fdt_bytes f')) = int (length (fdt_bytes mem)) - buf"
    using fdt_in_length [OF f'] len1 m2(2) m3(2) m4(2) by simp
  have fb: "fdt_buffer f'"
    by (rule fdt_bufferI) (use len B buf in \<open>simp_all add: hd' u\<close>)
  have al: "fdt_addr f' AND 7 = 0"
    using fdt_in_addr [OF f'] m2(3) m3(3) m4(3) wr_bytes_addr [OF m1] buf(4) by simp
  have order: "in_order f' (rsv_size rs)"
    using o buf(5) by (simp add: in_order_def hd hd' u)
  have e: "uint (hdr f 8) + uint (hdr f 36) \<le> uint (hdr f 4)" "uint (hdr f 12) + uint (hdr f 32) \<le> uint (hdr f 4)"
    "uint (hdr f 16) + rsv_size rs \<le> uint (hdr f 4)" "40 \<le> uint (hdr f 8)" "40 \<le> uint (hdr f 12)" "40 \<le> uint (hdr f 16)"
    using S o uint_ge_0 [of "hdr f 36"] unfolding in_order_def by linarith+
  have "holds_open f' rs ts"
  proof (rule holds_moved [OF h' fb al _ hd'(1) _ _ hd'(2) order])
    show "hdr f' 0 = FDT_MAGIC" "hdr f' 24 \<le> 17" "hdr f' 32 = hdr f 32"
      using h' by (simp_all add: hd holds_def)
    have "rsv_in f' (uint (hdr f 16) + 0) rs"
      by (rule rsv_in_shift) (use h' rd e in \<open>auto simp: holds_def\<close>)
    then show "rsv_in f' (uint (hdr f' 16)) rs" by (simp add: hd)
  qed (use rd e in \<open>auto simp: hd\<close>)
  moreover have "edit_room f' = bufsize - (uint (hdr f 12) + uint (hdr f 32))"
    by (simp add: edit_room_def hd hd' u)
  moreover have "hdr f' 28 = hdr f 28" by (simp add: hd)
  ultimately show ?thesis using res f' by blast
qed

text \<open>The header that is written over the packed blocks.\<close>

lemma stamp_header:
  assumes at: "0 \<le> buf" "buf + 40 \<le> int (length (fdt_bytes m1))" "0 \<le> p" "p + 40 \<le> int (length (fdt_bytes m1))"
  obtains m2 m3 m4 m5 w m6 where "fdt32_st m1 buf FDT_MAGIC = Some m2" "fdt32_st m2 (buf + 4) v = Some m3" "fdt32_st m3 (buf + 20) 17 = Some m4"
    "fdt32_st m4 (buf + 24) 16 = Some m5" "fdt32_ld m5 (p + 28) = Some w" "fdt32_st m5 (buf + 28) w = Some m6"
    "length (fdt_bytes m2) = length (fdt_bytes m1)" "length (fdt_bytes m3) = length (fdt_bytes m1)"
    "length (fdt_bytes m4) = length (fdt_bytes m1)" "length (fdt_bytes m5) = length (fdt_bytes m1)"
    "length (fdt_bytes m6) = length (fdt_bytes m1)" "fdt_addr m6 = fdt_addr m1"
    "fdt32_ld m6 buf = Some FDT_MAGIC" "fdt32_ld m6 (buf + 4) = Some v" "fdt32_ld m6 (buf + 20) = Some 17" "fdt32_ld m6 (buf + 24) = Some 16"
    "fdt32_ld m6 (buf + 28) = Some w" "\<forall>x. x < buf \<or> buf + 8 \<le> x \<and> x < buf + 20 \<or> buf + 32 \<le> x \<longrightarrow> rd8 m6 x = rd8 m1 x"
    "p + 32 \<le> buf \<or> buf + 28 \<le> p + 28 \<longrightarrow> Some w = fdt32_ld m1 (p + 28)"
proof -
  have B: "0 \<le> buf + 4" "0 \<le> buf + 20" "0 \<le> buf + 24" "0 \<le> buf + 28" using at by auto
  obtain m2 where m2: "fdt32_st m1 buf FDT_MAGIC = Some m2" "length (fdt_bytes m2) = length (fdt_bytes m1)"
    "fdt_addr m2 = fdt_addr m1" "fdt32_ld m2 buf = Some FDT_MAGIC" "\<forall>x. x < buf \<or> buf + 4 \<le> x \<longrightarrow> rd8 m2 x = rd8 m1 x"
    by (rule store_at [OF at(1), of m1 FDT_MAGIC]) (use at in simp)
  obtain m3 where m3: "fdt32_st m2 (buf + 4) v = Some m3" "length (fdt_bytes m3) = length (fdt_bytes m2)"
    "fdt_addr m3 = fdt_addr m2" "fdt32_ld m3 (buf + 4) = Some v" "\<forall>x. x < buf + 4 \<or> buf + 4 + 4 \<le> x \<longrightarrow> rd8 m3 x = rd8 m2 x"
    by (rule store_at [OF B(1), of m2 v]) (use at m2(2) in simp)
  obtain m4 where m4: "fdt32_st m3 (buf + 20) 17 = Some m4" "length (fdt_bytes m4) = length (fdt_bytes m3)"
    "fdt_addr m4 = fdt_addr m3" "fdt32_ld m4 (buf + 20) = Some 17" "\<forall>x. x < buf + 20 \<or> buf + 20 + 4 \<le> x \<longrightarrow> rd8 m4 x = rd8 m3 x"
    by (rule store_at [OF B(2), of m3 17]) (use at m2(2) m3(2) in simp)
  obtain m5 where m5: "fdt32_st m4 (buf + 24) 16 = Some m5" "length (fdt_bytes m5) = length (fdt_bytes m4)"
    "fdt_addr m5 = fdt_addr m4" "fdt32_ld m5 (buf + 24) = Some 16" "\<forall>x. x < buf + 24 \<or> buf + 24 + 4 \<le> x \<longrightarrow> rd8 m5 x = rd8 m4 x"
    by (rule store_at [OF B(3), of m4 16]) (use at m2(2) m3(2) m4(2) in simp)
  have len: "length (fdt_bytes m5) = length (fdt_bytes m1)" using m2(2) m3(2) m4(2) m5(2) by simp
  obtain w where w: "fdt32_ld m5 (p + 28) = Some w" using fdt32_ld_total [of "p + 28" m5] at len by auto
  obtain m6 where m6: "fdt32_st m5 (buf + 28) w = Some m6" "length (fdt_bytes m6) = length (fdt_bytes m5)"
    "fdt_addr m6 = fdt_addr m5" "fdt32_ld m6 (buf + 28) = Some w" "\<forall>x. x < buf + 28 \<or> buf + 28 + 4 \<le> x \<longrightarrow> rd8 m6 x = rd8 m5 x"
    by (rule store_at [OF B(4), of m5 w]) (use at len in simp)
  note R = m2(5) m3(5) m4(5) m5(5) m6(5)
  have l: "fdt32_ld m6 buf = fdt32_ld m2 buf" "fdt32_ld m6 (buf + 4) = fdt32_ld m3 (buf + 4)" "fdt32_ld m6 (buf + 20) = fdt32_ld m4 (buf + 20)"
    "fdt32_ld m6 (buf + 24) = fdt32_ld m5 (buf + 24)"
    using R by (auto intro!: fdt32_ld_cong)
  have other: "rd8 m6 x = rd8 m1 x" if "x < buf \<or> buf + 8 \<le> x \<and> x < buf + 20 \<or> buf + 32 \<le> x" for x
    using that R by auto
  have wp: "Some w = fdt32_ld m1 (p + 28)" if "p + 32 \<le> buf \<or> buf + 28 \<le> p + 28"
  proof -
    have "rd8 m5 x = rd8 m1 x" if "p + 28 \<le> x" "x < p + 32" for x
      using that \<open>p + 32 \<le> buf \<or> buf + 28 \<le> p + 28\<close> R(1-4) by auto
    then show ?thesis using w fdt32_ld_cong [of m5 "p + 28" m1] by simp
  qed
  show thesis
    by (rule that [OF m2(1) m3(1) m4(1) m5(1) w m6(1)])
      (use l m2 m3 m4 m5 m6 len other wp in \<open>simp_all\<close>)
qed

text \<open>Where the packed blob is built: in the buffer, or behind the old blob where that would overlap with it.\<close>

definition overlaps :: "fdt \<Rightarrow> int \<Rightarrow> int \<Rightarrow> int \<Rightarrow> bool" where
  "overlaps f p buf T \<longleftrightarrow> p < buf + T \<and> buf < p + uint (hdr f 4)"

lemma open_reorder_at:
  assumes f: "fdt_in mem p = Some f" and h: "holds f rs ts" and T: "T = packed_size f rs" "T < 2147483648"
    and buf: "0 \<le> buf" "buf + bufsize \<le> int (length (fdt_bytes mem))" "length (fdt_bytes mem) < 2147483644"
      "(fdt_addr mem + word_of_int buf) AND 7 = 0"
  shows "if bufsize < T \<or> overlaps f p buf T \<and> buf + bufsize < p + uint (hdr f 4) + T
    then open_reorder mem p buf bufsize (rsv_size rs) (uint (hdr f 36)) = Some (- FDT_ERR_NOSPACE, mem)
    else \<exists>mem' f'. open_reorder mem p buf bufsize (rsv_size rs) (uint (hdr f 36)) = Some (0, mem') \<and> fdt_in mem' buf = Some f' \<and>
      holds_open f' rs ts \<and> edit_room f' = bufsize - T \<and>
      (\<not> overlaps f p buf T \<longrightarrow> hdr f' 28 = hdr f 28) \<and>
      (buf = p \<longrightarrow> hdr f' 28 = hdr mem (p + uint (hdr f 4) + 28))"
proof -
  note S = holds_sizes [OF h] and p = fdt_in_ok [OF f] and l = fdt_in_length [OF f]
  have T40: "56 \<le> T"
    using rsv_size_ge [of rs] uint_ge_0 [of "hdr f 36"] uint_ge_0 [of "hdr f 32"] unfolding T packed_size_def by linarith
  have F40: "40 \<le> uint (hdr f 4)" using S(2,3) uint_ge_0 [of "hdr f 36"] by linarith
  have get: "get_in fdt_totalsize m p = fdt32_ld m (p + 4)" "get_in fdt_size_dt_strings m p = fdt32_ld m (p + 32)"
    "get_in fdt_boot_cpuid_phys m p = fdt32_ld m (p + 28)" if "length (fdt_bytes m) = length (fdt_bytes mem)" for m
    using p that by (intro get_in_ld; simp add: fdt_header_defs)+
  have ld: "fdt32_ld mem (p + k) = Some (hdr f k)" if "0 \<le> k" "k \<le> 36" for k
  proof -
    have "\<exists>w. fdt32_ld f k = Some w"
      using that fdt_buffer_header [OF S(1)] by (intro fdt32_ld_total) auto
    then show ?thesis using fdt_in_ld [OF f that(1)] by (auto simp: hdr_def)
  qed
  have cT: "c_int (40 + rsv_size rs + uint (hdr f 36) + uint (hdr f 32)) = T"
    using T T40 by (simp add: packed_size_def)
  let ?tmp = "if overlaps f p buf T then p + uint (hdr f 4) else buf"
  have eq: "open_reorder mem p buf bufsize (rsv_size rs) (uint (hdr f 36)) =
      (if bufsize < T then Some (- FDT_ERR_NOSPACE, mem)
       else if overlaps f p buf T \<and> ?tmp + T > buf + bufsize then Some (- FDT_ERR_NOSPACE, mem)
       else do {
         mem \<leftarrow> fdt_packblocks' mem p ?tmp (rsv_size rs) (uint (hdr f 36)) (uint (hdr f 32));
         mem \<leftarrow> mv_bytes mem buf ?tmp T;
         mem \<leftarrow> set_in fdt_set_magic mem buf FDT_MAGIC;
         mem \<leftarrow> set_in fdt_set_totalsize mem buf (word_of_int bufsize);
         mem \<leftarrow> set_in fdt_set_version mem buf 17;
         mem \<leftarrow> set_in fdt_set_last_comp_version mem buf 16;
         boot_cpuid_phys \<leftarrow> get_in fdt_boot_cpuid_phys mem p;
         mem \<leftarrow> set_in fdt_set_boot_cpuid_phys mem buf boot_cpuid_phys;
         Some (0, mem) })"
    using rsv_bytes(3) [OF h] by (simp add: open_reorder_def Let_def get ld cT overlaps_def)
  show ?thesis
  proof (cases "bufsize < T \<or> overlaps f p buf T \<and> buf + bufsize < p + uint (hdr f 4) + T")
    case True
    then show ?thesis by (auto simp: eq)
  next
    case False
    then have fit: "T \<le> bufsize" "overlaps f p buf T \<Longrightarrow> p + uint (hdr f 4) + T \<le> buf + bufsize" by auto
    have tmp: "0 \<le> ?tmp" "?tmp + packed_size f rs \<le> int (length (fdt_bytes mem))" "?tmp + packed_size f rs \<le> p \<or> p + uint (hdr f 4) \<le> ?tmp"
      using fit buf p F40 by (auto simp: overlaps_def T(1))
    then have safe: "p = ?tmp \<and> in_order f (rsv_size rs) \<or> ?tmp + packed_size f rs \<le> p \<or> p + uint (hdr f 4) \<le> ?tmp" by blast
    obtain m0 where m0: "fdt_packblocks' mem p ?tmp (rsv_size rs) (uint (hdr f 36)) (uint (hdr f 32)) = Some m0"
      "length (fdt_bytes m0) = length (fdt_bytes mem)" "fdt_addr m0 = fdt_addr mem" "packed_at m0 ?tmp f (rsv_size rs)"
      "\<forall>x. x < ?tmp + 8 \<or> ?tmp + 20 \<le> x \<and> x < ?tmp + 32 \<or> ?tmp + packed_size f rs \<le> x \<longrightarrow> rd8 m0 x = rd8 mem x"
      by (rule packblocks_at [OF f h tmp(1,2) safe])
    have B: "0 \<le> T" "buf + T \<le> int (length (fdt_bytes m0))" "?tmp + T \<le> int (length (fdt_bytes m0))"
      using T40 fit(1) buf(2) tmp(2) m0(2) T(1) by linarith+
    obtain m1 where m1: "mv_bytes m0 buf ?tmp T = Some m1" "length (fdt_bytes m1) = length (fdt_bytes m0)" "fdt_addr m1 = fdt_addr m0"
      "\<forall>x. rd8 m1 x = (if buf \<le> x \<and> x < buf + T then rd8 m0 (x - buf + ?tmp) else rd8 m0 x)"
      by (rule move_at [OF buf(1) tmp(1) B])
    have at: "buf + 40 \<le> int (length (fdt_bytes m1))" "0 \<le> p" "p + 40 \<le> int (length (fdt_bytes m1))" "buf \<le> int (length (fdt_bytes mem))"
      using m1(2) m0(2) B T40 p l F40 S(7) by linarith+
    obtain m2 m3 m4 m5 w m6 where st: "fdt32_st m1 buf FDT_MAGIC = Some m2" "fdt32_st m2 (buf + 4) (word_of_int bufsize) = Some m3"
      "fdt32_st m3 (buf + 20) 17 = Some m4" "fdt32_st m4 (buf + 24) 16 = Some m5" "fdt32_ld m5 (p + 28) = Some w"
      "fdt32_st m5 (buf + 28) w = Some m6"
      and len: "length (fdt_bytes m2) = length (fdt_bytes m1)" "length (fdt_bytes m3) = length (fdt_bytes m1)"
      "length (fdt_bytes m4) = length (fdt_bytes m1)" "length (fdt_bytes m5) = length (fdt_bytes m1)"
      "length (fdt_bytes m6) = length (fdt_bytes m1)" "fdt_addr m6 = fdt_addr m1"
      and lds: "fdt32_ld m6 buf = Some FDT_MAGIC" "fdt32_ld m6 (buf + 4) = Some (word_of_int bufsize)" "fdt32_ld m6 (buf + 20) = Some 17"
      "fdt32_ld m6 (buf + 24) = Some 16" "fdt32_ld m6 (buf + 28) = Some w"
      and rd: "\<forall>x. x < buf \<or> buf + 8 \<le> x \<and> x < buf + 20 \<or> buf + 32 \<le> x \<longrightarrow> rd8 m6 x = rd8 m1 x"
      and w: "p + 32 \<le> buf \<or> buf + 28 \<le> p + 28 \<longrightarrow> Some w = fdt32_ld m1 (p + 28)"
      by (rule stamp_header [OF buf(1) at(1-3)])
    have set: "set_in fdt_set_magic m buf v = fdt32_st m buf v" "set_in fdt_set_totalsize m buf v = fdt32_st m (buf + 4) v"
      "set_in fdt_set_version m buf v = fdt32_st m (buf + 20) v" "set_in fdt_set_last_comp_version m buf v = fdt32_st m (buf + 24) v"
      "set_in fdt_set_boot_cpuid_phys m buf v = fdt32_st m (buf + 28) v" if "length (fdt_bytes m) = length (fdt_bytes mem)" for m v
      using set_in_st [of fdt_set_magic 0 buf m v] set_in_st [of fdt_set_totalsize 4 buf m v] set_in_st [of fdt_set_version 20 buf m v]
        set_in_st [of fdt_set_last_comp_version 24 buf m v] set_in_st [of fdt_set_boot_cpuid_phys 28 buf m v] buf(1) at(4) that
      by (simp_all add: fdt_set_defs fun_eq_iff)
    have len': "length (fdt_bytes m1) = length (fdt_bytes mem)" using m1(2) m0(2) by simp
    have res: "open_reorder mem p buf bufsize (rsv_size rs) (uint (hdr f 36)) = Some (0, m6)"
      unfolding eq using False m0(1) m1(1) st len len' by (simp add: set get T(1))
    obtain f' where f': "fdt_in m6 buf = Some f'"
      using buf(1) at(4) len(5) len' by (simp add: fdt_in_def)
    have pk: "packed_at m6 buf f (rsv_size rs)"
    proof (rule packed_at_shift [OF m0(4)])
      fix j assume j: "8 \<le> j \<and> j < 20 \<or> 32 \<le> j \<and> j < packed_size f rs"
      then have j': "buf \<le> buf + j \<and> buf + j < buf + T" using T40 T(1) by auto
      have "rd8 m6 (buf + j) = rd8 m1 (buf + j)" using j rd by auto
      also have "\<dots> = rd8 m0 (?tmp + j)" using m1(4) [rule_format, of "buf + j", unfolded if_P [OF j']] by (simp add: add.commute)
      finally show "rd8 m6 (buf + j) = rd8 m0 (?tmp + j)" .
    qed
    have hd: "hdr f' 0 = FDT_MAGIC" "hdr f' 4 = word_of_int bufsize" "hdr f' 20 = 17" "hdr f' 24 = 16" "hdr f' 28 = w"
      using lds by (simp_all add: hdr_def fdt_in_ld [OF f'])
    have u: "uint (word_of_int bufsize :: u32) = bufsize"
      using buf fit(1) T40 by (intro uint_u32_of_int) linarith+
    have lf: "int (length (fdt_bytes f')) = int (length (fdt_bytes mem)) - buf"
      using fdt_in_length [OF f'] len(5) len' by simp
    have al: "fdt_addr f' AND 7 = 0" using fdt_in_addr [OF f'] len(6) m1(3) m0(3) buf(4) by simp
    have holds: "holds_open f' rs ts" "edit_room f' = bufsize - T"
      using packed_holds [OF h pk f' al hd(1,3)] hd(4) fit(1) buf lf by (simp_all add: hd(2) u T(1))
    have c1: "hdr f' 28 = hdr f 28" if "\<not> overlaps f p buf T"
    proof -
      have d: "buf + T \<le> p \<or> p + uint (hdr f 4) \<le> buf" using that by (auto simp: overlaps_def)
      then have "Some w = fdt32_ld m1 (p + 28)" using w F40 T40 by auto
      also have "\<dots> = fdt32_ld mem (p + 28)"
      proof -
        have "rd8 m1 x = rd8 mem x" if "p + 28 \<le> x" "x < p + 32" for x
          using that d F40 T40 m1(4) m0(5) \<open>\<not> overlaps f p buf T\<close> by (auto simp: T(1))
        then show ?thesis by (intro fdt32_ld_cong) auto
      qed
      finally show ?thesis using ld [of 28] hd(5) by simp
    qed
    have c2: "hdr f' 28 = hdr mem (p + uint (hdr f 4) + 28)" if "buf = p"
    proof -
      have "overlaps f p buf T" using that T40 F40 by (simp add: overlaps_def)
      then have "rd8 m1 x = rd8 mem (x + uint (hdr f 4))" if "p + 28 \<le> x" "x < p + 32" for x
        using that \<open>buf = p\<close> T40 m1(4) [rule_format, of x] m0(5) [rule_format, of "x + uint (hdr f 4)"] by (simp add: algebra_simps)
      then have "fdt32_ld m1 (p + 28) = fdt32_ld mem (p + 28 + uint (hdr f 4))"
        by (simp add: fdt32_ld_def algebra_simps)
      then have "fdt32_ld mem (p + uint (hdr f 4) + 28) = Some w" using w that by (simp add: algebra_simps)
      then show ?thesis using hd(5) by (simp only: hdr_def [of mem] option.sel)
    qed
    have "\<exists>mem' f'. open_reorder mem p buf bufsize (rsv_size rs) (uint (hdr f 36)) = Some (0, mem') \<and> fdt_in mem' buf = Some f' \<and>
      holds_open f' rs ts \<and> edit_room f' = bufsize - T \<and> (\<not> overlaps f p buf T \<longrightarrow> hdr f' 28 = hdr f 28) \<and>
      (buf = p \<longrightarrow> hdr f' 28 = hdr mem (p + uint (hdr f 4) + 28))"
      using res f' holds c1 c2 by (intro exI [of _ m6] exI [of _ f']) blast
    then show ?thesis unfolding if_not_P [OF False] .
  qed
qed

lemma open_into_at:
  assumes "fdt_in mem p = Some f" "holds f rs ts" "0 \<le> buf" "buf + bufsize \<le> int (length (fdt_bytes mem))"
    "length (fdt_bytes mem) < 2147483644" "(fdt_addr mem + word_of_int buf) AND 7 = 0" "packed_size f rs < 2147483648"
  shows "if in_order f (rsv_size rs) then
      if bufsize < uint (hdr f 4) then fdt_open_into mem p buf bufsize = Some (- FDT_ERR_NOSPACE, mem)
      else \<exists>mem' f'. fdt_open_into mem p buf bufsize = Some (0, mem') \<and> fdt_in mem' buf = Some f' \<and> holds_open f' rs ts \<and>
        edit_room f' = bufsize - (uint (hdr f 12) + uint (hdr f 32)) \<and> hdr f' 28 = hdr f 28
    else if bufsize < packed_size f rs \<or> overlaps f p buf (packed_size f rs) \<and> buf + bufsize < p + uint (hdr f 4) + packed_size f rs
      then fdt_open_into mem p buf bufsize = Some (- FDT_ERR_NOSPACE, mem)
    else \<exists>mem' f'. fdt_open_into mem p buf bufsize = Some (0, mem') \<and> fdt_in mem' buf = Some f' \<and> holds_open f' rs ts \<and>
      edit_room f' = bufsize - packed_size f rs \<and> (\<not> overlaps f p buf (packed_size f rs) \<longrightarrow> hdr f' 28 = hdr f 28) \<and>
      (buf = p \<longrightarrow> hdr f' 28 = hdr mem (p + uint (hdr f 4) + 28))"
proof (cases "in_order f (rsv_size rs)")
  case True
  then have h: "holds_open f rs ts" using assms(2) by (simp add: holds_open_def)
  have small: "open_move mem f buf bufsize (uint (hdr f 36)) = Some (- FDT_ERR_NOSPACE, mem)" if "bufsize < uint (hdr f 4)"
    using that holds_probe [OF assms(2)] holds_sizes(1) [OF assms(2)] by (auto simp: open_move_def fdt_move_def)
  show ?thesis
    using True open_move_at [OF assms(1) h assms(3-6)] small by (simp add: open_into_eq [OF assms(1,2)])
next
  case False
  then show ?thesis
    using open_reorder_at [OF assms(1,2) refl assms(7,3-6)] by (simp only: open_into_eq [OF assms(1,2)] if_False)
qed

text \<open>A blob with the string table before the structure block and boot CPU 5, followed by 196 free bytes.\<close>

definition shuffled_fdt :: fdt where
  "shuffled_fdt = \<lparr>fdt_addr = 0x40000000, fdt_bytes =
    [208, 13, 254, 237, 0, 0, 0, 92, 0, 0, 0, 60, 0, 0, 0, 56, 0, 0, 0, 40,
     0, 0, 0, 17, 0, 0, 0, 16, 0, 0, 0, 5, 0, 0, 0, 2, 0, 0, 0, 32,
     0, 0, 0, 0, 0, 0, 0, 0, 0, 0, 0, 0, 0, 0, 0, 0, 97, 0, 0, 0,
     0, 0, 0, 1, 0, 0, 0, 0, 0, 0, 0, 3, 0, 0, 0, 1, 0, 0, 0, 0, 1, 0, 0, 0, 0, 0, 0, 2, 0, 0, 0, 9] @ replicate 196 0\<rparr>"

lemma shuffled_hdr:
  "hdr shuffled_fdt 0 = FDT_MAGIC" "hdr shuffled_fdt 4 = 92" "hdr shuffled_fdt 8 = 60" "hdr shuffled_fdt 12 = 56" "hdr shuffled_fdt 16 = 40"
  "hdr shuffled_fdt 20 = 17" "hdr shuffled_fdt 24 = 16" "hdr shuffled_fdt 28 = 5" "hdr shuffled_fdt 32 = 2" "hdr shuffled_fdt 36 = 32"
  "hdr shuffled_fdt 120 = 0"
  by code_simp+

lemma shuffled_length: "length (fdt_bytes shuffled_fdt) = 288" "fdt_addr shuffled_fdt = 0x40000000"
  by (simp_all add: shuffled_fdt_def)

lemma shuffled_reads:
  "fdt32_ld shuffled_fdt 60 = Some FDT_BEGIN_NODE" "fdt32_ld shuffled_fdt 68 = Some FDT_PROP" "fdt32_ld shuffled_fdt 72 = Some 1"
  "fdt32_ld shuffled_fdt 76 = Some 0" "fdt32_ld shuffled_fdt 84 = Some FDT_END_NODE" "fdt32_ld shuffled_fdt 88 = Some FDT_END"
  "rd8 shuffled_fdt 64 = Some 0" "rd8 shuffled_fdt 80 = Some 1" "rd8 shuffled_fdt 56 = Some 97" "rd8 shuffled_fdt 57 = Some 0"
  "fdt64_ld shuffled_fdt 48 = Some 0"
  by code_simp+

lemma shuffled_holds: "holds shuffled_fdt [] [TBegin [], TProp [97] [1], TEnd]"
proof -
  have "fin_name shuffled_fdt 0 [97]"
    by (simp add: fin_name_def shuffled_hdr bytes_at_Cons shuffled_reads)
  then have toks: "edit_toks shuffled_fdt 0 [TBegin [], TProp [97] [1], TEnd] 28"
    by (simp add: shuffled_hdr shuffled_reads bytes_at_Cons round4_def)
  have fin: "ends_at shuffled_fdt 28" by (simp add: ends_at_def shuffled_hdr shuffled_reads)
  have "fdt_buffer shuffled_fdt" by (rule fdt_bufferI) (simp_all add: shuffled_length shuffled_hdr)
  then have "blk_inv shuffled_fdt" by (simp add: blk_inv_def shuffled_hdr)
  moreover have "fdt_addr shuffled_fdt AND 7 = 0" by (simp add: shuffled_length)
  ultimately show ?thesis
    unfolding holds_def using toks fin by (auto simp: shuffled_hdr shuffled_reads simp del: toks_in.simps)
qed

lemma shuffled_sizes: "\<not> in_order shuffled_fdt 16" "packed_size shuffled_fdt [] = 90"
  by (simp_all add: in_order_def packed_size_def shuffled_hdr)

section \<open>Properties\<close>

text \<open>C7: \<^verbatim>\<open>fdt_open_into\<close> leaves in the buffer a blob that is open for editing and holds the reservations and the tree of the blob
  it was given, whose blocks may lie in any order, with all the rest of the buffer as free room.  A blob in order is moved and needs a
  buffer of its total size; the buffer may overlap with it in any way.  The blocks of any other blob are packed anew, in the buffer or,
  where that overlaps with the blob, behind it.  Without the space for this the result is \<^verbatim>\<open>-FDT_ERR_NOSPACE\<close> and no byte is
  changed.  The boot CPU is kept, except that reordering a blob in place takes it from the memory behind the blob.\<close>

theorem fdt_open_into_refines:
  assumes "fdt_in mem p = Some f" "holds f rs ts" "0 \<le> buf" "buf + bufsize \<le> int (length (fdt_bytes mem))"
    "length (fdt_bytes mem) < 2147483644" "(fdt_addr mem + word_of_int buf) AND 7 = 0" "packed_size f rs < 2147483648"
  shows "if in_order f (rsv_size rs) then
      if bufsize < uint (hdr f 4) then fdt_open_into mem p buf bufsize = Some (- FDT_ERR_NOSPACE, mem)
      else \<exists>mem' f'. fdt_open_into mem p buf bufsize = Some (0, mem') \<and> fdt_in mem' buf = Some f' \<and> holds_open f' rs ts \<and>
        edit_room f' = bufsize - (uint (hdr f 12) + uint (hdr f 32)) \<and> hdr f' 28 = hdr f 28
    else if bufsize < packed_size f rs \<or> overlaps f p buf (packed_size f rs) \<and> buf + bufsize < p + uint (hdr f 4) + packed_size f rs
      then fdt_open_into mem p buf bufsize = Some (- FDT_ERR_NOSPACE, mem)
    else \<exists>mem' f'. fdt_open_into mem p buf bufsize = Some (0, mem') \<and> fdt_in mem' buf = Some f' \<and> holds_open f' rs ts \<and>
      edit_room f' = bufsize - packed_size f rs \<and> (\<not> overlaps f p buf (packed_size f rs) \<longrightarrow> hdr f' 28 = hdr f 28) \<and>
      (buf = p \<longrightarrow> hdr f' 28 = hdr mem (p + uint (hdr f 4) + 28))"
  by (rule open_into_at [OF assms])

theorem fdt_open_into_refines_witness:
  "\<exists>mem' f'. fdt_open_into shuffled_fdt 0 96 192 = Some (0, mem') \<and> fdt_in mem' 96 = Some f' \<and>
     holds_open f' [] [TBegin [], TProp [97] [1], TEnd] \<and> edit_room f' = 102 \<and> hdr f' 28 = 5"
  using fdt_open_into_refines [OF fdt_in_0 shuffled_holds, of 96 192]
  by (simp add: shuffled_length shuffled_sizes shuffled_hdr overlaps_def)

text \<open>Reordered in place, the blob loses its boot CPU: the header behind which the blocks are packed is never given one, and the header
  that held it has been overwritten when it is read.\<close>

theorem open_into_loses_boot_cpuid:
  "fdt_boot_cpuid_phys shuffled_fdt = Some 5 \<and>
   (\<exists>mem'. fdt_open_into shuffled_fdt 0 0 288 = Some (0, mem') \<and> fdt_boot_cpuid_phys mem' = Some 0)"
proof -
  obtain mem' where m: "fdt_open_into shuffled_fdt 0 0 288 = Some (0, mem')" "holds_open mem' [] [TBegin [], TProp [97] [1], TEnd]"
    "hdr mem' 28 = 0"
    using open_into_at [OF fdt_in_0 shuffled_holds, of 0 288]
    by (auto simp: shuffled_length shuffled_sizes shuffled_hdr overlaps_def)
  have "fdt_boot_cpuid_phys mem' = Some 0"
    using m(3) edit_inv_buffer [OF holds_open_inv [OF m(2)]] by simp
  moreover have "fdt_boot_cpuid_phys shuffled_fdt = Some 5"
    using holds_sizes(1) [OF shuffled_holds] by (simp add: shuffled_hdr)
  ultimately show ?thesis using m(1) by blast
qed

text \<open>C13: \<^verbatim>\<open>fdt_pack\<close> on a blob open for editing succeeds and leaves a blob with the same reservations and the same tree, no free room,
  and a total size that is the sum of the header and the blocks.\<close>

theorem fdt_pack_refines:
  assumes "holds_open fdt rs ts"
  shows "\<exists>fdt'. fdt_pack fdt = Some (0, fdt') \<and> holds_open fdt' rs ts \<and> edit_room fdt' = 0 \<and> uint (hdr fdt' 4) = packed_size fdt rs"
  using pack_at [OF assms] by blast

theorem fdt_pack_refines_witness:
  "\<exists>fdt'. fdt_pack slack_fdt = Some (0, fdt') \<and> holds_open fdt' [] [TBegin [], TProp [97] [1], TEnd] \<and> edit_room fdt' = 0 \<and>
     uint (hdr fdt' 4) = 90"
  using fdt_pack_refines [OF slack_holds] by (simp add: packed_size_def slack_hdr)

end
