(* ===== verification/Fdt_Sw_Claims.thy ===== *)
theory Fdt_Sw_Claims
  imports Fdt_Finish
begin

unbundle bit_operations_syntax

text \<open>
  The properties of the sequential writer.  A blob under construction is specified by the list of its tokens;
  the theorems say that the operations refine the list operations and that the finished blob, read with the
  read functions, is the list.
\<close>

definition fresh_buffer :: fdt where
  "fresh_buffer = \<lparr>fdt_addr = 0x40000000, fdt_bytes = replicate 256 0xFF\<rparr>"

section \<open>Starting\<close>

text \<open>\<^verbatim>\<open>fdt_create\<close> on an aligned buffer followed by \<^verbatim>\<open>fdt_finish_reservemap\<close> leaves an empty structure block
  ready for tokens, where the buffer has 64 bytes or more.\<close>

theorem fdt_create_starts_empty:
  assumes "64 \<le> bufsize" "bufsize \<le> int (length (fdt_bytes buf))" "length (fdt_bytes buf) < 2 ^ 31 - 4" "fdt_addr buf AND 7 = 0"
  shows "\<exists>fdt fdt'. fdt_create buf bufsize = Some (0, fdt) \<and> fdt_finish_reservemap fdt = Some (0, fdt') \<and> sw_toks fdt' []"
proof -
  have b: "48 \<le> bufsize" "(0 :: u32) AND NOT 1 = 0" using assms by simp_all
  obtain fdt where c: "fdt_create_with_flags buf bufsize 0 = Some (0, fdt)" "rsv_inv fdt" "hdr fdt 8 = 48" "uint (hdr fdt 4) = bufsize"
    by (rule fdt_create_rsv_inv [OF b(1) assms(2,3) b(2) assms(4)])
  from c(2) show ?thesis
    by (cases rule: fdt_finish_reservemap_starts) (use c assms(1) in \<open>auto simp: fdt_create_def\<close>)
qed

theorem fdt_create_starts_empty_witness:
  "\<exists>fdt fdt'. fdt_create fresh_buffer 256 = Some (0, fdt) \<and> fdt_finish_reservemap fdt = Some (0, fdt') \<and> sw_toks fdt' []"
  by (rule fdt_create_starts_empty) (simp_all add: fresh_buffer_def)

text \<open>C24: The calls of the writer refine appending to a list: after any sequence of calls the blob holds the
  tokens of the calls that succeeded, and the first failure is lack of space and changes no token.  No call fails where
  the bytes between the structure block and the string table hold all tokens with their names and padding.\<close>

theorem sw_writes_refine_append:
  assumes "sw_toks fdt us" "\<forall>t \<in> set ts. token_ok t"
  shows "\<exists>err fdt' n. write_tokens fdt ts = Some (err, fdt') \<and> sw_toks fdt' (us @ take n ts) \<and>
    (err = 0 \<and> n = length ts \<or> err = - FDT_ERR_NOSPACE \<and> n < length ts \<and> sw_room fdt < sum_list (map token_cost ts))"
  using write_tokens_appends [OF assms] by blast

lemma fresh_blob:
  obtains fdt fdt' where "fdt_create fresh_buffer 256 = Some (0, fdt)" "fdt_finish_reservemap fdt = Some (0, fdt')" "sw_toks fdt' []"
    "sw_room fdt' = 192"
proof -
  obtain fdt where c: "fdt_create_with_flags fresh_buffer 256 0 = Some (0, fdt)" "rsv_inv fdt" "hdr fdt 8 = 48" "uint (hdr fdt 4) = 256"
    by (rule fdt_create_rsv_inv [of 256 fresh_buffer 0]) (auto simp: fresh_buffer_def)
  from c(2) show thesis
    by (cases rule: fdt_finish_reservemap_starts) (use c that in \<open>auto simp: fdt_create_def\<close>)
qed

definition sample_tokens :: "token list" where
  "sample_tokens =
     [TBegin [], TProp (bytes_of ''reg'') [0, 0, 0, 1], TBegin (bytes_of ''u''), TProp (bytes_of ''reg'') [7], TEnd, TEnd]"

lemma sample_tokens_ok: "\<forall>t \<in> set sample_tokens. token_ok t"
  by (simp add: sample_tokens_def bytes_of_def)

lemma sample_tokens_cost: "sum_list (map token_cost sample_tokens) = 64"
  by code_simp

theorem sw_writes_refine_append_witness:
  "\<exists>fdt fdt'. sw_toks fdt [] \<and> write_tokens fdt sample_tokens = Some (0, fdt') \<and> sw_toks fdt' sample_tokens"
proof -
  obtain fdt where "sw_toks fdt []" "sw_room fdt = 192" by (rule fresh_blob)
  then show ?thesis
    using sw_writes_refine_append [of fdt "[]" sample_tokens] sample_tokens_ok sample_tokens_cost by auto
qed

section \<open>Reading back\<close>

text \<open>While a blob is being written, \<^verbatim>\<open>fdt_next_tag\<close> walks exactly the tokens written so far, and
  \<^verbatim>\<open>fdt_getprop_by_offset\<close> returns the name and the value of every property.\<close>

theorem sw_reads_back:
  assumes "sw_toks fdt ts" "ts \<noteq> []"
  shows "\<exists>e. reads fdt 0 ts e"
proof -
  have inv: "sw_inv fdt" and toks: "toks_at fdt 0 ts (uint (hdr fdt 36))" using assms(1) by (auto simp: sw_toks_def)
  obtain t ts' where "ts = t # ts'" using assms(2) by (cases ts) auto
  then obtain m where "tok_at fdt 0 t m" "toks_at fdt m ts' (uint (hdr fdt 36))" using toks by auto
  then have "0 < uint (hdr fdt 36)"
    using tok_in_bounds [of "name_at fdt" fdt 0 t m] toks_in_le [of "name_at fdt" fdt m ts' "uint (hdr fdt 36)"] by linarith
  then show ?thesis
    using toks_in_reads [OF sw_inv_blk_inv [OF inv] sw_strings_found [OF inv] toks] by auto
qed

text \<open>A blob under construction with a root node that has one property, \<^verbatim>\<open>r\<close> with the value 7.\<close>

definition sw_sample :: fdt where
  "sw_sample = \<lparr>fdt_addr = 0x40000000, fdt_bytes =
    [0x2F, 0xF2, 0x01, 0x12, 0, 0, 0, 100, 0, 0, 0, 64, 0, 0, 0, 100, 0, 0, 0, 48,
     0, 0, 0, 17, 0, 0, 0, 0, 0, 0, 0, 0, 0, 0, 0, 2, 0, 0, 0, 28,
     0, 0, 0, 0, 0, 0, 0, 0, 0, 0, 0, 0, 0, 0, 0, 0, 0, 0, 0, 0,
     0, 0, 0, 0, 0, 0, 0, 1, 0, 0, 0, 0, 0, 0, 0, 3, 0, 0, 0, 1,
     0xFF, 0xFF, 0xFF, 0xFE, 7, 0, 0, 0, 0, 0, 0, 2, 0, 0, 0, 0, 0, 0, 114, 0]\<rparr>"

lemma sw_sample_toks: "sw_toks sw_sample [TBegin [], TProp [114] [7], TEnd]"
proof -
  have h: "hdr sw_sample 0 = FDT_SW_MAGIC" "hdr sw_sample 4 = 100" "hdr sw_sample 8 = 64" "hdr sw_sample 12 = 100"
    "hdr sw_sample 20 = 17" "hdr sw_sample 32 = 2" "hdr sw_sample 36 = 28"
    by code_simp+
  have len: "length (fdt_bytes sw_sample) = 100" "fdt_addr sw_sample AND 7 = 0"
    by (simp_all add: sw_sample_def)
  have inv: "sw_inv sw_sample"
    using len hdr_fields(2) [of sw_sample] h by (simp add: sw_inv_def fdt_buffer_def)
  have ld: "fdt32_ld sw_sample 64 = Some FDT_BEGIN_NODE" "fdt32_ld sw_sample 72 = Some FDT_PROP"
    "fdt32_ld sw_sample 76 = Some 1" "fdt32_ld sw_sample 80 = Some (- 2)" "fdt32_ld sw_sample 88 = Some FDT_END_NODE"
    by code_simp+
  have b: "bytes_at sw_sample 68 [0]" "bytes_at sw_sample 98 [114, 0]" "bytes_at sw_sample 84 [7]"
    by (simp_all add: bytes_at_Cons, code_simp+)
  have "tok_at sw_sample 0 (TBegin []) 8" "tok_at sw_sample 8 (TProp [114] [7]) 24" "tok_at sw_sample 24 TEnd 28"
    using ld b by (simp_all add: h round4_def name_at_def)
  then show ?thesis
    using inv h by (auto simp: sw_toks_def)
qed

theorem sw_reads_back_witness:
  "\<exists>e. reads sw_sample 0 [TBegin [], TProp [114] [7], TEnd] e"
  by (rule sw_reads_back [OF sw_sample_toks]) simp

text \<open>C3: A finished blob is the tree that was written.  On a blob that holds the tokens \<open>ts\<close>, \<^verbatim>\<open>fdt_finish\<close> succeeds
  exactly when there is room for the terminator; then the walk with \<^verbatim>\<open>fdt_next_tag\<close> gives the tokens \<open>ts\<close> and the
  end, with the names and values of all properties.  Without room the blob is unchanged.\<close>

theorem fdt_finish_roundtrip:
  assumes "sw_toks fdt ts"
  shows "if uint (hdr fdt 8) + uint (hdr fdt 36) + 4 + uint (hdr fdt 32) \<le> uint (hdr fdt 4)
    then \<exists>fdt' e. fdt_finish fdt = Some (0, fdt') \<and> fdt_magic fdt' = Some FDT_MAGIC \<and>
       reads fdt' 0 ts e \<and> fdt_next_tag fdt' e = Some (FDT_END, e + 4)
    else fdt_finish fdt = Some (- FDT_ERR_NOSPACE, fdt)"
proof (cases rule: fdt_finish_cases [OF assms])
  case (2 fdt' e)
  have "fdt_magic fdt' = Some FDT_MAGIC"
    using 2(2) blk_inv_buffer [of fdt'] by (simp add: fin_inv_def)
  then show ?thesis using finished_reads [OF 2(2-5)] 2(1,6) by auto
qed simp

theorem fdt_finish_roundtrip_witness:
  "\<exists>fdt' e. fdt_finish sw_sample = Some (0, fdt') \<and> fdt_magic fdt' = Some FDT_MAGIC \<and>
     reads fdt' 0 [TBegin [], TProp [114] [7], TEnd] e \<and> fdt_next_tag fdt' e = Some (FDT_END, e + 4)"
proof -
  have "hdr sw_sample 4 = 100" "hdr sw_sample 8 = 64" "hdr sw_sample 32 = 2" "hdr sw_sample 36 = 28"
    by code_simp+
  then show ?thesis using fdt_finish_roundtrip [OF sw_sample_toks] by simp
qed

section \<open>A missing overflow check\<close>

text \<open>The bound check of \<^verbatim>\<open>fdt_add_string_\<close> computes \<^verbatim>\<open>fdt_totalsize(fdt) - offset\<close> in \<^verbatim>\<open>unsigned int\<close>: for a name longer than
  the whole buffer the difference wraps, the check passes, and the copy starts before the buffer.\<close>

theorem fdt_add_string_underflows:
  assumes "sw_inv fdt" "uint (hdr fdt 4) < uint (hdr fdt 32) + int (length s) + 1" "int (length s) < 2147483600"
  shows "fdt_add_string' fdt s = None"
proof -
  note S = sw_inv_sizes [OF assms(1)] and buf = sw_inv_buffer [OF assms(1)]
  let ?len = "of_nat (length s) + 1 :: u32"
  let ?off = "hdr fdt 32 + ?len"
  have len: "uint ?len = int (length s) + 1"
    using assms(3) by (intro uint_u32_sum length_u32) auto
  have off: "uint ?off = uint (hdr fdt 32) + (int (length s) + 1)"
    using assms(3) S by (intro uint_u32_sum [OF refl len]) linarith
  have top: "uint (hdr fdt 8 + hdr fdt 36) = uint (hdr fdt 8) + uint (hdr fdt 36)"
    using S by (intro uint_u32_sum refl) linarith
  have "uint (hdr fdt 4 - ?off) = uint (hdr fdt 4) - uint ?off + 4294967296"
    using assms(2) off by (simp add: uint_sub_if')
  then have "\<not> hdr fdt 4 - ?off < hdr fdt 8 + hdr fdt 36"
    unfolding word_less_def top off using S assms(3) by linarith
  moreover have "wr_bytes fdt (uint (hdr fdt 4) - uint ?off) (s @ [0]) = None"
    using assms(2) off by (simp add: wr_bytes_def splice_def)
  ultimately show ?thesis
    using buf by (simp add: fdt_add_string'_def Let_def)
qed

theorem fdt_add_string_underflows_witness: "fdt_add_string' sw_sample (replicate 200 65) = None"
proof (rule fdt_add_string_underflows)
  show "sw_inv sw_sample" using sw_sample_toks by (simp add: sw_toks_def)
  have "hdr sw_sample 4 = 100" by code_simp
  then show "uint (hdr sw_sample 4) < uint (hdr sw_sample 32) + int (length (replicate 200 (65 :: u8))) + 1"
    using uint_ge_0 [of "hdr sw_sample 32"] by (simp add: add_pos_nonneg)
qed simp

end
