(* ===== verification/Fdt_Build.thy ===== *)
theory Fdt_Build
  imports Fdt_Space Fdt_Sw_Claims
begin

unbundle bit_operations_syntax

text \<open>
  A blob from nothing: the calls of the sequential writer in their order give a blob in order with the reservations and the tokens
  that were written, and \<^verbatim>\<open>fdt_create_empty_tree\<close> gives one that is open for editing.
\<close>

section \<open>The calls\<close>

text \<open>The calls of a client of the sequential writer, which stops at the first error.\<close>

fun add_entries :: "fdt \<Rightarrow> (u64 \<times> u64) list \<Rightarrow> (int \<times> fdt) option" where
  "add_entries fdt [] = Some (0, fdt)"
| "add_entries fdt (r # rs) = do {
     (err, fdt) \<leftarrow> fdt_add_reservemap_entry fdt (fst r) (snd r);
     if err \<noteq> 0 then Some (err, fdt) else add_entries fdt rs }"

text \<open>Every call leaves the buffer where it is.\<close>

definition same_place :: "fdt \<Rightarrow> fdt \<Rightarrow> bool" where
  "same_place fdt fdt' \<longleftrightarrow> fdt_addr fdt' = fdt_addr fdt \<and> length (fdt_bytes fdt') = length (fdt_bytes fdt)"

lemma same_place_refl [simp]: "same_place fdt fdt"
  by (simp add: same_place_def)

lemma same_place_trans: "same_place a b \<Longrightarrow> same_place b c \<Longrightarrow> same_place a c"
  by (simp add: same_place_def)

lemma sw_extends_place: "sw_extends fdt fdt' \<Longrightarrow> same_place fdt fdt'"
  by (simp add: sw_extends_def same_place_def)

text \<open>Go on where there was no error.\<close>

definition if_ok :: "(int \<times> fdt) option \<Rightarrow> (fdt \<Rightarrow> (int \<times> fdt) option) \<Rightarrow> (int \<times> fdt) option" where
  "if_ok r k = do { (err, fdt) \<leftarrow> r; if err \<noteq> 0 then Some (err, fdt) else k fdt }"

definition write_blob :: "fdt \<Rightarrow> int \<Rightarrow> (u64 \<times> u64) list \<Rightarrow> token list \<Rightarrow> (int \<times> fdt) option" where
  "write_blob buf bufsize rs ts =
     if_ok (fdt_create buf bufsize) (\<lambda>fdt. if_ok (add_entries fdt rs) (\<lambda>fdt. if_ok (fdt_finish_reservemap fdt)
       (\<lambda>fdt. if_ok (write_tokens fdt ts) fdt_finish)))"

lemma if_ok_simps [simp]: "if_ok (Some (0, fdt)) k = k fdt" "err \<noteq> 0 \<Longrightarrow> if_ok (Some (err, fdt)) k = Some (err, fdt)"
  by (simp_all add: if_ok_def)

section \<open>The reservations\<close>

text \<open>The entries written so far, not terminated yet.\<close>

definition rsv_written :: "fdt \<Rightarrow> (u64 \<times> u64) list \<Rightarrow> bool" where
  "rsv_written fdt rs \<longleftrightarrow> rsv_inv fdt \<and> hdr fdt 16 = 48 \<and> uint (hdr fdt 8) = 48 + 16 * int (length rs) \<and>
     (\<forall>i < length rs. fdt64_ld fdt (48 + 16 * int i) = Some (fst (rs ! i)) \<and> fdt64_ld fdt (48 + 16 * int i + 8) = Some (snd (rs ! i)))"

lemma rsv_inI:
  "\<forall>i < length rs. snd (rs ! i) \<noteq> 0 \<and> fdt64_ld fdt (p + 16 * int i) = Some (fst (rs ! i)) \<and> fdt64_ld fdt (p + 16 * int i + 8) = Some (snd (rs ! i))
   \<Longrightarrow> fdt64_ld fdt (p + 16 * int (length rs) + 8) = Some 0 \<Longrightarrow> rsv_in fdt p rs"
proof (induction rs arbitrary: p)
  case (Cons r rs)
  have "rsv_in fdt (p + 16) rs"
  proof (rule Cons.IH)
    show "\<forall>i < length rs. snd (rs ! i) \<noteq> 0 \<and> fdt64_ld fdt (p + 16 + 16 * int i) = Some (fst (rs ! i)) \<and>
        fdt64_ld fdt (p + 16 + 16 * int i + 8) = Some (snd (rs ! i))"
    proof (intro allI impI)
      fix i
      assume "i < length rs"
      then show "snd (rs ! i) \<noteq> 0 \<and> fdt64_ld fdt (p + 16 + 16 * int i) = Some (fst (rs ! i)) \<and>
          fdt64_ld fdt (p + 16 + 16 * int i + 8) = Some (snd (rs ! i))"
        using Cons.prems(1) [rule_format, of "Suc i"] by (simp add: algebra_simps)
    qed
  qed (use Cons.prems(2) in \<open>simp add: algebra_simps\<close>)
  then show ?case using Cons.prems(1) by (auto dest!: spec [of _ 0])
qed simp

lemma ld64_cong:
  assumes "\<And>q. p \<le> q \<Longrightarrow> q < p + 8 \<Longrightarrow> rd8 fdt' q = rd8 fdt q"
  shows "fdt64_ld fdt' p = fdt64_ld fdt p"
  using ld64_shift [of p fdt' 0 fdt] assms by simp

lemma rsv_written_add:
  assumes "rsv_written fdt rs"
  obtains "fdt_add_reservemap_entry fdt (fst r) (snd r) = Some (- FDT_ERR_NOSPACE, fdt)" "uint (hdr fdt 4) < 64 + 16 * int (length rs)"
  | fdt' where "fdt_add_reservemap_entry fdt (fst r) (snd r) = Some (0, fdt')" "rsv_written fdt' (rs @ [r])" "hdr fdt' 4 = hdr fdt 4"
      "same_place fdt fdt'"
proof -
  note W = assms [unfolded rsv_written_def]
  have inv: "rsv_inv fdt" and h8: "uint (hdr fdt 8) = 48 + 16 * int (length rs)" using W by auto
  show thesis
  proof (cases rule: fdt_add_reservemap_entry_cases [OF inv, of "fst r" "snd r"])
    case 1
    then show thesis using that(1) h8 by simp
  next
    case (2 f)
    have old: "fdt64_ld f q = fdt64_ld fdt q" if "48 \<le> q" "q + 8 \<le> 48 + 16 * int (length rs)" for q
      using that 2(8) h8 by (intro ld64_cong) auto
    have "fdt64_ld f (48 + 16 * int i) = Some (fst ((rs @ [r]) ! i)) \<and> fdt64_ld f (48 + 16 * int i + 8) = Some (snd ((rs @ [r]) ! i))"
      if "i < length (rs @ [r])" for i
    proof (cases "i < length rs")
      case True
      then show ?thesis using W old [of "48 + 16 * int i"] old [of "48 + 16 * int i + 8"] by (simp add: nth_append)
    next
      case False
      then have "i = length rs" using that by simp
      then show ?thesis using 2(6,7) h8 by simp
    qed
    then have "rsv_written f (rs @ [r])"
      using 2(2,3,5) W by (simp add: rsv_written_def)
    then show thesis using that(2) 2(1,4,9,10) by (simp add: same_place_def)
  qed
qed

lemma add_entries_cases:
  assumes "rsv_written fdt rs"
  obtains fdt' where "add_entries fdt us = Some (- FDT_ERR_NOSPACE, fdt')" "uint (hdr fdt 4) < 48 + 16 * int (length rs + length us)"
  | fdt' where "add_entries fdt us = Some (0, fdt')" "rsv_written fdt' (rs @ us)" "hdr fdt' 4 = hdr fdt 4" "same_place fdt fdt'"
  using assms
proof (induction us arbitrary: fdt rs thesis)
  case (Cons r us)
  show ?case
  proof (cases rule: rsv_written_add [OF Cons.prems(3), of r])
    case 1
    then show ?thesis using Cons.prems(1) by simp
  next
    case (2 f)
    show ?thesis
    proof (rule Cons.IH [OF _ _ 2(2)])
      fix f'
      assume "add_entries f us = Some (- FDT_ERR_NOSPACE, f')" "uint (hdr f 4) < 48 + 16 * int (length (rs @ [r]) + length us)"
      then show thesis using Cons.prems(1) [of f'] 2 by simp
    next
      fix f'
      assume "add_entries f us = Some (0, f')" "rsv_written f' ((rs @ [r]) @ us)" "hdr f' 4 = hdr f 4" "same_place f f'"
      then show thesis using Cons.prems(2) [of f'] 2 by (simp add: same_place_def)
    qed
  qed
qed simp

text \<open>The terminated map, which the writer and \<^verbatim>\<open>fdt_finish\<close> keep.\<close>

definition sw_rsv :: "fdt \<Rightarrow> (u64 \<times> u64) list \<Rightarrow> bool" where
  "sw_rsv fdt rs \<longleftrightarrow> hdr fdt 16 = 48 \<and> uint (hdr fdt 8) = 48 + rsv_size rs \<and> rsv_in fdt 48 rs"

lemma finish_reservemap_at:
  assumes "rsv_written fdt rs" "\<forall>r \<in> set rs. snd r \<noteq> 0"
  obtains "fdt_finish_reservemap fdt = Some (- FDT_ERR_NOSPACE, fdt)" "uint (hdr fdt 4) < 48 + rsv_size rs"
  | fdt' where "fdt_finish_reservemap fdt = Some (0, fdt')" "sw_toks fdt' []" "sw_rsv fdt' rs"
      "sw_room fdt' = uint (hdr fdt 4) - (48 + rsv_size rs)" "hdr fdt' 4 = hdr fdt 4" "same_place fdt fdt'"
proof -
  note W = assms(1) [unfolded rsv_written_def]
  have inv: "rsv_inv fdt" and h8: "uint (hdr fdt 8) = 48 + 16 * int (length rs)" using W by auto
  show thesis
  proof (cases rule: fdt_finish_reservemap_starts [OF inv])
    case 1
    then show thesis using that(1) h8 by (simp add: rsv_size_def)
  next
    case (2 f)
    have old: "fdt64_ld f q = fdt64_ld fdt q" if "48 \<le> q" "q + 8 \<le> 48 + 16 * int (length rs)" for q
      using that 2(7) h8 by (intro ld64_cong) auto
    have "rsv_in f 48 rs"
      using W assms(2) old 2(5) h8 by (intro rsv_inI) auto
    then have "sw_rsv f rs" using W 2(3,4) h8 by (simp add: sw_rsv_def rsv_size_def)
    then show thesis using that(2) 2(1,2,6,8-10) h8 by (simp add: rsv_size_def same_place_def)
  qed
qed

lemma rsv_in_cong:
  assumes "rsv_in fdt p rs" "\<And>q. p \<le> q \<Longrightarrow> q < p + rsv_size rs \<Longrightarrow> rd8 fdt' q = rd8 fdt q"
  shows "rsv_in fdt' p rs"
  using rsv_in_shift [OF assms(1), of fdt' 0] assms(2) by simp

lemma sw_rsv_extends: "sw_rsv fdt rs \<Longrightarrow> sw_extends fdt fdt' \<Longrightarrow> sw_rsv fdt' rs"
  unfolding sw_rsv_def sw_extends_def by (auto intro: rsv_in_cong)

section \<open>The finished blob\<close>

lemma finish_holds:
  assumes "sw_toks fdt ts" "sw_rsv fdt rs"
  obtains "fdt_finish fdt = Some (- FDT_ERR_NOSPACE, fdt)" "sw_room fdt < 4"
  | fdt' where "fdt_finish fdt = Some (0, fdt')" "holds_open fdt' rs ts" "edit_room fdt' = 0" "4 \<le> sw_room fdt"
      "uint (hdr fdt' 4) = uint (hdr fdt 4) - sw_room fdt + 4" "same_place fdt fdt'" "uint (hdr fdt' 8) = 48 + rsv_size rs"
proof (cases rule: fdt_finish_cases [OF assms(1)])
  case 1
  then show thesis using that(1) by (simp add: sw_room_def)
next
  case (2 f e)
  note F = 2(2) [unfolded fin_inv_def]
  have h8: "uint (hdr f 8) = 48 + rsv_size rs" "hdr f 16 = 48" using assms(2) 2(7,8) by (simp_all add: sw_rsv_def)
  have "rsv_in f 48 rs"
    using assms(2) 2(9) by (auto simp: sw_rsv_def intro: rsv_in_cong)
  moreover have "edit_inv f"
    using F h8 rsv_size_ge [of rs] by (simp add: edit_inv_def)
  then have "tree_toks f ts"
    using 2(3-5) by (auto simp: tree_toks_def ends_at_def)
  ultimately have "holds_open f rs ts"
    using h8 by (intro holds_openI) simp_all
  moreover have "edit_room f = 0" using F by (simp add: edit_room_def)
  ultimately show thesis using that(2) 2(1,6,10-12) h8 by (simp add: sw_room_def same_place_def)
qed

text \<open>The structure block of a started blob, from the first token to \<^verbatim>\<open>fdt_finish\<close>.\<close>

lemma write_struct_cases:
  assumes "sw_toks fdt []" "sw_rsv fdt rs" "\<forall>t \<in> set ts. token_ok t"
  obtains fdt' where "if_ok (write_tokens fdt ts) fdt_finish = Some (- FDT_ERR_NOSPACE, fdt')"
      "sw_room fdt < sum_list (map token_cost ts) + 4"
  | fdt' where "if_ok (write_tokens fdt ts) fdt_finish = Some (0, fdt')" "holds_open fdt' rs ts" "edit_room fdt' = 0"
      "same_place fdt fdt'" "uint (hdr fdt' 8) = 48 + rsv_size rs"
      "uint (hdr fdt' 4) \<le> uint (hdr fdt 4) - sw_room fdt + sum_list (map token_cost ts) + 4" "uint (hdr fdt' 4) \<le> uint (hdr fdt 4)"
proof -
  obtain err f n where w: "write_tokens fdt ts = Some (err, f)" "sw_toks f ([] @ take n ts)" "sw_extends fdt f"
    and c: "err = 0 \<and> n = length ts \<and> sw_room fdt - sum_list (map token_cost ts) \<le> sw_room f
      \<or> err = - FDT_ERR_NOSPACE \<and> n < length ts \<and> sw_room fdt < sum_list (map token_cost ts)"
    using write_tokens_appends [OF assms(1,3)] by blast
  from c show thesis
  proof
    assume ok: "err = 0 \<and> n = length ts \<and> sw_room fdt - sum_list (map token_cost ts) \<le> sw_room f"
    have toks: "sw_toks f ts" using w(2) ok by simp
    have h4: "hdr f 4 = hdr fdt 4" using w(3) by (simp add: sw_extends_def)
    show thesis
    proof (cases rule: finish_holds [OF toks sw_rsv_extends [OF assms(2) w(3)]])
      case 1
      then show thesis using that(1) w(1) ok by simp
    next
      case (2 f')
      have "same_place fdt f'" by (rule same_place_trans [OF sw_extends_place [OF w(3)] 2(6)])
      then show thesis using that(2) w(1) ok 2 h4 by simp
    qed
  next
    assume bad: "err = - FDT_ERR_NOSPACE \<and> n < length ts \<and> sw_room fdt < sum_list (map token_cost ts)"
    then show thesis using that(1) w(1) by simp
  qed
qed

abbreviation blob_cost :: "(u64 \<times> u64) list \<Rightarrow> token list \<Rightarrow> int" where
  "blob_cost rs ts \<equiv> 52 + rsv_size rs + sum_list (map token_cost ts)"

lemma write_blob_cases:
  assumes "bufsize \<le> int (length (fdt_bytes buf))" "length (fdt_bytes buf) < 2147483644" "fdt_addr buf AND 7 = 0"
    "\<forall>r \<in> set rs. snd r \<noteq> 0" "\<forall>t \<in> set ts. token_ok t"
  obtains fdt' where "write_blob buf bufsize rs ts = Some (- FDT_ERR_NOSPACE, fdt')" "bufsize < blob_cost rs ts"
  | fdt' where "write_blob buf bufsize rs ts = Some (0, fdt')" "holds_open fdt' rs ts" "edit_room fdt' = 0" "same_place buf fdt'"
    "uint (hdr fdt' 8) = 48 + rsv_size rs" "uint (hdr fdt' 4) \<le> blob_cost rs ts" "uint (hdr fdt' 4) \<le> bufsize"
proof -
  have cost: "0 \<le> sum_list (map token_cost ts)" by (intro sum_list_nonneg) (auto simp: token_cost_nonneg)
  show thesis
  proof (cases "bufsize < 48")
    case True
    then show thesis
      using that(1) cost rsv_size_ge [of rs] by (simp add: write_blob_def fdt_create_def fdt_create_with_flags_def)
  next
    case False
    then have b: "48 \<le> bufsize" "length (fdt_bytes buf) < 2 ^ 31 - 4" "(0 :: u32) AND NOT 1 = 0" using assms(2) by simp_all
    obtain f1 where f1: "fdt_create_with_flags buf bufsize 0 = Some (0, f1)" "rsv_inv f1" "hdr f1 8 = 48"
      "uint (hdr f1 4) = bufsize" "hdr f1 16 = 48" "fdt_addr f1 = fdt_addr buf" "length (fdt_bytes f1) = length (fdt_bytes buf)"
      by (rule fdt_create_rsv_inv [OF b(1) assms(1) b(2,3) assms(3)])
    have run1: "write_blob buf bufsize rs ts = if_ok (add_entries f1 rs) (\<lambda>fdt. if_ok (fdt_finish_reservemap fdt)
        (\<lambda>fdt. if_ok (write_tokens fdt ts) fdt_finish))"
      using f1(1) by (simp add: write_blob_def fdt_create_def)
    have w1: "rsv_written f1 []" using f1 by (simp add: rsv_written_def)
    show thesis
    proof (cases rule: add_entries_cases [OF w1, of rs])
      case 1
      then show thesis using that(1) run1 f1(4) cost by (simp add: rsv_size_def)
    next
      case (2 f2)
      have w2: "rsv_written f2 rs" using 2(2) by simp
      have run2: "write_blob buf bufsize rs ts = if_ok (fdt_finish_reservemap f2) (\<lambda>fdt. if_ok (write_tokens fdt ts) fdt_finish)"
        using run1 2(1) by simp
      show thesis
      proof (cases rule: finish_reservemap_at [OF w2 assms(4)])
        case 1
        then show thesis using that(1) run2 f1(4) 2(3) cost by simp
      next
        case f3: (2 f3)
        have place: "same_place buf f3" using f1(6,7) 2(4) f3(6) by (simp add: same_place_def)
        have room3: "sw_room f3 = bufsize - (48 + rsv_size rs)" "uint (hdr f3 4) = bufsize" using f1(4) 2(3) f3(4,5) by simp_all
        show thesis
          by (rule write_struct_cases [OF f3(2,3) assms(5)]; rule that)
            (use run2 f3(1) place room3 in \<open>auto simp: same_place_def\<close>)
      qed
    qed
  qed
qed

text \<open>C8: The calls of the sequential writer in their order - create, the reservations, the end of the map, the tokens, finish - on
  an aligned buffer leave a blob in order that holds those reservations and those tokens, without free room and within the buffer;
  they fail only for lack of space, where the buffer cannot hold the header, the map, and the tokens with their names and padding.\<close>

theorem sw_builds_blob:
  assumes "bufsize \<le> int (length (fdt_bytes buf))" "length (fdt_bytes buf) < 2147483644" "fdt_addr buf AND 7 = 0"
    "\<forall>r \<in> set rs. snd r \<noteq> 0" "\<forall>t \<in> set ts. token_ok t"
  shows "\<exists>err fdt'. write_blob buf bufsize rs ts = Some (err, fdt') \<and>
    (err = 0 \<and> holds_open fdt' rs ts \<and> edit_room fdt' = 0 \<and> uint (hdr fdt' 4) \<le> min bufsize (blob_cost rs ts)
     \<or> err = - FDT_ERR_NOSPACE \<and> bufsize < blob_cost rs ts)"
  by (rule write_blob_cases [OF assms]) auto

theorem sw_builds_blob_witness:
  "\<exists>fdt'. write_blob fresh_buffer 256 [(0x1000, 0x200)] sample_tokens = Some (0, fdt') \<and>
     holds_open fdt' [(0x1000, 0x200)] sample_tokens \<and> edit_room fdt' = 0 \<and> uint (hdr fdt' 4) \<le> 148"
  using sw_builds_blob [OF _ _ _ _ sample_tokens_ok, of 256 fresh_buffer "[(0x1000, 0x200)]"]
    sample_tokens_cost
  by (simp add: fresh_buffer_def)

section \<open>The empty tree\<close>

lemma if_ok_assoc: "if_ok (if_ok r k) g = if_ok r (\<lambda>fdt. if_ok (k fdt) g)"
  by (auto simp: if_ok_def split: option.splits bind_splits if_splits)

lemma write_tokens_if_ok: "write_tokens fdt [] = Some (0, fdt)" "write_tokens fdt (t # ts) = if_ok (write_token fdt t) (\<lambda>fdt. write_tokens fdt ts)"
  by (simp_all add: if_ok_def)

lemma fdt_create_empty_tree_eq:
  "fdt_create_empty_tree buf bufsize =
     if_ok (write_blob buf bufsize [] [TBegin [], TEnd]) (\<lambda>fdt. fdt_open_into fdt 0 0 bufsize)"
proof -
  have ok: "if_ok r (\<lambda>fdt. Some (0, fdt)) = r" for r
    by (cases r) (auto simp: if_ok_def)
  show ?thesis
    by (simp add: write_blob_def if_ok_assoc write_tokens_if_ok ok write_token_def del: write_tokens.simps)
      (simp add: fdt_create_empty_tree_def if_ok_def)
qed

lemma empty_tree_at:
  assumes "bufsize \<le> int (length (fdt_bytes buf))" "length (fdt_bytes buf) < 2147483644" "fdt_addr buf AND 7 = 0"
  shows "\<exists>err fdt'. fdt_create_empty_tree buf bufsize = Some (err, fdt') \<and>
    (if bufsize < 80 then err = - FDT_ERR_NOSPACE
     else err = 0 \<and> holds_open fdt' [] [TBegin [], TEnd] \<and> edit_room fdt' = bufsize - 80)"
proof -
  have ok: "\<forall>r \<in> set []. snd r \<noteq> (0 :: u64)" "\<forall>t \<in> set [TBegin [], TEnd]. token_ok t" by simp_all
  have cost: "blob_cost [] [TBegin [], TEnd] = 80" by code_simp
  show ?thesis
  proof (cases rule: write_blob_cases [OF assms ok])
    case 1
    then show ?thesis using cost by (simp add: fdt_create_empty_tree_eq)
  next
    case (2 f)
    have h: "holds f [] [TBegin [], TEnd]" and o: "in_order f (rsv_size ([] :: (u64 \<times> u64) list))"
      using 2(2) by (simp_all add: holds_open_def)
    have "12 + 4 \<le> uint (hdr f 36)"
      using h by (auto simp: holds_def ends_at_def round4_def)
    moreover have "uint (hdr f 8) = 64" "uint (hdr f 4) \<le> 80" using 2(5,6) cost by simp_all
    moreover have "uint (hdr f 8) + uint (hdr f 36) \<le> uint (hdr f 12)" "uint (hdr f 12) + uint (hdr f 32) \<le> uint (hdr f 4)"
      using o by (simp_all add: in_order_def)
    ultimately have sz: "uint (hdr f 12) + uint (hdr f 32) = uint (hdr f 4)" "80 \<le> uint (hdr f 4)" "uint (hdr f 4) \<le> 80"
      using uint_ge_0 [of "hdr f 32"] by linarith+
    have p: "packed_size f [] < 2147483648" using o sz by (simp add: packed_size_def in_order_def)
    have b: "(0 :: int) \<le> 0" "0 + bufsize \<le> int (length (fdt_bytes f))" "length (fdt_bytes f) < 2147483644"
      "(fdt_addr f + word_of_int 0) AND 7 = 0"
      using assms 2(4) by (simp_all add: same_place_def)
    show ?thesis
      using open_into_at [OF fdt_in_0 h b p] o sz 2(1,7) by (auto simp: fdt_create_empty_tree_eq)
  qed
qed

text \<open>C15: \<^verbatim>\<open>fdt_create_empty_tree\<close> needs a buffer of 80 bytes; from then on it leaves the tree of the one nameless root node,
  no reservations, and the rest of the buffer as room for edits.\<close>

theorem fdt_create_empty_tree_refines:
  assumes "bufsize \<le> int (length (fdt_bytes buf))" "length (fdt_bytes buf) < 2147483644" "fdt_addr buf AND 7 = 0"
  shows "\<exists>err fdt'. fdt_create_empty_tree buf bufsize = Some (err, fdt') \<and>
    (if bufsize < 80 then err = - FDT_ERR_NOSPACE
     else err = 0 \<and> holds_open fdt' [] [TBegin [], TEnd] \<and> edit_room fdt' = bufsize - 80)"
  by (rule empty_tree_at [OF assms])

theorem fdt_create_empty_tree_refines_witness:
  "\<exists>fdt'. fdt_create_empty_tree fresh_buffer 256 = Some (0, fdt') \<and> holds_open fdt' [] [TBegin [], TEnd] \<and> edit_room fdt' = 176"
  using fdt_create_empty_tree_refines [of 256 fresh_buffer] by (simp add: fresh_buffer_def)

end
