(* ===== verification/Fdt_Nodes.thy ===== *)
theory Fdt_Nodes
  imports Fdt_Edit_Props
begin

unbundle bit_operations_syntax

text \<open>
  Whole nodes of a blob open for editing.  A node with its properties and children is a tree, written as the tokens between its begin
  and its end tag.  The walk of \<^verbatim>\<open>fdt_next_node\<close> passes over the children of a node whatever its caller looks for, so that the end of a
  node, the search for a subnode and the step to the next subnode are read off the tree; on top of that \<^verbatim>\<open>fdt_add_subnode\<close> and
  \<^verbatim>\<open>fdt_del_node\<close> insert and remove a child.
\<close>

section \<open>Trees and their tokens\<close>

datatype dtree = Node (node_name: "u8 list") "(u8 list \<times> u8 list) list" "dtree list"

abbreviation prop_toks :: "(u8 list \<times> u8 list) list \<Rightarrow> token list" where
  "prop_toks ps \<equiv> map (\<lambda>(n, v). TProp n v) ps"

primrec tokens :: "dtree \<Rightarrow> token list" where
  "tokens (Node nm ps ts) = TBegin nm # prop_toks ps @ concat (map tokens ts) @ [TEnd]"

abbreviation forest_toks :: "dtree list \<Rightarrow> token list" where
  "forest_toks ts \<equiv> concat (map tokens ts)"

lemma prop_toks_is_prop [simp]: "list_all is_prop (prop_toks ps)"
  by (auto simp: list_all_iff)

lemma hd_tokens [simp]: "tokens t \<noteq> []" "\<not> is_prop (hd (tokens t))"
  by (cases t; simp)+

lemma hd_forest: "\<not> is_prop (hd (forest_toks ts @ TEnd # post))"
  by (cases ts) simp_all

lemma tokens_bounds: "toks_in N fdt m (tokens t) n \<Longrightarrow> 0 \<le> m \<and> m + 4 \<le> n"
  by (cases t) (auto dest!: tok_in_bounds toks_in_le simp: toks_in_append simp del: tok_in.simps)

lemma toks_in_end: "toks_in N fdt o' ts n \<Longrightarrow> toks_in N' fdt' o' ts n' \<Longrightarrow> n = n'"
  by (drule toks_in_size)+ simp

text \<open>The tree \<open>t\<close> stands at offset \<open>o'\<close>, between the tokens \<open>pre\<close> and \<open>post\<close>.\<close>

definition node_tree :: "fdt \<Rightarrow> int \<Rightarrow> token list \<Rightarrow> dtree \<Rightarrow> token list \<Rightarrow> bool" where
  "node_tree fdt o' pre t post \<longleftrightarrow> edit_inv fdt \<and>
     (\<exists>n e. edit_toks fdt 0 pre o' \<and> edit_toks fdt o' (tokens t) n \<and> edit_toks fdt n post e \<and> ends_at fdt e)"

lemma node_tree_toks:
  "node_tree fdt o' pre (Node nm ps ts) post \<longleftrightarrow> node_toks fdt o' pre nm (prop_toks ps) (forest_toks ts @ TEnd # post)"
proof -
  have "tokens (Node nm ps ts) @ post = TBegin nm # prop_toks ps @ forest_toks ts @ TEnd # post" by simp
  then have eq: "(\<exists>n. edit_toks fdt o' (tokens (Node nm ps ts)) n \<and> edit_toks fdt n post e) \<longleftrightarrow>
    edit_toks fdt o' (TBegin nm # prop_toks ps @ forest_toks ts @ TEnd # post) e" for e
    by (metis toks_in_append)
  show ?thesis
    unfolding node_tree_def node_toks_def eq [symmetric] using hd_forest by (auto simp del: tokens.simps toks_in.simps)
qed

section \<open>The walk over nodes\<close>

text \<open>What stays the same across every tree of a forest, as long as the offsets stay small, stays the same across the forest.\<close>

lemma forest_walk:
  assumes step: "\<And>t m n. t \<in> set ts \<Longrightarrow> toks_in N fdt m (tokens t) n \<Longrightarrow> m mod 4 = 0 \<Longrightarrow> d + (n - m) < B \<Longrightarrow> F m = F n"
    and at: "toks_in N fdt m (forest_toks ts) n" "m mod 4 = 0" "d + (n - m) < (B :: int)"
  shows "F m = F n"
  using assms
proof (induction ts arbitrary: m)
  case (Cons t ts)
  obtain k where k: "toks_in N fdt m (tokens t) k" "toks_in N fdt k (forest_toks ts) n"
    using Cons.prems(2) by (auto simp: toks_in_append)
  have b: "m \<le> k" "k \<le> n" "k mod 4 = 0"
    using toks_in_le [OF k(1)] toks_in_le [OF k(2)] toks_in_aligned [OF k(1)] Cons.prems(3) by auto
  have d: "d + (k - m) < B" "d + (n - k) < B" using b Cons.prems(4) by linarith+
  have "F m = F k" by (rule Cons.prems(1) [OF list.set_intros(1) k(1) Cons.prems(3) d(1)])
  also have "\<dots> = F n" by (rule Cons.IH [OF Cons.prems(1) k(2) b(3) d(2)]) (rule list.set_intros(2))
  finally show ?case .
qed simp

lemma next_node_loop_at:
  assumes "blk_inv fdt" "tok_in N fdt m t n" "m mod 4 = 0" "0 \<le> d" "d < 2147483647"
  shows "next_node_loop fdt m (Some d) = (case t of
      TProp _ _ \<Rightarrow> next_node_loop fdt n (Some d)
    | TBegin _ \<Rightarrow> Some (m, Some (d + 1))
    | TEnd \<Rightarrow> if d = 0 then Some (n, Some (- 1)) else next_node_loop fdt n (Some (d - 1)))"
  using next_tag_at [OF assms(1-3)] assms(4,5) by (subst next_node_loop.simps) (cases t; simp)

lemma next_node_at:
  assumes "blk_inv fdt" "tok_in N fdt m (TBegin nm) n" "m mod 4 = 0"
  shows "fdt_next_node fdt m d = next_node_loop fdt n d"
proof -
  have "0 \<le> m" "m + 4 \<le> n" using tok_in_bounds [OF assms(2)] by auto
  then show ?thesis
    using next_tag_at [OF assms] assms(3) by (simp add: fdt_next_node_def fdt_check_node_offset'_def)
qed

lemma next_node_loop_props:
  assumes "blk_inv fdt" "0 \<le> d" "d < 2147483647"
  shows "toks_in N fdt m (prop_toks ps) n \<Longrightarrow> m mod 4 = 0 \<Longrightarrow> next_node_loop fdt m (Some d) = next_node_loop fdt n (Some d)"
proof (induction ps arbitrary: m)
  case (Cons p ps)
  then obtain nm v k where p: "p = (nm, v)" "tok_in N fdt m (TProp nm v) k" "toks_in N fdt k (prop_toks ps) n"
    by (cases p) (auto simp del: tok_in.simps)
  then show ?case
    using Cons next_node_loop_at [OF assms(1) p(2) _ assms(2,3)] tok_at_aligned [OF p(2)] by (simp del: tok_in.simps)
qed simp

text \<open>A loop over \<^verbatim>\<open>fdt_next_node\<close> that goes on at every node deeper than its own children.\<close>

locale node_walk =
  fixes visit :: "fdt \<Rightarrow> int \<Rightarrow> int \<Rightarrow> 'r option"
  assumes deep: "0 \<le> o' \<Longrightarrow> 1 < d \<Longrightarrow> visit fdt o' d = fdt_next_node fdt o' (Some d) \<bind> (\<lambda>(o', d'). visit fdt o' (the d'))"
begin

text \<open>The visit of the next node behind \<open>m\<close>, reached at depth \<open>d\<close>.\<close>

definition onward :: "fdt \<Rightarrow> int \<Rightarrow> int \<Rightarrow> 'r option" where
  "onward fdt m d = next_node_loop fdt m (Some d) \<bind> (\<lambda>(o', d'). visit fdt o' (the d'))"

lemma onward_props:
  "blk_inv fdt \<Longrightarrow> 0 \<le> d \<Longrightarrow> d < 2147483647 \<Longrightarrow> toks_in N fdt m (prop_toks ps) n \<Longrightarrow> m mod 4 = 0 \<Longrightarrow> onward fdt m d = onward fdt n d"
  by (simp add: onward_def next_node_loop_props)

lemma onward_end:
  assumes "blk_inv fdt" "tok_in N fdt m TEnd n" "m mod 4 = 0" "0 \<le> d" "d < 2147483647"
  shows "onward fdt m d = (if d = 0 then visit fdt n (- 1) else onward fdt n (d - 1))"
  using next_node_loop_at [OF assms] by (simp add: onward_def)

lemma onward_begin:
  assumes "blk_inv fdt" "tok_in N fdt m (TBegin nm) n" "m mod 4 = 0" "0 \<le> d" "d < 2147483647"
  shows "onward fdt m d = visit fdt m (d + 1)"
  using next_node_loop_at [OF assms] by (simp add: onward_def)

lemma visit_deep:
  assumes "blk_inv fdt" "tok_in N fdt m (TBegin nm) n" "m mod 4 = 0" "1 < d"
  shows "visit fdt m d = onward fdt n d"
  using deep [of m d fdt] tok_in_bounds [OF assms(2)] next_node_at [OF assms(1-3), of "Some d"] assms(4) by (simp add: onward_def)

lemma skip_tree:
  assumes "blk_inv fdt"
  shows "toks_in N fdt m (tokens t) n \<Longrightarrow> m mod 4 = 0 \<Longrightarrow> 1 \<le> d \<Longrightarrow> d + (n - m) < 2147483647 \<Longrightarrow> onward fdt m d = onward fdt n d"
    and "toks_in N fdt m (forest_toks ts) n \<Longrightarrow> m mod 4 = 0 \<Longrightarrow> 1 \<le> d \<Longrightarrow> d + (n - m) < 2147483647 \<Longrightarrow>
      onward fdt m d = onward fdt n d"
proof -
  have forest: "onward fdt m d = onward fdt n d"
    if "\<And>t m n d. t \<in> set ts \<Longrightarrow> toks_in N fdt m (tokens t) n \<Longrightarrow> m mod 4 = 0 \<Longrightarrow> 1 \<le> d \<Longrightarrow> d + (n - m) < 2147483647
        \<Longrightarrow> onward fdt m d = onward fdt n d"
      "toks_in N fdt m (forest_toks ts) n" "m mod 4 = 0" "1 \<le> d" "d + (n - m) < 2147483647" for ts m n d
    by (rule forest_walk [where F = "\<lambda>m. onward fdt m d", OF _ that(2,3,5)]) (rule that(1) [OF _ _ _ that(4)])
  have tree: "toks_in N fdt m (tokens t) n \<Longrightarrow> m mod 4 = 0 \<Longrightarrow> 1 \<le> d \<Longrightarrow> d + (n - m) < 2147483647 \<Longrightarrow> onward fdt m d = onward fdt n d"
    for t m n d
  proof (induction t arbitrary: m n d)
    case (Node nm ps ts)
    obtain m1 m2 m3 where k: "tok_in N fdt m (TBegin nm) m1" "toks_in N fdt m1 (prop_toks ps) m2"
      "toks_in N fdt m2 (forest_toks ts) m3" "tok_in N fdt m3 TEnd n"
      using Node.prems(1) by (auto simp: toks_in_append simp del: tok_in.simps)
    have al: "m1 mod 4 = 0" "m2 mod 4 = 0" "m3 mod 4 = 0"
      using tok_at_aligned [OF k(1)] toks_in_aligned [OF k(2)] toks_in_aligned [OF k(3)] Node.prems(2) by auto
    have b: "m + 4 \<le> m1" "m1 \<le> m2" "m2 \<le> m3" "m3 + 4 \<le> n"
      using tok_in_bounds [OF k(1)] toks_in_le [OF k(2)] toks_in_le [OF k(3)] tok_in_bounds [OF k(4)] by auto
    have d: "0 \<le> d" "d < 2147483647" "1 < d + 1" "0 \<le> d + 1" "d + 1 < 2147483647" "d + 1 + (m3 - m2) < 2147483647" "1 \<le> d + 1"
      using b Node.prems by linarith+
    have "onward fdt m d = visit fdt m (d + 1)" by (rule onward_begin [OF assms k(1) Node.prems(2) d(1,2)])
    also have "\<dots> = onward fdt m1 (d + 1)" by (rule visit_deep [OF assms k(1) Node.prems(2) d(3)])
    also have "\<dots> = onward fdt m2 (d + 1)" by (rule onward_props [OF assms d(4,5) k(2) al(1)])
    also have "\<dots> = onward fdt m3 (d + 1)" by (rule forest [OF Node.IH k(3) al(2) d(7,6)])
    also have "\<dots> = onward fdt n d" using onward_end [OF assms k(4) al(3) d(4,5)] d(1) by simp
    finally show ?case .
  qed
  show "toks_in N fdt m (tokens t) n \<Longrightarrow> m mod 4 = 0 \<Longrightarrow> 1 \<le> d \<Longrightarrow> d + (n - m) < 2147483647 \<Longrightarrow> onward fdt m d = onward fdt n d"
    by (rule tree)
  show "toks_in N fdt m (forest_toks ts) n \<Longrightarrow> m mod 4 = 0 \<Longrightarrow> 1 \<le> d \<Longrightarrow> d + (n - m) < 2147483647 \<Longrightarrow>
      onward fdt m d = onward fdt n d"
    by (rule forest [OF tree])
qed

text \<open>A child at which the visit goes on is passed over.\<close>

lemma pass_child:
  assumes blk: "blk_inv fdt" and t: "toks_in N fdt m (tokens t) n" and al: "m mod 4 = 0" and len: "n - m < 2147483640"
    and on: "visit fdt m 1 = fdt_next_node fdt m (Some 1) \<bind> (\<lambda>(o', d'). visit fdt o' (the d'))"
  shows "onward fdt m 0 = onward fdt n 0"
proof (cases t)
  case (Node nm ps ts)
  obtain m1 m2 m3 where k: "tok_in N fdt m (TBegin nm) m1" "toks_in N fdt m1 (prop_toks ps) m2"
    "toks_in N fdt m2 (forest_toks ts) m3" "tok_in N fdt m3 TEnd n"
    using t Node by (auto simp: toks_in_append simp del: tok_in.simps)
  have a: "m1 mod 4 = 0" "m2 mod 4 = 0" "m3 mod 4 = 0"
    using tok_at_aligned [OF k(1)] toks_in_aligned [OF k(2)] toks_in_aligned [OF k(3)] al by auto
  have "1 + (m3 - m2) < 2147483647"
    using tok_in_bounds [OF k(1)] toks_in_le [OF k(2)] toks_in_le [OF k(3)] tok_in_bounds [OF k(4)] len by linarith
  then have "onward fdt m2 1 = onward fdt m3 1" by (intro skip_tree(2) [OF blk k(3) a(2)]) simp_all
  moreover have "onward fdt m 0 = onward fdt m1 1"
    using onward_begin [OF blk k(1) al, of 0] on next_node_at [OF blk k(1) al, of "Some 1"] by (simp add: onward_def)
  ultimately show ?thesis
    using onward_props [OF blk _ _ k(2) a(1), of 1] onward_end [OF blk k(4) a(3), of 1] by simp
qed

end

lemma node_treeE:
  assumes "node_tree fdt o' pre (Node nm ps ts) post"
  obtains m1 m2 m3 n e where "edit_inv fdt" "edit_toks fdt 0 pre o'" "tok_in (fin_name fdt) fdt o' (TBegin nm) m1"
    "edit_toks fdt m1 (prop_toks ps) m2" "edit_toks fdt m2 (forest_toks ts) m3" "tok_in (fin_name fdt) fdt m3 TEnd n"
    "edit_toks fdt n post e" "ends_at fdt e" "o' mod 4 = 0" "m1 mod 4 = 0" "m2 mod 4 = 0" "m3 mod 4 = 0" "0 \<le> o'" "o' + 4 \<le> m1"
    "m1 \<le> m2" "m2 \<le> m3" "n = m3 + 4" "n \<le> uint (hdr fdt 36)"
proof -
  obtain m1 m2 m3 n e where k: "edit_inv fdt" "edit_toks fdt 0 pre o'" "tok_in (fin_name fdt) fdt o' (TBegin nm) m1"
    "edit_toks fdt m1 (prop_toks ps) m2" "edit_toks fdt m2 (forest_toks ts) m3" "tok_in (fin_name fdt) fdt m3 TEnd n"
    "edit_toks fdt n post e" "ends_at fdt e"
    using assms by (auto simp: node_tree_def toks_in_append simp del: tok_in.simps)
  moreover have "o' mod 4 = 0" using toks_in_aligned [OF k(2)] by simp
  moreover from this have "m1 mod 4 = 0" using tok_at_aligned [OF k(3)] by simp
  moreover from this have "m2 mod 4 = 0" using toks_in_aligned [OF k(4)] by simp
  moreover from this have "m3 mod 4 = 0" using toks_in_aligned [OF k(5)] by simp
  moreover have "0 \<le> o'" "o' + 4 \<le> m1" "m1 \<le> m2" "m2 \<le> m3" "n = m3 + 4" "n \<le> uint (hdr fdt 36)"
    using tok_in_bounds [OF k(3)] toks_in_le [OF k(4)] toks_in_le [OF k(5)] k(6) by auto
  ultimately show thesis by (rule that)
qed

section \<open>The end of a node\<close>

interpretation ne: node_walk node_end_loop
  by unfold_locales (subst node_end_loop.simps, simp)

lemma node_end_at:
  assumes "blk_inv fdt"
  shows "toks_in N fdt m (forest_toks ts) n \<Longrightarrow> m mod 4 = 0 \<Longrightarrow> n - m < 2147483640 \<Longrightarrow> ne.onward fdt m 0 = ne.onward fdt n 0"
proof (induction ts arbitrary: m)
  case (Cons t ts)
  then obtain k where k: "toks_in N fdt m (tokens t) k" "toks_in N fdt k (forest_toks ts) n"
    by (auto simp: toks_in_append)
  have b: "0 \<le> m" "m \<le> k" "k \<le> n" "k mod 4 = 0"
    using toks_in_le [OF k(1)] toks_in_le [OF k(2)] toks_in_aligned [OF k(1)] Cons.prems tokens_bounds [OF k(1)] by auto
  then have "node_end_loop fdt m 1 = fdt_next_node fdt m (Some 1) \<bind> (\<lambda>(o', d'). node_end_loop fdt o' (the d'))"
    by (subst node_end_loop.simps) simp
  then have "ne.onward fdt m 0 = ne.onward fdt k 0"
    using b Cons.prems by (intro ne.pass_child [OF assms k(1)]) auto
  also have "\<dots> = ne.onward fdt n 0" using b Cons.prems by (intro Cons.IH [OF k(2)]) auto
  finally show ?case .
qed simp

lemma node_end_offset_at:
  assumes "node_tree fdt o' pre t post" "edit_toks fdt o' (tokens t) n"
  shows "fdt_node_end_offset' fdt o' = Some n"
proof (cases t)
  case (Node nm ps ts)
  from assms(1) [unfolded Node] show ?thesis
  proof (rule node_treeE)
    fix m1 m2 m3 n' e
    assume k: "edit_inv fdt" "edit_toks fdt 0 pre o'" "tok_in (fin_name fdt) fdt o' (TBegin nm) m1"
      "edit_toks fdt m1 (prop_toks ps) m2" "edit_toks fdt m2 (forest_toks ts) m3" "tok_in (fin_name fdt) fdt m3 TEnd n'"
      "o' mod 4 = 0" "m1 mod 4 = 0" "m2 mod 4 = 0" "m3 mod 4 = 0" "0 \<le> o'" "o' + 4 \<le> m1"
      "m1 \<le> m2" "m2 \<le> m3" "n' = m3 + 4" "n' \<le> uint (hdr fdt 36)"
    note blk = edit_inv_blk [OF k(1)]
    have "edit_toks fdt o' (tokens t) n'"
      using k(3-6) Node by (auto simp: toks_in_append simp del: tok_in.simps)
    then have n: "n' = n" using assms(2) by (rule toks_in_end)
    have "m3 - m2 < 2147483640" using k edit_inv_sizes(10) [OF k(1)] by linarith
    then have "ne.onward fdt m1 0 = Some n'"
      using ne.onward_props [OF blk _ _ k(4,8), of 0] node_end_at [OF blk k(5,9)] ne.onward_end [OF blk k(6,10), of 0]
      by (simp add: node_end_loop.simps [of fdt n' "- 1"])
    then show ?thesis
      using next_node_at [OF blk k(3,7), of "Some 0"] k(11) n
      by (simp add: fdt_node_end_offset'_def ne.onward_def node_end_loop.simps [of fdt o' 0])
  qed
qed

section \<open>Deleting a node\<close>

lemma del_node_toks:
  assumes "node_tree fdt o' pre t post"
  shows "\<exists>fdt'. fdt_del_node fdt o' = Some (0, fdt') \<and> tree_toks fdt' (pre @ post) \<and> edit_room fdt \<le> edit_room fdt' \<and>
    rsv_kept fdt fdt'"
proof -
  obtain n e where k: "edit_inv fdt" "edit_toks fdt 0 pre o'" "edit_toks fdt o' (tokens t) n" "edit_toks fdt n post e" "ends_at fdt e"
    using assms by (auto simp: node_tree_def)
  have b: "0 \<le> o'" "o' + 4 \<le> n" using tokens_bounds [OF k(3)] by auto
  then have "fdt_del_node fdt o' = fdt_splice_struct' fdt (uint (hdr fdt 8) + o') (n - o') 0"
    using node_end_offset_at [OF assms k(3)] edit_probe(2) [OF k(1)] edit_inv_buffer [OF k(1)]
    by (simp add: fdt_del_node_def FDT_RW_PROBE_def fdt_offset_ptr'_def)
  moreover have gap: "o' \<le> o'" "o' \<le> n" "(0::int) \<le> 0" "(0::int) < 2147483648" "- (n - o') = 0 - (n - o')" using b by auto
  have "\<not> edit_room fdt < - (n - o')" using b edit_inv_sizes(2) [OF k(1)] by (simp add: edit_room_def)
  then obtain fdt' where "fdt_splice_struct' fdt (uint (hdr fdt 8) + o') (n - o') 0 = Some (0, fdt')" "tree_toks fdt' (pre @ post)"
    "edit_room fdt \<le> edit_room fdt'" "rsv_kept fdt fdt'"
    using b by (cases rule: splice_struct_toks [OF k(1,2,4,5) gap]) (auto intro: tree_toksI)
  ultimately show ?thesis by simp
qed

section \<open>Finding a subnode\<close>

text \<open>A name matches a node's name when they are equal, or when it has no unit address and the node's name has one behind it.\<close>

definition name_matches :: "u8 list \<Rightarrow> u8 list \<Rightarrow> bool" where
  "name_matches s nm \<longleftrightarrow> nm = s \<or> 0x40 \<notin> set s \<and> (\<exists>u. nm = s @ 0x40 # u)"

lemma blob_str_at: "bytes_at fdt p (s @ [0]) \<Longrightarrow> 0 \<notin> set s \<Longrightarrow> blob_str fdt p = Some s"
proof (induction s arbitrary: p)
  case Nil
  then show ?case by (subst blob_str.simps) (simp add: bytes_at_Cons)
next
  case (Cons b s)
  then show ?case by (subst blob_str.simps) (simp add: bytes_at_Cons)
qed

lemma get_name_at:
  assumes inv: "edit_inv fdt" and t: "tok_in N fdt m (TBegin nm) n" and al: "m mod 4 = 0"
  shows "fdt_get_name fdt m = Some (Inr (uint (hdr fdt 8) + m + 4, int (length nm)))"
proof -
  note S = edit_inv_sizes [OF inv] and blk = edit_inv_blk [OF inv]
  have b: "0 \<le> m" "m + 4 \<le> n" using tok_in_bounds [OF t] by auto
  have chk: "fdt_check_node_offset' fdt m = Some n"
    using next_tag_at [OF blk t al] al b by (simp add: fdt_check_node_offset'_def)
  have "hdr fdt 20 = 17" using blk by (simp add: blk_inv_def)
  moreover have "blob_str fdt (uint (hdr fdt 8) + m + 4) = Some nm" using t by (intro blob_str_at) auto
  ultimately show ?thesis
    using edit_inv_buffer [OF inv] edit_probe(1) [OF inv] chk b
    by (simp add: fdt_get_name_def fdt_offset_ptr'_def blob_strlen_def leD)
qed

lemma nodename_eq_at:
  assumes inv: "edit_inv fdt" and t: "tok_in N fdt m (TBegin nm) n" and al: "m mod 4 = 0"
  shows "fdt_nodename_eq' fdt m s = Some (name_matches s nm)"
proof -
  let ?p = "uint (hdr fdt 8) + m + 4"
  have nm: "bytes_at fdt ?p (nm @ [0])" "0 \<notin> set nm" using t by auto
  show ?thesis
  proof (cases "length nm < length s")
    case True
    then show ?thesis using get_name_at [OF assms] by (auto simp: fdt_nodename_eq'_def name_matches_def)
  next
    case False
    let ?a = "take (length s) nm" and ?b = "drop (length s) nm"
    have "bytes_at fdt ?p (?a @ ?b @ [0])" using nm(1) by (simp flip: append_assoc)
    then have "bytes_at fdt ?p ?a" "bytes_at fdt (?p + int (length s)) (?b @ [0])"
      using False by (simp_all add: bytes_at_append)
    then have "blob_eq fdt ?p s = Some (?a = s)" "rd8 fdt (?p + int (length s)) = Some (hd (?b @ [0]))"
      using blob_eq_at [of fdt ?p ?a s] False by (cases ?b; simp add: bytes_at_Cons)+
    moreover have "name_matches s nm \<longleftrightarrow> ?a = s \<and> (hd (?b @ [0]) = 0 \<or> 0x40 \<notin> set s \<and> hd (?b @ [0]) = 0x40)"
    proof -
      have "nm = ?a @ ?b" "0 \<notin> set ?b" using nm(2) by (auto dest: in_set_dropD)
      then show ?thesis using False by (cases ?b) (auto simp: name_matches_def append_eq_conv_conj)
    qed
    ultimately show ?thesis
      using get_name_at [OF assms] False by (simp add: fdt_nodename_eq'_def)
  qed
qed

interpretation sn: node_walk "\<lambda>fdt o' d. subnode_offset_loop fdt o' d name" for name
  by unfold_locales (subst subnode_offset_loop.simps, simp)

lemma subnode_search:
  assumes inv: "edit_inv fdt" and fin: "tok_in N fdt n TEnd k" "n mod 4 = 0"
  shows "toks_in N fdt m (forest_toks ts) n \<Longrightarrow> m mod 4 = 0 \<Longrightarrow> n - m < 2147483640 \<Longrightarrow>
    (\<exists>ts1 t ts2 p. ts = ts1 @ t # ts2 \<and> (\<forall>u \<in> set ts1. \<not> name_matches s (node_name u)) \<and> name_matches s (node_name t) \<and>
       toks_in N fdt m (forest_toks ts1) p \<and> sn.onward s fdt m 0 = Some p)
    \<or> (\<forall>u \<in> set ts. \<not> name_matches s (node_name u)) \<and> sn.onward s fdt m 0 = Some (- FDT_ERR_NOTFOUND)"
proof (induction ts arbitrary: m)
  case Nil
  then show ?case
    using sn.onward_end [OF edit_inv_blk [OF inv] fin, of 0 s] by (simp add: subnode_offset_loop.simps [of fdt k "- 1"])
next
  case (Cons t ts)
  note blk = edit_inv_blk [OF inv]
  from Cons.prems obtain k' where k: "toks_in N fdt m (tokens t) k'" "toks_in N fdt k' (forest_toks ts) n"
    by (auto simp: toks_in_append)
  have b: "0 \<le> m" "m + 4 \<le> k'" "k' \<le> n" "k' mod 4 = 0" "k' - m < 2147483640" "n - k' < 2147483640"
    using toks_in_le [OF k(2)] toks_in_aligned [OF k(1)] Cons.prems tokens_bounds [OF k(1)] by auto
  obtain m1 where m1: "tok_in N fdt m (TBegin (node_name t)) m1"
    using k(1) by (cases t) (auto simp del: tok_in.simps)
  have on: "sn.onward s fdt m 0 = subnode_offset_loop fdt m 1 s"
    using sn.onward_begin [OF blk m1 Cons.prems(2), of 0 s] by simp
  have eq: "fdt_nodename_eq' fdt m s = Some (name_matches s (node_name t))"
    by (rule nodename_eq_at [OF inv m1 Cons.prems(2)])
  show ?case
  proof (cases "name_matches s (node_name t)")
    case True
    then have "sn.onward s fdt m 0 = Some m"
      using on eq b(1) by (simp add: subnode_offset_loop.simps [of fdt m 1])
    then show ?thesis
      using True by (intro disjI1 exI [of _ "[]"] exI [of _ t] exI [of _ ts] exI [of _ m]) simp
  next
    case False
    then have "subnode_offset_loop fdt m 1 s = fdt_next_node fdt m (Some 1) \<bind> (\<lambda>(o', d'). subnode_offset_loop fdt o' (the d') s)"
      using eq b(1) by (simp add: subnode_offset_loop.simps [of fdt m 1])
    then have pass: "sn.onward s fdt m 0 = sn.onward s fdt k' 0"
      by (rule sn.pass_child [OF blk k(1) Cons.prems(2) b(5)])
    from Cons.IH [OF k(2) b(4,6)] show ?thesis
    proof (elim disjE exE conjE)
      fix ts1 t' ts2 p
      assume "ts = ts1 @ t' # ts2" "\<forall>u \<in> set ts1. \<not> name_matches s (node_name u)" "name_matches s (node_name t')"
        "toks_in N fdt k' (forest_toks ts1) p" "sn.onward s fdt k' 0 = Some p"
      then show ?thesis
        using False pass k(1)
        by (intro disjI1 exI [of _ "t # ts1"] exI [of _ t'] exI [of _ ts2] exI [of _ p]) (auto simp: toks_in_append)
    next
      assume "\<forall>u \<in> set ts. \<not> name_matches s (node_name u)" "sn.onward s fdt k' 0 = Some (- FDT_ERR_NOTFOUND)"
      then show ?thesis using False pass by simp
    qed
  qed
qed

lemma subnode_offset_start:
  assumes inv: "edit_inv fdt" and t: "tok_in N fdt o' (TBegin nm) m1" "o' mod 4 = 0"
  shows "fdt_subnode_offset_namelen fdt o' s = sn.onward s fdt m1 0"
proof -
  have "0 \<le> o'" using tok_in_bounds [OF t(1)] by simp
  then show ?thesis
    using edit_probe(1) [OF inv] next_node_at [OF edit_inv_blk [OF inv] t, of "Some 0"]
    by (simp add: fdt_subnode_offset_namelen_def FDT_RO_PROBE_def sn.onward_def subnode_offset_loop.simps [of fdt o' 0] leD)
qed

lemma node_treeI:
  assumes "edit_inv fdt" "edit_toks fdt 0 pre o'" "edit_toks fdt o' (tokens t @ post) e" "ends_at fdt e"
  shows "node_tree fdt o' pre t post"
  using assms by (auto simp: node_tree_def toks_in_append)

lemma subnode_offset_at:
  assumes "node_tree fdt o' pre (Node nm ps ts) post"
  obtains ts1 t ts2 p where "ts = ts1 @ t # ts2" "\<forall>u \<in> set ts1. \<not> name_matches s (node_name u)" "name_matches s (node_name t)"
      "fdt_subnode_offset_namelen fdt o' s = Some p" "0 \<le> p"
      "node_tree fdt p (pre @ TBegin nm # prop_toks ps @ forest_toks ts1) t (forest_toks ts2 @ TEnd # post)"
  | "\<forall>u \<in> set ts. \<not> name_matches s (node_name u)" "fdt_subnode_offset_namelen fdt o' s = Some (- FDT_ERR_NOTFOUND)"
proof -
  obtain m1 m2 m3 n e where k: "edit_inv fdt" "edit_toks fdt 0 pre o'" "tok_in (fin_name fdt) fdt o' (TBegin nm) m1"
    "edit_toks fdt m1 (prop_toks ps) m2" "edit_toks fdt m2 (forest_toks ts) m3" "tok_in (fin_name fdt) fdt m3 TEnd n"
    "edit_toks fdt n post e" "ends_at fdt e" "o' mod 4 = 0" "m1 mod 4 = 0" "m2 mod 4 = 0" "m3 mod 4 = 0" "0 \<le> o'" "o' + 4 \<le> m1"
    "m1 \<le> m2" "m2 \<le> m3" "n = m3 + 4" "n \<le> uint (hdr fdt 36)"
    using assms by (rule node_treeE)
  have len: "m3 - m2 < 2147483640" using k edit_inv_sizes(10) [OF k(1)] by linarith
  have start: "fdt_subnode_offset_namelen fdt o' s = sn.onward s fdt m2 0"
    using subnode_offset_start [OF k(1,3,9)] sn.onward_props [OF edit_inv_blk [OF k(1)] _ _ k(4,10), of 0] by simp
  from subnode_search [OF k(1,6,12,5,11) len, of s] show thesis
  proof (elim disjE exE conjE)
    fix ts1 t ts2 p
    assume f: "ts = ts1 @ t # ts2" "\<forall>u \<in> set ts1. \<not> name_matches s (node_name u)" "name_matches s (node_name t)"
      "edit_toks fdt m2 (forest_toks ts1) p" "sn.onward s fdt m2 0 = Some p"
    have pre: "edit_toks fdt 0 (pre @ TBegin nm # prop_toks ps @ forest_toks ts1) p"
      using k(2-4) f(4) by (auto simp: toks_in_append simp del: tok_in.simps)
    obtain p' where "edit_toks fdt m2 (forest_toks ts1) p'" "edit_toks fdt p' (tokens t @ forest_toks ts2) m3"
      using k(5) f(1) by (auto simp: toks_in_append)
    moreover from this(1) f(4) have "p' = p" by (rule toks_in_end)
    ultimately have "edit_toks fdt p (tokens t @ forest_toks ts2 @ TEnd # post) e"
      using k(6,7) by (auto simp: toks_in_append simp del: tok_in.simps)
    then have "node_tree fdt p (pre @ TBegin nm # prop_toks ps @ forest_toks ts1) t (forest_toks ts2 @ TEnd # post)"
      by (rule node_treeI [OF k(1) pre _ k(8)])
    moreover have "0 \<le> p" using toks_in_le [OF pre] .
    ultimately show thesis using f(1-3,5) start that(1) by simp
  next
    assume "\<forall>u \<in> set ts. \<not> name_matches s (node_name u)" "sn.onward s fdt m2 0 = Some (- FDT_ERR_NOTFOUND)"
    then show thesis using start that(2) by simp
  qed
qed

section \<open>Adding a subnode\<close>

lemma behind_properties_at:
  assumes "blk_inv fdt"
  shows "toks_in N fdt m (prop_toks ps) n \<Longrightarrow> tok_in N fdt n t k \<Longrightarrow> \<not> is_prop t \<Longrightarrow> m mod 4 = 0 \<Longrightarrow>
    behind_properties fdt m = Some n"
proof (induction ps arbitrary: m)
  case Nil
  then show ?case
    using next_tag_at [OF assms Nil.prems(2)] by (subst behind_properties.simps) (cases t; simp del: tok_in.simps)
next
  case (Cons p ps)
  then obtain nm v j where p: "p = (nm, v)" "tok_in N fdt m (TProp nm v) j" "toks_in N fdt j (prop_toks ps) n"
    by (cases p) (auto simp del: tok_in.simps)
  have "behind_properties fdt j = Some n"
    using Cons.IH [OF p(3) Cons.prems(2,3)] tok_at_aligned [OF p(2)] Cons.prems(4) by simp
  then show ?case
    using next_tag_at [OF assms p(2) Cons.prems(4)] by (subst behind_properties.simps) (simp del: tok_in.simps)
qed

text \<open>The bytes of an empty node.\<close>

lemma write_empty_node:
  assumes room: "0 \<le> q" "q + 8 + round4 (int (length name) + 1) \<le> int (length (fdt_bytes f1))"
  obtains f2 f3 f4 f5 where "fdt32_st f1 q FDT_BEGIN_NODE = Some f2"
    "wr_bytes f2 (q + 4) (replicate (nat (round4 (int (length name) + 1))) 0) = Some f3" "wr_bytes f3 (q + 4) name = Some f4"
    "fdt32_st f4 (q + 4 + round4 (int (length name) + 1)) FDT_END_NODE = Some f5"
    "same_above q (q + 8 + round4 (int (length name) + 1)) f1 f5"
    "fdt32_ld f5 q = Some FDT_BEGIN_NODE" "bytes_at f5 (q + 4) (name @ [0])"
    "fdt32_ld f5 (q + 4 + round4 (int (length name) + 1)) = Some FDT_END_NODE"
proof -
  let ?r = "round4 (int (length name) + 1)" and ?z = "replicate (nat (round4 (int (length name) + 1))) (0 :: u8)"
  have r: "int (length name) + 1 \<le> ?r" using round4_bounds(1) [of "int (length name) + 1"] by simp
  have z: "int (length ?z) = ?r" using r by simp
  obtain f2 where f2: "fdt32_st f1 q FDT_BEGIN_NODE = Some f2"
    using fdt32_st_total [of q f1] room r by auto
  obtain f3 where f3: "wr_bytes f2 (q + 4) ?z = Some f3"
    using wr_bytes_total [of "q + 4" ?z f2] room r z fdt32_st_length [OF f2] by auto
  obtain f4 where f4: "wr_bytes f3 (q + 4) name = Some f4"
    using wr_bytes_total [of "q + 4" name f3] room r wr_bytes_length [OF f3] fdt32_st_length [OF f2] by auto
  have len: "length (fdt_bytes f4) = length (fdt_bytes f1)"
    using wr_bytes_length [OF f4] wr_bytes_length [OF f3] fdt32_st_length [OF f2] by simp
  then obtain f5 where f5: "fdt32_st f4 (q + 4 + ?r) FDT_END_NODE = Some f5"
    using fdt32_st_total [of "q + 4 + ?r" f4] room r by auto
  have same: "rd8 f5 p = rd8 f1 p" if "p < q \<or> q + 8 + ?r \<le> p" for p
    using that r z rd8_st_other [OF f2, of p] rd8_wr_bytes_other [OF f3, of p] rd8_wr_bytes_other [OF f4, of p] rd8_st_other [OF f5, of p]
    by auto
  have "same_above q (q + 8 + ?r) f1 f5"
    using same len fdt32_st_length [OF f5] fdt32_st_addr [OF f5] wr_bytes_addr [OF f4] wr_bytes_addr [OF f3] fdt32_st_addr [OF f2]
    by (simp add: same_above_def)
  moreover have "fdt32_ld f5 q = fdt32_ld f2 q"
    using r rd8_wr_bytes_other [OF f3] rd8_wr_bytes_other [OF f4] rd8_st_other [OF f5] by (intro fdt32_ld_cong) auto
  then have "fdt32_ld f5 q = Some FDT_BEGIN_NODE" using fdt32_ld_st_same [OF f2] by simp
  moreover have "bytes_at f5 (q + 4) (name @ [0])"
  proof -
    have "rd8 f3 (q + 4 + int (length name)) = Some 0"
      using bytes_at_wr [OF f3] r by (auto simp: bytes_at_def dest!: spec [of _ "length name"])
    then have "rd8 f5 (q + 4 + int (length name)) = Some 0"
      using r rd8_wr_bytes_other [OF f4, of "q + 4 + int (length name)"] rd8_st_other [OF f5, of "q + 4 + int (length name)"]
      by (simp add: bytes_at_Cons)
    moreover have "bytes_at f5 (q + 4) name"
      using r rd8_st_other [OF f5] by (intro bytes_at_cong [OF bytes_at_wr [OF f4]]) auto
    ultimately show ?thesis by (simp add: bytes_at_append bytes_at_Cons)
  qed
  moreover have "fdt32_ld f5 (q + 4 + ?r) = Some FDT_END_NODE" by (rule fdt32_ld_st_same [OF f5])
  ultimately show thesis using f2 f3 f4 f5 by (intro that)
qed

lemma add_subnode_tree:
  assumes node: "node_tree fdt o' pre (Node nm ps ts) post" and fresh: "\<forall>u \<in> set ts. \<not> name_matches name (node_name u)"
    and name: "0 \<notin> set name" "int (length name) < 2147483632"
  obtains "fdt_add_subnode fdt o' name = Some (- FDT_ERR_NOSPACE, fdt)" "edit_room fdt < 8 + round4 (int (length name) + 1)"
  | off fdt' where "fdt_add_subnode fdt o' name = Some (off, fdt')" "0 \<le> off"
      "edit_toks fdt 0 (pre @ TBegin nm # prop_toks ps) off"
      "tree_toks fdt' ((pre @ TBegin nm # prop_toks ps) @ tokens (Node name [] []) @ (forest_toks ts @ TEnd # post))"
      "edit_room fdt' = edit_room fdt - (8 + round4 (int (length name) + 1))" "rsv_kept fdt fdt'"
proof -
  obtain m1 m2 m3 n e where k: "edit_inv fdt" "edit_toks fdt 0 pre o'" "tok_in (fin_name fdt) fdt o' (TBegin nm) m1"
    "edit_toks fdt m1 (prop_toks ps) m2" "edit_toks fdt m2 (forest_toks ts) m3" "tok_in (fin_name fdt) fdt m3 TEnd n"
    "edit_toks fdt n post e" "ends_at fdt e" "o' mod 4 = 0" "m1 mod 4 = 0" "m2 mod 4 = 0" "m3 mod 4 = 0" "0 \<le> o'" "o' + 4 \<le> m1"
    "m1 \<le> m2" "m2 \<le> m3" "n = m3 + 4" "n \<le> uint (hdr fdt 36)"
    using node by (rule node_treeE)
  note blk = edit_inv_blk [OF k(1)] and S = edit_inv_sizes [OF k(1)]
  let ?s = "uint (hdr fdt 8)" and ?r = "round4 (int (length name) + 1)"
  have r: "int (length name) + 1 \<le> ?r" "?r < int (length name) + 5"
    using round4_bounds [of "int (length name) + 1"] by auto
  have al: "FDT_TAGALIGN (int (length name) + 1) = ?r" using name(2) by (intro FDT_TAGALIGN_round4) auto
  have c: "c_int (4 + ?r + 4) = 8 + ?r" using r name(2) by (subst c_int_id) auto
  have pre: "edit_toks fdt 0 (pre @ TBegin nm # prop_toks ps) m2"
    using k(2-4) by (auto simp: toks_in_append simp del: tok_in.simps)
  have post: "edit_toks fdt m2 (forest_toks ts @ TEnd # post) e"
    using k(5-7) by (auto simp: toks_in_append simp del: tok_in.simps)
  obtain t k' where t: "tok_in (fin_name fdt) fdt m2 t k'" "\<not> is_prop t"
    using post hd_forest [of ts post] by (cases "forest_toks ts @ TEnd # post") (auto simp del: tok_in.simps)
  have behind: "behind_properties fdt m1 = Some m2" by (rule behind_properties_at [OF blk k(4) t k(10)])
  have sub: "fdt_subnode_offset_namelen fdt o' name = Some (- FDT_ERR_NOTFOUND)"
    using fresh by (cases rule: subnode_offset_at [OF node, of name]) auto
  have eq: "fdt_add_subnode fdt o' name = do {
      (err, fdt) \<leftarrow> fdt_splice_struct' fdt (?s + m2) 0 (8 + ?r);
      if err \<noteq> 0 then Some (err, fdt)
      else do {
        fdt \<leftarrow> fdt32_st fdt (?s + m2) FDT_BEGIN_NODE;
        fdt \<leftarrow> wr_bytes fdt (?s + m2 + 4) (replicate (nat ?r) 0);
        fdt \<leftarrow> wr_bytes fdt (?s + m2 + 4) name;
        fdt \<leftarrow> fdt32_st fdt (?s + m2 + 4 + ?r) FDT_END_NODE;
        Some (m2, fdt) } }"
    using sub behind al c edit_probe(2) [OF k(1)] edit_inv_buffer [OF k(1)] next_tag_at [OF blk k(3,9)]
    by (simp add: fdt_add_subnode_def fdt_add_subnode_namelen_def FDT_RW_PROBE_def fdt_offset_ptr'_def Let_def add_ac cong: if_cong)
  have gap: "m2 \<le> m2" "m2 \<le> m2" "0 \<le> 8 + ?r" "8 + ?r < 2147483648" "8 + ?r = 8 + ?r - (m2 - m2)"
    using r name(2) by auto
  show thesis
  proof (cases rule: splice_struct_toks [OF k(1) pre post k(8) gap])
    case 1
    then show thesis using eq by (intro that(1)) simp_all
  next
    case (2 f1)
    note S1 = edit_inv_sizes [OF 2(2)]
    have b: "0 \<le> m2" "0 \<le> ?s + m2" "m2 + (8 + ?r) \<le> uint (hdr f1 36)" "?s + m2 + 8 + ?r \<le> int (length (fdt_bytes f1))"
      using toks_in_le [OF pre] toks_in_le [OF 2(4)] 2(5,7) S1 S by (auto simp: ends_at_def)
    obtain f2 f3 f4 f5 where w: "fdt32_st f1 (?s + m2) FDT_BEGIN_NODE = Some f2"
      "wr_bytes f2 (?s + m2 + 4) (replicate (nat ?r) 0) = Some f3" "wr_bytes f3 (?s + m2 + 4) name = Some f4"
      "fdt32_st f4 (?s + m2 + 4 + ?r) FDT_END_NODE = Some f5" "same_above (?s + m2) (?s + m2 + 8 + ?r) f1 f5"
      "fdt32_ld f5 (?s + m2) = Some FDT_BEGIN_NODE" "bytes_at f5 (?s + m2 + 4) (name @ [0])"
      "fdt32_ld f5 (?s + m2 + 4 + ?r) = Some FDT_END_NODE"
      using b(2,4) by (rule write_empty_node)
    have lo: "40 \<le> ?s + m2" using S b by linarith
    then have h: "hdr f5 j = hdr f1 j" if "j \<le> 36" for j by (rule same_above_hdr [OF w(5) _ that])
    have "edit_toks f5 m2 (tokens (Node name [] [])) (m2 + (8 + ?r))"
      using w(6-8) h 2(7) b(1,3) name(1) r by (simp add: add_ac)
    then have "tree_toks f5 ((pre @ TBegin nm # prop_toks ps) @ tokens (Node name [] []) @ (forest_toks ts @ TEnd # post))"
      using 2(7) w(5) by (intro fill_gap [OF 2(2-5)]) (simp_all add: add_ac del: tokens.simps)
    moreover have "fdt_add_subnode fdt o' name = Some (m2, f5)" using eq 2(1) w(1-4) by simp
    moreover have "edit_room f5 = edit_room fdt - (8 + ?r)" using edit_room_write [OF w(5) lo] 2(10) by simp
    moreover have "rsv_kept fdt f5"
      using b(1) by (intro rsv_kept_write [OF 2(11) w(5) lo]) simp
    ultimately show thesis using b(1) pre by (intro that(2))
  qed
qed

lemma node_tree_tree: "node_tree fdt o' pre t post \<Longrightarrow> tree_toks fdt (pre @ tokens t @ post)"
  unfolding node_tree_def tree_toks_def toks_in_append by blast

lemma node_of_tree_toks:
  assumes "tree_toks fdt' (pre @ tokens t @ post)" "edit_toks fdt 0 pre o'"
  shows "node_tree fdt' o' pre t post"
proof -
  obtain k e where k: "edit_inv fdt'" "edit_toks fdt' 0 pre k" "edit_toks fdt' k (tokens t @ post) e" "ends_at fdt' e"
    using assms(1) by (auto simp: tree_toks_def toks_in_append)
  moreover have "k = o'" using k(2) assms(2) by (rule toks_in_end)
  ultimately show ?thesis by (intro node_treeI) simp_all
qed

section \<open>Stepping through the subnodes\<close>

text \<open>The body of the loop of \<^verbatim>\<open>fdt_next_subnode\<close> behind the step to the next node.\<close>

definition subnode_stop :: "fdt \<Rightarrow> int \<Rightarrow> int \<Rightarrow> int option" where
  "subnode_stop fdt o' d =
     (if o' < 0 \<or> d < 1 then Some (- FDT_ERR_NOTFOUND) else if 1 < d then next_subnode_loop fdt o' d else Some o')"

lemma next_subnode_loop_stop:
  "next_subnode_loop fdt o' d = fdt_next_node fdt o' (Some d) \<bind> (\<lambda>(o', d'). subnode_stop fdt o' (the d'))"
  unfolding subnode_stop_def by (subst next_subnode_loop.simps) (simp add: Let_def)

interpretation ss: node_walk subnode_stop
  by unfold_locales (simp flip: next_subnode_loop_stop, simp add: subnode_stop_def)

lemma first_subnode_at:
  assumes "node_tree fdt o' pre (Node nm ps ts) post"
  shows "case ts of
      [] \<Rightarrow> fdt_first_subnode fdt o' = Some (- FDT_ERR_NOTFOUND)
    | t # ts' \<Rightarrow> \<exists>p. fdt_first_subnode fdt o' = Some p \<and> node_tree fdt p (pre @ TBegin nm # prop_toks ps) t (forest_toks ts' @ TEnd # post)"
proof -
  obtain m1 m2 m3 n e where k: "edit_inv fdt" "edit_toks fdt 0 pre o'" "tok_in (fin_name fdt) fdt o' (TBegin nm) m1"
    "edit_toks fdt m1 (prop_toks ps) m2" "edit_toks fdt m2 (forest_toks ts) m3" "tok_in (fin_name fdt) fdt m3 TEnd n"
    "edit_toks fdt n post e" "ends_at fdt e" "o' mod 4 = 0" "m1 mod 4 = 0" "m2 mod 4 = 0" "m3 mod 4 = 0" "0 \<le> o'" "o' + 4 \<le> m1"
    "m1 \<le> m2" "m2 \<le> m3" "n = m3 + 4" "n \<le> uint (hdr fdt 36)"
    using assms by (rule node_treeE)
  note blk = edit_inv_blk [OF k(1)]
  have start: "fdt_next_node fdt o' (Some 0) = next_node_loop fdt m2 (Some 0)"
    using next_node_at [OF blk k(3,9)] next_node_loop_props [OF blk _ _ k(4,10), of 0] by simp
  show ?thesis
  proof (cases ts)
    case Nil
    then have "m2 = m3" using k(5) by simp
    then show ?thesis
      using Nil start next_node_loop_at [OF blk k(6,12), of 0] by (simp add: fdt_first_subnode_def)
  next
    case (Cons t ts')
    obtain j where "tok_in (fin_name fdt) fdt m2 (TBegin (node_name t)) j"
      using k(5) Cons by (cases t) (auto simp: toks_in_append simp del: tok_in.simps)
    from next_node_loop_at [OF blk this k(11), of 0] have "fdt_first_subnode fdt o' = Some m2"
      using start k by (simp add: fdt_first_subnode_def)
    moreover have "edit_toks fdt 0 (pre @ TBegin nm # prop_toks ps) m2"
      using k(2-4) by (auto simp: toks_in_append simp del: tok_in.simps)
    moreover have "tree_toks fdt ((pre @ TBegin nm # prop_toks ps) @ tokens t @ (forest_toks ts' @ TEnd # post))"
      using node_tree_tree [OF assms] Cons by simp
    ultimately show ?thesis
      using Cons node_of_tree_toks by auto
  qed
qed

lemma next_subnode_at:
  assumes "node_tree fdt o' (pre @ TBegin nm # prop_toks ps @ forest_toks ts1) t (forest_toks ts2 @ TEnd # post)"
  shows "case ts2 of
      [] \<Rightarrow> fdt_next_subnode fdt o' = Some (- FDT_ERR_NOTFOUND)
    | u # ts3 \<Rightarrow> \<exists>p. fdt_next_subnode fdt o' = Some p \<and>
        node_tree fdt p (pre @ TBegin nm # prop_toks ps @ forest_toks (ts1 @ [t])) u (forest_toks ts3 @ TEnd # post)"
proof (cases t)
  case (Node tn tp tc)
  from assms [unfolded Node] obtain m1 m2 m3 n e where k: "edit_inv fdt" "edit_toks fdt 0 (pre @ TBegin nm # prop_toks ps @ forest_toks ts1) o'"
    "tok_in (fin_name fdt) fdt o' (TBegin tn) m1" "edit_toks fdt m1 (prop_toks tp) m2" "edit_toks fdt m2 (forest_toks tc) m3"
    "tok_in (fin_name fdt) fdt m3 TEnd n" "edit_toks fdt n (forest_toks ts2 @ TEnd # post) e" "ends_at fdt e"
    "o' mod 4 = 0" "m1 mod 4 = 0" "m2 mod 4 = 0" "m3 mod 4 = 0" "0 \<le> o'" "o' + 4 \<le> m1"
    "m1 \<le> m2" "m2 \<le> m3" "n = m3 + 4" "n \<le> uint (hdr fdt 36)"
    by (rule node_treeE)
  note blk = edit_inv_blk [OF k(1)]
  have "1 + (m3 - m2) < 2147483647" using k edit_inv_sizes(10) [OF k(1)] by linarith
  then have "ss.onward fdt m2 1 = ss.onward fdt m3 1" by (intro ss.skip_tree(2) [OF blk k(5,11)]) simp_all
  then have eq: "fdt_next_subnode fdt o' = ss.onward fdt n 0"
    using next_node_at [OF blk k(3,9), of "Some 1"] ss.onward_props [OF blk _ _ k(4,10), of 1] ss.onward_end [OF blk k(6,12), of 1]
    by (simp add: fdt_next_subnode_def next_subnode_loop_stop ss.onward_def)
  have al: "n mod 4 = 0" by (rule tok_at_aligned [OF k(6,12)])
  show ?thesis
  proof (cases ts2)
    case Nil
    then obtain j where "tok_in (fin_name fdt) fdt n TEnd j" using k(7) by (auto simp del: tok_in.simps)
    then show ?thesis using Nil eq ss.onward_end [OF blk _ al, of _ j 0] by (simp add: subnode_stop_def)
  next
    case (Cons u ts3)
    obtain j where j: "tok_in (fin_name fdt) fdt n (TBegin (node_name u)) j"
      using k(7) Cons by (cases u) (auto simp: toks_in_append simp del: tok_in.simps)
    have "fdt_next_subnode fdt o' = Some n"
      using eq ss.onward_begin [OF blk j al, of 0] k by (simp add: subnode_stop_def)
    moreover have "edit_toks fdt o' (tokens t) n"
      using k(3-6) Node by (auto simp: toks_in_append simp del: tok_in.simps)
    then have "edit_toks fdt 0 (pre @ TBegin nm # prop_toks ps @ forest_toks (ts1 @ [t])) n"
      using k(2) toks_in_append [of "fin_name fdt" fdt 0 "pre @ TBegin nm # prop_toks ps @ forest_toks ts1" "tokens t"] by auto
    moreover have "tree_toks fdt ((pre @ TBegin nm # prop_toks ps @ forest_toks (ts1 @ [t])) @ tokens u @ (forest_toks ts3 @ TEnd # post))"
      using node_tree_tree [OF assms] Cons by simp
    ultimately show ?thesis
      using Cons node_of_tree_toks by auto
  qed
qed

text \<open>The nodes \<open>ts\<close> follow each other, at the offsets \<open>os\<close>, between the tokens \<open>pre\<close> and \<open>post\<close>.\<close>

fun nodes_at :: "fdt \<Rightarrow> token list \<Rightarrow> int list \<Rightarrow> dtree list \<Rightarrow> token list \<Rightarrow> bool" where
  "nodes_at fdt pre [] [] post \<longleftrightarrow> True"
| "nodes_at fdt pre (o' # os) (t # ts) post \<longleftrightarrow> node_tree fdt o' pre t (forest_toks ts @ post) \<and> nodes_at fdt (pre @ tokens t) os ts post"
| "nodes_at _ _ _ _ _ \<longleftrightarrow> False"

lemma for_each_next_subnode:
  "node_tree fdt o' (pre @ TBegin nm # prop_toks ps @ forest_toks ts1) t (forest_toks ts2 @ TEnd # post) \<Longrightarrow>
   \<exists>os. for_each fdt_next_subnode fdt o' = Some os \<and>
     nodes_at fdt (pre @ TBegin nm # prop_toks ps @ forest_toks ts1) os (t # ts2) (TEnd # post)"
proof (induction ts2 arbitrary: o' ts1 t)
  case Nil
  have "0 \<le> o'" using Nil tokens_bounds [of "fin_name fdt" fdt o' t] by (auto simp: node_tree_def)
  then have "for_each fdt_next_subnode fdt o' = Some [o']"
    using next_subnode_at [OF Nil] by (simp add: for_each.simps [of _ fdt o'] for_each.simps [of _ fdt "- 1"])
  then show ?case using Nil by simp
next
  case (Cons u ts3)
  have "0 \<le> o'" using Cons.prems tokens_bounds [of "fin_name fdt" fdt o' t] by (auto simp: node_tree_def)
  obtain p where p: "fdt_next_subnode fdt o' = Some p"
    "node_tree fdt p (pre @ TBegin nm # prop_toks ps @ forest_toks (ts1 @ [t])) u (forest_toks ts3 @ TEnd # post)"
    using next_subnode_at [OF Cons.prems] by auto
  obtain os where os: "for_each fdt_next_subnode fdt p = Some os"
    "nodes_at fdt (pre @ TBegin nm # prop_toks ps @ forest_toks (ts1 @ [t])) os (u # ts3) (TEnd # post)"
    using Cons.IH [OF p(2)] by blast
  have "for_each fdt_next_subnode fdt o' = Some (o' # os)"
    using \<open>0 \<le> o'\<close> p(1) os(1) by (simp add: for_each.simps [of _ fdt o'])
  moreover have "nodes_at fdt (pre @ TBegin nm # prop_toks ps @ forest_toks ts1) (o' # os) (t # u # ts3) (TEnd # post)"
    using Cons.prems os(2) by simp
  ultimately show ?case by blast
qed

section \<open>Properties\<close>

lemma slack_tree: "node_tree slack_fdt 0 [] (Node [] [([97], [1])] []) []"
  using slack_node by (simp add: node_tree_toks)

text \<open>A blob whose root has one child, made by one call.\<close>

lemma slack_child:
  obtains off fdt' where "fdt_add_subnode slack_fdt 0 [98] = Some (off, fdt')" "node_tree fdt' 0 [] (Node [] [([97], [1])] [Node [98] [] []]) []"
    "node_tree fdt' off ([] @ TBegin [] # prop_toks [([97], [1])] @ forest_toks []) (Node [98] [] []) (forest_toks [] @ TEnd # [])"
proof -
  have p: "\<forall>u \<in> set []. \<not> name_matches [98] (node_name u)" "0 \<notin> set [98 :: u8]" "int (length [98 :: u8]) < 2147483632" by simp_all
  show thesis
  proof (cases rule: add_subnode_tree [OF slack_tree p])
    case 1
    then show thesis by (simp add: slack_room round4_def)
  next
    case (2 off fdt')
    moreover have "node_tree fdt' 0 [] (Node [] [([97], [1])] [Node [98] [] []]) []"
      using 2(4) by (intro node_of_tree_toks [of _ _ _ _ slack_fdt]) simp_all
    ultimately show thesis
      using node_of_tree_toks [OF 2(4,3)] that by simp
  qed
qed

text \<open>\<^verbatim>\<open>fdt_subnode_offset\<close> on a node of a blob open for editing returns the offset of its first child whose name is the given one,
  with or without a unit address where none is given, and \<^verbatim>\<open>-FDT_ERR_NOTFOUND\<close> exactly where the node has no such child; nodes deeper
  in the tree and nodes behind it are never found.\<close>

theorem fdt_subnode_offset_correct:
  assumes "node_tree fdt o' pre (Node nm ps ts) post"
  shows "if \<forall>u \<in> set ts. \<not> name_matches s (node_name u) then fdt_subnode_offset fdt o' s = Some (- FDT_ERR_NOTFOUND)
    else \<exists>ts1 t ts2 p. ts = ts1 @ t # ts2 \<and> (\<forall>u \<in> set ts1. \<not> name_matches s (node_name u)) \<and> name_matches s (node_name t) \<and>
      fdt_subnode_offset fdt o' s = Some p \<and>
      node_tree fdt p (pre @ TBegin nm # prop_toks ps @ forest_toks ts1) t (forest_toks ts2 @ TEnd # post)"
proof (cases rule: subnode_offset_at [OF assms, of s])
  case (1 ts1 t ts2 p)
  then have "\<not> (\<forall>u \<in> set ts. \<not> name_matches s (node_name u))" by auto
  then show ?thesis using 1 unfolding fdt_subnode_offset_def by (simp only: if_False) blast
next
  case 2
  then show ?thesis by (simp add: fdt_subnode_offset_def)
qed

theorem fdt_subnode_offset_correct_witness:
  "\<exists>off fdt' p. fdt_add_subnode slack_fdt 0 [98] = Some (off, fdt') \<and> fdt_subnode_offset fdt' 0 [98] = Some p \<and>
    fdt_subnode_offset fdt' 0 [99] = Some (- FDT_ERR_NOTFOUND)"
proof -
  obtain off fdt' where a: "fdt_add_subnode slack_fdt 0 [98] = Some (off, fdt')" "node_tree fdt' 0 [] (Node [] [([97], [1])] [Node [98] [] []]) []"
    by (rule slack_child)
  have "name_matches [98] [98]" "\<not> name_matches [99] [98]" by (simp_all add: name_matches_def)
  then show ?thesis
    using a(1) fdt_subnode_offset_correct [OF a(2), of "[98]"] fdt_subnode_offset_correct [OF a(2), of "[99]"] by auto
qed

text \<open>C12: \<^verbatim>\<open>fdt_add_subnode\<close> on a node of a blob open for editing returns \<^verbatim>\<open>-FDT_ERR_EXISTS\<close> exactly where a child of that name is
  there; otherwise \<^verbatim>\<open>-FDT_ERR_NOSPACE\<close>, only where the free bytes do not hold the node, or the offset of a new empty child in front of
  the other children.  All other nodes and properties stay, and \<^verbatim>\<open>fdt_subnode_offset\<close> finds the new child by its name.  On an error the
  blob is untouched.\<close>

theorem fdt_add_subnode_refines:
  assumes "node_tree fdt o' pre (Node nm ps ts) post" "0 \<notin> set name" "int (length name) < 2147483632"
  shows "if \<exists>u \<in> set ts. name_matches name (node_name u) then fdt_add_subnode fdt o' name = Some (- FDT_ERR_EXISTS, fdt)
    else fdt_add_subnode fdt o' name = Some (- FDT_ERR_NOSPACE, fdt) \<and> edit_room fdt < 8 + round4 (int (length name) + 1)
      \<or> (\<exists>off fdt'. fdt_add_subnode fdt o' name = Some (off, fdt') \<and> node_tree fdt' o' pre (Node nm ps (Node name [] [] # ts)) post \<and>
          node_tree fdt' off (pre @ TBegin nm # prop_toks ps) (Node name [] []) (forest_toks ts @ TEnd # post) \<and>
          fdt_subnode_offset fdt' o' name = Some off)"
proof (cases "\<exists>u \<in> set ts. name_matches name (node_name u)")
  case True
  have inv: "edit_inv fdt" using assms(1) by (simp add: node_tree_def)
  obtain p where "fdt_subnode_offset_namelen fdt o' name = Some p" "0 \<le> p"
    using True by (cases rule: subnode_offset_at [OF assms(1), of name]) auto
  then show ?thesis
    using True edit_probe(2) [OF inv] by (simp add: fdt_add_subnode_def fdt_add_subnode_namelen_def FDT_RW_PROBE_def)
next
  case False
  then have "\<forall>u \<in> set ts. \<not> name_matches name (node_name u)" by simp
  from assms(1) this assms(2,3) show ?thesis
  proof (cases rule: add_subnode_tree)
    case 1
    then show ?thesis using False by simp
  next
    case (2 off fdt')
    have pre: "edit_toks fdt 0 pre o'" using assms(1) by (auto simp: node_tree_def)
    have parent: "node_tree fdt' o' pre (Node nm ps (Node name [] [] # ts)) post"
      using 2(4) by (intro node_of_tree_toks [OF _ pre]) simp
    have child: "node_tree fdt' off (pre @ TBegin nm # prop_toks ps) (Node name [] []) (forest_toks ts @ TEnd # post)"
      by (rule node_of_tree_toks [OF 2(4,3)])
    have "fdt_subnode_offset fdt' o' name = Some off"
    proof (cases rule: subnode_offset_at [OF parent, of name])
      case (1 ts1 t ts2 p)
      then have "ts1 = []" by (cases ts1) (auto simp: name_matches_def)
      then have "edit_toks fdt' 0 (pre @ TBegin nm # prop_toks ps) p"
        using 1(6) by (auto simp: node_tree_def simp del: tokens.simps)
      then have "p = off" using 2(3) by (rule toks_in_end)
      then show ?thesis using 1(4) by (simp add: fdt_subnode_offset_def)
    qed (simp add: name_matches_def)
    then show ?thesis using False 2(1) parent child by auto
  qed
qed

theorem fdt_add_subnode_refines_witness:
  "\<exists>off fdt'. fdt_add_subnode slack_fdt 0 [98] = Some (off, fdt') \<and>
    node_tree fdt' 0 [] (Node [] [([97], [1])] [Node [98] [] []]) [] \<and> fdt_subnode_offset fdt' 0 [98] = Some off"
  using fdt_add_subnode_refines [OF slack_tree, of "[98]"] by (auto simp: slack_room round4_def)

text \<open>\<^verbatim>\<open>fdt_del_node\<close> on a child of a node of a blob open for editing always succeeds and removes the child with everything below
  it: the parent, at its old offset, has the other children in their old order, and the tokens around the parent stay.\<close>

theorem fdt_del_node_refines:
  assumes "node_tree fdt o' (pre @ TBegin nm # prop_toks ps @ forest_toks ts1) t (forest_toks ts2 @ TEnd # post)"
  shows "\<exists>q fdt'. node_tree fdt q pre (Node nm ps (ts1 @ t # ts2)) post \<and> fdt_del_node fdt o' = Some (0, fdt') \<and>
    node_tree fdt' q pre (Node nm ps (ts1 @ ts2)) post"
proof -
  obtain fdt' where f: "fdt_del_node fdt o' = Some (0, fdt')"
    "tree_toks fdt' ((pre @ TBegin nm # prop_toks ps @ forest_toks ts1) @ (forest_toks ts2 @ TEnd # post))"
    using del_node_toks [OF assms] by blast
  have "tree_toks fdt (pre @ tokens (Node nm ps (ts1 @ t # ts2)) @ post)"
    using node_tree_tree [OF assms] by simp
  moreover obtain q where q: "edit_toks fdt 0 pre q"
    using assms by (auto simp: node_tree_def toks_in_append)
  ultimately have "node_tree fdt q pre (Node nm ps (ts1 @ t # ts2)) post" by (intro node_of_tree_toks)
  moreover have "node_tree fdt' q pre (Node nm ps (ts1 @ ts2)) post"
    using f(2) by (intro node_of_tree_toks [OF _ q]) simp
  ultimately show ?thesis using f(1) by blast
qed

theorem fdt_del_node_refines_witness:
  "\<exists>off fdt' q fdt''. fdt_add_subnode slack_fdt 0 [98] = Some (off, fdt') \<and> fdt_del_node fdt' off = Some (0, fdt'') \<and>
    node_tree fdt'' q [] (Node [] [([97], [1])] []) []"
proof -
  obtain off fdt' where a: "fdt_add_subnode slack_fdt 0 [98] = Some (off, fdt')"
    "node_tree fdt' off ([] @ TBegin [] # prop_toks [([97], [1])] @ forest_toks []) (Node [98] [] []) (forest_toks [] @ TEnd # [])"
    by (rule slack_child)
  from fdt_del_node_refines [OF a(2)] a(1) show ?thesis by auto
qed

text \<open>The loop \<^verbatim>\<open>fdt_for_each_subnode\<close> over a node of a blob open for editing ends and visits exactly the children of the node,
  in their order, each at the offset where it starts.\<close>

theorem fdt_for_each_subnode_children:
  assumes "node_tree fdt o' pre (Node nm ps ts) post"
  shows "\<exists>os. fdt_for_each_subnode fdt o' = Some os \<and> nodes_at fdt (pre @ TBegin nm # prop_toks ps) os ts (TEnd # post)"
proof (cases ts)
  case Nil
  then show ?thesis
    using first_subnode_at [OF assms] by (simp add: fdt_for_each_subnode_def for_each.simps [of _ fdt "- 1"])
next
  case (Cons t ts')
  then obtain p where p: "fdt_first_subnode fdt o' = Some p"
    "node_tree fdt p (pre @ TBegin nm # prop_toks ps @ forest_toks []) t (forest_toks ts' @ TEnd # post)"
    using first_subnode_at [OF assms] by auto
  from for_each_next_subnode [OF p(2)] p(1) Cons show ?thesis
    by (simp add: fdt_for_each_subnode_def)
qed

theorem fdt_for_each_subnode_children_witness:
  "\<exists>off fdt' p. fdt_add_subnode slack_fdt 0 [98] = Some (off, fdt') \<and> fdt_for_each_subnode fdt' 0 = Some [p] \<and>
    node_tree fdt' p [TBegin [], TProp [97] [1]] (Node [98] [] []) [TEnd]"
proof -
  obtain off fdt' where a: "fdt_add_subnode slack_fdt 0 [98] = Some (off, fdt')" "node_tree fdt' 0 [] (Node [] [([97], [1])] [Node [98] [] []]) []"
    by (rule slack_child)
  obtain os where os: "fdt_for_each_subnode fdt' 0 = Some os" "nodes_at fdt' [TBegin [], TProp [97] [1]] os [Node [98] [] []] [TEnd]"
    using fdt_for_each_subnode_children [OF a(2)] by auto
  obtain p where "os = [p]"
    using os(2) by (cases os; cases "tl os") auto
  then show ?thesis using a(1) os by auto
qed

end
