(* ===== verification/Fdt_Accept.thy ===== *)
theory Fdt_Accept
  imports Fdt_Build Fdt_Nodes
begin

unbundle bit_operations_syntax

text \<open>
  Blobs that hold a tree are accepted by \<^verbatim>\<open>fdt_check_full\<close>: the walk over the tokens of a tree raises no error, and the header of a
  blob in order, with its blocks aligned, passes \<^verbatim>\<open>fdt_check_header\<close>.
\<close>

section \<open>The walk of the full check\<close>

lemma check_tok:
  assumes inv: "edit_inv fdt" and t: "tok_in (fin_name fdt) fdt m t n" and al: "m mod 4 = 0" and d: "uint d < 2147483646"
  shows "check_full_loop fdt m d False = (case t of
      TProp _ _ \<Rightarrow> check_full_loop fdt n d False
    | TBegin nm \<Rightarrow> if d = 0 \<and> nm \<noteq> [] then Some (- FDT_ERR_BADSTRUCTURE) else check_full_loop fdt n (d + 1) False
    | TEnd \<Rightarrow> if d = 0 then Some (- FDT_ERR_BADSTRUCTURE) else check_full_loop fdt n (d - 1) (d = 1))"
proof -
  have n: "0 \<le> n" using tok_in_bounds [OF t] by auto
  have tag: "fdt_next_tag fdt m = Some (tag_of t, n)" by (rule next_tag_at [OF edit_inv_blk [OF inv] t al])
  have d1: "uint (d + 1) = uint d + 1" using d by (intro uint_u32_sum) simp_all
  show ?thesis
  proof (cases t)
    case (TBegin nm)
    have "fdt_get_name fdt m = Some (Inr (uint (hdr fdt 8) + m + 4, int (length nm)))"
      using get_name_at [OF inv t [unfolded TBegin] al] .
    moreover have "\<exists>c. rd8 fdt (uint (hdr fdt 8) + m + 4) = Some c \<and> (c = 0 \<longleftrightarrow> nm = [])"
      using t TBegin by (cases nm) (auto simp: bytes_at_Cons)
    ultimately show ?thesis
      using tag n d d1 TBegin by (subst check_full_loop.simps) auto
  next
    case TEnd
    then show ?thesis
      using tag n by (subst check_full_loop.simps) (auto simp: eq_diff_eq)
  next
    case (TProp nm v)
    have "\<exists>p q. fdt_getprop_by_offset fdt m = Some (Inr (q, p, int (length v))) \<and> bytes_at fdt p (nm @ [0]) \<and> bytes_at fdt q v"
      by (rule getprop_in [OF edit_inv_blk [OF inv] t [unfolded TProp] al edit_strings_found [OF inv]])
    then show ?thesis
      using tag n TProp by (subst check_full_loop.simps) auto
  qed
qed

lemma check_props:
  assumes "edit_inv fdt" "uint d < 2147483646"
  shows "edit_toks fdt m (prop_toks ps) n \<Longrightarrow> m mod 4 = 0 \<Longrightarrow> check_full_loop fdt m d False = check_full_loop fdt n d False"
proof (induction ps arbitrary: m)
  case (Cons p ps)
  then obtain nm v k where p: "p = (nm, v)" "tok_in (fin_name fdt) fdt m (TProp nm v) k" "edit_toks fdt k (prop_toks ps) n"
    by (cases p) (auto simp del: tok_in.simps)
  then show ?case
    using Cons check_tok [OF assms(1) p(2) _ assms(2)] tok_at_aligned [OF p(2)] by (simp del: tok_in.simps)
qed simp

lemma check_tree:
  assumes inv: "edit_inv fdt"
  shows "edit_toks fdt m (tokens t) n \<Longrightarrow> m mod 4 = 0 \<Longrightarrow> d \<noteq> 0 \<Longrightarrow> uint d + (n - m) < 2147483646
    \<Longrightarrow> check_full_loop fdt m d False = check_full_loop fdt n d False"
proof (induction t arbitrary: m n d)
  case (Node nm ps ts)
  obtain m1 m2 m3 where k: "tok_in (fin_name fdt) fdt m (TBegin nm) m1" "edit_toks fdt m1 (prop_toks ps) m2"
    "edit_toks fdt m2 (forest_toks ts) m3" "tok_in (fin_name fdt) fdt m3 TEnd n"
    using Node.prems(1) by (auto simp: toks_in_append simp del: tok_in.simps)
  have al: "m1 mod 4 = 0" "m2 mod 4 = 0" "m3 mod 4 = 0"
    using tok_at_aligned [OF k(1)] toks_in_aligned [OF k(2)] toks_in_aligned [OF k(3)] Node.prems(2) by auto
  have b: "m + 4 \<le> m1" "m1 \<le> m2" "m2 \<le> m3" "m3 + 4 \<le> n"
    using tok_in_bounds [OF k(1)] toks_in_le [OF k(2)] toks_in_le [OF k(3)] tok_in_bounds [OF k(4)] by auto
  have "uint (d + 1) = uint d + 1" using b Node.prems(4) by (intro uint_u32_sum) (rule refl, simp, linarith)
  then have d: "uint d < 2147483646" "uint (d + 1) < 2147483646" "uint (d + 1) + (m3 - m2) < 2147483646" "d + 1 \<noteq> 0"
    using b Node.prems(4) uint_ge_0 [of d] by (linarith | force)+
  have "check_full_loop fdt m2 (d + 1) False = check_full_loop fdt m3 (d + 1) False"
    by (rule forest_walk [where F = "\<lambda>m. check_full_loop fdt m (d + 1) False", OF _ k(3) al(2) d(3)])
      (rule Node.IH [OF _ _ _ d(4)])
  then show ?case
    using check_tok [OF inv k(1) Node.prems(2) d(1)] check_props [OF inv d(2) k(2) al(1)] check_tok [OF inv k(4) al(3) d(2)] Node.prems(3) d(4)
    by (simp del: tok_in.simps)
qed

lemma check_root:
  assumes inv: "edit_inv fdt" and t: "edit_toks fdt 0 (tokens (Node [] ps ts)) e" and fin: "ends_at fdt e"
  shows "check_full_loop fdt 0 0 False = Some 0"
proof -
  obtain m1 m2 m3 where k: "tok_in (fin_name fdt) fdt 0 (TBegin []) m1" "edit_toks fdt m1 (prop_toks ps) m2"
    "edit_toks fdt m2 (forest_toks ts) m3" "tok_in (fin_name fdt) fdt m3 TEnd e"
    using t by (auto simp: toks_in_append simp del: tok_in.simps)
  have al: "m1 mod 4 = 0" "m2 mod 4 = 0" "m3 mod 4 = 0" "e mod 4 = 0"
    using tok_at_aligned [OF k(1)] toks_in_aligned [OF k(2)] toks_in_aligned [OF k(3)] tok_at_aligned [OF k(4)] by auto
  have b: "0 \<le> m1" "m1 \<le> m2" "m2 \<le> m3" "m3 + 4 \<le> e" "e + 4 \<le> uint (hdr fdt 36)"
    using tok_in_bounds [OF k(1)] toks_in_le [OF k(2)] toks_in_le [OF k(3)] tok_in_bounds [OF k(4)] fin by (auto simp: ends_at_def)
  then have "uint (1 :: u32) + (m3 - m2) < 2147483646"
    using edit_inv_sizes(10) [OF inv] by simp
  then have small: "uint (1 :: u32) + (m3 - m2) < 2147483646" .
  have "check_full_loop fdt m2 1 False = check_full_loop fdt m3 1 False"
    by (rule forest_walk [where F = "\<lambda>m. check_full_loop fdt m 1 False", OF _ k(3) al(2) small])
      (rule check_tree [OF inv]; simp)
  moreover have "fdt_next_tag fdt e = Some (FDT_END, e + 4)"
    using b fin al(4) by (intro next_tag_end [OF edit_inv_blk [OF inv]]) (auto simp: ends_at_def)
  then have "check_full_loop fdt e 0 True = Some 0"
    using b by (subst check_full_loop.simps) simp
  ultimately show ?thesis
    using check_tok [OF inv k(1), of 0] check_props [OF inv _ k(2) al(1), of 1] check_tok [OF inv k(4) al(3), of 1]
    by (simp del: tok_in.simps)
qed

section \<open>The header\<close>

definition blocks_aligned :: "fdt \<Rightarrow> bool" where
  "blocks_aligned fdt \<longleftrightarrow> uint (hdr fdt 16) mod 8 = 0 \<and> uint (hdr fdt 8) mod 4 = 0"

lemma header_size_17: "fdt_header_size' 17 = 40"
  by code_simp

lemma check_header_at:
  assumes h: "holds_open fdt rs ts" and al: "blocks_aligned fdt"
  shows "fdt_check_header fdt = Some 0"
proof -
  have inv: "edit_inv fdt" and o: "in_order fdt (rsv_size rs)" and h': "holds fdt rs ts"
    using h holds_open_inv by (auto simp: holds_open_def)
  note S = edit_inv_sizes [OF inv]
  have len: "40 \<le> length (fdt_bytes fdt)" using edit_inv_buffer [OF inv] by (simp add: fdt_buffer_def)
  have a: "uint (hdr fdt 8 + hdr fdt 36) = uint (hdr fdt 8) + uint (hdr fdt 36)"
    using S by (intro uint_u32_sum refl) linarith
  have b: "uint (hdr fdt 12 + hdr fdt 32) = uint (hdr fdt 12) + uint (hdr fdt 32)"
    using S by (intro uint_u32_sum refl) linarith
  have "uint (hdr fdt 16 mod 8) = 0" "uint (hdr fdt 8 mod 4) = 0"
    using al by (simp_all add: blocks_aligned_def uint_mod)
  then have m: "hdr fdt 16 mod 8 = 0" "hdr fdt 8 mod 4 = 0"
    by (simp_all only: uint_0_iff)
  have z: "40 \<le> uint (hdr fdt 4)" "40 \<le> uint (hdr fdt 16)" "uint (hdr fdt 16) \<le> uint (hdr fdt 4)"
    "40 \<le> uint (hdr fdt 8)" "uint (hdr fdt 8) \<le> uint (hdr fdt 4)" "40 \<le> uint (hdr fdt 8) + uint (hdr fdt 36)"
    "uint (hdr fdt 8) + uint (hdr fdt 36) \<le> uint (hdr fdt 4)" "40 \<le> uint (hdr fdt 12)" "uint (hdr fdt 12) \<le> uint (hdr fdt 4)"
    "40 \<le> uint (hdr fdt 12) + uint (hdr fdt 32)" "uint (hdr fdt 12) + uint (hdr fdt 32) \<le> uint (hdr fdt 4)"
    using S by linarith+
  have c: "\<not> hdr fdt 4 < 40" "\<not> uint (hdr fdt 4) > INT_MAX" "check_off' 40 (hdr fdt 4) (hdr fdt 16)"
    "check_block' 40 (hdr fdt 4) (hdr fdt 8) (hdr fdt 36)" "check_block' 40 (hdr fdt 4) (hdr fdt 12) (hdr fdt 32)"
    using z S(3) a b by (simp_all add: word_less_def word_le_def check_off'_def check_block'_def)
  have v: "hdr fdt 20 = 17" "hdr fdt 24 \<le> 17" "fdt_addr fdt AND 7 = 0" "hdr fdt 0 = FDT_MAGIC"
    using h' by (simp_all add: holds_def blk_inv_def)
  show ?thesis
    using c m v by (simp add: fdt_check_header_def hdr_fields [OF len] fdt_header_size_def header_size_17 not_less)
qed

lemma check_full_at:
  assumes h: "holds_open fdt rs (tokens (Node [] ps ts))" and al: "blocks_aligned fdt" and sz: "uint (hdr fdt 4) \<le> uint bufsize"
  shows "fdt_check_full fdt bufsize = Some 0"
proof -
  have inv: "edit_inv fdt" and h': "holds fdt rs (tokens (Node [] ps ts))"
    using h holds_open_inv by (auto simp: holds_open_def)
  obtain e where e: "edit_toks fdt 0 (tokens (Node [] ps ts)) e" "ends_at fdt e"
    using h' by (auto simp: holds_def)
  have len: "40 \<le> length (fdt_bytes fdt)" using edit_inv_buffer [OF inv] by (simp add: fdt_buffer_def)
  have "56 \<le> uint (hdr fdt 4)" using edit_inv_sizes [OF inv] by linarith
  then have b: "\<not> bufsize < 28" "\<not> bufsize < 40" "\<not> bufsize < ucast (hdr fdt 4)"
    using sz by (simp_all add: word_less_def)
  have "hdr fdt 20 = 17" using h' by (simp add: holds_def blk_inv_def)
  then show ?thesis
    using b check_header_at [OF h al] num_mem_rsv_at [OF h'] check_root [OF inv e]
    by (simp add: fdt_check_full_def hdr_fields [OF len] fdt_header_size_def header_size_17)
qed

text \<open>C19: The full check accepts every blob that holds a tree with a nameless root, its blocks in order and aligned, when it is given
  a buffer size that covers the blob.\<close>

theorem fdt_check_full_complete:
  assumes "holds_open fdt rs (tokens (Node [] ps ts))" "blocks_aligned fdt" "uint (hdr fdt 4) \<le> uint bufsize"
  shows "fdt_check_full fdt bufsize = Some 0"
  by (rule check_full_at [OF assms])

theorem fdt_check_full_complete_witness: "fdt_check_full slack_fdt 128 = Some 0"
  using fdt_check_full_complete [of slack_fdt "[]" "[([97], [1])]" "[]" 128] slack_holds
  by (simp add: slack_hdr blocks_aligned_def)

end
