(* ===== verification/Cstring.thy ===== *)
theory Cstring
  imports Prelude
begin

text \<open>
  The freestanding string library \<^verbatim>\<open>lib/mylib/string/string.c\<close> on the byte memory. Pointers
  advance modulo \<open>2 ^ 64\<close>; \<^verbatim>\<open>char\<close> is unsigned on the target. Loops bounded by a count are
  structural recursions on the count; the loops that run to a terminating zero byte need not
  end and are partial functions into \<open>option\<close>.
\<close>

section \<open>Counted loops\<close>

fun memcpy_loop :: "mem \<Rightarrow> ptr \<Rightarrow> ptr \<Rightarrow> nat \<Rightarrow> mem" where
  "memcpy_loop m d s 0 = m"
| "memcpy_loop m d s (Suc n) = memcpy_loop (st8 m d (ld8 m s)) (d + 1) (s + 1) n"

definition memcpy :: "mem \<Rightarrow> ptr \<Rightarrow> ptr \<Rightarrow> size_t \<Rightarrow> mem" where
  "memcpy m dest src n = memcpy_loop m dest src (unat n)"

fun memset_loop :: "mem \<Rightarrow> ptr \<Rightarrow> u8 \<Rightarrow> nat \<Rightarrow> mem" where
  "memset_loop m p c 0 = m"
| "memset_loop m p c (Suc n) = memset_loop (st8 m p c) (p + 1) c n"

definition memset :: "mem \<Rightarrow> ptr \<Rightarrow> u32 \<Rightarrow> size_t \<Rightarrow> mem" where
  "memset m s c n = memset_loop m s (ucast c) (unat n)"

fun memmove_down :: "mem \<Rightarrow> ptr \<Rightarrow> ptr \<Rightarrow> nat \<Rightarrow> mem" where
  "memmove_down m d s 0 = m"
| "memmove_down m d s (Suc n) =
     (let d = d - 1; s = s - 1 in memmove_down (st8 m d (ld8 m s)) d s n)"

definition memmove :: "mem \<Rightarrow> ptr \<Rightarrow> ptr \<Rightarrow> size_t \<Rightarrow> mem" where
  "memmove m dest src n =
     (if dest < src then memcpy_loop m dest src (unat n)
      else memmove_down m (dest + n) (src + n) (unat n))"

fun memcmp_loop :: "mem \<Rightarrow> ptr \<Rightarrow> ptr \<Rightarrow> nat \<Rightarrow> int" where
  "memcmp_loop m p1 p2 0 = 0"
| "memcmp_loop m p1 p2 (Suc n) =
     (if ld8 m p1 \<noteq> ld8 m p2 then uint (ld8 m p1) - uint (ld8 m p2)
      else memcmp_loop m (p1 + 1) (p2 + 1) n)"

definition memcmp :: "mem \<Rightarrow> ptr \<Rightarrow> ptr \<Rightarrow> size_t \<Rightarrow> int" where
  "memcmp m s1 s2 n = memcmp_loop m s1 s2 (unat n)"

fun memchr_loop :: "mem \<Rightarrow> ptr \<Rightarrow> u8 \<Rightarrow> nat \<Rightarrow> ptr" where
  "memchr_loop m p c 0 = NULL"
| "memchr_loop m p c (Suc n) = (if ld8 m p = c then p else memchr_loop m (p + 1) c n)"

definition memchr :: "mem \<Rightarrow> ptr \<Rightarrow> u32 \<Rightarrow> size_t \<Rightarrow> ptr" where
  "memchr m s c n = memchr_loop m s (ucast c) (unat n)"

fun strnlen_loop :: "mem \<Rightarrow> ptr \<Rightarrow> size_t \<Rightarrow> nat \<Rightarrow> size_t" where
  "strnlen_loop m s len 0 = len"
| "strnlen_loop m s len (Suc k) =
     (if ld8 m (s + len) \<noteq> 0 then strnlen_loop m s (len + 1) k else len)"

definition strnlen :: "mem \<Rightarrow> ptr \<Rightarrow> size_t \<Rightarrow> size_t" where
  "strnlen m s maxlen = strnlen_loop m s 0 (unat maxlen)"

text \<open>
  \<^verbatim>\<open>strncpy\<close>: the first loop copies until the count is spent or a zero byte is met and hands
  the index to the second, which pads with zeros.
\<close>

fun strncpy_pad :: "mem \<Rightarrow> ptr \<Rightarrow> size_t \<Rightarrow> nat \<Rightarrow> mem" where
  "strncpy_pad m dest i 0 = m"
| "strncpy_pad m dest i (Suc k) = strncpy_pad (st8 m (dest + i) 0) dest (i + 1) k"

fun strncpy_copy :: "mem \<Rightarrow> ptr \<Rightarrow> ptr \<Rightarrow> size_t \<Rightarrow> nat \<Rightarrow> mem" where
  "strncpy_copy m dest src i 0 = m"
| "strncpy_copy m dest src i (Suc k) =
     (if ld8 m (src + i) \<noteq> 0
      then strncpy_copy (st8 m (dest + i) (ld8 m (src + i))) dest src (i + 1) k
      else strncpy_pad m dest i (Suc k))"

definition strncpy :: "mem \<Rightarrow> ptr \<Rightarrow> ptr \<Rightarrow> size_t \<Rightarrow> mem" where
  "strncpy m dest src n = strncpy_copy m dest src 0 (unat n)"

section \<open>Loops to a zero byte\<close>

partial_function (option) strlen_loop :: "mem \<Rightarrow> ptr \<Rightarrow> size_t \<Rightarrow> size_t option" where
  [code]: "strlen_loop m s len = (if ld8 m (s + len) \<noteq> 0 then strlen_loop m s (len + 1) else Some len)"

definition strlen :: "mem \<Rightarrow> ptr \<Rightarrow> size_t option" where
  "strlen m s = strlen_loop m s 0"

partial_function (option) strcmp :: "mem \<Rightarrow> ptr \<Rightarrow> ptr \<Rightarrow> int option" where
  [code]: "strcmp m s1 s2 =
     (if ld8 m s1 \<noteq> 0 \<and> ld8 m s1 = ld8 m s2 then strcmp m (s1 + 1) (s2 + 1)
      else Some (uint (ld8 m s1) - uint (ld8 m s2)))"

partial_function (option) strchr_loop :: "mem \<Rightarrow> ptr \<Rightarrow> u8 \<Rightarrow> ptr option" where
  [code]: "strchr_loop m s c =
     (if ld8 m s \<noteq> c then (if ld8 m s = 0 then Some NULL else strchr_loop m (s + 1) c)
      else Some s)"

definition strchr :: "mem \<Rightarrow> ptr \<Rightarrow> u32 \<Rightarrow> ptr option" where
  "strchr m s c = strchr_loop m s (ucast c)"

partial_function (option) strrchr_loop :: "mem \<Rightarrow> ptr \<Rightarrow> u8 \<Rightarrow> ptr \<Rightarrow> ptr option" where
  [code]: "strrchr_loop m s c lst =
     (let lst = (if ld8 m s = c then s else lst)
      in if ld8 m s \<noteq> 0 then strrchr_loop m (s + 1) c lst else Some lst)"

definition strrchr :: "mem \<Rightarrow> ptr \<Rightarrow> u32 \<Rightarrow> ptr option" where
  "strrchr m s c = strrchr_loop m s (ucast c) NULL"

text \<open>\<^verbatim>\<open>strtoul\<close>: the value and the final position, which the caller may store through
  \<^verbatim>\<open>endptr\<close>.\<close>

definition is_digit :: "u8 \<Rightarrow> bool" where
  "is_digit c \<longleftrightarrow> 48 \<le> c \<and> c \<le> 57"

partial_function (option) strtoul_loop :: "mem \<Rightarrow> ptr \<Rightarrow> u64 \<Rightarrow> u64 \<Rightarrow> (u64 \<times> ptr) option" where
  [code]: "strtoul_loop m nptr base result =
     (if is_digit (ld8 m nptr)
      then strtoul_loop m (nptr + 1) base
             (result * (if base = 0 then 10 else base) + (ucast (ld8 m nptr) - 48))
      else Some (result, nptr))"

definition strtoul :: "mem \<Rightarrow> ptr \<Rightarrow> u64 \<Rightarrow> (u64 \<times> ptr) option" where
  "strtoul m nptr base = strtoul_loop m nptr base 0"

section \<open>Strings in memory\<close>

text \<open>\<open>cstr m p cs\<close>: at \<open>p\<close> the memory holds the non-zero bytes \<open>cs\<close> and then a zero byte.\<close>

primrec cstr :: "mem \<Rightarrow> ptr \<Rightarrow> u8 list \<Rightarrow> bool" where
  "cstr m p [] \<longleftrightarrow> ld8 m p = 0"
| "cstr m p (c # cs) \<longleftrightarrow> c \<noteq> 0 \<and> ld8 m p = c \<and> cstr m (p + 1) cs"

lemma cstr_nonzero: "cstr m p cs \<Longrightarrow> 0 \<notin> set cs"
  by (induction cs arbitrary: p) auto

lemma strlen_loop_cstr: "cstr m (s + len) cs \<Longrightarrow> strlen_loop m s len = Some (len + of_nat (length cs))"
proof (induction cs arbitrary: len)
  case Nil
  then show ?case by (simp add: strlen_loop.simps)
next
  case (Cons c cs)
  then have "strlen_loop m s (len + 1) = Some (len + 1 + of_nat (length cs))"
    by (simp add: add.assoc)
  with Cons.prems show ?case
    by (simp add: strlen_loop.simps [of m s len] add_ac)
qed

lemma strlen_cstr: "cstr m s cs \<Longrightarrow> strlen m s = Some (of_nat (length cs))"
  using strlen_loop_cstr [of m s 0] by (simp add: strlen_def)

text \<open>\<open>cmp_bytes\<close>: the comparison of two zero-terminated byte strings, at the first difference.\<close>

fun cmp_bytes :: "u8 list \<Rightarrow> u8 list \<Rightarrow> int" where
  "cmp_bytes [] [] = 0"
| "cmp_bytes (x # xs) [] = uint x"
| "cmp_bytes [] (y # ys) = - uint y"
| "cmp_bytes (x # xs) (y # ys) = (if x = y then cmp_bytes xs ys else uint x - uint y)"

lemma strcmp_cstr: "cstr m p xs \<Longrightarrow> cstr m q ys \<Longrightarrow> strcmp m p q = Some (cmp_bytes xs ys)"
proof (induction xs ys arbitrary: p q rule: cmp_bytes.induct)
  case 1
  then show ?case by (simp add: strcmp.simps)
next
  case (2 x xs)
  then show ?case by (simp add: strcmp.simps)
next
  case (3 y ys)
  then show ?case by (simp add: strcmp.simps)
next
  case (4 x xs y ys)
  then show ?case
    by (subst strcmp.simps) simp
qed

lemma cmp_bytes_0_iff: "0 \<notin> set xs \<Longrightarrow> 0 \<notin> set ys \<Longrightarrow> cmp_bytes xs ys = 0 \<longleftrightarrow> xs = ys"
  by (induction xs ys rule: cmp_bytes.induct) (auto simp: uint_0_iff dest: unsigned_word_eqI)

lemma strchr_loop_cstr:
  "cstr m p cs \<Longrightarrow> c \<noteq> 0 \<Longrightarrow> strchr_loop m p c =
     Some (if c \<in> set cs then p + of_nat (length (takeWhile (\<lambda>x. x \<noteq> c) cs)) else NULL)"
proof (induction cs arbitrary: p)
  case Nil
  then show ?case by (simp add: strchr_loop.simps)
next
  case (Cons x cs)
  then show ?case
    by (auto simp: strchr_loop.simps [of m p] add_ac)
qed

text \<open>The last occurrence of a byte: its index, counted from the front.\<close>

fun last_index :: "u8 list \<Rightarrow> u8 \<Rightarrow> nat option" where
  "last_index [] c = None"
| "last_index (x # xs) c =
     (case last_index xs c of Some i \<Rightarrow> Some (Suc i) | None \<Rightarrow> if x = c then Some 0 else None)"

lemma strrchr_loop_cstr:
  "cstr m p cs \<Longrightarrow> c \<noteq> 0 \<Longrightarrow> strrchr_loop m p c lst =
     Some (case last_index cs c of None \<Rightarrow> lst | Some i \<Rightarrow> p + of_nat i)"
proof (induction cs arbitrary: p lst)
  case Nil
  then show ?case by (simp add: strrchr_loop.simps)
next
  case (Cons x cs)
  then show ?case
    by (auto simp: strrchr_loop.simps [of m p] add_ac split: option.splits)
qed

section \<open>Block operations\<close>

lemma unat_Suc_ptr: "unat (p :: ptr) + Suc (Suc k) \<le> 2 ^ 64 \<Longrightarrow> unat (p + 1) = unat p + 1"
  by (subst unat_add_u64) auto

lemma memset_loop_apply:
  "unat p + n \<le> 2 ^ 64 \<Longrightarrow>
     memset_loop m p c n x = (if unat p \<le> x \<and> x < unat p + n then c else m x)"
proof (induction n arbitrary: m p)
  case 0
  then show ?case by auto
next
  case (Suc n)
  show ?case
  proof (cases n)
    case 0
    then show ?thesis by auto
  next
    case (Suc k)
    with Suc.prems have "unat (p + 1) = unat p + 1"
      by (intro unat_Suc_ptr) simp
    with Suc.IH [of "p + 1" "st8 m p c"] Suc.prems show ?thesis
      by (auto simp: fun_upd_def)
  qed
qed

lemma memset_apply:
  "unat p + unat n \<le> 2 ^ 64 \<Longrightarrow>
     memset m p c n x = (if unat p \<le> x \<and> x < unat p + unat n then ucast c else m x)"
  by (simp add: memset_def memset_loop_apply)

text \<open>
  Copying upwards is right when the destination does not start inside the source; copying
  downwards when it does not start below it.
\<close>

lemma memcpy_loop_apply:
  "unat d + n \<le> 2 ^ 64 \<Longrightarrow> unat s + n \<le> 2 ^ 64 \<Longrightarrow> unat d \<le> unat s \<or> unat s + n \<le> unat d \<Longrightarrow>
     memcpy_loop m d s n x =
       (if unat d \<le> x \<and> x < unat d + n then m (unat s + (x - unat d)) else m x)"
proof (induction n arbitrary: m d s)
  case 0
  then show ?case by auto
next
  case (Suc n)
  show ?case
  proof (cases n)
    case 0
    then show ?thesis by auto
  next
    case (Suc k)
    with Suc.prems have succ: "unat (d + 1) = unat d + 1" "unat (s + 1) = unat s + 1"
      using unat_Suc_ptr [of d k] unat_Suc_ptr [of s k] by simp_all
    define m' where "m' = st8 m d (ld8 m s)"
    have IH: "memcpy_loop m' (d + 1) (s + 1) n x =
        (if unat d + 1 \<le> x \<and> x < unat d + 1 + n then m' (unat s + 1 + (x - (unat d + 1))) else m' x)"
      using Suc.IH [of "d + 1" "s + 1" m'] Suc.prems unfolding succ by auto
    show ?thesis
    proof (cases "unat d < x \<and> x < unat d + Suc n")
      case True
      then have "unat s + 1 + (x - (unat d + 1)) = unat s + (x - unat d)"
        and "unat s + (x - unat d) \<noteq> unat d"
        using Suc.prems by linarith+
      with IH True show ?thesis
        by (simp add: m'_def del: One_nat_def)
    next
      case False
      with IH show ?thesis
        by (auto simp: m'_def)
    qed
  qed
qed

lemma memcpy_apply:
  "unat d + unat n \<le> 2 ^ 64 \<Longrightarrow> unat s + unat n \<le> 2 ^ 64 \<Longrightarrow>
   unat d \<le> unat s \<or> unat s + unat n \<le> unat d \<Longrightarrow>
     memcpy m d s n x =
       (if unat d \<le> x \<and> x < unat d + unat n then m (unat s + (x - unat d)) else m x)"
  by (simp add: memcpy_def memcpy_loop_apply)

lemma memmove_down_apply:
  "n \<le> unat d \<Longrightarrow> n \<le> unat s \<Longrightarrow> unat s \<le> unat d \<Longrightarrow>
     memmove_down m d s n x =
       (if unat d - n \<le> x \<and> x < unat d then m (unat s - (unat d - x)) else m x)"
proof (induction n arbitrary: m d s)
  case 0
  then show ?case by auto
next
  case (Suc n)
  have pred: "unat (d - 1) = unat d - 1" "unat (s - 1) = unat s - 1"
    using Suc.prems by (auto simp: unat_sub_u64)
  define m' where "m' = st8 m (d - 1) (ld8 m (s - 1))"
  have IH: "memmove_down m' (d - 1) (s - 1) n x =
      (if unat d - 1 - n \<le> x \<and> x < unat d - 1 then m' (unat s - 1 - (unat d - 1 - x)) else m' x)"
    using Suc.IH [of "d - 1" "s - 1" m'] Suc.prems unfolding pred by auto
  show ?case
  proof (cases "unat d - Suc n \<le> x \<and> x < unat d - 1")
    case True
    then have "unat s - 1 - (unat d - 1 - x) = unat s - (unat d - x)"
      and "unat s - (unat d - x) \<noteq> unat (d - 1)"
      using Suc.prems unfolding pred by linarith+
    with IH True have "memmove_down m' (d - 1) (s - 1) n x = m (unat s - (unat d - x))"
      by (auto simp: m'_def)
    with True show ?thesis
      by (auto simp: Let_def m'_def [symmetric])
  next
    case False
    with IH pred Suc.prems show ?thesis
      by (auto simp: Let_def m'_def)
  qed
qed

lemma memmove_apply:
  assumes "unat d + unat n < 2 ^ 64" and "unat s + unat n < 2 ^ 64"
  shows "memmove m d s n x =
    (if unat d \<le> x \<and> x < unat d + unat n then m (unat s + (x - unat d)) else m x)"
proof (cases "d < s")
  case True
  with assms show ?thesis
    by (simp add: memmove_def memcpy_loop_apply word_less_nat_alt)
next
  case False
  have "unat (d + n) = unat d + unat n" "unat (s + n) = unat s + unat n"
    using assms by (auto simp: unat_add_u64)
  with False show ?thesis
    using memmove_down_apply [of "unat n" "d + n" "s + n" m x]
    by (auto simp: memmove_def word_less_nat_alt)
qed

section \<open>Properties\<close>

text \<open>C40: \<^verbatim>\<open>memmove\<close> copies any two regions of the address space, overlapping or not: afterwards the
  destination holds what the source held before, and every other byte is unchanged.\<close>

theorem memmove_correct:
  assumes "unat d + unat n < 2 ^ 64" and "unat s + unat n < 2 ^ 64"
  shows "memmove m d s n = (\<lambda>x. if unat d \<le> x \<and> x < unat d + unat n then m (unat s + (x - unat d)) else m x)"
  by (rule ext) (rule memmove_apply [OF assms])

theorem memmove_correct_witness:
  "memmove (\<lambda>x. of_nat x) 12 10 4 = (\<lambda>x. if 12 \<le> x \<and> x < 16 then of_nat (10 + (x - 12)) else of_nat x)"
  using memmove_correct [of 12 4 10 "\<lambda>x. of_nat x"] by (simp cong: if_cong)

text \<open>On two zero-terminated strings \<^verbatim>\<open>strcmp\<close> terminates, returns 0 exactly when they are the
  same, and otherwise the difference of the bytes at the first position where they differ.\<close>

theorem strcmp_correct:
  assumes "cstr m p xs" and "cstr m q ys"
  shows "\<exists>r. strcmp m p q = Some r \<and> (r = 0 \<longleftrightarrow> xs = ys) \<and>
    (\<forall>i. i < length xs \<longrightarrow> i < length ys \<longrightarrow> take i xs = take i ys \<longrightarrow> xs ! i \<noteq> ys ! i \<longrightarrow> r = uint (xs ! i) - uint (ys ! i))"
proof -
  have "cmp_bytes xs ys = uint (xs ! i) - uint (ys ! i)"
    if "i < length xs" "i < length ys" "take i xs = take i ys" "xs ! i \<noteq> ys ! i" for i
    using that
  proof (induction xs ys arbitrary: i rule: cmp_bytes.induct)
    case (4 x xs y ys)
    then show ?case by (cases i) auto
  qed auto
  then show ?thesis
    using strcmp_cstr [OF assms] cmp_bytes_0_iff [OF cstr_nonzero [OF assms(1)] cstr_nonzero [OF assms(2)]] by blast
qed

theorem strcmp_correct_witness:
  "\<exists>r. strcmp ((\<lambda>_. 0)(100 := 65, 101 := 66, 200 := 65, 201 := 68)) 100 200 = Some r \<and> r = uint (66 :: u8) - uint (68 :: u8)"
proof -
  let ?m = "(\<lambda>_. 0)(100 := 65, 101 := 66, 200 := 65, 201 := 68) :: mem"
  have "cstr ?m 100 [65, 66]" "cstr ?m 200 [65, 68]"
    by simp_all
  from strcmp_correct [OF this] show ?thesis
    by (auto dest: spec [of _ 1])
qed

end
