(* ===== verification/Fdt_Overlay.thy ===== *)
theory Fdt_Overlay
  imports Fdt_Rw Cstring
begin

unbundle bit_operations_syntax

text \<open>
  Applying a device tree overlay (\<^verbatim>\<open>lib/libfdt/fdt_overlay.c\<close>).  The base tree and the overlay are two blobs in separate buffers; a
  function returns its result with the blobs it may write.  As in the rest of the library \<open>None\<close> is an access outside a buffer, a
  null pointer handed to a string function, or a loop that does not end.  The recursive functions over the children of a node are
  one function that runs the rest of a list of siblings: body and recursion for the first of them, then the next.
\<close>

abbreviation (input) FDT_ERR_BADOVERLAY :: int where "FDT_ERR_BADOVERLAY \<equiv> 16"

section \<open>Targets\<close>

definition overlay_get_target_phandle :: "fdt \<Rightarrow> int \<Rightarrow> u32 option" where
  "overlay_get_target_phandle fdto fragment = do {
     r \<leftarrow> fdt_getprop fdto fragment (bytes_of ''target'');
     (case r of
        Inl _ \<Rightarrow> Some 0
      | Inr (val, len) \<Rightarrow>
          if len \<noteq> 4 then Some (- 1) else fdt32_ld fdto val) }"

text \<open>The offset or error, and what is stored through \<^verbatim>\<open>pathp\<close>: the position of the path in the overlay.\<close>

definition fdt_overlay_target_offset :: "fdt \<Rightarrow> fdt \<Rightarrow> int \<Rightarrow> (int \<times> int option) option" where
  "fdt_overlay_target_offset fdt fdto fragment_offset = do {
     phandle \<leftarrow> overlay_get_target_phandle fdto fragment_offset;
     if phandle = - 1 then Some (- FDT_ERR_BADPHANDLE, None)
     else do {
       (ret, path, path_len) \<leftarrow>
         (if phandle = 0 then do {
            r \<leftarrow> fdt_getprop fdto fragment_offset (bytes_of ''target-path'');
            (case r of
               Inl e \<Rightarrow> Some (e, None, e)
             | Inr (path, path_len) \<Rightarrow> do {
                 s \<leftarrow> blob_str fdto path;
                 ret \<leftarrow> fdt_path_offset_namelen fdt s;
                 Some (ret, Some path, path_len) }) }
          else do { ret \<leftarrow> fdt_node_offset_by_phandle fdt phandle; Some (ret, None, 0) });
       let ret = (if ret < 0 \<and> path_len = - FDT_ERR_NOTFOUND then - FDT_ERR_BADOVERLAY else ret);
       Some (ret, if ret < 0 then None else path) } }"

section \<open>Local phandles\<close>

definition overlay_phandle_add_offset :: "fdt \<Rightarrow> int \<Rightarrow> u8 list \<Rightarrow> u32 \<Rightarrow> (int \<times> fdt) option" where
  "overlay_phandle_add_offset fdt node name delta = do {
     r \<leftarrow> fdt_getprop fdt node name;
     (case r of
        Inl len \<Rightarrow> Some (len, fdt)
      | Inr (valp, len) \<Rightarrow>
          if len \<noteq> 4 then Some (- FDT_ERR_BADPHANDLE, fdt)
          else do {
            val \<leftarrow> fdt32_ld fdt valp;
            if val + delta < val \<or> val + delta = - 1 then Some (- FDT_ERR_NOPHANDLES, fdt)
            else do { fdt \<leftarrow> fdt32_st fdt valp (val + delta); Some (0, fdt) } }) }"

text \<open>\<^verbatim>\<open>overlay_adjust_node_phandles\<close> up to its loop.\<close>

definition adjust_own_phandles :: "fdt \<Rightarrow> int \<Rightarrow> u32 \<Rightarrow> (int \<times> fdt) option" where
  "adjust_own_phandles fdto node delta = do {
     (ret, fdto) \<leftarrow> overlay_phandle_add_offset fdto node (bytes_of ''phandle'') delta;
     if ret \<noteq> 0 \<and> ret \<noteq> - FDT_ERR_NOTFOUND then Some (ret, fdto)
     else do {
       (ret, fdto) \<leftarrow> overlay_phandle_add_offset fdto node (bytes_of ''linux,phandle'') delta;
       if ret \<noteq> 0 \<and> ret \<noteq> - FDT_ERR_NOTFOUND then Some (ret, fdto) else Some (0, fdto) } }"

partial_function (option) adjust_children :: "fdt \<Rightarrow> int \<Rightarrow> u32 \<Rightarrow> (int \<times> fdt) option" where
  [code]: "adjust_children fdto child delta =
     (if child < 0 then Some (0, fdto)
      else do {
        (ret, fdto) \<leftarrow> adjust_own_phandles fdto child delta;
        if ret \<noteq> 0 then Some (ret, fdto)
        else do {
          first \<leftarrow> fdt_first_subnode fdto child;
          (ret, fdto) \<leftarrow> adjust_children fdto first delta;
          if ret \<noteq> 0 then Some (ret, fdto)
          else do { sibling \<leftarrow> fdt_next_subnode fdto child; adjust_children fdto sibling delta } } })"

definition overlay_adjust_node_phandles :: "fdt \<Rightarrow> int \<Rightarrow> u32 \<Rightarrow> (int \<times> fdt) option" where
  "overlay_adjust_node_phandles fdto node delta = do {
     (ret, fdto) \<leftarrow> adjust_own_phandles fdto node delta;
     if ret \<noteq> 0 then Some (ret, fdto)
     else do { child \<leftarrow> fdt_first_subnode fdto node; adjust_children fdto child delta } }"

definition overlay_adjust_local_phandles :: "fdt \<Rightarrow> u32 \<Rightarrow> (int \<times> fdt) option" where
  "overlay_adjust_local_phandles fdto delta = overlay_adjust_node_phandles fdto 0 delta"

section \<open>Loops over properties and fragments\<close>

text \<open>
  \<open>each\<close> is \<^verbatim>\<open>for (o = first; o >= 0; o = next(blob, o))\<close> around a body that may change the state and returns from the function with
  an error.
\<close>

partial_function (option) each ::
  "('s \<Rightarrow> int \<Rightarrow> int option) \<Rightarrow> (int \<Rightarrow> 's \<Rightarrow> (int \<times> 's) option) \<Rightarrow> int \<Rightarrow> 's \<Rightarrow> (int \<times> 's) option" where
  [code]: "each next body o' s =
     (if o' < 0 then Some (0, s)
      else do {
        (ret, s) \<leftarrow> body o' s;
        if ret \<noteq> 0 then Some (ret, s) else do { n \<leftarrow> next s o'; each next body n s } })"

section \<open>References to local phandles\<close>

text \<open>
  The loop over the offsets in a fixup property.  \<open>f\<close> says what to store for the value found, if anything; the offset is not
  compared with the length of the property.
\<close>

fun patch_refs :: "(u32 \<Rightarrow> u32 option) \<Rightarrow> fdt \<Rightarrow> int \<Rightarrow> int \<Rightarrow> nat \<Rightarrow> fdt option" where
  "patch_refs f fdto tree_val fixup_val 0 = Some fdto"
| "patch_refs f fdto tree_val fixup_val (Suc n) = do {
     off \<leftarrow> fdt32_ld fdto fixup_val;
     let refp = tree_val + uint off;
     valp \<leftarrow> fdt32_ld fdto refp;
     fdto \<leftarrow> (case f valp of None \<Rightarrow> Some fdto | Some v \<Rightarrow> fdt32_st fdto refp v);
     patch_refs f fdto tree_val (fixup_val + 4) n }"

definition patch_property :: "(u32 \<Rightarrow> u32 option) \<Rightarrow> int \<Rightarrow> int \<Rightarrow> fdt \<Rightarrow> (int \<times> fdt) option" where
  "patch_property f tree_node fixup_prop fdto = do {
     r \<leftarrow> fdt_getprop_by_offset fdto fixup_prop;
     (case r of
        Inl fixup_len \<Rightarrow> Some (fixup_len, fdto)
      | Inr (fixup_val, name, fixup_len) \<Rightarrow>
          if fixup_len mod 4 \<noteq> 0 then Some (- FDT_ERR_BADOVERLAY, fdto)
          else do {
            name \<leftarrow> blob_str fdto name;
            t \<leftarrow> fdt_getprop fdto tree_node name;
            (case t of
               Inl tree_len \<Rightarrow> Some (if tree_len = - FDT_ERR_NOTFOUND then - FDT_ERR_BADOVERLAY else tree_len, fdto)
             | Inr (tree_val, _) \<Rightarrow> do {
                 fdto \<leftarrow> patch_refs f fdto tree_val fixup_val (nat (fixup_len div 4));
                 Some (0, fdto) }) }) }"

definition patch_properties :: "(u32 \<Rightarrow> u32 option) \<Rightarrow> int \<Rightarrow> int \<Rightarrow> fdt \<Rightarrow> (int \<times> fdt) option" where
  "patch_properties f tree_node fixup_node fdto = do {
     fixup_prop \<leftarrow> fdt_first_property_offset fdto fixup_node;
     each fdt_next_property_offset (patch_property f tree_node) fixup_prop fdto }"

partial_function (option) patch_children :: "(u32 \<Rightarrow> u32 option) \<Rightarrow> int \<Rightarrow> int \<Rightarrow> fdt \<Rightarrow> (int \<times> fdt) option" where
  [code]: "patch_children f tree_node fixup_child fdto =
     (if fixup_child < 0 then Some (0, fdto)
      else do {
        r \<leftarrow> fdt_get_name fdto fixup_child;
        (case r of
           Inl _ \<Rightarrow> None
         | Inr (name, _) \<Rightarrow> do {
             fixup_child_name \<leftarrow> blob_str fdto name;
             tree_child \<leftarrow> fdt_subnode_offset fdto tree_node fixup_child_name;
             if tree_child = - FDT_ERR_NOTFOUND then Some (- FDT_ERR_BADOVERLAY, fdto)
             else if tree_child < 0 then Some (tree_child, fdto)
             else do {
               (ret, fdto) \<leftarrow> patch_properties f tree_child fixup_child fdto;
               if ret \<noteq> 0 then Some (ret, fdto)
               else do {
                 first \<leftarrow> fdt_first_subnode fdto fixup_child;
                 (ret, fdto) \<leftarrow> patch_children f tree_child first fdto;
                 if ret \<noteq> 0 then Some (ret, fdto)
                 else do {
                   sibling \<leftarrow> fdt_next_subnode fdto fixup_child;
                   patch_children f tree_node sibling fdto } } } }) })"

definition patch_node :: "(u32 \<Rightarrow> u32 option) \<Rightarrow> int \<Rightarrow> int \<Rightarrow> fdt \<Rightarrow> (int \<times> fdt) option" where
  "patch_node f tree_node fixup_node fdto = do {
     (ret, fdto) \<leftarrow> patch_properties f tree_node fixup_node fdto;
     if ret \<noteq> 0 then Some (ret, fdto)
     else do { fixup_child \<leftarrow> fdt_first_subnode fdto fixup_node; patch_children f tree_node fixup_child fdto } }"

definition overlay_update_local_node_references :: "fdt \<Rightarrow> int \<Rightarrow> int \<Rightarrow> u32 \<Rightarrow> (int \<times> fdt) option" where
  "overlay_update_local_node_references fdto tree_node fixup_node delta =
     patch_node (\<lambda>v. Some (v + delta)) tree_node fixup_node fdto"

definition overlay_update_local_references :: "fdt \<Rightarrow> u32 \<Rightarrow> (int \<times> fdt) option" where
  "overlay_update_local_references fdto delta = do {
     fixups \<leftarrow> fdt_path_offset_namelen fdto (bytes_of ''/__local_fixups__'');
     if fixups < 0 then Some (if fixups = - FDT_ERR_NOTFOUND then 0 else fixups, fdto)
     else overlay_update_local_node_references fdto 0 fixups delta }"

section \<open>References into the base tree\<close>

definition overlay_fixup_one_phandle ::
  "fdt \<Rightarrow> int \<Rightarrow> u8 list \<Rightarrow> u8 list \<Rightarrow> u32 \<Rightarrow> u32 \<Rightarrow> (int \<times> fdt) option" where
  "overlay_fixup_one_phandle fdto symbols_off path name poffset phandle =
     (if symbols_off < 0 then Some (symbols_off, fdto)
      else do {
        fixup_off \<leftarrow> fdt_path_offset_namelen fdto path;
        if fixup_off = - FDT_ERR_NOTFOUND then Some (- FDT_ERR_BADOVERLAY, fdto)
        else if fixup_off < 0 then Some (fixup_off, fdto)
        else fdt_setprop_inplace_namelen_partial fdto fixup_off name poffset (cpu_to_fdt32 phandle) })"

text \<open>\<^verbatim>\<open>strtoul(p, &endptr, 10)\<close> on a string in the blob.\<close>

partial_function (option) blob_strtoul :: "fdt \<Rightarrow> int \<Rightarrow> u64 \<Rightarrow> (u64 \<times> int) option" where
  [code]: "blob_strtoul fdt p result = do {
     b \<leftarrow> rd8 fdt p;
     if is_digit b then blob_strtoul fdt (p + 1) (result * 10 + (ucast b - 48)) else Some (result, p) }"

text \<open>
  One fixup, \<^verbatim>\<open>path:name:offset\<close>, of \<open>fixup_len\<close> bytes at \<open>fixup_str\<close>: \<open>None\<close> inside is a malformed one.  The last component of
  the result is the offset as the 32-bit value that reaches the store.
\<close>

definition parse_fixup :: "fdt \<Rightarrow> int \<Rightarrow> int \<Rightarrow> (u8 list \<times> u8 list \<times> u32) option option" where
  "parse_fixup fdto fixup_str fixup_len = do {
     sep \<leftarrow> blob_chr fdto fixup_str 0x3a (nat fixup_len);
     (case sep of
        None \<Rightarrow> Some None
      | Some sep \<Rightarrow> do {
          let path_len = sep - fixup_str;
          if path_len = fixup_len - 1 then Some None
          else do {
            let name = sep + 1;
            sep2 \<leftarrow> blob_chr fdto name 0x3a (nat (fixup_len - (path_len + 1)));
            (case sep2 of
               None \<Rightarrow> Some None
             | Some sep2 \<Rightarrow> do {
                 let name_len = sep2 - name;
                 if name_len = 0 then Some None
                 else do {
                   (poffset, endptr) \<leftarrow> blob_strtoul fdto (sep2 + 1) 0;
                   b \<leftarrow> rd8 fdto endptr;
                   if b \<noteq> 0 \<or> endptr \<le> sep2 + 1 then Some None
                   else do {
                     path \<leftarrow> blob_bytes fdto fixup_str (nat path_len);
                     name \<leftarrow> blob_bytes fdto name (nat name_len);
                     Some (Some (path, name, ucast poffset)) } } }) } }) }"

partial_function (option) fixup_loop :: "int \<Rightarrow> u32 \<Rightarrow> int \<Rightarrow> int \<Rightarrow> fdt \<Rightarrow> (int \<times> fdt) option" where
  [code]: "fixup_loop symbols_off phandle value len fdto = do {
     fixup_end \<leftarrow> blob_chr fdto value 0 (nat len);
     (case fixup_end of
        None \<Rightarrow> Some (- FDT_ERR_BADOVERLAY, fdto)
      | Some fixup_end \<Rightarrow> do {
          let fixup_len = fixup_end - value;
          fixup \<leftarrow> parse_fixup fdto value fixup_len;
          (case fixup of
             None \<Rightarrow> Some (- FDT_ERR_BADOVERLAY, fdto)
           | Some (path, name, poffset) \<Rightarrow> do {
               (ret, fdto) \<leftarrow> overlay_fixup_one_phandle fdto symbols_off path name poffset phandle;
               if ret \<noteq> 0 then Some (ret, fdto)
               else if len - (fixup_len + 1) > 0
               then fixup_loop symbols_off phandle (value + fixup_len + 1) (len - (fixup_len + 1)) fdto
               else Some (0, fdto) }) }) }"

definition overlay_fixup_phandle :: "fdt \<Rightarrow> int \<Rightarrow> int \<Rightarrow> fdt \<Rightarrow> (int \<times> fdt) option" where
  "overlay_fixup_phandle fdt symbols_off property fdto = do {
     r \<leftarrow> fdt_getprop_by_offset fdto property;
     (case r of
        Inl len \<Rightarrow> Some (if len = - FDT_ERR_NOTFOUND then - FDT_ERR_INTERNAL else len, fdto)
      | Inr (value, label, len) \<Rightarrow> do {
          label \<leftarrow> blob_str fdto label;
          s \<leftarrow> fdt_getprop fdt symbols_off label;
          (case s of
             Inl prop_len \<Rightarrow> Some (prop_len, fdto)
           | Inr (symbol_path, _) \<Rightarrow> do {
               path \<leftarrow> blob_str fdt symbol_path;
               symbol_off \<leftarrow> fdt_path_offset_namelen fdt path;
               if symbol_off < 0 then Some (symbol_off, fdto)
               else do {
                 phandle \<leftarrow> fdt_get_phandle fdt symbol_off;
                 if phandle = 0 then Some (- FDT_ERR_NOTFOUND, fdto)
                 else fixup_loop symbols_off phandle value len fdto } }) }) }"

definition overlay_fixup_phandles :: "fdt \<Rightarrow> fdt \<Rightarrow> (int \<times> fdt) option" where
  "overlay_fixup_phandles fdt fdto = do {
     fixups_off \<leftarrow> fdt_path_offset_namelen fdto (bytes_of ''/__fixups__'');
     if fixups_off = - FDT_ERR_NOTFOUND then Some (0, fdto)
     else if fixups_off < 0 then Some (fixups_off, fdto)
     else do {
       symbols_off \<leftarrow> fdt_path_offset_namelen fdt (bytes_of ''/__symbols__'');
       if symbols_off < 0 \<and> symbols_off \<noteq> - FDT_ERR_NOTFOUND then Some (symbols_off, fdto)
       else do {
         property \<leftarrow> fdt_first_property_offset fdto fixups_off;
         each fdt_next_property_offset (overlay_fixup_phandle fdt symbols_off) property fdto } } }"

section \<open>Phandles that both trees define\<close>

definition overlay_adjust_local_conflicting_phandle :: "fdt \<Rightarrow> int \<Rightarrow> u32 \<Rightarrow> (int \<times> fdt) option" where
  "overlay_adjust_local_conflicting_phandle fdto node fdt_phandle = do {
     php \<leftarrow> fdt_getprop fdto node (bytes_of ''phandle'');
     (ret, fdto) \<leftarrow>
       (if (case php of Inl _ \<Rightarrow> False | Inr (_, len) \<Rightarrow> len = 4)
        then fdt_setprop_inplace_u32 fdto node (bytes_of ''phandle'') fdt_phandle else Some (0, fdto));
     if ret \<noteq> 0 then Some (ret, fdto)
     else do {
       php \<leftarrow> fdt_getprop fdto node (bytes_of ''linux,phandle'');
       (if (case php of Inl _ \<Rightarrow> False | Inr (_, len) \<Rightarrow> len = 4)
        then fdt_setprop_inplace_u32 fdto node (bytes_of ''linux,phandle'') fdt_phandle else Some (0, fdto)) } }"

definition overlay_update_node_conflicting_references :: "fdt \<Rightarrow> int \<Rightarrow> int \<Rightarrow> u32 \<Rightarrow> u32 \<Rightarrow> (int \<times> fdt) option" where
  "overlay_update_node_conflicting_references fdto tree_node fixup_node fdt_phandle fdto_phandle =
     patch_node (\<lambda>valp. if valp = fdto_phandle then Some fdt_phandle else None) tree_node fixup_node fdto"

definition overlay_update_local_conflicting_references :: "fdt \<Rightarrow> u32 \<Rightarrow> u32 \<Rightarrow> (int \<times> fdt) option" where
  "overlay_update_local_conflicting_references fdto fdt_phandle fdto_phandle = do {
     fixups \<leftarrow> fdt_path_offset_namelen fdto (bytes_of ''/__local_fixups__'');
     if fixups = - FDT_ERR_NOTFOUND then Some (0, fdto)
     else if fixups < 0 then Some (fixups, fdto)
     else overlay_update_node_conflicting_references fdto 0 fixups fdt_phandle fdto_phandle }"

text \<open>\<^verbatim>\<open>overlay_prevent_phandle_overwrite_node\<close> up to its loop.\<close>

definition prevent_own :: "fdt \<Rightarrow> int \<Rightarrow> int \<Rightarrow> fdt \<Rightarrow> (int \<times> fdt) option" where
  "prevent_own fdt fdtnode fdtonode fdto = do {
     fdt_phandle \<leftarrow> fdt_get_phandle fdt fdtnode;
     fdto_phandle \<leftarrow> fdt_get_phandle fdto fdtonode;
     if fdt_phandle \<noteq> 0 \<and> fdto_phandle \<noteq> 0 then do {
       (ret, fdto) \<leftarrow> overlay_adjust_local_conflicting_phandle fdto fdtonode fdt_phandle;
       if ret \<noteq> 0 then Some (ret, fdto)
       else overlay_update_local_conflicting_references fdto fdt_phandle fdto_phandle }
     else Some (0, fdto) }"

text \<open>
  A child that the base tree does not have is skipped; any other error of \<^verbatim>\<open>fdt_subnode_offset\<close> is passed on as if it were a node.
\<close>

partial_function (option) prevent_children :: "fdt \<Rightarrow> int \<Rightarrow> int \<Rightarrow> fdt \<Rightarrow> (int \<times> fdt) option" where
  [code]: "prevent_children fdt fdtnode fdtochild fdto =
     (if fdtochild < 0 then Some (0, fdto)
      else do {
        r \<leftarrow> fdt_get_name fdto fdtochild;
        (case r of
           Inl _ \<Rightarrow> None
         | Inr (name, _) \<Rightarrow> do {
             name \<leftarrow> blob_str fdto name;
             fdtchild \<leftarrow> fdt_subnode_offset fdt fdtnode name;
             (ret, fdto) \<leftarrow>
               (if fdtchild = - FDT_ERR_NOTFOUND then Some (0, fdto)
                else do {
                  (ret, fdto) \<leftarrow> prevent_own fdt fdtchild fdtochild fdto;
                  if ret \<noteq> 0 then Some (ret, fdto)
                  else do { first \<leftarrow> fdt_first_subnode fdto fdtochild; prevent_children fdt fdtchild first fdto } });
             if ret \<noteq> 0 then Some (ret, fdto)
             else do { sibling \<leftarrow> fdt_next_subnode fdto fdtochild; prevent_children fdt fdtnode sibling fdto } }) })"

definition overlay_prevent_phandle_overwrite_node :: "fdt \<Rightarrow> int \<Rightarrow> int \<Rightarrow> fdt \<Rightarrow> (int \<times> fdt) option" where
  "overlay_prevent_phandle_overwrite_node fdt fdtnode fdtonode fdto = do {
     (ret, fdto) \<leftarrow> prevent_own fdt fdtnode fdtonode fdto;
     if ret \<noteq> 0 then Some (ret, fdto)
     else do { fdtochild \<leftarrow> fdt_first_subnode fdto fdtonode; prevent_children fdt fdtnode fdtochild fdto } }"

definition prevent_fragment :: "fdt \<Rightarrow> int \<Rightarrow> fdt \<Rightarrow> (int \<times> fdt) option" where
  "prevent_fragment fdt fragment fdto = do {
     overlay \<leftarrow> fdt_subnode_offset fdto fragment (bytes_of ''__overlay__'');
     if overlay = - FDT_ERR_NOTFOUND then Some (0, fdto)
     else if overlay < 0 then Some (overlay, fdto)
     else do {
       (target, _) \<leftarrow> fdt_overlay_target_offset fdt fdto fragment;
       if target = - FDT_ERR_NOTFOUND then Some (0, fdto)
       else if target < 0 then Some (target, fdto)
       else overlay_prevent_phandle_overwrite_node fdt target overlay fdto } }"

definition overlay_prevent_phandle_overwrite :: "fdt \<Rightarrow> fdt \<Rightarrow> (int \<times> fdt) option" where
  "overlay_prevent_phandle_overwrite fdt fdto = do {
     fragment \<leftarrow> fdt_first_subnode fdto 0;
     each fdt_next_subnode (prevent_fragment fdt) fragment fdto }"

section \<open>Merging\<close>

definition apply_property :: "fdt \<Rightarrow> int \<Rightarrow> int \<Rightarrow> fdt \<Rightarrow> (int \<times> fdt) option" where
  "apply_property fdto target property fdt = do {
     r \<leftarrow> fdt_getprop_by_offset fdto property;
     (case r of
        Inl prop_len \<Rightarrow> Some (if prop_len = - FDT_ERR_NOTFOUND then - FDT_ERR_INTERNAL else prop_len, fdt)
      | Inr (prop, name, prop_len) \<Rightarrow>
          if prop_len < 0 then Some (prop_len, fdt)
          else do {
            name \<leftarrow> blob_str fdto name;
            val \<leftarrow> blob_bytes fdto prop (nat prop_len);
            fdt_setprop fdt target name val }) }"

definition apply_properties :: "fdt \<Rightarrow> int \<Rightarrow> int \<Rightarrow> fdt \<Rightarrow> (int \<times> fdt) option" where
  "apply_properties fdto target node fdt = do {
     property \<leftarrow> fdt_first_property_offset fdto node;
     each (\<lambda>_. fdt_next_property_offset fdto) (apply_property fdto target) property fdt }"

text \<open>The node of the base tree that a subnode of the overlay goes to: added, or found when it exists.\<close>

definition apply_subnode :: "fdt \<Rightarrow> int \<Rightarrow> u8 list \<Rightarrow> (int \<times> fdt) option" where
  "apply_subnode fdt target name = do {
     (nnode, fdt) \<leftarrow> fdt_add_subnode fdt target name;
     if nnode = - FDT_ERR_EXISTS then do {
       nnode \<leftarrow> fdt_subnode_offset fdt target name;
       Some (if nnode = - FDT_ERR_NOTFOUND then - FDT_ERR_INTERNAL else nnode, fdt) }
     else Some (nnode, fdt) }"

partial_function (option) apply_children :: "fdt \<Rightarrow> int \<Rightarrow> int \<Rightarrow> fdt \<Rightarrow> (int \<times> fdt) option" where
  [code]: "apply_children fdto target subnode fdt =
     (if subnode < 0 then Some (0, fdt)
      else do {
        r \<leftarrow> fdt_get_name fdto subnode;
        (case r of
           Inl _ \<Rightarrow> None
         | Inr (name, _) \<Rightarrow> do {
             name \<leftarrow> blob_str fdto name;
             (nnode, fdt) \<leftarrow> apply_subnode fdt target name;
             if nnode < 0 then Some (nnode, fdt)
             else do {
               (ret, fdt) \<leftarrow> apply_properties fdto nnode subnode fdt;
               if ret \<noteq> 0 then Some (ret, fdt)
               else do {
                 first \<leftarrow> fdt_first_subnode fdto subnode;
                 (ret, fdt) \<leftarrow> apply_children fdto nnode first fdt;
                 if ret \<noteq> 0 then Some (ret, fdt)
                 else do { sibling \<leftarrow> fdt_next_subnode fdto subnode; apply_children fdto target sibling fdt } } } }) })"

definition overlay_apply_node :: "fdt \<Rightarrow> int \<Rightarrow> fdt \<Rightarrow> int \<Rightarrow> (int \<times> fdt) option" where
  "overlay_apply_node fdt target fdto node = do {
     (ret, fdt) \<leftarrow> apply_properties fdto target node fdt;
     if ret \<noteq> 0 then Some (ret, fdt)
     else do { subnode \<leftarrow> fdt_first_subnode fdto node; apply_children fdto target subnode fdt } }"

definition merge_fragment :: "fdt \<Rightarrow> int \<Rightarrow> fdt \<Rightarrow> (int \<times> fdt) option" where
  "merge_fragment fdto fragment fdt = do {
     overlay \<leftarrow> fdt_subnode_offset fdto fragment (bytes_of ''__overlay__'');
     if overlay = - FDT_ERR_NOTFOUND then Some (0, fdt)
     else if overlay < 0 then Some (overlay, fdt)
     else do {
       (target, _) \<leftarrow> fdt_overlay_target_offset fdt fdto fragment;
       if target < 0 then Some (target, fdt) else overlay_apply_node fdt target fdto overlay } }"

definition overlay_merge :: "fdt \<Rightarrow> fdt \<Rightarrow> (int \<times> fdt) option" where
  "overlay_merge fdt fdto = do {
     fragment \<leftarrow> fdt_first_subnode fdto 0;
     each (\<lambda>_. fdt_next_subnode fdto) (merge_fragment fdto) fragment fdt }"

section \<open>Symbols\<close>

partial_function (option) path_len_loop :: "fdt \<Rightarrow> int \<Rightarrow> int \<Rightarrow> int option" where
  [code]: "path_len_loop fdt nodeoffset len = do {
     r \<leftarrow> fdt_get_name fdt nodeoffset;
     (case r of
        Inl namelen \<Rightarrow> Some namelen
      | Inr (_, namelen) \<Rightarrow>
          if namelen = 0 then Some (if len = 0 then 1 else len)
          else do {
            nodeoffset \<leftarrow> fdt_parent_offset fdt nodeoffset;
            if nodeoffset < 0 then Some nodeoffset else path_len_loop fdt nodeoffset (c_int (len + namelen + 1)) }) }"

definition get_path_len :: "fdt \<Rightarrow> int \<Rightarrow> int option" where
  "get_path_len fdt nodeoffset = FDT_RO_PROBE fdt (path_len_loop fdt nodeoffset 0)"

text \<open>
  What a symbol of the overlay says, read from its path: \<open>Inl err\<close> is an error, \<open>Inr None\<close> a symbol that does not end up in the
  base tree, and otherwise the name of the fragment and the path below its \<^verbatim>\<open>__overlay__\<close> node.
\<close>

definition parse_symbol :: "fdt \<Rightarrow> int \<Rightarrow> int \<Rightarrow> (int + (u8 list \<times> u8 list) option) option" where
  "parse_symbol fdto path path_len =
     (if path_len < 1 then Some (Inl (- FDT_ERR_BADVALUE))
      else do {
        z \<leftarrow> blob_chr fdto path 0 (nat path_len);
        if z \<noteq> Some (path + path_len - 1) then Some (Inl (- FDT_ERR_BADVALUE))
        else do {
          c \<leftarrow> rd8 fdto path;
          if c \<noteq> 0x2f then Some (Inl (- FDT_ERR_BADVALUE))
          else do {
            rest \<leftarrow> blob_str fdto (path + 1);
            if 0x2f \<notin> set rest then Some (Inr None)
            else do {
              let frag_name = takeWhile (\<lambda>b. b \<noteq> 0x2f) rest;
              let s = path + 1 + int (length frag_name);
              let e = path + path_len;
              long \<leftarrow> (if e - s > 13 then blob_eq fdto s (bytes_of ''/__overlay__/'') else Some False);
              short \<leftarrow> (if \<not> long \<and> e - s = 13 then blob_eq fdto s (bytes_of ''/__overlay__'') else Some False);
              if long then do {
                rel_path \<leftarrow> blob_bytes fdto (s + 13) (nat (e - (s + 13) - 1));
                Some (Inr (Some (frag_name, rel_path))) }
              else if short then Some (Inr (Some (frag_name, [])))
              else Some (Inr None) } } } })"

text \<open>
  The tail of the loop body of \<^verbatim>\<open>overlay_symbol_update\<close>: the new property of the symbols node is filled in at \<open>p\<close> with the path of the
  target, a slash, and the relative path.  \<open>target_path\<close> are the bytes of the target path of the fragment, if it has one.
\<close>

definition fill_symbol :: "fdt \<Rightarrow> int \<Rightarrow> u8 list option \<Rightarrow> int \<Rightarrow> int \<Rightarrow> u8 list \<Rightarrow> (int \<times> fdt) option" where
  "fill_symbol fdt target target_path p len rel_path = do {
     (ret, fdt) \<leftarrow>
       (if len > 1 then
          (case target_path of
             None \<Rightarrow> do {
               buf \<leftarrow> blob_bytes fdt p (nat (len + 1));
               (ret, buf) \<leftarrow> fdt_get_path fdt target buf;
               fdt \<leftarrow> wr_bytes fdt p buf;
               Some (ret, fdt) }
           | Some path \<Rightarrow> do { fdt \<leftarrow> wr_bytes fdt p (path @ [0]); Some (0, fdt) })
        else Some (0, fdt));
     if ret < 0 then Some (ret, fdt)
     else do {
       let len = (if len > 1 then len else len - 1);
       fdt \<leftarrow> wr_bytes fdt (p + len) [0x2f];
       fdt \<leftarrow> wr_bytes fdt (p + len + 1) rel_path;
       fdt \<leftarrow> wr_bytes fdt (p + len + 1 + int (length rel_path)) [0];
       Some (0, fdt) } }"

definition update_symbol :: "fdt \<Rightarrow> int \<Rightarrow> int \<Rightarrow> fdt \<Rightarrow> (int \<times> fdt) option" where
  "update_symbol fdto root_sym prop' fdt = do {
     r \<leftarrow> fdt_getprop_by_offset fdto prop';
     (case r of
        Inl path_len \<Rightarrow> Some (path_len, fdt)
      | Inr (path, name, path_len) \<Rightarrow> do {
          name \<leftarrow> blob_str fdto name;
          sym \<leftarrow> parse_symbol fdto path path_len;
          (case sym of
             Inl err \<Rightarrow> Some (err, fdt)
           | Inr None \<Rightarrow> Some (0, fdt)
           | Inr (Some (frag_name, rel_path)) \<Rightarrow> do {
               fragment \<leftarrow> fdt_subnode_offset_namelen fdto 0 frag_name;
               if fragment < 0 then Some (- FDT_ERR_BADOVERLAY, fdt)
               else do {
                 ret \<leftarrow> fdt_subnode_offset fdto fragment (bytes_of ''__overlay__'');
                 if ret < 0 then Some (- FDT_ERR_BADOVERLAY, fdt)
                 else do {
                   (target, target_path) \<leftarrow> fdt_overlay_target_offset fdt fdto fragment;
                   if target < 0 then Some (target, fdt)
                   else do {
                     target_path \<leftarrow> (case target_path of None \<Rightarrow> Some None | Some q \<Rightarrow> map_option Some (blob_str fdto q));
                     len \<leftarrow> (case target_path of None \<Rightarrow> get_path_len fdt target | Some s \<Rightarrow> Some (int (length s)));
                     if len < 0 then Some (len, fdt)
                     else do {
                       (ret, fdt, p) \<leftarrow> fdt_setprop_placeholder_namelen fdt root_sym name (length name)
                          (c_int (len + (if len > 1 then 1 else 0) + int (length rel_path) + 1));
                       if ret < 0 then Some (ret, fdt)
                       else do {
                         (target, _) \<leftarrow> (if target_path = None then fdt_overlay_target_offset fdt fdto fragment
                                         else Some (target, None));
                         if target < 0 then Some (target, fdt)
                         else fill_symbol fdt target target_path p len rel_path } } } } } }) }) }"

definition overlay_symbol_update :: "fdt \<Rightarrow> fdt \<Rightarrow> (int \<times> fdt) option" where
  "overlay_symbol_update fdt fdto = do {
     ov_sym \<leftarrow> fdt_subnode_offset fdto 0 (bytes_of ''__symbols__'');
     if ov_sym < 0 then Some (0, fdt)
     else do {
       root_sym \<leftarrow> fdt_subnode_offset fdt 0 (bytes_of ''__symbols__'');
       (root_sym, fdt) \<leftarrow>
         (if root_sym = - FDT_ERR_NOTFOUND then fdt_add_subnode fdt 0 (bytes_of ''__symbols__'') else Some (root_sym, fdt));
       if root_sym < 0 then Some (root_sym, fdt)
       else do {
         prop' \<leftarrow> fdt_first_property_offset fdto ov_sym;
         each (\<lambda>_. fdt_next_property_offset fdto) (update_symbol fdto root_sym) prop' fdt } } }"

section \<open>Applying an overlay\<close>

text \<open>
  The steps of \<^verbatim>\<open>fdt_overlay_apply\<close> between the probes and the labels; the first error ends them.
\<close>

definition overlay_steps :: "fdt \<Rightarrow> fdt \<Rightarrow> (int \<times> fdt \<times> fdt) option" where
  "overlay_steps fdt fdto = do {
     r \<leftarrow> fdt_find_max_phandle fdt;
     (case r of
        Inl ret \<Rightarrow> Some (ret, fdt, fdto)
      | Inr delta \<Rightarrow> do {
          (ret, fdto) \<leftarrow> overlay_adjust_local_phandles fdto delta;
          if ret \<noteq> 0 then Some (ret, fdt, fdto) else do {
          (ret, fdto) \<leftarrow> overlay_update_local_references fdto delta;
          if ret \<noteq> 0 then Some (ret, fdt, fdto) else do {
          (ret, fdto) \<leftarrow> overlay_fixup_phandles fdt fdto;
          if ret \<noteq> 0 then Some (ret, fdt, fdto) else do {
          (ret, fdto) \<leftarrow> overlay_prevent_phandle_overwrite fdt fdto;
          if ret \<noteq> 0 then Some (ret, fdt, fdto) else do {
          (ret, fdt) \<leftarrow> overlay_merge fdt fdto;
          if ret \<noteq> 0 then Some (ret, fdt, fdto) else do {
          (ret, fdt) \<leftarrow> overlay_symbol_update fdt fdto;
          Some (ret, fdt, fdto) } } } } } }) }"

definition fdt_overlay_apply :: "fdt \<Rightarrow> fdt \<Rightarrow> (int \<times> fdt \<times> fdt) option" where
  "fdt_overlay_apply fdt fdto = do {
     probe \<leftarrow> fdt_ro_probe' fdt;
     if probe < 0 then Some (probe, fdt, fdto)
     else do {
       probe \<leftarrow> fdt_ro_probe' fdto;
       if probe < 0 then Some (probe, fdt, fdto)
       else do {
         (ret, fdt, fdto) \<leftarrow> overlay_steps fdt fdto;
         fdto \<leftarrow> fdt_set_magic fdto (NOT 0);
         if ret = 0 then Some (0, fdt, fdto)
         else do { fdt \<leftarrow> fdt_set_magic fdt (NOT 0); Some (ret, fdt, fdto) } } } }"

end
