(* ===== verification/Fdt_Merge.thy ===== *)
theory Fdt_Merge
  imports Fdt_Nodes Fdt_Overlay
begin

unbundle bit_operations_syntax

text \<open>
  The merge of an overlay node into a node of the base tree (\<^verbatim>\<open>overlay_apply_node\<close>) is an operation on trees: the properties of the
  overlay are set one after the other, and each of its children is merged into the first child of that name, or into a new one.  The
  calls on the blob are composed through one relation that tracks the tree, the free bytes and the space error together.
\<close>

section \<open>Merging trees\<close>

fun subst_prop :: "u8 list \<Rightarrow> u8 list \<Rightarrow> (u8 list \<times> u8 list) list \<Rightarrow> (u8 list \<times> u8 list) list" where
  "subst_prop name val [] = []"
| "subst_prop name val ((n, v) # ps) = (if n = name then (n, val) # ps else (n, v) # subst_prop name val ps)"

definition put_prop :: "u8 list \<times> u8 list \<Rightarrow> (u8 list \<times> u8 list) list \<Rightarrow> (u8 list \<times> u8 list) list" where
  "put_prop p ps = (if fst p \<in> fst ` set ps then subst_prop (fst p) (snd p) ps else p # ps)"

fun upd_first :: "('a \<Rightarrow> bool) \<Rightarrow> ('a \<Rightarrow> 'a) \<Rightarrow> 'a list \<Rightarrow> 'a list" where
  "upd_first P f [] = []"
| "upd_first P f (x # xs) = (if P x then f x # xs else x # upd_first P f xs)"

text \<open>The child that a name stands for is changed by \<open>f\<close>; where there is none, a new child is made first.\<close>

definition graft :: "u8 list \<Rightarrow> (dtree \<Rightarrow> dtree) \<Rightarrow> dtree list \<Rightarrow> dtree list" where
  "graft name f ts =
     (if \<exists>u \<in> set ts. name_matches name (node_name u) then upd_first (\<lambda>u. name_matches name (node_name u)) f ts
      else f (Node name [] []) # ts)"

fun overlay_tree :: "dtree \<Rightarrow> dtree \<Rightarrow> dtree" where
  "overlay_tree (Node n qs us) = (\<lambda>t. case t of
     Node nm ps ts \<Rightarrow> Node nm (fold put_prop qs ps) (fold (\<lambda>u. graft (node_name u) (overlay_tree u)) us ts))"

declare overlay_tree.simps [simp del]

lemma overlay_tree_Node:
  "overlay_tree (Node n qs us) (Node nm ps ts) =
     Node nm (fold put_prop qs ps) (fold (\<lambda>u. graft (node_name u) (overlay_tree u)) us ts)"
  by (simp add: overlay_tree.simps)

text \<open>The room a merge needs at most.\<close>

definition prop_cost :: "u8 list \<times> u8 list \<Rightarrow> int" where
  "prop_cost p = 13 + int (length (fst p)) + round4 (int (length (snd p)))"

definition node_cost :: "u8 list \<Rightarrow> int" where
  "node_cost name = 8 + round4 (int (length name) + 1)"

primrec tree_cost :: "dtree \<Rightarrow> int" where
  "tree_cost (Node n qs us) = sum_list (map prop_cost qs) + sum_list (map (\<lambda>u. node_cost (node_name u)) us) + sum_list (map tree_cost us)"

lemma prop_cost_nonneg [simp]: "0 \<le> prop_cost p"
  using round4_bounds(1) [of "int (length (snd p))"] by (simp add: prop_cost_def)

lemma node_cost_nonneg [simp]: "0 \<le> node_cost nm"
  using round4_bounds(1) [of "int (length nm) + 1"] by (simp add: node_cost_def)

lemma tree_cost_nonneg [simp]: "0 \<le> tree_cost t"
  by (induction t) (auto intro!: add_nonneg_nonneg sum_list_nonneg)

lemma prop_costs_nonneg [simp]: "0 \<le> sum_list (map prop_cost qs)"
  by (auto intro!: sum_list_nonneg)

section \<open>The properties as pairs\<close>

lemma lookup_prop_toks: "lookup_prop name (prop_toks ps) = map_of ps name"
  by (induction ps) auto

lemma set_prop_toks: "set_prop name val (prop_toks ps) = prop_toks (put_prop (name, val) ps)"
proof -
  have "replace_prop name val (prop_toks ps) = prop_toks (subst_prop name val ps)"
    by (induction ps) auto
  then show ?thesis
    by (simp add: set_prop_def put_prop_def lookup_prop_toks map_of_eq_None_iff)
qed

section \<open>Steps that change one node\<close>

text \<open>
  The outcome of changing the node at \<open>o'\<close> into \<open>t\<close> with \<open>c\<close> bytes at most: it returns, with 0 or the space error, and with 0 where
  the room is there.  On 0 the node is \<open>t\<close> and at most \<open>c\<close> bytes are gone; on the error the node is still a tree in its place.
\<close>

definition becomes :: "fdt \<Rightarrow> int \<Rightarrow> token list \<Rightarrow> token list \<Rightarrow> int \<Rightarrow> dtree \<Rightarrow> (int \<times> fdt) option \<Rightarrow> bool" where
  "becomes fdt o' pre post c t r \<longleftrightarrow> (\<exists>ret fdt'. r = Some (ret, fdt') \<and> ret \<in> {0, - FDT_ERR_NOSPACE} \<and> (c \<le> edit_room fdt \<longrightarrow> ret = 0) \<and>
     (if ret = 0 then node_tree fdt' o' pre t post \<and> edit_room fdt - c \<le> edit_room fdt' else \<exists>u. node_tree fdt' o' pre u post))"

lemma becomes_done: "node_tree fdt o' pre t post \<Longrightarrow> becomes fdt o' pre post 0 t (Some (0, fdt))"
  by (simp add: becomes_def)

lemma becomes_failed:
  "node_tree fdt o' pre u post \<Longrightarrow> edit_room fdt < c \<Longrightarrow> becomes fdt o' pre post c t (Some (- FDT_ERR_NOSPACE, fdt))"
  by (auto simp: becomes_def)

lemma becomes_room:
  assumes "becomes fdt o' pre post c t r" "edit_room fdt0 - c0 \<le> edit_room fdt"
  shows "becomes fdt0 o' pre post (c0 + c) t r"
proof -
  obtain ret f where "r = Some (ret, f)" "ret \<in> {0, - FDT_ERR_NOSPACE}" "c \<le> edit_room fdt \<longrightarrow> ret = 0"
    "if ret = 0 then node_tree f o' pre t post \<and> edit_room fdt - c \<le> edit_room f else \<exists>u. node_tree f o' pre u post"
    using assms(1) unfolding becomes_def by blast
  then show ?thesis
    unfolding becomes_def using assms(2) by (intro exI [of _ ret] exI [of _ f]) (auto split: if_splits)
qed

lemma becomes_then:
  assumes "becomes fdt o' pre post c t r" "\<And>fdt'. node_tree fdt' o' pre t post \<Longrightarrow> becomes fdt' o' pre post c' t' (k fdt')" "0 \<le> c'"
  shows "becomes fdt o' pre post (c + c') t' (do { (ret, fdt) \<leftarrow> r; if ret \<noteq> 0 then Some (ret, fdt) else k fdt })"
proof -
  obtain ret f where r: "r = Some (ret, f)" "ret \<in> {0, - FDT_ERR_NOSPACE}" "c \<le> edit_room fdt \<longrightarrow> ret = 0"
    "if ret = 0 then node_tree f o' pre t post \<and> edit_room fdt - c \<le> edit_room f else \<exists>u. node_tree f o' pre u post"
    using assms(1) unfolding becomes_def by blast
  show ?thesis
  proof (cases "ret = 0")
    case True
    then have "becomes f o' pre post c' t' (k f)" using r(4) assms(2) by simp
    then obtain ret' f' where "k f = Some (ret', f')" "ret' \<in> {0, - FDT_ERR_NOSPACE}" "c' \<le> edit_room f \<longrightarrow> ret' = 0"
      "if ret' = 0 then node_tree f' o' pre t' post \<and> edit_room f - c' \<le> edit_room f' else \<exists>u. node_tree f' o' pre u post"
      unfolding becomes_def by blast
    then show ?thesis
      unfolding becomes_def using r(1,4) True by (intro exI [of _ ret'] exI [of _ f']) (auto split: if_splits)
  next
    case False
    then show ?thesis
      unfolding becomes_def using r assms(3) by (intro exI [of _ ret] exI [of _ f]) auto
  qed
qed

text \<open>What happens to a child happens to its parent.\<close>

lemma node_tree_parent:
  assumes "node_tree fdt' p (pre @ TBegin nm # prop_toks ps @ forest_toks ts1) c (forest_toks ts2 @ TEnd # post)" "edit_toks fdt 0 pre o'"
  shows "node_tree fdt' o' pre (Node nm ps (ts1 @ c # ts2)) post"
proof -
  have "tree_toks fdt' (pre @ tokens (Node nm ps (ts1 @ c # ts2)) @ post)"
    using node_tree_tree [OF assms(1)] by simp
  then show ?thesis using assms(2) by (rule node_of_tree_toks)
qed

lemma becomes_parent:
  assumes "becomes fdt p (pre @ TBegin nm # prop_toks ps @ forest_toks ts1) (forest_toks ts2 @ TEnd # post) c t r"
    "edit_toks f0 0 pre o'"
  shows "becomes fdt o' pre post c (Node nm ps (ts1 @ t # ts2)) r"
proof -
  note up = node_tree_parent [OF _ assms(2), of _ _ nm ps ts1 _ ts2 post]
  show ?thesis using assms(1) unfolding becomes_def by (fastforce split: if_splits dest: up)
qed

section \<open>Applying the properties\<close>

lemma setprop_tree:
  assumes "node_tree fdt o' pre (Node nm ps ts) post" "0 \<notin> set name" "int (length name) < 2147483632" "int (length val) < 2147483632"
  shows "becomes fdt o' pre post (prop_cost (name, val)) (Node nm (put_prop (name, val) ps) ts) (fdt_setprop fdt o' name val)"
proof -
  obtain err fdt' where "fdt_setprop fdt o' name val = Some (err, fdt')"
    "node_toks fdt' o' pre nm (if err = 0 then set_prop name val (prop_toks ps) else prop_toks ps) (forest_toks ts @ TEnd # post)"
    "err \<in> {0, - FDT_ERR_NOSPACE}" "prop_cost (name, val) \<le> edit_room fdt \<longrightarrow> err = 0"
    "err = 0 \<longrightarrow> edit_room fdt - prop_cost (name, val) \<le> edit_room fdt'"
    using setprop_node [OF assms(2-4) assms(1) [unfolded node_tree_toks]] unfolding prop_cost_def fst_conv snd_conv by blast
  then show ?thesis
    unfolding becomes_def by (intro exI [of _ err] exI [of _ fdt']) (auto simp: set_prop_toks simp flip: node_tree_toks split: if_splits)
qed

lemma blob_bytes_at: "bytes_at fdt p bs \<Longrightarrow> blob_bytes fdt p (length bs) = Some bs"
  by (induction bs arbitrary: p) (auto simp: bytes_at_Cons)

lemma prop_tok_lengths:
  assumes "edit_inv fdt" "tok_in (fin_name fdt) fdt m (TProp name val) k"
  shows "0 \<notin> set name" "int (length name) < 2147483632" "int (length val) < 2147483632"
proof -
  note S = edit_inv_sizes [OF assms(1)]
  obtain off where "fin_name fdt off name" using assms(2) by auto
  then have n: "0 \<notin> set name" "uint off + int (length name) + 1 \<le> uint (hdr fdt 32)" by (simp_all add: fin_name_def)
  show "0 \<notin> set name" by (rule n(1))
  have "0 \<le> uint off" by simp
  then show "int (length name) < 2147483632" using n(2) S by linarith
  have "12 + int (length val) \<le> k" "k \<le> uint (hdr fdt 36)"
    using assms(2) round4_bounds(1) [of "int (length val)"] by auto
  then show "int (length val) < 2147483632" using S by linarith
qed

lemma apply_property_tree:
  assumes o: "edit_inv fdto" "tok_in (fin_name fdto) fdto m (TProp name val) k" "m mod 4 = 0"
    and t: "node_tree fdt o' pre (Node nm ps ts) post"
  shows "becomes fdt o' pre post (prop_cost (name, val)) (Node nm (put_prop (name, val) ps) ts) (apply_property fdto o' m fdt)"
proof -
  obtain p q where g: "fdt_getprop_by_offset fdto m = Some (Inr (q, p, int (length val)))" "bytes_at fdto p (name @ [0])" "bytes_at fdto q val"
    using getprop_in [OF edit_inv_blk [OF o(1)] o(2,3) edit_strings_found [OF o(1)]] by blast
  note L = prop_tok_lengths [OF o(1,2)]
  have "apply_property fdto o' m fdt = fdt_setprop fdt o' name val"
    using g(1) blob_str_at [OF g(2) L(1)] blob_bytes_at [OF g(3)] by (simp add: apply_property_def)
  then show ?thesis using setprop_tree [OF t L] by simp
qed

lemma next_property_at:
  assumes "blk_inv fdt" "tok_in N fdt m (TProp nm v) n" "m mod 4 = 0"
  shows "fdt_next_property_offset fdt m = nextprop' fdt n"
proof -
  have "0 \<le> m" "m + 4 \<le> n" using tok_in_bounds [OF assms(2)] by auto
  then show ?thesis
    using next_tag_at [OF assms] assms(3) by (simp add: fdt_next_property_offset_def fdt_check_prop_offset'_def)
qed

lemma apply_property_list:
  assumes o: "edit_inv fdto" "tok_in (fin_name fdto) fdto n u k" "\<not> is_prop u"
  shows "edit_toks fdto m (prop_toks qs) n \<Longrightarrow> m mod 4 = 0 \<Longrightarrow> node_tree fdt o' pre (Node nm ps ts) post \<Longrightarrow>
    becomes fdt o' pre post (sum_list (map prop_cost qs)) (Node nm (fold put_prop qs ps) ts)
      (nextprop' fdto m \<bind> (\<lambda>p. each (\<lambda>_. fdt_next_property_offset fdto) (apply_property fdto o') p fdt))"
proof (induction qs arbitrary: m fdt ps)
  case Nil
  then have "nextprop' fdto m = Some (- FDT_ERR_NOTFOUND)"
    using nextprop_at [OF edit_inv_blk [OF o(1)] o(2)] o(3) by simp
  then show ?case
    using becomes_done [OF Nil.prems(3)] by (simp add: each.simps [of _ _ "- 1"])
next
  case (Cons q qs)
  obtain name val where q: "q = (name, val)" by (cases q)
  from Cons.prems(1) obtain j where j: "tok_in (fin_name fdto) fdto m (TProp name val) j" "edit_toks fdto j (prop_toks qs) n"
    by (auto simp: q simp del: tok_in.simps)
  have al: "j mod 4 = 0" by (rule tok_at_aligned [OF j(1) Cons.prems(2)])
  have m: "0 \<le> m" using tok_in_bounds [OF j(1)] by simp
  have eq: "nextprop' fdto m \<bind> (\<lambda>p. each (\<lambda>_. fdt_next_property_offset fdto) (apply_property fdto o') p fdt) =
    do { (ret, fdt) \<leftarrow> apply_property fdto o' m fdt;
         if ret \<noteq> 0 then Some (ret, fdt)
         else nextprop' fdto j \<bind> (\<lambda>p. each (\<lambda>_. fdt_next_property_offset fdto) (apply_property fdto o') p fdt) }"
    using nextprop_at [OF edit_inv_blk [OF o(1)] j(1) Cons.prems(2)] next_property_at [OF edit_inv_blk [OF o(1)] j(1) Cons.prems(2)] m
    by (simp add: each.simps [of _ _ m] cong: if_cong)
  have "becomes fdt o' pre post (prop_cost (name, val) + sum_list (map prop_cost qs)) (Node nm (fold put_prop qs (put_prop (name, val) ps)) ts)
    (nextprop' fdto m \<bind> (\<lambda>p. each (\<lambda>_. fdt_next_property_offset fdto) (apply_property fdto o') p fdt))"
    unfolding eq
    by (rule becomes_then [OF apply_property_tree [OF o(1) j(1) Cons.prems(2,3)] Cons.IH [OF j(2) al]]) simp_all
  then show ?case by (simp add: q)
qed

lemma apply_properties_tree:
  assumes o: "node_tree fdto n pre' (Node nn qs us) post'" and t: "node_tree fdt o' pre (Node nm ps ts) post"
  shows "becomes fdt o' pre post (sum_list (map prop_cost qs)) (Node nm (fold put_prop qs ps) ts) (apply_properties fdto o' n fdt)"
proof -
  from o show ?thesis
  proof (rule node_treeE)
    fix m1 m2 m3 n' e
    assume k: "edit_inv fdto" "tok_in (fin_name fdto) fdto n (TBegin nn) m1" "edit_toks fdto m1 (prop_toks qs) m2"
      "edit_toks fdto m2 (forest_toks us) m3" "tok_in (fin_name fdto) fdto m3 TEnd n'" "n mod 4 = 0" "m1 mod 4 = 0" "0 \<le> n" "n + 4 \<le> m1"
    have "edit_toks fdto m2 (forest_toks us @ TEnd # []) n'"
      using k(4,5) by (auto simp: toks_in_append simp del: tok_in.simps)
    then obtain u j where u: "tok_in (fin_name fdto) fdto m2 u j" "\<not> is_prop u"
      using hd_forest [of us "[]"] by (cases "forest_toks us @ TEnd # []") (auto simp del: tok_in.simps)
    have "fdt_check_node_offset' fdto n = Some m1"
      using next_tag_at [OF edit_inv_blk [OF k(1)] k(2,6)] k(6,8,9) by (simp add: fdt_check_node_offset'_def)
    then have "fdt_first_property_offset fdto n = nextprop' fdto m1"
      using k(8,9) by (simp add: fdt_first_property_offset_def)
    then show ?thesis
      using apply_property_list [OF k(1) u k(3,7) t] by (simp add: apply_properties_def)
  qed
qed

section \<open>Applying the children\<close>

lemma begin_tok_length:
  assumes "edit_inv fdt" "tok_in N fdt m (TBegin name) k"
  shows "0 \<notin> set name" "int (length name) < 2147483632"
proof -
  show "0 \<notin> set name" using assms(2) by simp
  have "4 + (int (length name) + 1) \<le> k" "k \<le> uint (hdr fdt 36)"
    using assms(2) round4_bounds(1) [of "int (length name) + 1"] by auto
  then show "int (length name) < 2147483632" using edit_inv_sizes(10) [OF assms(1)] by linarith
qed

lemma apply_subnode_tree:
  assumes t: "node_tree fdt o' pre (Node nm ps ts) post" and name: "0 \<notin> set name" "int (length name) < 2147483632"
    and k: "\<And>fdt' p pre' t' post'. node_tree fdt' p pre' t' post' \<Longrightarrow> becomes fdt' p pre' post' c (f t') (k p fdt')" and c: "0 \<le> c"
  shows "becomes fdt o' pre post (node_cost name + c) (Node nm ps (graft name f ts))
    (do { (nnode, fdt) \<leftarrow> apply_subnode fdt o' name; if nnode < 0 then Some (nnode, fdt) else k nnode fdt })"
proof -
  have inv: "edit_inv fdt" and o': "edit_toks fdt 0 pre o'" using t by (auto simp: node_tree_def)
  let ?m = "\<lambda>u. name_matches name (node_name u)"
  show ?thesis
  proof (cases rule: subnode_offset_at [OF t, of name])
    case (1 ts1 t' ts2 p)
    have "fdt_add_subnode fdt o' name = Some (- FDT_ERR_EXISTS, fdt)"
      using 1(4,5) edit_probe(2) [OF inv] by (simp add: fdt_add_subnode_def fdt_add_subnode_namelen_def FDT_RW_PROBE_def)
    then have "apply_subnode fdt o' name = Some (p, fdt)"
      using 1(4,5) by (simp add: apply_subnode_def fdt_subnode_offset_def)
    moreover have "upd_first ?m f (ts1 @ t' # ts2) = ts1 @ f t' # ts2"
      using 1(2,3) by (induction ts1) auto
    then have "graft name f ts = ts1 @ f t' # ts2" using 1(1,3) by (simp add: graft_def)
    moreover have "becomes fdt o' pre post c (Node nm ps (ts1 @ f t' # ts2)) (k p fdt)"
      by (rule becomes_parent [OF k [OF 1(6)] o'])
    then have "becomes fdt o' pre post (node_cost name + c) (Node nm ps (ts1 @ f t' # ts2)) (k p fdt)"
      by (rule becomes_room) simp
    ultimately show ?thesis using 1(5) by simp
  next
    case 2
    from 2(1) have new: "graft name f ts = f (Node name [] []) # ts" by (auto simp: graft_def)
    from t 2(1) name show ?thesis
    proof (cases rule: add_subnode_tree)
      case 1
      then show ?thesis
        using becomes_failed [OF t] c by (simp add: apply_subnode_def node_cost_def)
    next
      case (2 off f1)
      have "node_tree f1 off (pre @ TBegin nm # prop_toks ps @ forest_toks []) (Node name [] []) (forest_toks ts @ TEnd # post)"
        using node_of_tree_toks [OF 2(4,3)] by simp
      from becomes_parent [OF k [OF this] o'] have b: "becomes f1 o' pre post c (Node nm ps (graft name f ts)) (k off f1)"
        by (simp add: new)
      from becomes_room [OF this, of fdt "node_cost name"] show ?thesis
        using 2(1,2,5) by (simp add: apply_subnode_def node_cost_def)
    qed
  qed
qed

text \<open>The loop over the subnodes, with the recursive call in one piece.\<close>

lemma apply_children_step:
  assumes "edit_inv fdto" "tok_in N fdto m (TBegin name) k" "m mod 4 = 0"
  shows "apply_children fdto o' m fdt = do {
      (ret, fdt) \<leftarrow> do {
        (nnode, fdt) \<leftarrow> apply_subnode fdt o' name;
        if nnode < 0 then Some (nnode, fdt) else overlay_apply_node fdt nnode fdto m };
      if ret \<noteq> 0 then Some (ret, fdt)
      else do { sibling \<leftarrow> fdt_next_subnode fdto m; apply_children fdto o' sibling fdt } }"
proof -
  have "0 \<le> m" using tok_in_bounds [OF assms(2)] by simp
  moreover have "blob_str fdto (uint (hdr fdto 8) + m + 4) = Some name"
    using assms(2) by (intro blob_str_at) auto
  ultimately show ?thesis
    using get_name_at [OF assms]
    by (subst apply_children.simps)
      (auto simp: overlay_apply_node_def split: option.splits prod.splits if_splits intro!: Option.bind_cong)
qed

lemma apply_children_tree:
  assumes IH: "\<And>u n pre' post' fdt o' pre t post. u \<in> set us \<Longrightarrow> node_tree fdto n pre' u post' \<Longrightarrow> node_tree fdt o' pre t post \<Longrightarrow>
      becomes fdt o' pre post (tree_cost u) (overlay_tree u t) (overlay_apply_node fdt o' fdto n)"
  shows "u # us2 = us3 \<Longrightarrow> set us3 \<subseteq> set us \<Longrightarrow>
    node_tree fdto p (P @ TBegin nn # prop_toks qs @ forest_toks us1) u (forest_toks us2 @ TEnd # Q) \<Longrightarrow>
    node_tree fdt o' pre (Node nm ps ts) post \<Longrightarrow>
    becomes fdt o' pre post (sum_list (map (\<lambda>u. node_cost (node_name u) + tree_cost u) us3))
      (Node nm ps (fold (\<lambda>u. graft (node_name u) (overlay_tree u)) us3 ts)) (apply_children fdto o' p fdt)"
proof (induction us3 arbitrary: u us2 us1 p fdt ts)
  case (Cons v us3)
  have eq: "v = u" "us3 = us2" and sub: "u \<in> set us" "set us2 \<subseteq> set us" using Cons.prems(1,2) by auto
  obtain k where k: "edit_inv fdto" "tok_in (fin_name fdto) fdto p (TBegin (node_name u)) k" "p mod 4 = 0"
  proof (cases u)
    case (Node un up uc)
    from Cons.prems(3) [unfolded Node] show thesis
      by (rule node_treeE) (use Node in \<open>auto intro!: that simp del: tok_in.simps\<close>)
  qed
  note nl = begin_tok_length [OF k(1,2)]
  have step: "becomes fdt o' pre post (node_cost (node_name u) + tree_cost u) (Node nm ps (graft (node_name u) (overlay_tree u) ts))
      (do { (nnode, fdt) \<leftarrow> apply_subnode fdt o' (node_name u);
            if nnode < 0 then Some (nnode, fdt) else overlay_apply_node fdt nnode fdto p })"
    by (rule apply_subnode_tree [OF Cons.prems(4) nl IH [OF sub(1) Cons.prems(3)] tree_cost_nonneg])
  have rest: "becomes fdt' o' pre post (sum_list (map (\<lambda>u. node_cost (node_name u) + tree_cost u) us2))
      (Node nm ps (fold (\<lambda>u. graft (node_name u) (overlay_tree u)) us2 (graft (node_name u) (overlay_tree u) ts)))
      (do { sibling \<leftarrow> fdt_next_subnode fdto p; apply_children fdto o' sibling fdt' })"
    if t: "node_tree fdt' o' pre (Node nm ps (graft (node_name u) (overlay_tree u) ts)) post" for fdt'
  proof (cases us2)
    case Nil
    then show ?thesis
      using next_subnode_at [OF Cons.prems(3)] becomes_done [OF t] by (simp add: apply_children.simps [of _ _ "- 1"])
  next
    case (Cons w us4)
    then obtain q where q: "fdt_next_subnode fdto p = Some q"
      "node_tree fdto q (P @ TBegin nn # prop_toks qs @ forest_toks (us1 @ [u])) w (forest_toks us4 @ TEnd # Q)"
      using next_subnode_at [OF Cons.prems(3)] by auto
    show ?thesis
      using Cons.IH [of w us4, OF _ _ q(2) t] q(1) Cons eq sub(2) by simp
  qed
  show ?case
    unfolding apply_children_step [OF k] eq list.map sum_list.Cons fold_simps
    by (rule becomes_then [OF step rest]) (auto intro!: sum_list_nonneg add_nonneg_nonneg)
qed simp

lemma overlay_apply_node_tree:
  "node_tree fdto n pre' v post' \<Longrightarrow> node_tree fdt o' pre t post \<Longrightarrow>
   becomes fdt o' pre post (tree_cost v) (overlay_tree v t) (overlay_apply_node fdt o' fdto n)"
proof (induction v arbitrary: n pre' post' fdt o' pre t post)
  case (Node nn qs us)
  obtain nm ps ts where t: "t = Node nm ps ts" by (cases t)
  have cost: "tree_cost (Node nn qs us) = sum_list (map prop_cost qs) + sum_list (map (\<lambda>u. node_cost (node_name u) + tree_cost u) us)"
    by (simp add: sum_list_addf)
  have children: "becomes fdt' o' pre post (sum_list (map (\<lambda>u. node_cost (node_name u) + tree_cost u) us))
      (Node nm (fold put_prop qs ps) (fold (\<lambda>u. graft (node_name u) (overlay_tree u)) us ts))
      (do { subnode \<leftarrow> fdt_first_subnode fdto n; apply_children fdto o' subnode fdt' })"
    if t': "node_tree fdt' o' pre (Node nm (fold put_prop qs ps) ts) post" for fdt'
  proof (cases us)
    case Nil
    then show ?thesis
      using first_subnode_at [OF Node.prems(1)] becomes_done [OF t'] by (simp add: apply_children.simps [of _ _ "- 1"])
  next
    case (Cons u us2)
    then obtain p where p: "fdt_first_subnode fdto n = Some p"
      "node_tree fdto p (pre' @ TBegin nn # prop_toks qs @ forest_toks []) u (forest_toks us2 @ TEnd # post')"
      using first_subnode_at [OF Node.prems(1)] by auto
    have "becomes fdt' o' pre post (sum_list (map (\<lambda>u. node_cost (node_name u) + tree_cost u) us))
        (Node nm (fold put_prop qs ps) (fold (\<lambda>u. graft (node_name u) (overlay_tree u)) us ts)) (apply_children fdto o' p fdt')"
      by (rule apply_children_tree [where us = us, OF Node.IH Cons [symmetric] subset_refl p(2) t'])
    then show ?thesis using p(1) by simp
  qed
  show ?case
    unfolding t overlay_tree_Node cost overlay_apply_node_def
    by (rule becomes_then [OF apply_properties_tree [OF Node.prems(1) Node.prems(2) [unfolded t]] children])
      (auto intro!: sum_list_nonneg add_nonneg_nonneg)
qed

section \<open>Properties\<close>

text \<open>C25: \<^verbatim>\<open>overlay_apply_node\<close> refines the merge of two trees.  With the overlay node \<open>v\<close> in one blob and the target \<open>t\<close> in another it
  always returns, with 0 or \<^verbatim>\<open>-FDT_ERR_NOSPACE\<close>, and with 0 whenever the free bytes of the base blob hold the names, headers and padded
  values of the overlay.  On 0 the target is the merged tree: every property of the overlay is set, in order, and every child is merged
  into the first child of that name or into a new one, to any depth; everything around the target stays and at most that many bytes are
  used.  When the space runs out the target is still a well-formed tree in its place.\<close>

theorem overlay_apply_node_refines:
  assumes "node_tree fdto n pre' v post'" "node_tree fdt o' pre t post"
  shows "\<exists>ret fdt'. overlay_apply_node fdt o' fdto n = Some (ret, fdt') \<and> ret \<in> {0, - FDT_ERR_NOSPACE} \<and>
    (tree_cost v \<le> edit_room fdt \<longrightarrow> ret = 0) \<and>
    (if ret = 0 then node_tree fdt' o' pre (overlay_tree v t) post \<and> edit_room fdt - tree_cost v \<le> edit_room fdt'
     else \<exists>u. node_tree fdt' o' pre u post)"
  using overlay_apply_node_tree [OF assms] unfolding becomes_def .

theorem overlay_apply_node_refines_witness:
  "\<exists>off fdto fdt'. fdt_add_subnode slack_fdt 0 [98] = Some (off, fdto) \<and> overlay_apply_node slack_fdt 0 fdto 0 = Some (0, fdt') \<and>
    node_tree fdt' 0 [] (Node [] [([97], [1])] [Node [98] [] []]) []"
proof -
  obtain off fdto where a: "fdt_add_subnode slack_fdt 0 [98] = Some (off, fdto)"
    "node_tree fdto 0 [] (Node [] [([97], [1])] [Node [98] [] []]) []"
    by (rule slack_child)
  have "tree_cost (Node [] [([97], [1])] [Node [98] [] []]) = 30"
    by (simp add: prop_cost_def node_cost_def round4_def)
  moreover have "overlay_tree (Node [] [([97], [1])] [Node [98] [] []]) (Node [] [([97], [1])] []) = Node [] [([97], [1])] [Node [98] [] []]"
    by (simp add: overlay_tree_Node put_prop_def graft_def)
  ultimately show ?thesis
    using overlay_apply_node_refines [OF a(2) slack_tree] a(1) by (auto simp: slack_room)
qed

end
