(* ===== verification/Fdt_Paths.thy ===== *)
theory Fdt_Paths
  imports Fdt_Merge
begin

unbundle bit_operations_syntax

text \<open>
  Paths and whole overlays.  \<^verbatim>\<open>fdt_path_offset\<close> descends in the tree by the components of the path.  With it the target of a fragment
  is a place in the base tree, and \<^verbatim>\<open>overlay_merge\<close> applies the fragments of an overlay one after the other to the tree.
\<close>

section \<open>Descending by names\<close>

function components :: "u8 list \<Rightarrow> u8 list list" where
  "components [] = []"
| "components (c # p) =
     (if c = 0x2f then components p
      else takeWhile (\<lambda>b. b \<noteq> 0x2f) (c # p) # components (dropWhile (\<lambda>b. b \<noteq> 0x2f) (c # p)))"
  by pat_completeness auto
termination
  by (relation "measure length") (auto simp: le_imp_less_Suc length_dropWhile_le)

fun first_child :: "u8 list \<Rightarrow> dtree \<Rightarrow> dtree option" where
  "first_child c (Node nm ps ts) = List.find (\<lambda>u. name_matches c (node_name u)) ts"

fun descend :: "u8 list list \<Rightarrow> dtree \<Rightarrow> dtree option" where
  "descend [] t = Some t"
| "descend (c # cs) t = (case first_child c t of None \<Rightarrow> None | Some u \<Rightarrow> descend cs u)"

fun update_at :: "u8 list list \<Rightarrow> (dtree \<Rightarrow> dtree) \<Rightarrow> dtree \<Rightarrow> dtree" where
  "update_at [] f t = f t"
| "update_at (c # cs) f (Node nm ps ts) = Node nm ps (upd_first (\<lambda>u. name_matches c (node_name u)) (update_at cs f) ts)"

text \<open>The walk along a path.  What happens to the node at its end happens to the whole tree.\<close>

lemma upd_first_split:
  "\<forall>u \<in> set ts1. \<not> P u \<Longrightarrow> P t \<Longrightarrow> upd_first P f (ts1 @ t # ts2) = ts1 @ f t # ts2"
  by (induction ts1) auto

lemma find_split: "\<forall>u \<in> set ts1. \<not> P u \<Longrightarrow> P t \<Longrightarrow> List.find P (ts1 @ t # ts2) = Some t"
  by (induction ts1) auto

lemma path_walk_tree:
  "node_tree fdt o' pre t post \<Longrightarrow>
   case descend (components path) t of
     None \<Rightarrow> path_walk fdt o' path = Some (- FDT_ERR_NOTFOUND)
   | Some u \<Rightarrow> \<exists>p pre' post'. path_walk fdt o' path = Some p \<and> 0 \<le> p \<and> node_tree fdt p pre' u post' \<and>
       (\<forall>fdt' c f r. becomes fdt' p pre' post' c (f u) r \<longrightarrow> becomes fdt' o' pre post c (update_at (components path) f t) r)"
proof (induction path arbitrary: o' pre t post rule: components.induct)
  case 1
  have "0 \<le> o'" using 1 tokens_bounds [of "fin_name fdt" fdt o' t] by (auto simp: node_tree_def)
  then show ?case using 1 by simp (intro exI [of _ pre] exI [of _ post], simp)
next
  case (2 c p)
  show ?case
  proof (cases "c = 0x2f")
    case True
    then have "components (c # p) = components p" "path_walk fdt o' (c # p) = path_walk fdt o' p" by simp_all
    then show ?thesis using "2.IH"(1) [OF True "2.prems"] by (simp only:)
  next
    case False
    let ?c = "takeWhile (\<lambda>b. b \<noteq> 0x2f) (c # p)" and ?p = "dropWhile (\<lambda>b. b \<noteq> 0x2f) (c # p)"
    have comp: "components (c # p) = ?c # components ?p" using False by simp
    obtain nm ps ts where t: "t = Node nm ps ts" by (cases t)
    have o': "edit_toks fdt 0 pre o'" using "2.prems" by (auto simp: node_tree_def)
    show ?thesis
    proof (cases rule: subnode_offset_at [OF "2.prems" [unfolded t], of ?c])
      case (1 ts1 u ts2 q)
      have walk: "path_walk fdt o' (c # p) = path_walk fdt q ?p"
        using False 1(4,5) by simp
      have first: "first_child ?c t = Some u" using find_split [OF 1(2,3)] 1(1) t by simp
      have upd: "update_at (components (c # p)) f t = Node nm ps (ts1 @ update_at (components ?p) f u # ts2)" for f
        using upd_first_split [OF 1(2,3)] 1(1) t comp by simp
      show ?thesis
      proof (cases "descend (components ?p) u")
        case None
        then show ?thesis using "2.IH"(2) [OF False 1(6)] walk comp first by simp
      next
        case (Some v)
        then obtain r pre' post' where r: "path_walk fdt q ?p = Some r" "0 \<le> r" "node_tree fdt r pre' v post'"
          "\<And>fdt' c f res. becomes fdt' r pre' post' c (f v) res \<Longrightarrow>
             becomes fdt' q (pre @ TBegin nm # prop_toks ps @ forest_toks ts1) (forest_toks ts2 @ TEnd # post) c (update_at (components ?p) f u) res"
          using "2.IH"(2) [OF False 1(6)] by auto
        have "becomes fdt' o' pre post c' (update_at (components (c # p)) f t) res" if "becomes fdt' r pre' post' c' (f v) res" for fdt' c' f res
          unfolding upd by (rule becomes_parent [OF r(4) [where f = f, OF that] o'])
        then show ?thesis
          using r(1-3) walk comp first Some by (simp only: descend.simps option.case) blast
      qed
    next
      case 2
      then have "first_child ?c t = None" by (auto simp: t find_None_iff)
      then show ?thesis using False 2(2) comp by simp
    qed
  qed
qed

section \<open>Fragments\<close>

text \<open>The target of a fragment that names it by a path: the value of \<^verbatim>\<open>target-path\<close> without its final zero.\<close>

definition frag_path :: "(u8 list \<times> u8 list) list \<Rightarrow> u8 list option" where
  "frag_path fps = map_option butlast (map_of fps (bytes_of ''target-path''))"

definition frag_ok :: "dtree \<Rightarrow> bool" where
  "frag_ok frag \<longleftrightarrow> (case frag of Node _ fps _ \<Rightarrow>
     map_of fps (bytes_of ''target'') = None \<and>
     (\<forall>v. map_of fps (bytes_of ''target-path'') = Some v \<longrightarrow> (\<exists>path. v = 0x2f # path @ [0] \<and> 0 \<notin> set path)))"

text \<open>What one fragment and then all fragments do to the base tree: the status, and the tree.\<close>

fun apply_frag :: "dtree \<Rightarrow> dtree \<Rightarrow> int \<times> dtree" where
  "apply_frag (Node fn fps fts) t =
     (case first_child (bytes_of ''__overlay__'') (Node fn fps fts) of
        None \<Rightarrow> (0, t)
      | Some ov \<Rightarrow>
          (case frag_path fps of
             None \<Rightarrow> (- FDT_ERR_BADOVERLAY, t)
           | Some path \<Rightarrow>
               if descend (components path) t = None then (- FDT_ERR_NOTFOUND, t)
               else (0, update_at (components path) (overlay_tree ov) t)))"

fun apply_frags :: "dtree list \<Rightarrow> dtree \<Rightarrow> int \<times> dtree" where
  "apply_frags [] t = (0, t)"
| "apply_frags (f # fs) t = (case apply_frag f t of (e, t') \<Rightarrow> if e \<noteq> 0 then (e, t') else apply_frags fs t')"

primrec frag_cost :: "dtree \<Rightarrow> int" where
  "frag_cost (Node fn fps fts) = (case first_child (bytes_of ''__overlay__'') (Node fn fps fts) of None \<Rightarrow> 0 | Some ov \<Rightarrow> tree_cost ov)"

lemma frag_cost_nonneg [simp]: "0 \<le> frag_cost f"
  by (cases f) (auto split: option.split)

text \<open>The outcome of a step on the whole tree that is meant to end with the status \<open>e\<close> and the tree \<open>t\<close>.\<close>

definition yields :: "fdt \<Rightarrow> int \<Rightarrow> int \<times> dtree \<Rightarrow> (int \<times> fdt) option \<Rightarrow> bool" where
  "yields fdt c et r \<longleftrightarrow> (\<exists>ret fdt'. r = Some (ret, fdt') \<and>
     (ret = fst et \<and> node_tree fdt' 0 [] (snd et) [] \<and> edit_room fdt - c \<le> edit_room fdt'
      \<or> ret = - FDT_ERR_NOSPACE \<and> edit_room fdt < c \<and> (\<exists>u. node_tree fdt' 0 [] u [])))"

lemma becomes_yields: "becomes fdt 0 [] [] c t r \<Longrightarrow> yields fdt c (0, t) r"
  unfolding becomes_def yields_def by (fastforce split: if_splits)

lemma yields_unchanged: "node_tree fdt 0 [] t [] \<Longrightarrow> 0 \<le> c \<Longrightarrow> yields fdt c (e, t) (Some (e, fdt))"
  by (auto simp: yields_def)

lemma target_offset_path:
  assumes o: "node_tree fdto n pre' (Node fn fps fts) post'" and t: "node_tree fdt 0 [] t []" and ok: "frag_ok (Node fn fps fts)"
  shows "case frag_path fps of
      None \<Rightarrow> \<exists>x. fdt_overlay_target_offset fdt fdto n = Some (- FDT_ERR_BADOVERLAY, x)
    | Some path \<Rightarrow>
        (case descend (components path) t of
           None \<Rightarrow> \<exists>x. fdt_overlay_target_offset fdt fdto n = Some (- FDT_ERR_NOTFOUND, x)
         | Some u \<Rightarrow> \<exists>x p pre post. fdt_overlay_target_offset fdt fdto n = Some (p, x) \<and> 0 \<le> p \<and> node_tree fdt p pre u post \<and>
             (\<forall>fdt' c f r. becomes fdt' p pre post c (f u) r \<longrightarrow> becomes fdt' 0 [] [] c (update_at (components path) f t) r))"
proof -
  have get: "getprop_is fdto n nm (map_of fps nm)" for nm
    using node_getprop [OF o [unfolded node_tree_toks], of nm] by (simp add: lookup_prop_toks)
  have "map_of fps (bytes_of ''target'') = None" using ok by (simp add: frag_ok_def)
  then have ph: "overlay_get_target_phandle fdto n = Some 0"
    using get [of "bytes_of ''target''"] by (simp add: overlay_get_target_phandle_def getprop_is_def)
  show ?thesis
  proof (cases "map_of fps (bytes_of ''target-path'')")
    case None
    then show ?thesis
      using ph get [of "bytes_of ''target-path''"] by (simp add: frag_path_def fdt_overlay_target_offset_def getprop_is_def)
  next
    case (Some v)
    then obtain rel where v: "v = 0x2f # rel @ [0]" "0 \<notin> set rel" using ok by (auto simp: frag_ok_def)
    let ?path = "0x2f # rel"
    have fp: "frag_path fps = Some ?path" using Some v by (simp add: frag_path_def)
    obtain q where q: "fdt_getprop fdto n (bytes_of ''target-path'') = Some (Inr (q, int (length v)))" "bytes_at fdto q v"
      using get [of "bytes_of ''target-path''"] Some by (auto simp: getprop_is_def)
    have str: "blob_str fdto q = Some ?path"
      using q(2) v by (intro blob_str_at) simp_all
    have inv: "edit_inv fdt" using t by (simp add: node_tree_def)
    have walk: "fdt_path_offset_namelen fdt ?path = path_walk fdt 0 ?path"
      using edit_probe(1) [OF inv] by (simp add: fdt_path_offset_namelen_def path_offset_body_def FDT_RO_PROBE_def leD)
    have off: "fdt_overlay_target_offset fdt fdto n = Some (r, if r < 0 then None else Some q)" if "path_walk fdt 0 ?path = Some r" for r
      using ph q(1) str walk that v(1)
      by (simp add: fdt_overlay_target_offset_def Let_def del: path_walk.simps)
    show ?thesis
    proof (cases "descend (components ?path) t")
      case None
      then show ?thesis using path_walk_tree [OF t, of ?path] fp off by (simp del: path_walk.simps components.simps)
    next
      case (Some u)
      then obtain p pre post where "path_walk fdt 0 ?path = Some p" "0 \<le> p" "node_tree fdt p pre u post"
        "\<forall>fdt' c f r. becomes fdt' p pre post c (f u) r \<longrightarrow> becomes fdt' 0 [] [] c (update_at (components ?path) f t) r"
        using path_walk_tree [OF t, of ?path] by (auto simp del: path_walk.simps components.simps)
      then show ?thesis using fp off Some by (simp del: path_walk.simps components.simps) blast
    qed
  qed
qed

lemma subnode_first_child:
  assumes "node_tree fdt o' pre t post"
  shows "case first_child s t of
      None \<Rightarrow> fdt_subnode_offset fdt o' s = Some (- FDT_ERR_NOTFOUND)
    | Some u \<Rightarrow> \<exists>p pre' post'. fdt_subnode_offset fdt o' s = Some p \<and> 0 \<le> p \<and> node_tree fdt p pre' u post'"
proof (cases t)
  case (Node nm ps ts)
  show ?thesis
  proof (cases rule: subnode_offset_at [OF assms [unfolded Node], of s])
    case (1 ts1 u ts2 p)
    then have "first_child s t = Some u" using find_split [OF 1(2,3)] Node by simp
    then show ?thesis using 1(4-6) by (auto simp: fdt_subnode_offset_def)
  next
    case 2
    then have "first_child s t = None" by (auto simp: Node find_None_iff)
    then show ?thesis using 2(2) by (simp add: fdt_subnode_offset_def)
  qed
qed

lemma merge_fragment_tree:
  assumes o: "node_tree fdto n pre' frag post'" and t: "node_tree fdt 0 [] t []" and ok: "frag_ok frag"
  shows "yields fdt (frag_cost frag) (apply_frag frag t) (merge_fragment fdto n fdt)"
proof (cases frag)
  case (Node fn fps fts)
  define ovn where "ovn = bytes_of ''__overlay__''"
  note sub = subnode_first_child [OF o, of ovn]
  show ?thesis
  proof (cases "first_child ovn frag")
    case None
    then show ?thesis
      using sub yields_unchanged [OF t, of 0 0]
      by (simp add: Node merge_fragment_def ovn_def [symmetric] del: first_child.simps)
  next
    case first: (Some ov)
    obtain p pre post where p: "fdt_subnode_offset fdto n ovn = Some p" "0 \<le> p" "node_tree fdto p pre ov post"
      using sub first by auto
    have eq: "merge_fragment fdto n fdt = do {
        (target, _) \<leftarrow> fdt_overlay_target_offset fdt fdto n;
        if target < 0 then Some (target, fdt) else overlay_apply_node fdt target fdto p }"
      using p(1,2) by (simp add: merge_fragment_def ovn_def)
    have cost: "frag_cost frag = tree_cost ov"
      and spec: "apply_frag frag t = (case frag_path fps of None \<Rightarrow> (- FDT_ERR_BADOVERLAY, t) | Some path \<Rightarrow>
        if descend (components path) t = None then (- FDT_ERR_NOTFOUND, t) else (0, update_at (components path) (overlay_tree ov) t))"
      using first by (simp_all add: Node ovn_def [symmetric] del: first_child.simps)
    note target = target_offset_path [OF o [unfolded Node] t ok [unfolded Node]]
    show ?thesis
    proof (cases "frag_path fps")
      case None
      then show ?thesis
        using target yields_unchanged [OF t, of "tree_cost ov" "- FDT_ERR_BADOVERLAY"] unfolding cost spec eq by auto
    next
      case path: (Some path)
      show ?thesis
      proof (cases "descend (components path) t")
        case None
        then show ?thesis
          using path target yields_unchanged [OF t, of "tree_cost ov" "- FDT_ERR_NOTFOUND"] unfolding cost spec eq by auto
      next
        case (Some u)
        then obtain x q pre post where q: "fdt_overlay_target_offset fdt fdto n = Some (q, x)" "0 \<le> q" "node_tree fdt q pre u post"
          "\<And>fdt' c f r. becomes fdt' q pre post c (f u) r \<Longrightarrow> becomes fdt' 0 [] [] c (update_at (components path) f t) r"
          using target path by auto
        have "becomes fdt 0 [] [] (tree_cost ov) (update_at (components path) (overlay_tree ov) t) (overlay_apply_node fdt q fdto p)"
          by (rule q(4) [where f = "overlay_tree ov", OF overlay_apply_node_tree [OF p(3) q(3)]])
        then show ?thesis
          using path Some q(1,2) becomes_yields unfolding cost spec eq by auto
      qed
    qed
  qed
qed

section \<open>Whole overlays\<close>

lemma yields_then:
  assumes "yields fdt c (e, t) r" "\<And>fdt'. e = 0 \<Longrightarrow> node_tree fdt' 0 [] t [] \<Longrightarrow> yields fdt' c' et (k fdt')" "0 \<le> c'"
  shows "yields fdt (c + c') (if e \<noteq> 0 then (e, t) else et) (do { (ret, fdt) \<leftarrow> r; if ret \<noteq> 0 then Some (ret, fdt) else k fdt })"
proof -
  obtain ret f where r: "r = Some (ret, f)"
    "ret = e \<and> node_tree f 0 [] t [] \<and> edit_room fdt - c \<le> edit_room f
      \<or> ret = - FDT_ERR_NOSPACE \<and> edit_room fdt < c \<and> (\<exists>u. node_tree f 0 [] u [])"
    using assms(1) by (auto simp: yields_def)
  show ?thesis
  proof (cases "ret = 0")
    case True
    then have "e = 0" "node_tree f 0 [] t []" "edit_room fdt - c \<le> edit_room f" using r(2) by auto
    moreover from this have "yields f c' et (k f)" by (intro assms(2))
    ultimately show ?thesis
      using r(1) True by (auto simp: yields_def)
  next
    case False
    then show ?thesis
      using r assms(3) by (auto simp: yields_def)
  qed
qed

lemma merge_fragments_tree:
  "node_tree fdto p (P @ TBegin nn # prop_toks qs @ forest_toks fs1) f (forest_toks fs2 @ TEnd # Q) \<Longrightarrow>
   list_all frag_ok (f # fs2) \<Longrightarrow> node_tree fdt 0 [] t [] \<Longrightarrow>
   yields fdt (sum_list (map frag_cost (f # fs2))) (apply_frags (f # fs2) t)
     (each (\<lambda>_. fdt_next_subnode fdto) (merge_fragment fdto) p fdt)"
proof (induction fs2 arbitrary: p fs1 f fdt t)
  case (Cons g fs2)
  have p: "0 \<le> p" using Cons.prems(1) tokens_bounds [of "fin_name fdto" fdto p f] by (auto simp: node_tree_def)
  obtain q where q: "fdt_next_subnode fdto p = Some q"
    "node_tree fdto q (P @ TBegin nn # prop_toks qs @ forest_toks (fs1 @ [f])) g (forest_toks fs2 @ TEnd # Q)"
    using next_subnode_at [OF Cons.prems(1)] by auto
  obtain e t' where e: "apply_frag f t = (e, t')" by (cases "apply_frag f t")
  have step: "yields fdt (frag_cost f) (e, t') (merge_fragment fdto p fdt)"
    using merge_fragment_tree [OF Cons.prems(1,3)] Cons.prems(2) e by simp
  have rest: "yields fdt' (sum_list (map frag_cost (g # fs2))) (apply_frags (g # fs2) t')
      (each (\<lambda>_. fdt_next_subnode fdto) (merge_fragment fdto) q fdt')" if "node_tree fdt' 0 [] t' []" for fdt'
    using Cons.prems(2) by (intro Cons.IH [OF q(2) _ that]) simp
  have "0 \<le> sum_list (map frag_cost (g # fs2))" by (intro sum_list_nonneg) auto
  from yields_then [OF step rest this] show ?case
    using p q(1) e by (simp add: each.simps [of _ _ p] cong: if_cong)
next
  case Nil
  have p: "0 \<le> p" using Nil.prems(1) tokens_bounds [of "fin_name fdto" fdto p f] by (auto simp: node_tree_def)
  have q: "fdt_next_subnode fdto p = Some (- FDT_ERR_NOTFOUND)" using next_subnode_at [OF Nil.prems(1)] by simp
  obtain e t' where e: "apply_frag f t = (e, t')" by (cases "apply_frag f t")
  have step: "yields fdt (frag_cost f) (e, t') (merge_fragment fdto p fdt)"
    using merge_fragment_tree [OF Nil.prems(1,3)] Nil.prems(2) e by simp
  have "yields fdt' 0 (0, t') (each (\<lambda>_. fdt_next_subnode fdto) (merge_fragment fdto) (- FDT_ERR_NOTFOUND) fdt')" if "node_tree fdt' 0 [] t' []" for fdt'
    using yields_unchanged [OF that, of 0 0] by (simp add: each.simps [of _ _ "- 1"])
  from yields_then [OF step this] show ?case
    using p q e by (simp add: each.simps [of _ _ p] cong: if_cong)
qed

lemma overlay_merge_tree:
  assumes o: "node_tree fdto 0 [] (Node rn rps frags) []" and t: "node_tree fdt 0 [] t []" and ok: "list_all frag_ok frags"
  shows "yields fdt (sum_list (map frag_cost frags)) (apply_frags frags t) (overlay_merge fdt fdto)"
proof (cases frags)
  case Nil
  then show ?thesis
    using first_subnode_at [OF o] yields_unchanged [OF t, of 0 0] by (simp add: overlay_merge_def each.simps [of _ _ "- 1"])
next
  case (Cons f fs)
  then obtain p where p: "fdt_first_subnode fdto 0 = Some p"
    "node_tree fdto p ([] @ TBegin rn # prop_toks rps @ forest_toks []) f (forest_toks fs @ TEnd # [])"
    using first_subnode_at [OF o] by auto
  from merge_fragments_tree [OF p(2) _ t] ok p(1) Cons show ?thesis
    by (simp add: overlay_merge_def del: apply_frags.simps)
qed

section \<open>Properties\<close>

text \<open>C26: \<^verbatim>\<open>fdt_path_offset\<close> of an absolute path, on a blob open for editing, returns the offset of the node that the path leads to: from
  the root, each component goes to the first child that it names, extra slashes count for nothing, and a component without a match gives
  \<^verbatim>\<open>-FDT_ERR_NOTFOUND\<close>.\<close>

theorem fdt_path_offset_descends:
  assumes "node_tree fdt 0 [] t []" "path \<noteq> []" "hd path = 0x2f"
  shows "case descend (components path) t of
      None \<Rightarrow> fdt_path_offset_namelen fdt path = Some (- FDT_ERR_NOTFOUND)
    | Some u \<Rightarrow> \<exists>p pre post. fdt_path_offset_namelen fdt path = Some p \<and> node_tree fdt p pre u post"
proof -
  have "edit_inv fdt" using assms(1) by (simp add: node_tree_def)
  then have "fdt_path_offset_namelen fdt path = path_walk fdt 0 path"
    using edit_probe(1) [of fdt] assms(2,3) by (simp add: fdt_path_offset_namelen_def path_offset_body_def FDT_RO_PROBE_def leD)
  then show ?thesis
    using path_walk_tree [OF assms(1), of path] by (cases "descend (components path) t") auto
qed

theorem fdt_path_offset_descends_witness:
  "\<exists>off fdt' p pre post. fdt_add_subnode slack_fdt 0 [98] = Some (off, fdt') \<and>
    fdt_path_offset_namelen fdt' [0x2f, 0x2f, 98] = Some p \<and> node_tree fdt' p pre (Node [98] [] []) post \<and>
    fdt_path_offset_namelen fdt' [0x2f, 99] = Some (- FDT_ERR_NOTFOUND)"
proof -
  obtain off fdt' where a: "fdt_add_subnode slack_fdt 0 [98] = Some (off, fdt')"
    "node_tree fdt' 0 [] (Node [] [([97], [1])] [Node [98] [] []]) []"
    by (rule slack_child)
  have m: "name_matches [98] [98]" "\<not> name_matches [99] [98]" by (simp_all add: name_matches_def)
  then show ?thesis
    using a(1) fdt_path_offset_descends [OF a(2), of "[0x2f, 0x2f, 98]"] fdt_path_offset_descends [OF a(2), of "[0x2f, 99]"] by auto
qed

text \<open>An overlay with one fragment: its target is the root, and it sets the property \<open>x\<close>.\<close>

definition frag_fdt :: fdt where
  "frag_fdt = \<lparr>fdt_addr = 0x40000000, fdt_bytes =
    [208, 13, 254, 237, 0, 0, 0, 150, 0, 0, 0, 56, 0, 0, 0, 136, 0, 0, 0, 40, 0, 0, 0, 17, 0, 0, 0, 16,
     0, 0, 0, 0, 0, 0, 0, 14, 0, 0, 0, 80, 0, 0, 0, 0, 0, 0, 0, 0, 0, 0, 0, 0, 0, 0, 0, 0,
     0, 0, 0, 1, 0, 0, 0, 0, 0, 0, 0, 1, 102, 0, 0, 0, 0, 0, 0, 3, 0, 0, 0, 2, 0, 0, 0, 0,
     47, 0, 0, 0, 0, 0, 0, 1, 95, 95, 111, 118, 101, 114, 108, 97, 121, 95, 95, 0, 0, 0, 0, 3, 0, 0, 0, 1,
     0, 0, 0, 12, 5, 0, 0, 0, 0, 0, 0, 2, 0, 0, 0, 2, 0, 0, 0, 2, 0, 0, 0, 9, 116, 97, 114, 103,
     101, 116, 45, 112, 97, 116, 104, 0, 120, 0]\<rparr>"

abbreviation frag_sample :: dtree where
  "frag_sample \<equiv> Node [102] [(bytes_of ''target-path'', [0x2f, 0])] [Node (bytes_of ''__overlay__'') [([120], [5])] []]"

lemma blob_bytes_bytes_at: "blob_bytes fdt p n = Some bs \<Longrightarrow> bytes_at fdt p bs"
  by (induction n arbitrary: p bs) (auto simp: bytes_at_Cons bind_eq_Some_conv)

lemma frag_reads:
  "hdr frag_fdt 0 = FDT_MAGIC" "hdr frag_fdt 4 = 150" "hdr frag_fdt 8 = 56" "hdr frag_fdt 12 = 136" "hdr frag_fdt 16 = 40"
  "hdr frag_fdt 20 = 17" "hdr frag_fdt 24 = 16" "hdr frag_fdt 32 = 14" "hdr frag_fdt 36 = 80" "fdt_totalsize frag_fdt = Some 150"
  "fdt32_ld frag_fdt 56 = Some FDT_BEGIN_NODE" "fdt32_ld frag_fdt 64 = Some FDT_BEGIN_NODE" "fdt32_ld frag_fdt 72 = Some FDT_PROP"
  "fdt32_ld frag_fdt 76 = Some 2" "fdt32_ld frag_fdt 80 = Some 0" "fdt32_ld frag_fdt 88 = Some FDT_BEGIN_NODE"
  "fdt32_ld frag_fdt 104 = Some FDT_PROP" "fdt32_ld frag_fdt 108 = Some 1" "fdt32_ld frag_fdt 112 = Some 12"
  "fdt32_ld frag_fdt 120 = Some FDT_END_NODE" "fdt32_ld frag_fdt 124 = Some FDT_END_NODE" "fdt32_ld frag_fdt 128 = Some FDT_END_NODE"
  "fdt32_ld frag_fdt 132 = Some FDT_END"
  by code_simp+

lemma frag_bytes:
  "bytes_at frag_fdt 60 [0]" "bytes_at frag_fdt 68 [102, 0]" "bytes_at frag_fdt 84 [0x2f, 0]"
  "bytes_at frag_fdt 92 (bytes_of ''__overlay__'' @ [0])" "bytes_at frag_fdt 116 [5]"
  "bytes_at frag_fdt 136 (bytes_of ''target-path'' @ [0])" "bytes_at frag_fdt 148 [120, 0]"
  by (rule blob_bytes_bytes_at [where n = 1], code_simp)
    (rule blob_bytes_bytes_at [where n = 2], code_simp,
     rule blob_bytes_bytes_at [where n = 2], code_simp,
     rule blob_bytes_bytes_at [where n = 12], code_simp,
     rule blob_bytes_bytes_at [where n = 1], code_simp,
     rule blob_bytes_bytes_at [where n = 12], code_simp,
     rule blob_bytes_bytes_at [where n = 2], code_simp)

lemma frag_tree: "node_tree frag_fdt 0 [] (Node [] [] [frag_sample]) []"
proof -
  have len: "length (bytes_of ''__overlay__'') = 11" "length (bytes_of ''target-path'') = 11"
    "0 \<notin> set (bytes_of ''__overlay__'')" "0 \<notin> set (bytes_of ''target-path'')" by code_simp+
  have "fdt_buffer frag_fdt" by (simp add: fdt_buffer_def frag_reads del: fdt_buffer_hdr) (simp add: frag_fdt_def)
  then have inv: "edit_inv frag_fdt" by (simp add: edit_inv_def blk_inv_def frag_reads) (simp add: frag_fdt_def)
  have n: "fin_name frag_fdt 0 (bytes_of ''target-path'')" "fin_name frag_fdt 12 [120]"
    using frag_bytes len by (simp_all add: fin_name_def frag_reads)
  have fin: "ends_at frag_fdt 76" by (simp add: ends_at_def frag_reads)
  have toks: "edit_toks frag_fdt 0 (tokens (Node [] [] [frag_sample]) @ []) 76"
    using n frag_bytes len by (simp add: frag_reads round4_def)
  show ?thesis by (rule node_treeI [OF inv _ toks fin]) simp
qed

text \<open>C9: \<^verbatim>\<open>overlay_merge\<close> refines the fragments of the overlay, one after the other, as updates of the base tree.  For fragments that
  name their target by an absolute path: a fragment without an \<^verbatim>\<open>__overlay__\<close> node does nothing, one without a target gives
  \<^verbatim>\<open>-FDT_ERR_BADOVERLAY\<close>, one whose target is not in the tree \<^verbatim>\<open>-FDT_ERR_NOTFOUND\<close>, and otherwise the target node becomes the merge of
  its tree with the overlay.  The first error ends the merge with the fragments before it applied.  Where the free bytes do not hold the
  overlays the result may be \<^verbatim>\<open>-FDT_ERR_NOSPACE\<close>, with a well-formed tree in the blob.\<close>

theorem overlay_merge_refines:
  assumes "node_tree fdto 0 [] (Node rn rps frags) []" "node_tree fdt 0 [] t []" "list_all frag_ok frags"
  shows "\<exists>ret fdt'. overlay_merge fdt fdto = Some (ret, fdt') \<and>
    (ret = fst (apply_frags frags t) \<and> node_tree fdt' 0 [] (snd (apply_frags frags t)) []
     \<or> ret = - FDT_ERR_NOSPACE \<and> edit_room fdt < sum_list (map frag_cost frags) \<and> (\<exists>u. node_tree fdt' 0 [] u []))"
  using overlay_merge_tree [OF assms] unfolding yields_def by blast

theorem overlay_merge_refines_witness:
  "\<exists>fdt'. overlay_merge slack_fdt frag_fdt = Some (0, fdt') \<and> node_tree fdt' 0 [] (Node [] [([120], [5]), ([97], [1])] []) []"
proof -
  have find: "first_child (bytes_of ''__overlay__'') frag_sample = Some (Node (bytes_of ''__overlay__'') [([120], [5])] [])"
    by (simp add: name_matches_def)
  have "bytes_of ''target'' \<noteq> bytes_of ''target-path''" by code_simp
  then have "list_all frag_ok [frag_sample]" by (simp add: frag_ok_def)
  moreover have "apply_frags [frag_sample] (Node [] [([97], [1])] []) = (0, Node [] [([120], [5]), ([97], [1])] [])"
    by (simp add: find frag_path_def overlay_tree_Node put_prop_def del: first_child.simps)
  moreover have "sum_list (map frag_cost [frag_sample]) = 18"
    by (simp add: find prop_cost_def round4_def del: first_child.simps)
  ultimately show ?thesis
    using overlay_merge_refines [OF frag_tree slack_tree] by (auto simp: slack_room)
qed

end
