(* ===== verification/Fdt_Update.thy ===== *)
theory Fdt_Update
  imports Fdt_Paths
begin

unbundle bit_operations_syntax

text \<open>
  The remaining edits of a node, \<^verbatim>\<open>fdt_set_name\<close> and \<^verbatim>\<open>fdt_appendprop\<close>, and sequences of edits: each edit is a partial operation on
  the tree, and a sequence of calls on a blob is the sequence of the operations.
\<close>

section \<open>Renaming a node\<close>

lemma set_name_tree:
  assumes node: "node_tree fdt o' pre (Node nm ps ts) post" and name: "0 \<notin> set name" "int (length name) < 2147483632"
  obtains "fdt_set_name fdt o' name = Some (- FDT_ERR_NOSPACE, fdt)" "edit_room fdt < round4 (int (length name) + 1)"
  | fdt' where "fdt_set_name fdt o' name = Some (0, fdt')" "node_tree fdt' o' pre (Node name ps ts) post"
      "edit_room fdt - round4 (int (length name) + 1) \<le> edit_room fdt'" "rsv_kept fdt fdt'"
proof -
  obtain m1 m2 m3 n e where k: "edit_inv fdt" "edit_toks fdt 0 pre o'" "tok_in (fin_name fdt) fdt o' (TBegin nm) m1"
    "edit_toks fdt m1 (prop_toks ps) m2" "edit_toks fdt m2 (forest_toks ts) m3" "tok_in (fin_name fdt) fdt m3 TEnd n"
    "edit_toks fdt n post e" "ends_at fdt e" "o' mod 4 = 0" "m1 mod 4 = 0" "m2 mod 4 = 0" "m3 mod 4 = 0" "0 \<le> o'" "o' + 4 \<le> m1"
    "m1 \<le> m2" "m2 \<le> m3" "n = m3 + 4" "n \<le> uint (hdr fdt 36)"
    using node by (rule node_treeE)
  note S = edit_inv_sizes [OF k(1)]
  let ?s = "uint (hdr fdt 8)" and ?r = "round4 (int (length name) + 1)"
  have m1: "m1 = o' + 4 + round4 (int (length nm) + 1)" "fdt32_ld fdt (?s + o') = Some FDT_BEGIN_NODE"
    using k(3) by auto
  have r: "int (length name) + 1 \<le> ?r" "?r < int (length name) + 5" "int (length nm) + 1 \<le> round4 (int (length nm) + 1)"
    using round4_bounds [of "int (length name) + 1"] round4_bounds(1) [of "int (length nm) + 1"] by auto
  have al: "FDT_TAGALIGN (int (length name) + 1) = ?r" using name(2) by (intro FDT_TAGALIGN_round4) auto
  have al': "FDT_TAGALIGN (int (length nm) + 1) = m1 - (o' + 4)"
    using begin_tok_length(2) [OF k(1,3)] by (subst FDT_TAGALIGN_round4) (auto simp: m1)
  have post: "edit_toks fdt m1 (prop_toks ps @ forest_toks ts @ TEnd # post) e"
    using k(4-7) by (auto simp: toks_in_append simp del: tok_in.simps)
  have gap: "o' \<le> o' + 4" "o' + 4 \<le> m1" "0 \<le> ?r" "?r < 2147483648" "?r - (m1 - (o' + 4)) = ?r - (m1 - (o' + 4))"
    using r name(2) k(14) by auto
  have eq: "fdt_set_name fdt o' name = do {
      (err, fdt) \<leftarrow> fdt_splice_struct' fdt (?s + (o' + 4)) (m1 - (o' + 4)) ?r;
      if err \<noteq> 0 then Some (err, fdt)
      else do { fdt \<leftarrow> wr_bytes fdt (?s + (o' + 4)) (name @ [0]); Some (0, fdt) } }"
    using get_name_at [OF k(1,3,9)] edit_probe(2) [OF k(1)] al al'
    by (simp add: fdt_set_name_def FDT_RW_PROBE_def Let_def add.assoc cong: if_cong)
  show thesis
  proof (cases rule: splice_struct_toks [OF k(1,2) post k(8) gap])
    case 1
    then show thesis using eq k(14) by (intro that(1)) simp_all
  next
    case (2 f1)
    let ?c = "o' + 4 + ?r"
    note S1 = edit_inv_sizes [OF 2(2)]
    have b: "?s + ?c \<le> uint (hdr f1 12)" "?s + ?c \<le> int (length (fdt_bytes f1))" "?c \<le> uint (hdr f1 36)" "0 \<le> ?s"
      using toks_in_le [OF 2(4)] 2(5,7) S1 S by (auto simp: ends_at_def)
    obtain f2 where w: "wr_bytes f1 (?s + (o' + 4)) (name @ [0]) = Some f2"
      using wr_bytes_total [of "?s + (o' + 4)" "name @ [0]" f1] b r k(13) by auto
    have sa: "same_above (?s + o') (?s + ?c) f1 f2"
      using r by (intro same_above_weaken [OF same_above_wr [OF w]]) auto
    have lo: "40 \<le> ?s + o'" using S k(13) by linarith
    have h: "hdr f2 j = hdr f1 j" if "j \<le> 36" for j by (rule same_above_hdr [OF sa lo that])
    have "fdt32_ld f2 (?s + o') = fdt32_ld f1 (?s + o')"
      using rd8_wr_bytes_other [OF w] by (intro fdt32_ld_cong) auto
    also have "\<dots> = fdt32_ld fdt (?s + o')" using k(13) gap(3) by (intro fdt32_ld_cong 2(8)) auto
    finally have "tok_in (fin_name f2) f2 o' (TBegin name) ?c"
      using bytes_at_wr [OF w] h 2(7) m1(2) b(3) k(13) name(1) by (simp add: add.assoc)
    then have "tree_toks f2 (pre @ [TBegin name] @ (prop_toks ps @ forest_toks ts @ TEnd # post))"
      using 2(7) sa by (intro fill_gap [OF 2(2-5)]) (auto simp del: tok_in.simps)
    then have "node_tree f2 o' pre (Node name ps ts) post"
      by (intro node_of_tree_toks [OF _ k(2)]) simp
    moreover have "edit_room fdt - ?r \<le> edit_room f2" using edit_room_write [OF sa lo] 2(10) gap(2) by simp
    moreover have "rsv_kept fdt f2"
      using k(13) by (intro rsv_kept_write [OF 2(11) sa lo]) simp
    ultimately show thesis using eq 2(1) w by (intro that(2)) simp_all
  qed
qed

section \<open>Appending to a property\<close>

definition append_prop :: "u8 list \<Rightarrow> u8 list \<Rightarrow> (u8 list \<times> u8 list) list \<Rightarrow> (u8 list \<times> u8 list) list" where
  "append_prop name val ps = put_prop (name, (case map_of ps name of None \<Rightarrow> [] | Some v \<Rightarrow> v) @ val) ps"

lemma appendprop_tree:
  assumes node: "node_tree fdt o' pre (Node nm ps ts) post" and name: "0 \<notin> set name" "int (length name) < 2147483632"
    and len: "int (length (case map_of ps name of None \<Rightarrow> [] | Some v \<Rightarrow> v)) + int (length val) < 2147483632"
  shows "\<exists>err fdt'. fdt_appendprop fdt o' name val = Some (err, fdt') \<and>
    node_tree fdt' o' pre (Node nm (if err = 0 then append_prop name val ps else ps) ts) post \<and> err \<in> {0, - FDT_ERR_NOSPACE} \<and>
    (13 + int (length name) + round4 (int (length (case map_of ps name of None \<Rightarrow> [] | Some v \<Rightarrow> v)) + int (length val)) \<le> edit_room fdt \<longrightarrow> err = 0)"
proof -
  note n = node [unfolded node_tree_toks]
  have inv: "edit_inv fdt" using n by (simp add: node_toks_def)
  note eq = fdt_appendprop_def FDT_RW_PROBE_def fdt_get_property_def edit_probe(2) [OF inv] edit_get_property [OF inv] Let_def
  show ?thesis
  proof (cases "map_of ps name")
    case None
    then have l: "lookup_prop name (prop_toks ps) = None" and len': "int (length val) < 2147483632" and
      new: "append_prop name val ps = (name, val) # ps"
      using len by (auto simp: lookup_prop_toks append_prop_def put_prop_def dest: map_of_eq_None_iff [THEN iffD1])
    show ?thesis
    proof (cases rule: add_property_cases [OF n name len'])
      case (1 fdt' p)
      then show ?thesis
        using node_get_property(1) [OF n l] None by (auto simp: eq simp flip: node_tree_toks)
    next
      case (2 f4 p fdt')
      have "wr_bytes f4 (p + 12) val = Some fdt'"
      proof (cases "val = []")
        case True
        then show ?thesis using 2(2,5,6) by (simp add: wr_bytes_def splice_def)
      qed (use 2(2) in simp)
      then show ?thesis
        using 2(1,3) node_get_property(1) [OF n l] new
        by (intro exI [of _ 0] exI [of _ fdt']) (simp add: eq node_tree_toks)
    qed
  next
    case (Some v)
    let ?w = "v @ val" and ?s = "uint (hdr fdt 8)"
    have l: "lookup_prop name (prop_toks ps) = Some v" and len': "int (length ?w) < 2147483644"
      using Some len by (auto simp: lookup_prop_toks)
    have new: "replace_prop name ?w (prop_toks ps) = prop_toks (append_prop name val ps)"
      using set_prop_toks [of name ?w ps] Some l by (simp add: set_prop_def append_prop_def)
    show ?thesis
    proof (cases rule: resize_value [OF n l len'])
      case (1 x)
      then show ?thesis using node Some by (auto simp: eq add.commute)
    next
      case (2 x f1 f2)
      let ?p = "?s + x + 12"
      obtain f3 where w: "wr_bytes f2 (?p + int (length v)) val = Some f3"
        using wr_bytes_total [of "?p + int (length v)" val f2] 2(4,5) by auto
      have "same_above ?p (?p + int (length ?w)) f2 f3"
        by (intro same_above_weaken [OF same_above_wr [OF w]]) auto
      moreover have "bytes_at f3 ?p v"
        using 2(7) rd8_wr_bytes_other [OF w] by (intro bytes_at_cong [OF 2(6)]) auto
      then have "bytes_at f3 ?p ?w" using bytes_at_wr [OF w] by (simp add: bytes_at_append)
      ultimately have "node_toks f3 o' pre nm (prop_toks (append_prop name val ps)) (forest_toks ts @ TEnd # post)"
        using 2(8) new by simp
      moreover have "fdt_appendprop fdt o' name val = Some (0, f3)"
        using 2(1-3) w by (simp add: eq add.commute [of "int (length val)"] algebra_simps)
      ultimately show ?thesis by (auto simp flip: node_tree_toks)
    qed
  qed
qed

section \<open>Edits as partial operations on a tree\<close>

datatype node_edit =
    SetProp "u8 list" "u8 list"
  | DelProp "u8 list"
  | SetName "u8 list"
  | AddSubnode "u8 list"
  | DelSubnode "u8 list"

text \<open>The call for each edit; a subnode is deleted by looking it up first.\<close>

fun do_edit :: "fdt \<Rightarrow> int \<Rightarrow> node_edit \<Rightarrow> (int \<times> fdt) option" where
  "do_edit fdt o' (SetProp name val) = fdt_setprop fdt o' name val"
| "do_edit fdt o' (DelProp name) = fdt_delprop fdt o' name"
| "do_edit fdt o' (SetName name) = fdt_set_name fdt o' name"
| "do_edit fdt o' (AddSubnode name) = fdt_add_subnode fdt o' name"
| "do_edit fdt o' (DelSubnode name) = do {
     off \<leftarrow> fdt_subnode_offset fdt o' name;
     if off < 0 then Some (off, fdt) else fdt_del_node fdt off }"

fun do_edits :: "fdt \<Rightarrow> int \<Rightarrow> node_edit list \<Rightarrow> (int list \<times> fdt) option" where
  "do_edits fdt o' [] = Some ([], fdt)"
| "do_edits fdt o' (a # as) = do { (ret, fdt) \<leftarrow> do_edit fdt o' a; (rets, fdt) \<leftarrow> do_edits fdt o' as; Some (ret # rets, fdt) }"

fun del_first :: "('a \<Rightarrow> bool) \<Rightarrow> 'a list \<Rightarrow> 'a list" where
  "del_first P [] = []"
| "del_first P (x # xs) = (if P x then xs else x # del_first P xs)"

text \<open>What an edit means for the tree: the error where the tree does not allow it, and the new tree otherwise.\<close>

fun edit_step :: "node_edit \<Rightarrow> dtree \<Rightarrow> int + dtree" where
  "edit_step (SetProp name val) (Node nm ps ts) = Inr (Node nm (put_prop (name, val) ps) ts)"
| "edit_step (DelProp name) (Node nm ps ts) =
     (if map_of ps name = None then Inl (- FDT_ERR_NOTFOUND) else Inr (Node nm (del_first (\<lambda>p. fst p = name) ps) ts))"
| "edit_step (SetName name) (Node nm ps ts) = Inr (Node name ps ts)"
| "edit_step (AddSubnode name) (Node nm ps ts) =
     (if \<exists>u \<in> set ts. name_matches name (node_name u) then Inl (- FDT_ERR_EXISTS) else Inr (Node nm ps (Node name [] [] # ts)))"
| "edit_step (DelSubnode name) (Node nm ps ts) =
     (if \<exists>u \<in> set ts. name_matches name (node_name u) then Inr (Node nm ps (del_first (\<lambda>u. name_matches name (node_name u)) ts))
      else Inl (- FDT_ERR_NOTFOUND))"

fun edit_cost :: "node_edit \<Rightarrow> int" where
  "edit_cost (SetProp name val) = prop_cost (name, val)"
| "edit_cost (SetName name) = round4 (int (length name) + 1)"
| "edit_cost (AddSubnode name) = node_cost name"
| "edit_cost _ = 0"

fun edit_ok :: "node_edit \<Rightarrow> bool" where
  "edit_ok (SetProp name val) \<longleftrightarrow> 0 \<notin> set name \<and> int (length name) < 2147483632 \<and> int (length val) < 2147483632"
| "edit_ok (SetName name) \<longleftrightarrow> 0 \<notin> set name \<and> int (length name) < 2147483632"
| "edit_ok (AddSubnode name) \<longleftrightarrow> 0 \<notin> set name \<and> int (length name) < 2147483632"
| "edit_ok _ \<longleftrightarrow> True"

text \<open>
  The outcome of a call whose meaning is \<open>s\<close> and which needs at most \<open>c\<close> bytes: it is the status and the tree of \<open>s\<close>, or the space
  error with the old tree where the room is less than \<open>c\<close>.
\<close>

definition performs :: "fdt \<Rightarrow> int \<Rightarrow> token list \<Rightarrow> token list \<Rightarrow> int \<Rightarrow> dtree \<Rightarrow> int + dtree \<Rightarrow> (int \<times> fdt) option \<Rightarrow> bool" where
  "performs fdt o' pre post c t s r \<longleftrightarrow> (\<exists>ret fdt'. r = Some (ret, fdt') \<and>
     rsv_kept fdt fdt' \<and>
     ((case s of Inl e \<Rightarrow> ret = e \<and> e < 0 \<and> node_tree fdt' o' pre t post | Inr t' \<Rightarrow> 0 \<le> ret \<and> node_tree fdt' o' pre t' post) \<and>
        edit_room fdt - c \<le> edit_room fdt'
      \<or> ret = - FDT_ERR_NOSPACE \<and> edit_room fdt < c \<and> node_tree fdt' o' pre t post))"

text \<open>The tree after an edit that may not be allowed, and the statuses a sequence of edits should have, success counted as 0.\<close>

definition edit_with :: "('a \<Rightarrow> dtree \<Rightarrow> int + dtree) \<Rightarrow> 'a \<Rightarrow> dtree \<Rightarrow> dtree" where
  "edit_with step a t = (case step a t of Inl _ \<Rightarrow> t | Inr t' \<Rightarrow> t')"

fun statuses :: "('a \<Rightarrow> dtree \<Rightarrow> int + dtree) \<Rightarrow> 'a list \<Rightarrow> dtree \<Rightarrow> int list" where
  "statuses step [] t = []"
| "statuses step (a # as) t = (case step a t of Inl e \<Rightarrow> e | Inr _ \<Rightarrow> 0) # statuses step as (edit_with step a t)"

text \<open>Edits of a node that keep this contract can be put in sequence.\<close>

locale node_edits =
  fixes call :: "fdt \<Rightarrow> int \<Rightarrow> 'a \<Rightarrow> (int \<times> fdt) option"
    and step :: "'a \<Rightarrow> dtree \<Rightarrow> int + dtree"
    and cost :: "'a \<Rightarrow> int"
    and ok :: "'a \<Rightarrow> bool"
    and scope :: "int \<Rightarrow> token list \<Rightarrow> token list \<Rightarrow> bool"
  assumes cost_nonneg: "0 \<le> cost a"
    and contract: "ok a \<Longrightarrow> scope o' pre post \<Longrightarrow> node_tree fdt o' pre t post \<Longrightarrow> performs fdt o' pre post (cost a) t (step a t) (call fdt o' a)"
begin

lemma call_cases:
  assumes "ok a" "scope o' pre post" "node_tree fdt o' pre t post"
  obtains ret fdt' where "call fdt o' a = Some (ret, fdt')" "min 0 ret = (case step a t of Inl e \<Rightarrow> e | Inr _ \<Rightarrow> 0)"
      "node_tree fdt' o' pre (if ret < 0 then t else edit_with step a t) post"
      "edit_room fdt - cost a \<le> edit_room fdt'" "rsv_kept fdt fdt'"
  | fdt' where "call fdt o' a = Some (- FDT_ERR_NOSPACE, fdt')" "edit_room fdt < cost a" "node_tree fdt' o' pre t post"
      "rsv_kept fdt fdt'"
proof -
  obtain ret f where r: "call fdt o' a = Some (ret, f)" "rsv_kept fdt f"
    "(case step a t of Inl e \<Rightarrow> ret = e \<and> e < 0 \<and> node_tree f o' pre t post | Inr t' \<Rightarrow> 0 \<le> ret \<and> node_tree f o' pre t' post) \<and>
        edit_room fdt - cost a \<le> edit_room f
      \<or> ret = - FDT_ERR_NOSPACE \<and> edit_room fdt < cost a \<and> node_tree f o' pre t post"
    using contract [OF assms] unfolding performs_def by blast
  from r(3) show thesis
  proof (elim disjE conjE)
    assume "case step a t of Inl e \<Rightarrow> ret = e \<and> e < 0 \<and> node_tree f o' pre t post | Inr t' \<Rightarrow> 0 \<le> ret \<and> node_tree f o' pre t' post"
      "edit_room fdt - cost a \<le> edit_room f"
    then show thesis using r(1,2) by (intro that(1)) (auto simp: edit_with_def split: sum.splits)
  next
    assume "ret = - FDT_ERR_NOSPACE" "edit_room fdt < cost a" "node_tree f o' pre t post"
    then show thesis using r(1,2) that(2) by simp
  qed
qed

lemma sequence:
  assumes run: "\<And>fdt. run fdt o' [] = Some ([], fdt)"
    "\<And>fdt a as. run fdt o' (a # as) = do { (ret, fdt) \<leftarrow> call fdt o' a; (rets, fdt) \<leftarrow> run fdt o' as; Some (ret # rets, fdt) }"
    and scope: "scope o' pre post"
  shows "list_all ok as \<Longrightarrow> node_tree fdt o' pre t post \<Longrightarrow>
    \<exists>rets fdt'. run fdt o' as = Some (rets, fdt') \<and> length rets = length as \<and> rsv_kept fdt fdt' \<and>
      node_tree fdt' o' pre (fold (\<lambda>(a, ret) t. if ret < 0 then t else edit_with step a t) (zip as rets) t) post \<and>
      (sum_list (map cost as) \<le> edit_room fdt \<longrightarrow> map (min 0) rets = statuses step as t \<and> node_tree fdt' o' pre (fold (edit_with step) as t) post)"
proof (induction as arbitrary: fdt t)
  case Nil
  then show ?case by (simp add: run)
next
  case (Cons a as)
  have nn: "0 \<le> sum_list (map cost as)" by (intro sum_list_nonneg) (auto simp: cost_nonneg)
  have a: "ok a" "list_all ok as" using Cons.prems(1) by simp_all
  from a(1) scope Cons.prems(2) show ?case
  proof (cases rule: call_cases)
    case (1 ret f)
    let ?t = "if ret < 0 then t else edit_with step a t"
    obtain rets f' where r: "run f o' as = Some (rets, f')" "length rets = length as" "rsv_kept f f'"
      "node_tree f' o' pre (fold (\<lambda>(a, ret) t. if ret < 0 then t else edit_with step a t) (zip as rets) ?t) post"
      "sum_list (map cost as) \<le> edit_room f \<longrightarrow> map (min 0) rets = statuses step as ?t \<and> node_tree f' o' pre (fold (edit_with step) as ?t) post"
      using Cons.IH [OF a(2) 1(3)] by blast
    have same: "?t = edit_with step a t" using 1(2) by (auto simp: edit_with_def split: sum.splits)
    show ?thesis
      using 1(1,2,4) r same rsv_kept_trans [OF 1(5) r(3)] by (intro exI [of _ "ret # rets"] exI [of _ f']) (auto simp: run split: sum.splits)
  next
    case (2 f)
    obtain rets f' where r: "run f o' as = Some (rets, f')" "length rets = length as" "rsv_kept f f'"
      "node_tree f' o' pre (fold (\<lambda>(a, ret) t. if ret < 0 then t else edit_with step a t) (zip as rets) t) post"
      using Cons.IH [OF a(2) 2(3)] by blast
    then show ?thesis
      using 2(1,2) nn rsv_kept_trans [OF 2(4) r(3)] by (intro exI [of _ "- FDT_ERR_NOSPACE # rets"] exI [of _ f']) (simp add: run)
  qed
qed

end

section \<open>The edits keep the contract\<close>

lemma delete_prop_toks: "delete_prop name (prop_toks ps) = prop_toks (del_first (\<lambda>p. fst p = name) ps)"
  by (induction ps) auto

lemma del_first_split:
  "\<forall>u \<in> set ts1. \<not> P u \<Longrightarrow> P t \<Longrightarrow> del_first P (ts1 @ t # ts2) = ts1 @ ts2"
  by (induction ts1) auto

lemma performs_setprop:
  assumes "node_tree fdt o' pre (Node nm ps ts) post" "0 \<notin> set name" "int (length name) < 2147483632" "int (length val) < 2147483632"
  shows "performs fdt o' pre post (prop_cost (name, val)) (Node nm ps ts) (Inr (Node nm (put_prop (name, val) ps) ts)) (fdt_setprop fdt o' name val)"
proof -
  obtain err fdt' where "fdt_setprop fdt o' name val = Some (err, fdt')"
    "node_toks fdt' o' pre nm (if err = 0 then set_prop name val (prop_toks ps) else prop_toks ps) (forest_toks ts @ TEnd # post)"
    "err \<in> {0, - FDT_ERR_NOSPACE}" "prop_cost (name, val) \<le> edit_room fdt \<longrightarrow> err = 0"
    "err = 0 \<longrightarrow> edit_room fdt - prop_cost (name, val) \<le> edit_room fdt'" "rsv_kept fdt fdt'"
    using setprop_node [OF assms(2-4) assms(1) [unfolded node_tree_toks]] unfolding prop_cost_def fst_conv snd_conv by blast
  then show ?thesis
    unfolding performs_def by (intro exI [of _ err] exI [of _ fdt']) (auto simp: node_tree_toks set_prop_toks)
qed

lemma performs_delprop:
  assumes "node_tree fdt o' pre (Node nm ps ts) post"
  shows "performs fdt o' pre post 0 (Node nm ps ts) (edit_step (DelProp name) (Node nm ps ts)) (fdt_delprop fdt o' name)"
  using delprop_node [OF assms [unfolded node_tree_toks], of name] assms
  by (cases "map_of ps name") (auto simp: performs_def lookup_prop_toks delete_prop_toks simp flip: node_tree_toks)

lemma performs_set_name:
  assumes "node_tree fdt o' pre (Node nm ps ts) post" "0 \<notin> set name" "int (length name) < 2147483632"
  shows "performs fdt o' pre post (round4 (int (length name) + 1)) (Node nm ps ts) (Inr (Node name ps ts)) (fdt_set_name fdt o' name)"
  by (rule set_name_tree [OF assms]) (auto simp: performs_def assms(1))

lemma performs_add_subnode:
  assumes node: "node_tree fdt o' pre (Node nm ps ts) post" and name: "0 \<notin> set name" "int (length name) < 2147483632"
  shows "performs fdt o' pre post (node_cost name) (Node nm ps ts) (edit_step (AddSubnode name) (Node nm ps ts)) (fdt_add_subnode fdt o' name)"
proof (cases "\<exists>u \<in> set ts. name_matches name (node_name u)")
  case True
  have inv: "edit_inv fdt" using node by (simp add: node_tree_def)
  obtain p where "fdt_subnode_offset_namelen fdt o' name = Some p" "0 \<le> p"
    using True by (cases rule: subnode_offset_at [OF node, of name]) auto
  then have "fdt_add_subnode fdt o' name = Some (- FDT_ERR_EXISTS, fdt)"
    using edit_probe(2) [OF inv] by (simp add: fdt_add_subnode_def fdt_add_subnode_namelen_def FDT_RW_PROBE_def)
  then show ?thesis using True node by (simp add: performs_def)
next
  case False
  then have fresh: "\<forall>u \<in> set ts. \<not> name_matches name (node_name u)" by simp
  have o': "edit_toks fdt 0 pre o'" using node by (auto simp: node_tree_def)
  from node fresh name show ?thesis
  proof (cases rule: add_subnode_tree)
    case 1
    then show ?thesis using False node by (simp add: performs_def node_cost_def)
  next
    case (2 off fdt')
    have "node_tree fdt' o' pre (Node nm ps (Node name [] [] # ts)) post"
      using 2(4) by (intro node_of_tree_toks [OF _ o']) simp
    then show ?thesis using False 2(1,2,5,6) by (simp add: performs_def node_cost_def)
  qed
qed

lemma performs_del_subnode:
  assumes node: "node_tree fdt o' pre (Node nm ps ts) post"
  shows "performs fdt o' pre post 0 (Node nm ps ts) (edit_step (DelSubnode name) (Node nm ps ts)) (do_edit fdt o' (DelSubnode name))"
proof (cases rule: subnode_offset_at [OF node, of name])
  case (1 ts1 t ts2 p)
  have o': "edit_toks fdt 0 pre o'" using node by (auto simp: node_tree_def)
  obtain fdt' where f: "fdt_del_node fdt p = Some (0, fdt')"
    "tree_toks fdt' ((pre @ TBegin nm # prop_toks ps @ forest_toks ts1) @ (forest_toks ts2 @ TEnd # post))" "edit_room fdt \<le> edit_room fdt'"
    "rsv_kept fdt fdt'"
    using del_node_toks [OF 1(6)] by blast
  have "node_tree fdt' o' pre (Node nm ps (ts1 @ ts2)) post"
    using f(2) by (intro node_of_tree_toks [OF _ o']) simp
  moreover have "edit_step (DelSubnode name) (Node nm ps ts) = Inr (Node nm ps (ts1 @ ts2))"
    using del_first_split [OF 1(2,3)] 1(1,3) by simp
  ultimately show ?thesis
    using 1(4,5) f(1,3,4) by (simp add: performs_def fdt_subnode_offset_def)
next
  case 2
  then show ?thesis using node by (simp add: performs_def fdt_subnode_offset_def)
qed

interpretation ed: node_edits do_edit edit_step edit_cost edit_ok "\<lambda>_ _ _. True"
proof
  fix a :: node_edit and fdt :: fdt and o' :: int and pre t post
  show "0 \<le> edit_cost a"
    using round4_bounds(1) by (cases a) (auto intro: order_trans [OF _ round4_bounds(1)])
  assume ok: "edit_ok a" and node: "node_tree fdt o' pre t post"
  obtain nm ps ts where t: "t = Node nm ps ts" by (cases t)
  note n = node [unfolded t]
  show "performs fdt o' pre post (edit_cost a) t (edit_step a t) (do_edit fdt o' a)"
  proof (cases a)
    case (SetProp name val)
    then show ?thesis using performs_setprop [OF n] ok by (simp add: t)
  next
    case (DelProp name)
    then show ?thesis using performs_delprop [OF n] by (simp only: t do_edit.simps edit_cost.simps)
  next
    case (SetName name)
    then show ?thesis using performs_set_name [OF n] ok by (simp add: t)
  next
    case (AddSubnode name)
    then show ?thesis using performs_add_subnode [OF n] ok by (simp only: t do_edit.simps edit_cost.simps edit_ok.simps) blast
  next
    case (DelSubnode name)
    then show ?thesis using performs_del_subnode [OF n] by (simp only: t edit_cost.simps)
  qed
qed

section \<open>Properties\<close>

text \<open>C6: Any sequence of \<^verbatim>\<open>fdt_setprop\<close>, \<^verbatim>\<open>fdt_delprop\<close>, \<^verbatim>\<open>fdt_set_name\<close>, \<^verbatim>\<open>fdt_add_subnode\<close> and (after a lookup) \<^verbatim>\<open>fdt_del_node\<close> calls on a
  node of a blob open for editing returns, and refines the same sequence of operations on the tree.  The node ends up as the tree in
  which the successful calls were applied and the failed ones left out, in its old place between the old tokens, and the reservation map is untouched.  Where the free bytes
  hold all names, headers and padded values, the statuses are exactly the ones the operations on the tree prescribe: no call runs out of
  space, and only a missing property or subnode and an existing subnode are errors.\<close>

theorem fdt_edits_refine:
  assumes "node_tree fdt o' pre t post" "list_all edit_ok as"
  shows "\<exists>rets fdt'. do_edits fdt o' as = Some (rets, fdt') \<and> length rets = length as \<and> rsv_kept fdt fdt' \<and>
    node_tree fdt' o' pre (fold (\<lambda>(a, ret) t. if ret < 0 then t else edit_with edit_step a t) (zip as rets) t) post \<and>
    (sum_list (map edit_cost as) \<le> edit_room fdt \<longrightarrow>
       map (min 0) rets = statuses edit_step as t \<and> node_tree fdt' o' pre (fold (edit_with edit_step) as t) post)"
  by (rule ed.sequence [where run = do_edits, OF do_edits.simps TrueI assms(2,1)])

theorem fdt_edits_refine_witness:
  "\<exists>rets fdt'. do_edits slack_fdt 0 [AddSubnode [98], SetProp [97] [5, 6], DelProp [99]] = Some (rets, fdt') \<and>
    map (min 0) rets = [0, 0, - FDT_ERR_NOTFOUND] \<and> node_tree fdt' 0 [] (Node [] [([97], [5, 6])] [Node [98] [] []]) []"
  using fdt_edits_refine [OF slack_tree, of "[AddSubnode [98], SetProp [97] [5, 6], DelProp [99]]"]
  by (auto simp: slack_room prop_cost_def node_cost_def round4_def edit_with_def put_prop_def)

text \<open>C27: \<^verbatim>\<open>fdt_appendprop\<close> appends the bytes to the value of the property, or makes a new property with them, and returns 0, always where the
  free bytes hold the name, a header and the padded new value; without room it returns \<^verbatim>\<open>-FDT_ERR_NOSPACE\<close> and the node is as before.\<close>

theorem fdt_appendprop_refines:
  assumes "node_tree fdt o' pre (Node nm ps ts) post" "0 \<notin> set name" "int (length name) < 2147483632"
    "int (length (case map_of ps name of None \<Rightarrow> [] | Some v \<Rightarrow> v)) + int (length val) < 2147483632"
  shows "\<exists>err fdt'. fdt_appendprop fdt o' name val = Some (err, fdt') \<and>
    node_tree fdt' o' pre (Node nm (if err = 0 then append_prop name val ps else ps) ts) post \<and> err \<in> {0, - FDT_ERR_NOSPACE} \<and>
    (13 + int (length name) + round4 (int (length (case map_of ps name of None \<Rightarrow> [] | Some v \<Rightarrow> v)) + int (length val)) \<le> edit_room fdt \<longrightarrow> err = 0)"
  by (rule appendprop_tree [OF assms])

theorem fdt_appendprop_refines_witness:
  "\<exists>fdt'. fdt_appendprop slack_fdt 0 [97] [2, 3] = Some (0, fdt') \<and> node_tree fdt' 0 [] (Node [] [([97], [1, 2, 3])] []) []"
  using fdt_appendprop_refines [OF slack_tree, of "[97]" "[2, 3]"]
  by (auto simp: append_prop_def put_prop_def slack_room round4_def)

end
