(* ===== verification/Fdt_Lifecycle.thy ===== *)
theory Fdt_Lifecycle
  imports Fdt_Accept Fdt_Update
begin

unbundle bit_operations_syntax

text \<open>
  The life of a tree: it is created empty in a buffer, edited at nodes that paths name, packed, and accepted by the full check.
\<close>

section \<open>Edits at paths\<close>

text \<open>The calls of a client that looks a node up by its path and edits it there.  The offset argument is that of the root.\<close>

fun do_path_edit :: "fdt \<Rightarrow> int \<Rightarrow> u8 list \<times> node_edit \<Rightarrow> (int \<times> fdt) option" where
  "do_path_edit fdt _ (path, a) = do {
     off \<leftarrow> fdt_path_offset_namelen fdt path;
     if off < 0 then Some (off, fdt) else do_edit fdt off a }"

fun do_path_edits :: "fdt \<Rightarrow> int \<Rightarrow> (u8 list \<times> node_edit) list \<Rightarrow> (int list \<times> fdt) option" where
  "do_path_edits fdt o' [] = Some ([], fdt)"
| "do_path_edits fdt o' (a # as) =
     do { (ret, fdt) \<leftarrow> do_path_edit fdt o' a; (rets, fdt) \<leftarrow> do_path_edits fdt o' as; Some (ret # rets, fdt) }"

fun path_step :: "u8 list \<times> node_edit \<Rightarrow> dtree \<Rightarrow> int + dtree" where
  "path_step (path, a) t =
     (case descend (components path) t of
        None \<Rightarrow> Inl (- FDT_ERR_NOTFOUND)
      | Some u \<Rightarrow> (case edit_step a u of Inl e \<Rightarrow> Inl e | Inr v \<Rightarrow> Inr (update_at (components path) (\<lambda>_. v) t)))"

definition path_ok :: "u8 list \<times> node_edit \<Rightarrow> bool" where
  "path_ok pa \<longleftrightarrow> fst pa \<noteq> [] \<and> hd (fst pa) = 0x2f \<and> edit_ok (snd pa)"

lemma update_at_same: "descend cs t = Some u \<Longrightarrow> update_at cs (\<lambda>_. u) t = t"
proof (induction cs arbitrary: t)
  case (Cons c cs)
  obtain nm ps ts where t: "t = Node nm ps ts" by (cases t)
  obtain v where v: "List.find (\<lambda>u. name_matches c (node_name u)) ts = Some v" "descend cs v = Some u"
    using Cons.prems t by (auto split: option.splits)
  have "upd_first P f us = us" if "List.find P us = Some v" "f v = v" for P f us
    using that by (induction us) (auto split: if_splits)
  then show ?case using v Cons.IH [OF v(2)] t by simp
qed simp

lemma performs_path:
  assumes node: "node_tree fdt 0 [] t []" and ok: "path_ok (path, a)"
  shows "performs fdt 0 [] [] (edit_cost a) t (path_step (path, a) t) (do_path_edit fdt 0 (path, a))"
proof -
  have cost: "0 \<le> edit_cost a" by (rule ed.cost_nonneg)
  have p: "path \<noteq> []" "hd path = 0x2f" "edit_ok a" using ok by (simp_all add: path_ok_def)
  have "edit_inv fdt" using node by (simp add: node_tree_def)
  then have walk: "fdt_path_offset_namelen fdt path = path_walk fdt 0 path"
    using edit_probe(1) [of fdt] p by (simp add: fdt_path_offset_namelen_def path_offset_body_def FDT_RO_PROBE_def leD)
  note at = path_walk_tree [OF node, of path]
  show ?thesis
  proof (cases "descend (components path) t")
    case None
    then show ?thesis using at walk cost node by (simp add: performs_def)
  next
    case (Some u)
    obtain q pre post where q: "path_walk fdt 0 path = Some q" "0 \<le> q" "node_tree fdt q pre u post"
      "\<And>fdt' c f r. becomes fdt' q pre post c (f u) r \<Longrightarrow> becomes fdt' 0 [] [] c (update_at (components path) f t) r"
      using at Some by auto
    have lift: "node_tree f 0 [] (update_at (components path) (\<lambda>_. v) t) []" if "node_tree f q pre v post" for f v
      using q(4) [where f = "\<lambda>_. v", OF becomes_done [OF that]] by (simp add: becomes_def)
    have same: "node_tree f 0 [] t []" if "node_tree f q pre u post" for f
      using lift [OF that] update_at_same [OF Some] by simp
    have "performs fdt q pre post (edit_cost a) u (edit_step a u) (do_edit fdt q a)"
      by (rule ed.contract [OF p(3) TrueI q(3)])
    moreover have "do_path_edit fdt 0 (path, a) = do_edit fdt q a" using walk q(1,2) by simp
    ultimately show ?thesis
      using Some lift same unfolding performs_def by (fastforce split: sum.splits)
  qed
qed

interpretation pe: node_edits do_path_edit path_step "\<lambda>pa. edit_cost (snd pa)" path_ok "\<lambda>o' pre post. o' = 0 \<and> pre = [] \<and> post = []"
proof
  fix pa :: "u8 list \<times> node_edit" and fdt :: fdt and o' :: int and pre t post
  show "0 \<le> edit_cost (snd pa)" by (rule ed.cost_nonneg)
  assume "path_ok pa" "o' = 0 \<and> pre = [] \<and> post = []" "node_tree fdt o' pre t post"
  then show "performs fdt o' pre post (edit_cost (snd pa)) t (path_step pa t) (do_path_edit fdt o' pa)"
    using performs_path [of fdt t "fst pa" "snd pa"] by simp
qed

section \<open>From the empty tree to an accepted blob\<close>

lemma kept_holds:
  assumes "holds_open fdt rs ts" "rsv_kept fdt fdt'" "tree_toks fdt' us"
  shows "holds_open fdt' rs us"
proof (rule holds_openI [OF assms(3)])
  have k: "hdr fdt' 8 = hdr fdt 8" "hdr fdt' 16 = hdr fdt 16" "\<forall>q. 40 \<le> q \<and> q < uint (hdr fdt 8) \<longrightarrow> rd8 fdt' q = rd8 fdt q"
    using assms(2) by (simp_all add: rsv_kept_def)
  have h: "40 \<le> uint (hdr fdt 16)" "uint (hdr fdt 16) + rsv_size rs \<le> uint (hdr fdt 8)" "rsv_in fdt (uint (hdr fdt 16)) rs"
    using assms(1) by (simp_all add: holds_open_def holds_def in_order_def)
  show "uint (hdr fdt' 16) + rsv_size rs \<le> uint (hdr fdt' 8)" using h(2) by (simp add: k(1,2))
  have "rsv_in fdt' (uint (hdr fdt 16)) rs"
  proof (rule rsv_in_cong [OF h(3)])
    fix q assume "uint (hdr fdt 16) \<le> q" "q < uint (hdr fdt 16) + rsv_size rs"
    then have "40 \<le> q" "q < uint (hdr fdt 8)" using h(1,2) by linarith+
    then show "rd8 fdt' q = rd8 fdt q" using k(3) by blast
  qed
  then show "rsv_in fdt' (uint (hdr fdt' 16)) rs" by (simp only: k(2))
qed

text \<open>C5: The life of a tree.  In a buffer with room for the empty tree and for what the edits add, \<^verbatim>\<open>fdt_create_empty_tree\<close> succeeds; every
  sequence of edits, each at the node that an absolute path leads to, returns the statuses that the operations on the tree prescribe;
  \<^verbatim>\<open>fdt_pack\<close> then leaves a blob without free room that holds exactly the tree the operations give; and \<^verbatim>\<open>fdt_check_full\<close> accepts that blob,
  unless the root was given a name.\<close>

theorem fdt_lifecycle:
  assumes "bufsize \<le> int (length (fdt_bytes buf))" "length (fdt_bytes buf) < 2147483644" "fdt_addr buf AND 7 = 0"
    "list_all path_ok as" "80 + sum_list (map (\<lambda>pa. edit_cost (snd pa)) as) \<le> bufsize"
    "t = fold (edit_with path_step) as (Node [] [] [])"
  shows "\<exists>f1 rets f2 f3. fdt_create_empty_tree buf bufsize = Some (0, f1) \<and>
    do_path_edits f1 0 as = Some (rets, f2) \<and> map (min 0) rets = statuses path_step as (Node [] [] []) \<and>
    fdt_pack f2 = Some (0, f3) \<and> holds_open f3 [] (tokens t) \<and> edit_room f3 = 0 \<and>
    (node_name t = [] \<longrightarrow> (\<forall>size. uint (hdr f3 4) \<le> uint size \<longrightarrow> fdt_check_full f3 size = Some 0))"
proof -
  have "0 \<le> sum_list (map (\<lambda>pa. edit_cost (snd pa)) as)" by (intro sum_list_nonneg) (auto simp: ed.cost_nonneg)
  then obtain f1 where f1: "fdt_create_empty_tree buf bufsize = Some (0, f1)" "holds_open f1 [] [TBegin [], TEnd]" "edit_room f1 = bufsize - 80"
    using empty_tree_at [OF assms(1-3)] assms(5) by auto
  have "node_tree f1 0 [] (Node [] [] []) []"
    using holds_open_tree [OF f1(2)] by (intro node_of_tree_toks) simp_all
  then obtain rets f2 where f2: "do_path_edits f1 0 as = Some (rets, f2)" "rsv_kept f1 f2"
    "map (min 0) rets = statuses path_step as (Node [] [] [])" "node_tree f2 0 [] t []"
    using pe.sequence [where run = do_path_edits, OF do_path_edits.simps _ assms(4)] f1(3) assms(5,6) by fastforce
  have h2: "holds_open f2 [] (tokens t)"
    by (rule kept_holds [OF f1(2) f2(2)]) (use node_tree_tree [OF f2(4)] in simp)
  obtain f3 where f3: "fdt_pack f2 = Some (0, f3)" "holds_open f3 [] (tokens t)" "edit_room f3 = 0" "blocks_aligned f3"
    using pack_at [OF h2] by (auto simp: blocks_aligned_def rsv_size_def)
  have "fdt_check_full f3 size = Some 0" if "node_name t = []" "uint (hdr f3 4) \<le> uint size" for size
  proof (cases t)
    case (Node nm ps ts)
    then show ?thesis using check_full_at [of f3 "[]" ps ts size] f3(2,4) that by simp
  qed
  then show ?thesis using f1(1) f2(1,3) f3(1-3) by blast
qed

text \<open>A child \<open>b\<close> is added to the root, gets the property \<open>x\<close>, and a property that the root does not have is deleted.\<close>

definition sample_edits :: "(u8 list \<times> node_edit) list" where
  "sample_edits = [([0x2f], AddSubnode [98]), ([0x2f, 98], SetProp [120] [1]), ([0x2f], DelProp [121])]"

lemma sample_edits_fold: "fold (edit_with path_step) sample_edits (Node [] [] []) = Node [] [] [Node [98] [([120], [1])] []]"
  by (simp add: sample_edits_def edit_with_def name_matches_def put_prop_def)

theorem fdt_lifecycle_witness:
  "\<exists>f1 rets f2 f3. fdt_create_empty_tree fresh_buffer 256 = Some (0, f1) \<and>
    do_path_edits f1 0 sample_edits = Some (rets, f2) \<and> map (min 0) rets = [0, 0, - FDT_ERR_NOTFOUND] \<and> fdt_pack f2 = Some (0, f3) \<and>
    holds_open f3 [] (tokens (Node [] [] [Node [98] [([120], [1])] []]))"
proof -
  have "list_all path_ok sample_edits" "sum_list (map (\<lambda>pa. edit_cost (snd pa)) sample_edits) = 30"
    "statuses path_step sample_edits (Node [] [] []) = [0, 0, - FDT_ERR_NOTFOUND]"
    by (simp_all add: sample_edits_def path_ok_def node_cost_def prop_cost_def round4_def edit_with_def name_matches_def put_prop_def)
  then show ?thesis
    using fdt_lifecycle [of 256 fresh_buffer sample_edits, OF _ _ _ _ _ refl]
    unfolding sample_edits_fold by (auto simp: fresh_buffer_def simp del: tokens.simps)
qed

end
