(* ===== verification/Bitops.thy ===== *)
theory Bitops
  imports Prelude
begin

unbundle bit_operations_syntax

text \<open>
  The macros of \<^verbatim>\<open>lib/mylib/bitops.h\<close>. The value operand has any width; masks are built with
  \<^verbatim>\<open>1UL\<close> and are 64 bits wide, so the macros widen the value, combine it with the mask and
  truncate the result to the width of the assigned variable.
\<close>

definition BIT2MASK :: "nat \<Rightarrow> u64" where
  "BIT2MASK n = push_bit n 1"

definition SET_BIT :: "'a::len word \<Rightarrow> nat \<Rightarrow> 'a word" where
  "SET_BIT value i = ucast (ucast value OR BIT2MASK i)"

definition GET_BIT :: "'a::len word \<Rightarrow> nat \<Rightarrow> u64" where
  "GET_BIT value i = ucast (drop_bit i value) AND 1"

definition CLEAR_BIT :: "'a::len word \<Rightarrow> nat \<Rightarrow> 'a word" where
  "CLEAR_BIT value i = ucast (ucast value AND NOT (BIT2MASK i))"

definition TOGGLE_BIT :: "'a::len word \<Rightarrow> nat \<Rightarrow> 'a word" where
  "TOGGLE_BIT value i = ucast (ucast value XOR BIT2MASK i)"

definition TEST_BIT :: "'a::len word \<Rightarrow> nat \<Rightarrow> bool" where
  "TEST_BIT value i \<longleftrightarrow> ucast value AND BIT2MASK i \<noteq> 0"

definition SET_MASK :: "'a::len word \<Rightarrow> u64 \<Rightarrow> 'a word" where
  "SET_MASK value msk = ucast (ucast value OR msk)"

definition GET_MASK :: "'a::len word \<Rightarrow> u64 \<Rightarrow> u64" where
  "GET_MASK value msk = ucast value AND msk"

definition CLR_MASK :: "'a::len word \<Rightarrow> u64 \<Rightarrow> 'a word" where
  "CLR_MASK value msk = ucast (ucast value AND NOT msk)"

definition TOGGLE_MASK :: "'a::len word \<Rightarrow> u64 \<Rightarrow> 'a word" where
  "TOGGLE_MASK value msk = ucast (ucast value XOR msk)"

definition TEST_MASK :: "'a::len word \<Rightarrow> u64 \<Rightarrow> bool" where
  "TEST_MASK value msk \<longleftrightarrow> ucast value AND msk = msk"

definition TEST_ANY_MASK :: "'a::len word \<Rightarrow> u64 \<Rightarrow> bool" where
  "TEST_ANY_MASK value msk \<longleftrightarrow> ucast value AND msk \<noteq> 0"

definition EXTRACT_FIELD :: "u64 \<Rightarrow> u64 \<Rightarrow> nat \<Rightarrow> u64" where
  "EXTRACT_FIELD value msk shift = drop_bit shift (value AND msk)"

definition ALIGN_UP :: "u64 \<Rightarrow> u64 \<Rightarrow> u64" where
  "ALIGN_UP sz alignment = (sz + alignment - 1) AND NOT (alignment - 1)"

section \<open>What the macros do to single bits\<close>

lemma bit_BIT2MASK: "bit (BIT2MASK i) n \<longleftrightarrow> n = i \<and> n < 64"
  by (auto simp: BIT2MASK_def bit_simps)

lemma bit_SET_MASK:
  "bit (SET_MASK (v :: 'a::len word) msk) n \<longleftrightarrow> n < LENGTH('a) \<and> n < 64 \<and> (bit v n \<or> bit msk n)"
  by (auto simp: SET_MASK_def bit_simps dest: bit_imp_le_length)

lemma bit_CLR_MASK:
  "bit (CLR_MASK (v :: 'a::len word) msk) n \<longleftrightarrow> n < LENGTH('a) \<and> n < 64 \<and> bit v n \<and> \<not> bit msk n"
  by (auto simp: CLR_MASK_def bit_simps dest: bit_imp_le_length)

lemma GET_BIT_iff: "GET_BIT (v :: 'a::len word) i \<noteq> 0 \<longleftrightarrow> bit v i"
proof
  assume "GET_BIT v i \<noteq> 0"
  then have "bit (GET_BIT v i) 0"
    by (simp add: GET_BIT_def and_one_eq split: if_splits)
  then show "bit v i"
    by (simp add: GET_BIT_def bit_simps)
next
  assume "bit v i"
  then have "bit (GET_BIT v i) 0"
    by (simp add: GET_BIT_def bit_simps)
  then show "GET_BIT v i \<noteq> 0"
    by auto
qed

section \<open>Rounding to a power of two\<close>

lemma unat_and_not_mask: "unat (w AND NOT (2 ^ k - 1) :: u64) = unat w div 2 ^ k * 2 ^ k"
proof -
  have "unat (w AND NOT (mask k) :: u64) = push_bit k (drop_bit k (unat w))"
    by (rule bit_eqI) (auto simp: bit_simps dest: bit_imp_le_length)
  then show ?thesis
    by (simp add: mask_eq_decr_exp push_bit_eq_mult drop_bit_eq_div)
qed

lemma unat_mask_u64: "k \<le> 64 \<Longrightarrow> unat (2 ^ k - 1 :: u64) = 2 ^ k - 1"
proof -
  assume "k \<le> 64"
  then have "unat (mask k :: u64) = mask k"
    by (intro bit_eqI) (auto simp: bit_simps)
  then show ?thesis
    by (simp add: mask_eq_decr_exp mask_eq_exp_minus_1)
qed

text \<open>
  The rounding lemma used by the allocator and the device tree code: absent wrap-around,
  \<^const>\<open>ALIGN_UP\<close> to a power of two gives the least multiple that is not below its argument.
\<close>

lemma unat_ALIGN_UP:
  assumes "k < 64" and "unat x + 2 ^ k \<le> 2 ^ 64"
  shows "unat (ALIGN_UP x (2 ^ k)) = (unat x + 2 ^ k - 1) div 2 ^ k * 2 ^ k"
proof -
  have p: "unat (2 ^ k - 1 :: u64) = 2 ^ k - 1"
    using assms(1) by (simp add: unat_mask_u64)
  have "unat (x + (2 ^ k - 1)) = unat x + (2 ^ k - 1)"
  proof (subst unat_add_u64)
    have "(1 :: nat) \<le> 2 ^ k"
      by simp
    with assms(2) show "unat x + unat (2 ^ k - 1 :: u64) < 2 ^ 64"
      unfolding p by linarith
  qed (simp add: p)
  then have "unat (x + 2 ^ k - 1) = unat x + 2 ^ k - 1"
    by (simp add: add_diff_eq)
  then show ?thesis
    by (simp add: ALIGN_UP_def unat_and_not_mask)
qed

end
