(* ===== verification/Intrusive_List.thy ===== *)
theory Intrusive_List
  imports Prelude
begin

text \<open>
  The intrusive circular doubly linked list of \<^verbatim>\<open>lib/mylib/list/list.h\<close> on the byte memory.
  A \<^verbatim>\<open>struct list_node\<close> at address \<open>p\<close> has its \<^verbatim>\<open>prev\<close> pointer at \<open>p\<close> and its
  \<^verbatim>\<open>next\<close> pointer at \<open>p + 8\<close>. The predicate \<open>ring m h ns\<close> says that the list headed at \<open>h\<close>
  holds exactly the nodes \<open>ns\<close>, in order, with both directions of links consistent; every
  operation of the header is shown to act on \<open>ns\<close> as the list operation its name promises.
\<close>

section \<open>The operations\<close>

abbreviation node_prev :: "mem \<Rightarrow> ptr \<Rightarrow> ptr" where
  "node_prev m p \<equiv> ld64 m p"

abbreviation node_next :: "mem \<Rightarrow> ptr \<Rightarrow> ptr" where
  "node_next m p \<equiv> ld64 m (p + 8)"

abbreviation set_prev :: "mem \<Rightarrow> ptr \<Rightarrow> ptr \<Rightarrow> mem" where
  "set_prev m p v \<equiv> st64 m p v"

abbreviation set_next :: "mem \<Rightarrow> ptr \<Rightarrow> ptr \<Rightarrow> mem" where
  "set_next m p v \<equiv> st64 m (p + 8) v"

definition list_init :: "mem \<Rightarrow> ptr \<Rightarrow> mem" where
  "list_init m head = (let m = set_next m head head in set_prev m head head)"

definition list_add_between :: "mem \<Rightarrow> ptr \<Rightarrow> ptr \<Rightarrow> ptr \<Rightarrow> mem" where
  "list_add_between m newn prev next =
     (let m = set_next m newn next;
          m = set_prev m newn prev;
          m = set_next m prev newn
      in set_prev m next newn)"

definition list_add :: "mem \<Rightarrow> ptr \<Rightarrow> ptr \<Rightarrow> mem" where
  "list_add m newn head = list_add_between m newn head (node_next m head)"

definition list_add_tail :: "mem \<Rightarrow> ptr \<Rightarrow> ptr \<Rightarrow> mem" where
  "list_add_tail m newn head = list_add_between m newn (node_prev m head) head"

definition list_del_between :: "mem \<Rightarrow> ptr \<Rightarrow> ptr \<Rightarrow> mem" where
  "list_del_between m prev next = (let m = set_next m prev next in set_prev m next prev)"

definition list_del :: "mem \<Rightarrow> ptr \<Rightarrow> mem" where
  "list_del m entry =
     (let m = list_del_between m (node_prev m entry) (node_next m entry);
          m = set_next m entry NULL
      in set_prev m entry NULL)"

definition list_del_init :: "mem \<Rightarrow> ptr \<Rightarrow> mem" where
  "list_del_init m entry =
     (let m = list_del_between m (node_prev m entry) (node_next m entry) in list_init m entry)"

definition list_move_head :: "mem \<Rightarrow> ptr \<Rightarrow> ptr \<Rightarrow> mem" where
  "list_move_head m entry head =
     (let m = list_del_between m (node_prev m entry) (node_next m entry) in list_add m entry head)"

definition list_move_tail :: "mem \<Rightarrow> ptr \<Rightarrow> ptr \<Rightarrow> mem" where
  "list_move_tail m entry head =
     (let m = list_del_between m (node_prev m entry) (node_next m entry)
      in list_add_tail m entry head)"

definition container_of :: "ptr \<Rightarrow> u64 \<Rightarrow> ptr" where
  "container_of p member_offset = p - member_offset"

text \<open>
  The nodes visited by \<^verbatim>\<open>list_for_each\<close> with a body that changes nothing, from the node
  \<open>it\<close> on. The loop of the source does not end on a corrupted list; not ending is \<open>None\<close>.
\<close>

partial_function (option) list_for_each :: "mem \<Rightarrow> ptr \<Rightarrow> ptr \<Rightarrow> ptr list option" where
  [code]: "list_for_each m head it =
     (if it = head then Some []
      else do { rest \<leftarrow> list_for_each m head (node_next m it); Some (it # rest) })"

section \<open>Doubly linked segments\<close>

text \<open>
  \<open>dseg nx pv a xs b\<close>: following \<open>nx\<close> from \<open>a\<close> one meets the nodes \<open>xs\<close> and then \<open>b\<close>, and
  \<open>pv\<close> leads back from each node to the one before.
\<close>

primrec dseg :: "(ptr \<Rightarrow> ptr) \<Rightarrow> (ptr \<Rightarrow> ptr) \<Rightarrow> ptr \<Rightarrow> ptr list \<Rightarrow> ptr \<Rightarrow> bool" where
  "dseg nx pv a [] b \<longleftrightarrow> nx a = b \<and> pv b = a"
| "dseg nx pv a (x # xs) b \<longleftrightarrow> nx a = x \<and> pv x = a \<and> dseg nx pv x xs b"

text \<open>Nodes occupy 16 bytes each, inside the address space and without overlap.\<close>

definition node_set :: "ptr set \<Rightarrow> bool" where
  "node_set S \<longleftrightarrow> (\<forall>p\<in>S. unat p + 16 \<le> 2 ^ 64) \<and>
     (\<forall>p\<in>S. \<forall>q\<in>S. p \<noteq> q \<longrightarrow> unat p + 16 \<le> unat q \<or> unat q + 16 \<le> unat p)"

definition ring :: "mem \<Rightarrow> ptr \<Rightarrow> ptr list \<Rightarrow> bool" where
  "ring m h ns \<longleftrightarrow> dseg (node_next m) (node_prev m) h ns h \<and> distinct (h # ns)
     \<and> node_set (insert h (set ns))"

lemma dseg_append:
  "dseg nx pv a (xs @ x # ys) b \<longleftrightarrow> dseg nx pv a xs x \<and> dseg nx pv x ys b"
  by (induction xs arbitrary: a) auto

lemma dseg_cong:
  assumes "\<And>p. p \<in> insert a (set xs) \<Longrightarrow> nx p = nx' p"
    and "\<And>p. p \<in> insert b (set xs) \<Longrightarrow> pv p = pv' p"
  shows "dseg nx pv a xs b \<longleftrightarrow> dseg nx' pv' a xs b"
  using assms by (induction xs arbitrary: a) auto

lemma dseg_first: "dseg nx pv a xs b \<Longrightarrow> nx a = hd (xs @ [b])"
  by (cases xs) auto

lemma dseg_last: "dseg nx pv a xs b \<Longrightarrow> pv b = last (a # xs)"
  by (induction xs arbitrary: a) auto

text \<open>Linking a node in at the front, linking one in at the back, and bypassing one.\<close>

lemma dseg_push_front:
  assumes "dseg nx pv a xs b" and "distinct xs" and "a \<notin> set xs" and "b \<notin> set xs"
    and "n \<notin> insert a (insert b (set xs))"
  shows "dseg (nx(n := nx a, a := n)) (pv(n := a, nx a := n)) a (n # xs) b"
proof (cases xs)
  case Nil
  with assms show ?thesis by auto
next
  case (Cons x ys)
  with assms have "dseg nx pv x ys b" and x: "nx a = x"
    by auto
  then have "dseg (nx(n := nx a, a := n)) (pv(n := a, nx a := n)) x ys b"
    using assms Cons by (subst dseg_cong [symmetric, where nx = nx and pv = pv]) auto
  with Cons x assms show ?thesis by auto
qed

lemma dseg_bypass:
  assumes "dseg nx pv a xs x" and "dseg nx pv x ys b"
    and "distinct (xs @ x # ys)" and "a \<notin> set (xs @ x # ys)" and "b \<notin> set (xs @ x # ys)"
  shows "dseg (nx(pv x := nx x)) (pv(nx x := pv x)) a (xs @ ys) b"
  using assms
proof (induction xs arbitrary: a)
  case Nil
  then have a: "pv x = a" "nx a = x"
    by auto
  show ?case
  proof (cases ys)
    case Nil
    with a Nil.prems show ?thesis by simp
  next
    case (Cons y zs)
    with Nil.prems have y: "nx x = y" and "dseg nx pv y zs b"
      by auto
    then have "dseg (nx(pv x := nx x)) (pv(nx x := pv x)) y zs b"
      using Nil.prems a Cons by (subst dseg_cong [symmetric, where nx = nx and pv = pv]) auto
    with a y Cons Nil.prems show ?thesis by (auto simp: fun_upd_def)
  qed
next
  case (Cons z zs)
  have IH: "dseg (nx(pv x := nx x)) (pv(nx x := pv x)) z (zs @ ys) b"
    by (rule Cons.IH) (use Cons.prems in auto)
  have "pv x = last (z # zs)" and "nx x = hd (ys @ [b])"
    using Cons.prems dseg_last [of nx pv z zs x] dseg_first [of nx pv x ys b] by auto
  moreover have "last (z # zs) \<in> set (z # zs)" and "hd (ys @ [b]) \<in> insert b (set ys)"
    by (rule last_in_set, simp) (cases ys, auto)
  ultimately have "pv x \<noteq> a" and "nx x \<noteq> z"
    using Cons.prems by auto
  with IH Cons.prems show ?case by (auto simp: fun_upd_def)
qed

section \<open>Links as memory fields\<close>

lemma node_set_fieldD:
  assumes "node_set S" and "p \<in> S"
  shows "unat (p + 8) = unat p + 8"
proof -
  have "unat p + 16 \<le> 2 ^ 64"
    using assms by (simp add: node_set_def)
  then show ?thesis
    by (simp add: unat_add_u64)
qed

lemma node_set_sepD:
  "node_set S \<Longrightarrow> p \<in> S \<Longrightarrow> q \<in> S \<Longrightarrow> p \<noteq> q \<Longrightarrow> unat p + 16 \<le> unat q \<or> unat q + 16 \<le> unat p"
  by (simp add: node_set_def)

lemma node_set_mono: "node_set S \<Longrightarrow> T \<subseteq> S \<Longrightarrow> node_set T"
  by (auto simp: node_set_def)

lemma next_set_next:
  "node_set S \<Longrightarrow> p \<in> S \<Longrightarrow> x \<in> S \<Longrightarrow>
     node_next (set_next m p v) x = (if x = p then v else node_next m x)"
  using node_set_sepD [of S p x]
  by (auto simp: node_set_fieldD intro!: rd64_wr64_other)

lemma prev_set_next:
  "node_set S \<Longrightarrow> p \<in> S \<Longrightarrow> x \<in> S \<Longrightarrow> node_prev (set_next m p v) x = node_prev m x"
  using node_set_sepD [of S p x]
  by (cases "x = p") (auto simp: node_set_fieldD intro!: rd64_wr64_other)

lemma next_set_prev:
  "node_set S \<Longrightarrow> p \<in> S \<Longrightarrow> x \<in> S \<Longrightarrow> node_next (set_prev m p v) x = node_next m x"
  using node_set_sepD [of S p x]
  by (cases "x = p") (auto simp: node_set_fieldD intro!: rd64_wr64_other)

lemma prev_set_prev:
  "node_set S \<Longrightarrow> p \<in> S \<Longrightarrow> x \<in> S \<Longrightarrow>
     node_prev (set_prev m p v) x = (if x = p then v else node_prev m x)"
  using node_set_sepD [of S p x]
  by (auto simp: node_set_fieldD intro!: rd64_wr64_other)

lemmas link_simps = next_set_next prev_set_next next_set_prev prev_set_prev

lemma list_add_between_links:
  assumes "node_set S" and "{n, p, q, x} \<subseteq> S"
  shows "node_next (list_add_between m n p q) x = ((node_next m)(n := q, p := n)) x"
    and "node_prev (list_add_between m n p q) x = ((node_prev m)(n := p, q := n)) x"
  using assms(2) by (auto simp: list_add_between_def Let_def link_simps [OF assms(1)])

lemma list_del_between_links:
  assumes "node_set S" and "{p, q, x} \<subseteq> S"
  shows "node_next (list_del_between m p q) x = ((node_next m)(p := q)) x"
    and "node_prev (list_del_between m p q) x = ((node_prev m)(q := p)) x"
  using assms(2) by (auto simp: list_del_between_def Let_def link_simps [OF assms(1)])

lemma ring_neighbours:
  assumes "ring m h (xs @ x # ys)"
  shows "node_prev m x \<in> insert h (set xs)" and "node_next m x \<in> insert h (set ys)"
proof -
  from assms have "dseg (node_next m) (node_prev m) h xs x" "dseg (node_next m) (node_prev m) x ys h"
    by (auto simp: ring_def dseg_append)
  then have "node_prev m x = last (h # xs)" "node_next m x = hd (ys @ [h])"
    by (auto dest: dseg_last dseg_first)
  then show "node_prev m x \<in> insert h (set xs)" "node_next m x \<in> insert h (set ys)"
    by (auto simp: hd_append)
qed

lemma ring_ends:
  assumes "ring m h ns"
  shows "node_next m h \<in> insert h (set ns)" and "node_prev m h \<in> insert h (set ns)"
  using assms dseg_first [of "node_next m" "node_prev m" h ns h]
    dseg_last [of "node_next m" "node_prev m" h ns h]
  by (auto simp: ring_def hd_append split: if_splits)

section \<open>The operations act on the represented list\<close>

lemma ring_list_init:
  assumes "unat h + 16 \<le> 2 ^ 64"
  shows "ring (list_init m h) h []"
proof -
  have S: "node_set {h}"
    using assms by (simp add: node_set_def)
  show ?thesis
    by (simp add: ring_def list_init_def link_simps [OF S] S)
qed

lemma ring_list_add:
  assumes r: "ring m h ns" and n: "n \<notin> set (h # ns)" and S: "node_set (set (n # h # ns))"
  shows "ring (list_add m n h) h (n # ns)"
proof -
  from r have d: "dseg (node_next m) (node_prev m) h ns h" and ds: "distinct (h # ns)"
    by (auto simp: ring_def)
  let ?f = "node_next m h"
  have f: "?f \<in> insert h (set ns)"
    using ring_ends [OF r] by simp
  have "dseg ((node_next m)(n := ?f, h := n)) ((node_prev m)(n := h, ?f := n)) h (n # ns) h"
    using dseg_push_front [OF d] ds n by simp
  moreover have "dseg (node_next (list_add m n h)) (node_prev (list_add m n h)) h (n # ns) h
      \<longleftrightarrow> dseg ((node_next m)(n := ?f, h := n)) ((node_prev m)(n := h, ?f := n)) h (n # ns) h"
    unfolding list_add_def using f
    by (intro dseg_cong; intro list_add_between_links [OF S]) auto
  ultimately show ?thesis
    using ds n S by (auto simp: ring_def insert_commute)
qed

lemma dseg_rev: "dseg nx pv a xs b \<longleftrightarrow> dseg pv nx b (rev xs) a"
  by (induction xs arbitrary: a) (auto simp: dseg_append)

lemma ring_list_add_tail:
  assumes r: "ring m h ns" and n: "n \<notin> set (h # ns)" and S: "node_set (set (n # h # ns))"
  shows "ring (list_add_tail m n h) h (ns @ [n])"
proof -
  from r have d: "dseg (node_prev m) (node_next m) h (rev ns) h" and ds: "distinct (h # ns)"
    by (auto simp: ring_def dseg_rev [of "node_next m"])
  let ?l = "node_prev m h"
  have l: "?l \<in> insert h (set ns)"
    using ring_ends [OF r] by simp
  have "dseg ((node_prev m)(n := ?l, h := n)) ((node_next m)(n := h, ?l := n)) h (n # rev ns) h"
    using dseg_push_front [OF d] ds n by simp
  then have "dseg ((node_next m)(n := h, ?l := n)) ((node_prev m)(n := ?l, h := n)) h (ns @ [n]) h"
    by (subst dseg_rev) simp
  moreover have "dseg (node_next (list_add_tail m n h)) (node_prev (list_add_tail m n h)) h (ns @ [n]) h
      \<longleftrightarrow> dseg ((node_next m)(n := h, ?l := n)) ((node_prev m)(n := ?l, h := n)) h (ns @ [n]) h"
    unfolding list_add_tail_def using l
    by (intro dseg_cong; intro list_add_between_links [OF S]) auto
  ultimately show ?thesis
    using ds n S by (auto simp: ring_def insert_commute)
qed

lemma ring_unlink:
  assumes r: "ring m h (xs @ x # ys)"
  shows "ring (list_del_between m (node_prev m x) (node_next m x)) h (xs @ ys)"
proof -
  let ?m = "list_del_between m (node_prev m x) (node_next m x)"
  from r have S: "node_set (insert h (set (xs @ x # ys)))" and ds: "distinct (h # xs @ x # ys)"
    and d: "dseg (node_next m) (node_prev m) h xs x" "dseg (node_next m) (node_prev m) x ys h"
    by (auto simp: ring_def dseg_append)
  have "dseg ((node_next m)(node_prev m x := node_next m x))
      ((node_prev m)(node_next m x := node_prev m x)) h (xs @ ys) h"
    using dseg_bypass [OF d] ds by auto
  moreover have "dseg (node_next ?m) (node_prev ?m) h (xs @ ys) h
      \<longleftrightarrow> dseg ((node_next m)(node_prev m x := node_next m x))
            ((node_prev m)(node_next m x := node_prev m x)) h (xs @ ys) h"
    using ring_neighbours [OF r]
    by (intro dseg_cong; intro list_del_between_links [OF S]) auto
  moreover have "node_set (insert h (set (xs @ ys)))"
    using S by (rule node_set_mono) auto
  ultimately show ?thesis
    using ds by (auto simp: ring_def)
qed

text \<open>A ring only depends on the bytes of its nodes.\<close>

lemma ring_cong:
  assumes "\<And>p a. p \<in> insert h (set ns) \<Longrightarrow> unat p \<le> a \<Longrightarrow> a < unat p + 16 \<Longrightarrow> m' a = m a"
  shows "ring m h ns \<Longrightarrow> ring m' h ns"
proof -
  assume r: "ring m h ns"
  then have S: "node_set (insert h (set ns))"
    by (simp add: ring_def)
  have "node_next m' p = node_next m p" "node_prev m' p = node_prev m p"
    if "p \<in> insert h (set ns)" for p
    using assms [OF that] by (auto simp: node_set_fieldD [OF S that] intro!: rd64_cong)
  then have "dseg (node_next m') (node_prev m') h ns h = dseg (node_next m) (node_prev m) h ns h"
    by (intro dseg_cong) auto
  with r show ?thesis
    by (simp add: ring_def)
qed

lemma wr64_node_outside:
  assumes "node_set S" "x \<in> S" "p \<in> S" "p \<noteq> x" "unat p \<le> a" "a < unat p + 16"
  shows "set_next m x v a = m a" and "set_prev m x v a = m a"
  using node_set_sepD [OF assms(1,2,3)] assms(4,5,6) node_set_fieldD [OF assms(1,2)]
  by (auto intro!: wr64_apply)

lemma ring_list_del:
  assumes r: "ring m h (xs @ x # ys)"
  shows "ring (list_del m x) h (xs @ ys)"
proof -
  from r have S: "node_set (insert h (set (xs @ x # ys)))" and x: "x \<notin> insert h (set (xs @ ys))"
    by (auto simp: ring_def)
  show ?thesis
    unfolding list_del_def Let_def
    by (rule ring_cong [OF _ ring_cong [OF _ ring_unlink [OF r]]];
        rule wr64_node_outside [OF S]) (use x in auto)
qed

lemma ring_list_del_init:
  assumes r: "ring m h (xs @ x # ys)"
  shows "ring (list_del_init m x) h (xs @ ys)"
proof -
  from r have S: "node_set (insert h (set (xs @ x # ys)))" and x: "x \<notin> insert h (set (xs @ ys))"
    by (auto simp: ring_def)
  show ?thesis
    unfolding list_del_init_def list_init_def Let_def
    by (rule ring_cong [OF _ ring_cong [OF _ ring_unlink [OF r]]];
        rule wr64_node_outside [OF S]) (use x in auto)
qed

section \<open>The list contract\<close>

text \<open>
  What a client of the list may rely on: a store \<open>'s\<close> represents a sequence of nodes, a node
  that may be linked can be pushed at either end, and unlinking a node removes it and makes it
  linkable again.
\<close>

locale linked_seq =
  fixes rep :: "'s \<Rightarrow> 'n list \<Rightarrow> bool"
    and linkable :: "'n \<Rightarrow> 'n list \<Rightarrow> bool"
    and push_front :: "'s \<Rightarrow> 'n \<Rightarrow> 's"
    and push_back :: "'s \<Rightarrow> 'n \<Rightarrow> 's"
    and unlink :: "'s \<Rightarrow> 'n \<Rightarrow> 's"
  assumes rep_push_front: "rep s xs \<Longrightarrow> linkable n xs \<Longrightarrow> rep (push_front s n) (n # xs)"
    and rep_push_back: "rep s xs \<Longrightarrow> linkable n xs \<Longrightarrow> rep (push_back s n) (xs @ [n])"
    and rep_unlink: "rep s (xs @ n # ys) \<Longrightarrow> rep (unlink s n) (xs @ ys)"
    and linkable_unlinked: "rep s (xs @ n # ys) \<Longrightarrow> linkable n (xs @ ys)"
begin

lemma move_front: "rep s (xs @ n # ys) \<Longrightarrow> rep (push_front (unlink s n) n) (n # xs @ ys)"
  by (rule rep_push_front) (auto intro: rep_unlink linkable_unlinked)

lemma move_back: "rep s (xs @ n # ys) \<Longrightarrow> rep (push_back (unlink s n) n) (xs @ ys @ [n])"
  using rep_push_back [OF rep_unlink linkable_unlinked] by simp

lemma unlink_push_front: "rep s xs \<Longrightarrow> linkable n xs \<Longrightarrow> rep (unlink (push_front s n) n) xs"
  using rep_unlink [of "push_front s n" "[]" n xs] rep_push_front by simp

lemma unlink_push_back: "rep s xs \<Longrightarrow> linkable n xs \<Longrightarrow> rep (unlink (push_back s n) n) xs"
  using rep_unlink [of "push_back s n" xs n "[]"] rep_push_back by simp

end

definition ring_linkable :: "ptr \<Rightarrow> ptr \<Rightarrow> ptr list \<Rightarrow> bool" where
  "ring_linkable h n ns \<longleftrightarrow> n \<notin> set (h # ns) \<and> node_set (set (n # h # ns))"

lemma ring_linkableI: "ring m h (xs @ n # ys) \<Longrightarrow> ring_linkable h n (xs @ ys)"
  by (auto simp: ring_def ring_linkable_def insert_commute)

interpretation bare_ring: linked_seq "\<lambda>m. ring m h" "ring_linkable h"
  "\<lambda>m n. list_add m n h" "\<lambda>m n. list_add_tail m n h"
  "\<lambda>m n. list_del_between m (node_prev m n) (node_next m n)" for h
  by unfold_locales
    (auto simp: ring_linkable_def intro: ring_list_add ring_list_add_tail ring_unlink,
     auto simp: ring_linkable_def dest!: ring_linkableI)

interpretation del_ring: linked_seq "\<lambda>m. ring m h" "ring_linkable h"
  "\<lambda>m n. list_add m n h" "\<lambda>m n. list_add_tail m n h" list_del for h
  by unfold_locales (auto intro: bare_ring.rep_push_front bare_ring.rep_push_back
      ring_list_del ring_linkableI)

section \<open>Traversal\<close>

lemma list_for_each_dseg:
  "dseg (node_next m) (node_prev m) a xs h \<Longrightarrow> h \<notin> set xs \<Longrightarrow>
     list_for_each m h (node_next m a) = Some xs"
proof (induction xs arbitrary: a)
  case Nil
  then show ?case by (simp add: list_for_each.simps)
next
  case (Cons x xs)
  then have "list_for_each m h (node_next m x) = Some xs"
    by simp
  with Cons.prems show ?case
    by (auto simp: list_for_each.simps [of m h x])
qed

lemma list_for_each_ring: "ring m h ns \<Longrightarrow> list_for_each m h (node_next m h) = Some ns"
  by (auto simp: ring_def intro: list_for_each_dseg)

section \<open>Properties\<close>

text \<open>Moving a node of a list keeps the list well formed in both directions and puts the node
  at the front, or at the back, with the other nodes in their order.\<close>

theorem list_move_ring:
  assumes "ring m h (xs @ n # ys)"
  shows "ring (list_move_head m n h) h (n # xs @ ys) \<and> ring (list_move_tail m n h) h (xs @ ys @ [n])"
  using bare_ring.move_front [OF assms] bare_ring.move_back [OF assms]
  by (simp add: list_move_head_def list_move_tail_def Let_def)

lemma sample_ring: "ring (list_add_tail (list_add_tail (list_init (\<lambda>_. 0) 0x100) 0x200 0x100) 0x300 0x100) 0x100
    ([0x200] @ 0x300 # [])"
proof -
  let ?m = "list_init (\<lambda>_. 0) 0x100"
  have "ring ?m 0x100 []"
    by (rule ring_list_init) simp
  then have "ring (list_add_tail ?m 0x200 0x100) 0x100 ([] @ [0x200])"
    by (rule bare_ring.rep_push_back) (auto simp: ring_linkable_def node_set_def)
  then have "ring (list_add_tail (list_add_tail ?m 0x200 0x100) 0x300 0x100) 0x100 (([] @ [0x200]) @ [0x300])"
    by (rule bare_ring.rep_push_back) (auto simp: ring_linkable_def node_set_def)
  then show ?thesis
    by simp
qed

theorem list_move_ring_witness:
  "ring (list_move_head (list_add_tail (list_add_tail (list_init (\<lambda>_. 0) 0x100) 0x200 0x100) 0x300 0x100) 0x300 0x100)
     0x100 (0x300 # [0x200] @ [])"
  by (rule list_move_ring [OF sample_ring, THEN conjunct1])

text \<open>Linking a fresh node at the front or the back of a list and deleting it again gives the
  list back, and a traversal of a well-formed list terminates and meets its nodes in order.\<close>

theorem list_add_del_ring:
  assumes "ring m h ns" and "ring_linkable h n ns"
  shows "ring (list_add m n h) h (n # ns) \<and> ring (list_add_tail m n h) h (ns @ [n])
    \<and> ring (list_del (list_add m n h) n) h ns \<and> ring (list_del (list_add_tail m n h) n) h ns
    \<and> list_for_each m h (node_next m h) = Some ns"
  by (intro conjI del_ring.rep_push_front del_ring.rep_push_back del_ring.unlink_push_front
      del_ring.unlink_push_back list_for_each_ring assms)

theorem list_add_del_ring_witness:
  "ring (list_del (list_add (list_init (\<lambda>_. 0) 0x100) 0x200 0x100) 0x200) 0x100 []"
proof -
  have "ring (list_init (\<lambda>_. 0) 0x100) 0x100 []"
    by (rule ring_list_init) simp
  moreover have "ring_linkable 0x100 0x200 []"
    by (auto simp: ring_linkable_def node_set_def)
  ultimately show ?thesis
    by (rule list_add_del_ring [THEN conjunct2, THEN conjunct2, THEN conjunct1])
qed

end
