(* ===== verification/Simple_MM.thy ===== *)
theory Simple_MM
  imports Bitops Intrusive_List Cstring
begin

unbundle bit_operations_syntax

text \<open>
  The first-fit allocator of \<^verbatim>\<open>mm/simple_mm.c\<close> and \<^verbatim>\<open>include/kernel/mm/simple_mm.h\<close>, with the
  configuration of \<^verbatim>\<open>autoconf.h\<close> (\<^verbatim>\<open>CONFIG_MM_DEBUG\<close> and \<^verbatim>\<open>CONFIG_ASSERT\<close> on, 64-bit). The state
  holds the byte memory, the address the linker gives to the global \<^verbatim>\<open>free_mem_list_head\<close>, and
  the \<^verbatim>\<open>printk\<close> calls made so far. Each operation is translated statement by statement;
  theory \<^verbatim>\<open>Simple_MM_Correct\<close> proves what they do to the heap.
\<close>

section \<open>Layout and flags\<close>

record kmm =
  kmem :: mem
  free_mem_list_head :: ptr
  klog :: "kmsg list"

definition printk_call :: "kmm \<Rightarrow> string \<Rightarrow> va list \<Rightarrow> kmm" where
  "printk_call s fmt args = s\<lparr>klog := klog s @ [(fmt, args)]\<rparr>"

text \<open>\<^verbatim>\<open>pr_err\<close> of \<^verbatim>\<open>include/kernel/printk.h\<close> at its default log level.\<close>

definition pr_err :: "kmm \<Rightarrow> string \<Rightarrow> va list \<Rightarrow> kmm" where
  "pr_err s fmt args = printk_call s (''[ERR]   '' @ fmt) args"

definition SIMPLE_MM_MAGIC :: u32 where
  "SIMPLE_MM_MAGIC = 0xDEADBEEF"

definition SIMPLE_MM_POISON :: u64 where
  "SIMPLE_MM_POISON = 0xAAAAAAAAAAAAAAAA"

definition MIN_BLOCK_SIZE :: size_t where
  "MIN_BLOCK_SIZE = push_bit 3 1"

definition FLAG_MASK :: u64 where
  "FLAG_MASK = push_bit 3 1 - 1"

definition SIZE_MASK :: u64 where
  "SIZE_MASK = NOT FLAG_MASK"

definition FLAG_FREE :: u64 where
  "FLAG_FREE = BIT2MASK 0"

definition FLAG_PREV_FREE :: u64 where
  "FLAG_PREV_FREE = BIT2MASK 1"

definition FLAG_POISONED :: u64 where
  "FLAG_POISONED = BIT2MASK 2"

definition IS_BLOCK_FREE :: "u32 \<Rightarrow> bool" where
  "IS_BLOCK_FREE size_flag \<longleftrightarrow> GET_BIT size_flag 0 \<noteq> 0"

definition IS_PREV_BLOCK_FREE :: "u32 \<Rightarrow> bool" where
  "IS_PREV_BLOCK_FREE size_flag \<longleftrightarrow> GET_BIT size_flag 1 \<noteq> 0"

definition IS_BLOCK_POISONED :: "u32 \<Rightarrow> bool" where
  "IS_BLOCK_POISONED size_flag \<longleftrightarrow> GET_BIT size_flag 2 \<noteq> 0"

definition EXTRACT_SIZE :: "u32 \<Rightarrow> size_t" where
  "EXTRACT_SIZE size_flag = GET_MASK size_flag SIZE_MASK"

definition EXTRACT_FLAG :: "u32 \<Rightarrow> size_t" where
  "EXTRACT_FLAG size_flag = GET_MASK size_flag FLAG_MASK"

text \<open>
  \<^verbatim>\<open>struct simple_mm_block\<close>: \<^verbatim>\<open>magic\<close> at offset 0, \<^verbatim>\<open>size_flag\<close> at offset 4, the list node at
  offset 8; the struct has 24 bytes and \<^verbatim>\<open>size_flag\<close> has 4.
\<close>

definition BLOCK_HEAD_SIZE :: size_t where
  "BLOCK_HEAD_SIZE = 24"

definition SIZE_MEMBER_TYPE_SIZE :: size_t where
  "SIZE_MEMBER_TYPE_SIZE = 4"

definition blk_magic :: "mem \<Rightarrow> ptr \<Rightarrow> u32" where
  "blk_magic m b = ld32 m b"

definition set_blk_magic :: "mem \<Rightarrow> ptr \<Rightarrow> u32 \<Rightarrow> mem" where
  "set_blk_magic m b v = st32 m b v"

definition blk_size_flag :: "mem \<Rightarrow> ptr \<Rightarrow> u32" where
  "blk_size_flag m b = ld32 m (b + 4)"

definition set_blk_size_flag :: "mem \<Rightarrow> ptr \<Rightarrow> u32 \<Rightarrow> mem" where
  "set_blk_size_flag m b v = st32 m (b + 4) v"

definition mm_node :: "ptr \<Rightarrow> ptr" where
  "mm_node b = b + 8"

definition block_of_node :: "ptr \<Rightarrow> ptr" where
  "block_of_node n = container_of n 8"

section \<open>Operations\<close>

definition print_mm_blk :: "kmm \<Rightarrow> ptr \<Rightarrow> kmm" where
  "print_mm_blk s b =
     printk_call s '' mem block at=0x%zx  size=0x%zx, flags=0x%04x magic=0x%08x\<newline>''
       [VReg b, VReg (EXTRACT_SIZE (blk_size_flag (kmem s) b)),
        VReg (EXTRACT_FLAG (blk_size_flag (kmem s) b)), VReg (ucast (blk_magic (kmem s) b))]"

definition align_requested_size :: "kmm \<Rightarrow> size_t \<Rightarrow> size_t \<times> kmm" where
  "align_requested_size s sz =
     (if sz < MIN_BLOCK_SIZE then
        (MIN_BLOCK_SIZE,
         printk_call s ''[simple_mm] Warning: Requested size %zu is below minimum block size %zu. Rounding up.\<newline>''
           [VReg sz, VReg MIN_BLOCK_SIZE])
      else if sz mod MIN_BLOCK_SIZE \<noteq> 0 then
        (let aligned_size = (sz + MIN_BLOCK_SIZE - 1) AND NOT (MIN_BLOCK_SIZE - 1)
         in (aligned_size,
             printk_call s ''[simple_mm] Warning: Requested size %zu is not aligned to minimum block size %zu. Rounding up to %zu.\<newline>''
               [VReg sz, VReg MIN_BLOCK_SIZE, VReg aligned_size]))
      else (sz, s))"

text \<open>
  The dump and the free-memory count walk the free list without changing it; a walk that does
  not come back to the head is \<open>None\<close>.
\<close>

definition simple_mm_dump :: "kmm \<Rightarrow> kmm option" where
  "simple_mm_dump s =
     (let s = printk_call s ''Simple MM Dump:\<newline>'' []; h = free_mem_list_head s
      in do {
        ns \<leftarrow> list_for_each (kmem s) h (node_next (kmem s) h);
        Some (foldl (\<lambda>s n. print_mm_blk s (block_of_node n)) s ns) })"

definition simple_mm_get_free_memory :: "kmm \<Rightarrow> (size_t \<times> kmm) option" where
  "simple_mm_get_free_memory s =
     (let h = free_mem_list_head s
      in do {
        ns \<leftarrow> list_for_each (kmem s) h (node_next (kmem s) h);
        Some (foldl (\<lambda>(free_memory, s) n.
                 (free_memory + EXTRACT_SIZE (blk_size_flag (kmem s) (block_of_node n)),
                  print_mm_blk s (block_of_node n))) (0, s) ns) })"

definition simple_init :: "kmm \<Rightarrow> ptr \<Rightarrow> size_t \<Rightarrow> (bool \<times> kmm) option" where
  "simple_init s base sz =
     (let s = printk_call s ''[simple_init] base=%p and size=%zu bytes\<newline>'' [VReg base, VReg sz];
          s = printk_call s ''[simple_init] block_head_struct_size=%zu\<newline>'' [VReg BLOCK_HEAD_SIZE]
      in if sz < BLOCK_HEAD_SIZE then
           Some (False, printk_call s ''[simple_init] Not enough memory to initialize\<newline>'' [])
         else if base = NULL then
           Some (False, printk_call s ''[simple_init] Invalid base pointer \<newline>'' [])
         else
           (let (sz, s) =
                  (if sz mod MIN_BLOCK_SIZE \<noteq> 0
                   then (sz AND SIZE_MASK,
                         printk_call s ''[simple_init] Warning: Provided size %zu is not aligned to minimum block size %zu. Rounding down.\<newline>''
                           [VReg sz, VReg MIN_BLOCK_SIZE])
                   else (sz, s));
                m = kmem s;
                block = base;
                m = set_blk_magic m block SIMPLE_MM_MAGIC;
                sz = sz - BLOCK_HEAD_SIZE;
                m = set_blk_size_flag m block (ucast (sz OR FLAG_FREE));
                m = set_blk_size_flag m block
                      (ucast (ucast (blk_size_flag m block) AND NOT (FLAG_PREV_FREE OR FLAG_POISONED)));
                m = memset m (block + BLOCK_HEAD_SIZE) (ucast SIMPLE_MM_POISON) (sz - BLOCK_HEAD_SIZE);
                m = set_blk_size_flag m block (ucast (ucast (blk_size_flag m block) OR FLAG_POISONED));
                end_block = base + sz;
                m = set_blk_magic m end_block SIMPLE_MM_MAGIC;
                m = set_blk_size_flag m end_block (ucast (0 OR FLAG_PREV_FREE));
                m = list_init m (free_mem_list_head s);
                m = list_add m (mm_node block) (free_mem_list_head s)
            in do {
              s \<leftarrow> simple_mm_dump (s\<lparr>kmem := m\<rparr>);
              Some (True, s) }))"

text \<open>The body of the search loop of \<^verbatim>\<open>simple_malloc\<close> once a block fits; the loop then breaks.\<close>

definition malloc_take :: "kmm \<Rightarrow> size_t \<Rightarrow> size_t \<Rightarrow> ptr \<Rightarrow> ptr \<times> kmm" where
  "malloc_take s sz aligned_size block_head =
     (let m = kmem s;
          h = free_mem_list_head s;
          free_block_size = EXTRACT_SIZE (blk_size_flag m block_head);
          alloced_ptr = block_head + BLOCK_HEAD_SIZE;
          m = set_blk_size_flag m block_head (CLR_MASK (blk_size_flag m block_head) FLAG_FREE);
          m = list_del m (mm_node block_head);
          remaining_size = free_block_size - BLOCK_HEAD_SIZE - aligned_size
      in if remaining_size > BLOCK_HEAD_SIZE + MIN_BLOCK_SIZE then
           (let new_block_head = block_head + BLOCK_HEAD_SIZE + aligned_size;
                m = set_blk_magic m new_block_head SIMPLE_MM_MAGIC;
                ptr_footer = new_block_head + remaining_size - SIZE_MEMBER_TYPE_SIZE;
                m = st32 m ptr_footer (ucast remaining_size);
                m = set_blk_size_flag m new_block_head (ucast remaining_size);
                m = set_blk_size_flag m new_block_head
                      (SET_MASK (blk_size_flag m new_block_head) FLAG_FREE);
                m = set_blk_size_flag m new_block_head
                      (CLR_MASK (blk_size_flag m new_block_head) (FLAG_PREV_FREE OR FLAG_POISONED));
                m = list_add m (mm_node new_block_head) h;
                old_flags = EXTRACT_FLAG (blk_size_flag m block_head);
                m = set_blk_size_flag m block_head
                      (ucast (((aligned_size + BLOCK_HEAD_SIZE) AND SIZE_MASK) OR old_flags));
                m = set_blk_size_flag m block_head (CLR_MASK (blk_size_flag m block_head) FLAG_FREE)
            in (alloced_ptr,
                printk_call (s\<lparr>kmem := m\<rparr>)
                  ''[simple_malloc] Allocated block at %p with size %zu bytes (requested %zu bytes)\<newline>''
                  [VReg alloced_ptr, VReg (EXTRACT_SIZE (blk_size_flag m new_block_head)), VReg sz]))
         else
           (let new_block_head = block_head + free_block_size
            in if blk_magic m new_block_head \<noteq> SIMPLE_MM_MAGIC then
                 (NULL, pr_err (s\<lparr>kmem := m\<rparr>) '' memory corruption at %p\<newline>'' [VReg alloced_ptr])
               else
                 (let m = set_blk_size_flag m new_block_head
                            (CLR_MASK (blk_size_flag m new_block_head) FLAG_PREV_FREE)
                  in (alloced_ptr,
                      printk_call (s\<lparr>kmem := m\<rparr>)
                        ''[simple_malloc] Allocated block at %p with size %zu bytes (requested %zu bytes)\<newline>''
                        [VReg alloced_ptr, VReg (EXTRACT_SIZE (blk_size_flag m new_block_head)), VReg sz]))))"

partial_function (option) malloc_search ::
    "kmm \<Rightarrow> size_t \<Rightarrow> size_t \<Rightarrow> ptr \<Rightarrow> (ptr \<times> kmm) option" where
  [code]: "malloc_search s sz aligned_size iter =
     (if iter = free_mem_list_head s then Some (NULL, s)
      else
        (let block_head = block_of_node iter;
             free_block_size = EXTRACT_SIZE (blk_size_flag (kmem s) block_head)
         in if IS_BLOCK_FREE (blk_size_flag (kmem s) block_head)
                \<and> free_block_size \<ge> aligned_size + BLOCK_HEAD_SIZE
            then Some (malloc_take s sz aligned_size block_head)
            else malloc_search s sz aligned_size (node_next (kmem s) iter)))"

definition simple_malloc :: "kmm \<Rightarrow> size_t \<Rightarrow> (ptr \<times> kmm) option" where
  "simple_malloc s sz =
     (let (aligned_size, s) = align_requested_size s sz
      in malloc_search s sz aligned_size (node_next (kmem s) (free_mem_list_head s)))"

definition ensure_prev_block_coalescing :: "kmm \<Rightarrow> ptr \<Rightarrow> (kmm, unit) outcome" where
  "ensure_prev_block_coalescing s block_to_free =
     (let m = kmem s;
          ptr_prev_block_size_flag = block_to_free - SIZE_MEMBER_TYPE_SIZE;
          prev_block_size = EXTRACT_SIZE (ld32 m ptr_prev_block_size_flag);
          prev_block = block_to_free - prev_block_size
      in if blk_magic m prev_block \<noteq> SIMPLE_MM_MAGIC then
           Panic (pr_err s ''Previous block corruption detected at %p\<newline>'' [VReg prev_block])
         else if \<not> IS_BLOCK_FREE (blk_size_flag m prev_block) then
           Panic (pr_err s ''Previous block at %p is supposed to be free. Possible corruption.\<newline>''
             [VReg prev_block])
         else
           (let prev_flag = EXTRACT_FLAG (blk_size_flag m prev_block);
                prev_size = EXTRACT_SIZE (blk_size_flag m prev_block);
                new_size = prev_size + EXTRACT_SIZE (blk_size_flag m block_to_free);
                m = set_blk_size_flag m prev_block (ucast (new_size OR prev_flag));
                m = list_del m (mm_node block_to_free);
                ptr_footer = prev_block + new_size - SIZE_MEMBER_TYPE_SIZE;
                m = st32 m ptr_footer (ucast new_size)
            in Ret () (s\<lparr>kmem := m\<rparr>)))"

text \<open>\<^verbatim>\<open>__ASSERT\<close> of \<^verbatim>\<open>include/kernel/assert.h\<close> when the test fails: the location, the message,
  then \<^verbatim>\<open>k_panic\<close>.\<close>

definition assert_fail :: "kmm \<Rightarrow> string \<Rightarrow> string \<Rightarrow> u64 \<Rightarrow> string \<Rightarrow> (kmm, 'a) outcome" where
  "assert_fail s test file line msg =
     Panic (printk_call (printk_call s ''ASSERTION FAIL [%s] @ %s:%d\<newline>''
              [VStr (Some test), VStr (Some file), VReg line])
       ([CHR 0x09] @ msg @ ''\<newline>'') [])"

definition simple_free :: "kmm \<Rightarrow> ptr \<Rightarrow> (kmm, unit) outcome" where
  "simple_free s p =
     (let s = printk_call s ''[simple_free] Attempting to free block at %p\<newline>'' [VReg p]
      in if p = NULL then
           assert_fail s ''ptr != NULL'' ''mm/simple_mm.c'' 171
             ''[simple_free] Error: Attempt to free a NULL pointer''
         else
           (let m = kmem s;
                h = free_mem_list_head s;
                block_to_free = p - BLOCK_HEAD_SIZE
            in if blk_magic m block_to_free \<noteq> SIMPLE_MM_MAGIC then
                 Panic (printk_call s ''[simple_free] Error: Invalid block magic number. Possible double free or corruption at %p\<newline>'' [VReg p])
               else if IS_BLOCK_FREE (blk_size_flag m block_to_free) then
                 Panic (printk_call s ''[simple_free] Warning: Block at %p is already free. Possible double free\<newline>'' [VReg p])
               else
                 (let m = set_blk_size_flag m block_to_free
                            (ucast (ucast (blk_size_flag m block_to_free) OR FLAG_FREE));
                      size_to_free = (ucast (EXTRACT_SIZE (blk_size_flag m block_to_free)) :: u32);
                      m = list_add m (mm_node block_to_free) h;
                      next_block = block_to_free + ucast size_to_free
                  in if blk_magic m next_block \<noteq> SIMPLE_MM_MAGIC then
                       Panic (pr_err (s\<lparr>kmem := m\<rparr>) '' memory corruption at %p\<newline>'' [VReg p])
                     else
                       (let m =
                          (if \<not> IS_BLOCK_FREE (blk_size_flag m next_block) then
                             (let m = set_blk_size_flag m next_block
                                        (ucast (ucast (blk_size_flag m next_block) OR FLAG_PREV_FREE));
                                  ptr_footer = block_to_free + ucast size_to_free - SIZE_MEMBER_TYPE_SIZE
                              in st32 m ptr_footer size_to_free)
                           else
                             (let new_size = EXTRACT_SIZE (blk_size_flag m block_to_free)
                                             + EXTRACT_SIZE (blk_size_flag m next_block);
                                  flag = EXTRACT_FLAG (blk_size_flag m block_to_free);
                                  m = set_blk_size_flag m block_to_free (ucast (new_size OR flag));
                                  m = list_del m (mm_node next_block);
                                  ptr_footer = block_to_free + new_size - SIZE_MEMBER_TYPE_SIZE
                              in st32 m ptr_footer (ucast new_size)));
                            s = s\<lparr>kmem := m\<rparr>
                        in if IS_PREV_BLOCK_FREE (blk_size_flag m block_to_free)
                           then ensure_prev_block_coalescing s block_to_free
                           else Ret () s))))"

definition simple_calloc :: "kmm \<Rightarrow> size_t \<Rightarrow> size_t \<Rightarrow> (ptr \<times> kmm) option" where
  "simple_calloc s num sz =
     (if num \<noteq> 0 \<and> sz > (- 1) div num then
        Some (NULL, printk_call s ''[simple_calloc] Error: Integer overflow detected!\<newline>'' [])
      else
        (let total_size = num * sz
         in do {
           (p, s) \<leftarrow> simple_malloc s total_size;
           Some (p, if p \<noteq> NULL then s\<lparr>kmem := memset (kmem s) p 0 total_size\<rparr> else s) }))"

definition simple_realloc :: "kmm \<Rightarrow> ptr \<Rightarrow> size_t \<Rightarrow> (kmm, ptr) outcome option" where
  "simple_realloc s p new_size =
     (if p = NULL then do { (q, s) \<leftarrow> simple_malloc s new_size; Some (Ret q s) }
      else if new_size = 0 then
        Some (case simple_free s p of Ret _ s \<Rightarrow> Ret NULL s | Panic s \<Rightarrow> Panic s)
      else
        (let old_block_head = p - BLOCK_HEAD_SIZE
         in if blk_magic (kmem s) old_block_head \<noteq> SIMPLE_MM_MAGIC then
              Some (Ret NULL (printk_call s
                ''[simple_realloc] Error: Invalid block magic number. Possible corruption at %p\<newline>'' [VReg p]))
            else
              (let old_size = EXTRACT_SIZE (blk_size_flag (kmem s) old_block_head)
               in if new_size \<le> old_size then Some (Ret p s)
                  else do {
                    (q, s) \<leftarrow> simple_malloc s new_size;
                    if q = NULL then Some (Ret NULL s)
                    else Some (case simple_free (s\<lparr>kmem := memcpy (kmem s) q p old_size\<rparr>) p of
                                 Ret _ s \<Rightarrow> Ret q s
                               | Panic s \<Rightarrow> Panic s) })))"

section \<open>The kernel allocation interface\<close>

text \<open>\<^verbatim>\<open>mm/kmalloc.c\<close> with \<^verbatim>\<open>CONFIG_MM_SIMPLE\<close>: every call is routed to the simple allocator.\<close>

definition kmalloc :: "kmm \<Rightarrow> size_t \<Rightarrow> (ptr \<times> kmm) option" where
  "kmalloc s sz = simple_malloc s sz"

definition kfree :: "kmm \<Rightarrow> ptr \<Rightarrow> (kmm, unit) outcome" where
  "kfree s p = simple_free s p"

definition kcalloc :: "kmm \<Rightarrow> size_t \<Rightarrow> size_t \<Rightarrow> (ptr \<times> kmm) option" where
  "kcalloc s num sz = simple_calloc s num sz"

definition krealloc :: "kmm \<Rightarrow> ptr \<Rightarrow> size_t \<Rightarrow> (kmm, ptr) outcome option" where
  "krealloc s p new_size = simple_realloc s p new_size"

end
