(* ===== verification/Uart.thy ===== *)
theory Uart
  imports Simple_MM Fdt_Ro
begin

unbundle bit_operations_syntax

text \<open>
  The data of the driver model (\<^verbatim>\<open>include/kernel/device.h\<close>, \<^verbatim>\<open>include/drivers/uart.h\<close>), the kernel state that the
  drivers share, and the two serial drivers (\<^verbatim>\<open>drivers/serial/pl011.c\<close>, \<^verbatim>\<open>drivers/serial/ns16550.c\<close>).

  Devices and driver data are objects at the addresses that the allocator returned: a map from addresses
  to records, beside the byte memory of the allocator.  A volatile read takes the next value that the
  hardware delivers, and every access is recorded; a busy-wait on hardware that never becomes ready is
  \<open>None\<close>, and so is a null or stray pointer.
\<close>

section \<open>Drivers and devices\<close>

definition DEVICE_STATE_UNINIT :: u8 where "DEVICE_STATE_UNINIT = 0x00"
definition DEVICE_STATE_INITIALIZING :: u8 where "DEVICE_STATE_INITIALIZING = 0x01"
definition DEVICE_STATE_READY :: u8 where "DEVICE_STATE_READY = 0x02"
definition DEVICE_STATE_ERROR :: u8 where "DEVICE_STATE_ERROR = 0xFF"

lemmas device_state_defs =
  DEVICE_STATE_UNINIT_def DEVICE_STATE_INITIALIZING_def DEVICE_STATE_READY_def DEVICE_STATE_ERROR_def

text \<open>The functions that the function pointers of a driver may point to.\<close>

datatype probe_fn = Pl011_probe | Ns16550_probe

datatype uart_fn =
  Pl011_poll_out | Pl011_put_char | Ns16550_poll_out | Ns16550_poll_in | Ns16550_put_char | Ns16550_get_char

record uart_driver_api =
  poll_out :: "uart_fn option"
  poll_in :: "uart_fn option"
  put_char :: "uart_fn option"
  get_char :: "uart_fn option"

record device_driver =
  drv_name :: string
  drv_compatible :: string
  drv_probe :: "probe_fn option"
  drv_api :: "uart_driver_api option"

text \<open>
  \<^verbatim>\<open>name\<close> holds the bytes before the terminating zero of the array \<^verbatim>\<open>char name[32]\<close>; \<^verbatim>\<open>compatible\<close> points into the
  device tree.  A device is zeroed when it is allocated.
\<close>

record platform_device =
  dev_name :: "u8 list"
  dev_compatible :: "int option"
  dt_node_offset :: int
  private_data :: ptr
  init_state :: u8
  dev_driver :: "device_driver option"
  dev_next :: ptr

definition zero_device :: platform_device where
  "zero_device = \<lparr>dev_name = [], dev_compatible = None, dt_node_offset = 0, private_data = NULL,
     init_state = DEVICE_STATE_UNINIT, dev_driver = None, dev_next = NULL\<rparr>"

record pl011_data =
  pl011_base_addr :: u64
  irq_type :: u32
  irq_num :: u32
  irq_flags :: u32

record ns16550_data =
  ns16550_base_addr :: u64
  vbase :: u64
  irq :: u32

datatype uart_data = Pl011 pl011_data | Ns16550 ns16550_data

section \<open>The kernel state\<close>

datatype mmio_event = MRead u64 u64 | MWrite u64 u64

record kernel =
  k_mm :: kmm
  k_devs :: "ptr \<Rightarrow> platform_device option"
  k_data :: "ptr \<Rightarrow> uart_data option"
  platform_bus :: ptr
  system_console :: ptr
  g_dtb_ptr :: fdt
  driver_list :: "device_driver list"
  mmio_in :: "u64 list"
  mmio_trace :: "mmio_event list"

definition mmio_read :: "kernel \<Rightarrow> u64 \<Rightarrow> (u64 \<times> kernel) option" where
  "mmio_read k addr =
     (case mmio_in k of
        [] \<Rightarrow> None
      | v # vs \<Rightarrow> Some (v, k\<lparr>mmio_in := vs, mmio_trace := mmio_trace k @ [MRead addr v]\<rparr>))"

definition mmio_write :: "kernel \<Rightarrow> u64 \<Rightarrow> u64 \<Rightarrow> kernel" where
  "mmio_write k addr v = k\<lparr>mmio_trace := mmio_trace k @ [MWrite addr v]\<rparr>"

text \<open>A busy-wait: read the register until the test succeeds.\<close>

partial_function (option) mmio_wait :: "(u64 \<Rightarrow> bool) \<Rightarrow> u64 \<Rightarrow> kernel \<Rightarrow> kernel option" where
  [code]: "mmio_wait ready addr k = do {
     (v, k) \<leftarrow> mmio_read k addr;
     if ready v then Some k else mmio_wait ready addr k }"

definition set_device :: "kernel \<Rightarrow> ptr \<Rightarrow> platform_device \<Rightarrow> kernel" where
  "set_device k dev d = k\<lparr>k_devs := (k_devs k)(dev := Some d)\<rparr>"

section \<open>PL011\<close>

definition pl011_base :: "kernel \<Rightarrow> ptr \<Rightarrow> u64 option" where
  "pl011_base k dev = do {
     d \<leftarrow> k_devs k dev;
     data \<leftarrow> k_data k (private_data d);
     (case data of Pl011 data \<Rightarrow> Some (pl011_base_addr data) | _ \<Rightarrow> None) }"

definition UART_DR :: u64 where "UART_DR = 0x000"
definition UART_FR :: u64 where "UART_FR = 0x018"
definition UART_FR_TXFF :: u64 where "UART_FR_TXFF = push_bit 5 1"

partial_function (option) pl011_poll_out :: "kernel \<Rightarrow> ptr \<Rightarrow> u8 \<Rightarrow> kernel option" where
  [code]: "pl011_poll_out k dev c = do {
     base \<leftarrow> pl011_base k dev;
     k \<leftarrow> (if c = 10 then pl011_poll_out k dev 13 else Some k);
     k \<leftarrow> mmio_wait (\<lambda>v. v AND UART_FR_TXFF = 0) (base + UART_FR) k;
     Some (mmio_write k (base + UART_DR) (ucast c)) }"

definition pl011_put_char :: "kernel \<Rightarrow> ptr \<Rightarrow> u8 \<Rightarrow> kernel option" where
  "pl011_put_char k dev c = pl011_poll_out k dev c"

text \<open>The failure path of both probes: \<^verbatim>\<open>kfree(data)\<close> and return \<^verbatim>\<open>-1\<close>.\<close>

definition probe_fail :: "kernel \<Rightarrow> ptr \<Rightarrow> (kernel, int) outcome" where
  "probe_fail k data =
     (case kfree (k_mm k) data of
        Ret _ s \<Rightarrow> Ret (- 1) (k\<lparr>k_mm := s, k_data := (k_data k)(data := None)\<rparr>)
      | Panic s \<Rightarrow> Panic (k\<lparr>k_mm := s\<rparr>))"

definition pl011_irqs :: "fdt \<Rightarrow> int \<Rightarrow> pl011_data \<Rightarrow> pl011_data option" where
  "pl011_irqs dtb node data = do {
     r \<leftarrow> fdt_getprop dtb node (bytes_of ''interrupts'');
     (case r of
        Inl _ \<Rightarrow> Some data
      | Inr (prop, len) \<Rightarrow>
          if len \<ge> 12 then do {
            t \<leftarrow> fdt32_ld dtb prop;
            n \<leftarrow> fdt32_ld dtb (prop + 4);
            f \<leftarrow> fdt32_ld dtb (prop + 8);
            Some (data\<lparr>irq_type := t, irq_num := n, irq_flags := f\<rparr>) }
          else Some data) }"

definition pl011_probe :: "kernel \<Rightarrow> ptr \<Rightarrow> (kernel, int) outcome option" where
  "pl011_probe k dev = do {
     (data, s) \<leftarrow> kcalloc (k_mm k) 1 24;
     let k = k\<lparr>k_mm := s\<rparr>;
     if data = NULL then Some (Ret (- 1) k)
     else do {
       d \<leftarrow> k_devs k dev;
       r \<leftarrow> fdt_getprop (g_dtb_ptr k) (dt_node_offset d) (bytes_of ''reg'');
       (case r of
          Inl _ \<Rightarrow> Some (probe_fail k data)
        | Inr (prop, len) \<Rightarrow> do {
            hi \<leftarrow> fdt32_ld (g_dtb_ptr k) prop;
            lo \<leftarrow> fdt32_ld (g_dtb_ptr k) (prop + 4);
            let addr = push_bit 32 (ucast hi) OR ucast lo;
            priv \<leftarrow> pl011_irqs (g_dtb_ptr k) (dt_node_offset d)
              \<lparr>pl011_base_addr = addr, irq_type = 0, irq_num = 0, irq_flags = 0\<rparr>;
            let k = k\<lparr>k_data := (k_data k)(data := Some (Pl011 priv))\<rparr>;
            Some (Ret 0 (set_device k dev (d\<lparr>private_data := data\<rparr>))) }) } }"

definition pl011_remove :: "kernel \<Rightarrow> ptr \<Rightarrow> (kernel, unit) outcome option" where
  "pl011_remove k dev = do {
     d \<leftarrow> k_devs k dev;
     if private_data d \<noteq> NULL then
       Some (case kfree (k_mm k) (private_data d) of
               Ret _ s \<Rightarrow> Ret () (set_device
                 (k\<lparr>k_mm := s, k_data := (k_data k)(private_data d := None)\<rparr>) dev (d\<lparr>private_data := NULL\<rparr>))
             | Panic s \<Rightarrow> Panic (k\<lparr>k_mm := s\<rparr>))
     else Some (Ret () k) }"

definition pl011_api :: uart_driver_api where
  "pl011_api = \<lparr>poll_out = Some Pl011_poll_out, poll_in = None, put_char = Some Pl011_put_char, get_char = None\<rparr>"

text \<open>\<^verbatim>\<open>DRIVER_DEFINE\<close>, whose \<^verbatim>\<open>.remove\<close> is always \<^verbatim>\<open>NULL\<close>.\<close>

definition DRIVER_DEFINE :: "string \<Rightarrow> string \<Rightarrow> probe_fn \<Rightarrow> uart_driver_api \<Rightarrow> device_driver" where
  "DRIVER_DEFINE name cmpt probe api =
     \<lparr>drv_name = name, drv_compatible = cmpt, drv_probe = Some probe, drv_api = Some api\<rparr>"

definition driver_pl011 :: device_driver where
  "driver_pl011 = DRIVER_DEFINE ''pl011'' ''arm,pl011'' Pl011_probe pl011_api"

section \<open>NS16550\<close>

definition ns16550_base :: "kernel \<Rightarrow> ptr \<Rightarrow> u64 option" where
  "ns16550_base k dev = do {
     d \<leftarrow> k_devs k dev;
     data \<leftarrow> k_data k (private_data d);
     (case data of Ns16550 data \<Rightarrow> Some (ns16550_base_addr data) | _ \<Rightarrow> None) }"

definition NS16550_RBR_THR_DLL :: u64 where "NS16550_RBR_THR_DLL = 0x00"
definition NS16550_IER_DLM :: u64 where "NS16550_IER_DLM = 0x01"
definition NS16550_IIR_FCR :: u64 where "NS16550_IIR_FCR = 0x02"
definition NS16550_LCR :: u64 where "NS16550_LCR = 0x03"
definition NS16550_LSR :: u64 where "NS16550_LSR = 0x05"
definition NS16550_LSR_DR :: u64 where "NS16550_LSR_DR = push_bit 0 1"
definition NS16550_LSR_THRE :: u64 where "NS16550_LSR_THRE = push_bit 5 1"

definition ns16550_bptr :: "u64 \<Rightarrow> u32 \<Rightarrow> u64" where
  "ns16550_bptr base off = base + ucast off"

partial_function (option) ns16550_poll_out :: "kernel \<Rightarrow> ptr \<Rightarrow> u8 \<Rightarrow> kernel option" where
  [code]: "ns16550_poll_out k dev c = do {
     addr \<leftarrow> ns16550_base k dev;
     let base = ns16550_bptr addr 0;
     k \<leftarrow> (if c = 10 then ns16550_poll_out k dev 13 else Some k);
     k \<leftarrow> mmio_wait (\<lambda>v. v AND NS16550_LSR_THRE \<noteq> 0) (base + NS16550_LSR) k;
     Some (mmio_write k (base + NS16550_RBR_THR_DLL) (ucast c)) }"

text \<open>The received byte, or \<open>None\<close> inside for the result \<^verbatim>\<open>-1\<close>.\<close>

definition ns16550_poll_in :: "kernel \<Rightarrow> ptr \<Rightarrow> (u8 option \<times> kernel) option" where
  "ns16550_poll_in k dev = do {
     addr \<leftarrow> ns16550_base k dev;
     let base = ns16550_bptr addr 0;
     (lsr, k) \<leftarrow> mmio_read k (base + NS16550_LSR);
     if lsr AND NS16550_LSR_DR \<noteq> 0 then do {
       (v, k) \<leftarrow> mmio_read k (base + NS16550_RBR_THR_DLL);
       Some (Some (ucast v), k) }
     else Some (None, k) }"

definition ns16550_put_char :: "kernel \<Rightarrow> ptr \<Rightarrow> u8 \<Rightarrow> kernel option" where
  "ns16550_put_char k dev c = do {
     addr \<leftarrow> ns16550_base k dev;
     let base = ns16550_bptr addr 0;
     k \<leftarrow> mmio_wait (\<lambda>v. v AND NS16550_LSR_THRE \<noteq> 0) (base + NS16550_LSR) k;
     Some (mmio_write k (base + NS16550_RBR_THR_DLL) (ucast c)) }"

definition ns16550_get_char :: "kernel \<Rightarrow> ptr \<Rightarrow> (u8 \<times> kernel) option" where
  "ns16550_get_char k dev = do {
     addr \<leftarrow> ns16550_base k dev;
     let base = ns16550_bptr addr 0;
     k \<leftarrow> mmio_wait (\<lambda>v. v AND NS16550_LSR_DR \<noteq> 0) (base + NS16550_LSR) k;
     (v, k) \<leftarrow> mmio_read k (base + NS16550_RBR_THR_DLL);
     Some (ucast v, k) }"

definition ns16550_reg :: "fdt \<Rightarrow> int \<Rightarrow> int \<Rightarrow> u64 option" where
  "ns16550_reg dtb prop len =
     (if len \<ge> 8 then do {
        hi \<leftarrow> fdt32_ld dtb prop;
        lo \<leftarrow> fdt32_ld dtb (prop + 4);
        Some (push_bit 32 (ucast hi) OR ucast lo) }
      else do { addr32 \<leftarrow> fdt32_ld dtb prop; Some (ucast addr32) })"

definition ns16550_irq :: "fdt \<Rightarrow> int \<Rightarrow> u32 option" where
  "ns16550_irq dtb node = do {
     r \<leftarrow> fdt_getprop dtb node (bytes_of ''interrupts'');
     (case r of Inr (prop, len) \<Rightarrow> if len \<ge> 4 then fdt32_ld dtb prop else Some 0 | Inl _ \<Rightarrow> Some 0) }"

definition ns16550_probe :: "kernel \<Rightarrow> ptr \<Rightarrow> (kernel, int) outcome option" where
  "ns16550_probe k dev = do {
     (data, s) \<leftarrow> kcalloc (k_mm k) 1 24;
     let k = k\<lparr>k_mm := s\<rparr>;
     if data = NULL then Some (Ret (- 1) k)
     else do {
       d \<leftarrow> k_devs k dev;
       r \<leftarrow> fdt_getprop (g_dtb_ptr k) (dt_node_offset d) (bytes_of ''reg'');
       (case r of
          Inl _ \<Rightarrow> Some (probe_fail k data)
        | Inr (prop, len) \<Rightarrow>
            if len < 4 then Some (probe_fail k data)
            else do {
              addr \<leftarrow> ns16550_reg (g_dtb_ptr k) prop len;
              irq \<leftarrow> ns16550_irq (g_dtb_ptr k) (dt_node_offset d);
              let base = ns16550_bptr addr 0;
              (probe_val, k) \<leftarrow> mmio_read k (base + NS16550_RBR_THR_DLL);
              let k = mmio_write k (base + NS16550_IER_DLM) 0x00;
              let k = mmio_write k (base + NS16550_LCR) 0x03;
              let k = mmio_write k (base + NS16550_IIR_FCR) 0x07;
              let k = k\<lparr>k_data := (k_data k)(data :=
                Some (Ns16550 \<lparr>ns16550_base_addr = addr, vbase = 0, irq = irq\<rparr>))\<rparr>;
              Some (Ret 0 (set_device k dev (d\<lparr>private_data := data, init_state := DEVICE_STATE_READY\<rparr>))) }) } }"

definition ns16550_remove :: "kernel \<Rightarrow> ptr \<Rightarrow> (kernel, unit) outcome option" where
  "ns16550_remove k pdev =
     (if pdev = NULL then Some (Ret () k)
      else do {
        d \<leftarrow> k_devs k pdev;
        if private_data d \<noteq> NULL then
          Some (case kfree (k_mm k) (private_data d) of
                  Ret _ s \<Rightarrow> Ret () (set_device
                    (k\<lparr>k_mm := s, k_data := (k_data k)(private_data d := None)\<rparr>) pdev
                    (d\<lparr>private_data := NULL, init_state := DEVICE_STATE_UNINIT\<rparr>))
                | Panic s \<Rightarrow> Panic (k\<lparr>k_mm := s\<rparr>))
        else Some (Ret () (set_device k pdev (d\<lparr>init_state := DEVICE_STATE_UNINIT\<rparr>))) })"

definition ns16550_api :: uart_driver_api where
  "ns16550_api = \<lparr>poll_out = Some Ns16550_poll_out, poll_in = Some Ns16550_poll_in,
     put_char = Some Ns16550_put_char, get_char = Some Ns16550_get_char\<rparr>"

definition driver_ns16550 :: device_driver where
  "driver_ns16550 = DRIVER_DEFINE ''ns16550'' ''ns16550a'' Ns16550_probe ns16550_api"

section \<open>Calls through the function pointers\<close>

fun run_probe :: "probe_fn \<Rightarrow> kernel \<Rightarrow> ptr \<Rightarrow> (kernel, int) outcome option" where
  "run_probe Pl011_probe k dev = pl011_probe k dev"
| "run_probe Ns16550_probe k dev = ns16550_probe k dev"

text \<open>The output functions that a \<^verbatim>\<open>poll_out\<close> or \<^verbatim>\<open>put_char\<close> member may hold.\<close>

fun run_out :: "uart_fn \<Rightarrow> kernel \<Rightarrow> ptr \<Rightarrow> u8 \<Rightarrow> kernel option" where
  "run_out Pl011_poll_out k dev c = pl011_poll_out k dev c"
| "run_out Pl011_put_char k dev c = pl011_put_char k dev c"
| "run_out Ns16550_poll_out k dev c = ns16550_poll_out k dev c"
| "run_out Ns16550_put_char k dev c = ns16550_put_char k dev c"
| "run_out _ k dev c = None"

definition dev_api :: "kernel \<Rightarrow> ptr \<Rightarrow> uart_driver_api option" where
  "dev_api k dev = do { d \<leftarrow> k_devs k dev; drv \<leftarrow> dev_driver d; drv_api drv }"

definition uart_poll_out :: "kernel \<Rightarrow> ptr \<Rightarrow> u8 \<Rightarrow> kernel option" where
  "uart_poll_out k dev out_char = do { api \<leftarrow> dev_api k dev; f \<leftarrow> poll_out api; run_out f k dev out_char }"

definition uart_put_char :: "kernel \<Rightarrow> ptr \<Rightarrow> u8 \<Rightarrow> kernel option" where
  "uart_put_char k dev c = do { api \<leftarrow> dev_api k dev; f \<leftarrow> put_char api; run_out f k dev c }"

definition uart_poll_in :: "kernel \<Rightarrow> ptr \<Rightarrow> (u8 option \<times> kernel) option" where
  "uart_poll_in k dev = do {
     api \<leftarrow> dev_api k dev;
     f \<leftarrow> poll_in api;
     (case f of Ns16550_poll_in \<Rightarrow> ns16550_poll_in k dev | _ \<Rightarrow> None) }"

definition uart_get_char :: "kernel \<Rightarrow> ptr \<Rightarrow> (u8 \<times> kernel) option" where
  "uart_get_char k dev = do {
     api \<leftarrow> dev_api k dev;
     f \<leftarrow> get_char api;
     (case f of Ns16550_get_char \<Rightarrow> ns16550_get_char k dev | _ \<Rightarrow> None) }"

end
