(* ===== verification/Printk.thy ===== *)
theory Printk
  imports Prelude
begin

unbundle bit_operations_syntax

text \<open>
  The format engine of \<^verbatim>\<open>kernel/printk.c\<close>: \<^verbatim>\<open>print_string_fmt\<close>, \<^verbatim>\<open>print_number\<close> and \<^verbatim>\<open>printk\<close> as
  functions that compute the characters handed to \<^verbatim>\<open>print_char\<close>, in order.  A C \<^verbatim>\<open>int\<close> is an
  \<open>int\<close> that is wrapped to 32 bits where the source computes it from input.  A format string is
  the list of its characters before the terminating zero; reading past that zero is \<open>None\<close>.
\<close>

section \<open>Padding and strings\<close>

text \<open>\<^verbatim>\<open>while (pad-- > 0) print_char(c)\<close>\<close>

function print_pad :: "int \<Rightarrow> char \<Rightarrow> string" where
  "print_pad pad c = (if pad > 0 then c # print_pad (pad - 1) c else [])"
  by auto
termination by (relation "measure (\<lambda>(pad, _). nat pad)") auto

declare print_pad.simps [simp del]

text \<open>The scan for the length of the part of the string that is printed.\<close>

fun print_len :: "string \<Rightarrow> int \<Rightarrow> int \<Rightarrow> int" where
  "print_len [] precision len = len"
| "print_len (c # s) precision len =
     (if precision = - 1 \<or> len < precision then print_len s precision (len + 1) else len)"

definition print_string_fmt :: "string option \<Rightarrow> int \<Rightarrow> int \<Rightarrow> bool \<Rightarrow> string" where
  "print_string_fmt s width precision flags_left =
     (let s = (case s of None \<Rightarrow> ''(null)'' | Some s \<Rightarrow> s);
          len = print_len s precision 0;
          pad = width - len
      in (if \<not> flags_left then print_pad pad CHR '' '' else [])
         @ take (nat len) s
         @ (if flags_left then print_pad pad CHR '' '' else []))"

section \<open>Numbers\<close>

definition digit_char :: "bool \<Rightarrow> u64 \<Rightarrow> char" where
  "digit_char is_upper rem =
     (if rem < 10 then char_of (unat rem + 48)
      else char_of (unat rem - 10 + of_char (if is_upper then CHR ''A'' else CHR ''a'')))"

text \<open>The digits are produced backwards into \<^verbatim>\<open>buf\<close>, and \<^verbatim>\<open>num\<close> is divided as they are; a base
  below 2 would not terminate.\<close>

partial_function (option) digits_loop :: "bool \<Rightarrow> u64 \<Rightarrow> u64 \<Rightarrow> (string \<times> u64) option" where
  [code]: "digits_loop is_upper base num =
     (if num > 0 then
        do { (rest, final) \<leftarrow> digits_loop is_upper base (num div base);
             Some (digit_char is_upper (num mod base) # rest, final) }
      else Some ([], num))"

record pflags =
  flags_left :: bool
  flags_plus :: bool
  flags_space :: bool
  flags_hash :: bool
  flags_zero :: bool

definition print_number :: "u64 \<Rightarrow> u64 \<Rightarrow> int \<Rightarrow> int \<Rightarrow> pflags \<Rightarrow> bool \<Rightarrow> bool \<Rightarrow> string option" where
  "print_number num base width precision fl is_signed is_upper =
     (let (prefix, num) =
            (if is_signed then
               if sint num < 0 then (''-'', - num)
               else if flags_plus fl then (''+'', num)
               else if flags_space fl then ('' '', num)
               else ([], num)
             else ([], num))
      in do {
        (buf, num) \<leftarrow> (if num = 0 then Some (''0'', num) else digits_loop is_upper base num);
        let i = int (length buf);
        let prefix = prefix @ (if flags_hash fl \<and> num \<noteq> 0 \<and> base = 16
                               then (if is_upper then ''0X'' else ''0x'') else []);
        let prefix_len = int (length prefix);
        let flags_zero = (if precision \<ge> 0 then False else flags_zero fl);
        let zeros = (if precision > i then precision - i else 0);
        let pad = width - (i + zeros + prefix_len);
        let (zeros, pad) = (if flags_zero \<and> \<not> flags_left fl \<and> pad > 0 then (zeros + pad, 0) else (zeros, pad));
        Some ((if \<not> flags_left fl then print_pad pad CHR '' '' else [])
          @ prefix @ print_pad zeros CHR ''0'' @ rev buf
          @ (if flags_left fl then print_pad pad CHR '' '' else [])) })"

section \<open>The format parser\<close>

text \<open>The character under \<^verbatim>\<open>p\<close>: past the last character it is the terminating zero.\<close>

definition peek :: "string \<Rightarrow> char" where
  "peek p = (case p of [] \<Rightarrow> CHR 0x00 | c # _ \<Rightarrow> c)"

fun parse_flags :: "string \<Rightarrow> pflags \<Rightarrow> pflags \<times> string" where
  "parse_flags [] fl = (fl, [])"
| "parse_flags (c # p) fl =
     (if c = CHR ''-'' then parse_flags p (fl\<lparr>flags_left := True\<rparr>)
      else if c = CHR ''+'' then parse_flags p (fl\<lparr>flags_plus := True\<rparr>)
      else if c = CHR '' '' then parse_flags p (fl\<lparr>flags_space := True\<rparr>)
      else if c = CHR ''#'' then parse_flags p (fl\<lparr>flags_hash := True\<rparr>)
      else if c = CHR ''0'' then parse_flags p (fl\<lparr>flags_zero := True\<rparr>)
      else (fl, c # p))"

definition is_dec :: "char \<Rightarrow> bool" where
  "is_dec c \<longleftrightarrow> (48 :: nat) \<le> of_char c \<and> (of_char c :: nat) \<le> 57"

fun parse_int :: "string \<Rightarrow> int \<Rightarrow> int \<times> string" where
  "parse_int [] n = (n, [])"
| "parse_int (c # p) n =
     (if is_dec c then parse_int p (c_int (n * 10 + (of_char c - 48))) else (n, c # p))"

definition parse_precision :: "string \<Rightarrow> int \<times> string" where
  "parse_precision p = (case p of c # q \<Rightarrow> if c = CHR ''.'' then parse_int q 0 else (- 1, p) | [] \<Rightarrow> (- 1, p))"

fun parse_modifiers :: "string \<Rightarrow> nat \<Rightarrow> bool \<Rightarrow> nat \<times> bool \<times> string" where
  "parse_modifiers [] is_long is_size_t = (is_long, is_size_t, [])"
| "parse_modifiers (c # p) is_long is_size_t =
     (if c = CHR ''l'' then parse_modifiers p (is_long + 1) is_size_t
      else if c = CHR ''z'' then parse_modifiers p is_long True
      else (is_long, is_size_t, c # p))"

text \<open>
  \<^verbatim>\<open>va_arg\<close>: a 64-bit argument is the register slot, an \<^verbatim>\<open>int\<close> its sign-extended low half, an
  \<^verbatim>\<open>unsigned int\<close> its zero-extended low half. Fetching an argument that was not passed, or one of
  the wrong kind, is undefined in C.
\<close>

fun va_reg :: "va list \<Rightarrow> (u64 \<times> va list) option" where
  "va_reg (VReg v # args) = Some (v, args)"
| "va_reg _ = None"

fun va_str :: "va list \<Rightarrow> (string option \<times> va list) option" where
  "va_str (VStr s # args) = Some (s, args)"
| "va_str _ = None"

definition va_signed :: "nat \<Rightarrow> bool \<Rightarrow> u64 \<Rightarrow> u64" where
  "va_signed is_long is_size_t v = (if is_size_t \<or> is_long \<ge> 1 then v else scast (ucast v :: u32))"

definition va_unsigned :: "nat \<Rightarrow> bool \<Rightarrow> u64 \<Rightarrow> u64" where
  "va_unsigned is_long is_size_t v = (if is_size_t \<or> is_long \<ge> 1 then v else ucast (ucast v :: u32))"

text \<open>State 5, the format specifier \<open>c\<close>: the characters printed and the arguments left.\<close>

definition print_spec :: "char \<Rightarrow> pflags \<Rightarrow> int \<Rightarrow> int \<Rightarrow> nat \<Rightarrow> bool \<Rightarrow> va list \<Rightarrow> (string \<times> va list) option" where
  "print_spec c fl width precision is_long is_size_t args =
     (if c = CHR ''d'' \<or> c = CHR ''i'' then
        do { (v, args) \<leftarrow> va_reg args;
             out \<leftarrow> print_number (va_signed is_long is_size_t v) 10 width precision fl True False;
             Some (out, args) }
      else if c = CHR ''u'' \<or> c = CHR ''x'' \<or> c = CHR ''X'' then
        do { (v, args) \<leftarrow> va_reg args;
             out \<leftarrow> print_number (va_unsigned is_long is_size_t v) (if c = CHR ''u'' then 10 else 16)
                     width precision fl False (c = CHR ''X'');
             Some (out, args) }
      else if c = CHR ''p'' then
        do { (v, args) \<leftarrow> va_reg args;
             out \<leftarrow> print_number v 16 (16 + 2) (- 1)
                     \<lparr>flags_left = flags_left fl, flags_plus = False, flags_space = False,
                      flags_hash = True, flags_zero = True\<rparr> False False;
             Some (out, args) }
      else if c = CHR ''s'' then
        do { (s, args) \<leftarrow> va_str args; Some (print_string_fmt s width precision (flags_left fl), args) }
      else if c = CHR ''c'' then
        do { (v, args) \<leftarrow> va_reg args; Some ([char_of (unat (ucast v :: u8))], args) }
      else if c = CHR ''%'' then Some (''%'', args)
      else Some ([CHR ''%'', c], args))"

definition no_flags :: pflags where
  "no_flags = \<lparr>flags_left = False, flags_plus = False, flags_space = False, flags_hash = False, flags_zero = False\<rparr>"

lemma parse_flags_length: "length (snd (parse_flags p fl)) \<le> length p"
  by (induction p fl rule: parse_flags.induct) (auto simp: le_Suc_eq)

lemma parse_int_length: "length (snd (parse_int p n)) \<le> length p"
  by (induction p n rule: parse_int.induct) (auto simp: le_Suc_eq)

lemma parse_precision_length: "length (snd (parse_precision p)) \<le> length p"
  using parse_int_length by (auto simp: parse_precision_def le_Suc_eq split: list.splits)

lemma parse_modifiers_length: "length (snd (snd (parse_modifiers p l z))) \<le> length p"
  by (induction p l z rule: parse_modifiers.induct) (auto simp: le_Suc_eq)

text \<open>The directive after a \<^verbatim>\<open>%\<close>: what it prints, the arguments left, and the rest of the format;
  at the end of the format the loop steps over the terminating zero.\<close>

definition print_directive :: "string \<Rightarrow> va list \<Rightarrow> (string \<times> va list \<times> string) option" where
  "print_directive p args =
     (let (fl, p) = parse_flags p no_flags;
          (width, p) = parse_int p 0;
          (precision, p) = parse_precision p;
          (is_long, is_size_t, p) = parse_modifiers p 0 False
      in do {
        (out, args) \<leftarrow> print_spec (peek p) fl width precision is_long is_size_t args;
        (case p of [] \<Rightarrow> None | _ # p \<Rightarrow> Some (out, args, p)) })"

lemma print_directive_length:
  "print_directive p args = Some (out, args', q) \<Longrightarrow> length q < length p"
  using parse_flags_length [of p no_flags] parse_int_length [of "snd (parse_flags p no_flags)" 0]
    parse_precision_length [of "snd (parse_int (snd (parse_flags p no_flags)) 0)"]
    parse_modifiers_length [of "snd (parse_precision (snd (parse_int (snd (parse_flags p no_flags)) 0)))" 0 False]
  by (auto simp: print_directive_def Let_def split_def split: bind_splits list.splits)

function printk_chars :: "string \<Rightarrow> va list \<Rightarrow> string option" where
  "printk_chars [] args = Some []"
| "printk_chars (c # p) args =
     (if c \<noteq> CHR ''%'' then do { rest \<leftarrow> printk_chars p args; Some (c # rest) }
      else
        (case print_directive p args of
           None \<Rightarrow> None
         | Some (out, args, q) \<Rightarrow> do { rest \<leftarrow> printk_chars q args; Some (out @ rest) }))"
  by pat_completeness auto
termination
  by (relation "measure (\<lambda>(p, _). length p)") (auto dest: print_directive_length)

section \<open>Padding and strings\<close>

lemma print_pad_replicate: "print_pad n c = replicate (nat n) c"
proof (induction n c rule: print_pad.induct)
  case (1 n c)
  show ?case
  proof (cases "0 < n")
    case True
    then have "nat n = Suc (nat (n - 1))"
      by simp
    with True 1 show ?thesis
      by (simp add: print_pad.simps [of n c])
  qed (simp add: print_pad.simps [of n c])
qed

lemma print_len_eq:
  assumes "- 1 \<le> precision" and "0 \<le> len"
  shows "print_len s precision len =
    (if precision = - 1 then len + int (length s) else max len (min precision (len + int (length s))))"
  using assms by (induction s precision len rule: print_len.induct) auto

text \<open>A string conversion prints the string, or \<^verbatim>\<open>(null)\<close> for a null pointer, cut to the precision
  if there is one and padded with spaces to the width, on the left or, with the \<^verbatim>\<open>-\<close> flag, on the
  right.\<close>

theorem print_string_fmt_layout:
  assumes "- 1 \<le> precision"
  shows "print_string_fmt s width precision left =
    (let t = (case s of None \<Rightarrow> ''(null)'' | Some s \<Rightarrow> s);
         u = (if precision = - 1 then t else take (nat precision) t);
         spaces = replicate (nat (width - int (length u))) CHR '' ''
     in if left then u @ spaces else spaces @ u)"
proof -
  define t where "t = (case s of None \<Rightarrow> ''(null)'' | Some s \<Rightarrow> s)"
  define u where "u = (if precision = - 1 then t else take (nat precision) t)"
  have "print_len t precision 0 = int (length u)"
    using assms by (auto simp: print_len_eq u_def)
  moreover have "take (length u) t = u"
    by (simp add: u_def) (metis length_take take_all_iff nle_le min.absorb1 min.absorb2)
  ultimately show ?thesis
    unfolding print_string_fmt_def t_def [symmetric] Let_def u_def [symmetric] by (simp add: print_pad_replicate)
qed

theorem print_string_fmt_layout_witness:
  "print_string_fmt (Some ''serial'') 5 3 False = ''  ser'' \<and> print_string_fmt None 8 (- 1) True = ''(null)  ''"
  using print_string_fmt_layout [of 3 "Some ''serial''" 5 False] print_string_fmt_layout [of "- 1" None 8 True]
  by (simp add: numeral_eq_Suc)

section \<open>Numbers\<close>

text \<open>The digits of a number, least significant first, and the value of a digit list.\<close>

definition digits_value :: "nat \<Rightarrow> nat list \<Rightarrow> nat" where
  "digits_value b ds = foldr (\<lambda>d acc. d + b * acc) ds 0"

definition is_numeral :: "nat \<Rightarrow> nat \<Rightarrow> nat list \<Rightarrow> bool" where
  "is_numeral b n ds \<longleftrightarrow> (\<forall>d\<in>set ds. d < b) \<and> digits_value b ds = n
     \<and> (if n = 0 then ds = [0] else ds \<noteq> [] \<and> last ds \<noteq> 0)"

abbreviation digit_text :: "bool \<Rightarrow> nat list \<Rightarrow> string" where
  "digit_text up ds \<equiv> map (\<lambda>d. digit_char up (of_nat d)) ds"

lemma digits_loop_numeral:
  assumes "2 \<le> unat base"
  shows "\<exists>ds. digits_loop up base num = Some (digit_text up ds, 0) \<and> (\<forall>d\<in>set ds. d < unat base)
     \<and> digits_value (unat base) ds = unat num \<and> (num = 0 \<longrightarrow> ds = []) \<and> (num \<noteq> 0 \<longrightarrow> ds \<noteq> [] \<and> last ds \<noteq> 0)"
proof (induction "unat num" arbitrary: num rule: less_induct)
  case less
  show ?case
  proof (cases "num = 0")
    case True
    then show ?thesis
      by (auto simp: digits_loop.simps [of up base] digits_value_def)
  next
    case False
    then have pos: "0 < unat num" "num > 0"
      by (simp_all add: unat_gt_0 word_gt_0)
    have quot: "unat (num div base) = unat num div unat base" and md: "unat (num mod base) = unat num mod unat base"
      by (simp_all add: unat_div_distrib unat_mod_distrib)
    have "unat (num div base) < unat num"
      using assms pos unfolding quot by (intro div_less_dividend) auto
    from less.hyps [OF this] obtain ds where ds: "digits_loop up base (num div base) = Some (digit_text up ds, 0)"
      "\<forall>d\<in>set ds. d < unat base" "digits_value (unat base) ds = unat num div unat base"
      "num div base = 0 \<longrightarrow> ds = []" "num div base \<noteq> 0 \<longrightarrow> ds \<noteq> [] \<and> last ds \<noteq> 0"
      unfolding quot by blast
    let ?ds = "unat (num mod base) # ds"
    have "last ?ds \<noteq> 0"
    proof (cases "num div base = 0")
      case True
      then have "unat num div unat base = 0"
        unfolding quot [symmetric] by simp
      then have "unat num < unat base"
        using assms by (auto simp: div_eq_0_iff)
      then show ?thesis
        using True ds(4) md pos by simp
    qed (use ds(5) in simp)
    moreover have "digits_loop up base num = Some (digit_text up ?ds, 0)"
      using pos(2) ds(1) by (simp add: digits_loop.simps [of up base num])
    moreover have "digits_value (unat base) ?ds = unat num"
      using ds(3) unfolding md by (simp add: digits_value_def)
    ultimately show ?thesis
      using ds(2) assms md False by (intro exI [of _ ?ds]) auto
  qed
qed

definition sign_prefix :: "pflags \<Rightarrow> bool \<Rightarrow> u64 \<Rightarrow> string" where
  "sign_prefix fl is_signed num =
     (if \<not> is_signed then [] else if sint num < 0 then ''-''
      else if flags_plus fl then ''+'' else if flags_space fl then '' '' else [])"

definition magnitude :: "bool \<Rightarrow> u64 \<Rightarrow> nat" where
  "magnitude is_signed num = (if is_signed then nat \<bar>sint num\<bar> else unat num)"

lemma uint_of_sint: "0 \<le> k \<Longrightarrow> k < 2 ^ 64 \<Longrightarrow> uint (word_of_int k :: u64) = k"
  by (simp only: uint_word_of_int_eq) (simp add: take_bit_int_eq_self)

lemma unat_sint_u64:
  fixes num :: u64
  shows "sint num < 0 \<Longrightarrow> unat (- num) = nat (- sint num)" and "0 \<le> sint num \<Longrightarrow> unat num = nat (sint num)"
proof -
  have "- (2 ^ 63) \<le> sint num" "sint num < 2 ^ 63"
    using sint_greater_eq [of num] sint_less [of num] by simp_all
  then have "sint num < 0 \<Longrightarrow> uint (- num) = - sint num" "0 \<le> sint num \<Longrightarrow> uint num = sint num"
    using uint_of_sint [of "- sint num"] uint_of_sint [of "sint num"] by simp_all
  then show "sint num < 0 \<Longrightarrow> unat (- num) = nat (- sint num)" "0 \<le> sint num \<Longrightarrow> unat num = nat (sint num)"
    by (simp_all flip: nat_uint_eq)
qed

text \<open>
  The layout of a number: spaces, sign, zeros and digits fill the width; the zeros give the
  precision, or the width when the \<^verbatim>\<open>0\<close> flag applies.
\<close>

definition num_zeros :: "pflags \<Rightarrow> int \<Rightarrow> int \<Rightarrow> nat \<Rightarrow> nat \<Rightarrow> nat" where
  "num_zeros fl width precision prefix_len i =
     (if flags_zero fl \<and> precision < 0 \<and> \<not> flags_left fl
      then nat (width - int (i + prefix_len)) else nat (precision - int i))"

definition num_layout :: "pflags \<Rightarrow> int \<Rightarrow> int \<Rightarrow> string \<Rightarrow> string \<Rightarrow> string" where
  "num_layout fl width precision prefix digits =
     (let body = prefix @ replicate (num_zeros fl width precision (length prefix) (length digits)) CHR ''0'' @ digits;
          spaces = replicate (nat (width - int (length body))) CHR '' ''
      in if flags_left fl then body @ spaces else spaces @ body)"

lemma digit_char_0: "digit_char up 0 = CHR ''0''"
  by (simp add: digit_char_def) code_simp

lemma print_number_numeral:
  assumes "2 \<le> unat base"
  shows "\<exists>ds. is_numeral (unat base) (magnitude is_signed num) ds
     \<and> print_number num base width precision fl is_signed is_upper
        = Some (num_layout fl width precision (sign_prefix fl is_signed num) (rev (digit_text is_upper ds)))"
proof -
  define n where "n = (if is_signed \<and> sint num < 0 then - num else num)"
  have mag: "unat n = magnitude is_signed num"
    by (auto simp: n_def magnitude_def unat_sint_u64)
  obtain ds where ds: "digits_loop is_upper base n = Some (digit_text is_upper ds, 0)"
    "\<forall>d\<in>set ds. d < unat base" "digits_value (unat base) ds = unat n" "n \<noteq> 0 \<longrightarrow> ds \<noteq> [] \<and> last ds \<noteq> 0"
    using digits_loop_numeral [OF assms] by blast
  define ds' where "ds' = (if n = 0 then [0] else ds)"
  have num: "is_numeral (unat base) (magnitude is_signed num) ds'"
    using ds assms by (auto simp: is_numeral_def ds'_def mag [symmetric] digits_value_def unat_eq_zero)
  have buf: "(if n = 0 then Some (''0'', n) else digits_loop is_upper base n) = Some (digit_text is_upper ds', 0)"
    using ds(1) by (auto simp: ds'_def digit_char_0)
  have pre: "(if is_signed then if sint num < 0 then (''-'', - num)
      else if flags_plus fl then (''+'', num) else if flags_space fl then ('' '', num) else ([], num)
      else ([], num)) = (sign_prefix fl is_signed num, n)"
    by (auto simp: sign_prefix_def n_def)
  have "print_number num base width precision fl is_signed is_upper
      = Some (num_layout fl width precision (sign_prefix fl is_signed num) (rev (digit_text is_upper ds')))"
    unfolding print_number_def pre Let_def prod.case buf
    by (auto simp: num_layout_def num_zeros_def print_pad_replicate Let_def)
  with num show ?thesis
    by blast
qed



text \<open>A printed number is exactly as wide as the larger of the width and what its sign, its
  precision and its digits need.\<close>

theorem print_number_length:
  assumes "2 \<le> unat base" and "print_number num base width precision fl is_signed is_upper = Some out"
  shows "\<exists>ds. is_numeral (unat base) (magnitude is_signed num) ds
     \<and> int (length out) = max width (int (length (sign_prefix fl is_signed num)) + max precision (int (length ds)))"
proof -
  obtain ds where ds: "is_numeral (unat base) (magnitude is_signed num) ds"
    "out = num_layout fl width precision (sign_prefix fl is_signed num) (rev (digit_text is_upper ds))"
    using print_number_numeral [OF assms(1), of is_signed num width precision fl is_upper] assms(2) by auto
  moreover have "int (length out) = max width (int (length (sign_prefix fl is_signed num)) + max precision (int (length ds)))"
    unfolding ds(2) by (auto simp: num_layout_def num_zeros_def Let_def)
  ultimately show ?thesis
    by blast
qed

theorem print_number_length_witness:
  "\<exists>out ds. print_number 255 16 8 (- 1) no_flags False False = Some out \<and> is_numeral 16 255 ds
     \<and> int (length out) = max 8 (int (length (sign_prefix no_flags False 255)) + max (- 1) (int (length ds)))"
proof -
  obtain out where out: "print_number 255 16 8 (- 1) no_flags False False = Some out"
    using print_number_numeral [of 16 False 255 8 "- 1" no_flags False] by auto
  then show ?thesis
    using print_number_length [OF _ out] by (auto simp: magnitude_def)
qed

text \<open>The alternate form never takes effect. The test for the \<^verbatim>\<open>0x\<close> prefix reads \<^verbatim>\<open>num\<close> after the
  digit loop has divided it down to 0, so the \<^verbatim>\<open>#\<close> flag changes no output and \<^verbatim>\<open>%p\<close> prints no
  prefix.\<close>

theorem print_number_hash_ignored:
  assumes "2 \<le> unat base"
  shows "print_number num base width precision (fl\<lparr>flags_hash := h\<rparr>) is_signed is_upper
     = print_number num base width precision fl is_signed is_upper"
proof -
  have buf: "\<exists>buf. (if n = 0 then Some (''0'', n) else digits_loop is_upper base n) = Some (buf, 0)" for n
    using digits_loop_numeral [OF assms, of is_upper n] by auto
  obtain b1 where b1: "(if - num = 0 then Some (''0'', - num) else digits_loop is_upper base (- num)) = Some (b1, 0)"
    using buf by blast
  obtain b2 where b2: "(if num = 0 then Some (''0'', num) else digits_loop is_upper base num) = Some (b2, 0)"
    using buf by blast
  have sel: "flags_left (fl\<lparr>flags_hash := h\<rparr>) = flags_left fl" "flags_plus (fl\<lparr>flags_hash := h\<rparr>) = flags_plus fl"
    "flags_space (fl\<lparr>flags_hash := h\<rparr>) = flags_space fl" "flags_zero (fl\<lparr>flags_hash := h\<rparr>) = flags_zero fl"
    by simp_all
  show ?thesis
    unfolding print_number_def Let_def sel
    by (cases is_signed; cases "sint num < 0"; cases "flags_plus fl"; cases "flags_space fl")
      (simp_all only: if_True if_False prod.case b1 b2 bind.bind_lunit simp_thms)
qed

theorem print_number_hash_ignored_witness:
  "print_number 0x4F 16 8 (- 1) (no_flags\<lparr>flags_zero := True, flags_hash := True\<rparr>) False False
     = print_number 0x4F 16 8 (- 1) (no_flags\<lparr>flags_zero := True\<rparr>) False False"
  using print_number_hash_ignored [of 16 "0x4F" 8 "- 1" True "no_flags\<lparr>flags_zero := True\<rparr>" False False] by simp

section \<open>Formats\<close>

text \<open>Text without a percent sign is printed as it is, in front of whatever follows; a format
  that ends in a percent sign makes the parser step over the terminating zero of the string.\<close>

theorem printk_plain_prefix:
  assumes "CHR ''%'' \<notin> set pre"
  shows "printk_chars (pre @ fmt) args = map_option ((@) pre) (printk_chars fmt args)
     \<and> printk_chars (pre @ ''%'') args = None"
proof -
  have "printk_chars (pre @ fmt) args = map_option ((@) pre) (printk_chars fmt args)" for fmt
    using assms by (induction pre) (auto simp: map_option_case split: option.splits)
  moreover have "printk_chars ''%'' args = None"
    by (simp add: print_directive_def Let_def parse_precision_def peek_def split: bind_splits)
  ultimately show ?thesis
    by simp
qed

theorem printk_plain_prefix_witness:
  "printk_chars (''ok: '' @ ''%%'') [] = map_option ((@) ''ok: '') (printk_chars ''%%'' []) \<and> printk_chars (''ok: '' @ ''%'') [] = None"
  by (rule printk_plain_prefix) simp

lemma digit_char_dec: "d < 10 \<Longrightarrow> is_dec (digit_char False (of_nat d)) \<and> (of_char (digit_char False (of_nat d)) :: int) = 48 + int d"
proof -
  have of: "(of_char (char_of (n :: nat)) :: int) = int (n mod 256)" for n
    by (metis of_nat_of_char of_char_of)
  assume "d < 10"
  then have "d \<in> {0, 1, 2, 3, 4, 5, 6, 7, 8, 9}"
    by auto
  then show ?thesis
    by (elim insertE) (simp_all add: digit_char_def is_dec_def of)
qed

lemma parse_int_text:
  assumes "\<forall>d\<in>set ds. d < 10" and "digits_value 10 (rev ds @ us) < 2 ^ 31"
  shows "parse_int (digit_text False ds) (int (digits_value 10 us)) = (int (digits_value 10 (rev ds @ us)), [])"
  using assms
proof (induction ds arbitrary: us)
  case Nil
  then show ?case by simp
next
  case (Cons d ds)
  have dv: "digits_value 10 (d # us) = d + 10 * digits_value 10 us"
    by (simp add: digits_value_def)
  have mono: "digits_value 10 (vs @ ws) \<ge> digits_value 10 ws" for vs ws
    by (induction vs) (auto simp: digits_value_def)
  have "digits_value 10 (d # us) < 2 ^ 31"
    using Cons.prems(2) mono [of "d # us" "rev ds"] by simp
  then have "c_int (int (digits_value 10 us) * 10 + int d) = int (digits_value 10 (d # us))"
    unfolding c_int_def dv by (subst signed_take_bit_int_eq_self) auto
  then show ?case
    using Cons.IH [of "d # us"] Cons.prems digit_char_dec [of d] by (simp add: add.commute)
qed

text \<open>Printing a number below \<open>2 ^ 31\<close> with \<^verbatim>\<open>%u\<close> and reading the text back with the parser's own
  number reader gives the number.\<close>

theorem decimal_roundtrip:
  assumes "n < 2 ^ 31"
  shows "\<exists>out. printk_chars ''%u'' [VReg (of_nat n)] = Some out \<and> parse_int out 0 = (int n, [])"
proof -
  have n: "unat (of_nat n :: u64) = n"
    using assms by (simp add: unat_of_nat_u64)
  have low: "ucast (ucast (of_nat n :: u64) :: u32) = (of_nat n :: u64)"
    using assms n by (intro ucast_u32_id) simp
  obtain ds where ds: "is_numeral 10 n ds"
    and out: "print_number (of_nat n) 10 0 (- 1) no_flags False False = Some (rev (digit_text False ds))"
    using print_number_numeral [of 10 False "of_nat n" 0 "- 1" no_flags False] n
    by (auto simp: magnitude_def sign_prefix_def num_layout_def num_zeros_def no_flags_def Let_def)
  have "printk_chars ''%u'' [VReg (of_nat n)] = Some (rev (digit_text False ds))"
    by (simp add: print_directive_def parse_precision_def peek_def print_spec_def va_unsigned_def low out is_dec_def)
  moreover have "parse_int (digit_text False (rev ds)) (int (digits_value 10 [])) = (int (digits_value 10 (rev (rev ds) @ [])), [])"
    using ds assms by (intro parse_int_text) (auto simp: is_numeral_def)
  ultimately show ?thesis
    using ds by (auto simp: is_numeral_def rev_map digits_value_def)
qed

theorem decimal_roundtrip_witness: "\<exists>out. printk_chars ''%u'' [VReg 1500] = Some out \<and> parse_int out 0 = (1500, [])"
  using decimal_roundtrip [of 1500] by simp

end
