(* ===== verification/Device.thy ===== *)
theory Device
  imports Uart Printk
begin

unbundle bit_operations_syntax

text \<open>
  The platform bus (\<^verbatim>\<open>kernel/device.c\<close>) and the console (\<^verbatim>\<open>console_init\<close> to \<^verbatim>\<open>print_char\<close> of \<^verbatim>\<open>kernel/printk.c\<close>).  The
  drivers that the linker collects between \<^verbatim>\<open>_driver_list_start\<close> and \<^verbatim>\<open>_driver_list_end\<close> are a list in the state.
\<close>

section \<open>Console output\<close>

definition console_putc :: "kernel \<Rightarrow> u8 \<Rightarrow> kernel option" where
  "console_putc k c =
     (if system_console k \<noteq> NULL then do {
        d \<leftarrow> k_devs k (system_console k);
        (case dev_driver d of
           None \<Rightarrow> Some k
         | Some drv \<Rightarrow>
             (case drv_api drv of
                None \<Rightarrow> Some k
              | Some api \<Rightarrow> do {
                  f \<leftarrow> put_char api;
                  k \<leftarrow> (if c = 10 then run_out f k (system_console k) 13 else Some k);
                  run_out f k (system_console k) c })) }
      else Some k)"

fun console_puts :: "kernel \<Rightarrow> u8 list \<Rightarrow> kernel option" where
  "console_puts k [] = Some k"
| "console_puts k (c # str) = do { k \<leftarrow> console_putc k c; console_puts k str }"

definition print_char :: "kernel \<Rightarrow> u8 \<Rightarrow> kernel option" where
  "print_char k c = (if system_console k = NULL then Some k else console_putc k c)"

text \<open>\<^verbatim>\<open>printk\<close>: the characters of the format engine, one \<^verbatim>\<open>print_char\<close> after the other.\<close>

fun print_chars :: "kernel \<Rightarrow> string \<Rightarrow> kernel option" where
  "print_chars k [] = Some k"
| "print_chars k (c # cs) = do { k \<leftarrow> print_char k (of_char c); print_chars k cs }"

definition printk :: "kernel \<Rightarrow> string \<Rightarrow> va list \<Rightarrow> kernel option" where
  "printk k fmt args = do { cs \<leftarrow> printk_chars fmt args; print_chars k cs }"

section \<open>Enumeration\<close>

text \<open>The bytes that \<^verbatim>\<open>strncpy\<close> copies from a string at a blob pointer, at most \<open>n\<close>, before the zero.\<close>

fun blob_strncpy :: "fdt \<Rightarrow> int \<Rightarrow> nat \<Rightarrow> u8 list option" where
  "blob_strncpy fdt p 0 = Some []"
| "blob_strncpy fdt p (Suc n) =
     do { b \<leftarrow> rd8 fdt p; if b = 0 then Some [] else do { s \<leftarrow> blob_strncpy fdt (p + 1) n; Some (b # s) } }"

text \<open>Whether the loop body goes on past the two \<^verbatim>\<open>continue\<close>s: the pointer to \<^verbatim>\<open>compatible\<close>, or skip the node.\<close>

definition node_compatible :: "fdt \<Rightarrow> int \<Rightarrow> int option option" where
  "node_compatible dtb node_offset = do {
     r \<leftarrow> fdt_getprop dtb node_offset (bytes_of ''compatible'');
     (case r of
        Inl _ \<Rightarrow> Some None
      | Inr (compat', _) \<Rightarrow> do {
          status \<leftarrow> fdt_getprop dtb node_offset (bytes_of ''status'');
          (case status of
             Inl _ \<Rightarrow> Some (Some compat')
           | Inr (status, _) \<Rightarrow> do {
               disabled \<leftarrow> blob_eq dtb status (bytes_of ''disabled'' @ [0]);
               Some (if disabled then None else Some compat') }) }) }"

text \<open>The rest of the body once a device was allocated at \<open>dev\<close>.\<close>

definition add_device :: "kernel \<Rightarrow> fdt \<Rightarrow> int \<Rightarrow> int \<Rightarrow> ptr \<Rightarrow> kernel option" where
  "add_device k dtb node_offset compat' dev = do {
     node_name \<leftarrow> fdt_get_name dtb node_offset;
     (case node_name of
        Inl _ \<Rightarrow> None
      | Inr (node_name, _) \<Rightarrow> do {
          name \<leftarrow> blob_strncpy dtb node_name 31;
          let k = set_device k dev (zero_device\<lparr>dev_name := name, dev_compatible := Some compat',
            dt_node_offset := node_offset, init_state := DEVICE_STATE_UNINIT, dev_next := platform_bus k\<rparr>);
          Some (k\<lparr>platform_bus := dev\<rparr>) }) }"

partial_function (option) enumerate_loop :: "kernel \<Rightarrow> fdt \<Rightarrow> int \<Rightarrow> int option \<Rightarrow> kernel option" where
  [code]: "enumerate_loop k dtb node_offset depth =
     (if node_offset \<ge> 0 then do {
        c \<leftarrow> node_compatible dtb node_offset;
        (case c of
           None \<Rightarrow> do {
             (node_offset, depth) \<leftarrow> fdt_next_node dtb node_offset depth;
             enumerate_loop k dtb node_offset depth }
         | Some compat' \<Rightarrow> do {
             (dev, s) \<leftarrow> kcalloc (k_mm k) 1 88;
             let k = k\<lparr>k_mm := s\<rparr>;
             if dev = NULL then Some k
             else do {
               k \<leftarrow> add_device k dtb node_offset compat' dev;
               (node_offset, depth) \<leftarrow> fdt_next_node dtb node_offset depth;
               enumerate_loop k dtb node_offset depth } }) }
      else Some k)"

definition platform_bus_enumerate :: "kernel \<Rightarrow> fdt \<Rightarrow> kernel option" where
  "platform_bus_enumerate k dtb = do {
     (node_offset, depth) \<leftarrow> fdt_next_node dtb (- 1) (Some 0);
     enumerate_loop k dtb node_offset depth }"

section \<open>Matching drivers\<close>

definition c_string :: "u8 list \<Rightarrow> string" where
  "c_string bs = map (\<lambda>b. char_of (unat b)) bs"

text \<open>The inner loop over the drivers for one device: whether the device was matched and probed.\<close>

fun match_drivers :: "fdt \<Rightarrow> device_driver list \<Rightarrow> ptr \<Rightarrow> kernel \<Rightarrow> (kernel, bool) outcome option" where
  "match_drivers dtb [] dev k = Some (Ret False k)"
| "match_drivers dtb (drv # drvs) dev k = do {
     d \<leftarrow> k_devs k dev;
     k \<leftarrow> printk k ''Matching device '%s' against driver '%s'...\<newline>''
       [VStr (Some (c_string (dev_name d))), VStr (Some (drv_name drv))];
     d \<leftarrow> k_devs k dev;
     r \<leftarrow> fdt_node_check_compatible dtb (dt_node_offset d) (bytes_of (drv_compatible drv));
     if r = 0 then do {
       let k = set_device k dev (d\<lparr>dev_driver := Some drv, init_state := DEVICE_STATE_INITIALIZING\<rparr>);
       probed \<leftarrow> (case drv_probe drv of None \<Rightarrow> Some (Ret (- 1) k) | Some f \<Rightarrow> run_probe f k dev);
       (case probed of
          Panic k \<Rightarrow> Some (Panic k)
        | Ret rc k \<Rightarrow> do {
            d \<leftarrow> k_devs k dev;
            Some (Ret (rc = 0) (set_device k dev
              (d\<lparr>init_state := if rc = 0 then DEVICE_STATE_READY else DEVICE_STATE_ERROR\<rparr>))) }) }
     else match_drivers dtb drvs dev k }"

partial_function (option) match_devices :: "kernel \<Rightarrow> fdt \<Rightarrow> ptr \<Rightarrow> int \<Rightarrow> (kernel, int) outcome option" where
  [code]: "match_devices k dtb dev matched_count =
     (if dev \<noteq> NULL then do {
        d \<leftarrow> k_devs k dev;
        if init_state d \<noteq> DEVICE_STATE_UNINIT then match_devices k dtb (dev_next d) matched_count
        else do {
          r \<leftarrow> match_drivers dtb (driver_list k) dev k;
          (case r of
             Panic k \<Rightarrow> Some (Panic k)
           | Ret matched k \<Rightarrow> do {
               d \<leftarrow> k_devs k dev;
               match_devices k dtb (dev_next d) (if matched then matched_count + 1 else matched_count) }) } }
      else Some (Ret matched_count k))"

definition platform_bus_match_drivers :: "kernel \<Rightarrow> fdt \<Rightarrow> (kernel, int) outcome option" where
  "platform_bus_match_drivers k dtb = match_devices k dtb (platform_bus k) 0"

partial_function (option) find_device :: "kernel \<Rightarrow> u8 list \<Rightarrow> ptr \<Rightarrow> ptr option" where
  [code]: "find_device k name dev =
     (if dev \<noteq> NULL then do {
        d \<leftarrow> k_devs k dev;
        if dev_name d = name then Some dev else find_device k name (dev_next d) }
      else Some NULL)"

definition platform_bus_get_device :: "kernel \<Rightarrow> u8 list \<Rightarrow> ptr option" where
  "platform_bus_get_device k name = find_device k name (platform_bus k)"

section \<open>Choosing the console\<close>

text \<open>
  The name that \<^verbatim>\<open>console_init\<close> looks for: \<^verbatim>\<open>buf\<close> is the C string of the copied property without its baud rate,
  \<^verbatim>\<open>node_name\<close> the part behind the last slash.
\<close>

definition stdout_buf :: "u8 list \<Rightarrow> u8 list" where
  "stdout_buf bytes = takeWhile (\<lambda>b. b \<noteq> of_char CHR '':'') (takeWhile (\<lambda>b. b \<noteq> 0) bytes)"

definition stdout_node_name :: "u8 list \<Rightarrow> u8 list" where
  "stdout_node_name buf =
     (if buf \<noteq> [] \<and> hd buf = of_char CHR ''/'' then
        (let base = rev (takeWhile (\<lambda>b. b \<noteq> of_char CHR ''/'') (rev buf))
         in if base \<noteq> [] then base else tl buf)
      else buf)"

definition console_lookup :: "kernel \<Rightarrow> u8 list \<Rightarrow> ptr option" where
  "console_lookup k buf = do {
     console \<leftarrow> platform_bus_get_device k (stdout_node_name buf);
     if console = NULL then platform_bus_get_device k buf else Some console }"

definition console_init :: "kernel \<Rightarrow> fdt \<Rightarrow> (int \<times> kernel) option" where
  "console_init k dtb = do {
     chosen_offset \<leftarrow> fdt_path_offset_namelen dtb (bytes_of ''/chosen'');
     if chosen_offset < 0 then Some (- 1, k)
     else do {
       stdout_path \<leftarrow> fdt_getprop dtb chosen_offset (bytes_of ''stdout-path'');
       (case stdout_path of
          Inl _ \<Rightarrow> Some (- 1, k)
        | Inr (stdout_path, len) \<Rightarrow>
            if len \<le> 0 then Some (- 1, k)
            else do {
              let copy_len = (if len \<ge> 128 then 127 else len);
              bytes \<leftarrow> blob_bytes dtb stdout_path (nat copy_len);
              let buf = stdout_buf bytes;
              if stdout_node_name buf = [] then Some (- 1, k)
              else do {
                console \<leftarrow> console_lookup k buf;
                let k = k\<lparr>system_console := console\<rparr>;
                ready \<leftarrow> (if console = NULL then Some False
                  else do { d \<leftarrow> k_devs k console; Some (init_state d = DEVICE_STATE_READY) });
                Some (if \<not> ready then (- 1, k\<lparr>system_console := NULL\<rparr>) else (0, k)) } }) } }"

end
