(* ===== verification/Uart_Correct.thy ===== *)
theory Uart_Correct
  imports Device
begin

unbundle bit_operations_syntax

text \<open>
  What the serial drivers do to their hardware.  \<open>send\<close> is the contract of a transmitter: for every byte, poll the
  status register until it reports room, then write the byte to the data register.  The output functions of both
  drivers are interpreted as transmitters, and the console is proved once for every transmitter.
\<close>

section \<open>Busy waiting\<close>

lemma mmio_wait_fails:
  "\<forall>v \<in> set (mmio_in k). \<not> ready v \<Longrightarrow> mmio_wait ready addr k = None"
proof (induction "mmio_in k" arbitrary: k)
  case Nil
  then show ?case
    by (simp add: mmio_wait.simps mmio_read_def)
next
  case (Cons v vs)
  from Cons.hyps(2) [symmetric] Cons.prems
  show ?case
    by (simp add: mmio_wait.simps [of ready addr k] mmio_read_def Cons.hyps(1))
qed

lemma mmio_wait_succeeds:
  "mmio_in k = vs @ v # rest \<Longrightarrow> \<forall>w \<in> set vs. \<not> ready w \<Longrightarrow> ready v \<Longrightarrow>
   mmio_wait ready addr k =
     Some (k\<lparr>mmio_in := rest, mmio_trace := mmio_trace k @ map (MRead addr) (vs @ [v])\<rparr>)"
proof (induction vs arbitrary: k)
  case Nil
  then show ?case
    by (simp add: mmio_wait.simps [of ready addr k] mmio_read_def)
next
  case (Cons w vs)
  then show ?case
    by (simp add: mmio_wait.simps [of ready addr k] mmio_read_def)
qed

section \<open>Transmitters\<close>

fun send :: "(u64 \<Rightarrow> bool) \<Rightarrow> u64 \<Rightarrow> u64 \<Rightarrow> u8 list \<Rightarrow> kernel \<Rightarrow> kernel option" where
  "send ready fr dr [] k = Some k"
| "send ready fr dr (c # cs) k = do {
     k \<leftarrow> mmio_wait ready fr k;
     send ready fr dr cs (mmio_write k dr (ucast c)) }"

lemma send_append:
  "send ready fr dr (cs @ ds) k = do { k \<leftarrow> send ready fr dr cs k; send ready fr dr ds k }"
  by (induction cs arbitrary: k) (auto simp: bind_eq_None_conv split: Option.bind_split)

text \<open>
  The data that a trace sent, and the discipline that every write of data follows a poll that found room.
\<close>

fun sent :: "u64 \<Rightarrow> mmio_event list \<Rightarrow> u64 list" where
  "sent dr [] = []"
| "sent dr (MRead a v # t) = sent dr t"
| "sent dr (MWrite a v # t) = (if a = dr then v # sent dr t else sent dr t)"

fun paced :: "(u64 \<Rightarrow> bool) \<Rightarrow> u64 \<Rightarrow> bool \<Rightarrow> mmio_event list \<Rightarrow> bool" where
  "paced ready fr room [] = True"
| "paced ready fr room (MRead a v # t) = paced ready fr (a = fr \<and> ready v) t"
| "paced ready fr room (MWrite a v # t) = (room \<and> paced ready fr False t)"

lemma sent_append [simp]: "sent dr (s @ t) = sent dr s @ sent dr t"
  by (induction dr s rule: sent.induct) auto

lemma sent_reads [simp]: "sent dr (map (MRead a) vs) = []"
  by (induction vs) auto

lemma paced_wait:
  "ready v \<Longrightarrow> paced ready fr room (map (MRead fr) (vs @ [v]) @ MWrite dr x # t) = paced ready fr False t"
  by (induction vs arbitrary: room) auto

text \<open>
  A transmitter returns exactly when the hardware reports room often enough; then it has sent the bytes in order,
  each after a poll that found room, and nothing else of the state changed.
\<close>

lemma send_correct:
  defines "room r k \<equiv> length (filter r (mmio_in k))"
  shows "if length cs \<le> room ready k
         then \<exists>t rest. send ready fr dr cs k = Some (k\<lparr>mmio_in := rest, mmio_trace := mmio_trace k @ t\<rparr>)
                \<and> sent dr t = map ucast cs \<and> paced ready fr False t
                \<and> length (filter ready rest) = room ready k - length cs
         else send ready fr dr cs k = None"
  unfolding room_def
proof (induction cs arbitrary: k)
  case Nil
  have "k = k\<lparr>mmio_in := mmio_in k, mmio_trace := mmio_trace k @ []\<rparr>"
    by simp
  then show ?case
    by (auto intro!: exI [of _ "[]"] exI [of _ "mmio_in k"])
next
  case (Cons c cs)
  show ?case
  proof (cases "\<exists>v \<in> set (mmio_in k). ready v")
    case False
    then have "filter ready (mmio_in k) = []"
      by (simp add: filter_empty_conv)
    with False show ?thesis
      by (simp add: mmio_wait_fails)
  next
    case True
    then obtain vs v rest where
      split: "mmio_in k = vs @ v # rest" and r: "ready v" and nr: "\<forall>w \<in> set vs. \<not> ready w"
      by (auto dest!: split_list_first_prop)
    define k1 where "k1 = k\<lparr>mmio_in := rest,
      mmio_trace := mmio_trace k @ map (MRead fr) (vs @ [v]) @ [MWrite dr (ucast c)]\<rparr>"
    have step: "send ready fr dr (c # cs) k = send ready fr dr cs k1"
      by (simp add: mmio_wait_succeeds [where ready = ready, OF split nr r] mmio_write_def k1_def)
    have "filter ready vs = []"
      using nr by (simp add: filter_empty_conv)
    then have count: "length (filter ready (mmio_in k)) = Suc (length (filter ready (mmio_in k1)))"
      using split r by (simp add: k1_def)
    show ?thesis
    proof (cases "length cs \<le> length (filter ready (mmio_in k1))")
      case True
      with Cons.IH [of k1] obtain t rest' where
        "send ready fr dr cs k1 = Some (k1\<lparr>mmio_in := rest', mmio_trace := mmio_trace k1 @ t\<rparr>)"
        "sent dr t = map ucast cs" "paced ready fr False t"
        "length (filter ready rest') = length (filter ready (mmio_in k1)) - length cs"
        by auto
      then have "send ready fr dr (c # cs) k = Some (k\<lparr>mmio_in := rest', mmio_trace := mmio_trace k @
            (map (MRead fr) (vs @ [v]) @ MWrite dr (ucast c) # t)\<rparr>)"
        and "sent dr (map (MRead fr) (vs @ [v]) @ MWrite dr (ucast c) # t) = map ucast (c # cs)"
        and "paced ready fr False (map (MRead fr) (vs @ [v]) @ MWrite dr (ucast c) # t)"
        and "length (filter ready rest') = length (filter ready (mmio_in k)) - length (c # cs)"
        using r step count by (simp_all only: paced_wait) (simp_all add: k1_def)
      moreover have "length (c # cs) \<le> length (filter ready (mmio_in k))"
        using True count by simp
      ultimately show ?thesis
        by (simp only: if_True) blast
    next
      case False
      with Cons.IH [of k1] step count show ?thesis
        by simp
    qed
  qed
qed

section \<open>The drivers are transmitters\<close>

text \<open>
  The interface of an output function: \<open>base_of\<close> finds the registers of the device, \<open>status\<close> and \<open>dr\<close> are the offsets
  of the status and the data register, \<open>expand\<close> gives the bytes that one character becomes.
\<close>

locale transmitter =
  fixes f :: uart_fn
    and base_of :: "kernel \<Rightarrow> ptr \<Rightarrow> u64 option"
    and status dr :: u64
    and ready :: "u64 \<Rightarrow> bool"
    and expand :: "u8 \<Rightarrow> u8 list"
  assumes base_frame: "base_of (k\<lparr>mmio_in := i, mmio_trace := t\<rparr>) dev = base_of k dev"
    and out: "base_of k dev = Some base \<Longrightarrow> run_out f k dev c = send ready (base + status) (base + dr) (expand c) k"
begin

text \<open>The device that the console uses: its driver's \<^verbatim>\<open>put_char\<close> is this transmitter.\<close>

definition console_on :: "kernel \<Rightarrow> u64 \<Rightarrow> bool" where
  "console_on k base \<longleftrightarrow> system_console k \<noteq> NULL \<and> base_of k (system_console k) = Some base
     \<and> (\<exists>d drv api. k_devs k (system_console k) = Some d \<and> dev_driver d = Some drv \<and> drv_api drv = Some api
          \<and> put_char api = Some f)"

definition console_bytes :: "u8 \<Rightarrow> u8 list" where
  "console_bytes c = (if c = 10 then expand 13 @ expand 10 else expand c)"

lemma console_on_frame: "console_on (k\<lparr>mmio_in := i, mmio_trace := t\<rparr>) base = console_on k base"
  by (simp add: console_on_def base_frame)

lemma send_keeps:
  assumes "send r fr d cs k = Some k'"
  obtains i t where "k' = k\<lparr>mmio_in := i, mmio_trace := t\<rparr>"
  using send_correct [of cs r k fr d] assms by (auto split: if_splits)

lemma console_putc_send:
  assumes "console_on k base"
  shows "console_putc k c = send ready (base + status) (base + dr) (console_bytes c) k"
proof -
  from assms obtain d drv api where
    dev: "system_console k \<noteq> NULL" "k_devs k (system_console k) = Some d" "dev_driver d = Some drv"
      "drv_api drv = Some api" "put_char api = Some f"
    and base: "base_of k (system_console k) = Some base"
    unfolding console_on_def by blast
  have snd: "run_out f k' (system_console k') 10 = send ready (base + status) (base + dr) (expand 10) k'"
    if "send ready (base + status) (base + dr) (expand 13) k = Some k'" for k'
    using that base by (auto elim!: send_keeps intro!: out simp: base_frame)
  from dev base show ?thesis
    by (auto simp: console_putc_def console_bytes_def out send_append snd intro!: Option.bind_cong)
qed

lemma console_puts_send:
  assumes "console_on k base"
  shows "console_puts k str = send ready (base + status) (base + dr) (concat (map console_bytes str)) k"
  using assms
proof (induction str arbitrary: k)
  case Nil
  then show ?case by simp
next
  case (Cons c str)
  have "console_puts k' str = send ready (base + status) (base + dr) (concat (map console_bytes str)) k'"
    if "send ready (base + status) (base + dr) (console_bytes c) k = Some k'" for k'
    using that Cons.prems by (auto elim!: send_keeps intro!: Cons.IH simp: console_on_frame)
  with Cons.prems show ?case
    by (auto simp: console_putc_send send_append intro!: Option.bind_cong)
qed

end

text \<open>\<^verbatim>\<open>print_char\<close> tests for a console once more than \<^verbatim>\<open>console_putc\<close> does.\<close>

lemma print_chars_puts: "print_chars k cs = console_puts k (map of_char cs)"
  by (induction cs arbitrary: k) (auto simp: print_char_def console_putc_def)

text \<open>The bytes that the two drivers send for a character.\<close>

definition crlf :: "u8 \<Rightarrow> u8 list" where
  "crlf c = (if c = 10 then [13, 10] else [c])"

lemma pl011_poll_out_send:
  assumes "pl011_base k dev = Some base"
  shows "pl011_poll_out k dev c =
    send (\<lambda>v. v AND UART_FR_TXFF = 0) (base + UART_FR) (base + UART_DR) (crlf c) k"
proof -
  have plain: "pl011_poll_out k' dev c =
      send (\<lambda>v. v AND UART_FR_TXFF = 0) (base + UART_FR) (base + UART_DR) [c] k'"
    if "c \<noteq> 10" and "pl011_base k' dev = Some base" for k' c
    using that by (subst pl011_poll_out.simps) simp
  show ?thesis
  proof (cases "c = 10")
    case True
    then show ?thesis
      using plain [of 13 k] assms
      by (subst pl011_poll_out.simps) (simp add: crlf_def)
  next
    case False
    with plain assms show ?thesis by (simp add: crlf_def)
  qed
qed

lemma ns16550_put_char_send:
  assumes "ns16550_base k dev = Some base"
  shows "ns16550_put_char k dev c =
    send (\<lambda>v. v AND NS16550_LSR_THRE \<noteq> 0) (base + NS16550_LSR) (base + NS16550_RBR_THR_DLL) [c] k"
  using assms by (simp add: ns16550_put_char_def ns16550_bptr_def)

lemma ns16550_poll_out_send:
  assumes "ns16550_base k dev = Some base"
  shows "ns16550_poll_out k dev c =
    send (\<lambda>v. v AND NS16550_LSR_THRE \<noteq> 0) (base + NS16550_LSR) (base + NS16550_RBR_THR_DLL) (crlf c) k"
proof -
  have plain: "ns16550_poll_out k dev c =
      send (\<lambda>v. v AND NS16550_LSR_THRE \<noteq> 0) (base + NS16550_LSR) (base + NS16550_RBR_THR_DLL) [c] k"
    if "c \<noteq> 10" for c
    using that assms by (subst ns16550_poll_out.simps) (simp add: ns16550_bptr_def)
  show ?thesis
  proof (cases "c = 10")
    case True
    then show ?thesis
      using plain [of 13] assms
      by (subst ns16550_poll_out.simps) (simp add: crlf_def ns16550_bptr_def)
  next
    case False
    with plain show ?thesis by (simp add: crlf_def)
  qed
qed

interpretation pl011_out: transmitter Pl011_put_char pl011_base UART_FR UART_DR
  "\<lambda>v. v AND UART_FR_TXFF = 0" crlf
  by unfold_locales (simp_all add: pl011_base_def pl011_put_char_def pl011_poll_out_send)

interpretation ns16550_out: transmitter Ns16550_put_char ns16550_base NS16550_LSR NS16550_RBR_THR_DLL
  "\<lambda>v. v AND NS16550_LSR_THRE \<noteq> 0" "\<lambda>c. [c]"
  by unfold_locales (simp_all add: ns16550_base_def ns16550_put_char_send)

section \<open>The console\<close>

text \<open>The state in which \<^verbatim>\<open>console_init\<close> leaves the kernel: the console is a device that this driver was bound to.\<close>

definition console_driver :: "kernel \<Rightarrow> device_driver \<Rightarrow> bool" where
  "console_driver k drv \<longleftrightarrow> system_console k \<noteq> NULL
     \<and> (case k_devs k (system_console k) of Some d \<Rightarrow> dev_driver d = Some drv | None \<Rightarrow> False)"

lemma console_driver_on:
  assumes "console_driver k drv"
  obtains d where "system_console k \<noteq> NULL" "k_devs k (system_console k) = Some d" "dev_driver d = Some drv"
  using assms by (auto simp: console_driver_def split: option.splits)

lemma newline_char: "of_char c = (10 :: u8) \<longleftrightarrow> c = CHR 0x0A"
proof
  assume "of_char c = (10 :: u8)"
  then have "unat (of_nat (of_char c) :: u8) = unat (10 :: u8)"
    by (cases c) (simp add: of_char_def)
  moreover have "of_char c < (256 :: nat)"
    by (rule nat_of_char_less_256)
  ultimately have "of_char c = (10 :: nat)"
    by (simp add: unat_of_nat)
  then have "of_char c = (of_char CHR 0x0A :: nat)"
    by simp
  then show "c = CHR 0x0A"
    by (simp only: of_char_eq_iff)
qed simp

lemma printk_send:
  assumes "printk_chars fmt args = Some cs"
    and "\<And>str. console_puts k str = send ready fr dr (concat (map line str)) k"
    and "out = concat (map (\<lambda>c. line (of_char c)) cs)"
  shows "if length out \<le> length (filter ready (mmio_in k))
         then \<exists>t rest. printk k fmt args = Some (k\<lparr>mmio_in := rest, mmio_trace := mmio_trace k @ t\<rparr>)
                \<and> sent dr t = map ucast out \<and> paced ready fr False t
         else printk k fmt args = None"
proof -
  have "printk k fmt args = send ready fr dr out k"
    using assms by (simp add: printk_def print_chars_puts comp_def)
  then show ?thesis
    using send_correct [of out ready k fr dr] by (auto split: if_splits)
qed

text \<open>C32: \<open>printk\<close> on a PL011 console returns exactly when the transmit FIFO reports room at least once for every byte
  that has to be sent.  Then the data register received the formatted text, with two carriage returns and a
  newline for every newline; every byte was written right after a poll that found room; and nothing else of the
  kernel state changed.  Otherwise \<open>printk\<close> spins forever.\<close>
theorem pl011_printk_output:
  assumes "console_driver k driver_pl011" and "pl011_base k (system_console k) = Some base"
    and "printk_chars fmt args = Some cs"
    and "out = concat (map (\<lambda>c. if c = CHR 0x0A then [13, 13, 10] else [of_char c :: u8]) cs)"
    and "ready = (\<lambda>v. v AND UART_FR_TXFF = 0)"
  shows "if length out \<le> length (filter ready (mmio_in k))
         then \<exists>t rest. printk k fmt args = Some (k\<lparr>mmio_in := rest, mmio_trace := mmio_trace k @ t\<rparr>)
                \<and> sent (base + UART_DR) t = map ucast out \<and> paced ready (base + UART_FR) False t
         else printk k fmt args = None"
proof (rule printk_send [OF assms(3)])
  have "pl011_out.console_on k base"
    using assms(1,2) by (auto elim!: console_driver_on
      simp: pl011_out.console_on_def driver_pl011_def DRIVER_DEFINE_def pl011_api_def)
  then show "console_puts k str = send ready (base + UART_FR) (base + UART_DR)
      (concat (map pl011_out.console_bytes str)) k" for str
    unfolding assms(5) by (rule pl011_out.console_puts_send)
  show "out = concat (map (\<lambda>c. pl011_out.console_bytes (of_char c)) cs)"
    unfolding assms(4) by (intro arg_cong [where f = concat] map_cong)
      (simp_all add: pl011_out.console_bytes_def crlf_def newline_char)
qed

text \<open>A kernel with one bound serial device at \<^verbatim>\<open>0x1000\<close>, its private data at \<^verbatim>\<open>0x2000\<close>.\<close>

definition sample_console :: "device_driver \<Rightarrow> uart_data \<Rightarrow> u64 list \<Rightarrow> kernel" where
  "sample_console drv data ins = \<lparr>k_mm = \<lparr>kmem = (\<lambda>_. 0), free_mem_list_head = 0x100, klog = []\<rparr>,
     k_devs = [0x1000 \<mapsto> zero_device\<lparr>private_data := 0x2000, init_state := DEVICE_STATE_READY, dev_driver := Some drv\<rparr>],
     k_data = [0x2000 \<mapsto> data], platform_bus = 0x1000, system_console = 0x1000,
     g_dtb_ptr = \<lparr>fdt_addr = 0, fdt_bytes = []\<rparr>, driver_list = [drv], mmio_in = ins, mmio_trace = []\<rparr>"

theorem pl011_printk_output_witness:
  "\<exists>t rest. printk (sample_console driver_pl011
        (Pl011 \<lparr>pl011_base_addr = 0x9000000, irq_type = 0, irq_num = 0, irq_flags = 0\<rparr>) [0x20, 0, 0, 0x20, 0, 0]) ''a\<newline>'' []
      = Some (sample_console driver_pl011
        (Pl011 \<lparr>pl011_base_addr = 0x9000000, irq_type = 0, irq_num = 0, irq_flags = 0\<rparr>) [0x20, 0, 0, 0x20, 0, 0]
        \<lparr>mmio_in := rest, mmio_trace := t\<rparr>) \<and> sent 0x9000000 t = [97, 13, 13, 10]"
  using pl011_printk_output [where k = "sample_console driver_pl011
        (Pl011 \<lparr>pl011_base_addr = 0x9000000, irq_type = 0, irq_num = 0, irq_flags = 0\<rparr>) [0x20, 0, 0, 0x20, 0, 0]"
      and base = "0x9000000" and fmt = "''a\<newline>''" and args = "[]" and cs = "''a\<newline>''", OF _ _ _ refl refl]
  by (auto simp add: console_driver_def sample_console_def pl011_base_def UART_FR_TXFF_def UART_DR_def)

text \<open>\<open>printk\<close> on an NS16550 console returns exactly when the line status reports an empty transmit register at
  least once for every byte to send.  Then the transmit register received the formatted text, with a carriage
  return before every newline, each byte right after a poll that found the register empty, and nothing else of
  the kernel state changed.  Otherwise \<open>printk\<close> spins forever.\<close>
theorem ns16550_printk_output:
  assumes "console_driver k driver_ns16550" and "ns16550_base k (system_console k) = Some base"
    and "printk_chars fmt args = Some cs"
    and "out = concat (map (\<lambda>c. if c = CHR 0x0A then [13, 10] else [of_char c :: u8]) cs)"
    and "ready = (\<lambda>v. v AND NS16550_LSR_THRE \<noteq> 0)"
  shows "if length out \<le> length (filter ready (mmio_in k))
         then \<exists>t rest. printk k fmt args = Some (k\<lparr>mmio_in := rest, mmio_trace := mmio_trace k @ t\<rparr>)
                \<and> sent (base + NS16550_RBR_THR_DLL) t = map ucast out \<and> paced ready (base + NS16550_LSR) False t
         else printk k fmt args = None"
proof (rule printk_send [OF assms(3)])
  have "ns16550_out.console_on k base"
    using assms(1,2) by (auto elim!: console_driver_on
      simp: ns16550_out.console_on_def driver_ns16550_def DRIVER_DEFINE_def ns16550_api_def)
  then show "console_puts k str = send ready (base + NS16550_LSR) (base + NS16550_RBR_THR_DLL)
      (concat (map ns16550_out.console_bytes str)) k" for str
    unfolding assms(5) by (rule ns16550_out.console_puts_send)
  show "out = concat (map (\<lambda>c. ns16550_out.console_bytes (of_char c)) cs)"
    unfolding assms(4) by (intro arg_cong [where f = concat] map_cong)
      (simp_all add: ns16550_out.console_bytes_def newline_char)
qed

theorem ns16550_printk_output_witness:
  "printk (sample_console driver_ns16550 (Ns16550 \<lparr>ns16550_base_addr = 0x10000000, vbase = 0, irq = 10\<rparr>) [0, 0x60, 0])
     ''ok'' [] = None"
  using ns16550_printk_output [where k = "sample_console driver_ns16550
        (Ns16550 \<lparr>ns16550_base_addr = 0x10000000, vbase = 0, irq = 10\<rparr>) [0, 0x60, 0]"
      and base = "0x10000000" and fmt = "''ok''" and args = "[]" and cs = "''ok''", OF _ _ _ refl refl]
  by (simp add: console_driver_def sample_console_def ns16550_base_def NS16550_LSR_THRE_def)

end
