(* ===== verification/Heap_Shape.thy ===== *)
theory Heap_Shape
  imports Simple_MM
begin

unbundle bit_operations_syntax

text \<open>
  The shape of a well-formed heap of the allocator in theory \<^verbatim>\<open>Simple_MM\<close>: what the size-and-flags
  word of a header encodes, the heap as a list of blocks tiling the memory between the base and
  the end marker, which bytes carry that structure, and which bytes the free-list nodes occupy.
\<close>

section \<open>The size-and-flags word of a block header\<close>

lemma mm_consts:
  "MIN_BLOCK_SIZE = 8" "FLAG_MASK = 7" "SIZE_MASK = NOT 7"
  "FLAG_FREE = 1" "FLAG_PREV_FREE = 2" "FLAG_POISONED = 4"
  by (simp_all add: MIN_BLOCK_SIZE_def FLAG_MASK_def SIZE_MASK_def FLAG_FREE_def
      FLAG_PREV_FREE_def FLAG_POISONED_def BIT2MASK_def push_bit_eq_mult)

lemma bit_flags [simp]:
  "bit FLAG_FREE n \<longleftrightarrow> n = 0" "bit FLAG_PREV_FREE n \<longleftrightarrow> n = 1" "bit FLAG_POISONED n \<longleftrightarrow> n = 2"
  by (auto simp: FLAG_FREE_def FLAG_PREV_FREE_def FLAG_POISONED_def bit_BIT2MASK)

lemma bit_masks [simp]: "bit FLAG_MASK n \<longleftrightarrow> n < 3" "bit SIZE_MASK n \<longleftrightarrow> 3 \<le> n \<and> n < 64"
proof -
  have m: "FLAG_MASK = mask 3"
    by (simp add: FLAG_MASK_def mask_eq_exp_minus_1 push_bit_eq_mult)
  show "bit FLAG_MASK n \<longleftrightarrow> n < 3" "bit SIZE_MASK n \<longleftrightarrow> 3 \<le> n \<and> n < 64"
    unfolding SIZE_MASK_def m by (auto simp only: bit_simps, auto)
qed

text \<open>\<open>sf_ok sf n f p\<close>: the word says size \<open>n\<close>, free flag \<open>f\<close>, previous-free flag \<open>p\<close>.\<close>

definition sf_ok :: "u32 \<Rightarrow> nat \<Rightarrow> bool \<Rightarrow> bool \<Rightarrow> bool" where
  "sf_ok sf n f p \<longleftrightarrow> unat (EXTRACT_SIZE sf) = n \<and> IS_BLOCK_FREE sf = f \<and> IS_PREV_BLOCK_FREE sf = p"

lemma IS_FREE_bit: "IS_BLOCK_FREE sf = bit sf 0" "IS_PREV_BLOCK_FREE sf = bit sf 1"
  by (simp_all add: IS_BLOCK_FREE_def IS_PREV_BLOCK_FREE_def GET_BIT_iff)

lemma bit_EXTRACT_SIZE: "bit (EXTRACT_SIZE sf) n \<longleftrightarrow> 3 \<le> n \<and> bit sf n"
  by (auto simp: EXTRACT_SIZE_def GET_MASK_def bit_simps dest: bit_imp_le_length)

lemma bit_EXTRACT_FLAG: "bit (EXTRACT_FLAG sf) n \<longleftrightarrow> n < 3 \<and> bit sf n"
  by (auto simp: EXTRACT_FLAG_def GET_MASK_def bit_simps dest: bit_imp_le_length)

lemma EXTRACT_SIZE_eqI: "(\<And>n. 3 \<le> n \<Longrightarrow> n < 32 \<Longrightarrow> bit x n = bit y n) \<Longrightarrow> EXTRACT_SIZE x = EXTRACT_SIZE y"
  using bit_imp_le_length [of x] bit_imp_le_length [of y]
  by (intro bit_eqI) (auto simp: bit_EXTRACT_SIZE)

lemma unat_EXTRACT_SIZE_bound: "unat (EXTRACT_SIZE sf) < 2 ^ 32"
proof -
  have "unat (EXTRACT_SIZE sf) = take_bit 32 (unat (EXTRACT_SIZE sf))"
    by (rule bit_eqI) (auto simp: bit_simps bit_EXTRACT_SIZE dest: bit_imp_le_length)
  then show ?thesis
    by (metis take_bit_nat_less_exp)
qed

lemma EXTRACT_SIZE_dvd: "8 dvd unat (EXTRACT_SIZE sf)"
proof -
  have "take_bit 3 (unat (EXTRACT_SIZE sf)) = 0"
    by (rule bit_eqI) (auto simp: bit_simps bit_EXTRACT_SIZE)
  then show ?thesis
    by (simp add: take_bit_eq_mod mod_eq_0_iff_dvd)
qed

text \<open>A size below \<open>2 ^ 32\<close> that is a multiple of 8 occupies bits 3 to 31 only.\<close>

lemma size_bits:
  assumes "unat (w :: u64) < 2 ^ 32" and "8 dvd unat w" and "bit w n"
  shows "3 \<le> n \<and> n < 32"
proof -
  have "take_bit 32 (unat w) = unat w" "take_bit 3 (unat w) = 0"
    using assms(1,2) by (simp_all add: take_bit_nat_eq_self take_bit_eq_mod mod_eq_0_iff_dvd)
  then have "bit (unat w) n = (n < 32 \<and> bit (unat w) n)" "\<not> (n < 3 \<and> bit (unat w) n)"
    by (metis bit_take_bit_iff, metis bit_take_bit_iff bit_0_eq bot_apply bot_bool_def)
  moreover have "bit (unat w) n"
    using assms(3) by (simp add: bit_simps bit_imp_le_length)
  ultimately show ?thesis by auto
qed

lemma EXTRACT_SIZE_pack:
  assumes "unat (w :: u64) < 2 ^ 32" and "8 dvd unat w" and "\<And>n. bit fl n \<Longrightarrow> n < 3"
  shows "EXTRACT_SIZE (ucast (w OR fl)) = w"
  by (intro bit_eqI)
    (auto simp: bit_EXTRACT_SIZE bit_simps dest: size_bits [OF assms(1,2)] assms(3))

lemma sf_ok_pack:
  assumes "unat (w :: u64) < 2 ^ 32" and "8 dvd unat w" and "\<And>n. bit fl n \<Longrightarrow> n < 3"
  shows "sf_ok (ucast (w OR fl)) (unat w) (bit fl 0) (bit fl 1)"
  using EXTRACT_SIZE_pack [of w fl, OF assms]
  by (auto simp: sf_ok_def IS_FREE_bit bit_simps dest: size_bits [OF assms(1,2)])

lemma sf_ok_clear_free: "sf_ok sf n f p \<Longrightarrow> sf_ok (CLR_MASK sf FLAG_FREE) n False p"
  using EXTRACT_SIZE_eqI [of "CLR_MASK sf FLAG_FREE" sf]
  by (auto simp: sf_ok_def IS_FREE_bit bit_CLR_MASK)

lemma sf_ok_clear_prev_free: "sf_ok sf n f p \<Longrightarrow> sf_ok (CLR_MASK sf FLAG_PREV_FREE) n f False"
  using EXTRACT_SIZE_eqI [of "CLR_MASK sf FLAG_PREV_FREE" sf]
  by (auto simp: sf_ok_def IS_FREE_bit bit_CLR_MASK)

lemma sf_ok_set_free: "sf_ok sf n f p \<Longrightarrow> sf_ok (ucast (ucast sf OR FLAG_FREE)) n True p"
  using EXTRACT_SIZE_eqI [of "ucast (ucast sf OR FLAG_FREE)" sf]
  by (auto simp: sf_ok_def IS_FREE_bit bit_simps)

lemma sf_ok_set_prev_free: "sf_ok sf n f p \<Longrightarrow> sf_ok (ucast (ucast sf OR FLAG_PREV_FREE)) n f True"
  using EXTRACT_SIZE_eqI [of "ucast (ucast sf OR FLAG_PREV_FREE)" sf]
  by (auto simp: sf_ok_def IS_FREE_bit bit_simps)

lemma sf_ok_new_free:
  assumes "unat (w :: u64) < 2 ^ 32" and "8 dvd unat w"
  shows "sf_ok (CLR_MASK (SET_MASK (ucast w) FLAG_FREE) (FLAG_PREV_FREE OR FLAG_POISONED)) (unat w) True False"
proof -
  have "EXTRACT_SIZE (CLR_MASK (SET_MASK (ucast w) FLAG_FREE) (FLAG_PREV_FREE OR FLAG_POISONED)) = w"
    by (intro bit_eqI)
      (auto simp: bit_EXTRACT_SIZE bit_CLR_MASK bit_SET_MASK bit_simps dest: size_bits [OF assms])
  then show ?thesis
    by (auto simp: sf_ok_def IS_FREE_bit bit_CLR_MASK bit_SET_MASK bit_simps)
qed

lemma sf_ok_repack:
  assumes "sf_ok sf n f p" and "unat w < 2 ^ 32" and "8 dvd unat w"
  shows "sf_ok (ucast (w OR EXTRACT_FLAG sf)) (unat w) f p"
  using sf_ok_pack [OF assms(2,3), of "EXTRACT_FLAG sf"] assms(1)
  by (auto simp: bit_EXTRACT_FLAG sf_ok_def IS_FREE_bit)

lemma and_SIZE_MASK_id: "8 dvd unat w \<Longrightarrow> w AND SIZE_MASK = w"
proof -
  assume "8 dvd unat w"
  then have "unat (w AND NOT (2 ^ 3 - 1)) = unat w"
    by (subst unat_and_not_mask) simp
  then show ?thesis
    by (simp add: mm_consts unsigned_word_eqI)
qed

section \<open>The heap as a list of blocks\<close>

text \<open>
  Between its base and its end marker the heap is tiled by blocks. A block is described by its
  size (header included) and whether it is free. Walking the blocks one knows at each block the
  size of the block before it if that one is free: that is what the \<^verbatim>\<open>PREV_FREE\<close> flag and the
  footer record.
\<close>

datatype blk = Blk (bsize: nat) (bfree: bool)

primrec total :: "blk list \<Rightarrow> nat" where
  "total [] = 0"
| "total (b # bs) = bsize b + total bs"

definition free_size :: "blk \<Rightarrow> nat option" where
  "free_size b = (if bfree b then Some (bsize b) else None)"

primrec after :: "nat option \<Rightarrow> blk list \<Rightarrow> nat option" where
  "after p [] = p"
| "after p (b # bs) = after (free_size b) bs"

primrec addrs :: "nat \<Rightarrow> blk list \<Rightarrow> nat list" where
  "addrs A [] = []"
| "addrs A (b # bs) = A # addrs (A + bsize b) bs"

primrec free_addrs :: "nat \<Rightarrow> blk list \<Rightarrow> nat list" where
  "free_addrs A [] = []"
| "free_addrs A (b # bs) = (if bfree b then [A] else []) @ free_addrs (A + bsize b) bs"

definition hdr :: "mem \<Rightarrow> nat \<Rightarrow> nat \<Rightarrow> bool \<Rightarrow> bool \<Rightarrow> bool" where
  "hdr m A n f p \<longleftrightarrow> rd32 m A = SIMPLE_MM_MAGIC \<and> sf_ok (rd32 m (A + 4)) n f p"

definition foot :: "mem \<Rightarrow> nat option \<Rightarrow> nat \<Rightarrow> bool" where
  "foot m p A \<longleftrightarrow> (\<forall>k. p = Some k \<longrightarrow> unat (EXTRACT_SIZE (rd32 m (A - 4))) = k)"

definition blk_ok :: "mem \<Rightarrow> nat option \<Rightarrow> nat \<Rightarrow> blk \<Rightarrow> bool" where
  "blk_ok m p A b \<longleftrightarrow> hdr m A (bsize b) (bfree b) (p \<noteq> None) \<and> 32 \<le> bsize b \<and> 8 dvd bsize b
     \<and> foot m p A"

primrec hseg :: "mem \<Rightarrow> nat option \<Rightarrow> nat \<Rightarrow> blk list \<Rightarrow> bool" where
  "hseg m p A [] \<longleftrightarrow> True"
| "hseg m p A (b # bs) \<longleftrightarrow> blk_ok m p A b \<and> hseg m (free_size b) (A + bsize b) bs"

text \<open>The whole heap: the blocks, then the end marker of size 0.\<close>

definition hheap :: "mem \<Rightarrow> nat option \<Rightarrow> nat \<Rightarrow> blk list \<Rightarrow> bool" where
  "hheap m p A bs \<longleftrightarrow> hseg m p A bs \<and> hdr m (A + total bs) 0 False (after p bs \<noteq> None)"

text \<open>The list node of the block at \<open>A\<close>, and the bytes such nodes occupy.\<close>

definition nd :: "nat \<Rightarrow> ptr" where
  "nd A = of_nat (A + 8)"

definition node_bytes :: "ptr set \<Rightarrow> nat set" where
  "node_bytes S = (\<Union>p\<in>S. {unat p..<unat p + 16})"

definition heap_ok :: "mem \<Rightarrow> ptr \<Rightarrow> nat \<Rightarrow> blk list \<Rightarrow> nat list \<Rightarrow> bool" where
  "heap_ok m h base bs fs \<longleftrightarrow> hheap m None base bs
     \<and> 0 < base \<and> base + total bs + 24 \<le> 2 ^ 64 \<and> total bs < 2 ^ 32
     \<and> unat h + 16 \<le> 2 ^ 64 \<and> (unat h + 16 \<le> base \<or> base + total bs + 24 \<le> unat h)
     \<and> ring m h (map nd fs) \<and> distinct fs \<and> set fs = set (free_addrs base bs)"

text \<open>Coalescing leaves no two neighbouring free blocks.\<close>

fun no_adjacent :: "blk list \<Rightarrow> bool" where
  "no_adjacent (a # b # bs) \<longleftrightarrow> \<not> (bfree a \<and> bfree b) \<and> no_adjacent (b # bs)"
| "no_adjacent _ \<longleftrightarrow> True"

definition heap_inv :: "kmm \<Rightarrow> nat \<Rightarrow> blk list \<Rightarrow> nat list \<Rightarrow> bool" where
  "heap_inv s base bs fs \<longleftrightarrow> heap_ok (kmem s) (free_mem_list_head s) base bs fs \<and> no_adjacent bs"

subsection \<open>Geometry\<close>

lemma total_append [simp]: "total (xs @ ys) = total xs + total ys"
  by (induction xs) auto

lemma after_append [simp]: "after p (xs @ ys) = after (after p xs) ys"
  by (induction xs arbitrary: p) auto

lemma addrs_append [simp]: "addrs A (xs @ ys) = addrs A xs @ addrs (A + total xs) ys"
  by (induction xs arbitrary: A) (auto simp: add.assoc)

lemma free_addrs_append [simp]:
  "free_addrs A (xs @ ys) = free_addrs A xs @ free_addrs (A + total xs) ys"
  by (induction xs arbitrary: A) (auto simp: add.assoc)

lemma hseg_append: "hseg m p A (xs @ ys) \<longleftrightarrow> hseg m p A xs \<and> hseg m (after p xs) (A + total xs) ys"
  by (induction xs arbitrary: p A) (auto simp: add.assoc)

lemma hheap_append:
  "hheap m p A (xs @ ys) \<longleftrightarrow> hseg m p A xs \<and> hheap m (after p xs) (A + total xs) ys"
  by (auto simp: hheap_def hseg_append add.assoc)

lemma hheap_Cons:
  "hheap m p A (b # bs) \<longleftrightarrow> blk_ok m p A b \<and> hheap m (free_size b) (A + bsize b) bs"
  by (auto simp: hheap_def add.assoc)

lemma hheap_Nil: "hheap m p A [] \<longleftrightarrow> hdr m A 0 False (p \<noteq> None)"
  by (simp add: hheap_def)

lemma free_addrs_sub: "set (free_addrs A bs) \<subseteq> set (addrs A bs)"
  by (induction bs arbitrary: A) auto

lemma addrs_range:
  assumes "\<forall>b\<in>set bs. 32 \<le> bsize b" and "X \<in> set (addrs A bs)"
  shows "A \<le> X \<and> X + 32 \<le> A + total bs"
  using assms by (induction bs arbitrary: A) fastforce+

lemma addrs_apart:
  assumes "\<forall>b\<in>set bs. 32 \<le> bsize b" and "X \<in> set (addrs A bs)" and "Y \<in> set (addrs A bs)" and "X \<noteq> Y"
  shows "X + 32 \<le> Y \<or> Y + 32 \<le> X"
  using assms
proof (induction bs arbitrary: A)
  case Nil
  then show ?case by simp
next
  case (Cons b bs)
  then show ?case
    using addrs_range [of bs X "A + bsize b"] addrs_range [of bs Y "A + bsize b"] by fastforce
qed

lemma distinct_free_addrs: "\<forall>b\<in>set bs. 32 \<le> bsize b \<Longrightarrow> distinct (free_addrs A bs)"
proof (induction bs arbitrary: A)
  case Nil
  then show ?case by simp
next
  case (Cons b bs)
  then show ?case
    using addrs_range [of bs A "A + bsize b"] free_addrs_sub [of "A + bsize b" bs] by fastforce
qed

lemma hseg_sizes: "hseg m p A bs \<Longrightarrow> \<forall>b\<in>set bs. 32 \<le> bsize b \<and> 8 dvd bsize b"
  by (induction bs arbitrary: p A) (auto simp: blk_ok_def)

lemma free_addrs_split:
  "X \<in> set (free_addrs A bs) \<Longrightarrow> \<exists>xs n ys. bs = xs @ Blk n True # ys \<and> X = A + total xs"
proof (induction bs arbitrary: A)
  case Nil
  then show ?case by simp
next
  case (Cons b bs)
  show ?case
  proof (cases "bfree b \<and> X = A")
    case True
    then show ?thesis
      by (intro exI [of _ "[]"] exI [of _ "bsize b"] exI [of _ bs]) (cases b, auto)
  next
    case False
    with Cons.prems have "X \<in> set (free_addrs (A + bsize b) bs)"
      by (auto split: if_splits)
    then obtain xs n ys where "bs = xs @ Blk n True # ys" "X = A + bsize b + total xs"
      using Cons.IH by blast
    then show ?thesis
      by (intro exI [of _ "b # xs"] exI [of _ n] exI [of _ ys]) auto
  qed
qed

subsection \<open>The bytes of the block structure, and frames\<close>

primrec smeta :: "nat option \<Rightarrow> nat \<Rightarrow> blk list \<Rightarrow> nat set" where
  "smeta p A [] = {}"
| "smeta p A (b # bs) = {A..<A + 8} \<union> (if p = None then {} else {A - 4..<A - 4 + 4})
     \<union> smeta (free_size b) (A + bsize b) bs"

definition hmeta :: "nat option \<Rightarrow> nat \<Rightarrow> blk list \<Rightarrow> nat set" where
  "hmeta p A bs = smeta p A bs \<union> {A + total bs..<A + total bs + 8}"

text \<open>The structure bytes past the first header.\<close>

definition hrest :: "nat \<Rightarrow> blk list \<Rightarrow> nat set" where
  "hrest A bs = (case bs of [] \<Rightarrow> {} | b # bs' \<Rightarrow> hmeta (free_size b) (A + bsize b) bs')"

definition first_size :: "blk list \<Rightarrow> nat" where
  "first_size bs = (case bs of [] \<Rightarrow> 0 | b # _ \<Rightarrow> bsize b)"

definition first_free :: "blk list \<Rightarrow> bool" where
  "first_free bs = (case bs of [] \<Rightarrow> False | b # _ \<Rightarrow> bfree b)"

lemma hdr_cong: "(\<And>x. A \<le> x \<Longrightarrow> x < A + 8 \<Longrightarrow> m' x = m x) \<Longrightarrow> hdr m' A n f p = hdr m A n f p"
  using rd32_cong [of A m' m] rd32_cong [of "A + 4" m' m] by (simp add: hdr_def)

lemma foot_cong:
  "(\<And>x. p \<noteq> None \<Longrightarrow> A - 4 \<le> x \<Longrightarrow> x < A - 4 + 4 \<Longrightarrow> m' x = m x) \<Longrightarrow> foot m' p A = foot m p A"
  using rd32_cong [of "A - 4" m' m] by (auto simp: foot_def)

lemma hseg_cong: "(\<And>x. x \<in> smeta p A bs \<Longrightarrow> m' x = m x) \<Longrightarrow> hseg m' p A bs = hseg m p A bs"
proof (induction bs arbitrary: p A)
  case Nil
  then show ?case by simp
next
  case (Cons b bs)
  have "hdr m' A (bsize b) (bfree b) (p \<noteq> None) = hdr m A (bsize b) (bfree b) (p \<noteq> None)"
    by (rule hdr_cong) (use Cons.prems in auto)
  moreover have "foot m' p A = foot m p A"
    by (rule foot_cong) (use Cons.prems in auto)
  moreover have "hseg m' (free_size b) (A + bsize b) bs = hseg m (free_size b) (A + bsize b) bs"
    by (rule Cons.IH) (use Cons.prems in auto)
  ultimately show ?case
    by (simp add: blk_ok_def)
qed

lemma hheap_cong: "(\<And>x. x \<in> hmeta p A bs \<Longrightarrow> m' x = m x) \<Longrightarrow> hheap m' p A bs = hheap m p A bs"
  using hseg_cong [of p A bs m' m] hdr_cong [of "A + total bs" m' m] by (auto simp: hheap_def hmeta_def)

lemma hheap_first: "hheap m p A bs \<Longrightarrow> hdr m A (first_size bs) (first_free bs) (p \<noteq> None)"
  by (cases bs) (auto simp: hheap_Nil hheap_Cons blk_ok_def first_size_def first_free_def)

lemma hheap_swap_first:
  assumes "hheap m p A bs" and "hdr m' A (first_size bs) (first_free bs) (q \<noteq> None)" and "foot m' q A"
    and "\<And>x. x \<in> hrest A bs \<Longrightarrow> m' x = m x"
  shows "hheap m' q A bs"
proof (cases bs)
  case Nil
  with assms show ?thesis
    by (simp add: hheap_Nil first_size_def first_free_def)
next
  case (Cons b bs')
  with assms have "hheap m' (free_size b) (A + bsize b) bs'"
    by (subst hheap_cong [where m = m]) (auto simp: hheap_Cons hrest_def)
  with Cons assms show ?thesis
    by (auto simp: hheap_Cons blk_ok_def first_size_def first_free_def)
qed

lemma smeta_range:
  assumes "\<forall>b\<in>set bs. 32 \<le> bsize b" and "x \<in> smeta p A bs"
  shows "(if p = None then A \<le> x else A - 4 \<le> x) \<and> x < A + total bs"
  using assms
proof (induction bs arbitrary: p A)
  case Nil
  then show ?case by simp
next
  case (Cons b bs)
  then have "32 \<le> bsize b"
    by simp
  with Cons.prems Cons.IH [of "free_size b" "A + bsize b"] show ?case
    by (auto split: if_splits)
qed

lemma smeta_not_node:
  assumes "\<forall>b\<in>set bs. 32 \<le> bsize b" and "x \<in> smeta p A bs" and "Y \<in> set (addrs A bs)"
  shows "x < Y + 8 \<or> Y + 24 \<le> x"
  using assms
proof (induction bs arbitrary: p A)
  case Nil
  then show ?case by simp
next
  case (Cons b bs)
  have b: "32 \<le> bsize b" and bs: "\<forall>b\<in>set bs. 32 \<le> bsize b"
    using Cons.prems by auto
  from Cons.prems(2) consider "x < A + 8" | "x \<in> smeta (free_size b) (A + bsize b) bs"
    by (auto split: if_splits)
  then show ?case
  proof cases
    case 1
    have "A \<le> Y"
      using Cons.prems addrs_range [of "b # bs" Y A] by simp
    with 1 show ?thesis by simp
  next
    case 2
    then have "A + bsize b - 4 \<le> x"
      using smeta_range [OF bs 2] by (auto split: if_splits)
    then show ?thesis
      using b Cons.prems(3) Cons.IH [OF bs 2] by auto
  qed
qed

lemma hrest_range:
  assumes "\<forall>b\<in>set bs. 32 \<le> bsize b" and "x \<in> hrest A bs"
  shows "A + 28 \<le> x \<and> x < A + total bs + 8"
proof (cases bs)
  case Nil
  with assms show ?thesis by (simp add: hrest_def)
next
  case (Cons b bs')
  then have "x \<in> smeta (free_size b) (A + bsize b) bs' \<or>
      A + total bs \<le> x \<and> x < A + total bs + 8" and b: "32 \<le> bsize b"
    using assms by (auto simp: hrest_def hmeta_def add.assoc)
  then show ?thesis
    using smeta_range [of bs' x "free_size b" "A + bsize b"] Cons assms(1) by (auto split: if_splits)
qed

lemma hrest_not_node:
  assumes "\<forall>b\<in>set bs. 32 \<le> bsize b" and "x \<in> hrest A bs" and "Y \<in> set (addrs A bs)"
  shows "x < Y + 8 \<or> Y + 24 \<le> x"
proof (cases bs)
  case Nil
  with assms show ?thesis by simp
next
  case (Cons b bs')
  have sz: "\<forall>b\<in>set bs'. 32 \<le> bsize b" "32 \<le> bsize b"
    using assms(1) Cons by auto
  from assms Cons consider "x \<in> smeta (free_size b) (A + bsize b) bs'" | "A + total bs \<le> x"
    by (auto simp: hrest_def hmeta_def add.assoc)
  then show ?thesis
  proof cases
    case 1
    then show ?thesis
      using smeta_not_node [OF sz(1) 1] smeta_range [OF sz(1) 1] assms(3) Cons sz(2)
      by (auto split: if_splits)
  next
    case 2
    then show ?thesis
      using addrs_range [OF assms(1,3)] by simp
  qed
qed

subsection \<open>Nodes of blocks\<close>

lemma unat_nd: "A + 8 < 2 ^ 64 \<Longrightarrow> unat (nd A) = A + 8"
  by (simp add: nd_def unat_of_nat_u64 del: of_nat_add)

text \<open>\<open>geom h base bs\<close>: sizes, address bounds, and a list head outside the heap.\<close>

definition geom :: "ptr \<Rightarrow> nat \<Rightarrow> blk list \<Rightarrow> bool" where
  "geom h base bs \<longleftrightarrow> (\<forall>b\<in>set bs. 32 \<le> bsize b) \<and> base + total bs + 24 \<le> 2 ^ 64
     \<and> unat h + 16 \<le> 2 ^ 64 \<and> (unat h + 16 \<le> base \<or> base + total bs + 24 \<le> unat h)"

definition heap_nodes :: "ptr \<Rightarrow> nat \<Rightarrow> blk list \<Rightarrow> ptr set" where
  "heap_nodes h base bs = insert h (nd ` set (addrs base bs))"

lemma geom_unat_nd:
  assumes "geom h base bs" and "Y \<in> set (addrs base bs)"
  shows "unat (nd Y) = Y + 8"
  using assms addrs_range [of bs Y base] by (auto simp: geom_def intro!: unat_nd)

lemma geom_node_set: "geom h base bs \<Longrightarrow> node_set (heap_nodes h base bs)"
proof -
  assume g: "geom h base bs"
  then have sz: "\<forall>b\<in>set bs. 32 \<le> bsize b"
    by (simp add: geom_def)
  have apart: "unat (nd Y) + 16 \<le> unat (nd Z) \<or> unat (nd Z) + 16 \<le> unat (nd Y)"
    if "Y \<in> set (addrs base bs)" "Z \<in> set (addrs base bs)" "nd Y \<noteq> nd Z" for Y Z
  proof -
    have "Y \<noteq> Z"
      using that by auto
    from addrs_apart [OF sz that(1,2) this] show ?thesis
      using that by (auto simp: geom_unat_nd [OF g])
  qed
  have head: "unat (nd Y) + 16 \<le> unat h \<or> unat h + 16 \<le> unat (nd Y)"
    if "Y \<in> set (addrs base bs)" for Y
    using addrs_range [OF sz that] g that by (auto simp: geom_unat_nd [OF g that] geom_def)
  have "unat (nd Y) + 16 \<le> 2 ^ 64" if "Y \<in> set (addrs base bs)" for Y
    using addrs_range [OF sz that] g that by (auto simp: geom_unat_nd [OF g that] geom_def)
  then show ?thesis
    using g apart head by (auto simp: node_set_def heap_nodes_def geom_def)
qed

lemma geom_node_bytes:
  assumes "geom h base bs" and "S \<subseteq> heap_nodes h base bs" and "x \<in> node_bytes S"
  shows "unat h \<le> x \<and> x < unat h + 16 \<or> (\<exists>Y\<in>set (addrs base bs). Y + 8 \<le> x \<and> x < Y + 24)"
  using assms by (force simp: node_bytes_def heap_nodes_def geom_unat_nd)

lemma nd_inj_on: "geom h base bs \<Longrightarrow> inj_on nd (set (addrs base bs))"
  by (rule inj_onI) (metis add_right_cancel geom_unat_nd)

end
