(* ===== verification/Heap_Updates.thy ===== *)
theory Heap_Updates
  imports Heap_Shape
begin

unbundle bit_operations_syntax

text \<open>
  The sequences of stores and list operations the allocator performs on a heap described by a list
  of blocks (theory \<^verbatim>\<open>Heap_Shape\<close>): splitting a free block, handing one out whole, marking a block
  free, merging it with its successor or its predecessor. Each keeps the heap well formed, changes
  the block list in the way its name says and leaves the bytes of clients alone.
\<close>

section \<open>Frames of the list operations\<close>

lemma set_next_off:
  "node_set S \<Longrightarrow> p \<in> S \<Longrightarrow> x \<notin> node_bytes S \<Longrightarrow> set_next m p v x = m x"
  using node_set_fieldD [of S p] by (fastforce simp: node_bytes_def intro!: wr64_apply)

lemma set_prev_off:
  "node_set S \<Longrightarrow> p \<in> S \<Longrightarrow> x \<notin> node_bytes S \<Longrightarrow> set_prev m p v x = m x"
  by (fastforce simp: node_bytes_def intro!: wr64_apply)

lemmas set_link_off = set_next_off set_prev_off

lemma list_add_off:
  assumes r: "ring m h ns" and "node_set S" and "insert n (insert h (set ns)) \<subseteq> S" and "x \<notin> node_bytes S"
  shows "list_add m n h x = m x"
proof -
  have "node_next m h \<in> S" "n \<in> S" "h \<in> S"
    using ring_ends [OF r] assms by auto
  then show ?thesis
    by (simp add: list_add_def list_add_between_def set_link_off [OF assms(2)] assms(4))
qed

lemma list_del_off:
  assumes r: "ring m h (xs @ n # ys)" and "node_set S" and "insert h (set (xs @ n # ys)) \<subseteq> S"
    and "x \<notin> node_bytes S"
  shows "list_del m n x = m x"
proof -
  have "node_next m n \<in> S" "node_prev m n \<in> S" "n \<in> S"
    using ring_neighbours [OF r] assms by auto
  then show ?thesis
    by (simp add: list_del_def list_del_between_def set_link_off [OF assms(2)] assms(4))
qed

lemma list_init_off:
  "unat h + 16 \<le> 2 ^ 64 \<Longrightarrow> x < unat h \<or> unat h + 16 \<le> x \<Longrightarrow> list_init m h x = m x"
  by (auto simp: list_init_def set_link_off [of "{h}"] node_set_def node_bytes_def)

lemma ring_off:
  assumes "ring m h ns" and "insert h (set ns) \<subseteq> S" and "\<And>x. x \<in> node_bytes S \<Longrightarrow> m' x = m x"
  shows "ring m' h ns"
  using assms(1) by (rule ring_cong [rotated]) (use assms(2,3) in \<open>force simp: node_bytes_def\<close>)

text \<open>A 32-bit cell apart from the node bytes.\<close>

definition cell_off :: "ptr set \<Rightarrow> nat \<Rightarrow> bool" where
  "cell_off S a \<longleftrightarrow> {a..<a + 4} \<inter> node_bytes S = {}"

lemma cell_offD: "cell_off S a \<Longrightarrow> x \<in> node_bytes S \<Longrightarrow> x < a \<or> a + 4 \<le> x"
  by (meson cell_off_def disjoint_iff atLeastLessThan_iff leI)

lemma ring_wr32:
  assumes "ring m h ns" and "insert h (set ns) \<subseteq> S" and "cell_off S a"
  shows "ring (wr32 m a v) h ns"
  by (rule ring_off [OF assms(1,2)], rule wr32_apply, rule cell_offD [OF assms(3)])

lemma rd32_list_add:
  assumes "ring m h ns" and "node_set S" and "insert n (insert h (set ns)) \<subseteq> S" and "cell_off S a"
  shows "rd32 (list_add m n h) a = rd32 m a"
  by (rule rd32_cong, rule list_add_off [OF assms(1-3)]) (use assms(4) in \<open>fastforce simp: cell_off_def\<close>)

lemma rd32_list_del:
  assumes "ring m h (xs @ n # ys)" and "node_set S" and "insert h (set (xs @ n # ys)) \<subseteq> S"
    and "cell_off S a"
  shows "rd32 (list_del m n) a = rd32 m a"
  by (rule rd32_cong, rule list_del_off [OF assms(1-3)]) (use assms(4) in \<open>fastforce simp: cell_off_def\<close>)

text \<open>
  A sequence of list operations and 32-bit stores, seen from its start \<open>m0\<close>: the ring now holds
  \<open>ns\<close>, and apart from the bytes of the nodes in \<open>S\<close> only the bytes in \<open>W\<close> were stored to.
\<close>

definition relinked :: "ptr set \<Rightarrow> ptr \<Rightarrow> mem \<Rightarrow> ptr list \<Rightarrow> nat set \<Rightarrow> mem \<Rightarrow> bool" where
  "relinked S h m0 ns W m \<longleftrightarrow> node_set S \<and> insert h (set ns) \<subseteq> S \<and> ring m h ns
     \<and> (\<forall>x. x \<notin> node_bytes S \<longrightarrow> x \<notin> W \<longrightarrow> m x = m0 x)"

lemma relinked_start: "node_set S \<Longrightarrow> insert h (set ns) \<subseteq> S \<Longrightarrow> ring m h ns \<Longrightarrow> relinked S h m ns {} m"
  by (simp add: relinked_def)

lemma relinked_wr32:
  "relinked S h m0 ns W m \<Longrightarrow> cell_off S a \<Longrightarrow> relinked S h m0 ns (W \<union> {a..<a + 4}) (wr32 m a v)"
  by (auto simp: relinked_def wr32_apply not_le intro: ring_wr32)

lemma relinked_add:
  "relinked S h m0 ns W m \<Longrightarrow> n \<in> S \<Longrightarrow> n \<notin> set (h # ns) \<Longrightarrow> relinked S h m0 (n # ns) W (list_add m n h)"
  by (auto simp: relinked_def list_add_off intro!: ring_list_add node_set_mono [of S])

lemma relinked_del:
  "relinked S h m0 (xs @ n # ys) W m \<Longrightarrow> relinked S h m0 (xs @ ys) W (list_del m n)"
  by (auto simp: relinked_def list_del_off intro: ring_list_del)

lemma relinked_rd_add:
  "relinked S h m0 ns W m \<Longrightarrow> n \<in> S \<Longrightarrow> cell_off S c \<Longrightarrow> rd32 (list_add m n h) c = rd32 m c"
  by (auto simp: relinked_def intro: rd32_list_add)

lemma relinked_rd_del:
  "relinked S h m0 (xs @ n # ys) W m \<Longrightarrow> cell_off S c \<Longrightarrow> rd32 (list_del m n) c = rd32 m c"
  by (auto simp: relinked_def intro!: rd32_list_del)

lemma relinked_rd:
  "relinked S h m0 ns W m \<Longrightarrow> cell_off S c \<Longrightarrow> {c..<c + 4} \<inter> W = {} \<Longrightarrow> rd32 m c = rd32 m0 c"
  by (rule rd32_cong) (fastforce simp: relinked_def cell_off_def)

section \<open>Structure bytes and node bytes are apart\<close>

lemma geom_off_nodeI:
  assumes "geom h base bs" and "base \<le> x" and "x < base + total bs + 24"
    and "\<And>Y. Y \<in> set (addrs base bs) \<Longrightarrow> x < Y + 8 \<or> Y + 24 \<le> x"
  shows "x \<notin> node_bytes (heap_nodes h base bs)"
  using geom_node_bytes [OF assms(1) order_refl, of x] assms by (fastforce simp: geom_def)

lemma smeta_append: "smeta p A (xs @ ys) = smeta p A xs \<union> smeta (after p xs) (A + total xs) ys"
  by (induction xs arbitrary: p A) (auto simp: add.assoc)

lemma hmeta_append: "hmeta p A (xs @ ys) = smeta p A xs \<union> hmeta (after p xs) (A + total xs) ys"
  by (simp add: hmeta_def smeta_append add.assoc Un_assoc)

lemma hmeta_off_node:
  assumes g: "geom h base bs" and x: "x \<in> hmeta None base bs"
  shows "x \<notin> node_bytes (heap_nodes h base bs)"
proof (rule geom_off_nodeI [OF g])
  have sz: "\<forall>b\<in>set bs. 32 \<le> bsize b"
    using g by (simp add: geom_def)
  show "base \<le> x" "x < base + total bs + 24"
    using x smeta_range [OF sz, of x None base] by (auto simp: hmeta_def)
  show "x < Y + 8 \<or> Y + 24 \<le> x" if "Y \<in> set (addrs base bs)" for Y
    using x smeta_not_node [OF sz _ that, of x None] addrs_range [OF sz that] by (auto simp: hmeta_def)
qed

text \<open>The header cells of every block and of the end marker, and the last word of every block.\<close>

lemma geom_header_off:
  assumes g: "geom h base bs" and X: "X \<in> set (addrs base bs) \<or> X = base + total bs"
  shows "cell_off (heap_nodes h base bs) X" and "cell_off (heap_nodes h base bs) (X + 4)"
proof -
  have sz: "\<forall>b\<in>set bs. 32 \<le> bsize b"
    using g by (simp add: geom_def)
  have "x \<notin> node_bytes (heap_nodes h base bs)" if "X \<le> x" "x < X + 8" for x
    using that X addrs_range [OF sz] addrs_apart [OF sz, of _ base X]
    by (intro geom_off_nodeI [OF g]) fastforce+
  then show "cell_off (heap_nodes h base bs) X" "cell_off (heap_nodes h base bs) (X + 4)"
    by (auto simp: cell_off_def)
qed

lemma geom_footer_off:
  assumes g: "geom h base (xs @ b # ys)"
  shows "cell_off (heap_nodes h base (xs @ b # ys)) (base + total xs + bsize b - 4)"
proof -
  have sz: "\<forall>b\<in>set (xs @ b # ys). 32 \<le> bsize b"
    using g by (simp add: geom_def)
  have "x \<notin> node_bytes (heap_nodes h base (xs @ b # ys))"
    if "base + total xs + bsize b - 4 \<le> x" "x < base + total xs + bsize b - 4 + 4" for x
  proof (rule geom_off_nodeI [OF g])
    show "base \<le> x" "x < base + total (xs @ b # ys) + 24"
      using that sz by auto
    show "x < Y + 8 \<or> Y + 24 \<le> x" if "Y \<in> set (addrs base (xs @ b # ys))" for Y
      using that \<open>base + total xs + bsize b - 4 \<le> x\<close> \<open>x < base + total xs + bsize b - 4 + 4\<close> sz
        addrs_range [of xs Y base] addrs_range [of ys Y "base + total xs + bsize b"]
      by (auto simp: add.assoc)
  qed
  then show ?thesis
    by (auto simp: cell_off_def)
qed

section \<open>Rebuilding the heap after a local change\<close>

lemma heap_ok_geom: "heap_ok m h base bs fs \<Longrightarrow> geom h base bs"
  by (auto simp: heap_ok_def geom_def hheap_def dest: hseg_sizes)

lemma hheap_replace:
  assumes "hheap m None base (xs @ mid @ ys)" and "A = base + total xs" and "B = A + total mid'"
    and "total mid' = total mid"
    and "hseg m' (after None xs) A mid'"
    and "hdr m' B (first_size ys) (first_free ys) (after (after None xs) mid' \<noteq> None)"
    and "foot m' (after (after None xs) mid') B"
    and "\<And>x. x \<in> smeta None base xs \<Longrightarrow> m' x = m x" and "\<And>x. x \<in> hrest B ys \<Longrightarrow> m' x = m x"
  shows "hheap m' None base (xs @ mid' @ ys)"
proof -
  have "hseg m None base xs" and ys: "hheap m (after (after None xs) mid) B ys"
    using assms(1-4) by (auto simp: hheap_append add.assoc)
  then have "hseg m' None base xs"
    using hseg_cong [of None base xs m' m] assms(8) by blast
  moreover have "hheap m' (after (after None xs) mid') B ys"
    using hheap_swap_first [OF ys] assms(6,7,9) by blast
  ultimately show ?thesis
    using assms(2-5) by (auto simp: hheap_append add.assoc)
qed

text \<open>The bytes a client of the allocator owns: payloads of used blocks and memory outside.\<close>

primrec user_bytes :: "nat \<Rightarrow> blk list \<Rightarrow> nat set" where
  "user_bytes A [] = {}"
| "user_bytes A (b # bs) = (if bfree b then {} else {A + 24..<A + bsize b}) \<union> user_bytes (A + bsize b) bs"

definition client_bytes :: "ptr \<Rightarrow> nat \<Rightarrow> blk list \<Rightarrow> nat set" where
  "client_bytes h base bs =
     {x. (x < base \<or> base + total bs + 24 \<le> x) \<and> \<not> (unat h \<le> x \<and> x < unat h + 16)} \<union> user_bytes base bs"

lemma user_bytes_append [simp]:
  "user_bytes A (xs @ ys) = user_bytes A xs \<union> user_bytes (A + total xs) ys"
  by (induction xs arbitrary: A) (auto simp: add.assoc)

lemma user_bytes_range:
  assumes "x \<in> user_bytes A bs"
  shows "A + 24 \<le> x \<and> x < A + total bs"
  using assms by (induction bs arbitrary: A) (fastforce split: if_splits)+

lemma user_bytes_off:
  assumes "\<forall>b\<in>set bs. 32 \<le> bsize b" and "x \<in> user_bytes A bs" and "Y \<in> set (addrs A bs)"
  shows "x < Y \<or> Y + 24 \<le> x"
  using assms
proof (induction bs arbitrary: A)
  case Nil
  then show ?case by simp
next
  case (Cons b bs)
  have "Y = A \<or> A + bsize b \<le> Y"
    using Cons.prems addrs_range [of bs Y "A + bsize b"] by auto
  moreover have "x \<in> user_bytes (A + bsize b) bs \<or> x < A + bsize b"
    using Cons.prems(2) by (auto split: if_splits)
  ultimately show ?case
    using Cons user_bytes_range [OF Cons.prems(2)] user_bytes_range [of x "A + bsize b" bs] by auto
qed

lemma client_bytes_off:
  assumes g: "geom h base bs" and x: "x \<in> client_bytes h base bs"
  shows "x \<notin> node_bytes (heap_nodes h base bs)"
proof
  assume "x \<in> node_bytes (heap_nodes h base bs)"
  then have n: "unat h \<le> x \<and> x < unat h + 16 \<or> (\<exists>Y\<in>set (addrs base bs). Y + 8 \<le> x \<and> x < Y + 24)"
    by (rule geom_node_bytes [OF g order_refl])
  have sz: "\<forall>b\<in>set bs. 32 \<le> bsize b"
    using g by (simp add: geom_def)
  show False
    using n x g user_bytes_range [of x base bs] user_bytes_off [OF sz, of x base] addrs_range [OF sz]
    by (fastforce simp: client_bytes_def geom_def)
qed

section \<open>Addresses of blocks as pointers\<close>

lemma mm_node_of_nat [simp]: "mm_node (of_nat A) = nd A" "block_of_node (nd A) = of_nat A"
  by (simp_all add: mm_node_def nd_def block_of_node_def container_of_def)

lemma unat_block [simp]: "A + 24 \<le> 2 ^ 64 \<Longrightarrow> unat (of_nat A :: u64) = A"
  "A + 24 \<le> 2 ^ 64 \<Longrightarrow> unat (of_nat A + 4 :: u64) = A + 4"
  by (simp_all add: unat_of_nat_u64 unat_add_u64)

lemma blk_fields [simp]:
  assumes "A + 24 \<le> 2 ^ 64"
  shows "blk_magic m (of_nat A) = rd32 m A" "blk_size_flag m (of_nat A) = rd32 m (A + 4)"
    "set_blk_magic m (of_nat A) v = wr32 m A v" "set_blk_size_flag m (of_nat A) v = wr32 m (A + 4) v"
  using assms by (simp_all add: blk_magic_def blk_size_flag_def set_blk_magic_def set_blk_size_flag_def)

lemma sf_ok_size: "sf_ok sf n f p \<Longrightarrow> EXTRACT_SIZE sf = of_nat n"
  by (auto simp: sf_ok_def)

section \<open>Allocation\<close>

text \<open>The two ways a fitting free block is taken: split, or handed out whole.\<close>

definition split_mem :: "mem \<Rightarrow> ptr \<Rightarrow> nat \<Rightarrow> nat \<Rightarrow> nat \<Rightarrow> mem" where
  "split_mem m h A a r =
     (let m = wr32 m (A + 4) (CLR_MASK (rd32 m (A + 4)) FLAG_FREE);
          m = list_del m (nd A);
          B = A + 24 + a;
          m = wr32 m B SIMPLE_MM_MAGIC;
          m = wr32 m (B + r - 4) (ucast (word_of_nat r :: u64));
          m = wr32 m (B + 4) (CLR_MASK (SET_MASK (ucast (word_of_nat r :: u64)) FLAG_FREE) (FLAG_PREV_FREE OR FLAG_POISONED));
          m = list_add m (nd B) h;
          m = wr32 m (A + 4) (CLR_MASK (ucast ((word_of_nat (a + 24) :: u64) OR EXTRACT_FLAG (rd32 m (A + 4)))) FLAG_FREE)
      in m)"

lemma wr32_twice [simp]: "wr32 (wr32 m a v) a w = wr32 m a w"
  by (auto simp: wr32_def fun_eq_iff)

lemma split_mem_facts:
  fixes a r A :: nat and h :: ptr and m :: mem
  defines "B \<equiv> A + 24 + a" and "M \<equiv> split_mem m h A a r"
  assumes st: "relinked S h m (map nd f1 @ nd A # map nd f2) {} m"
    and new: "nd B \<in> S" "nd B \<notin> set (h # map nd (f1 @ f2))"
    and off: "cell_off S (A + 4)" "cell_off S B" "cell_off S (B + 4)" "cell_off S (B + r - 4)"
    and sz: "32 \<le> r"
  shows "relinked S h m (map nd (B # f1 @ f2)) ({A + 4..<A + 8} \<union> {B..<B + 8} \<union> {B + r - 4..<B + r}) M"
    and "rd32 M (A + 4) = CLR_MASK (ucast ((word_of_nat (a + 24) :: u64)
           OR EXTRACT_FLAG (CLR_MASK (rd32 m (A + 4)) FLAG_FREE))) FLAG_FREE"
    and "rd32 M B = SIMPLE_MM_MAGIC" 
    and "rd32 M (B + 4) = CLR_MASK (SET_MASK (ucast (word_of_nat r :: u64)) FLAG_FREE) (FLAG_PREV_FREE OR FLAG_POISONED)"
    and "rd32 M (B + r - 4) = ucast (word_of_nat r :: u64)"
proof -
  define m1 where "m1 = wr32 m (A + 4) (CLR_MASK (rd32 m (A + 4)) FLAG_FREE)"
  define m2 where "m2 = list_del m1 (nd A)"
  define m3 where "m3 = wr32 (wr32 (wr32 m2 B SIMPLE_MM_MAGIC) (B + r - 4) (ucast (word_of_nat r :: u64))) (B + 4)
    (CLR_MASK (SET_MASK (ucast (word_of_nat r :: u64)) FLAG_FREE) (FLAG_PREV_FREE OR FLAG_POISONED))"
  define m4 where "m4 = list_add m3 (nd B) h"
  define v :: u32 where "v = CLR_MASK (ucast ((word_of_nat (a + 24) :: u64)
    OR EXTRACT_FLAG (rd32 m4 (A + 4)))) FLAG_FREE"
  have eq: "M = wr32 m4 (A + 4) v"
    by (simp add: M_def split_mem_def Let_def m1_def m2_def m3_def m4_def v_def B_def del: of_nat_add)
  note s1 = relinked_wr32 [OF st off(1), where v = "CLR_MASK (rd32 m (A + 4)) FLAG_FREE", folded m1_def]
  note s2 = relinked_del [OF s1, folded m2_def]
  note s3 = relinked_wr32 [OF relinked_wr32 [OF relinked_wr32 [OF s2 off(2), of SIMPLE_MM_MAGIC]
    off(4), of "ucast (word_of_nat r :: u64)"] off(3), of "CLR_MASK (SET_MASK (ucast (word_of_nat r :: u64)) FLAG_FREE)
      (FLAG_PREV_FREE OR FLAG_POISONED)", folded m3_def]
  note s4 = relinked_add [OF s3 new(1), folded m4_def]
  note s5 = relinked_wr32 [OF s4 off(1), of v, folded eq]
  have W: "{A + 4..<A + 4 + 4} \<union> {B..<B + 4} \<union> {B + r - 4..<B + r - 4 + 4} \<union> {B + 4..<B + 4 + 4}
      \<union> {A + 4..<A + 4 + 4} = {A + 4..<A + 8} \<union> {B..<B + 8} \<union> {B + r - 4..<B + r}"
    using sz by auto
  show "relinked S h m (map nd (B # f1 @ f2)) ({A + 4..<A + 8} \<union> {B..<B + 8} \<union> {B + r - 4..<B + r}) M"
    using s5 new(2) W by simp
  note rd = relinked_rd_del [OF s1, folded m2_def] relinked_rd_add [OF s3 new(1), folded m4_def]
  have cells: "rd32 m3 (A + 4) = rd32 m1 (A + 4)" "rd32 m3 B = SIMPLE_MM_MAGIC"
    "rd32 m3 (B + r - 4) = ucast (word_of_nat r :: u64)" "A + 8 \<le> B" "A + 8 \<le> B + r - 4" "B + 8 \<le> B + r - 4"
    using sz off unfolding m3_def B_def by (simp_all add: rd32_wr32_other rd)
  show "rd32 M (A + 4) = CLR_MASK (ucast ((word_of_nat (a + 24) :: u64)
      OR EXTRACT_FLAG (CLR_MASK (rd32 m (A + 4)) FLAG_FREE))) FLAG_FREE"
    unfolding eq v_def by (simp add: rd off cells del: of_nat_add) (simp add: m1_def)
  show "rd32 M B = SIMPLE_MM_MAGIC" "rd32 M (B + r - 4) = ucast (word_of_nat r :: u64)"
    "rd32 M (B + 4) = CLR_MASK (SET_MASK (ucast (word_of_nat r :: u64)) FLAG_FREE) (FLAG_PREV_FREE OR FLAG_POISONED)"
    unfolding eq using cells off by (simp_all add: rd32_wr32_other rd) (simp add: m3_def)
qed

text \<open>
  A local change of the blocks \<open>mid\<close> into \<open>mid'\<close>: it is enough to look at the headers of the new
  blocks and at the header after them.  \<open>fine\<close> cuts the same region at every block start that is
  in the heap before or after the change.
\<close>

lemma client_bytes_off_fine:
  assumes g: "geom h base (xs @ fine @ ys)" and A: "A = base + total xs"
    and x: "x \<in> client_bytes h base (xs @ mid @ ys)" "total mid = total fine"
      "x < A \<or> A + total fine \<le> x"
  shows "x \<notin> node_bytes (heap_nodes h base (xs @ fine @ ys))"
proof (rule client_bytes_off [OF g])
  have "x \<notin> user_bytes A mid"
    using x user_bytes_range [of x A mid] by auto
  then show "x \<in> client_bytes h base (xs @ fine @ ys)"
    using x A by (auto simp: client_bytes_def)
qed

lemma heap_ok_update:
  assumes ok: "heap_ok m h base (xs @ mid @ ys) fs"
    and A: "A = base + total xs" and B: "B = A + total mid'" and tot: "total mid' = total mid"
    and fine: "total fine = total mid" "\<forall>b\<in>set fine. 32 \<le> bsize b"
    and rel: "relinked (heap_nodes h base (xs @ fine @ ys)) h m (map nd fs') W m'"
    and W: "W \<subseteq> {A..<B + 8}"
    and new: "hseg m' (after None xs) A mid'"
      "hdr m' B (first_size ys) (first_free ys) (after (after None xs) mid' \<noteq> None)"
      "foot m' (after (after None xs) mid') B"
    and fs': "distinct fs'" "set fs' = set (free_addrs base (xs @ mid' @ ys))"
  shows "heap_ok m' h base (xs @ mid' @ ys) fs'"
    and "\<And>x. x \<in> client_bytes h base (xs @ mid @ ys) \<Longrightarrow> x < A \<or> B \<le> x \<Longrightarrow> m' x = m x"
proof -
  let ?fine = "xs @ fine @ ys"
  have g: "geom h base ?fine"
    using heap_ok_geom [OF ok] fine by (auto simp: geom_def)
  then have szs: "\<forall>b\<in>set xs. 32 \<le> bsize b" "\<forall>b\<in>set ys. 32 \<le> bsize b"
    by (auto simp: geom_def)
  have same: "m' x = m x" if "x \<notin> node_bytes (heap_nodes h base ?fine)" "x < A \<or> B + 8 \<le> x" for x
    using rel that W by (auto simp: relinked_def)
  have meta: "m' x = m x" if "x \<in> hmeta None base ?fine" "x < A \<or> B + 8 \<le> x" for x
    using same [OF hmeta_off_node [OF g that(1)] that(2)] .
  have "hheap m' None base (xs @ mid' @ ys)"
  proof (rule hheap_replace [OF _ A B tot new])
    show "hheap m None base (xs @ mid @ ys)"
      using ok by (simp add: heap_ok_def)
    show "m' x = m x" if "x \<in> smeta None base xs" for x
      using that smeta_range [OF szs(1) that] A by (intro meta) (auto simp: hmeta_append)
    show "m' x = m x" if "x \<in> hrest B ys" for x
    proof (rule meta)
      have "hrest B ys \<subseteq> hmeta (after (after None xs) fine) B ys"
        by (cases ys) (auto simp: hrest_def hmeta_def add.assoc)
      then show "x \<in> hmeta None base ?fine"
        using that A B tot fine(1) by (auto simp: hmeta_append add.assoc)
    qed (use hrest_range [OF szs(2) that] in simp)
  qed
  then show "heap_ok m' h base (xs @ mid' @ ys) fs'"
    using ok rel fs' tot by (auto simp: heap_ok_def relinked_def)
  show "m' x = m x" if x: "x \<in> client_bytes h base (xs @ mid @ ys)" "x < A \<or> B \<le> x" for x
  proof (rule ccontr)
    assume "m' x \<noteq> m x"
    moreover have "x \<notin> node_bytes (heap_nodes h base ?fine)"
      using client_bytes_off_fine [OF g A x(1)] x(2) B tot fine(1) by simp
    ultimately have "\<not> (x < A \<or> B + 8 \<le> x)"
      using same by blast
    with x(2) have "B \<le> x" "x < B + 8"
      by auto
    then show False
      using x(1) A B tot user_bytes_range [of x base xs] user_bytes_range [of x A mid]
        user_bytes_range [of x B ys] by (auto simp: client_bytes_def add.assoc)
  qed
qed

lemma heap_ok_start:
  assumes ok: "heap_ok m h base (xs @ mid @ ys) fs" and fine: "total fine = total mid"
    "\<forall>b\<in>set fine. 32 \<le> bsize b" "set (addrs (base + total xs) mid) \<subseteq> set (addrs (base + total xs) fine)"
  shows "geom h base (xs @ fine @ ys)"
    and "relinked (heap_nodes h base (xs @ fine @ ys)) h m (map nd fs) {} m"
proof -
  show g: "geom h base (xs @ fine @ ys)"
    using heap_ok_geom [OF ok] fine by (auto simp: geom_def)
  have "set fs = set (free_addrs base (xs @ mid @ ys))"
    using ok by (simp only: heap_ok_def)
  then have "set fs \<subseteq> set (addrs base (xs @ mid @ ys))"
    using free_addrs_sub by metis
  then have "insert h (set (map nd fs)) \<subseteq> heap_nodes h base (xs @ fine @ ys)"
    using fine(1,3) by (auto simp: heap_nodes_def)
  then show "relinked (heap_nodes h base (xs @ fine @ ys)) h m (map nd fs) {} m"
    using ok by (intro relinked_start geom_node_set [OF g]) (auto simp: heap_ok_def)
qed

lemma geom_nd_fresh:
  assumes g: "geom h base bs" and Y: "Y \<in> set (addrs base bs)" and F: "set F \<subseteq> set (addrs base bs)" "Y \<notin> set F"
  shows "nd Y \<in> heap_nodes h base bs" and "nd Y \<notin> set (h # map nd F)"
proof -
  have "\<forall>b\<in>set bs. 32 \<le> bsize b"
    using g by (simp add: geom_def)
  then have "nd Y \<noteq> h"
    using geom_unat_nd [OF g Y] addrs_range [of bs Y base] g Y by (auto simp: geom_def)
  moreover have "nd Y \<notin> nd ` set F"
    using nd_inj_on [OF g] Y F by (auto dest: inj_onD)
  ultimately show "nd Y \<notin> set (h # map nd F)"
    by simp
qed (simp add: heap_nodes_def Y)

lemma free_rest:
  assumes "distinct (f1 @ A # f2)" and "set (f1 @ A # f2) = set (free_addrs base (xs @ Blk n True # ys))"
    and "\<forall>b\<in>set (xs @ Blk n True # ys). 32 \<le> bsize b" and A: "A = base + total xs"
  shows "set (f1 @ f2) = set (free_addrs base xs) \<union> set (free_addrs (A + n) ys)"
proof -
  have "A \<notin> set (free_addrs base xs)" "A \<notin> set (free_addrs (A + n) ys)"
    using assms(3) A addrs_range [of xs A base] addrs_range [of ys A "A + n"]
      free_addrs_sub [of base xs] free_addrs_sub [of "A + n" ys] by auto
  moreover have "set (f1 @ f2) = set (f1 @ A # f2) - {A}"
    using assms(1) by auto
  moreover have "set (f1 @ A # f2) = insert A (set (free_addrs base xs) \<union> set (free_addrs (A + n) ys))"
    using assms(2) A by simp
  ultimately show ?thesis
    by (metis Diff_insert_absorb Un_iff)
qed

text \<open>What the blocks around a local change look like before and after it.\<close>

lemma heap_ok_around:
  assumes ok: "heap_ok m h base (xs @ mid @ ys) fs" and A: "A = base + total xs" and B: "B = A + total mid"
    and mid: "mid = Blk n f # mid'"
    and fine: "fine = Blk n' f' # fine'" "total fine = total mid" "\<forall>b\<in>set fine. 32 \<le> bsize b"
    and rel: "relinked (heap_nodes h base (xs @ fine @ ys)) h m ns W m'" and W: "W \<subseteq> {A + 4..<B} \<union> {B + 4..<B + 8}"
  shows "foot m' (after None xs) A" and "rd32 m' A = SIMPLE_MM_MAGIC" and "rd32 m' B = SIMPLE_MM_MAGIC"
    and "sf_ok (rd32 m (A + 4)) n f (after None xs \<noteq> None)"
    and "sf_ok (rd32 m (B + 4)) (first_size ys) (first_free ys) (after None (xs @ mid) \<noteq> None)"
    and "W \<subseteq> {A..<B} \<Longrightarrow> hdr m' B (first_size ys) (first_free ys) (after None (xs @ mid) \<noteq> None)"
proof -
  let ?S = "heap_nodes h base (xs @ fine @ ys)"
  have g: "geom h base (xs @ fine @ ys)"
    using heap_ok_geom [OF ok] fine by (auto simp: geom_def)
  have hh: "hheap m (after None xs) A (mid @ ys)"
    using ok A by (auto simp: heap_ok_def hheap_append)
  then have hA: "blk_ok m (after None xs) A (Blk n f)" and hB: "hheap m (after None (xs @ mid)) B ys"
    using mid B by (auto simp: hheap_append hheap_Cons add.assoc)
  show sf: "sf_ok (rd32 m (A + 4)) n f (after None xs \<noteq> None)"
    "sf_ok (rd32 m (B + 4)) (first_size ys) (first_free ys) (after None (xs @ mid) \<noteq> None)"
    using hA hheap_first [OF hB] by (auto simp: blk_ok_def hdr_def)
  have "B \<in> set (addrs base (xs @ fine @ ys)) \<or> B = base + total (xs @ fine @ ys)"
    using A B fine(2) by (cases ys) auto
  then have off: "cell_off ?S A" "cell_off ?S B" "cell_off ?S (B + 4)"
    using geom_header_off [OF g, of A] geom_header_off [OF g, of B] A fine(1) by auto
  show "rd32 m' A = SIMPLE_MM_MAGIC" and magB: "rd32 m' B = SIMPLE_MM_MAGIC"
    using relinked_rd [OF rel off(1)] relinked_rd [OF rel off(2)] W hA hheap_first [OF hB] B mid
    by (fastforce simp: blk_ok_def hdr_def)+
  show "hdr m' B (first_size ys) (first_free ys) (after None (xs @ mid) \<noteq> None)" if "W \<subseteq> {A..<B}"
    using relinked_rd [OF rel off(3)] that sf(2) magB by (fastforce simp: hdr_def)
  have "A - 4 + 4 = A" if "after None xs \<noteq> None"
    using that A g by (cases xs rule: rev_cases) (auto simp: geom_def)
  moreover have "cell_off ?S (A - 4)" if "after None xs \<noteq> None"
    using that A g geom_footer_off [of h base "butlast xs" "last xs" "fine @ ys"]
    by (cases xs rule: rev_cases) (auto simp: add.assoc)
  moreover have "A \<le> x" if "x \<in> W" for x
    using W B that by fastforce
  then have "{A - 4..<A} \<inter> W = {}"
    by (fastforce simp: disjoint_iff)
  ultimately have "after None xs \<noteq> None \<Longrightarrow> rd32 m' (A - 4) = rd32 m (A - 4)"
    using relinked_rd [OF rel, of "A - 4"] by auto
  then show "foot m' (after None xs) A"
    using hA by (auto simp: blk_ok_def foot_def)
qed

lemma split_heap_ok:
  assumes ok: "heap_ok m h base (xs @ [Blk n True] @ ys) (f1 @ A # f2)" and A: "A = base + total xs"
    and a: "8 dvd a" "8 \<le> a" and r: "n = a + 24 + r" "32 \<le> r"
  defines "B \<equiv> A + 24 + a"
  defines "M \<equiv> split_mem m h A a r"
  shows "heap_ok M h base (xs @ [Blk (a + 24) False, Blk r True] @ ys) (B # f1 @ f2)"
    and "\<And>x. x \<in> client_bytes h base (xs @ [Blk n True] @ ys) \<Longrightarrow> x < A \<or> B + r \<le> x \<Longrightarrow> M x = m x"
proof -
  let ?mid = "[Blk (a + 24) False, Blk r True]"
  let ?S = "heap_nodes h base (xs @ ?mid @ ys)"
  let ?W = "{A + 4..<A + 8} \<union> {B..<B + 8} \<union> {B + r - 4..<B + r}"
  have g: "geom h base (xs @ ?mid @ ys)" and st: "relinked ?S h m (map nd (f1 @ A # f2)) {} m"
    using heap_ok_start [OF ok, of ?mid] r a A by auto
  have szs: "\<forall>b\<in>set (xs @ Blk n True # ys). 32 \<le> bsize b"
    using heap_ok_geom [OF ok] by (simp add: geom_def)
  have "set (f1 @ A # f2) = set (free_addrs base (xs @ Blk n True # ys))" and ds: "distinct (f1 @ A # f2)"
    using ok by (simp_all add: heap_ok_def)
  then have F: "set (f1 @ f2) = set (free_addrs base xs) \<union> set (free_addrs (B + r) ys)"
    using free_rest [OF ds _ szs A] r by (simp add: B_def add_ac)
  have BA: "B \<in> set (addrs base (xs @ ?mid @ ys))" "A \<in> set (addrs base (xs @ ?mid @ ys))"
    using A by (auto simp: B_def)
  have "set (f1 @ f2) \<subseteq> set (addrs base (xs @ ?mid @ ys))" and Bf: "B \<notin> set (f1 @ f2)"
    using F A r szs free_addrs_sub [of base xs] free_addrs_sub [of "B + r" ys]
      addrs_range [of xs B base] addrs_range [of ys B "B + r"] by (auto simp: B_def add_ac)
  note new = geom_nd_fresh [OF g BA(1) this]
  have off: "cell_off ?S (A + 4)" "cell_off ?S B" "cell_off ?S (B + 4)" "cell_off ?S (B + r - 4)"
    using geom_header_off [OF g, of A] geom_header_off [OF g, of B] BA
      geom_footer_off [of h base "xs @ [Blk (a + 24) False]" "Blk r True" ys] g A
    by (auto simp: B_def add_ac)
  note facts = split_mem_facts [of ?S h m f1 A f2 a, folded B_def, OF st [simplified map_append list.map] new off r(2), folded M_def]
  have W: "?W \<subseteq> {A + 4..<B + r} \<union> {B + r + 4..<B + r + 8}" "?W \<subseteq> {A..<B + r}"
    using r by (auto simp: B_def)
  have tot: "B + r = A + total [Blk n True]" "total ?mid = total [Blk n True]" "\<forall>b\<in>set ?mid. 32 \<le> bsize b"
    using r a by (auto simp: B_def)
  note around = heap_ok_around [OF ok A tot(1) refl refl tot(2,3) facts(1) W(1)]
  have n8: "8 dvd n" "n < 2 ^ 32"
    using ok by (auto simp: heap_ok_def hheap_append hheap_Cons blk_ok_def)
  then have r8: "8 dvd r"
    using r a by presburger
  have unats: "unat (word_of_nat r :: u64) = r" "unat (word_of_nat (a + 24) :: u64) = a + 24"
    using n8(2) r by (auto simp: unat_of_nat_u64 simp del: of_nat_add)
  have sA: "sf_ok (rd32 M (A + 4)) (a + 24) False (after None xs \<noteq> None)"
    using sf_ok_clear_free [OF sf_ok_repack [OF sf_ok_clear_free [OF around(4)],
      of "word_of_nat (a + 24)"]] n8 r a unfolding facts(2) by (auto simp: unats simp del: of_nat_add)
  have sB: "sf_ok (rd32 M (B + 4)) r True False"
    using sf_ok_new_free [of "word_of_nat r"] n8 r r8 unfolding facts(4) by (simp add: unats)
  have ft: "unat (EXTRACT_SIZE (rd32 M (B + r - 4))) = r"
    using EXTRACT_SIZE_pack [of "word_of_nat r" 0] n8 r r8 unfolding facts(5) by (simp add: unats)
  have new_blocks: "hseg M (after None xs) A ?mid"
    using around(1,2) sA sB facts(3) a r r8
    by (auto simp: blk_ok_def hdr_def foot_def free_size_def B_def add_ac)
  have W': "?W \<subseteq> {A..<B + r + 8}"
    using W(2) by auto
  have "hdr M (B + r) (first_size ys) (first_free ys) True" "foot M (Some r) (B + r)"
    using around(6) [OF W(2)] ft by (auto simp: free_size_def foot_def)
  then have nxt: "hdr M (B + r) (first_size ys) (first_free ys) (after (after None xs) ?mid \<noteq> None)"
    "foot M (after (after None xs) ?mid) (B + r)"
    by (auto simp: free_size_def)
  have fs: "distinct (B # f1 @ f2)" "set (B # f1 @ f2) = set (free_addrs base (xs @ ?mid @ ys))"
    using F Bf ds A by (auto simp: B_def add_ac)
  have E: "B + r = A + total ?mid"
    by (simp add: B_def)
  note up = heap_ok_update [OF ok A E tot(2) tot(2,3) facts(1) W' new_blocks nxt fs]
  show "heap_ok M h base (xs @ [Blk (a + 24) False, Blk r True] @ ys) (B # f1 @ f2)"
    by (rule up)
  show "\<And>x. x \<in> client_bytes h base (xs @ [Blk n True] @ ys) \<Longrightarrow> x < A \<or> B + r \<le> x \<Longrightarrow> M x = m x"
    by (rule up)
qed

text \<open>A local change after which one block covers the region.\<close>

lemma heap_ok_single:
  assumes ok: "heap_ok m h base (xs @ mid @ ys) fs" and A: "A = base + total xs" and B: "B = A + k"
    and mid: "mid = Blk n f # mid'" and k: "total mid = k"
    and rel: "relinked (heap_nodes h base (xs @ mid @ ys)) h m (map nd fs') W m'"
    and W: "W \<subseteq> {A + 4..<B} \<union> {B + 4..<B + 8}"
    and sA: "sf_ok (rd32 m' (A + 4)) k f' (after None xs \<noteq> None)"
    and sB: "sf_ok (rd32 m' (B + 4)) (first_size ys) (first_free ys) f'"
    and ft: "f' \<Longrightarrow> unat (EXTRACT_SIZE (rd32 m' (B - 4))) = k"
    and fs': "distinct fs'" "set fs' = set (free_addrs base (xs @ [Blk k f'] @ ys))"
  shows "heap_ok m' h base (xs @ [Blk k f'] @ ys) fs'"
    and "\<And>x. x \<in> client_bytes h base (xs @ mid @ ys) \<Longrightarrow> x < A \<or> B \<le> x \<Longrightarrow> m' x = m x"
proof -
  have szs: "\<forall>b\<in>set mid. 32 \<le> bsize b \<and> 8 dvd bsize b"
    using ok hseg_sizes [of m "after None xs" A mid] A by (auto simp: heap_ok_def hheap_append hseg_append)
  then have sz: "\<forall>b\<in>set mid. 32 \<le> bsize b"
    by blast
  have dvd: "8 dvd total bs" if "\<forall>b\<in>set bs. 32 \<le> bsize b \<and> 8 dvd bsize b" for bs
    using that by (induction bs) auto
  have k8: "8 dvd k" "32 \<le> k"
    using dvd [OF szs] k sz mid by auto
  have B': "B = A + total mid" and E: "B = A + total [Blk k f']" and t: "total [Blk k f'] = total mid"
    using B k by auto
  note around = heap_ok_around [OF ok A B' mid mid refl sz rel W]
  have new: "hseg m' (after None xs) A [Blk k f']"
    using around(1,2) sA k8 by (auto simp: blk_ok_def hdr_def)
  have nxt: "hdr m' B (first_size ys) (first_free ys) (after (after None xs) [Blk k f'] \<noteq> None)"
    "foot m' (after (after None xs) [Blk k f']) B"
    using around(3) sB ft by (auto simp: hdr_def foot_def free_size_def)
  have "{A + 4..<B} \<union> {B + 4..<B + 8} \<subseteq> {A..<B + 8}"
    using B by auto
  with W have W': "W \<subseteq> {A..<B + 8}"
    by (rule subset_trans)
  note up = heap_ok_update [OF ok A E t refl sz rel W' new nxt fs']
  show "heap_ok m' h base (xs @ [Blk k f'] @ ys) fs'"
    "\<And>x. x \<in> client_bytes h base (xs @ mid @ ys) \<Longrightarrow> x < A \<or> B \<le> x \<Longrightarrow> m' x = m x"
    by (rule up, rule up(2))
qed

definition whole_mem :: "mem \<Rightarrow> nat \<Rightarrow> nat \<Rightarrow> mem" where
  "whole_mem m A n =
     (let m = wr32 m (A + 4) (CLR_MASK (rd32 m (A + 4)) FLAG_FREE);
          m = list_del m (nd A)
      in wr32 m (A + n + 4) (CLR_MASK (rd32 m (A + n + 4)) FLAG_PREV_FREE))"

lemma heap_ok_offs:
  assumes ok: "heap_ok m h base (xs @ mid @ ys) fs" and A: "A = base + total xs" "mid = b # mid'"
  shows "cell_off (heap_nodes h base (xs @ mid @ ys)) A" "cell_off (heap_nodes h base (xs @ mid @ ys)) (A + 4)"
    "cell_off (heap_nodes h base (xs @ mid @ ys)) (A + total mid)"
    "cell_off (heap_nodes h base (xs @ mid @ ys)) (A + total mid + 4)"
    "cell_off (heap_nodes h base (xs @ mid @ ys)) (A + total mid - 4)"
    "relinked (heap_nodes h base (xs @ mid @ ys)) h m (map nd fs) {} m"
proof -
  note g = heap_ok_geom [OF ok]
  have "A \<in> set (addrs base (xs @ mid @ ys))"
    using A by auto
  moreover have "A + total mid \<in> set (addrs base (xs @ mid @ ys)) \<or> A + total mid = base + total (xs @ mid @ ys)"
    using A by (cases ys) auto
  ultimately show "cell_off (heap_nodes h base (xs @ mid @ ys)) A" "cell_off (heap_nodes h base (xs @ mid @ ys)) (A + 4)"
    "cell_off (heap_nodes h base (xs @ mid @ ys)) (A + total mid)"
    "cell_off (heap_nodes h base (xs @ mid @ ys)) (A + total mid + 4)"
    using geom_header_off [OF g, of A] geom_header_off [OF g, of "A + total mid"] by auto
  have "mid = butlast mid @ [last mid]"
    using A(2) by simp
  then obtain us u where "mid = us @ [u]"
    by blast
  then show "cell_off (heap_nodes h base (xs @ mid @ ys)) (A + total mid - 4)"
    using geom_footer_off [of h base "xs @ us" u ys] g A(1) by (simp add: add.assoc)
  show "relinked (heap_nodes h base (xs @ mid @ ys)) h m (map nd fs) {} m"
    using heap_ok_start [OF ok, of mid] g by (auto simp: geom_def)
qed

lemma whole_heap_ok:
  assumes ok: "heap_ok m h base (xs @ [Blk n True] @ ys) (f1 @ A # f2)" and A: "A = base + total xs"
  shows "heap_ok (whole_mem m A n) h base (xs @ [Blk n False] @ ys) (f1 @ f2)"
    and "\<And>x. x \<in> client_bytes h base (xs @ [Blk n True] @ ys) \<Longrightarrow> x < A \<or> A + n \<le> x \<Longrightarrow> whole_mem m A n x = m x"
proof -
  let ?S = "heap_nodes h base (xs @ [Blk n True] @ ys)"
  let ?W = "{A + 4..<A + 8} \<union> {A + n + 4..<A + n + 8}"
  define m1 where "m1 = wr32 m (A + 4) (CLR_MASK (rd32 m (A + 4)) FLAG_FREE)"
  define m2 where "m2 = list_del m1 (nd A)"
  define v :: u32 where "v = CLR_MASK (rd32 m2 (A + n + 4)) FLAG_PREV_FREE"
  have eq: "whole_mem m A n = wr32 m2 (A + n + 4) v"
    by (simp add: whole_mem_def Let_def m1_def m2_def v_def)
  note off = heap_ok_offs [OF ok A refl, simplified total.simps blk.sel add_0_right]
  have n: "32 \<le> n"
    using heap_ok_geom [OF ok] by (simp add: geom_def)
  note s1 = relinked_wr32 [OF off(6) off(2), of "CLR_MASK (rd32 m (A + 4)) FLAG_FREE", folded m1_def]
  note s2 = relinked_del [OF s1 [simplified map_append list.map], folded m2_def]
  note s3 = relinked_wr32 [OF s2 off(4), of v, folded eq]
  note rd = relinked_rd_del [OF s1 [simplified map_append list.map], folded m2_def]
  have s3': "relinked ?S h m (map nd (f1 @ f2)) ?W (whole_mem m A n)"
    using s3 by (simp add: add_ac)
  have tot: "A + n = A + total [Blk n True]" "total [Blk n True] = n" "A + n = A + n"
    and W: "?W \<subseteq> {A + 4..<A + n} \<union> {A + n + 4..<A + n + 8}"
    using n by auto
  have sz: "\<forall>b\<in>set (xs @ Blk n True # ys). 32 \<le> bsize b"
    using heap_ok_geom [OF ok] by (simp add: geom_def)
  note around = heap_ok_around [OF ok A tot(1) refl refl refl _ s3' W]
  have sA: "sf_ok (rd32 (whole_mem m A n) (A + 4)) n False (after None xs \<noteq> None)"
    using sf_ok_clear_free [OF around(4)] n off unfolding eq by (simp add: rd32_wr32_other rd) (simp add: m1_def)
  have sB: "sf_ok (rd32 (whole_mem m A n) (A + n + 4)) (first_size ys) (first_free ys) False"
    using sf_ok_clear_prev_free [OF around(5)] n off unfolding eq v_def
    by (simp add: rd) (simp add: m1_def rd32_wr32_other)
  have "set (f1 @ A # f2) = set (free_addrs base (xs @ Blk n True # ys))" and ds: "distinct (f1 @ A # f2)"
    using ok by (simp_all add: heap_ok_def)
  then have fs: "set (f1 @ f2) = set (free_addrs base (xs @ [Blk n False] @ ys))" "distinct (f1 @ f2)"
    using free_rest [OF ds _ sz A] A by auto
  note up = heap_ok_single [OF ok A tot(3) refl tot(2) s3' W sA sB _ fs(2,1)]
  show "heap_ok (whole_mem m A n) h base (xs @ [Blk n False] @ ys) (f1 @ f2)"
    "\<And>x. x \<in> client_bytes h base (xs @ [Blk n True] @ ys) \<Longrightarrow> x < A \<or> A + n \<le> x \<Longrightarrow> whole_mem m A n x = m x"
    by (rule up(1), simp) (rule up(2), simp_all)
qed

section \<open>Release\<close>

text \<open>Marking a used block free before a used one; merging it with a free successor; merging a
  free block into its free predecessor.\<close>

definition mark_mem :: "mem \<Rightarrow> ptr \<Rightarrow> nat \<Rightarrow> nat \<Rightarrow> mem" where
  "mark_mem m h A n =
     (let m = wr32 m (A + 4) (ucast (ucast (rd32 m (A + 4)) OR FLAG_FREE));
          m = list_add m (nd A) h;
          m = wr32 m (A + n + 4) (ucast (ucast (rd32 m (A + n + 4)) OR FLAG_PREV_FREE))
      in wr32 m (A + n - 4) (ucast (word_of_nat n :: u64)))"

definition absorb_mem :: "mem \<Rightarrow> ptr \<Rightarrow> nat \<Rightarrow> nat \<Rightarrow> nat \<Rightarrow> mem" where
  "absorb_mem m h A n k =
     (let m = wr32 m (A + 4) (ucast (ucast (rd32 m (A + 4)) OR FLAG_FREE));
          m = list_add m (nd A) h;
          m = wr32 m (A + 4) (ucast ((word_of_nat (n + k) :: u64) OR EXTRACT_FLAG (rd32 m (A + 4))));
          m = list_del m (nd (A + n))
      in wr32 m (A + (n + k) - 4) (ucast (word_of_nat (n + k) :: u64)))"

definition join_mem :: "mem \<Rightarrow> nat \<Rightarrow> nat \<Rightarrow> nat \<Rightarrow> mem" where
  "join_mem m D k n =
     (let m = wr32 m (D + 4) (ucast ((word_of_nat (k + n) :: u64) OR EXTRACT_FLAG (rd32 m (D + 4))));
          m = list_del m (nd (D + k))
      in wr32 m (D + (k + n) - 4) (ucast (word_of_nat (k + n) :: u64)))"

lemma footer_size:
  "8 dvd n \<Longrightarrow> n < 2 ^ 32 \<Longrightarrow> unat (EXTRACT_SIZE (ucast (word_of_nat n :: u64))) = n"
  using EXTRACT_SIZE_pack [of "word_of_nat n" 0] by (simp add: unat_of_nat_u64)

lemma heap_ok_used_fresh:
  assumes ok: "heap_ok m h base (xs @ Blk n False # ys) fs" and A: "A = base + total xs"
  shows "A \<notin> set fs" and "nd A \<in> heap_nodes h base (xs @ Blk n False # ys)" and "nd A \<notin> set (h # map nd fs)"
proof -
  have fs: "set fs = set (free_addrs base (xs @ Blk n False # ys))"
    using ok by (simp only: heap_ok_def)
  have "\<forall>b\<in>set (xs @ Blk n False # ys). 32 \<le> bsize b"
    using heap_ok_geom [OF ok] by (simp add: geom_def)
  then show new: "A \<notin> set fs"
    using fs A addrs_range [of xs A base] addrs_range [of ys A "A + n"]
      free_addrs_sub [of base xs] free_addrs_sub [of "A + n" ys] by auto
  have "A \<in> set (addrs base (xs @ Blk n False # ys))"
    using A by simp
  then show "nd A \<in> heap_nodes h base (xs @ Blk n False # ys)" "nd A \<notin> set (h # map nd fs)"
    using geom_nd_fresh [OF heap_ok_geom [OF ok] _ _ new] fs free_addrs_sub by metis+
qed

lemma mark_heap_ok:
  assumes ok: "heap_ok m h base (xs @ [Blk n False] @ ys) fs" and A: "A = base + total xs"
  shows "heap_ok (mark_mem m h A n) h base (xs @ [Blk n True] @ ys) (A # fs)"
    and "\<And>x. x \<in> client_bytes h base (xs @ [Blk n False] @ ys) \<Longrightarrow> x < A \<or> A + n \<le> x \<Longrightarrow> mark_mem m h A n x = m x"
proof -
  let ?S = "heap_nodes h base (xs @ [Blk n False] @ ys)"
  let ?W = "{A + 4..<A + 8} \<union> {A + n + 4..<A + n + 8} \<union> {A + n - 4..<A + n}"
  define m1 where "m1 = wr32 m (A + 4) (ucast (ucast (rd32 m (A + 4)) OR FLAG_FREE))"
  define m2 where "m2 = list_add m1 (nd A) h"
  define v :: u32 where "v = ucast (ucast (rd32 m2 (A + n + 4)) OR FLAG_PREV_FREE)"
  define M where "M = mark_mem m h A n"
  have eq: "M = wr32 (wr32 m2 (A + n + 4) v) (A + n - 4) (ucast (word_of_nat n :: u64))"
    by (simp add: M_def mark_mem_def Let_def m1_def m2_def v_def)
  note off = heap_ok_offs [OF ok A refl, simplified total.simps blk.sel add_0_right]
  note fresh = heap_ok_used_fresh [OF ok [simplified append_Cons append_Nil] A]
  have fresh': "nd A \<in> ?S"
    using fresh(2) by simp
  have n: "32 \<le> n" "8 dvd n" "n < 2 ^ 32"
    using ok by (auto simp: heap_ok_def hheap_append hheap_Cons blk_ok_def)
  note s1 = relinked_wr32 [OF off(6) off(2), of "ucast (ucast (rd32 m (A + 4)) OR FLAG_FREE)", folded m1_def]
  note s2 = relinked_add [OF s1 fresh' fresh(3), folded m2_def]
  note s3 = relinked_wr32 [OF relinked_wr32 [OF s2 off(4), of v] off(5), of "ucast (word_of_nat n :: u64)", folded eq]
  note rd = relinked_rd_add [OF s1 fresh', folded m2_def]
  have s3': "relinked ?S h m (map nd (A # fs)) ?W M"
    using s3 n(1) by (simp add: add_ac)
  have tot: "A + n = A + total [Blk n False]" "total [Blk n False] = n" "A + n = A + n"
    and W: "?W \<subseteq> {A + 4..<A + n} \<union> {A + n + 4..<A + n + 8}"
    using n by auto
  note around = heap_ok_around [OF ok A tot(1) refl refl refl _ s3' W]
  have sA: "sf_ok (rd32 M (A + 4)) n True (after None xs \<noteq> None)"
    using sf_ok_set_free [OF around(4)] n off unfolding eq by (simp add: rd32_wr32_other rd) (simp add: m1_def)
  have sB: "sf_ok (rd32 M (A + n + 4)) (first_size ys) (first_free ys) True"
    using sf_ok_set_prev_free [OF around(5)] n off unfolding eq v_def
    by (simp add: rd rd32_wr32_other) (simp add: m1_def rd32_wr32_other)
  have ft: "unat (EXTRACT_SIZE (rd32 M (A + n - 4))) = n"
    using footer_size n unfolding eq by simp
  have fs: "set (A # fs) = set (free_addrs base (xs @ [Blk n True] @ ys))" "distinct (A # fs)"
    using ok A fresh(1) by (auto simp: heap_ok_def)
  note up = heap_ok_single [OF ok A tot(3) refl tot(2) s3' W sA sB ft fs(2,1)]
  show "heap_ok (mark_mem m h A n) h base (xs @ [Blk n True] @ ys) (A # fs)"
    "\<And>x. x \<in> client_bytes h base (xs @ [Blk n False] @ ys) \<Longrightarrow> x < A \<or> A + n \<le> x \<Longrightarrow> mark_mem m h A n x = m x"
    unfolding M_def [symmetric] by (rule up(1)) (rule up(2), simp_all)
qed

lemma absorb_heap_ok:
  assumes ok: "heap_ok m h base (xs @ [Blk n False, Blk k True] @ ys) (f1 @ (A + n) # f2)"
    and A: "A = base + total xs"
  shows "heap_ok (absorb_mem m h A n k) h base (xs @ [Blk (n + k) True] @ ys) (A # f1 @ f2)"
    and "\<And>x. x \<in> client_bytes h base (xs @ [Blk n False, Blk k True] @ ys) \<Longrightarrow> x < A \<or> A + (n + k) \<le> x \<Longrightarrow>
           absorb_mem m h A n k x = m x"
proof -
  let ?mid = "[Blk n False, Blk k True]"
  let ?S = "heap_nodes h base (xs @ ?mid @ ys)"
  let ?W = "{A + 4..<A + 8} \<union> {A + (n + k) - 4..<A + (n + k)}"
  define m1 where "m1 = wr32 m (A + 4) (ucast (ucast (rd32 m (A + 4)) OR FLAG_FREE))"
  define m2 where "m2 = list_add m1 (nd A) h"
  define v :: u32 where "v = ucast ((word_of_nat (n + k) :: u64) OR EXTRACT_FLAG (rd32 m2 (A + 4)))"
  define m3 where "m3 = wr32 m2 (A + 4) v"
  define m4 where "m4 = list_del m3 (nd (A + n))"
  define M where "M = absorb_mem m h A n k"
  have eq: "M = wr32 m4 (A + (n + k) - 4) (ucast (word_of_nat (n + k) :: u64))"
    by (simp add: M_def absorb_mem_def Let_def m1_def m2_def m3_def m4_def v_def)
  note off = heap_ok_offs [OF ok A refl, simplified total.simps blk.sel add_0_right]
  have fresh: "A \<notin> set (f1 @ (A + n) # f2)" "nd A \<in> ?S" "nd A \<notin> set (h # map nd (f1 @ (A + n) # f2))"
    using heap_ok_used_fresh [OF _ A, of m h n "Blk k True # ys" "f1 @ (A + n) # f2"] ok by simp_all
  have n: "32 \<le> n" "32 \<le> k" "8 dvd n + k" "n + k < 2 ^ 32"
    using ok by (auto simp: heap_ok_def hheap_append hheap_Cons blk_ok_def)
  note s1 = relinked_wr32 [OF off(6) off(2), of "ucast (ucast (rd32 m (A + 4)) OR FLAG_FREE)", folded m1_def]
  note s2 = relinked_add [OF s1 fresh(2,3), folded m2_def]
  note s3 = relinked_wr32 [OF s2 off(2), of v, folded m3_def]
  have s3': "relinked ?S h m ((nd A # map nd f1) @ nd (A + n) # map nd f2) {A + 4..<A + 8} m3"
    using s3 by (simp add: add_ac)
  note s4 = relinked_wr32 [OF relinked_del [OF s3', folded m4_def] off(5), of "ucast (word_of_nat (n + k) :: u64)", folded eq]
  have s4': "relinked ?S h m (map nd (A # f1 @ f2)) ?W M"
    using s4 n(1) by (simp add: add_ac)
  note rd = relinked_rd_add [OF s1 fresh(2), folded m2_def] relinked_rd_del [OF s3', folded m4_def]
  have tot: "A + (n + k) = A + total ?mid" "total ?mid = n + k" "A + (n + k) = A + (n + k)"
    and W: "?W \<subseteq> {A + 4..<A + (n + k)} \<union> {A + (n + k) + 4..<A + (n + k) + 8}" "?W \<subseteq> {A..<A + (n + k)}"
    and sz: "\<forall>b\<in>set ?mid. 32 \<le> bsize b"
    using n by auto
  note around = heap_ok_around [OF ok A tot(1) refl refl refl sz s4' W(1)]
  have un: "unat (word_of_nat (n + k) :: u64) = n + k"
    using n(4) by (simp add: unat_of_nat_u64 del: of_nat_add)
  have "sf_ok v (n + k) True (after None xs \<noteq> None)"
    using sf_ok_repack [OF sf_ok_set_free [OF around(4)], of "word_of_nat (n + k)"] n off
    by (simp add: v_def rd un del: of_nat_add) (simp add: m1_def del: of_nat_add)
  then have sA: "sf_ok (rd32 M (A + 4)) (n + k) True (after None xs \<noteq> None)"
    using n off unfolding eq by (simp add: rd32_wr32_other rd) (simp add: m3_def)
  have sB: "sf_ok (rd32 M (A + (n + k) + 4)) (first_size ys) (first_free ys) True"
    using around(6) [OF W(2)] by (simp add: hdr_def free_size_def)
  have ft: "unat (EXTRACT_SIZE (rd32 M (A + (n + k) - 4))) = n + k"
    using footer_size [OF n(3,4)] unfolding eq by simp
  have "set (f1 @ (A + n) # f2) = set (free_addrs base ((xs @ [Blk n False]) @ Blk k True # ys))"
    and ds: "distinct (f1 @ (A + n) # f2)"
    using ok by (simp_all add: heap_ok_def)
  then have fs: "set (A # f1 @ f2) = set (free_addrs base (xs @ [Blk (n + k) True] @ ys))" "distinct (A # f1 @ f2)"
    using free_rest [OF ds, of base "xs @ [Blk n False]" k ys] heap_ok_geom [OF ok] A fresh(1)
    by (auto simp: geom_def add_ac)
  note up = heap_ok_single [OF ok A tot(3) refl tot(2) s4' W(1) sA sB ft fs(2,1)]
  show "heap_ok (absorb_mem m h A n k) h base (xs @ [Blk (n + k) True] @ ys) (A # f1 @ f2)"
    "\<And>x. x \<in> client_bytes h base (xs @ ?mid @ ys) \<Longrightarrow> x < A \<or> A + (n + k) \<le> x \<Longrightarrow> absorb_mem m h A n k x = m x"
    unfolding M_def [symmetric] by (rule up(1)) (rule up(2), simp_all)
qed

lemma join_heap_ok:
  assumes ok: "heap_ok m h base (xs @ [Blk k True, Blk n True] @ ys) (f1 @ (D + k) # f2)"
    and D: "D = base + total xs"
  shows "heap_ok (join_mem m D k n) h base (xs @ [Blk (k + n) True] @ ys) (f1 @ f2)"
    and "\<And>x. x \<in> client_bytes h base (xs @ [Blk k True, Blk n True] @ ys) \<Longrightarrow> x < D \<or> D + (k + n) \<le> x \<Longrightarrow>
           join_mem m D k n x = m x"
proof -
  let ?mid = "[Blk k True, Blk n True]"
  let ?S = "heap_nodes h base (xs @ ?mid @ ys)"
  let ?W = "{D + 4..<D + 8} \<union> {D + (k + n) - 4..<D + (k + n)}"
  define v :: u32 where "v = ucast ((word_of_nat (k + n) :: u64) OR EXTRACT_FLAG (rd32 m (D + 4)))"
  define m1 where "m1 = wr32 m (D + 4) v"
  define m2 where "m2 = list_del m1 (nd (D + k))"
  define M where "M = join_mem m D k n"
  have eq: "M = wr32 m2 (D + (k + n) - 4) (ucast (word_of_nat (k + n) :: u64))"
    by (simp add: M_def join_mem_def Let_def m1_def m2_def v_def)
  note off = heap_ok_offs [OF ok D refl, simplified total.simps blk.sel add_0_right]
  have n: "32 \<le> n" "32 \<le> k" "8 dvd k + n" "k + n < 2 ^ 32"
    using ok by (auto simp: heap_ok_def hheap_append hheap_Cons blk_ok_def)
  note s1 = relinked_wr32 [OF off(6) off(2), of v, folded m1_def, simplified map_append list.map]
  note s2 = relinked_wr32 [OF relinked_del [OF s1, folded m2_def] off(5), of "ucast (word_of_nat (k + n) :: u64)", folded eq]
  have s2': "relinked ?S h m (map nd (f1 @ f2)) ?W M"
    using s2 n(1) by (simp add: add_ac)
  note rd = relinked_rd_del [OF s1, folded m2_def]
  have tot: "D + (k + n) = D + total ?mid" "total ?mid = k + n" "D + (k + n) = D + (k + n)"
    and W: "?W \<subseteq> {D + 4..<D + (k + n)} \<union> {D + (k + n) + 4..<D + (k + n) + 8}" "?W \<subseteq> {D..<D + (k + n)}"
    and sz: "\<forall>b\<in>set ?mid. 32 \<le> bsize b"
    using n by auto
  note around = heap_ok_around [OF ok D tot(1) refl refl refl sz s2' W(1)]
  have un: "unat (word_of_nat (k + n) :: u64) = k + n"
    using n(4) by (simp add: unat_of_nat_u64 del: of_nat_add)
  have "sf_ok v (k + n) True (after None xs \<noteq> None)"
    using sf_ok_repack [OF around(4), of "word_of_nat (k + n)"] n by (simp add: v_def un del: of_nat_add)
  then have sA: "sf_ok (rd32 M (D + 4)) (k + n) True (after None xs \<noteq> None)"
    using n off unfolding eq by (simp add: rd32_wr32_other rd) (simp add: m1_def)
  have sB: "sf_ok (rd32 M (D + (k + n) + 4)) (first_size ys) (first_free ys) True"
    using around(6) [OF W(2)] by (simp add: hdr_def free_size_def)
  have ft: "unat (EXTRACT_SIZE (rd32 M (D + (k + n) - 4))) = k + n"
    using footer_size [OF n(3,4)] unfolding eq by simp
  have "set (f1 @ (D + k) # f2) = set (free_addrs base ((xs @ [Blk k True]) @ Blk n True # ys))"
    and ds: "distinct (f1 @ (D + k) # f2)"
    using ok by (simp_all add: heap_ok_def)
  then have fs: "set (f1 @ f2) = set (free_addrs base (xs @ [Blk (k + n) True] @ ys))" "distinct (f1 @ f2)"
    using free_rest [OF ds, of base "xs @ [Blk k True]" n ys] heap_ok_geom [OF ok] D
    by (auto simp: geom_def add_ac)
  note up = heap_ok_single [OF ok D tot(3) refl tot(2) s2' W(1) sA sB ft fs(2,1)]
  show "heap_ok (join_mem m D k n) h base (xs @ [Blk (k + n) True] @ ys) (f1 @ f2)"
    "\<And>x. x \<in> client_bytes h base (xs @ ?mid @ ys) \<Longrightarrow> x < D \<or> D + (k + n) \<le> x \<Longrightarrow> join_mem m D k n x = m x"
    unfolding M_def [symmetric] by (rule up(1)) (rule up(2), simp_all)
qed

end
