(* ===== verification/Simple_MM_Correct.thy ===== *)
theory Simple_MM_Correct
  imports Heap_Updates
begin

unbundle bit_operations_syntax

text \<open>
  The operations of the allocator in theory \<^verbatim>\<open>Simple_MM\<close> do to a well-formed heap what their
  names promise: \<^verbatim>\<open>simple_malloc\<close> is first fit, \<^verbatim>\<open>simple_free\<close> coalesces, neither corrupts the
  structure or the data of other blocks, and the corner cases the code does not handle are shown
  as such.
\<close>

section \<open>The operations\<close>

lemma footer_ptr:
  "4 \<le> E \<Longrightarrow> E < 2 ^ 64 \<Longrightarrow> unat (of_nat E - SIZE_MEMBER_TYPE_SIZE :: u64) = E - 4"
  by (subst unat_sub_u64) (simp_all add: SIZE_MEMBER_TYPE_SIZE_def unat_of_nat_u64)

lemma heap_ok_bounds:
  assumes ok: "heap_ok m h base (xs @ mid @ ys) fs" and A: "A = base + total xs"
  shows "A + total mid + 24 \<le> 2 ^ 64" and "total mid < 2 ^ 32" and "0 < A"
  using assms by (auto simp: heap_ok_def)

lemma malloc_take_split:
  assumes ok: "heap_ok (kmem s) (free_mem_list_head s) base (xs @ [Blk n True] @ ys) fs"
    and A: "A = base + total xs" and a: "unat al = a" "8 dvd a" and r: "n = a + 24 + r" "32 < r"
  shows "\<exists>l. malloc_take s sz al (of_nat A)
           = (of_nat (A + 24), s\<lparr>kmem := split_mem (kmem s) (free_mem_list_head s) A a r, klog := l\<rparr>)"
proof -
  have bnd: "A + n + 24 \<le> 2 ^ 64" "n < 2 ^ 32"
    using heap_ok_bounds [OF ok A] by auto
  have sf: "EXTRACT_SIZE (rd32 (kmem s) (A + 4)) = of_nat n"
    using heap_ok_around(4) [OF ok A refl refl refl refl _ heap_ok_offs(6) [OF ok A refl]]
      heap_ok_geom [OF ok] by (auto simp: geom_def dest!: sf_ok_size)
  have al: "al = of_nat a"
    using a by auto
  have rem: "of_nat n - BLOCK_HEAD_SIZE - al = of_nat r" 
    by (simp add: al r BLOCK_HEAD_SIZE_def)
  have gt: "(of_nat r :: u64) > BLOCK_HEAD_SIZE + MIN_BLOCK_SIZE"
    using bnd r by (simp add: word_less_nat_alt mm_consts BLOCK_HEAD_SIZE_def unat_of_nat_u64)
  have B: "(of_nat A + BLOCK_HEAD_SIZE :: u64) = of_nat (A + 24)" "of_nat (A + 24) + al = of_nat (A + 24 + a)"
    by (simp_all add: al BLOCK_HEAD_SIZE_def)
  have F: "of_nat (A + 24 + a) + of_nat r - SIZE_MEMBER_TYPE_SIZE = (of_nat (A + 24 + a + r - 4) :: u64)"
    using r by (simp add: SIZE_MEMBER_TYPE_SIZE_def of_nat_diff)
  have uF: "unat (of_nat (20 + (A + (a + r))) :: u64) = 20 + (A + (a + r))"
    using bnd r by (intro unat_of_nat_u64) auto
  have msk: "(al + BLOCK_HEAD_SIZE) AND SIZE_MASK = word_of_nat (a + 24)"
  proof -
    have "al + BLOCK_HEAD_SIZE = word_of_nat (a + 24)"
      by (simp add: al BLOCK_HEAD_SIZE_def)
    moreover have "unat (word_of_nat (a + 24) :: u64) = a + 24"
      using bnd r by (intro unat_of_nat_u64) auto
    ultimately show ?thesis
      using a(2) by (simp add: and_SIZE_MASK_id del: of_nat_add)
  qed
  have le: "A + 24 \<le> 2 ^ 64" "A + 24 + a + 24 \<le> 2 ^ 64"
    using bnd r by auto
  show ?thesis
    using le
    by (auto simp: malloc_take_def Let_def sf rem gt B F uF msk split_mem_def printk_call_def
        simp del: of_nat_add)
qed

lemma heap_ok_next:
  assumes ok: "heap_ok m h base (xs @ mid @ ys) fs" and B: "B = base + total xs + total mid"
  shows "hdr m B (first_size ys) (first_free ys) (after None (xs @ mid) \<noteq> None)"
proof -
  have "hheap m (after None (xs @ mid)) B ys"
    using ok B by (auto simp: heap_ok_def hheap_append add.assoc)
  then show ?thesis
    by (rule hheap_first)
qed

lemma heap_ok_blk:
  assumes ok: "heap_ok m h base (xs @ Blk n f # ys) fs" and A: "A = base + total xs"
  shows "blk_ok m (after None xs) A (Blk n f)"
  using ok A by (simp add: heap_ok_def hheap_append hheap_Cons)

lemma malloc_take_whole:
  assumes ok: "heap_ok (kmem s) (free_mem_list_head s) base (xs @ [Blk n True] @ ys) (f1 @ A # f2)"
    and A: "A = base + total xs" and a: "unat al = a" and r: "n = a + 24 + r" "r \<le> 32"
  shows "\<exists>l. malloc_take s sz al (of_nat A) = (of_nat (A + 24), s\<lparr>kmem := whole_mem (kmem s) A n, klog := l\<rparr>)"
proof -
  have bnd: "A + n + 24 \<le> 2 ^ 64" "A + 24 \<le> 2 ^ 64" "n < 2 ^ 32"
    using heap_ok_bounds [OF ok A] by auto
  have sf: "EXTRACT_SIZE (rd32 (kmem s) (A + 4)) = of_nat n"
    using heap_ok_blk [OF ok [simplified append_Cons append_Nil] A] by (auto simp: blk_ok_def hdr_def sf_ok_size)
  have al: "al = of_nat a"
    using a by auto
  have rem: "of_nat n - BLOCK_HEAD_SIZE - al = of_nat r"
    by (simp add: al r BLOCK_HEAD_SIZE_def)
  have gt: "\<not> (of_nat r :: u64) > BLOCK_HEAD_SIZE + MIN_BLOCK_SIZE"
    using r by (simp add: word_less_nat_alt mm_consts BLOCK_HEAD_SIZE_def unat_of_nat_u64)
  have B: "(of_nat A + BLOCK_HEAD_SIZE :: u64) = of_nat (A + 24)" "(of_nat A + of_nat n :: u64) = of_nat (A + n)"
    by (simp_all add: BLOCK_HEAD_SIZE_def)
  have "rd32 (whole_mem (kmem s) A n) (A + n) = SIMPLE_MM_MAGIC"
    using heap_ok_next [OF whole_heap_ok(1) [OF ok A], of "A + n"] A by (simp add: hdr_def)
  then have mag: "rd32 (list_del (wr32 (kmem s) (A + 4) (CLR_MASK (rd32 (kmem s) (A + 4)) FLAG_FREE)) (nd A)) (A + n)
      = SIMPLE_MM_MAGIC"
    by (simp add: whole_mem_def Let_def rd32_wr32_other)
  show ?thesis
    using bnd
    by (auto simp: malloc_take_def Let_def sf rem gt B mag whole_mem_def printk_call_def simp del: of_nat_add)
qed

text \<open>The search walks the free list in order and stops at the first block that fits.\<close>

definition fits :: "kmm \<Rightarrow> size_t \<Rightarrow> nat \<Rightarrow> bool" where
  "fits s al A \<longleftrightarrow> IS_BLOCK_FREE (blk_size_flag (kmem s) (of_nat A))
     \<and> EXTRACT_SIZE (blk_size_flag (kmem s) (of_nat A)) \<ge> al + BLOCK_HEAD_SIZE"

lemma malloc_search_find:
  assumes "dseg (node_next (kmem s)) (node_prev (kmem s)) p (map nd fs) (free_mem_list_head s)"
    and "free_mem_list_head s \<notin> set (map nd fs)"
  shows "malloc_search s sz al (node_next (kmem s) p) =
     (case find (fits s al) fs of None \<Rightarrow> Some (NULL, s) | Some A \<Rightarrow> Some (malloc_take s sz al (of_nat A)))"
  using assms
proof (induction fs arbitrary: p)
  case Nil
  then show ?case by (simp add: malloc_search.simps)
next
  case (Cons A fs)
  then have "malloc_search s sz al (node_next (kmem s) (nd A)) =
      (case find (fits s al) fs of None \<Rightarrow> Some (NULL, s) | Some A \<Rightarrow> Some (malloc_take s sz al (of_nat A)))"
    by simp
  with Cons.prems show ?case
    by (auto simp: malloc_search.simps [of s sz al "nd A"] fits_def [of s al A])
qed

definition round8 :: "nat \<Rightarrow> nat" where
  "round8 n = (n + 7) div 8 * 8"

text \<open>The bytes of heap a request occupies: its payload rounded up, at least 8, and a header.\<close>

definition need :: "size_t \<Rightarrow> nat" where
  "need sz = max 8 (round8 (unat sz)) + 24"

lemma align_requested_size_unat:
  assumes "unat sz + 8 \<le> 2 ^ 64"
  shows "\<exists>al l. align_requested_size s sz = (al, s\<lparr>klog := l\<rparr>) \<and> unat al + 24 = need sz"
proof -
  have m: "MIN_BLOCK_SIZE = 8" "unat (8 :: u64) = 8"
    by (simp_all add: mm_consts)
  have up: "unat ((sz + 8 - 1) AND NOT (8 - 1)) = round8 (unat sz)"
    using unat_ALIGN_UP [of 3 sz] assms by (simp add: ALIGN_UP_def round8_def)
  consider "unat sz < 8" | "8 \<le> unat sz" "unat sz mod 8 \<noteq> 0" | "8 \<le> unat sz" "unat sz mod 8 = 0"
    by linarith
  then show ?thesis
  proof cases
    case 1
    then have "round8 (unat sz) \<le> 8"
      by (simp add: round8_def)
    with 1 show ?thesis
      by (auto simp: align_requested_size_def m word_less_nat_alt printk_call_def need_def max_def)
  next
    case 2
    then have "8 \<le> round8 (unat sz)"
      by (simp add: round8_def)
    moreover have "sz mod 8 \<noteq> 0"
      using 2 by (metis m(2) unat_0 unat_mod_distrib)
    ultimately show ?thesis
      using 2 up by (auto simp: align_requested_size_def m word_less_nat_alt printk_call_def need_def Let_def)
  next
    case 3
    then have "round8 (unat sz) = unat sz"
      by (simp add: round8_def) presburger
    moreover have "sz mod 8 = 0"
      using 3 by (metis m(2) unat_eq_zero unat_mod_distrib)
    ultimately show ?thesis
      using 3 by (auto simp: align_requested_size_def m word_less_nat_alt need_def intro!: exI [of _ "klog s"])
  qed
qed

subsection \<open>First fit\<close>

text \<open>The size of the block at an address of the heap, and what a block is cut into.\<close>

primrec size_at :: "nat \<Rightarrow> blk list \<Rightarrow> nat \<Rightarrow> nat" where
  "size_at A [] X = 0"
| "size_at A (b # bs) X = (if X = A then bsize b else size_at (A + bsize b) bs X)"

definition carve :: "nat \<Rightarrow> nat \<Rightarrow> blk list" where
  "carve n k = (if k + 32 < n then [Blk k False, Blk (n - k) True] else [Blk n False])"

definition carve_free :: "nat \<Rightarrow> nat \<Rightarrow> nat \<Rightarrow> nat list" where
  "carve_free A n k = (if k + 32 < n then [A + k] else [])"

lemma no_adjacent_append:
  "no_adjacent (xs @ b # ys) \<longleftrightarrow> no_adjacent (xs @ [b]) \<and> no_adjacent (b # ys)"
proof (induction xs)
  case Nil
  then show ?case by simp
next
  case (Cons a xs)
  then show ?case by (cases xs) auto
qed

lemma no_adjacent_used_last: "no_adjacent (xs @ [b]) \<Longrightarrow> no_adjacent (xs @ [Blk n False])"
proof (induction xs)
  case Nil
  then show ?case by simp
next
  case (Cons a xs)
  then show ?case by (cases xs) auto
qed

lemma no_adjacent_carve:
  assumes "no_adjacent (xs @ Blk n True # ys)"
  shows "no_adjacent (xs @ carve n k @ ys)"
proof -
  have pre: "no_adjacent (xs @ [Blk j False])" for j
    using assms no_adjacent_append [of xs "Blk n True" ys] no_adjacent_used_last by blast
  have "no_adjacent (Blk j f # ys)" for j f
    using assms no_adjacent_append [of xs "Blk n True" ys] by (cases ys) auto
  then have "no_adjacent (Blk n False # ys)" "no_adjacent (Blk k False # Blk (n - k) True # ys)"
    by auto
  then show ?thesis
    using pre no_adjacent_append [of xs "Blk n False" ys]
      no_adjacent_append [of xs "Blk k False" "Blk (n - k) True # ys"] by (simp add: carve_def)
qed

lemma size_at_split:
  assumes "\<forall>b\<in>set xs. 32 \<le> bsize b" and "A = base + total xs"
  shows "size_at base (xs @ Blk n f # ys) A = n"
  using assms by (induction xs arbitrary: base) (auto simp: add.assoc)

lemma fits_size_at:
  assumes ok: "heap_ok (kmem s) h base bs fs" and X: "X \<in> set fs" and al: "unat al + 24 < 2 ^ 64"
  shows "fits s al X \<longleftrightarrow> unat al + 24 \<le> size_at base bs X"
proof -
  have "X \<in> set (free_addrs base bs)"
    using ok X by (simp add: heap_ok_def)
  then obtain xs n ys where bs: "bs = xs @ Blk n True # ys" and XA: "X = base + total xs"
    using free_addrs_split by blast
  have sz: "\<forall>b\<in>set xs. 32 \<le> bsize b"
    using heap_ok_geom [OF ok] bs by (simp add: geom_def)
  have bnd: "X + 24 \<le> 2 ^ 64" "n < 2 ^ 64"
    using ok bs XA by (auto simp: heap_ok_def)
  have "sf_ok (rd32 (kmem s) (X + 4)) n True (after None xs \<noteq> None)"
    using heap_ok_blk [OF ok [unfolded bs] XA] by (simp add: blk_ok_def hdr_def)
  then show ?thesis
    using bnd al size_at_split [OF sz XA]
    by (auto simp: fits_def bs sf_ok_def BLOCK_HEAD_SIZE_def word_le_nat_alt unat_add_u64)
qed

lemma fits_klog [simp]: "fits (s\<lparr>klog := l\<rparr>) = fits s"
  by (simp add: fits_def fun_eq_iff)

lemma heap_inv_klog [simp]: "heap_inv (s\<lparr>klog := l\<rparr>) = heap_inv s"
  by (simp add: heap_inv_def fun_eq_iff)

lemma malloc_take_ok:
  assumes inv: "heap_inv s base (xs @ Blk n True # ys) (f1 @ A # f2)" and A: "A = base + total xs"
    and al: "unat al + 24 = k" "8 dvd unat al" "8 \<le> unat al" and fit: "k \<le> n"
  shows "\<exists>s'. malloc_take s sz al (of_nat A) = (of_nat (A + 24), s')
           \<and> free_mem_list_head s' = free_mem_list_head s
           \<and> heap_inv s' base (xs @ carve n k @ ys) (carve_free A n k @ f1 @ f2)
           \<and> (\<forall>x\<in>client_bytes (free_mem_list_head s) base (xs @ Blk n True # ys). kmem s' x = kmem s x)"
proof -
  let ?h = "free_mem_list_head s" and ?bs = "xs @ Blk n True # ys"
  have ok: "heap_ok (kmem s) ?h base (xs @ [Blk n True] @ ys) (f1 @ A # f2)" and na: "no_adjacent ?bs"
    using inv by (auto simp: heap_inv_def)
  have out: "x < A \<or> A + n \<le> x" if "x \<in> client_bytes ?h base ?bs" for x
    using that A user_bytes_range [of x base xs] user_bytes_range [of x "A + n" ys]
    by (auto simp: client_bytes_def add.assoc)
  show ?thesis
  proof (cases "k + 32 < n")
    case True
    then have r: "n = unat al + 24 + (n - k)" "32 < n - k" "32 \<le> n - k"
      using al by auto
    obtain l where "malloc_take s sz al (of_nat A)
        = (of_nat (A + 24), s\<lparr>kmem := split_mem (kmem s) ?h A (unat al) (n - k), klog := l\<rparr>)"
      using malloc_take_split [OF ok A refl al(2) r(1,2)] by blast
    then show ?thesis
      using split_heap_ok [OF ok A al(2,3) r(1,3)] out no_adjacent_carve [OF na, of k] True al(1) fit
      by (auto simp: heap_inv_def carve_def carve_free_def add_ac)
  next
    case False
    then have r: "n = unat al + 24 + (n - k)" "n - k \<le> 32"
      using al fit by auto
    obtain l where "malloc_take s sz al (of_nat A)
        = (of_nat (A + 24), s\<lparr>kmem := whole_mem (kmem s) A n, klog := l\<rparr>)"
      using malloc_take_whole [OF ok A refl r] by blast
    then show ?thesis
      using whole_heap_ok [OF ok A] out no_adjacent_carve [OF na, of k] False
      by (auto simp: heap_inv_def carve_def carve_free_def)
  qed
qed

lemma need_props: "unat sz + 24 \<le> need sz" "need sz \<le> unat sz + 32" "8 dvd need sz" "32 \<le> need sz"
proof -
  have r: "n \<le> round8 n" "round8 n \<le> n + 7" "8 dvd round8 n" for n
    by (simp_all add: round8_def)
  show "unat sz + 24 \<le> need sz" "need sz \<le> unat sz + 32" "8 dvd need sz" "32 \<le> need sz"
    using r [of "unat sz"] by (auto simp: need_def max_def)
qed

lemma simple_malloc_search:
  assumes inv: "heap_inv s base bs fs" and sz: "unat sz + 32 < 2 ^ 64"
  shows "\<exists>al l. unat al + 24 = need sz \<and> simple_malloc s sz =
     (case find (\<lambda>X. need sz \<le> size_at base bs X) fs of
        None \<Rightarrow> Some (NULL, s\<lparr>klog := l\<rparr>)
      | Some A \<Rightarrow> Some (malloc_take (s\<lparr>klog := l\<rparr>) sz al (of_nat A)))"
proof -
  let ?h = "free_mem_list_head s"
  have ok: "heap_ok (kmem s) ?h base bs fs"
    using inv by (simp add: heap_inv_def)
  obtain al l where al: "align_requested_size s sz = (al, s\<lparr>klog := l\<rparr>)" "unat al + 24 = need sz"
    using align_requested_size_unat [of sz s] sz by auto
  have "dseg (node_next (kmem s)) (node_prev (kmem s)) ?h (map nd fs) ?h" "?h \<notin> set (map nd fs)"
    using ok by (auto simp: heap_ok_def ring_def)
  then have "simple_malloc s sz = (case find (fits s al) fs of
        None \<Rightarrow> Some (NULL, s\<lparr>klog := l\<rparr>)
      | Some A \<Rightarrow> Some (malloc_take (s\<lparr>klog := l\<rparr>) sz al (of_nat A)))"
    using malloc_search_find [of "s\<lparr>klog := l\<rparr>" ?h fs sz al] by (simp add: simple_malloc_def al)
  moreover have "find (fits s al) fs = find (\<lambda>X. need sz \<le> size_at base bs X) fs"
    using fits_size_at [OF ok] al(2) need_props(2) [of sz] sz by (intro find_cong) auto
  ultimately show ?thesis
    using al(2) by auto
qed

lemma simple_malloc_none:
  assumes "heap_inv s base bs fs" and "unat sz + 32 < 2 ^ 64" and "\<forall>X\<in>set fs. size_at base bs X < need sz"
  shows "\<exists>l. simple_malloc s sz = Some (NULL, s\<lparr>klog := l\<rparr>)"
proof -
  have "find (\<lambda>X. need sz \<le> size_at base bs X) fs = None"
    using assms(3) by (auto simp: find_None_iff not_le)
  then show ?thesis
    using simple_malloc_search [OF assms(1,2)] by auto
qed

lemma simple_malloc_some:
  assumes inv: "heap_inv s base bs fs" and sz: "unat sz + 32 < 2 ^ 64"
    and fs: "fs = f1 @ A # f2" "\<forall>X\<in>set f1. size_at base bs X < need sz" "need sz \<le> size_at base bs A"
  shows "\<exists>s' xs n ys. simple_malloc s sz = Some (of_nat (A + 24), s')
     \<and> bs = xs @ Blk n True # ys \<and> A = base + total xs \<and> need sz \<le> n
     \<and> free_mem_list_head s' = free_mem_list_head s
     \<and> heap_inv s' base (xs @ carve n (need sz) @ ys) (carve_free A n (need sz) @ f1 @ f2)
     \<and> (\<forall>x\<in>client_bytes (free_mem_list_head s) base bs. kmem s' x = kmem s x)"
proof -
  have ok: "heap_ok (kmem s) (free_mem_list_head s) base bs fs"
    using inv by (simp add: heap_inv_def)
  then have "A \<in> set (free_addrs base bs)"
    using fs(1) by (auto simp: heap_ok_def)
  then obtain xs n ys where bs: "bs = xs @ Blk n True # ys" and A: "A = base + total xs"
    using free_addrs_split by blast
  have n: "need sz \<le> n"
    using fs(3) size_at_split [of xs A base n True ys] heap_ok_geom [OF ok] A bs by (simp add: geom_def)
  have "find (\<lambda>X. need sz \<le> size_at base bs X) f1 = None"
    using fs(2) by (auto simp: find_None_iff not_le)
  then have "find (\<lambda>X. need sz \<le> size_at base bs X) fs = Some A"
    unfolding fs(1) using fs(3) by (induction f1) (auto split: if_splits)
  then obtain al l where al: "unat al + 24 = need sz"
    and res: "simple_malloc s sz = Some (malloc_take (s\<lparr>klog := l\<rparr>) sz al (of_nat A))"
    using simple_malloc_search [OF inv sz] by auto
  have dv: "8 dvd unat al" "8 \<le> unat al"
    using al need_props(3,4) [of sz] by presburger+
  have "heap_inv (s\<lparr>klog := l\<rparr>) base (xs @ Blk n True # ys) (f1 @ A # f2)"
    using inv by (simp add: bs fs(1))
  from malloc_take_ok [OF this A al dv n, of sz] obtain s' where
    "malloc_take (s\<lparr>klog := l\<rparr>) sz al (of_nat A) = (of_nat (A + 24), s')"
    "free_mem_list_head s' = free_mem_list_head s"
    "heap_inv s' base (xs @ carve n (need sz) @ ys) (carve_free A n (need sz) @ f1 @ f2)"
    "\<forall>x\<in>client_bytes (free_mem_list_head s) base bs. kmem s' x = kmem s x"
    by (auto simp: bs)
  with res bs A n show ?thesis
    by (intro exI [of _ s'] exI [of _ xs] exI [of _ n] exI [of _ ys]) simp
qed

subsection \<open>Freeing coalesces\<close>

fun merge_next :: "nat \<Rightarrow> blk list \<Rightarrow> nat \<times> blk list" where
  "merge_next n (Blk k True # bs) = (n + k, bs)"
| "merge_next n bs = (n, bs)"

definition coalesce :: "blk list \<Rightarrow> nat \<Rightarrow> blk list \<Rightarrow> blk list" where
  "coalesce xs n ys =
     (let (n, ys) = merge_next n ys; (n, rxs) = merge_next n (rev xs) in rev rxs @ Blk n True # ys)"

lemma first_free_Cons: "first_free ys \<Longrightarrow> \<exists>k zs. ys = Blk k True # zs"
proof (cases ys)
  case (Cons b zs)
  moreover assume "first_free ys"
  ultimately show ?thesis
    by (cases b) (simp add: first_free_def)
qed (simp add: first_free_def)

lemma free_link_rd:
  assumes ok: "heap_ok m h base (xs @ [Blk n False] @ ys) fs" and A: "A = base + total xs"
  shows "rd32 (list_add (wr32 m (A + 4) v) (nd A) h) (A + 4) = v"
    and "rd32 (list_add (wr32 m (A + 4) v) (nd A) h) (A + n) = rd32 m (A + n)"
    and "rd32 (list_add (wr32 m (A + 4) v) (nd A) h) (A + n + 4) = rd32 m (A + n + 4)"
proof -
  note off = heap_ok_offs [OF ok A refl, simplified total.simps blk.sel add_0_right]
  have "nd A \<in> heap_nodes h base (xs @ [Blk n False] @ ys)"
    using A by (simp add: heap_nodes_def)
  note rd = relinked_rd_add [OF relinked_wr32 [OF off(6,2)] this]
  have "32 \<le> n"
    using heap_ok_geom [OF ok] by (simp add: geom_def)
  then show "rd32 (list_add (wr32 m (A + 4) v) (nd A) h) (A + 4) = v"
    "rd32 (list_add (wr32 m (A + 4) v) (nd A) h) (A + n) = rd32 m (A + n)"
    "rd32 (list_add (wr32 m (A + 4) v) (nd A) h) (A + n + 4) = rd32 m (A + n + 4)"
    using off by (simp_all add: rd rd32_wr32_other)
qed

text \<open>The first half of \<^verbatim>\<open>simple_free\<close>: the block joins the free list and swallows a free successor.\<close>

definition unused_mem :: "mem \<Rightarrow> ptr \<Rightarrow> nat \<Rightarrow> nat \<Rightarrow> blk list \<Rightarrow> mem" where
  "unused_mem m h A n ys =
     (if first_free ys then absorb_mem m h A n (first_size ys) else mark_mem m h A n)"

lemma simple_free_unused:
  assumes ok: "heap_ok (kmem s) (free_mem_list_head s) base (xs @ [Blk n False] @ ys) fs"
    and A: "A = base + total xs"
  shows "\<exists>l. simple_free s (of_nat (A + 24)) =
     (let m = unused_mem (kmem s) (free_mem_list_head s) A n ys; s' = s\<lparr>klog := l, kmem := m\<rparr>
      in if IS_PREV_BLOCK_FREE (rd32 m (A + 4)) then ensure_prev_block_coalescing s' (of_nat A) else Ret () s')"
proof -
  let ?m = "kmem s" and ?h = "free_mem_list_head s"
  define v :: u32 where "v = ucast (ucast (rd32 ?m (A + 4)) OR FLAG_FREE)"
  have bnd: "A + n + 24 \<le> 2 ^ 64" "A + 24 \<le> 2 ^ 64" "n < 2 ^ 32"
    using heap_ok_bounds [OF ok A] by auto
  have "A + 24 < 2 ^ 64" "32 \<le> n"
    using bnd heap_ok_geom [OF ok] by (auto simp: geom_def)
  then have nz: "(of_nat (A + 24) :: u64) \<noteq> 0"
    by (simp add: unat_of_nat_u64 flip: unat_gt_0 del: of_nat_add)
  have p: "of_nat (A + 24) - BLOCK_HEAD_SIZE = (of_nat A :: u64)"
    by (simp add: BLOCK_HEAD_SIZE_def)
  have blk: "rd32 ?m A = SIMPLE_MM_MAGIC" "sf_ok (rd32 ?m (A + 4)) n False (after None xs \<noteq> None)"
    using heap_ok_blk [OF ok [simplified append_Cons append_Nil] A] by (auto simp: blk_ok_def hdr_def)
  have used: "\<not> IS_BLOCK_FREE (rd32 ?m (A + 4))"
    using blk(2) by (simp add: sf_ok_def)
  have sz: "EXTRACT_SIZE v = of_nat n"
    using sf_ok_set_free [OF blk(2)] by (simp add: v_def sf_ok_size)
  have nxt: "rd32 ?m (A + n) = SIMPLE_MM_MAGIC" "sf_ok (rd32 ?m (A + n + 4)) (first_size ys) (first_free ys) False"
    using heap_ok_next [OF ok, of "A + n"] A by (simp_all add: hdr_def free_size_def)
  have u: "(ucast (ucast (of_nat n :: u64) :: u32) :: u64) = of_nat n"
    using bnd(3) by (intro ucast_u32_id) (simp add: unat_of_nat_u64)
  have B: "(of_nat A + of_nat n :: u64) = of_nat (A + n)"
    by simp
  have F: "unat (of_nat (A + n) - SIZE_MEMBER_TYPE_SIZE :: u64) = A + n - 4"
    using bnd \<open>32 \<le> n\<close> by (intro footer_ptr) auto
  note rd = free_link_rd [OF ok A]
  show ?thesis
  proof (cases "first_free ys")
    case False
    then have free: "\<not> IS_BLOCK_FREE (rd32 ?m (A + n + 4))"
      using nxt(2) by (simp add: sf_ok_def)
    show ?thesis
      using bnd(1,2) False
      by (auto simp: simple_free_def Let_def nz p blk(1) used printk_call_def unused_mem_def
          mark_mem_def rd nxt(1) free sz u B F v_def [symmetric] simp del: of_nat_add)
  next
    case True
    then obtain k zs where ys: "ys = Blk k True # zs"
      using first_free_Cons by blast
    then have free: "IS_BLOCK_FREE (rd32 ?m (A + n + 4))" and k: "EXTRACT_SIZE (rd32 ?m (A + n + 4)) = of_nat k"
      using nxt(2) sf_ok_size [OF nxt(2)] by (simp_all add: sf_ok_def first_free_def first_size_def)
    have B': "(of_nat n + of_nat k :: u64) = of_nat (n + k)" "(of_nat A + of_nat (n + k) :: u64) = of_nat (A + (n + k))"
      by simp_all
    have F': "unat (of_nat (A + (n + k)) - SIZE_MEMBER_TYPE_SIZE :: u64) = A + (n + k) - 4"
      using heap_ok_bounds(1) [OF ok [unfolded ys], of A] heap_ok_bounds [of ?m ?h base xs "[Blk n False, Blk k True]" zs fs A]
        ok ys A \<open>32 \<le> n\<close> by (intro footer_ptr) auto
    show ?thesis
      using bnd(1,2) True
      by (auto simp: simple_free_def Let_def nz p blk(1) used printk_call_def unused_mem_def first_size_def ys
          absorb_mem_def rd nxt(1) free k sz u B B' F' v_def [symmetric] simp del: of_nat_add)
  qed
qed

lemma ensure_prev_join:
  assumes ok: "heap_ok (kmem s) (free_mem_list_head s) base (xs @ [Blk k True, Blk n True] @ ys) fs"
    and D: "D = base + total xs"
  shows "ensure_prev_block_coalescing s (of_nat (D + k)) = Ret () (s\<lparr>kmem := join_mem (kmem s) D k n\<rparr>)"
proof -
  let ?m = "kmem s"
  have ok1: "heap_ok ?m (free_mem_list_head s) base (xs @ Blk k True # Blk n True # ys) fs"
    and ok2: "heap_ok ?m (free_mem_list_head s) base ((xs @ [Blk k True]) @ Blk n True # ys) fs"
    using ok by simp_all
  have bnd: "D + (k + n) + 24 \<le> 2 ^ 64" "D + 24 \<le> 2 ^ 64" "D + k + 24 \<le> 2 ^ 64"
    using heap_ok_bounds [OF ok D] by auto
  have D2: "D + k = base + total (xs @ [Blk k True])"
    using D by simp
  note p = heap_ok_blk [OF ok1 D] and b = heap_ok_blk [OF ok2 D2]
  have k: "32 \<le> k" "32 \<le> n" and mag: "rd32 ?m D = SIMPLE_MM_MAGIC" and free: "IS_BLOCK_FREE (rd32 ?m (D + 4))"
    and ek: "EXTRACT_SIZE (rd32 ?m (D + 4)) = of_nat k" and en: "EXTRACT_SIZE (rd32 ?m (D + k + 4)) = of_nat n"
    using p b by (auto simp: blk_ok_def hdr_def sf_ok_def)
  have "unat (EXTRACT_SIZE (rd32 ?m (D + k - 4))) = k"
    using b by (simp add: blk_ok_def foot_def free_size_def)
  from arg_cong [OF this, of "word_of_nat :: nat \<Rightarrow> u64"] have ft: "EXTRACT_SIZE (rd32 ?m (D + k - 4)) = of_nat k"
    by simp
  have F: "unat (of_nat (D + k) - SIZE_MEMBER_TYPE_SIZE :: u64) = D + k - 4"
    "unat (of_nat (D + (k + n)) - SIZE_MEMBER_TYPE_SIZE :: u64) = D + (k + n) - 4"
    using bnd k by (auto intro!: footer_ptr simp del: of_nat_add)
  have B: "(of_nat (D + k) - of_nat k :: u64) = of_nat D" "(of_nat k + of_nat n :: u64) = of_nat (k + n)"
    "(of_nat D + of_nat (k + n) :: u64) = of_nat (D + (k + n))"
    by simp_all
  show ?thesis
    using bnd by (simp add: ensure_prev_block_coalescing_def Let_def F B ft mag free ek en join_mem_def del: of_nat_add)
qed

lemma unused_heap_ok:
  assumes ok: "heap_ok m h base (xs @ Blk n False # ys) fs" and A: "A = base + total xs"
  shows "\<exists>fs'. heap_ok (unused_mem m h A n ys) h base (xs @ Blk (fst (merge_next n ys)) True # snd (merge_next n ys)) (A # fs')"
    and "\<And>x. x \<in> client_bytes h base (xs @ Blk n True # ys) \<Longrightarrow> unused_mem m h A n ys x = m x"
proof -
  have sub: "client_bytes h base (xs @ Blk n True # ys) \<subseteq> client_bytes h base (xs @ Blk n False # ys)"
    by (auto simp: client_bytes_def)
  have out: "x < A \<or> A + n \<le> x" if "x \<in> client_bytes h base (xs @ Blk n True # ys)" for x
    using that A user_bytes_range [of x base xs] user_bytes_range [of x "A + n" ys]
    by (auto simp: client_bytes_def add.assoc)
  show "\<exists>fs'. heap_ok (unused_mem m h A n ys) h base (xs @ Blk (fst (merge_next n ys)) True # snd (merge_next n ys)) (A # fs')"
    "\<And>x. x \<in> client_bytes h base (xs @ Blk n True # ys) \<Longrightarrow> unused_mem m h A n ys x = m x"
  proof (atomize (full), cases "first_free ys")
    case False
    then have "merge_next n ys = (n, ys)"
      by (cases "(n, ys)" rule: merge_next.cases) (auto simp: first_free_def)
    moreover have "heap_ok m h base (xs @ [Blk n False] @ ys) fs"
      using ok by simp
    note mark_heap_ok [OF this A]
    ultimately show "(\<exists>fs'. heap_ok (unused_mem m h A n ys) h base (xs @ Blk (fst (merge_next n ys)) True # snd (merge_next n ys)) (A # fs'))
      \<and> (\<forall>x. x \<in> client_bytes h base (xs @ Blk n True # ys) \<longrightarrow> unused_mem m h A n ys x = m x)"
      using False sub out by (auto simp: unused_mem_def)
  next
    case True
    then obtain k zs where ys: "ys = Blk k True # zs"
      using first_free_Cons by blast
    have "A + n \<in> set fs"
      using ok ys A by (auto simp: heap_ok_def)
    then obtain f1 f2 where "fs = f1 @ (A + n) # f2"
      using split_list by metis
    then have ok': "heap_ok m h base (xs @ [Blk n False, Blk k True] @ zs) (f1 @ (A + n) # f2)"
      using ok ys by simp
    have "x < A \<or> A + (n + k) \<le> x" if "x \<in> client_bytes h base (xs @ Blk n True # ys)" for x
      using that A ys user_bytes_range [of x base xs] user_bytes_range [of x "A + (n + k)" zs]
      by (auto simp: client_bytes_def add.assoc)
    then show "(\<exists>fs'. heap_ok (unused_mem m h A n ys) h base (xs @ Blk (fst (merge_next n ys)) True # snd (merge_next n ys)) (A # fs'))
      \<and> (\<forall>x. x \<in> client_bytes h base (xs @ Blk n True # ys) \<longrightarrow> unused_mem m h A n ys x = m x)"
      using absorb_heap_ok [OF ok' A] sub True ys by (auto simp: unused_mem_def first_size_def)
  qed
qed

lemma no_adjacent_rev: "no_adjacent (rev bs) = no_adjacent bs"
proof (induction bs rule: no_adjacent.induct)
  case (1 a b bs)
  have "no_adjacent (rev bs @ [b, a]) \<longleftrightarrow> no_adjacent (rev bs @ [b]) \<and> no_adjacent [b, a]"
    using no_adjacent_append [of "rev bs" b "[a]"] by simp
  with 1 show ?case by auto
qed auto

lemma merge_next_no_adjacent:
  assumes "no_adjacent (Blk n False # bs)"
  shows "no_adjacent (Blk (fst (merge_next n bs)) True # snd (merge_next n bs))"
  using assms by (cases "(n, bs)" rule: merge_next.cases; cases "snd (merge_next n bs)") auto

lemma no_adjacent_coalesce:
  assumes "no_adjacent (xs @ Blk n False # ys)"
  shows "no_adjacent (coalesce xs n ys)"
proof -
  obtain k zs where k: "merge_next n ys = (k, zs)"
    by fastforce
  obtain j ws where j: "merge_next k (rev xs) = (j, ws)"
    by fastforce
  have "no_adjacent (Blk k True # zs)"
    using merge_next_no_adjacent [of n ys] assms no_adjacent_append [of xs "Blk n False" ys] k by simp
  then have right: "no_adjacent (Blk j True # zs)"
    by (cases zs) auto
  have "no_adjacent (xs @ [Blk k False])"
    using assms no_adjacent_append [of xs "Blk n False" ys] no_adjacent_used_last by blast
  then have "no_adjacent (Blk k False # rev xs)"
    using no_adjacent_rev [of "xs @ [Blk k False]"] by simp
  then have "no_adjacent (rev (Blk j True # ws))"
    using merge_next_no_adjacent [of k "rev xs"] j no_adjacent_rev by fastforce
  then show ?thesis
    using right no_adjacent_append [of "rev ws" "Blk j True" zs] by (simp add: coalesce_def k j)
qed

lemma merge_next_bytes:
  "merge_next n ys = (k, zs) \<Longrightarrow> n + total ys = k + total zs \<and> user_bytes (A + n) ys = user_bytes (A + k) zs"
  by (cases "(n, ys)" rule: merge_next.cases) (auto simp: add.assoc)

lemma simple_free_ok:
  assumes inv: "heap_inv s base (xs @ Blk n False # ys) fs" and A: "A = base + total xs"
  shows "\<exists>s' fs'. simple_free s (of_nat (A + 24)) = Ret () s'
     \<and> free_mem_list_head s' = free_mem_list_head s
     \<and> heap_inv s' base (coalesce xs n ys) fs'
     \<and> (\<forall>x\<in>client_bytes (free_mem_list_head s) base (xs @ Blk n True # ys). kmem s' x = kmem s x)"
proof -
  let ?h = "free_mem_list_head s"
  obtain k zs where k: "merge_next n ys = (k, zs)"
    by fastforce
  have ok: "heap_ok (kmem s) ?h base (xs @ Blk n False # ys) fs" and na: "no_adjacent (coalesce xs n ys)"
    using inv no_adjacent_coalesce by (auto simp: heap_inv_def)
  define m where "m = unused_mem (kmem s) ?h A n ys"
  obtain fs1 where ok1: "heap_ok m ?h base (xs @ Blk k True # zs) (A # fs1)"
    and same: "\<And>x. x \<in> client_bytes ?h base (xs @ Blk n True # ys) \<Longrightarrow> m x = kmem s x"
    using unused_heap_ok [OF ok A] k by (auto simp: m_def)
  obtain l where res: "simple_free s (of_nat (A + 24)) =
      (if IS_PREV_BLOCK_FREE (rd32 m (A + 4)) then ensure_prev_block_coalescing (s\<lparr>klog := l, kmem := m\<rparr>) (of_nat A)
       else Ret () (s\<lparr>klog := l, kmem := m\<rparr>))"
    using simple_free_unused [OF _ A, of s n ys fs, folded m_def, unfolded Let_def] ok by auto
  have prev: "IS_PREV_BLOCK_FREE (rd32 m (A + 4)) \<longleftrightarrow> after None xs \<noteq> None"
    using heap_ok_blk [OF ok1 A] by (auto simp: blk_ok_def hdr_def sf_ok_def)
  show ?thesis
  proof (cases "after None xs = None")
    case True
    then have "merge_next k (rev xs) = (k, rev xs)"
      by (cases xs rule: rev_cases) (auto simp: free_size_def split: if_splits, metis blk.collapse merge_next.simps(3))
    then show ?thesis
      using ok1 na same True k by (auto simp: res prev heap_inv_def coalesce_def simp del: of_nat_add)
  next
    case False
    then obtain us j where xs: "xs = us @ [Blk j True]"
      by (cases xs rule: rev_cases) (auto simp: free_size_def split: if_splits, metis blk.collapse)
    define D where "D = base + total us"
    have AD: "A = D + j"
      using A xs by (simp add: D_def)
    have ok2: "heap_ok m ?h base (us @ [Blk j True, Blk k True] @ zs) ([] @ (D + j) # fs1)"
      using ok1 xs AD by simp
    have "coalesce xs n ys = us @ Blk (j + k) True # zs"
      by (simp add: coalesce_def k xs add.commute)
    moreover have "simple_free s (of_nat (A + 24)) = Ret () (s\<lparr>klog := l, kmem := join_mem m D j k\<rparr>)"
    proof -
      have "ensure_prev_block_coalescing (s\<lparr>klog := l, kmem := m\<rparr>) (of_nat A)
          = Ret () (s\<lparr>klog := l, kmem := join_mem m D j k\<rparr>)"
        using ensure_prev_join [of "s\<lparr>klog := l, kmem := m\<rparr>", OF _ D_def] ok2 unfolding AD by simp
      with False show ?thesis
        unfolding res prev by simp
    qed
    moreover have "join_mem m D j k x = m x" if "x \<in> client_bytes ?h base (xs @ Blk n True # ys)" for x
    proof (rule join_heap_ok(2) [OF ok2 D_def])
      note mu = merge_next_bytes [OF k, of A]
      show "x \<in> client_bytes ?h base (us @ [Blk j True, Blk k True] @ zs)"
        using that mu xs A by (auto simp: client_bytes_def add_ac)
      then have "x \<in> user_bytes base us \<or> x \<in> user_bytes (A + k) zs \<or> x < base \<or> D + (j + k) + total zs + 24 \<le> x"
        using AD D_def by (auto simp: client_bytes_def add_ac)
      then show "x < D \<or> D + (j + k) \<le> x"
        using user_bytes_range [of x base us] user_bytes_range [of x "A + k" zs] AD D_def by linarith
    qed
    ultimately show ?thesis
      using join_heap_ok [OF ok2 D_def] na same by (auto simp: heap_inv_def)
  qed
qed

subsection \<open>Initialisation\<close>

lemma sf_ok_first:
  assumes "unat (w :: u64) < 2 ^ 32" and "8 dvd unat w"
  shows "sf_ok (ucast (ucast (ucast (ucast (ucast (w OR FLAG_FREE) :: u32) AND NOT (FLAG_PREV_FREE OR FLAG_POISONED)) :: u32)
           OR FLAG_POISONED)) (unat w) True False" (is "sf_ok ?v _ _ _")
proof -
  have "EXTRACT_SIZE ?v = w"
    by (intro bit_eqI) (auto simp: bit_EXTRACT_SIZE bit_simps dest: size_bits [OF assms])
  then show ?thesis
    by (auto simp: sf_ok_def IS_FREE_bit bit_simps)
qed

lemma sf_ok_end: "sf_ok (ucast (0 OR FLAG_PREV_FREE)) 0 False True"
proof -
  have "EXTRACT_SIZE (ucast (0 OR FLAG_PREV_FREE)) = 0"
    by (intro bit_eqI) (auto simp: bit_EXTRACT_SIZE bit_simps)
  then show ?thesis
    by (auto simp: sf_ok_def IS_FREE_bit bit_simps)
qed

lemma relinked_init:
  assumes "node_set S" and "h \<in> S"
  shows "relinked S h m [] {} (list_init m h)"
proof -
  have "unat h + 16 \<le> 2 ^ 64"
    using assms by (auto simp: node_set_def)
  moreover have "x < unat h \<or> unat h + 16 \<le> x" if "x \<notin> node_bytes S" for x
    using that assms(2) by (force simp: node_bytes_def)
  ultimately show ?thesis
    using assms by (auto simp: relinked_def ring_list_init list_init_off)
qed

lemma fresh_heap_ok:
  assumes g: "geom h A [Blk n True]" and pos: "0 < A" "n < 2 ^ 32" "8 dvd n"
    and m: "rd32 m A = SIMPLE_MM_MAGIC" "sf_ok (rd32 m (A + 4)) n True False"
      "rd32 m (A + n) = SIMPLE_MM_MAGIC" "sf_ok (rd32 m (A + n + 4)) 0 False True"
  shows "heap_ok (list_add (list_init m h) (nd A) h) h A [Blk n True] [A]"
proof -
  let ?S = "heap_nodes h A [Blk n True]"
  have S: "h \<in> ?S" "nd A \<in> ?S" "nd A \<notin> set [h]"
    using geom_nd_fresh [OF g, of A "[]"] by (auto simp: heap_nodes_def)
  note s1 = relinked_init [OF geom_node_set [OF g] S(1), of m]
  note s2 = relinked_add [OF s1 S(2,3)]
  have "rd32 (list_add (list_init m h) (nd A) h) c = rd32 m c" if "c \<in> {A, A + 4, A + n, A + n + 4}" for c
    using relinked_rd [OF s2, of c] geom_header_off [OF g, of A] geom_header_off [OF g, of "A + n"] that by auto
  then have "hheap (list_add (list_init m h) (nd A) h) None A [Blk n True]"
    using m g pos by (auto simp: hheap_def blk_ok_def hdr_def foot_def geom_def free_size_def)
  then show ?thesis
    using g pos s2 by (auto simp: heap_ok_def geom_def relinked_def)
qed

lemma unat_round_down: "unat (if sz mod MIN_BLOCK_SIZE \<noteq> 0 then sz AND SIZE_MASK else sz) = unat sz div 8 * 8"
proof -
  have "unat (sz AND SIZE_MASK) = unat sz div 8 * 8"
    using unat_and_not_mask [of sz 3] by (simp add: mm_consts)
  moreover have "unat sz div 8 * 8 = unat sz" if "sz mod MIN_BLOCK_SIZE = 0"
  proof -
    have "unat (sz mod 8) = 0"
      using that by (simp add: mm_consts)
    then show ?thesis
      by (simp add: unat_mod_distrib dvd_div_mult_self mod_eq_0_iff_dvd)
  qed
  ultimately show ?thesis
    by simp
qed

lemma simple_mm_dump_ring:
  "ring (kmem s) (free_mem_list_head s) ns \<Longrightarrow> \<exists>l. simple_mm_dump s = Some (s\<lparr>klog := l\<rparr>)"
proof -
  assume "ring (kmem s) (free_mem_list_head s) ns"
  then have "list_for_each (kmem s) (free_mem_list_head s) (node_next (kmem s) (free_mem_list_head s)) = Some ns"
    by (rule list_for_each_ring)
  moreover have "\<exists>l. foldl (\<lambda>s n. print_mm_blk s (block_of_node n)) (s\<lparr>klog := l0\<rparr>) ns = s\<lparr>klog := l\<rparr>" for l0
    by (induction ns arbitrary: l0) (auto simp: print_mm_blk_def printk_call_def)
  ultimately show ?thesis
    by (simp add: simple_mm_dump_def Let_def printk_call_def)
qed

lemma simple_init_ok:
  assumes A: "base \<noteq> NULL" "unat base = A" and sz: "56 \<le> unat sz" "unat sz < 2 ^ 32" "A + unat sz \<le> 2 ^ 64"
    and h: "unat (free_mem_list_head s) + 16 \<le> 2 ^ 64"
      "unat (free_mem_list_head s) + 16 \<le> A \<or> A + unat sz \<le> unat (free_mem_list_head s)"
  shows "\<exists>s'. simple_init s base sz = Some (True, s') \<and> free_mem_list_head s' = free_mem_list_head s
     \<and> heap_inv s' A [Blk (unat sz div 8 * 8 - 24) True] [A]"
proof -
  let ?h = "free_mem_list_head s"
  define w where "w = (if sz mod MIN_BLOCK_SIZE \<noteq> 0 then sz AND SIZE_MASK else sz) - BLOCK_HEAD_SIZE"
  define n where "n = unat sz div 8 * 8 - 24"
  have r: "unat sz div 8 * 8 \<le> unat sz" "56 \<le> unat sz div 8 * 8"
    using sz(1) by (simp, presburger)
  have n: "32 \<le> n" "n + 24 \<le> unat sz" "n < 2 ^ 32" "8 dvd n" "A + n + 24 \<le> 2 ^ 64"
    using r sz by (auto simp: n_def)
  have "unat w = n"
    unfolding w_def n_def by (subst unat_sub_u64) (use r in \<open>simp_all only: unat_round_down, simp_all add: BLOCK_HEAD_SIZE_def\<close>)
  then have w: "w = of_nat n" "unat w = n"
    by auto
  have base: "base = of_nat A"
    using A by auto
  have g: "geom ?h A [Blk n True]"
    using n sz h by (auto simp: geom_def)
  define v :: u32 where "v = ucast (ucast (ucast (w OR FLAG_FREE) :: u32) AND NOT (FLAG_PREV_FREE OR FLAG_POISONED))"
  define m1 where "m1 = wr32 (wr32 (kmem s) A SIMPLE_MM_MAGIC) (A + 4) v"
  define m2 where "m2 = memset m1 (base + BLOCK_HEAD_SIZE) (ucast SIMPLE_MM_POISON) (w - BLOCK_HEAD_SIZE)"
  define m3 where "m3 = wr32 (wr32 (wr32 m2 (A + 4) (ucast (ucast (rd32 m2 (A + 4)) OR FLAG_POISONED)))
    (A + n) SIMPLE_MM_MAGIC) (A + n + 4) (ucast (0 OR FLAG_PREV_FREE))"
  have "unat (w - BLOCK_HEAD_SIZE) = n - 24" "unat (base + BLOCK_HEAD_SIZE) = A + 24"
    using n w A by (simp_all add: BLOCK_HEAD_SIZE_def unat_sub_u64 unat_add_u64)
  then have "m2 x = m1 x" if "x < A + 24" for x
    using that n by (simp add: m2_def memset_apply)
  then have "rd32 m2 A = rd32 m1 A" "rd32 m2 (A + 4) = rd32 m1 (A + 4)"
    by (auto intro!: rd32_cong)
  then have "rd32 m3 A = SIMPLE_MM_MAGIC" "rd32 m3 (A + 4) = ucast (ucast v OR FLAG_POISONED)"
    "rd32 m3 (A + n) = SIMPLE_MM_MAGIC" "rd32 m3 (A + n + 4) = ucast (0 OR FLAG_PREV_FREE)"
    using n by (simp_all add: m3_def m1_def rd32_wr32_other)
  moreover have "0 < A"
    using A by (auto simp: unat_gt_0)
  ultimately have ok: "heap_ok (list_add (list_init m3 ?h) (nd A) ?h) ?h A [Blk n True] [A]"
    using sf_ok_first [of w] sf_ok_end n w by (intro fresh_heap_ok [OF g]) (auto simp: v_def)
  then have r3: "ring (list_add (list_init m3 ?h) (nd A) ?h) ?h (map nd [A])"
    by (simp only: heap_ok_def)
  have E: "base + w = of_nat (A + n)" "A + 24 \<le> 2 ^ 64"
    using n by (simp_all add: base w)
  note flds = blk_fields [OF E(2), folded base] mm_node_of_nat(1) [of A, folded base]
  have big: "\<not> sz < BLOCK_HEAD_SIZE"
    using sz(1) by (simp add: word_less_nat_alt BLOCK_HEAD_SIZE_def)
  define s1 where "s1 l = s\<lparr>klog := l, kmem := list_add (list_init m3 ?h) (nd A) ?h\<rparr>" for l
  have "\<exists>l. simple_init s base sz = do { s \<leftarrow> simple_mm_dump (s1 l); Some (True, s) }"
  proof (cases "sz mod MIN_BLOCK_SIZE \<noteq> 0")
    case True
    then have w': "(sz AND SIZE_MASK) - BLOCK_HEAD_SIZE = w" "(sz AND SIZE_MASK) - 2 * BLOCK_HEAD_SIZE = w - BLOCK_HEAD_SIZE"
      by (simp_all add: w_def)
    show ?thesis
      using True big A(1) n(5) unfolding simple_init_def s1_def m3_def m2_def m1_def v_def
      by (auto simp: Let_def printk_call_def w' E flds list_add_def simp del: of_nat_add cong: if_cong)
  next
    case False
    then have w': "sz - BLOCK_HEAD_SIZE = w" "sz - 2 * BLOCK_HEAD_SIZE = w - BLOCK_HEAD_SIZE"
      by (simp_all add: w_def)
    show ?thesis
      using False big A(1) n(5) unfolding simple_init_def s1_def m3_def m2_def m1_def v_def
      by (auto simp: Let_def printk_call_def w' E flds list_add_def simp del: of_nat_add cong: if_cong)
  qed
  then obtain l where "simple_init s base sz = do { s \<leftarrow> simple_mm_dump (s1 l); Some (True, s) }"
    by blast
  moreover obtain l' where "simple_mm_dump (s1 l) = Some ((s1 l)\<lparr>klog := l'\<rparr>)"
    using simple_mm_dump_ring [of "s1 l"] r3 by (auto simp: s1_def)
  ultimately show ?thesis
    using ok by (auto simp: s1_def heap_inv_def n_def)
qed

end
