(* ===== verification/Kmalloc_Contract.thy ===== *)
theory Kmalloc_Contract
  imports Simple_MM_Correct
begin

text \<open>
  The contract of the kernel allocation interface (\<^verbatim>\<open>mm/kmalloc.c\<close>) as a locale: what a client
  that only calls \<^verbatim>\<open>kmalloc\<close> and \<^verbatim>\<open>kfree\<close> may rely on, a client that issues any sequence of
  requests, and the interpretation on the simple allocator.
\<close>

section \<open>The contract\<close>

text \<open>A live block is the address and the length of its payload. A request sequence allocates, or
  frees the \<open>i\<close>-th block still held.\<close>

type_synonym region = "nat \<times> nat"

definition keeps :: "region set \<Rightarrow> mem \<Rightarrow> mem \<Rightarrow> bool" where
  "keeps L m m' \<longleftrightarrow> (\<forall>(a, l)\<in>L. \<forall>x. a \<le> x \<longrightarrow> x < a + l \<longrightarrow> m' x = m x)"

definition apart :: "region \<Rightarrow> region \<Rightarrow> bool" where
  "apart r q \<longleftrightarrow> fst r + snd r \<le> fst q \<or> fst q + snd q \<le> fst r"

datatype req = Alloc size_t | Free nat

fun serve :: "('s \<Rightarrow> size_t \<Rightarrow> (ptr \<times> 's) option) \<Rightarrow> ('s \<Rightarrow> ptr \<Rightarrow> ('s, unit) outcome) \<Rightarrow>
    req list \<Rightarrow> ptr list \<Rightarrow> 's \<Rightarrow> ('s, ptr list) outcome option" where
  "serve alloc release [] ps s = Some (Ret ps s)"
| "serve alloc release (Alloc n # rs) ps s =
     do { (p, s) \<leftarrow> alloc s n; serve alloc release rs (if p = NULL then ps else p # ps) s }"
| "serve alloc release (Free i # rs) ps s =
     (if i < length ps then
        case release s (ps ! i) of
          Ret _ s \<Rightarrow> serve alloc release rs (take i ps @ drop (Suc i) ps) s
        | Panic s \<Rightarrow> Some (Panic s)
      else serve alloc release rs ps s)"

definition modest :: "req list \<Rightarrow> bool" where
  "modest rs \<longleftrightarrow> list_all (\<lambda>r. case r of Alloc n \<Rightarrow> unat n + 32 < 2 ^ 64 | Free _ \<Rightarrow> True) rs"

locale allocator =
  fixes heap :: "'s \<Rightarrow> region set \<Rightarrow> bool"
    and alloc :: "'s \<Rightarrow> size_t \<Rightarrow> (ptr \<times> 's) option"
    and release :: "'s \<Rightarrow> ptr \<Rightarrow> ('s, unit) outcome"
    and bytes :: "'s \<Rightarrow> mem"
  assumes alloc_contract: "heap s L \<Longrightarrow> unat n + 32 < 2 ^ 64 \<Longrightarrow> \<exists>p s'. alloc s n = Some (p, s')
      \<and> (if p = NULL then heap s' L \<and> bytes s' = bytes s
         else \<exists>k. unat n \<le> k \<and> heap s' (insert (unat p, k) L) \<and> (\<forall>r\<in>L. apart (unat p, k) r)
            \<and> keeps L (bytes s) (bytes s'))"
    and release_contract: "heap s L \<Longrightarrow> (unat p, k) \<in> L \<Longrightarrow> \<exists>s'. release s p = Ret () s'
      \<and> heap s' (L - {(unat p, k)}) \<and> keeps (L - {(unat p, k)}) (bytes s) (bytes s')"
    and live_wide: "heap s L \<Longrightarrow> (a, k) \<in> L \<Longrightarrow> 8 \<le> k"
    and live_apart: "heap s L \<Longrightarrow> r \<in> L \<Longrightarrow> q \<in> L \<Longrightarrow> r \<noteq> q \<Longrightarrow> apart r q"
begin

text \<open>The pointers a client holds, against the live blocks.\<close>

lemma held_unique: "heap s L \<Longrightarrow> (a, k) \<in> L \<Longrightarrow> (a, j) \<in> L \<Longrightarrow> k = j"
  using live_apart [of s L "(a, k)" "(a, j)"] live_wide [of s L a k] live_wide [of s L a j]
  by (auto simp: apart_def)

lemma alloc_step:
  assumes "heap s L" and "fst ` L = unat ` set ps" and "distinct ps" and "unat n + 32 < 2 ^ 64"
    and "alloc s n = Some (p, s')"
  shows "\<exists>L'. heap s' L' \<and> fst ` L' = unat ` set (if p = NULL then ps else p # ps)
    \<and> distinct (if p = NULL then ps else p # ps)"
proof (cases "p = NULL")
  case True
  then show ?thesis
    using alloc_contract [OF assms(1,4)] assms by auto
next
  case False
  then obtain k where k: "heap s' (insert (unat p, k) L)" "\<forall>r\<in>L. apart (unat p, k) r"
    using alloc_contract [OF assms(1,4)] assms(5) by auto
  have "p \<notin> set ps"
  proof
    assume "p \<in> set ps"
    then obtain j where "(unat p, j) \<in> L"
      using assms(2) by force
    then show False
      using k(2) live_wide [OF k(1), of "unat p"] by (fastforce simp: apart_def)
  qed
  with False k assms(2,3) show ?thesis
    by (intro exI [of _ "insert (unat p, k) L"]) auto
qed

lemma release_step:
  assumes "heap s L" and "fst ` L = unat ` set ps" and "distinct ps" and "i < length ps"
  shows "\<exists>s' k. release s (ps ! i) = Ret () s' \<and> (unat (ps ! i), k) \<in> L \<and> heap s' (L - {(unat (ps ! i), k)})
    \<and> fst ` (L - {(unat (ps ! i), k)}) = unat ` set (take i ps @ drop (Suc i) ps)"
proof -
  have "ps ! i \<in> set ps"
    using assms(4) by simp
  then obtain k where k: "(unat (ps ! i), k) \<in> L"
    using assms(2) by force
  have ps: "ps = take i ps @ ps ! i # drop (Suc i) ps"
    using assms(4) by (rule id_take_nth_drop)
  have "set (take i ps @ drop (Suc i) ps) = set ps - {ps ! i}"
    using assms(3) by (subst (3) ps, subst (asm) ps) auto
  moreover have "fst ` (L - {(unat (ps ! i), k)}) = fst ` L - {unat (ps ! i)}"
    using held_unique [OF assms(1) k] by force
  ultimately have "fst ` (L - {(unat (ps ! i), k)}) = unat ` set (take i ps @ drop (Suc i) ps)"
    using assms(2) by (auto simp: image_iff word_unat_eq_iff)
  then show ?thesis
    using release_contract [OF assms(1) k] k by blast
qed

text \<open>Any request sequence is served to its end: no loop, no panic, and the blocks held at the end
  are exactly the live ones.\<close>

lemma serve_total:
  assumes "heap s L" and "fst ` L = unat ` set ps" and "distinct ps" and "modest rs"
  shows "\<exists>ps' s' L'. serve alloc release rs ps s = Some (Ret ps' s') \<and> heap s' L'
    \<and> fst ` L' = unat ` set ps' \<and> distinct ps'"
  using assms
proof (induction rs arbitrary: s L ps)
  case Nil
  then show ?case by auto
next
  case (Cons r rs)
  show ?case
  proof (cases r)
    case (Alloc n)
    with Cons.prems have n: "unat n + 32 < 2 ^ 64" and rs: "modest rs"
      by (auto simp: modest_def)
    obtain p s1 where p: "alloc s n = Some (p, s1)"
      using alloc_contract [OF Cons.prems(1) n] by blast
    then obtain L1 where "heap s1 L1" "fst ` L1 = unat ` set (if p = NULL then ps else p # ps)"
      "distinct (if p = NULL then ps else p # ps)" 
      using alloc_step [OF Cons.prems(1-3) n] by blast
    from Cons.IH [OF this(1-3) rs] obtain ps' s' L' where
      "serve alloc release rs (if p = NULL then ps else p # ps) s1 = Some (Ret ps' s')" "heap s' L'"
      "fst ` L' = unat ` set ps'" "distinct ps'"
      by blast
    with p Alloc show ?thesis
      by auto
  next
    case (Free i)
    then have rs: "modest rs"
      using Cons.prems(4) by (simp add: modest_def)
    show ?thesis
    proof (cases "i < length ps")
      case True
      obtain s1 k where s1: "release s (ps ! i) = Ret () s1" "heap s1 (L - {(unat (ps ! i), k)})"
        "fst ` (L - {(unat (ps ! i), k)}) = unat ` set (take i ps @ drop (Suc i) ps)"
        using release_step [OF Cons.prems(1-3) True] by blast
      have "distinct (take i ps @ drop (Suc i) ps)"
        using Cons.prems(3) by (simp add: set_take_disj_set_drop_if_distinct)
      from Cons.IH [OF s1(2,3) this rs] s1(1) Free True show ?thesis
        by simp
    next
      case False
      with Cons.IH [OF Cons.prems(1-3) rs] Free show ?thesis
        by simp
    qed
  qed
qed

end

section \<open>The simple allocator meets the contract\<close>

primrec live :: "nat \<Rightarrow> blk list \<Rightarrow> region set" where
  "live A [] = {}"
| "live A (b # bs) = (if bfree b then {} else {(A + 24, bsize b - 24)}) \<union> live (A + bsize b) bs"

definition kheap :: "kmm \<Rightarrow> region set \<Rightarrow> bool" where
  "kheap s L \<longleftrightarrow> (\<exists>base bs fs. heap_inv s base bs fs \<and> L = live base bs)"

lemma live_append [simp]: "live A (xs @ ys) = live A xs \<union> live (A + total xs) ys"
  by (induction xs arbitrary: A) (auto simp: add.assoc)

lemma live_split:
  assumes "(a, k) \<in> live A bs"
  shows "\<exists>xs n ys. bs = xs @ Blk n False # ys \<and> a = A + total xs + 24 \<and> k = n - 24"
  using assms
proof (induction bs arbitrary: A)
  case Nil
  then show ?case by simp
next
  case (Cons b bs)
  show ?case
  proof (cases "\<not> bfree b \<and> (a, k) = (A + 24, bsize b - 24)")
    case True
    then show ?thesis
      by (intro exI [of _ "[]"] exI [of _ "bsize b"] exI [of _ bs]) (cases b, auto)
  next
    case False
    with Cons.prems have "(a, k) \<in> live (A + bsize b) bs"
      by (auto split: if_splits)
    then obtain xs n ys where "bs = xs @ Blk n False # ys" "a = A + bsize b + total xs + 24" "k = n - 24"
      using Cons.IH by blast
    then show ?thesis
      by (intro exI [of _ "b # xs"] exI [of _ n] exI [of _ ys]) auto
  qed
qed

lemma live_range:
  assumes "\<forall>b\<in>set bs. 32 \<le> bsize b" and "(a, k) \<in> live A bs"
  shows "A + 24 \<le> a \<and> a + k \<le> A + total bs \<and> 8 \<le> k"
  using live_split [OF assms(2)] assms(1) by auto

lemma live_user_bytes:
  assumes "\<forall>b\<in>set bs. 32 \<le> bsize b" and "(a, k) \<in> live A bs" and "a \<le> x" and "x < a + k"
  shows "x \<in> user_bytes A bs"
  using live_split [OF assms(2)] assms by auto

lemma live_apart_blocks:
  assumes "\<forall>b\<in>set bs. 32 \<le> bsize b" and "r \<in> live A bs" and "q \<in> live A bs" and "r \<noteq> q"
  shows "apart r q"
  using assms
proof (induction bs arbitrary: A)
  case Nil
  then show ?case by simp
next
  case (Cons b bs)
  then have "32 \<le> bsize b" "\<forall>b\<in>set bs. 32 \<le> bsize b"
    by auto
  with Cons show ?case
    using live_range [of bs "fst r" "snd r" "A + bsize b"] live_range [of bs "fst q" "snd q" "A + bsize b"]
    by (fastforce simp: apart_def split: if_splits)
qed

lemma heap_inv_sizes: "heap_inv s base bs fs \<Longrightarrow> \<forall>b\<in>set bs. 32 \<le> bsize b"
  using heap_ok_geom by (auto simp: heap_inv_def geom_def)

lemma client_keeps:
  assumes "\<forall>x\<in>client_bytes h base bs. m' x = m x" and "\<forall>b\<in>set bs. 32 \<le> bsize b"
  shows "keeps (live base bs) m m'"
  using assms(1) live_user_bytes [OF assms(2)] by (fastforce simp: keeps_def client_bytes_def)

lemma live_carve:
  assumes "k \<le> n"
  shows "live A (carve n k) = {(A + 24, (if k + 32 < n then k else n) - 24)}" and "total (carve n k) = n"
  using assms by (auto simp: carve_def)

lemma kmalloc_contract:
  assumes "kheap s L" and sz: "unat n + 32 < 2 ^ 64"
  shows "\<exists>p s'. kmalloc s n = Some (p, s')
      \<and> (if p = NULL then kheap s' L \<and> kmem s' = kmem s
         else \<exists>k. unat n \<le> k \<and> kheap s' (insert (unat p, k) L) \<and> (\<forall>r\<in>L. apart (unat p, k) r)
            \<and> keeps L (kmem s) (kmem s'))"
proof -
  obtain base bs fs where inv: "heap_inv s base bs fs" and L: "L = live base bs"
    using assms(1) by (auto simp: kheap_def)
  note szs = heap_inv_sizes [OF inv]
  show ?thesis
  proof (cases "\<exists>X\<in>set fs. need n \<le> size_at base bs X")
    case False
    then obtain l where "simple_malloc s n = Some (NULL, s\<lparr>klog := l\<rparr>)"
      using simple_malloc_none [OF inv sz] by (auto simp: not_le)
    then show ?thesis
      using inv L by (auto simp: kmalloc_def kheap_def)
  next
    case True
    then obtain f1 A f2 where fs: "fs = f1 @ A # f2" "need n \<le> size_at base bs A"
      "\<forall>X\<in>set f1. size_at base bs X < need n"
      using split_list_first_prop [of fs "\<lambda>X. need n \<le> size_at base bs X"] by (auto simp: not_le)
    obtain s' xs b ys where s': "simple_malloc s n = Some (of_nat (A + 24), s')"
      and bs: "bs = xs @ Blk b True # ys" and A: "A = base + total xs" and b: "need n \<le> b"
      and inv': "heap_inv s' base (xs @ carve b (need n) @ ys) (carve_free A b (need n) @ f1 @ f2)"
      and same: "\<forall>x\<in>client_bytes (free_mem_list_head s) base bs. kmem s' x = kmem s x"
      using simple_malloc_some [OF inv sz fs(1,3,2)] by blast
    define k where "k = (if need n + 32 < b then need n else b) - 24"
    have "A + 24 < 2 ^ 64"
      using inv bs A b need_props(4) [of n] by (auto simp: heap_inv_def heap_ok_def)
    then have p: "unat (of_nat (A + 24) :: u64) = A + 24"
      by (rule unat_of_nat_u64)
    then have nn: "(of_nat (A + 24) :: u64) \<noteq> NULL"
      by (metis add_is_0 unat_0 zero_neq_numeral)
    have "live base (xs @ carve b (need n) @ ys) = insert (A + 24, k) L"
      using live_carve(1) [OF b, of A] live_carve(2) [OF b] A L bs by (auto simp: k_def add.assoc)
    then have "kheap s' (insert (unat (of_nat (A + 24) :: u64), k) L)"
      unfolding kheap_def p using inv' by metis
    moreover have "\<forall>r\<in>L. apart (A + 24, k) r"
      using live_range [of xs _ _ base] live_range [of ys _ _ "A + b"] szs A L bs b
      by (fastforce simp: apart_def k_def add.assoc)
    moreover have "unat n \<le> k"
      using need_props(1) [of n] b by (auto simp: k_def)
    ultimately show ?thesis
      using s' nn p client_keeps [OF same szs] L by (auto simp: kmalloc_def simp del: of_nat_add)
  qed
qed

lemma live_merge_next: "merge_next n ys = (k, zs) \<Longrightarrow> live (A + n) ys = live (A + k) zs"
  by (cases "(n, ys)" rule: merge_next.cases) (auto simp: add.assoc)

lemma live_coalesce:
  assumes "\<forall>b\<in>set (xs @ Blk n False # ys). 32 \<le> bsize b" and A: "A = base + total xs"
  shows "live base (coalesce xs n ys) = live base (xs @ Blk n False # ys) - {(A + 24, n - 24)}"
proof -
  obtain k zs where k: "merge_next n ys = (k, zs)"
    by fastforce
  obtain j ws where j: "merge_next k (rev xs) = (j, ws)"
    by fastforce
  have "rev xs = ws \<and> j = k \<or> (\<exists>i. rev xs = Blk i True # ws \<and> j = k + i)"
    using j by (cases "(k, rev xs)" rule: merge_next.cases) auto
  then have "xs = rev ws \<and> j = k \<or> (\<exists>i. xs = rev ws @ [Blk i True] \<and> j = k + i)"
    by (metis rev_swap rev.simps(2))
  then have "live base (coalesce xs n ys) = live base xs \<union> live (A + k) zs"
    using A by (auto simp: coalesce_def k j add_ac)
  also have "\<dots> = live base xs \<union> live (A + n) ys"
    using live_merge_next [OF k] by simp
  also have "\<dots> = live base (xs @ Blk n False # ys) - {(A + 24, n - 24)}"
    using A assms(1) live_range [of xs "A + 24" "n - 24" base] live_range [of ys "A + 24" "n - 24" "A + n"]
    by (auto simp: add.assoc)
  finally show ?thesis .
qed

lemma kfree_contract:
  assumes "kheap s L" and "(unat p, k) \<in> L"
  shows "\<exists>s'. kfree s p = Ret () s' \<and> kheap s' (L - {(unat p, k)})
      \<and> keeps (L - {(unat p, k)}) (kmem s) (kmem s')"
proof -
  obtain base bs fs where inv: "heap_inv s base bs fs" and L: "L = live base bs"
    using assms(1) by (auto simp: kheap_def)
  note szs = heap_inv_sizes [OF inv]
  obtain xs n ys where bs: "bs = xs @ Blk n False # ys" and p: "unat p = base + total xs + 24" and k: "k = n - 24"
    using live_split assms(2) L by blast
  define A where "A = base + total xs"
  obtain s' fs' where s': "simple_free s (of_nat (A + 24)) = Ret () s'" "heap_inv s' base (coalesce xs n ys) fs'"
    and same: "\<forall>x\<in>client_bytes (free_mem_list_head s) base (xs @ Blk n True # ys). kmem s' x = kmem s x"
    using simple_free_ok [OF inv [unfolded bs] A_def] by blast
  have pA: "p = of_nat (A + 24)"
    using p by (metis A_def of_nat_unat ucast_id)
  have rest: "live base (coalesce xs n ys) = L - {(unat p, k)}"
    using live_coalesce [of xs n ys A base] szs by (simp add: bs L k p A_def)
  moreover have "live base (xs @ Blk n True # ys) = L - {(unat p, k)}"
    using szs live_range [of xs "A + 24" k base] live_range [of ys "A + 24" k "A + n"]
    by (auto simp: bs L k p A_def add.assoc)
  ultimately show ?thesis
    using s' client_keeps [OF same] szs by (auto simp: kfree_def pA kheap_def bs simp del: of_nat_add)
qed

interpretation simple_heap: allocator kheap kmalloc kfree kmem
proof
  show "8 \<le> k" if "kheap s L" "(a, k) \<in> L" for s L a k
    using that heap_inv_sizes live_range by (metis kheap_def)
  show "apart r q" if "kheap s L" "r \<in> L" "q \<in> L" "r \<noteq> q" for s L r q
    using that heap_inv_sizes live_apart_blocks by (metis kheap_def)
qed (fact kmalloc_contract, fact kfree_contract)

end
