(* ===== verification/Simple_MM_Props.thy ===== *)
theory Simple_MM_Props
  imports Kmalloc_Contract
begin

unbundle bit_operations_syntax

text \<open>
  The properties of the allocator, stated on the operations of theory \<^verbatim>\<open>Simple_MM\<close>, each with a
  witness on the heap that \<^verbatim>\<open>simple_init\<close> builds in a page of zeroed memory.
\<close>

section \<open>A concrete heap\<close>

definition boot_mm :: kmm where
  "boot_mm = snd (the (simple_init \<lparr>kmem = (\<lambda>_. 0), free_mem_list_head = 0x1000, klog = []\<rparr> 0x10000 0x1000))"

lemma boot_inv: "heap_inv boot_mm 0x10000 [Blk 0xFE8 True] [0x10000]"
proof -
  have "\<exists>s'. simple_init \<lparr>kmem = (\<lambda>_. 0), free_mem_list_head = 0x1000, klog = []\<rparr> 0x10000 0x1000 = Some (True, s')
      \<and> free_mem_list_head s' = 0x1000 \<and> heap_inv s' 0x10000 [Blk 0xFE8 True] [0x10000]"
    using simple_init_ok [of "0x10000" "0x10000" "0x1000" "\<lparr>kmem = (\<lambda>_. 0), free_mem_list_head = 0x1000, klog = []\<rparr>"]
    by simp
  then show ?thesis
    by (auto simp: boot_mm_def)
qed

lemma boot_used:
  "\<exists>s'. simple_malloc boot_mm 100 = Some (0x10018, s') \<and> heap_inv s' 0x10000 [Blk 128 False, Blk 3944 True] [0x10080]"
proof -
  have "need 100 = 128"
    by (simp add: need_def round8_def)
  then show ?thesis
    using simple_malloc_some [OF boot_inv, of 100 "[]" "0x10000" "[]"]
    by (auto simp: carve_def carve_free_def Cons_eq_append_conv)
qed

section \<open>Free memory\<close>

definition free_total :: "blk list \<Rightarrow> nat" where
  "free_total bs = sum_list (map bsize (filter bfree bs))"

lemma sum_size_at:
  assumes "\<forall>b\<in>set bs. 32 \<le> bsize b"
  shows "sum_list (map (size_at A bs) (free_addrs A bs)) = free_total bs"
  using assms
proof (induction bs arbitrary: A)
  case Nil
  then show ?case by (simp add: free_total_def)
next
  case (Cons b bs)
  have "X \<noteq> A" if "X \<in> set (free_addrs (A + bsize b) bs)" for X
    using that Cons.prems addrs_range [of bs X "A + bsize b"] free_addrs_sub [of "A + bsize b" bs] by fastforce
  then have "map (size_at A (b # bs)) (free_addrs (A + bsize b) bs)
      = map (size_at (A + bsize b) bs) (free_addrs (A + bsize b) bs)" (is "?l = ?r")
    by auto
  then have "sum_list ?l = sum_list ?r"
    by (rule arg_cong)
  moreover have "sum_list (map (size_at (A + bsize b) bs) (free_addrs (A + bsize b) bs)) = free_total bs"
    using Cons by simp
  ultimately show ?case
    by (simp add: free_total_def del: size_at.simps) simp
qed

lemma size_at_free:
  assumes ok: "heap_ok m h base bs fs" and X: "X \<in> set fs"
  shows "EXTRACT_SIZE (blk_size_flag m (of_nat X)) = of_nat (size_at base bs X)"
proof -
  have "X \<in> set (free_addrs base bs)"
    using ok X by (simp add: heap_ok_def)
  then obtain xs n ys where bs: "bs = xs @ Blk n True # ys" and XA: "X = base + total xs"
    using free_addrs_split by blast
  have "\<forall>b\<in>set xs. 32 \<le> bsize b" "X + 24 \<le> 2 ^ 64"
    using heap_ok_geom [OF ok] bs XA by (auto simp: geom_def)
  moreover have "EXTRACT_SIZE (rd32 m (X + 4)) = of_nat n"
    using heap_ok_blk [OF ok [unfolded bs] XA] by (auto simp: blk_ok_def hdr_def dest: sf_ok_size)
  ultimately show ?thesis
    using size_at_split [of xs X base n True ys] XA bs by (simp del: of_nat_add)
qed

lemma free_memory_fold:
  assumes "\<forall>X\<in>set fs. EXTRACT_SIZE (blk_size_flag (kmem s) (of_nat X)) = of_nat (f X)"
  shows "\<exists>l. foldl (\<lambda>(free_memory, s) n.
        (free_memory + EXTRACT_SIZE (blk_size_flag (kmem s) (block_of_node n)), print_mm_blk s (block_of_node n)))
      (acc, s) (map nd fs) = (acc + of_nat (sum_list (map f fs)), s\<lparr>klog := l\<rparr>)"
  using assms
proof (induction fs arbitrary: acc s)
  case Nil
  then show ?case by (auto intro!: exI [of _ "klog s"])
next
  case (Cons X fs)
  then show ?case
    using Cons.IH [of "print_mm_blk s (of_nat X)" "acc + of_nat (f X)"]
    by (auto simp: print_mm_blk_def printk_call_def add.assoc)
qed

text \<open>The free-memory count of the allocator is the sum of the sizes of the free blocks of the
  heap, whatever the order of the free list; the count changes nothing but the log.\<close>

theorem get_free_memory_sum:
  assumes inv: "heap_inv s base bs fs"
  shows "\<exists>l. simple_mm_get_free_memory s = Some (of_nat (free_total bs), s\<lparr>klog := l\<rparr>)"
proof -
  have ok: "heap_ok (kmem s) (free_mem_list_head s) base bs fs"
    using inv by (simp add: heap_inv_def)
  note szs = heap_inv_sizes [OF inv]
  have ring: "ring (kmem s) (free_mem_list_head s) (map nd fs)" and d: "distinct fs"
    and set: "set fs = set (free_addrs base bs)"
    using ok by (simp_all add: heap_ok_def)
  have "sum_list (map (size_at base bs) fs) = sum_list (map (size_at base bs) (free_addrs base bs))"
    using d distinct_free_addrs [OF szs, of base] set by (simp add: sum_list_distinct_conv_sum_set)
  then have "sum_list (map (size_at base bs) fs) = free_total bs"
    using sum_size_at [OF szs] by simp
  then show ?thesis
    using free_memory_fold [of fs s "size_at base bs" 0] size_at_free [OF ok] list_for_each_ring [OF ring]
    by (auto simp: simple_mm_get_free_memory_def Let_def)
qed

theorem get_free_memory_sum_witness:
  "\<exists>l. simple_mm_get_free_memory boot_mm = Some (0xFE8, boot_mm\<lparr>klog := l\<rparr>)"
  using get_free_memory_sum [OF boot_inv] by (simp add: free_total_def)
section \<open>Initialisation, allocation, release\<close>

text \<open>C33: on a region of at least 56 bytes and less than 4 GiB that does not overlap the list head,
  \<^verbatim>\<open>simple_init\<close> succeeds and leaves a well-formed heap of one free block that covers the region
  rounded down to a multiple of 8, less the end marker.\<close>

theorem simple_init_establishes:
  assumes "base \<noteq> NULL" and "unat base = A" and "56 \<le> unat sz" and "unat sz < 2 ^ 32" and "A + unat sz \<le> 2 ^ 64"
    and "unat (free_mem_list_head s) + 16 \<le> 2 ^ 64"
    and "unat (free_mem_list_head s) + 16 \<le> A \<or> A + unat sz \<le> unat (free_mem_list_head s)"
  shows "\<exists>s'. simple_init s base sz = Some (True, s') \<and> heap_inv s' A [Blk (unat sz div 8 * 8 - 24) True] [A]"
  using simple_init_ok [OF assms] by blast

theorem simple_init_establishes_witness:
  "\<exists>s'. simple_init \<lparr>kmem = (\<lambda>_. 0), free_mem_list_head = 0x1000, klog = []\<rparr> 0x10000 0x1003 = Some (True, s')
     \<and> heap_inv s' 0x10000 [Blk 0xFE8 True] [0x10000]"
  using simple_init_establishes [of "0x10000" "0x10000" "0x1003"
      "\<lparr>kmem = (\<lambda>_. 0), free_mem_list_head = 0x1000, klog = []\<rparr>"] by simp

text \<open>C1: \<^verbatim>\<open>simple_malloc\<close> is first fit. If no free block has the room the request needs (its size
  rounded up to a multiple of 8 and a header) the result is \<^verbatim>\<open>NULL\<close> and memory is unchanged;
  otherwise the first block of the free list that has it is handed out, split when more than 32
  bytes remain, the heap stays well formed, and no byte of another client changes.\<close>

theorem simple_malloc_first_fit:
  assumes inv: "heap_inv s base bs fs" and sz: "unat sz + 32 < 2 ^ 64"
  shows "(\<forall>X\<in>set fs. size_at base bs X < need sz) \<and> (\<exists>l. simple_malloc s sz = Some (NULL, s\<lparr>klog := l\<rparr>))
    \<or> (\<exists>s' f1 A f2 xs n ys. fs = f1 @ A # f2 \<and> (\<forall>X\<in>set f1. size_at base bs X < need sz)
        \<and> bs = xs @ Blk n True # ys \<and> A = base + total xs \<and> need sz \<le> n
        \<and> simple_malloc s sz = Some (of_nat (A + 24), s')
        \<and> heap_inv s' base (xs @ carve n (need sz) @ ys) (carve_free A n (need sz) @ f1 @ f2)
        \<and> (\<forall>x\<in>client_bytes (free_mem_list_head s) base bs. kmem s' x = kmem s x))"
proof (cases "\<exists>X\<in>set fs. need sz \<le> size_at base bs X")
  case False
  then show ?thesis
    using simple_malloc_none [OF assms] by (auto simp: not_le)
next
  case True
  then obtain f1 A f2 where fs: "fs = f1 @ A # f2" "\<forall>X\<in>set f1. size_at base bs X < need sz"
    "need sz \<le> size_at base bs A"
    using split_list_first_prop [of fs "\<lambda>X. need sz \<le> size_at base bs X"] by (auto simp: not_le)
  then show ?thesis
    using simple_malloc_some [OF inv sz fs] by blast
qed

theorem simple_malloc_first_fit_witness:
  "\<exists>s'. simple_malloc boot_mm 100 = Some (of_nat (0x10000 + 24), s')
     \<and> heap_inv s' 0x10000 [Blk 128 False, Blk 3944 True] [0x10080]"
proof -
  have n: "need 100 = 128"
    by (simp add: need_def round8_def)
  show ?thesis
    using simple_malloc_first_fit [OF boot_inv, of 100]
    by (auto simp: n Cons_eq_append_conv carve_def carve_free_def)
qed

text \<open>C2: \<^verbatim>\<open>simple_free\<close> of the payload pointer of a used block returns (no panic), turns the block
  free and merges it with a free successor and a free predecessor, so that no two neighbouring
  blocks are free; no byte of another client changes.\<close>

theorem simple_free_coalesces:
  assumes "heap_inv s base (xs @ Blk n False # ys) fs" and "A = base + total xs"
  shows "\<exists>s' fs'. simple_free s (of_nat (A + 24)) = Ret () s' \<and> heap_inv s' base (coalesce xs n ys) fs'
     \<and> (\<forall>x\<in>client_bytes (free_mem_list_head s) base (xs @ Blk n True # ys). kmem s' x = kmem s x)"
  using simple_free_ok [OF assms] by blast

theorem simple_free_coalesces_witness:
  "\<exists>s s' fs'. simple_malloc boot_mm 100 = Some (0x10018, s) \<and> simple_free s (of_nat (0x10000 + 24)) = Ret () s'
     \<and> heap_inv s' 0x10000 [Blk 0xFE8 True] fs'"
proof -
  obtain s where s: "simple_malloc boot_mm 100 = Some (0x10018, s)"
    and inv: "heap_inv s 0x10000 ([] @ Blk 128 False # [Blk 3944 True]) [0x10080]"
    using boot_used by auto
  have c: "coalesce [] 128 [Blk 3944 True] = [Blk 0xFE8 True]"
    by (simp add: coalesce_def)
  have "\<exists>s' fs'. simple_free s (of_nat (0x10000 + 24)) = Ret () s' \<and> heap_inv s' 0x10000 [Blk 0xFE8 True] fs'"
    using simple_free_coalesces [OF inv, of "0x10000"] unfolding c by auto
  with s show ?thesis
    by blast
qed

text \<open>A double free is caught. Freeing the payload pointer of a block that is already free
  panics, and so does freeing \<^verbatim>\<open>NULL\<close>; memory is unchanged in both cases.\<close>

theorem simple_free_panics:
  assumes inv: "heap_inv s base (xs @ Blk n True # ys) fs" and A: "A = base + total xs"
  shows "(\<exists>l. simple_free s (of_nat (A + 24)) = Panic (s\<lparr>klog := l\<rparr>)) \<and> (\<exists>l. simple_free s NULL = Panic (s\<lparr>klog := l\<rparr>))"
proof -
  have ok: "heap_ok (kmem s) (free_mem_list_head s) base (xs @ Blk n True # ys) fs"
    using inv by (simp add: heap_inv_def)
  have "A + 24 < 2 ^ 64" "A + 24 \<le> 2 ^ 64"
    using ok A heap_inv_sizes [OF inv] by (auto simp: heap_ok_def)
  then have nz: "(of_nat (A + 24) :: u64) \<noteq> 0"
    by (simp add: unat_of_nat_u64 flip: unat_gt_0 del: of_nat_add)
  have p: "of_nat (A + 24) - BLOCK_HEAD_SIZE = (of_nat A :: u64)"
    by (simp add: BLOCK_HEAD_SIZE_def)
  have "rd32 (kmem s) A = SIMPLE_MM_MAGIC" "IS_BLOCK_FREE (rd32 (kmem s) (A + 4))"
    using heap_ok_blk [OF ok A] by (auto simp: blk_ok_def hdr_def sf_ok_def)
  then have "\<exists>l. simple_free s (of_nat (A + 24)) = Panic (s\<lparr>klog := l\<rparr>)"
    using \<open>A + 24 \<le> 2 ^ 64\<close> nz p by (auto simp: simple_free_def Let_def printk_call_def simp del: of_nat_add)
  moreover have "\<exists>l. simple_free s NULL = Panic (s\<lparr>klog := l\<rparr>)"
    by (auto simp: simple_free_def Let_def printk_call_def assert_fail_def)
  ultimately show ?thesis
    by blast
qed

theorem simple_free_panics_witness:
  "(\<exists>l. simple_free boot_mm (of_nat (0x10000 + 24)) = Panic (boot_mm\<lparr>klog := l\<rparr>))
     \<and> (\<exists>l. simple_free boot_mm NULL = Panic (boot_mm\<lparr>klog := l\<rparr>))"
  using simple_free_panics [of boot_mm "0x10000" "[]" "0xFE8" "[]" "[0x10000]" "0x10000"] boot_inv by simp

section \<open>Clients\<close>

text \<open>C17: from a heap with no used block, any sequence of \<^verbatim>\<open>kmalloc\<close> and \<^verbatim>\<open>kfree\<close> calls that frees
  only blocks it holds is served to its end: no call loops or panics, the heap stays well formed,
  and the payload addresses of its used blocks are exactly the pointers still held, without
  duplicates.\<close>

theorem kmalloc_requests_served:
  assumes "heap_inv s base bs fs" and "\<forall>b\<in>set bs. bfree b" and "modest rs"
  shows "\<exists>ps s' base' bs' fs'. serve kmalloc kfree rs [] s = Some (Ret ps s') \<and> heap_inv s' base' bs' fs'
     \<and> fst ` live base' bs' = unat ` set ps \<and> distinct ps"
proof -
  have "live base bs = {}"
    using assms(2) by (induction bs arbitrary: base) auto
  then have "kheap s {}"
    using assms(1) by (auto simp: kheap_def)
  then obtain ps s' L' where "serve kmalloc kfree rs [] s = Some (Ret ps s')" "kheap s' L'"
    "fst ` L' = unat ` set ps" "distinct ps"
    using simple_heap.serve_total [of s "{}" "[]" rs] assms(3) by auto
  moreover from this(2) obtain base' bs' fs' where "heap_inv s' base' bs' fs'" "L' = live base' bs'"
    unfolding kheap_def by blast
  ultimately show ?thesis
    by (intro exI [of _ ps] exI [of _ s'] exI [of _ base'] exI [of _ bs'] exI [of _ fs']) simp
qed

theorem kmalloc_requests_served_witness:
  "\<exists>ps s' base' bs' fs'. serve kmalloc kfree [Alloc 100, Alloc 8000, Alloc 16, Free 1, Alloc 50, Free 0] [] boot_mm
       = Some (Ret ps s') \<and> heap_inv s' base' bs' fs' \<and> fst ` live base' bs' = unat ` set ps \<and> distinct ps"
  by (rule kmalloc_requests_served [OF boot_inv]) (simp_all add: modest_def)

text \<open>The heap structure does not depend on the bytes of used payloads.\<close>

lemma smeta_not_user:
  assumes "\<forall>b\<in>set bs. 32 \<le> bsize b" and "x \<in> smeta p A bs"
  shows "x \<notin> user_bytes A bs"
  using assms
proof (induction bs arbitrary: p A)
  case Nil
  then show ?case by simp
next
  case (Cons b bs)
  have szs: "32 \<le> bsize b" "\<forall>b\<in>set bs. 32 \<le> bsize b"
    using Cons.prems(1) by auto
  from Cons.prems(2) consider "x < A + 8" | "x \<in> smeta (free_size b) (A + bsize b) bs"
    by (auto split: if_splits)
  then show ?case
  proof cases
    case 1
    then show ?thesis
      using user_bytes_range [of x A "b # bs"] by auto
  next
    case 2
    then show ?thesis
      using Cons.IH [OF szs(2) 2] smeta_range [OF szs(2) 2] by (auto simp: free_size_def split: if_splits)
  qed
qed

lemma heap_inv_payload:
  assumes inv: "heap_inv s base bs fs" and same: "\<And>x. x \<notin> user_bytes base bs \<Longrightarrow> m x = kmem s x"
  shows "heap_inv (s\<lparr>kmem := m\<rparr>) base bs fs"
proof -
  let ?h = "free_mem_list_head s"
  have ok: "heap_ok (kmem s) ?h base bs fs"
    using inv by (simp add: heap_inv_def)
  note szs = heap_inv_sizes [OF inv] and g = heap_ok_geom [OF ok]
  have "x \<notin> user_bytes base bs" if "x \<in> hmeta None base bs" for x
    using that smeta_not_user [OF szs, of x None base] user_bytes_range [of x base bs] by (auto simp: hmeta_def)
  then have "hheap m None base bs"
    using ok same hheap_cong [of None base bs m "kmem s"] by (auto simp: heap_ok_def)
  moreover have "ring m ?h (map nd fs)"
  proof (rule ring_off)
    show "ring (kmem s) ?h (map nd fs)"
      using ok by (simp add: heap_ok_def)
    have "set fs \<subseteq> set (addrs base bs)"
      using ok free_addrs_sub [of base bs] by (auto simp: heap_ok_def)
    then show "insert ?h (set (map nd fs)) \<subseteq> heap_nodes ?h base bs"
      by (auto simp: heap_nodes_def)
    show "m x = kmem s x" if "x \<in> node_bytes (heap_nodes ?h base bs)" for x
      using that client_bytes_off [OF g, of x] by (intro same) (auto simp: client_bytes_def)
  qed
  ultimately show ?thesis
    using inv by (auto simp: heap_inv_def heap_ok_def)
qed

lemma calloc_overflow_test: "num \<noteq> 0 \<and> sz > (- 1) div num \<longleftrightarrow> 2 ^ 64 \<le> unat num * unat sz" for num sz :: u64
proof (cases "num = 0")
  case False
  then have pos: "0 < unat num"
    by (simp add: unat_gt_0)
  have "unat (- 1 :: u64) = 2 ^ 64 - 1"
    by (simp add: unsigned_minus_1_eq_mask mask_eq_exp_minus_1)
  then have "sz > (- 1) div num \<longleftrightarrow> (2 ^ 64 - 1) div unat num < unat sz"
    by (simp add: word_less_nat_alt unat_div_distrib)
  also have "\<dots> \<longleftrightarrow> 2 ^ 64 - 1 < unat sz * unat num"
    using pos by (rule div_less_iff_less_mult)
  finally show ?thesis
    using False by (auto simp: mult.commute)
qed simp

lemma kcalloc_contract:
  assumes heap: "kheap s L" and small: "unat num * unat sz + 32 < 2 ^ 64"
  shows "\<exists>p s'. kcalloc s num sz = Some (p, s')
        \<and> (if p = NULL then kheap s' L \<and> kmem s' = kmem s
           else \<exists>k. unat num * unat sz \<le> k \<and> kheap s' (insert (unat p, k) L) \<and> (\<forall>r\<in>L. apart (unat p, k) r)
              \<and> (\<forall>x. unat p \<le> x \<longrightarrow> x < unat p + unat num * unat sz \<longrightarrow> kmem s' x = 0)
              \<and> keeps L (kmem s) (kmem s'))"
proof -
  from small have t: "unat (num * sz) = unat num * unat sz"
    by (simp add: unat_word_ariths)
  have nov: "\<not> (num \<noteq> 0 \<and> sz > (- 1) div num)"
    using small by (subst calloc_overflow_test) simp
  obtain p s1 where p: "kmalloc s (num * sz) = Some (p, s1)"
    and c: "if p = NULL then kheap s1 L \<and> kmem s1 = kmem s
         else \<exists>k. unat (num * sz) \<le> k \<and> kheap s1 (insert (unat p, k) L) \<and> (\<forall>r\<in>L. apart (unat p, k) r)
            \<and> keeps L (kmem s) (kmem s1)"
    using kmalloc_contract [OF heap, of "num * sz"] small t by auto
  have res: "kcalloc s num sz = Some (p, if p \<noteq> NULL then s1\<lparr>kmem := memset (kmem s1) p 0 (num * sz)\<rparr> else s1)"
    using p nov by (auto simp: kcalloc_def simple_calloc_def kmalloc_def Let_def)
  show ?thesis
  proof (cases "p = NULL")
    case True
    then show ?thesis
      using res c by auto
  next
    case False
    define m where "m = memset (kmem s1) p 0 (num * sz)"
    from False c obtain k where k: "unat num * unat sz \<le> k" "kheap s1 (insert (unat p, k) L)"
      "\<forall>r\<in>L. apart (unat p, k) r" "keeps L (kmem s) (kmem s1)"
      by (auto simp: t)
    then obtain base bs fs where inv: "heap_inv s1 base bs fs" and L: "insert (unat p, k) L = live base bs"
      by (auto simp: kheap_def)
    have pk: "(unat p, k) \<in> live base bs"
      using L by blast
    have "unat p + k \<le> 2 ^ 64"
      using live_range [OF heap_inv_sizes [OF inv] pk] inv by (simp add: heap_inv_def heap_ok_def)
    then have m: "m x = (if unat p \<le> x \<and> x < unat p + unat num * unat sz then 0 else kmem s1 x)" for x
      using k(1) by (simp add: m_def memset_apply t)
    have "m x = kmem s1 x" if "x \<notin> user_bytes base bs" for x
      using m [of x] that live_user_bytes [OF heap_inv_sizes [OF inv] pk, of x] k(1) by auto
    then have "heap_inv (s1\<lparr>kmem := m\<rparr>) base bs fs"
      by (rule heap_inv_payload [OF inv])
    then have "kheap (s1\<lparr>kmem := m\<rparr>) (insert (unat p, k) L)"
      unfolding kheap_def L by blast
    moreover have "keeps L (kmem s) m"
      using k m by (fastforce simp: keeps_def apart_def)
    ultimately show ?thesis
      using False res k m by (auto simp: m_def)
  qed
qed



section \<open>What the code does not check\<close>

text \<open>The size computations of \<^verbatim>\<open>simple_malloc\<close> wrap around. A request of \<^verbatim>\<open>SIZE_MAX\<close> bytes
  is rounded up to 0 bytes and succeeds on every heap with a free block: the first block of the
  free list is handed out, whatever its size.\<close>

theorem simple_malloc_wraps:
  assumes inv: "heap_inv s base bs (A # fs)"
  shows "\<exists>s'. simple_malloc s (- 1) = Some (of_nat (A + 24), s')"
proof -
  let ?h = "free_mem_list_head s"
  have ok: "heap_ok (kmem s) ?h base bs (A # fs)"
    using inv by (simp add: heap_inv_def)
  then have "A \<in> set (free_addrs base bs)"
    by (auto simp: heap_ok_def)
  then obtain xs n ys where bs: "bs = xs @ Blk n True # ys" and A: "A = base + total xs"
    using free_addrs_split by blast
  have n: "32 \<le> n"
    using heap_inv_sizes [OF inv] bs by simp
  have "fits s 0 A"
    using fits_size_at [OF ok, of A 0] size_at_split [of xs A base n True ys] heap_inv_sizes [OF inv] A bs n by simp
  moreover obtain l where "align_requested_size s (- 1) = (0, s\<lparr>klog := l\<rparr>)"
    by (auto simp: align_requested_size_def mm_consts printk_call_def Let_def)
  moreover have "dseg (node_next (kmem s)) (node_prev (kmem s)) ?h (map nd (A # fs)) ?h" "?h \<notin> set (map nd (A # fs))"
    using ok unfolding heap_ok_def ring_def by auto
  ultimately have res: "simple_malloc s (- 1) = Some (malloc_take (s\<lparr>klog := l\<rparr>) (- 1) 0 (of_nat A))"
    using malloc_search_find [of "s\<lparr>klog := l\<rparr>" ?h "A # fs" "- 1" 0] by (simp add: simple_malloc_def)
  have ok': "heap_ok (kmem (s\<lparr>klog := l\<rparr>)) (free_mem_list_head (s\<lparr>klog := l\<rparr>)) base (xs @ [Blk n True] @ ys) ([] @ A # fs)"
    using ok bs by simp
  have "\<exists>s'. malloc_take (s\<lparr>klog := l\<rparr>) (- 1) 0 (of_nat A) = (of_nat (A + 24), s')"
  proof (cases "32 < n - 24")
    case True
    then show ?thesis
      using malloc_take_split [OF ok' A, of 0 0 "n - 24"] n by auto
  next
    case False
    then show ?thesis
      using malloc_take_whole [OF ok' A, of 0 0 "n - 24"] n by auto
  qed
  then show ?thesis
    using res by auto
qed

theorem simple_malloc_wraps_witness: "\<exists>s'. simple_malloc boot_mm (- 1) = Some (of_nat (0x10000 + 24), s')"
  by (rule simple_malloc_wraps [OF boot_inv])

text \<open>\<^verbatim>\<open>simple_realloc\<close> compares the new size with the block size including its header. A
  request for up to 24 bytes more than the payload returns the same pointer and changes nothing,
  although the payload is too small for it.\<close>

theorem simple_realloc_too_small:
  assumes inv: "heap_inv s base (xs @ Blk n False # ys) fs" and A: "A = base + total xs"
    and sz: "n - 24 < unat new_size" "unat new_size \<le> n"
  shows "simple_realloc s (of_nat (A + 24)) new_size = Some (Ret (of_nat (A + 24)) s)
     \<and> (A + 24, n - 24) \<in> live base (xs @ Blk n False # ys)"
proof -
  have ok: "heap_ok (kmem s) (free_mem_list_head s) base (xs @ Blk n False # ys) fs"
    using inv by (simp add: heap_inv_def)
  have bnd: "A + 24 < 2 ^ 64" "A + 24 \<le> 2 ^ 64" "n < 2 ^ 64"
    using ok A heap_inv_sizes [OF inv] by (auto simp: heap_ok_def)
  then have nz: "(of_nat (A + 24) :: u64) \<noteq> 0"
    by (simp add: unat_of_nat_u64 flip: unat_gt_0 del: of_nat_add)
  have p: "of_nat (A + 24) - BLOCK_HEAD_SIZE = (of_nat A :: u64)"
    by (simp add: BLOCK_HEAD_SIZE_def)
  have "rd32 (kmem s) A = SIMPLE_MM_MAGIC" "unat (EXTRACT_SIZE (rd32 (kmem s) (A + 4))) = n"
    using heap_ok_blk [OF ok A] by (auto simp: blk_ok_def hdr_def sf_ok_def)
  moreover have "new_size \<noteq> 0"
    using sz by auto
  ultimately have "simple_realloc s (of_nat (A + 24)) new_size = Some (Ret (of_nat (A + 24)) s)"
    using bnd nz p sz by (simp add: simple_realloc_def word_le_nat_alt Let_def del: of_nat_add)
  then show ?thesis
    using A by simp
qed

theorem simple_realloc_too_small_witness:
  "\<exists>s. simple_malloc boot_mm 100 = Some (0x10018, s) \<and> simple_realloc s (of_nat (0x10000 + 24)) 120 = Some (Ret (of_nat (0x10000 + 24)) s)"
proof -
  obtain s where s: "simple_malloc boot_mm 100 = Some (0x10018, s)"
    and inv: "heap_inv s 0x10000 ([] @ Blk 128 False # [Blk 3944 True]) [0x10080]"
    using boot_used by auto
  have "simple_realloc s (of_nat (0x10000 + 24)) 120 = Some (Ret (of_nat (0x10000 + 24)) s)"
    using simple_realloc_too_small [OF inv, of "0x10000" 120] by simp
  with s show ?thesis
    by blast
qed

end
