(* ===== verification/Device_Correct.thy ===== *)
theory Device_Correct
  imports Uart_Correct Simple_MM_Props Fdt_Props
begin

unbundle bit_operations_syntax

text \<open>
  The platform bus on a device tree: enumeration builds the device list of the enabled nodes in fresh heap blocks,
  and matching binds every new device to the first driver that its node names.  The state invariant says that the
  bus is a list of distinct devices, each in a live block of the kernel heap.
\<close>

section \<open>The device tree\<close>

text \<open>
  A tree that the reader functions accept, of version 16 or later, with nine readable bytes behind it: the code compares
  \<^verbatim>\<open>status\<close> with a string of nine bytes and reads two cells of \<^verbatim>\<open>reg\<close> whatever the lengths of these properties are.
\<close>

definition dtb_ok :: "fdt \<Rightarrow> bool" where
  "dtb_ok dtb \<longleftrightarrow> fdt_buffer dtb
     \<and> (case fdt_ro_probe' dtb of Some r \<Rightarrow> 0 \<le> r | None \<Rightarrow> False)
     \<and> (case fdt_version dtb of Some v \<Rightarrow> 16 \<le> v | None \<Rightarrow> False)
     \<and> (case fdt_totalsize dtb of Some t \<Rightarrow> unat t + 9 \<le> length (fdt_bytes dtb) | None \<Rightarrow> False)"

lemma dtb_ok_buffer: "dtb_ok dtb \<Longrightarrow> fdt_buffer dtb"
  by (simp add: dtb_ok_def)

lemma dtb_slack:
  assumes "dtb_ok dtb"
  shows "uint (hdr dtb 4) + 9 \<le> int (length (fdt_bytes dtb))"
proof -
  have "unat (hdr dtb 4) + 9 \<le> length (fdt_bytes dtb)"
    using assms dtb_ok_buffer [OF assms] by (simp add: dtb_ok_def)
  then show ?thesis
    unfolding uint_nat by linarith
qed

lemma dtb_getprop:
  assumes "dtb_ok dtb" "offset < 2 ^ 31"
  obtains e where "fdt_getprop dtb offset name = Some (Inl e)" "e < 0"
  | p len where "fdt_getprop dtb offset name = Some (Inr (p, len))" "0 \<le> p" "0 \<le> len"
      "p + len + 9 \<le> int (length (fdt_bytes dtb))"
  using dtb_ok_buffer [OF assms(1)] assms(2)
proof (cases rule: fdt_getprop_namelen_total [where name = name])
  case (1 e)
  then show thesis using that(1) by (simp add: fdt_getprop_def)
next
  case (2 p len)
  then show thesis using that(2) [of p len] dtb_slack [OF assms(1)] by (simp add: fdt_getprop_def)
qed

text \<open>A node that has a property has a name.\<close>

lemma getprop_node:
  assumes "fdt_buffer dtb" "offset < 2 ^ 31" "fdt_getprop dtb offset name = Some (Inr r)"
  shows "\<exists>n. fdt_check_node_offset' dtb offset = Some n \<and> 0 \<le> n"
  using assms(1,2)
proof (cases rule: fdt_check_node_offset_total)
  case (1 e)
  then have "fdt_getprop dtb offset name = Some (Inl e)"
    by (simp add: fdt_getprop_def fdt_getprop_namelen_def fdt_get_property_namelen'_def
        fdt_first_property_offset_def get_property_loop.simps)
  with assms(3) show ?thesis by simp
qed auto

lemma dtb_get_name:
  assumes "dtb_ok dtb" "offset < 2 ^ 31" "fdt_getprop dtb offset name = Some (Inr r)"
  obtains p len where "fdt_get_name dtb offset = Some (Inr (p, len))" "0 \<le> p" "0 \<le> len"
    "rd8 dtb (p + len) = Some 0"
  using dtb_ok_buffer [OF assms(1)] assms(2)
proof (cases rule: fdt_get_name_total)
  case (1 e)
  obtain n where "fdt_check_node_offset' dtb offset = Some n" "0 \<le> n"
    using getprop_node [OF dtb_ok_buffer [OF assms(1)] assms(2,3)] by blast
  moreover obtain r where "fdt_ro_probe' dtb = Some r" "0 \<le> r" "16 \<le> hdr dtb 20"
    using assms(1) dtb_ok_buffer [OF assms(1)] by (auto simp: dtb_ok_def split: option.splits)
  ultimately show thesis
    using 1(1) dtb_ok_buffer [OF assms(1)]
    by (auto simp: fdt_get_name_def Let_def split: bind_splits if_splits)
next
  case (2 p len)
  then show thesis using that by blast
qed

lemma blob_strncpy_total:
  assumes "rd8 dtb z = Some 0" "0 \<le> p" "p \<le> z"
  shows "\<exists>s. blob_strncpy dtb p n = Some s"
  using assms(2,3)
proof (induction n arbitrary: p)
  case (Suc n)
  have z: "z < int (length (fdt_bytes dtb))"
    using assms(1) by (simp add: rd8_def split: if_splits)
  then obtain b where b: "rd8 dtb p = Some b"
    using rd8_total [of p dtb] Suc.prems by auto
  show ?case
  proof (cases "p = z")
    case True
    then show ?thesis using assms(1) by simp
  next
    case False
    with Suc.prems have "\<exists>s. blob_strncpy dtb (p + 1) n = Some s"
      by (intro Suc.IH) auto
    with b show ?thesis
      by auto
  qed
qed simp

lemma node_compatible_total:
  assumes "dtb_ok dtb" "offset < 2 ^ 31"
  obtains "node_compatible dtb offset = Some None"
  | p len where "node_compatible dtb offset = Some (Some p)"
      "fdt_getprop dtb offset (bytes_of ''compatible'') = Some (Inr (p, len))"
  using assms
proof (cases rule: dtb_getprop [where name = "bytes_of ''compatible''"])
  case (1 e)
  then show thesis using that(1) by (simp add: node_compatible_def)
next
  case (2 p len)
  note c = this
  from assms show thesis
  proof (cases rule: dtb_getprop [where name = "bytes_of ''status''"])
    case (1 e)
    then show thesis using that(2) c by (simp add: node_compatible_def)
  next
    case (2 q l)
    have "length (bytes_of ''disabled'' @ [0]) = 9"
      by (simp add: bytes_of_def)
    then obtain b where "blob_eq dtb q (bytes_of ''disabled'' @ [0]) = Some b"
      using blob_eq_total [of q "bytes_of ''disabled'' @ [0]" dtb] 2 by auto
    then show thesis using that c 2 by (cases b) (auto simp: node_compatible_def)
  qed
qed

section \<open>The bus\<close>

text \<open>The devices on the list from a pointer on, in order.\<close>

fun dev_chain :: "(ptr \<Rightarrow> platform_device option) \<Rightarrow> ptr \<Rightarrow> ptr list \<Rightarrow> bool" where
  "dev_chain devs p [] = (p = NULL)"
| "dev_chain devs p (q # qs) =
     (p = q \<and> q \<noteq> NULL \<and> (case devs q of Some d \<Rightarrow> dev_chain devs (dev_next d) qs | None \<Rightarrow> False))"

definition bus_inv :: "kernel \<Rightarrow> ptr list \<Rightarrow> region set \<Rightarrow> bool" where
  "bus_inv k ps L \<longleftrightarrow> kheap (k_mm k) L \<and> dev_chain (k_devs k) (platform_bus k) ps \<and> distinct ps
     \<and> (\<forall>p \<in> set ps. \<exists>n. (unat p, n) \<in> L) \<and> (\<forall>p. k_data k p \<noteq> None \<longrightarrow> (\<exists>n. (unat p, n) \<in> L))"

lemma dev_chain_cong:
  "(\<And>p. p \<in> set ps \<Longrightarrow> map_option dev_next (devs' p) = map_option dev_next (devs p)) \<Longrightarrow>
   dev_chain devs' p ps = dev_chain devs p ps"
proof (induction ps arbitrary: p)
  case (Cons q qs)
  have q: "map_option dev_next (devs' q) = map_option dev_next (devs q)"
    by (rule Cons.prems) simp
  have qs: "dev_chain devs' r qs = dev_chain devs r qs" for r
    by (rule Cons.IH) (simp add: Cons.prems)
  from q show ?case
    by (cases "devs q"; cases "devs' q") (simp_all add: qs)
qed simp

lemma dev_chain_upd: "p \<notin> set ps \<Longrightarrow> dev_chain (devs(p := x)) q ps = dev_chain devs q ps"
  by (rule dev_chain_cong) auto

lemma fresh_block:
  assumes "kheap s L" "\<forall>r \<in> L. apart (unat p, n) r" "0 < n" "(unat q, m) \<in> L"
  shows "p \<noteq> q"
  using assms simple_heap.live_wide [OF assms(1,4)] by (auto simp: apart_def)

section \<open>Enumeration\<close>

text \<open>The nodes that are to become devices, in the order of the tree, with their \<^verbatim>\<open>compatible\<close> properties.\<close>

partial_function (option) enabled_nodes :: "fdt \<Rightarrow> int \<Rightarrow> int option \<Rightarrow> (int \<times> int) list option" where
  [code]: "enabled_nodes dtb offset depth =
     (if offset \<ge> 0 then do {
        c \<leftarrow> node_compatible dtb offset;
        (next, depth) \<leftarrow> fdt_next_node dtb offset depth;
        nodes \<leftarrow> enabled_nodes dtb next depth;
        Some (case c of None \<Rightarrow> nodes | Some c \<Rightarrow> (offset, c) # nodes) }
      else Some [])"

text \<open>A device as enumeration leaves it.\<close>

definition enumerated :: "fdt \<Rightarrow> platform_device option \<Rightarrow> int \<times> int \<Rightarrow> bool" where
  "enumerated dtb dev node =
     (case dev of
        None \<Rightarrow> False
      | Some d \<Rightarrow> dt_node_offset d = fst node \<and> dev_compatible d = Some (snd node)
          \<and> init_state d = DEVICE_STATE_UNINIT \<and> dev_driver d = None \<and> private_data d = NULL
          \<and> (case fdt_get_name dtb (fst node) of
               Some (Inr (p, _)) \<Rightarrow> blob_strncpy dtb p 31 = Some (dev_name d)
             | _ \<Rightarrow> False))"

lemma add_device_bus:
  assumes "dtb_ok dtb" "off < 2 ^ 31" "fdt_getprop dtb off name = Some (Inr r)"
    and "bus_inv k ps L" "kheap s (insert (unat dev, n) L)" "\<forall>r \<in> L. apart (unat dev, n) r" "0 < n" "dev \<noteq> NULL"
  shows "\<exists>d. add_device (k\<lparr>k_mm := s\<rparr>) dtb off c dev
      = Some (k\<lparr>k_mm := s, k_devs := (k_devs k)(dev := Some d), platform_bus := dev\<rparr>)
    \<and> enumerated dtb (Some d) (off, c)
    \<and> bus_inv (k\<lparr>k_mm := s, k_devs := (k_devs k)(dev := Some d), platform_bus := dev\<rparr>) (dev # ps) (insert (unat dev, n) L)"
proof -
  from assms(1-3) obtain p len where p: "fdt_get_name dtb off = Some (Inr (p, len))" "0 \<le> p" "0 \<le> len"
    "rd8 dtb (p + len) = Some 0"
    by (rule dtb_get_name)
  then obtain nm where nm: "blob_strncpy dtb p 31 = Some nm"
    using blob_strncpy_total [of dtb "p + len" p 31] by auto
  define d where "d = zero_device\<lparr>dev_name := nm, dev_compatible := Some c, dt_node_offset := off,
    init_state := DEVICE_STATE_UNINIT, dev_next := platform_bus k\<rparr>"
  have "add_device (k\<lparr>k_mm := s\<rparr>) dtb off c dev
      = Some (k\<lparr>k_mm := s, k_devs := (k_devs k)(dev := Some d), platform_bus := dev\<rparr>)"
    using p nm by (simp add: add_device_def set_device_def d_def)
  moreover have "enumerated dtb (Some d) (off, c)"
    using p nm by (simp add: enumerated_def d_def zero_device_def)
  moreover have "dev \<notin> set ps"
    using assms(4,6,7) fresh_block [of "k_mm k" L dev n] by (fastforce simp: bus_inv_def)
  then have "bus_inv (k\<lparr>k_mm := s, k_devs := (k_devs k)(dev := Some d), platform_bus := dev\<rparr>) (dev # ps) (insert (unat dev, n) L)"
    using assms(4,5,8) by (auto simp: bus_inv_def dev_chain_upd d_def)
  ultimately show ?thesis
    by blast
qed

text \<open>
  What enumeration from state \<open>k\<close> to \<open>k'\<close> does for a list of nodes: the devices \<open>new\<close> were made for a prefix of the nodes
  and pushed on the bus one after the other, the rest of the state is as before, and nodes are left over only when the heap
  refused a device.
\<close>

definition enumerates :: "fdt \<Rightarrow> kernel \<Rightarrow> (int \<times> int) list \<Rightarrow> ptr list \<Rightarrow> kernel \<Rightarrow> bool" where
  "enumerates dtb k nodes new k' \<longleftrightarrow>
     length new \<le> length nodes
     \<and> list_all2 (enumerated dtb) (map (k_devs k') new) (take (length new) nodes)
     \<and> (\<forall>p. p \<notin> set new \<longrightarrow> k_devs k' p = k_devs k p)
     \<and> k' = k\<lparr>k_mm := k_mm k', k_devs := k_devs k', platform_bus := platform_bus k'\<rparr>
     \<and> (length new < length nodes \<longrightarrow> (\<exists>s. kcalloc s 1 88 = Some (NULL, k_mm k')))"

lemma enumerates_refl: "enumerates dtb k [] [] k"
  by (simp add: enumerates_def)

lemma enumerates_refused: "kcalloc s 1 88 = Some (NULL, s') \<Longrightarrow> enumerates dtb k nodes [] (k\<lparr>k_mm := s'\<rparr>)"
  by (auto simp: enumerates_def)

lemma enumerates_step:
  assumes "enumerates dtb (k\<lparr>k_mm := s, k_devs := (k_devs k)(dev := Some d), platform_bus := dev\<rparr>) nodes new k'"
    and "enumerated dtb (Some d) node" and "dev \<notin> set new"
  shows "enumerates dtb k (node # nodes) (dev # new) k'"
  using assms by (auto simp: enumerates_def fun_upd_def)

lemma calloc_one:
  assumes "kheap s L" "unat sz + 32 < 2 ^ 64" "0 < sz"
  obtains s' where "kcalloc s 1 sz = Some (NULL, s')" "kheap s' L"
  | p s' n where "kcalloc s 1 sz = Some (p, s')" "p \<noteq> NULL" "0 < n" "kheap s' (insert (unat p, n) L)"
      "\<forall>r \<in> L. apart (unat p, n) r"
proof -
  have "unat (1 :: u64) * unat sz + 32 < 2 ^ 64" "0 < unat sz"
    using assms(2,3) by (simp_all add: word_less_nat_alt)
  from kcalloc_contract [OF assms(1) this(1)] this(2) obtain p s' where r: "kcalloc s 1 sz = Some (p, s')"
    and "if p = NULL then kheap s' L
         else \<exists>n>0. kheap s' (insert (unat p, n) L) \<and> (\<forall>r \<in> L. apart (unat p, n) r)"
    by (fastforce split: if_splits)
  then show thesis
    using that by (cases "p = NULL") auto
qed

text \<open>The loop from an offset on does its work from any state whose bus is well formed.\<close>

definition enumerates_from :: "fdt \<Rightarrow> int \<Rightarrow> int option \<Rightarrow> kernel \<Rightarrow> ptr list \<Rightarrow> region set \<Rightarrow> bool" where
  "enumerates_from dtb off depth k ps L \<longleftrightarrow>
     (\<exists>nodes k' new L'. enabled_nodes dtb off depth = Some nodes \<and> enumerate_loop k dtb off depth = Some k'
        \<and> bus_inv k' (rev new @ ps) L' \<and> L \<subseteq> L' \<and> enumerates dtb k nodes new k')"

lemma enumerates_from_end:
  assumes "off < 0" "bus_inv k ps L"
  shows "enumerates_from dtb off depth k ps L"
  unfolding enumerates_from_def using assms
  by (auto simp: enabled_nodes.simps enumerate_loop.simps intro!: exI [of _ "[]"] exI [of _ L] enumerates_refl)

lemma enumerates_from_device:
  assumes ok: "dtb_ok dtb" and off: "0 \<le> off" "off < 2 ^ 31"
    and nx: "fdt_next_node dtb off depth = Some (next', d)"
    and node: "node_compatible dtb off = Some (Some c)" "fdt_getprop dtb off name = Some (Inr r)"
    and inv: "bus_inv k ps L"
    and IH: "\<And>k ps L. bus_inv k ps L \<Longrightarrow> enumerates_from dtb next' d k ps L"
  shows "enumerates_from dtb off depth k ps L"
proof -
  obtain nodes where nodes: "enabled_nodes dtb next' d = Some nodes"
    using IH [OF inv] by (auto simp: enumerates_from_def)
  then have all: "enabled_nodes dtb off depth = Some ((off, c) # nodes)"
    using off nx node by (simp add: enabled_nodes.simps [of dtb off])
  have "kheap (k_mm k) L" "unat (88 :: u64) + 32 < 2 ^ 64" "(0 :: u64) < 88"
    using inv by (simp_all add: bus_inv_def)
  then show ?thesis
  proof (cases rule: calloc_one)
    case (1 s)
    then have "enumerate_loop k dtb off depth = Some (k\<lparr>k_mm := s\<rparr>)" "bus_inv (k\<lparr>k_mm := s\<rparr>) (rev [] @ ps) L"
      using off node inv by (simp_all add: enumerate_loop.simps [of k dtb off] bus_inv_def)
    with all enumerates_refused [OF 1(1)] show ?thesis
      unfolding enumerates_from_def by blast
  next
    case (2 dev s n)
    then obtain d' k1 where add: "add_device (k\<lparr>k_mm := s\<rparr>) dtb off c dev = Some k1"
      and k1: "k1 = k\<lparr>k_mm := s, k_devs := (k_devs k)(dev := Some d'), platform_bus := dev\<rparr>"
      and enum: "enumerated dtb (Some d') (off, c)" and "bus_inv k1 (dev # ps) (insert (unat dev, n) L)"
      using add_device_bus [where c = c, OF ok off(2) node(2) inv 2(4,5,3,2)] by auto
    then obtain k' new L' where rest: "enumerate_loop k1 dtb next' d = Some k'"
      "bus_inv k' (rev new @ dev # ps) L'" "insert (unat dev, n) L \<subseteq> L'" "enumerates dtb k1 nodes new k'"
      using IH nodes by (fastforce simp: enumerates_from_def)
    have "dev \<notin> set new"
      using rest(2) by (simp add: bus_inv_def)
    then have "enumerates dtb k ((off, c) # nodes) (dev # new) k'"
      using enumerates_step [OF rest(4) [unfolded k1] enum] by blast
    moreover have "enumerate_loop k dtb off depth = Some k'"
      using off node 2(1,2) add nx rest(1) by (simp add: enumerate_loop.simps [of k dtb off])
    moreover have "bus_inv k' (rev (dev # new) @ ps) L'" "L \<subseteq> L'"
      using rest(2,3) by simp_all
    ultimately show ?thesis
      using all unfolding enumerates_from_def by blast
  qed
qed

lemma enumerate_loop_bus:
  assumes "dtb_ok dtb" "off < 2 ^ 31" "bus_inv k ps L"
  shows "enumerates_from dtb off depth k ps L"
  using assms(2,3)
proof (induction arbitrary: k ps L depth rule: offset_induct)
  case (step off)
  show ?case
  proof (cases "off \<ge> 0")
    case False
    with step.prems show ?thesis
      by (simp add: enumerates_from_end)
  next
    case True
    obtain next' d where nx: "fdt_next_node dtb off depth = Some (next', d)"
      and fwd: "next' < 0 \<or> off < next' \<and> next' < 2 ^ 31"
      using dtb_ok_buffer [OF assms(1)] step.hyps by (cases rule: fdt_next_node_total [where depth = depth]) auto
    have IH: "enumerates_from dtb next' d k ps L" if "bus_inv k ps L" for k ps L
      using step.IH [of next'] fwd that enumerates_from_end by blast
    from assms(1) step.hyps show ?thesis
    proof (cases rule: node_compatible_total)
      case 1
      then show ?thesis
        using IH [OF step.prems] True nx
        by (simp add: enumerates_from_def enabled_nodes.simps [of dtb off] enumerate_loop.simps [of k dtb off])
    next
      case (2 c len)
      from assms(1) True step.hyps nx 2 step.prems IH show ?thesis
        by (rule enumerates_from_device)
    qed
  qed
qed


section \<open>Probing\<close>

lemma printk_silent:
  assumes "system_console k = NULL" "printk_chars fmt args = Some cs"
  shows "printk k fmt args = Some k"
proof -
  have "print_chars k cs = Some k" for cs
    using assms(1) by (induction cs) (simp_all add: print_char_def)
  then show ?thesis
    using assms(2) by (simp add: printk_def)
qed

lemma match_message:
  assumes "system_console k = NULL"
  shows "printk k ''Matching device '%s' against driver '%s'...\<newline>'' [VStr (Some a), VStr (Some b)] = Some k"
proof -
  have "print_directive (CHR ''s'' # p) (VStr (Some a) # args) = Some (print_string_fmt (Some a) 0 (- 1) False, args, p)" for p a args
    by (simp add: print_directive_def print_spec_def no_flags_def parse_precision_def peek_def is_dec_def)
  then show ?thesis
    by (intro printk_silent [OF assms]) simp
qed

text \<open>The private data that a probe function sets up.\<close>

fun sets_up :: "probe_fn \<Rightarrow> uart_data option \<Rightarrow> bool" where
  "sets_up Pl011_probe (Some (Pl011 _)) = True"
| "sets_up Ns16550_probe (Some (Ns16550 _)) = True"
| "sets_up _ _ = False"

text \<open>
  The contract of a probe: it returns 0 or \<^verbatim>\<open>-1\<close>; on success the device holds new private data of its driver in a live
  block; on failure the device and the set of live blocks are as before.
\<close>

definition probe_post ::
    "probe_fn \<Rightarrow> kernel \<Rightarrow> ptr \<Rightarrow> platform_device \<Rightarrow> ptr list \<Rightarrow> region set \<Rightarrow> int \<Rightarrow> kernel \<Rightarrow> region set \<Rightarrow> bool" where
  "probe_post f k dev d ps L rc k' L' \<longleftrightarrow>
     (rc = 0 \<or> rc = - 1) \<and> bus_inv k' ps L' \<and> L \<subseteq> L'
     \<and> (\<exists>p st. k_devs k' = (k_devs k)(dev := Some (d\<lparr>private_data := p, init_state := st\<rparr>))
          \<and> (if rc = 0 then sets_up f (k_data k' p) \<and> k_data k p = None
             else p = private_data d \<and> st = init_state d \<and> L' = L \<and> k_data k' = k_data k))
     \<and> (\<forall>p. k_data k p \<noteq> None \<longrightarrow> k_data k' p = k_data k p)
     \<and> system_console k' = system_console k \<and> g_dtb_ptr k' = g_dtb_ptr k \<and> driver_list k' = driver_list k
     \<and> platform_bus k' = platform_bus k \<and> length (mmio_in k) \<le> Suc (length (mmio_in k'))"

lemma bus_inv_mm: "bus_inv k ps L \<Longrightarrow> kheap s L \<Longrightarrow> bus_inv (k\<lparr>k_mm := s\<rparr>) ps L"
  by (simp add: bus_inv_def)

lemma probe_refused:
  assumes "bus_inv k ps L" "k_devs k dev = Some d" "kheap s L"
  shows "probe_post f k dev d ps L (- 1) (k\<lparr>k_mm := s\<rparr>) L"
proof -
  have "(k_devs k)(dev \<mapsto> d\<lparr>private_data := private_data d, init_state := init_state d\<rparr>) = k_devs k"
    using assms(2) by auto
  with assms(1,3) show ?thesis
    by (auto simp: probe_post_def bus_inv_mm intro!: exI [of _ "private_data d"] exI [of _ "init_state d"])
qed

lemma probe_fail_post:
  assumes "bus_inv k ps L" "k_devs k dev = Some d"
    and "kheap s (insert (unat p, n) L)" "\<forall>r \<in> L. apart (unat p, n) r" "0 < n"
  shows "\<exists>k'. probe_fail (k\<lparr>k_mm := s\<rparr>) p = Ret (- 1) k' \<and> probe_post f k dev d ps L (- 1) k' L"
proof -
  have fresh: "(unat p, m) \<notin> L" for m
    using fresh_block [OF _ assms(4,5), of "k_mm k" p m] assms(1) by (auto simp: bus_inv_def)
  then have "k_data k p = None"
    using assms(1) by (auto simp: bus_inv_def)
  then have data: "(k_data k)(p := None) = k_data k"
    by auto
  obtain s' where "kfree s p = Ret () s'" "kheap s' (insert (unat p, n) L - {(unat p, n)})"
    using kfree_contract [OF assms(3), of p n] by auto
  with fresh have "probe_fail (k\<lparr>k_mm := s\<rparr>) p = Ret (- 1) (k\<lparr>k_mm := s'\<rparr>)" "kheap s' L"
    by (simp_all add: probe_fail_def data)
  with probe_refused [OF assms(1,2)] show ?thesis
    by blast
qed

lemma probe_success:
  assumes "bus_inv k ps L" "k_devs k dev = Some d"
    and "kheap s (insert (unat p, n) L)" "\<forall>r \<in> L. apart (unat p, n) r" "0 < n"
    and "sets_up f (Some data)" "length (mmio_in k) \<le> Suc (length ins)"
  shows "probe_post f k dev d ps L 0 (k\<lparr>k_mm := s, k_data := (k_data k)(p := Some data),
      k_devs := (k_devs k)(dev := Some (d\<lparr>private_data := p, init_state := st\<rparr>)), mmio_in := ins, mmio_trace := t\<rparr>)
    (insert (unat p, n) L)"
proof -
  have fresh: "k_data k p = None"
    using fresh_block [OF _ assms(4,5), of "k_mm k" p] assms(1) by (fastforce simp: bus_inv_def)
  have "dev_chain ((k_devs k)(dev := Some (d\<lparr>private_data := p, init_state := st\<rparr>))) q ps = dev_chain (k_devs k) q ps" for q
    using assms(2) by (intro dev_chain_cong) simp
  with assms fresh show ?thesis
    by (auto simp: probe_post_def bus_inv_def)
qed

lemma dtb_cells:
  assumes "dtb_ok dtb" "0 \<le> p" "p + 8 \<le> int (length (fdt_bytes dtb))"
  obtains hi lo where "fdt32_ld dtb p = Some hi" "fdt32_ld dtb (p + 4) = Some lo"
  using fdt32_ld_total [of p dtb] fdt32_ld_total [of "p + 4" dtb] assms by auto

lemma pl011_irqs_total:
  assumes "dtb_ok dtb" "off < 2 ^ 31"
  shows "\<exists>data'. pl011_irqs dtb off data = Some data'"
  using assms
proof (cases rule: dtb_getprop [where name = "bytes_of ''interrupts''"])
  case (2 p len)
  then show ?thesis
    using fdt32_ld_total [of p dtb] fdt32_ld_total [of "p + 4" dtb] fdt32_ld_total [of "p + 8" dtb]
    by (auto simp: pl011_irqs_def)
qed (simp add: pl011_irqs_def)

lemma ns16550_irq_total:
  assumes "dtb_ok dtb" "off < 2 ^ 31"
  shows "\<exists>n. ns16550_irq dtb off = Some n"
  using assms
proof (cases rule: dtb_getprop [where name = "bytes_of ''interrupts''"])
  case (2 p len)
  then show ?thesis
    using fdt32_ld_total [of p dtb] by (auto simp: ns16550_irq_def)
qed (simp add: ns16550_irq_def)

lemma pl011_probe_post:
  assumes "dtb_ok (g_dtb_ptr k)" "bus_inv k ps L" "k_devs k dev = Some d" "dt_node_offset d < 2 ^ 31"
  shows "\<exists>rc k' L'. pl011_probe k dev = Some (Ret rc k') \<and> probe_post Pl011_probe k dev d ps L rc k' L'"
proof -
  have "kheap (k_mm k) L" "unat (24 :: u64) + 32 < 2 ^ 64" "(0 :: u64) < 24"
    using assms(2) by (simp_all add: bus_inv_def)
  then show ?thesis
  proof (cases rule: calloc_one)
    case (1 s)
    then show ?thesis
      using probe_refused [OF assms(2,3)] by (auto simp: pl011_probe_def)
  next
    case (2 p s n)
    note alloc = this
    from assms(1,4) show ?thesis
    proof (cases rule: dtb_getprop [where name = "bytes_of ''reg''"])
      case (1 e)
      then show ?thesis
        using probe_fail_post [where f = Pl011_probe, OF assms(2,3) alloc(4,5,3)] alloc assms(3) by (auto simp: pl011_probe_def)
    next
      case (2 q len)
      obtain hi lo where cells: "fdt32_ld (g_dtb_ptr k) q = Some hi" "fdt32_ld (g_dtb_ptr k) (q + 4) = Some lo"
        using dtb_cells [OF assms(1), of q] 2 by auto
      obtain data where "pl011_irqs (g_dtb_ptr k) (dt_node_offset d) \<lparr>pl011_base_addr = push_bit 32 (ucast hi) OR ucast lo,
          irq_type = 0, irq_num = 0, irq_flags = 0\<rparr> = Some data"
        using pl011_irqs_total [OF assms(1,4)] by blast
      then have "pl011_probe k dev = Some (Ret 0 (k\<lparr>k_mm := s, k_data := (k_data k)(p := Some (Pl011 data)),
          k_devs := (k_devs k)(dev := Some (d\<lparr>private_data := p, init_state := init_state d\<rparr>)),
          mmio_in := mmio_in k, mmio_trace := mmio_trace k\<rparr>))"
        using alloc assms(3) cells 2 by (simp add: pl011_probe_def set_device_def)
      moreover have "length (mmio_in k) \<le> Suc (length (mmio_in k))"
        by simp
      ultimately show ?thesis
        using probe_success [OF assms(2,3) alloc(4,5,3), of Pl011_probe "Pl011 data"] by fastforce
    qed
  qed
qed

lemma ns16550_reg_total:
  assumes "dtb_ok dtb" "0 \<le> p" "p + 8 \<le> int (length (fdt_bytes dtb))"
  shows "\<exists>addr. ns16550_reg dtb p len = Some addr"
  using assms by (rule dtb_cells) (simp add: ns16550_reg_def)

lemma ns16550_probe_post:
  assumes "dtb_ok (g_dtb_ptr k)" "bus_inv k ps L" "k_devs k dev = Some d" "dt_node_offset d < 2 ^ 31"
    and "mmio_in k = v # ins"
  shows "\<exists>rc k' L'. ns16550_probe k dev = Some (Ret rc k') \<and> probe_post Ns16550_probe k dev d ps L rc k' L'"
proof -
  have "kheap (k_mm k) L" "unat (24 :: u64) + 32 < 2 ^ 64" "(0 :: u64) < 24"
    using assms(2) by (simp_all add: bus_inv_def)
  then show ?thesis
  proof (cases rule: calloc_one)
    case (1 s)
    then show ?thesis
      using probe_refused [OF assms(2,3)] by (auto simp: ns16550_probe_def)
  next
    case (2 p s n)
    note alloc = this
    note fail = probe_fail_post [where f = Ns16550_probe, OF assms(2,3) alloc(4,5,3)]
    from assms(1,4) show ?thesis
    proof (cases rule: dtb_getprop [where name = "bytes_of ''reg''"])
      case (1 e)
      then show ?thesis
        using fail alloc assms(3) by (auto simp: ns16550_probe_def)
    next
      case (2 q len)
      show ?thesis
      proof (cases "len < 4")
        case True
        then show ?thesis
          using fail alloc assms(3) 2 by (auto simp: ns16550_probe_def)
      next
        case False
        obtain addr where addr: "ns16550_reg (g_dtb_ptr k) q len = Some addr"
          using ns16550_reg_total [OF assms(1), of q len] 2 by auto
        obtain i where i: "ns16550_irq (g_dtb_ptr k) (dt_node_offset d) = Some i"
          using ns16550_irq_total [OF assms(1,4)] by blast
        define data where "data = \<lparr>ns16550_base_addr = addr, vbase = 0, irq = i\<rparr>"
        define t where "t = mmio_trace k @ [MRead (ns16550_bptr addr 0 + NS16550_RBR_THR_DLL) v,
          MWrite (ns16550_bptr addr 0 + NS16550_IER_DLM) 0, MWrite (ns16550_bptr addr 0 + NS16550_LCR) 3,
          MWrite (ns16550_bptr addr 0 + NS16550_IIR_FCR) 7]"
        have "ns16550_probe k dev = Some (Ret 0 (k\<lparr>k_mm := s,
            k_data := (k_data k)(p := Some (Ns16550 data)),
            k_devs := (k_devs k)(dev := Some (d\<lparr>private_data := p, init_state := DEVICE_STATE_READY\<rparr>)),
            mmio_in := ins, mmio_trace := t\<rparr>))"
          using alloc assms(3,5) 2 False addr i
          by (simp add: ns16550_probe_def set_device_def mmio_read_def mmio_write_def data_def t_def Let_def)
        moreover have "length (mmio_in k) \<le> Suc (length ins)"
          using assms(5) by simp
        ultimately show ?thesis
          using probe_success [OF assms(2,3) alloc(4,5,3), of Ns16550_probe "Ns16550 data"] by fastforce
      qed
    qed
  qed
qed

lemma run_probe_post:
  assumes "dtb_ok (g_dtb_ptr k)" "bus_inv k ps L" "k_devs k dev = Some d" "dt_node_offset d < 2 ^ 31" "mmio_in k \<noteq> []"
  shows "\<exists>rc k' L'. run_probe f k dev = Some (Ret rc k') \<and> probe_post f k dev d ps L rc k' L'"
proof (cases f)
  case Pl011_probe
  then show ?thesis
    using pl011_probe_post [OF assms(1-4)] by simp
next
  case Ns16550_probe
  then show ?thesis
    using ns16550_probe_post [OF assms(1-4)] assms(5) by (cases "mmio_in k") simp_all
qed

section \<open>Matching\<close>

lemma stringlist_contains_total:
  assumes "0 \<le> p" "0 \<le> len" "p + len + 1 \<le> int (length (fdt_bytes dtb))"
  shows "\<exists>b. fdt_stringlist_contains dtb p len str = Some b"
  using assms
proof (induction "nat len" arbitrary: p len rule: less_induct)
  case less
  show ?case
  proof (cases "int (length str) \<le> len")
    case True
    obtain b where b: "blob_eq dtb p (str @ [0]) = Some b"
      using blob_eq_total [of p "str @ [0]" dtb] less.prems True by auto
    have "0 \<le> p" "p + int (nat len) \<le> int (length (fdt_bytes dtb))"
      using less.prems by auto
    then show ?thesis
    proof (cases rule: blob_chr_total [where c = 0])
      case (2 q)
      with less.prems have "\<exists>b. fdt_stringlist_contains dtb (q + 1) (len - ((q - p) + 1)) str = Some b"
        by (intro less.hyps) auto
      with b 2 show ?thesis
        by (cases b) (auto simp: fdt_stringlist_contains.simps [of dtb p])
    qed (use b in \<open>cases b; auto simp: fdt_stringlist_contains.simps [of dtb p]\<close>)
  qed (auto simp: fdt_stringlist_contains.simps [of dtb p])
qed

lemma check_compatible_total:
  assumes "dtb_ok dtb" "off < 2 ^ 31"
  shows "\<exists>r. fdt_node_check_compatible dtb off str = Some r"
  using assms
proof (cases rule: dtb_getprop [where name = "bytes_of ''compatible''"])
  case (2 p len)
  then show ?thesis
    using stringlist_contains_total [of p len dtb str] by (auto simp: fdt_node_check_compatible_def)
qed (simp add: fdt_node_check_compatible_def)

text \<open>The driver that the bus chooses for a device, and the device after matching.\<close>

definition first_driver :: "fdt \<Rightarrow> device_driver list \<Rightarrow> platform_device \<Rightarrow> device_driver option" where
  "first_driver dtb drvs d =
     find (\<lambda>drv. fdt_node_check_compatible dtb (dt_node_offset d) (bytes_of (drv_compatible drv)) = Some 0) drvs"

definition bound :: "platform_device \<Rightarrow> device_driver \<Rightarrow> kernel \<Rightarrow> platform_device \<Rightarrow> bool" where
  "bound d drv k' d' \<longleftrightarrow>
     d' = d\<lparr>dev_driver := Some drv, init_state := DEVICE_STATE_ERROR\<rparr>
     \<or> d' = d\<lparr>dev_driver := Some drv, init_state := DEVICE_STATE_READY, private_data := private_data d'\<rparr>
        \<and> (case drv_probe drv of None \<Rightarrow> False | Some f \<Rightarrow> sets_up f (k_data k' (private_data d')))"

definition matched :: "fdt \<Rightarrow> device_driver list \<Rightarrow> platform_device \<Rightarrow> kernel \<Rightarrow> platform_device \<Rightarrow> bool" where
  "matched dtb drvs d k' d' \<longleftrightarrow>
     (if init_state d \<noteq> DEVICE_STATE_UNINIT then d' = d
      else case first_driver dtb drvs d of
        None \<Rightarrow> d' = d
      | Some drv \<Rightarrow> bound d drv k' d')"

text \<open>What matching leaves alone.\<close>

definition match_frame :: "kernel \<Rightarrow> kernel \<Rightarrow> bool" where
  "match_frame k k' \<longleftrightarrow> (\<forall>p. k_data k p \<noteq> None \<longrightarrow> k_data k' p = k_data k p)
     \<and> system_console k' = system_console k \<and> g_dtb_ptr k' = g_dtb_ptr k \<and> driver_list k' = driver_list k
     \<and> platform_bus k' = platform_bus k"

lemma match_frame_refl [simp]: "match_frame k k"
  by (simp add: match_frame_def)

lemma match_frame_trans: "match_frame k k1 \<Longrightarrow> match_frame k1 k2 \<Longrightarrow> match_frame k k2"
  by (auto simp: match_frame_def)

lemma sets_up_data: "sets_up f x \<Longrightarrow> x \<noteq> None"
  by (cases "(f, x)" rule: sets_up.cases) auto

lemma bound_frame:
  assumes "bound d drv k1 d'" "match_frame k1 k2"
  shows "bound d drv k2 d'"
proof -
  have "sets_up f (k_data k2 p)" if "sets_up f (k_data k1 p)" for f p
    using that assms(2) sets_up_data [OF that] by (simp add: match_frame_def)
  with assms(1) show ?thesis
    unfolding bound_def by (auto split: option.splits)
qed

lemma matched_frame: "matched dtb drvs d k1 d' \<Longrightarrow> match_frame k1 k2 \<Longrightarrow> matched dtb drvs d k2 d'"
  by (auto simp: matched_def intro: bound_frame split: option.splits)

lemma bus_inv_set:
  assumes "bus_inv k ps L" "k_devs k dev = Some d" "dev_next d' = dev_next d"
  shows "bus_inv (k\<lparr>k_devs := (k_devs k)(dev := Some d')\<rparr>) ps L"
proof -
  have "dev_chain ((k_devs k)(dev := Some d')) q ps = dev_chain (k_devs k) q ps" for q
    using assms(2,3) by (intro dev_chain_cong) simp
  with assms(1) show ?thesis
    by (simp add: bus_inv_def)
qed

text \<open>One device: binding it to the driver whose node name matched.\<close>

lemma bind_driver:
  fixes drv :: device_driver
  assumes dtb: "dtb_ok (g_dtb_ptr k)" and inv: "bus_inv k ps L" and dev: "k_devs k dev = Some d" "dt_node_offset d < 2 ^ 31"
    and ins: "mmio_in k \<noteq> []"
  defines "k1 \<equiv> set_device k dev (d\<lparr>dev_driver := Some drv, init_state := DEVICE_STATE_INITIALIZING\<rparr>)"
  shows "\<exists>rc k2 d2 k' d' L'.
      (case drv_probe drv of None \<Rightarrow> Some (Ret (- 1) k1) | Some f \<Rightarrow> run_probe f k1 dev) = Some (Ret rc k2)
    \<and> k_devs k2 dev = Some d2
    \<and> k' = set_device k2 dev (d2\<lparr>init_state := if rc = 0 then DEVICE_STATE_READY else DEVICE_STATE_ERROR\<rparr>)
    \<and> k_devs k' = (k_devs k)(dev := Some d') \<and> (init_state d' = DEVICE_STATE_READY \<longleftrightarrow> rc = 0)
    \<and> bound d drv k' d' \<and> bus_inv k' ps L' \<and> L \<subseteq> L' \<and> match_frame k k' \<and> length (mmio_in k) \<le> Suc (length (mmio_in k'))"
proof -
  define d1 where "d1 = d\<lparr>dev_driver := Some drv, init_state := DEVICE_STATE_INITIALIZING\<rparr>"
  have k1: "bus_inv k1 ps L" "k_devs k1 dev = Some d1" "dt_node_offset d1 < 2 ^ 31" "mmio_in k1 \<noteq> []" "dtb_ok (g_dtb_ptr k1)"
    using bus_inv_set [OF inv dev(1)] dtb dev ins by (simp_all add: k1_def d1_def set_device_def)
  obtain f rc k2 L2 where
    run: "(case drv_probe drv of None \<Rightarrow> Some (Ret (- 1) k1) | Some f \<Rightarrow> run_probe f k1 dev) = Some (Ret rc k2)"
    and post: "probe_post f k1 dev d1 ps L rc k2 L2" and f: "rc = 0 \<longrightarrow> drv_probe drv = Some f"
  proof (cases "drv_probe drv")
    case None
    have "probe_post Pl011_probe k1 dev d1 ps L (- 1) (k1\<lparr>k_mm := k_mm k1\<rparr>) L"
      using k1(1) by (intro probe_refused k1) (simp add: bus_inv_def)
    with None that [of "- 1" k1] show thesis by simp
  next
    case (Some f)
    with run_probe_post [OF k1(5,1,2,3,4), of f] that show thesis by auto
  qed
  obtain p st where devs: "k_devs k2 = (k_devs k1)(dev := Some (d1\<lparr>private_data := p, init_state := st\<rparr>))"
    and p: "if rc = 0 then sets_up f (k_data k2 p) else p = private_data d"
    using post by (auto simp: probe_post_def d1_def split: if_splits)
  define d' where "d' = d\<lparr>dev_driver := Some drv, private_data := p,
    init_state := if rc = 0 then DEVICE_STATE_READY else DEVICE_STATE_ERROR\<rparr>"
  define k' where "k' = k2\<lparr>k_devs := (k_devs k)(dev := Some d')\<rparr>"
  have "bus_inv k2 ps L2" "L \<subseteq> L2" "match_frame k k2" "length (mmio_in k) \<le> Suc (length (mmio_in k2))"
    using post by (auto simp: probe_post_def match_frame_def k1_def set_device_def)
  then have "L \<subseteq> L2" "match_frame k k'" "length (mmio_in k) \<le> Suc (length (mmio_in k'))" "bus_inv k' ps L2"
    using bus_inv_set [of k2 ps L2 dev _ d']
    by (simp_all add: k'_def match_frame_def devs k1_def d1_def d'_def set_device_def)
  moreover have "bound d drv k' d'"
    using p f by (auto simp: bound_def d'_def k'_def)
  moreover have "k' = set_device k2 dev (d1\<lparr>private_data := p, init_state := st\<rparr>
      \<lparr>init_state := if rc = 0 then DEVICE_STATE_READY else DEVICE_STATE_ERROR\<rparr>)"
    by (simp add: k'_def d'_def d1_def set_device_def devs k1_def)
  moreover have "k_devs k2 dev = Some (d1\<lparr>private_data := p, init_state := st\<rparr>)"
    "k_devs k' = (k_devs k)(dev := Some d')" "init_state d' = DEVICE_STATE_READY \<longleftrightarrow> rc = 0"
    by (simp_all add: devs k'_def d'_def device_state_defs)
  ultimately show ?thesis
    using run by blast
qed

lemma match_drivers_post:
  assumes "dtb_ok (g_dtb_ptr k)" "bus_inv k ps L" "k_devs k dev = Some d" "dt_node_offset d < 2 ^ 31" "mmio_in k \<noteq> []"
    and "system_console k = NULL" "init_state d = DEVICE_STATE_UNINIT"
  shows "\<exists>k' d' L'. match_drivers (g_dtb_ptr k) drvs dev k = Some (Ret (init_state d' = DEVICE_STATE_READY) k')
    \<and> k_devs k' = (k_devs k)(dev := Some d') \<and> matched (g_dtb_ptr k) drvs d k' d'
    \<and> bus_inv k' ps L' \<and> L \<subseteq> L' \<and> match_frame k k' \<and> length (mmio_in k) \<le> Suc (length (mmio_in k'))"
proof (induction drvs)
  case Nil
  have "init_state d \<noteq> DEVICE_STATE_READY" "(k_devs k)(dev := Some d) = k_devs k"
    using assms by (auto simp: device_state_defs)
  then show ?case
    using assms by (intro exI [of _ k] exI [of _ d] exI [of _ L]) (auto simp: matched_def first_driver_def)
next
  case (Cons drv drvs)
  obtain r where r: "fdt_node_check_compatible (g_dtb_ptr k) (dt_node_offset d) (bytes_of (drv_compatible drv)) = Some r"
    using check_compatible_total [OF assms(1,4)] by blast
  show ?case
  proof (cases "r = 0")
    case False
    then have "matched (g_dtb_ptr k) (drv # drvs) d k' d' = matched (g_dtb_ptr k) drvs d k' d'" for k' d'
      using r by (simp add: matched_def first_driver_def)
    then show ?thesis
      using Cons.IH r False assms(3) match_message [OF assms(6)] by simp
  next
    case True
    then have fd: "first_driver (g_dtb_ptr k) (drv # drvs) d = Some drv"
      using r by (simp add: first_driver_def)
    from bind_driver [OF assms(1-5), of drv] obtain rc k2 d2 k' d' L' where
      run: "(case drv_probe drv of None \<Rightarrow> Some (Ret (- 1) (set_device k dev (d\<lparr>dev_driver := Some drv,
          init_state := DEVICE_STATE_INITIALIZING\<rparr>)))
        | Some f \<Rightarrow> run_probe f (set_device k dev (d\<lparr>dev_driver := Some drv,
          init_state := DEVICE_STATE_INITIALIZING\<rparr>)) dev) = Some (Ret rc k2)" "k_devs k2 dev = Some d2"
      and k': "k' = set_device k2 dev (d2\<lparr>init_state := if rc = 0 then DEVICE_STATE_READY else DEVICE_STATE_ERROR\<rparr>)"
      and post: "k_devs k' = (k_devs k)(dev := Some d')" "init_state d' = DEVICE_STATE_READY \<longleftrightarrow> rc = 0"
        "bound d drv k' d'" "bus_inv k' ps L'" "L \<subseteq> L'" "match_frame k k'" "length (mmio_in k) \<le> Suc (length (mmio_in k'))"
      by blast
    have "match_drivers (g_dtb_ptr k) (drv # drvs) dev k = Some (Ret (init_state d' = DEVICE_STATE_READY) k')"
      using r True run assms(3) match_message [OF assms(6)] post(2) by (simp add: k')
    moreover have "matched (g_dtb_ptr k) (drv # drvs) d k' d'"
      using fd post(3) assms(7) by (simp add: matched_def)
    ultimately show ?thesis
      using post by blast
  qed
qed

definition newly_ready :: "kernel \<Rightarrow> kernel \<Rightarrow> ptr \<Rightarrow> bool" where
  "newly_ready k k' p =
     (case (k_devs k p, k_devs k' p) of
        (Some d, Some d') \<Rightarrow> init_state d = DEVICE_STATE_UNINIT \<and> init_state d' = DEVICE_STATE_READY
      | _ \<Rightarrow> False)"

definition matches :: "kernel \<Rightarrow> ptr list \<Rightarrow> kernel \<Rightarrow> bool" where
  "matches k ps k' \<longleftrightarrow>
     (\<forall>p. case (k_devs k p, k_devs k' p) of
        (Some d, Some d') \<Rightarrow> if p \<in> set ps then matched (g_dtb_ptr k) (driver_list k) d k' d' else d' = d
      | (None, None) \<Rightarrow> p \<notin> set ps
      | _ \<Rightarrow> False)"

lemma matched_next: "matched dtb drvs d k' d' \<Longrightarrow> dev_next d' = dev_next d"
  by (cases d; cases d') (auto simp: matched_def bound_def split: if_splits option.splits)

lemma match_devices_step:
  assumes "dtb_ok (g_dtb_ptr k)" "bus_inv k ps L" "k_devs k q = Some d" "dt_node_offset d < 2 ^ 31" "mmio_in k \<noteq> []"
    and "system_console k = NULL" "q \<noteq> NULL"
  shows "\<exists>k1 d1 L1. (\<forall>n. match_devices k (g_dtb_ptr k) q n = match_devices k1 (g_dtb_ptr k) (dev_next d)
        (if init_state d = DEVICE_STATE_UNINIT \<and> init_state d1 = DEVICE_STATE_READY then n + 1 else n))
    \<and> k_devs k1 = (k_devs k)(q := Some d1) \<and> matched (g_dtb_ptr k) (driver_list k) d k1 d1
    \<and> bus_inv k1 ps L1 \<and> L \<subseteq> L1 \<and> match_frame k k1 \<and> length (mmio_in k) \<le> Suc (length (mmio_in k1))"
proof (cases "init_state d = DEVICE_STATE_UNINIT")
  case False
  then have "matched (g_dtb_ptr k) (driver_list k) d k d" "(k_devs k)(q := Some d) = k_devs k"
    using assms(3) by (auto simp: matched_def)
  with False assms show ?thesis
    by (intro exI [of _ k] exI [of _ d] exI [of _ L]) (simp add: match_devices.simps [of k _ q])
next
  case True
  from match_drivers_post [OF assms(1-6) True, of "driver_list k"] obtain k1 d1 L1 where
    run: "match_drivers (g_dtb_ptr k) (driver_list k) q k = Some (Ret (init_state d1 = DEVICE_STATE_READY) k1)"
    and post: "k_devs k1 = (k_devs k)(q := Some d1)" "matched (g_dtb_ptr k) (driver_list k) d k1 d1"
      "bus_inv k1 ps L1" "L \<subseteq> L1" "match_frame k k1" "length (mmio_in k) \<le> Suc (length (mmio_in k1))"
    by blast
  have "match_devices k (g_dtb_ptr k) q n = match_devices k1 (g_dtb_ptr k) (dev_next d)
      (if init_state d = DEVICE_STATE_UNINIT \<and> init_state d1 = DEVICE_STATE_READY then n + 1 else n)" for n
    using run True assms(3,7) post(1) matched_next [OF post(2)] by (simp add: match_devices.simps [of k _ q])
  with post show ?thesis
    by blast
qed

lemma matches_step:
  assumes k1: "k_devs k1 = (k_devs k)(q := Some d1)" and d: "k_devs k q = Some d"
    and m: "matched (g_dtb_ptr k) (driver_list k) d k1 d1" and f: "match_frame k k1" "match_frame k1 k'"
    and ms: "matches k1 qs k'" and q: "q \<notin> set qs"
  shows "matches k (q # qs) k'"
    and "length (filter (newly_ready k k') (q # qs)) = length (filter (newly_ready k1 k') qs)
      + (if init_state d = DEVICE_STATE_UNINIT \<and> init_state d1 = DEVICE_STATE_READY then 1 else 0)"
proof -
  have q': "k_devs k' q = Some d1"
    using ms q k1 by (auto simp: matches_def dest!: spec [of _ q] split: option.splits)
  have same: "g_dtb_ptr k1 = g_dtb_ptr k" "driver_list k1 = driver_list k"
    using f(1) by (simp_all add: match_frame_def)
  show "matches k (q # qs) k'"
    unfolding matches_def
  proof
    fix p
    show "case (k_devs k p, k_devs k' p) of
        (Some d, Some d') \<Rightarrow> if p \<in> set (q # qs) then matched (g_dtb_ptr k) (driver_list k) d k' d' else d' = d
      | (None, None) \<Rightarrow> p \<notin> set (q # qs) | _ \<Rightarrow> False"
      using spec [OF ms [unfolded matches_def], of p] d q' k1 matched_frame [OF m f(2)]
      by (cases "p = q") (auto simp: same split: option.splits)
  qed
  have "newly_ready k k' r = newly_ready k1 k' r" if "r \<in> set qs" for r
    using that q k1 by (auto simp: newly_ready_def)
  then have "filter (newly_ready k k') qs = filter (newly_ready k1 k') qs"
    by (rule filter_cong [OF refl])
  then show "length (filter (newly_ready k k') (q # qs)) = length (filter (newly_ready k1 k') qs)
      + (if init_state d = DEVICE_STATE_UNINIT \<and> init_state d1 = DEVICE_STATE_READY then 1 else 0)"
    using d q' by (simp add: newly_ready_def)
qed

lemma match_devices_post:
  assumes "dev_chain (k_devs k) p qs" "distinct qs" "bus_inv k ps L" "dtb_ok (g_dtb_ptr k)" "system_console k = NULL"
    and "length qs \<le> length (mmio_in k)" "\<forall>q d. k_devs k q = Some d \<longrightarrow> dt_node_offset d < 2 ^ 31"
  shows "\<exists>k' L'. match_devices k (g_dtb_ptr k) p n = Some (Ret (n + int (length (filter (newly_ready k k') qs))) k')
    \<and> matches k qs k' \<and> bus_inv k' ps L' \<and> L \<subseteq> L' \<and> match_frame k k'"
  using assms
proof (induction qs arbitrary: k p n L)
  case Nil
  then show ?case
    by (intro exI [of _ k] exI [of _ L]) (auto simp: match_devices.simps matches_def split: option.splits)
next
  case (Cons q qs)
  obtain d where d: "k_devs k q = Some d" "p = q" "q \<noteq> NULL" and chain: "dev_chain (k_devs k) (dev_next d) qs"
    using Cons.prems(1) by (auto split: option.splits)
  have "dt_node_offset d < 2 ^ 31" "mmio_in k \<noteq> []"
    using Cons.prems(6,7) d by auto
  from match_devices_step [OF Cons.prems(4,3) d(1) this Cons.prems(5) d(3)] obtain k1 d1 L1 where
    run: "\<forall>n. match_devices k (g_dtb_ptr k) q n = match_devices k1 (g_dtb_ptr k) (dev_next d)
        (if init_state d = DEVICE_STATE_UNINIT \<and> init_state d1 = DEVICE_STATE_READY then n + 1 else n)"
    and post: "k_devs k1 = (k_devs k)(q := Some d1)" "matched (g_dtb_ptr k) (driver_list k) d k1 d1"
      "bus_inv k1 ps L1" "L \<subseteq> L1" "match_frame k k1" "length (mmio_in k) \<le> Suc (length (mmio_in k1))"
    by blast
  have off: "dt_node_offset d1 = dt_node_offset d"
    using post(2) by (cases d; cases d1) (auto simp: matched_def bound_def split: if_splits option.splits)
  have k1: "dev_chain (k_devs k1) (dev_next d) qs" "dtb_ok (g_dtb_ptr k1)" "system_console k1 = NULL"
    "length qs \<le> length (mmio_in k1)" "\<forall>q d. k_devs k1 q = Some d \<longrightarrow> dt_node_offset d < 2 ^ 31"
    using chain Cons.prems d off post by (auto simp: match_frame_def dev_chain_upd)
  obtain k' L' where rest: "match_devices k1 (g_dtb_ptr k1) (dev_next d)
        (if init_state d = DEVICE_STATE_UNINIT \<and> init_state d1 = DEVICE_STATE_READY then n + 1 else n)
      = Some (Ret ((if init_state d = DEVICE_STATE_UNINIT \<and> init_state d1 = DEVICE_STATE_READY then n + 1 else n)
          + int (length (filter (newly_ready k1 k') qs))) k')"
    "matches k1 qs k'" "bus_inv k' ps L'" "L1 \<subseteq> L'" "match_frame k1 k'"
    using Cons.IH [OF k1(1) _ post(3) k1(2-5)] Cons.prems(2) by (metis distinct.simps(2))
  have "q \<notin> set qs" "g_dtb_ptr k1 = g_dtb_ptr k"
    using Cons.prems(2) post(5) by (simp_all add: match_frame_def)
  with matches_step [OF post(1) d(1) post(2,5) rest(5,2)] rest run d(2) post(4,5) show ?case
    by (intro exI [of _ k'] exI [of _ L']) (auto intro: match_frame_trans)
qed

section \<open>Properties\<close>

text \<open>
  A board: a tree with a node \<^verbatim>\<open>chosen\<close> whose \<^verbatim>\<open>stdout-path\<close> is \<^verbatim>\<open>/pl011@9:115200\<close> and a node \<^verbatim>\<open>pl011@9\<close> with \<^verbatim>\<open>compatible\<close>
  and \<^verbatim>\<open>reg\<close>, and the kernel with a fresh heap and no devices.
\<close>

definition board_dtb :: fdt where
  "board_dtb = \<lparr>fdt_addr = 0x40000000, fdt_bytes =
    [208, 13, 254, 237, 0, 0, 0, 211, 0, 0, 0, 56, 0, 0, 0, 184, 0, 0, 0, 40,
     0, 0, 0, 17, 0, 0, 0, 16, 0, 0, 0, 0, 0, 0, 0, 27, 0, 0, 0, 128,
     0, 0, 0, 0, 0, 0, 0, 0, 0, 0, 0, 0, 0, 0, 0, 0, 0, 0, 0, 1,
     0, 0, 0, 0, 0, 0, 0, 1, 99, 104, 111, 115, 101, 110, 0, 0, 0, 0, 0, 3,
     0, 0, 0, 16, 0, 0, 0, 0, 47, 112, 108, 48, 49, 49, 64, 57, 58, 49, 49, 53,
     50, 48, 48, 0, 0, 0, 0, 2, 0, 0, 0, 1, 112, 108, 48, 49, 49, 64, 57, 0,
     0, 0, 0, 3, 0, 0, 0, 10, 0, 0, 0, 12, 97, 114, 109, 44, 112, 108, 48, 49,
     49, 0, 0, 0, 0, 0, 0, 3, 0, 0, 0, 16, 0, 0, 0, 23, 0, 0, 0, 0,
     9, 0, 0, 0, 0, 0, 0, 0, 0, 0, 16, 0, 0, 0, 0, 2, 0, 0, 0, 2,
     0, 0, 0, 9, 115, 116, 100, 111, 117, 116, 45, 112, 97, 116, 104, 0, 99, 111, 109, 112,
     97, 116, 105, 98, 108, 101, 0, 114, 101, 103, 0, 0, 0, 0, 0, 0, 0, 0, 0, 0,
     0, 0, 0]\<rparr>"

definition board_kernel :: "kmm \<Rightarrow> kernel" where
  "board_kernel s = \<lparr>k_mm = s, k_devs = Map.empty, k_data = Map.empty, platform_bus = NULL, system_console = NULL,
     g_dtb_ptr = board_dtb, driver_list = [driver_pl011, driver_ns16550], mmio_in = [0, 0], mmio_trace = []\<rparr>"

lemma board_dtb_ok: "dtb_ok board_dtb"
proof -
  have "length (fdt_bytes board_dtb) = 223"
    by (simp add: board_dtb_def)
  moreover have "fdt_totalsize board_dtb = Some 211" "fdt_version board_dtb = Some 17" "fdt_ro_probe' board_dtb = Some 211"
    by code_simp+
  ultimately show ?thesis
    by (simp add: dtb_ok_def fdt_buffer_def)
qed

lemma boot_heap: "kheap boot_mm {}"
proof -
  have "live 0x10000 [Blk 0xFE8 True] = {}"
    by simp
  then show ?thesis
    using boot_inv by (metis kheap_def)
qed

lemma board_bus: "kheap s {} \<Longrightarrow> bus_inv (board_kernel s) [] {}"
  by (simp add: bus_inv_def board_kernel_def)


text \<open>C20: matching on a well-formed bus always ends without a panic and without touching memory it does not own, for any list of drivers,
  when the hardware answers one read per device.  Every device that was not yet initialised is bound to the first driver its
  node names, and is then ready with private data of that driver in a live block, or in error; a device without such a driver
  and a device that was initialised before stay as they are.  The result is the number of devices that became ready, the bus
  stays well formed, and private data set up before is kept.\<close>
theorem platform_bus_match_drivers_correct:
  assumes "dtb_ok (g_dtb_ptr k)" and "bus_inv k ps L" and "system_console k = NULL" and "length ps \<le> length (mmio_in k)"
    and "\<forall>q d. k_devs k q = Some d \<longrightarrow> dt_node_offset d < 2 ^ 31"
  shows "\<exists>k' L'. platform_bus_match_drivers k (g_dtb_ptr k) = Some (Ret (int (length (filter (newly_ready k k') ps))) k')
    \<and> matches k ps k' \<and> bus_inv k' ps L' \<and> L \<subseteq> L' \<and> match_frame k k'"
proof -
  have "dev_chain (k_devs k) (platform_bus k) ps" "distinct ps"
    using assms(2) by (simp_all add: bus_inv_def)
  from match_devices_post [OF this assms(2,1,3,4,5), of 0] show ?thesis
    by (simp add: platform_bus_match_drivers_def)
qed

text \<open>The board with its serial device enumerated at address \<^verbatim>\<open>0x10018\<close>.\<close>

definition enumerated_board :: "kmm \<Rightarrow> kernel" where
  "enumerated_board s = (board_kernel s)\<lparr>platform_bus := 0x10018, k_devs := [0x10018 \<mapsto> zero_device\<lparr>
     dev_name := bytes_of ''pl011@9'', dev_compatible := Some 132, dt_node_offset := 52\<rparr>]\<rparr>"

lemma enumerated_board_bus: "\<exists>s L. bus_inv (enumerated_board s) [0x10018] L"
proof -
  obtain s where s: "heap_inv s 0x10000 [Blk 128 False, Blk 3944 True] [0x10080]"
    using boot_used by auto
  have "live 0x10000 [Blk 128 False, Blk 3944 True] = {(0x10018, 104)}"
    by simp
  then have "kheap s {(0x10018, 104)}"
    using s by (metis kheap_def)
  then have "bus_inv (enumerated_board s) [0x10018] {(0x10018, 104)}"
    by (simp add: bus_inv_def enumerated_board_def board_kernel_def zero_device_def)
  then show ?thesis
    by blast
qed

theorem platform_bus_match_drivers_correct_witness:
  "\<exists>s k' n. platform_bus_match_drivers (enumerated_board s) board_dtb = Some (Ret n k') \<and> n \<le> 1
     \<and> matches (enumerated_board s) [0x10018] k'"
proof -
  obtain s L where "bus_inv (enumerated_board s) [0x10018] L"
    using enumerated_board_bus by blast
  then have "\<exists>k' L'. platform_bus_match_drivers (enumerated_board s) (g_dtb_ptr (enumerated_board s))
      = Some (Ret (int (length (filter (newly_ready (enumerated_board s) k') [0x10018]))) k')
    \<and> matches (enumerated_board s) [0x10018] k' \<and> bus_inv k' [0x10018] L' \<and> L \<subseteq> L' \<and> match_frame (enumerated_board s) k'"
    by (intro platform_bus_match_drivers_correct)
      (auto simp: enumerated_board_def board_kernel_def board_dtb_ok split: if_splits)
  moreover have "g_dtb_ptr (enumerated_board s) = board_dtb"
    by (simp add: enumerated_board_def board_kernel_def)
  ultimately show ?thesis
    by fastforce
qed

end
