(* ===== verification/Mm_Tests.thy ===== *)
theory Mm_Tests
  imports Simple_MM_Props
begin

unbundle bit_operations_syntax

text \<open>
  The boot-time self test of the allocator (\<^verbatim>\<open>init/test.c\<close>): a fixed pattern of releases that merges in every direction, and
  fifty blocks of pseudo-random sizes released in two passes.  Shown is that the tests give back every block they took.
\<close>

section \<open>The tests\<close>

definition STRESS_TEST_ITERATIONS :: nat where "STRESS_TEST_ITERATIONS = 50"
definition MAX_ALLOC_SIZE :: u32 where "MAX_ALLOC_SIZE = 1024"
definition MIN_ALLOC_SIZE :: u32 where "MIN_ALLOC_SIZE = 8"

definition bare_rand :: "u32 \<Rightarrow> u32" where
  "bare_rand rand_state =
     (let rand_state = rand_state XOR push_bit 13 rand_state;
          rand_state = rand_state XOR drop_bit 17 rand_state
      in rand_state XOR push_bit 5 rand_state)"

text \<open>A call of \<^verbatim>\<open>kfree\<close> with the statements behind it.\<close>

definition kfree_then :: "kmm \<Rightarrow> ptr \<Rightarrow> (kmm \<Rightarrow> (kmm, 'a) outcome option) \<Rightarrow> (kmm, 'a) outcome option" where
  "kfree_then s p k = (case kfree s p of Ret _ s \<Rightarrow> k s | Panic s \<Rightarrow> Some (Panic s))"

definition coalesce_frees :: "kmm \<Rightarrow> ptr \<Rightarrow> ptr \<Rightarrow> ptr \<Rightarrow> ptr \<Rightarrow> (kmm, unit) outcome option" where
  "coalesce_frees s p1 p2 p3 p4 =
     (let s = printk_call s ''\<newline>[~] Freeing p2 (Creates isolated free block)...\<newline>'' [] in
      kfree_then s p2 (\<lambda>s.
        let s = printk_call s ''[~] Freeing p3 (Forces FORWARD coalesce: p2 + p3)...\<newline>'' [] in
        kfree_then s p3 (\<lambda>s.
          let s = printk_call s ''[~] Freeing p1 (Forces BACKWARD coalesce: p1 + p2/p3)...\<newline>'' [] in
          kfree_then s p1 (\<lambda>s.
            let s = printk_call s ''[~] Freeing guard block p4...\<newline>'' [] in
            kfree_then s p4 (\<lambda>s. do {
              let s = printk_call s ''Phase 1 Complete. Heap should show consolidated free space.\<newline>'' [];
              s \<leftarrow> simple_mm_dump s;
              Some (Ret () s) })))))"

definition test_deterministic_coalesce :: "kmm \<Rightarrow> (kmm, unit) outcome option" where
  "test_deterministic_coalesce s = do {
     let s = printk_call s ''\<newline>--- PHASE 1: Deterministic Coalescing Test ---\<newline>'' [];
     (p1, s) \<leftarrow> kmalloc s 64;
     (p2, s) \<leftarrow> kmalloc s 128;
     (p3, s) \<leftarrow> kmalloc s 256;
     (p4, s) \<leftarrow> kmalloc s 512;
     let s = printk_call s ''[+] Allocated 4 contiguous blocks: p1=%p, p2=%p, p3=%p, p4=%p\<newline>''
       [VReg p1, VReg p2, VReg p3, VReg p4];
     coalesce_frees s p1 p2 p3 p4 }"

text \<open>The allocation loop from index \<open>i\<close> with \<open>n\<close> iterations left: the blocks it got, in order.\<close>

fun alloc_loop :: "nat \<Rightarrow> nat \<Rightarrow> u32 \<Rightarrow> kmm \<Rightarrow> (ptr list \<times> u32 \<times> kmm) option" where
  "alloc_loop 0 i rand_state s = Some ([], rand_state, s)"
| "alloc_loop (Suc n) i rand_state s = do {
     let rand_state = bare_rand rand_state;
     let sz = ucast (rand_state mod (MAX_ALLOC_SIZE - MIN_ALLOC_SIZE + 1) + MIN_ALLOC_SIZE);
     (p, s) \<leftarrow> kmalloc s sz;
     if p \<noteq> NULL then do {
       (ptrs, rand_state, s) \<leftarrow> alloc_loop n (Suc i) rand_state s;
       Some (p # ptrs, rand_state, s) }
     else Some ([], rand_state,
       printk_call s ''[!] OOM hit at iteration %d (Requested %zu bytes)\<newline>'' [VReg (of_nat i), VReg sz]) }"

text \<open>The two release loops, which start at index 0 and 1.\<close>

function free_loop :: "ptr list \<Rightarrow> nat \<Rightarrow> kmm \<Rightarrow> (kmm, ptr list) outcome" where
  "free_loop ptrs i s =
     (if i < length ptrs then
        (if ptrs ! i \<noteq> NULL then
           (case kfree s (ptrs ! i) of
              Ret _ s \<Rightarrow> free_loop (ptrs[i := NULL]) (i + 2) s
            | Panic s \<Rightarrow> Panic s)
         else free_loop ptrs (i + 2) s)
      else Ret ptrs s)"
  by pat_completeness auto
termination
  by (relation "measure (\<lambda>(ptrs, i, _). length ptrs - i)") auto

declare free_loop.simps [simp del]

definition test_swiss_cheese_stress :: "u32 \<Rightarrow> kmm \<Rightarrow> (kmm, u32) outcome option" where
  "test_swiss_cheese_stress rand_state s = do {
     let s = printk_call s ''\<newline>--- PHASE 2: Swiss Cheese Stress Test ---\<newline>'' [];
     let s = printk_call s ''[+] Allocating %d random-sized blocks...\<newline>'' [VReg (of_nat STRESS_TEST_ITERATIONS)];
     (ptrs, rand_state, s) \<leftarrow> alloc_loop STRESS_TEST_ITERATIONS 0 rand_state s;
     let s = printk_call s ''[+] Successfully allocated %u blocks.\<newline>'' [VReg (of_nat (length ptrs))];
     let s = printk_call s ''[~] Freeing all EVEN indexed blocks (Creating fragmentation)...\<newline>'' [];
     (case free_loop ptrs 0 s of
        Panic s \<Rightarrow> Some (Panic s)
      | Ret ptrs s \<Rightarrow>
          (let s = printk_call s ''[~] Freeing all ODD indexed blocks (Triggering massive coalescing)...\<newline>'' []
           in case free_loop ptrs 1 s of
                Panic s \<Rightarrow> Some (Panic s)
              | Ret ptrs s \<Rightarrow> do {
                  let s = printk_call s ''Phase 2 Complete. Heap must be perfectly unified.\<newline>'' [];
                  s \<leftarrow> simple_mm_dump s;
                  Some (Ret rand_state s) })) }"

definition mm_tests_rule :: string where
  "mm_tests_rule = ''======================================================\<newline>''"

definition run_mm_tests :: "kmm \<Rightarrow> (kmm, u32) outcome option" where
  "run_mm_tests s = do {
     let s = printk_call s (CHR 0x0A # mm_tests_rule) [];
     let s = printk_call s ''           STARTING KERNEL MEMORY STRESS TESTS          \<newline>'' [];
     let s = printk_call s mm_tests_rule [];
     r \<leftarrow> test_deterministic_coalesce s;
     (case r of
        Panic s \<Rightarrow> Some (Panic s)
      | Ret _ s \<Rightarrow> do {
          r \<leftarrow> test_swiss_cheese_stress 0xDEADBEEF s;
          (case r of
             Panic s \<Rightarrow> Some (Panic s)
           | Ret rand_state s \<Rightarrow>
               (let s = printk_call s (CHR 0x0A # mm_tests_rule) [];
                    s = printk_call s ''           MEMORY STRESS TESTS COMPLETED                \<newline>'' [];
                    s = printk_call s mm_tests_rule []
                in Some (Ret rand_state s))) }) }"

section \<open>Clients that keep a set of blocks\<close>

context allocator
begin

text \<open>Beside the live blocks \<open>L\<close> of others, exactly the pointers \<open>P\<close> are live.\<close>

definition held :: "'s \<Rightarrow> region set \<Rightarrow> ptr set \<Rightarrow> bool" where
  "held s L P \<longleftrightarrow> (\<exists>M. heap s (L \<union> M) \<and> L \<inter> M = {} \<and> fst ` M = unat ` P)"

lemma held_none: "held s L {} \<longleftrightarrow> heap s L"
  by (auto simp: held_def)

lemma held_alloc:
  assumes "held s L P" "unat n + 32 < 2 ^ 64" "NULL \<notin> P"
  shows "\<exists>p s'. alloc s n = Some (p, s') \<and> p \<notin> P \<and> held s' L (insert p P - {NULL})"
proof -
  obtain M where M: "heap s (L \<union> M)" "L \<inter> M = {}" "fst ` M = unat ` P"
    using assms(1) by (auto simp: held_def)
  obtain p s' where p: "alloc s n = Some (p, s')"
    and c: "if p = NULL then heap s' (L \<union> M)
         else \<exists>k. heap s' (insert (unat p, k) (L \<union> M)) \<and> (\<forall>r\<in>L \<union> M. apart (unat p, k) r)"
    using alloc_contract [OF M(1) assms(2)] by (fastforce split: if_splits)
  show ?thesis
  proof (cases "p = NULL")
    case True
    with p c M assms(3) show ?thesis by (auto simp: held_def)
  next
    case False
    with c obtain k where k: "heap s' (insert (unat p, k) (L \<union> M))" "\<forall>r\<in>L \<union> M. apart (unat p, k) r"
      by auto
    have fresh: "(unat p, j) \<notin> L \<union> M" for j
    proof
      assume j: "(unat p, j) \<in> L \<union> M"
      show False
        using bspec [OF k(2) j] live_wide [OF k(1), of "unat p" k] live_wide [OF M(1) j] by (simp add: apart_def)
    qed
    then have "p \<notin> P"
      using M(3) by (force simp: image_iff)
    moreover have "held s' L (insert p P)"
      unfolding held_def using k(1) M fresh by (intro exI [of _ "insert (unat p, k) M"]) auto
    ultimately show ?thesis
      using p False assms(3) by simp
  qed
qed

lemma held_alloc_list:
  assumes "held s L (set ps - {NULL})" "unat n + 32 < 2 ^ 64"
  shows "\<exists>p s'. alloc s n = Some (p, s') \<and> p \<notin> set ps - {NULL} \<and> held s' L (set (p # ps) - {NULL})"
proof -
  have "insert p (set ps - {NULL}) - {NULL} = set (p # ps) - {NULL}" for p
    by auto
  then show ?thesis
    using held_alloc [OF assms] by simp
qed

lemma held_release:
  assumes "held s L P" "p \<in> P"
  shows "\<exists>s'. release s p = Ret () s' \<and> held s' L (P - {p})"
proof -
  obtain M where M: "heap s (L \<union> M)" "L \<inter> M = {}" "fst ` M = unat ` P"
    using assms(1) by (auto simp: held_def)
  then obtain k where k: "(unat p, k) \<in> M"
    using assms(2) by (force simp: image_iff)
  then obtain s' where s': "release s p = Ret () s'" "heap s' (L \<union> M - {(unat p, k)})"
    using release_contract [OF M(1), of p k] by auto
  have "fst ` (M - {(unat p, k)}) = fst ` M - {unat p}"
    using held_unique [OF M(1)] k by force
  moreover have "unat ` (P - {p}) = unat ` P - {unat p}"
    by (auto simp: word_unat_eq_iff)
  ultimately have "fst ` (M - {(unat p, k)}) = unat ` (P - {p})"
    using M(3) by simp
  moreover have "L \<union> M - {(unat p, k)} = L \<union> (M - {(unat p, k)})"
    using k M(2) by auto
  ultimately show ?thesis
    using s' M(2) unfolding held_def by (intro exI [of _ s']) (auto intro!: exI [of _ "M - {(unat p, k)}"])
qed

end

section \<open>The tests give everything back\<close>

lemma kheap_log [simp]: "kheap (printk_call s fmt args) L = kheap s L"
  by (simp add: kheap_def heap_inv_def printk_call_def)

lemma kheap_klog: "kheap (s\<lparr>klog := l\<rparr>) L = kheap s L"
  by (simp add: kheap_def heap_inv_def)

lemma held_log [simp]: "simple_heap.held (printk_call s fmt args) L P = simple_heap.held s L P"
  by (simp add: simple_heap.held_def)

lemma dump_heap:
  assumes "kheap s L"
  shows "\<exists>s'. simple_mm_dump s = Some s' \<and> kheap s' L"
proof -
  obtain fs where "ring (kmem s) (free_mem_list_head s) (map nd fs)"
    using assms by (auto simp: kheap_def heap_inv_def heap_ok_def)
  from simple_mm_dump_ring [OF this] assms show ?thesis
    by (auto simp: kheap_klog)
qed

lemma kfree_NULL: "\<exists>s'. kfree s NULL = Panic s'"
  by (simp add: kfree_def simple_free_def assert_fail_def Let_def)

text \<open>
  A test is balanced when it always ends, gives back every block it took, and can only stop in a panic that \<^verbatim>\<open>kfree\<close> of
  \<^verbatim>\<open>NULL\<close> raised.
\<close>

definition balanced :: "region set \<Rightarrow> (kmm, 'a) outcome option \<Rightarrow> bool" where
  "balanced L r \<longleftrightarrow>
     (case r of
        None \<Rightarrow> False
      | Some (Ret _ s') \<Rightarrow> kheap s' L
      | Some (Panic s') \<Rightarrow> \<exists>s. kfree s NULL = Panic s')"

lemma balanced_bind:
  assumes "balanced L r" "\<And>x s'. kheap s' L \<Longrightarrow> balanced L (k x s')"
  shows "balanced L (do { r \<leftarrow> r; (case r of Panic s \<Rightarrow> Some (Panic s) | Ret x s \<Rightarrow> k x s) })"
proof (cases r)
  case None
  then show ?thesis
    using assms(1) by (simp add: balanced_def)
next
  case (Some x)
  then show ?thesis
    using assms by (cases x) (auto simp: balanced_def)
qed

lemma balanced_free:
  assumes "simple_heap.held s L P" "p = NULL \<or> p \<in> P"
    and "\<And>s'. simple_heap.held s' L (P - {p}) \<Longrightarrow> balanced L (k s')"
  shows "balanced L (kfree_then s p k)"
proof (cases "p = NULL")
  case True
  then show ?thesis
    using kfree_NULL [of s] by (auto simp: kfree_then_def balanced_def)
next
  case False
  then obtain s' where "kfree s p = Ret () s'" "simple_heap.held s' L (P - {p})"
    using simple_heap.held_release [OF assms(1)] assms(2) by blast
  then show ?thesis
    using assms(3) by (simp add: kfree_then_def)
qed

lemma balanced_dump:
  assumes "simple_heap.held s L {}"
  shows "balanced L (do { s \<leftarrow> simple_mm_dump (printk_call s fmt args); Some (Ret x s) })"
proof -
  have "kheap (printk_call s fmt args) L"
    using assms by (simp add: simple_heap.held_none)
  from dump_heap [OF this] show ?thesis
    by (auto simp: balanced_def)
qed

lemma coalesce_frees_balanced:
  assumes "simple_heap.held s L P" "P = {p1, p2, p3, p4} - {NULL}"
    and "p2 \<notin> {p1} - {NULL}" "p3 \<notin> {p1, p2} - {NULL}" "p4 \<notin> {p1, p2, p3} - {NULL}"
  shows "balanced L (coalesce_frees s p1 p2 p3 p4)"
proof -
  have m: "p2 = NULL \<or> p2 \<in> P" "p3 = NULL \<or> p3 \<in> P - {p2}" "p1 = NULL \<or> p1 \<in> P - {p2} - {p3}"
    "p4 = NULL \<or> p4 \<in> P - {p2} - {p3} - {p1}" and e: "P - {p2} - {p3} - {p1} - {p4} = {}"
    using assms(2-) by auto
  show ?thesis
    unfolding coalesce_frees_def Let_def
    by (rule balanced_free [OF _ m(1)], simp only: held_log assms(1), rule balanced_free [OF _ m(2)], simp only: held_log,
        rule balanced_free [OF _ m(3)], simp only: held_log, rule balanced_free [OF _ m(4)], simp only: held_log,
        rule balanced_dump, simp only: e)
qed

lemma phase1_balanced:
  assumes "kheap s L"
  shows "balanced L (test_deterministic_coalesce s)"
proof -
  define s0 where "s0 = printk_call s ''\<newline>--- PHASE 1: Deterministic Coalescing Test ---\<newline>'' []"
  have "simple_heap.held s0 L (set [] - {NULL})"
    using assms by (simp add: s0_def simple_heap.held_none)
  then obtain p1 s1 where p1: "kmalloc s0 64 = Some (p1, s1)" "simple_heap.held s1 L (set [p1] - {NULL})"
    using simple_heap.held_alloc_list [of s0 L "[]" 64] by auto
  then obtain p2 s2 where p2: "kmalloc s1 128 = Some (p2, s2)" "p2 \<notin> set [p1] - {NULL}"
    "simple_heap.held s2 L (set [p2, p1] - {NULL})"
    using simple_heap.held_alloc_list [OF p1(2), of 128] by auto
  then obtain p3 s3 where p3: "kmalloc s2 256 = Some (p3, s3)" "p3 \<notin> set [p2, p1] - {NULL}"
    "simple_heap.held s3 L (set [p3, p2, p1] - {NULL})"
    using simple_heap.held_alloc_list [OF p2(3), of 256] by auto
  then obtain p4 s4 where p4: "kmalloc s3 512 = Some (p4, s4)" "p4 \<notin> set [p3, p2, p1] - {NULL}"
    "simple_heap.held s4 L (set [p4, p3, p2, p1] - {NULL})"
    using simple_heap.held_alloc_list [OF p3(3), of 512] by auto
  have "set [p4, p3, p2, p1] - {NULL} = {p1, p2, p3, p4} - {NULL}"
    by auto
  then have "balanced L (coalesce_frees (printk_call s4 fmt args) p1 p2 p3 p4)" for fmt args
    using p2(2) p3(2) p4(2,3) by (intro coalesce_frees_balanced [OF _ refl]) auto
  then show ?thesis
    by (simp add: test_deterministic_coalesce_def s0_def [symmetric] p1(1) p2(1) p3(1) p4(1))
qed

section \<open>The stress test\<close>

lemma alloc_size_small: "unat (ucast (r mod (MAX_ALLOC_SIZE - MIN_ALLOC_SIZE + 1) + MIN_ALLOC_SIZE) :: size_t) + 32 < 2 ^ 64"
proof -
  have "unat (ucast x :: size_t) < 2 ^ 32" for x :: u32
  proof -
    have "unat x < 2 ^ LENGTH(32)"
      by (rule unsigned_less)
    then show ?thesis
      by (simp add: unsigned_ucast_eq take_bit_nat_eq_self)
  qed
  from this [of "r mod (MAX_ALLOC_SIZE - MIN_ALLOC_SIZE + 1) + MIN_ALLOC_SIZE"] show ?thesis
    by simp
qed

lemma alloc_loop_held:
  assumes "simple_heap.held s L P" "NULL \<notin> P"
  shows "\<exists>ptrs r' s'. alloc_loop n i r s = Some (ptrs, r', s') \<and> distinct ptrs \<and> set ptrs \<inter> P = {} \<and> NULL \<notin> set ptrs
    \<and> simple_heap.held s' L (set ptrs \<union> P)"
  using assms
proof (induction n arbitrary: i r s P)
  case (Suc n)
  define r1 where "r1 = bare_rand r"
  define sz :: size_t where "sz = ucast (r1 mod (MAX_ALLOC_SIZE - MIN_ALLOC_SIZE + 1) + MIN_ALLOC_SIZE)"
  have "unat sz + 32 < 2 ^ 64"
    unfolding sz_def by (rule alloc_size_small)
  then obtain p s1 where p: "kmalloc s sz = Some (p, s1)" "p \<notin> P" "simple_heap.held s1 L (insert p P - {NULL})"
    using simple_heap.held_alloc [OF Suc.prems(1) _ Suc.prems(2)] by blast
  show ?case
  proof (cases "p = NULL")
    case True
    then have "insert p P - {NULL} = P"
      using Suc.prems(2) by auto
    with True p show ?thesis
      by (simp add: r1_def [symmetric] sz_def [symmetric])
  next
    case False
    then have "simple_heap.held s1 L (insert p P)" "NULL \<notin> insert p P"
      using p(3) Suc.prems(2) by auto
    from Suc.IH [OF this, of "Suc i" r1] obtain ptrs r' s' where
      "alloc_loop n (Suc i) r1 s1 = Some (ptrs, r', s')" "distinct ptrs" "set ptrs \<inter> insert p P = {}" "NULL \<notin> set ptrs"
      "simple_heap.held s' L (set ptrs \<union> insert p P)"
      by blast
    with False p show ?thesis
      by (simp add: r1_def [symmetric] sz_def [symmetric])
  qed
qed simp

text \<open>The pointers that are still in the array after a release loop from index \<open>i\<close>.\<close>

definition cleared :: "nat \<Rightarrow> ptr list \<Rightarrow> ptr list \<Rightarrow> bool" where
  "cleared i ptrs ptrs' \<longleftrightarrow> length ptrs' = length ptrs
     \<and> (\<forall>j < length ptrs. ptrs' ! j = (if i \<le> j \<and> even (j - i) then NULL else ptrs ! j))"

text \<open>No block is in the array twice.\<close>

definition unaliased :: "ptr list \<Rightarrow> bool" where
  "unaliased ptrs \<longleftrightarrow> (\<forall>i < length ptrs. \<forall>j < length ptrs. ptrs ! i = ptrs ! j \<longrightarrow> i = j \<or> ptrs ! i = NULL)"

lemma unaliased_drop:
  assumes "unaliased ptrs" "i < length ptrs" "ptrs ! i \<noteq> NULL"
  shows "unaliased (ptrs[i := NULL])" and "set (ptrs[i := NULL]) - {NULL} = set ptrs - {NULL} - {ptrs ! i}"
proof -
  show "unaliased (ptrs[i := NULL])"
    using assms(1,2) by (auto simp: unaliased_def nth_list_update split: if_splits)
  show "set (ptrs[i := NULL]) - {NULL} = set ptrs - {NULL} - {ptrs ! i}"
    using assms unfolding unaliased_def set_conv_nth
    by (auto simp: nth_list_update split: if_splits) metis+
qed

lemma cleared_step:
  assumes "cleared (i + 2) (ptrs[i := NULL]) ptrs'" "i < length ptrs"
  shows "cleared i ptrs ptrs'"
  unfolding cleared_def
proof (intro conjI allI impI)
  show "length ptrs' = length ptrs"
    using assms(1) by (simp add: cleared_def)
  fix j
  assume "j < length ptrs"
  then have "ptrs' ! j = (if i + 2 \<le> j \<and> even (j - (i + 2)) then NULL else ptrs[i := NULL] ! j)"
    using assms(1) by (simp add: cleared_def)
  moreover have "j < i \<or> j = i \<or> j = i + 1 \<or> i + 2 \<le> j \<and> (even (j - (i + 2)) \<longleftrightarrow> even (j - i))"
    by auto
  ultimately show "ptrs' ! j = (if i \<le> j \<and> even (j - i) then NULL else ptrs ! j)"
    using assms(2) by (auto simp: nth_list_update)
qed

lemma free_loop_held:
  assumes "simple_heap.held s L (set ptrs - {NULL})" "unaliased ptrs"
  shows "\<exists>ptrs' s'. free_loop ptrs i s = Ret ptrs' s' \<and> simple_heap.held s' L (set ptrs' - {NULL}) \<and> unaliased ptrs'
    \<and> cleared i ptrs ptrs'"
  using assms
proof (induction ptrs i s rule: free_loop.induct)
  case (1 ptrs i s)
  show ?case
  proof (cases "i < length ptrs \<and> ptrs ! i \<noteq> NULL")
    case True
    then have i: "i < length ptrs" "ptrs ! i \<noteq> NULL"
      by auto
    obtain s1 where s1: "kfree s (ptrs ! i) = Ret () s1" "simple_heap.held s1 L (set ptrs - {NULL} - {ptrs ! i})"
      using simple_heap.held_release [OF "1.prems"(1), of "ptrs ! i"] i by auto
    note d = unaliased_drop [OF "1.prems"(2) i]
    obtain ptrs' s' where r: "free_loop (ptrs[i := NULL]) (i + 2) s1 = Ret ptrs' s'"
      "simple_heap.held s' L (set ptrs' - {NULL})" "unaliased ptrs'" "cleared (i + 2) (ptrs[i := NULL]) ptrs'"
      using "1.IH"(1) [OF i s1(1)] s1(2) d by auto
    have "cleared i ptrs ptrs'"
      using r(4) i(1) by (rule cleared_step)
    with r s1 i show ?thesis
      by (simp add: free_loop.simps [of ptrs i s])
  next
    case False
    show ?thesis
    proof (cases "i < length ptrs")
      case True
      with False have i: "i < length ptrs" "\<not> ptrs ! i \<noteq> NULL" "ptrs[i := NULL] = ptrs"
        using list_update_id [of ptrs i] by auto
      with "1.IH"(2) [OF i(1,2) "1.prems"] cleared_step [of i ptrs] show ?thesis
        by (auto simp: free_loop.simps [of ptrs i s])
    qed (use "1.prems" in \<open>auto simp: free_loop.simps [of ptrs i s] cleared_def\<close>)
  qed
qed

lemma phase2_balanced:
  assumes "kheap s L"
  shows "balanced L (test_swiss_cheese_stress r s)"
proof -
  define s0 where "s0 = printk_call (printk_call s ''\<newline>--- PHASE 2: Swiss Cheese Stress Test ---\<newline>'' [])
    ''[+] Allocating %d random-sized blocks...\<newline>'' [VReg (of_nat STRESS_TEST_ITERATIONS)]"
  have "simple_heap.held s0 L {}"
    using assms by (simp add: s0_def simple_heap.held_none)
  from alloc_loop_held [OF this, of STRESS_TEST_ITERATIONS 0 r] obtain ptrs r1 s1 where
    a: "alloc_loop STRESS_TEST_ITERATIONS 0 r s0 = Some (ptrs, r1, s1)" "distinct ptrs" "NULL \<notin> set ptrs"
      "simple_heap.held s1 L (set ptrs)"
    by auto
  define s2 where "s2 = printk_call (printk_call s1 ''[+] Successfully allocated %u blocks.\<newline>'' [VReg (of_nat (length ptrs))])
    ''[~] Freeing all EVEN indexed blocks (Creating fragmentation)...\<newline>'' []"
  have "simple_heap.held s2 L (set ptrs - {NULL})" "unaliased ptrs"
    using a by (auto simp: s2_def unaliased_def nth_eq_iff_index_eq)
  from free_loop_held [OF this, of 0] obtain ptrs1 s3 where
    f: "free_loop ptrs 0 s2 = Ret ptrs1 s3" "simple_heap.held s3 L (set ptrs1 - {NULL})" "unaliased ptrs1" "cleared 0 ptrs ptrs1"
    by blast
  define s4 where "s4 = printk_call s3 ''[~] Freeing all ODD indexed blocks (Triggering massive coalescing)...\<newline>'' []"
  from f(2) have "simple_heap.held s4 L (set ptrs1 - {NULL})"
    by (simp add: s4_def)
  from free_loop_held [OF this f(3), of 1] obtain ptrs2 s5 where
    g: "free_loop ptrs1 1 s4 = Ret ptrs2 s5" "simple_heap.held s5 L (set ptrs2 - {NULL})" "cleared 1 ptrs1 ptrs2"
    by blast
  have "ptrs2 ! j = NULL" if "j < length ptrs2" for j
    using that f(4) g(3) by (cases "even j") (auto simp: cleared_def Suc_le_eq dest: odd_pos)
  then have "set ptrs2 - {NULL} = {}"
    by (auto simp: in_set_conv_nth)
  with g(2) have "simple_heap.held s5 L {}"
    by simp
  from balanced_dump [OF this] show ?thesis
    unfolding test_swiss_cheese_stress_def Let_def s0_def [symmetric] a(1) Option.bind.bind_lunit prod.case
      s2_def [symmetric] f(1) outcome.case s4_def [symmetric] g(1) .
qed

text \<open>C38: the allocator's self test, started on any well-formed heap, always ends.  When it returns, exactly the blocks
  that were live before are live again: every block that the tests allocated was given back, in whatever order.  The only
  panic it can raise is the assertion of \<^verbatim>\<open>kfree\<close> against a null pointer, when the heap is too small for phase 1.\<close>
theorem run_mm_tests_balanced:
  assumes "kheap s L"
  shows "case run_mm_tests s of
      None \<Rightarrow> False
    | Some (Ret _ s') \<Rightarrow> kheap s' L
    | Some (Panic s') \<Rightarrow> \<exists>s. kfree s NULL = Panic s'"
proof -
  have "balanced L (run_mm_tests s)"
    unfolding run_mm_tests_def Let_def
    by (intro balanced_bind phase1_balanced phase2_balanced) (simp_all add: assms balanced_def)
  then show ?thesis
    by (simp add: balanced_def)
qed

theorem run_mm_tests_balanced_witness:
  "case run_mm_tests boot_mm of
      None \<Rightarrow> False
    | Some (Ret _ s') \<Rightarrow> kheap s' {}
    | Some (Panic s') \<Rightarrow> \<exists>s. kfree s NULL = Panic s'"
proof -
  have "live 0x10000 [Blk 0xFE8 True] = {}"
    by simp
  then have "kheap boot_mm {}"
    using boot_inv by (metis kheap_def)
  then show ?thesis
    by (rule run_mm_tests_balanced)
qed

end
