(* ===== verification/Boot.thy ===== *)
theory Boot
  imports Device_Correct Mm_Tests Fdt_Finish
begin

unbundle bit_operations_syntax

text \<open>
  The start of the kernel (\<^verbatim>\<open>init/main.c\<close>, \<^verbatim>\<open>init/test_printk.c\<close>): the allocator, the platform bus and the console brought up in
  order, then the banner and the self tests.  \<open>Ret\<close> is the idle loop at the end of \<^verbatim>\<open>main\<close>, \<open>Panic\<close> is \<^verbatim>\<open>k_panic\<close>.
\<close>

section \<open>The boot sequence\<close>

text \<open>\<^verbatim>\<open>main\<close> up to the check of \<^verbatim>\<open>console_init\<close>; the result of \<^verbatim>\<open>simple_init\<close> is not looked at.\<close>

definition bring_up :: "kernel \<Rightarrow> ptr \<Rightarrow> size_t \<Rightarrow> (kernel, unit) outcome option" where
  "bring_up k heap len = do {
     (_, s) \<leftarrow> simple_init (k_mm k) heap len;
     k \<leftarrow> platform_bus_enumerate (k\<lparr>k_mm := s\<rparr>) (g_dtb_ptr k);
     r \<leftarrow> platform_bus_match_drivers k (g_dtb_ptr k);
     (case r of
        Panic k \<Rightarrow> Some (Panic k)
      | Ret _ k \<Rightarrow> do {
          (ret, k) \<leftarrow> console_init k (g_dtb_ptr k);
          Some (if ret < 0 then Panic k else Ret () k) }) }"

definition pr_info :: "kernel \<Rightarrow> string \<Rightarrow> va list \<Rightarrow> kernel option" where
  "pr_info k fmt args = printk k (''[INFO]  '' @ fmt) args"

definition boot_banner :: "kernel \<Rightarrow> kernel option" where
  "boot_banner k = do {
     k \<leftarrow> pr_info k ''======================================\<newline>'' [];
     k \<leftarrow> pr_info k ''  QemuRTOS Boot Sequence Initiated\<newline>'' [];
     k \<leftarrow> pr_info k ''======================================\<newline>'' [];
     k \<leftarrow> pr_info k ''CPU Hart ID: %d\<newline>'' [VReg 0];
     pr_info k ''System Ready.\<newline>'' [] }"

fun printk_all :: "kernel \<Rightarrow> (string \<times> va list) list \<Rightarrow> kernel option" where
  "printk_all k [] = Some k"
| "printk_all k ((fmt, args) # calls) = do { k \<leftarrow> printk k fmt args; printk_all k calls }"

text \<open>The calls of \<^verbatim>\<open>run_printk_tests\<close>; \<^verbatim>\<open>bad_string\<close> has no terminating zero, of which the precision 4 keeps clear.\<close>

definition run_printk_tests :: "kernel \<Rightarrow> kernel option" where
  "run_printk_tests k = printk_all k
     [(''%-12s | %-8s\<newline>'', [VStr (Some ''DRIVER''), VStr (Some ''STATUS'')]),
      (''%-12s | %-8s\<newline>'', [VStr (Some ''uart_pl011''), VStr (Some ''OK'')]),
      (''%-12s | %-8s\<newline>'', [VStr (Some ''virtio_blk''), VStr (Some ''FAILED'')]),
      (''Register dumped at: %#08x\<newline>'', [VReg 0x4F]),
      (''Temp offset: %+d\<newline>'', [VReg 15]),
      (''Temp offset: % d\<newline>'', [VReg 15]),
      (''Temp offset: % d\<newline>'', [VReg (- 15)]),
      (''Subsystem: %.4s\<newline>'', [VStr (Some ''INITXYZ'')]),
      (''%#zx\<newline>'', [VReg 0x8000]),
      (''0x%zx\<newline>'', [VReg 0x8000]),
      (''printing pointer: %p\<newline>'', [VReg 0x8000]),
      (''% p\<newline>'', [VReg 0x8000])]"

definition main :: "kernel \<Rightarrow> ptr \<Rightarrow> size_t \<Rightarrow> (kernel, unit) outcome option" where
  "main k heap len = do {
     r \<leftarrow> bring_up k heap len;
     (case r of
        Panic k \<Rightarrow> Some (Panic k)
      | Ret _ k \<Rightarrow> do {
          k \<leftarrow> boot_banner k;
          r \<leftarrow> run_mm_tests (k_mm k);
          (case r of
             Panic s \<Rightarrow> Some (Panic (k\<lparr>k_mm := s\<rparr>))
           | Ret _ s \<Rightarrow> do {
               k \<leftarrow> run_printk_tests (k\<lparr>k_mm := s\<rparr>);
               Some (Ret () k) }) }) }"

section \<open>Looking up a device\<close>

definition has_name :: "kernel \<Rightarrow> u8 list \<Rightarrow> ptr \<Rightarrow> bool" where
  "has_name k name p = (case k_devs k p of Some d \<Rightarrow> dev_name d = name | None \<Rightarrow> False)"

lemma find_device_chain:
  assumes "dev_chain (k_devs k) p ps"
  shows "find_device k name p = Some (case find (has_name k name) ps of None \<Rightarrow> NULL | Some p \<Rightarrow> p)"
  using assms
proof (induction ps arbitrary: p)
  case Nil
  then show ?case by (simp add: find_device.simps)
next
  case (Cons q ps)
  then obtain d where "k_devs k q = Some d" "p = q" "q \<noteq> NULL" "dev_chain (k_devs k) (dev_next d) ps"
    by (auto split: option.splits)
  with Cons.IH show ?case
    by (auto simp: find_device.simps [of k name q] has_name_def)
qed

lemma dev_chain_NULL: "dev_chain devs p ps \<Longrightarrow> NULL \<notin> set ps"
  by (induction ps arbitrary: p) (auto split: option.splits)

lemma get_device_bus:
  assumes "bus_inv k ps L"
  obtains "platform_bus_get_device k name = Some NULL"
  | p where "platform_bus_get_device k name = Some p" "p \<in> set ps" "p \<noteq> NULL"
proof -
  have chain: "dev_chain (k_devs k) (platform_bus k) ps"
    using assms by (simp add: bus_inv_def)
  from find_device_chain [OF chain] show thesis
    using that dev_chain_NULL [OF chain]
    by (cases "find (has_name k name) ps") (auto simp: platform_bus_get_device_def find_Some_iff in_set_conv_nth)
qed

lemma bus_device: "bus_inv k ps L \<Longrightarrow> p \<in> set ps \<Longrightarrow> \<exists>d. k_devs k p = Some d"
proof -
  have "p \<in> set ps \<Longrightarrow> dev_chain (k_devs k) q ps \<Longrightarrow> \<exists>d. k_devs k p = Some d" for q
    by (induction ps arbitrary: q) (auto split: option.splits)
  then show "bus_inv k ps L \<Longrightarrow> p \<in> set ps \<Longrightarrow> \<exists>d. k_devs k p = Some d"
    by (auto simp: bus_inv_def)
qed

text \<open>\<^verbatim>\<open>platform_bus_get_device\<close> returns, for every name, the first device on the bus with that name, or \<^verbatim>\<open>NULL\<close> when there is none.\<close>
theorem platform_bus_get_device_first:
  assumes "bus_inv k ps L"
  shows "platform_bus_get_device k name = Some (case find (has_name k name) ps of None \<Rightarrow> NULL | Some p \<Rightarrow> p)"
  using assms find_device_chain by (simp add: bus_inv_def platform_bus_get_device_def)

theorem platform_bus_get_device_first_witness:
  "\<exists>s. platform_bus_get_device (enumerated_board s) (bytes_of ''pl011@9'') = Some 0x10018
     \<and> platform_bus_get_device (enumerated_board s) (bytes_of ''none'') = Some NULL"
proof -
  obtain s L where "bus_inv (enumerated_board s) [0x10018] L"
    using enumerated_board_bus by blast
  from platform_bus_get_device_first [OF this] have
    "platform_bus_get_device (enumerated_board s) (bytes_of ''pl011@9'') = Some 0x10018
     \<and> platform_bus_get_device (enumerated_board s) (bytes_of ''none'') = Some NULL"
    by (simp add: has_name_def enumerated_board_def board_kernel_def bytes_of_def)
  then show ?thesis
    by blast
qed

section \<open>Choosing the console\<close>

lemma console_lookup_bus:
  assumes "bus_inv k ps L"
  obtains "console_lookup k buf = Some NULL"
  | p where "console_lookup k buf = Some p" "p \<in> set ps" "p \<noteq> NULL"
proof (cases rule: get_device_bus [OF assms, of "stdout_node_name buf"])
  case 1
  then show thesis
    using that by (cases rule: get_device_bus [OF assms, of buf]) (auto simp: console_lookup_def)
next
  case (2 p)
  then show thesis
    using that(2) by (simp add: console_lookup_def)
qed

text \<open>
  \<^verbatim>\<open>console_init\<close> always returns.  On success the console is a ready device of the bus; on failure there is no new console.
\<close>

definition console_chosen :: "kernel \<Rightarrow> ptr list \<Rightarrow> int \<Rightarrow> ptr \<Rightarrow> bool" where
  "console_chosen k ps ret c \<longleftrightarrow>
     (if ret = 0 then c \<in> set ps \<and> c \<noteq> NULL \<and> (case k_devs k c of Some d \<Rightarrow> init_state d = DEVICE_STATE_READY | None \<Rightarrow> False)
      else ret = - 1 \<and> (c = NULL \<or> c = system_console k))"

lemma console_init_post:
  assumes "dtb_ok dtb" "bus_inv k ps L"
  shows "\<exists>ret c. console_init k dtb = Some (ret, k\<lparr>system_console := c\<rparr>) \<and> console_chosen k ps ret c"
proof -
  have stay: ?thesis if "console_init k dtb = Some (- 1, k)"
    using that by (intro exI [of _ "- 1"] exI [of _ "system_console k"]) (simp add: console_chosen_def)
  obtain n where n: "fdt_path_offset_namelen dtb (bytes_of ''/chosen'') = Some n" "n < 2 ^ 31"
    using fdt_path_offset_namelen_total [OF dtb_ok_buffer [OF assms(1)]] by (auto simp: path_result_def)
  from assms(1) n(2) show ?thesis
  proof (cases rule: dtb_getprop [where name = "bytes_of ''stdout-path''"])
    case (1 e)
    then show ?thesis
      using n(1) by (intro stay) (simp add: console_init_def)
  next
    case (2 p len)
    let ?n = "nat (if len \<ge> 128 then 127 else len)"
    have "p + int ?n \<le> int (length (fdt_bytes dtb))"
      using 2 by simp
    then obtain bs where bs: "blob_bytes dtb p ?n = Some bs"
      using blob_bytes_spec [of p ?n dtb] 2(2) by blast
    show ?thesis
    proof (cases "n < 0 \<or> len \<le> 0 \<or> stdout_node_name (stdout_buf bs) = []")
      case True
      then show ?thesis
        using n(1) 2 bs by (intro stay) (auto simp: console_init_def Let_def)
    next
      case False
      obtain c where c: "console_lookup k (stdout_buf bs) = Some c" "c = NULL \<or> c \<in> set ps"
        by (rule console_lookup_bus [OF assms(2), of "stdout_buf bs"]) auto
      define ready where "ready \<longleftrightarrow> c \<noteq> NULL \<and> (case k_devs k c of Some d \<Rightarrow> init_state d = DEVICE_STATE_READY | None \<Rightarrow> False)"
      have "console_init k dtb = Some (if ready then (0, k\<lparr>system_console := c\<rparr>) else (- 1, k\<lparr>system_console := NULL\<rparr>))"
        using False n(1) 2 bs c bus_device [OF assms(2), of c]
        by (auto simp: console_init_def Let_def ready_def)
      moreover have "console_chosen k ps 0 c" if ready
        using that c(2) by (auto simp: console_chosen_def ready_def)
      moreover have "console_chosen k ps (- 1) NULL"
        by (simp add: console_chosen_def)
      ultimately show ?thesis
        by (cases ready) auto
    qed
  qed
qed

section \<open>The whole boot\<close>

text \<open>The kernel as the start-up code leaves it: no device, no driver data, no console; the heap region is usable.\<close>

definition reset_state :: "kernel \<Rightarrow> ptr \<Rightarrow> size_t \<Rightarrow> bool" where
  "reset_state k heap len \<longleftrightarrow>
     (\<forall>p. k_devs k p = None \<and> k_data k p = None) \<and> platform_bus k = NULL \<and> system_console k = NULL
     \<and> heap \<noteq> NULL \<and> 56 \<le> unat len \<and> unat len < 2 ^ 32 \<and> unat heap + unat len \<le> 2 ^ 64
     \<and> unat (free_mem_list_head (k_mm k)) + 16 \<le> 2 ^ 64
     \<and> (unat (free_mem_list_head (k_mm k)) + 16 \<le> unat heap
        \<or> unat heap + unat len \<le> unat (free_mem_list_head (k_mm k)))"

text \<open>A console that can be used: a device of the bus that its driver has made ready.\<close>

definition console_works :: "kernel \<Rightarrow> bool" where
  "console_works k \<longleftrightarrow> system_console k \<noteq> NULL \<and>
     (\<exists>d drv f. k_devs k (system_console k) = Some d \<and> init_state d = DEVICE_STATE_READY
        \<and> dev_driver d = Some drv \<and> drv \<in> set (driver_list k) \<and> drv_probe drv = Some f
        \<and> fdt_node_check_compatible (g_dtb_ptr k) (dt_node_offset d) (bytes_of (drv_compatible drv)) = Some 0
        \<and> sets_up f (k_data k (private_data d)))"

lemma matched_ready:
  assumes "matched dtb drvs d k' d'" "init_state d = DEVICE_STATE_UNINIT" "init_state d' = DEVICE_STATE_READY"
  shows "\<exists>drv f. dev_driver d' = Some drv \<and> drv \<in> set drvs \<and> drv_probe drv = Some f
    \<and> fdt_node_check_compatible dtb (dt_node_offset d') (bytes_of (drv_compatible drv)) = Some 0
    \<and> sets_up f (k_data k' (private_data d'))"
proof -
  have ne: "DEVICE_STATE_UNINIT \<noteq> DEVICE_STATE_READY" "DEVICE_STATE_ERROR \<noteq> DEVICE_STATE_READY"
    by (simp_all add: device_state_defs)
  with assms obtain drv where drv: "first_driver dtb drvs d = Some drv" and b: "bound d drv k' d'"
    by (auto simp: matched_def split: option.splits)
  from b assms(3) ne have d': "d' = d\<lparr>dev_driver := Some drv, init_state := DEVICE_STATE_READY, private_data := private_data d'\<rparr>"
    and "case drv_probe drv of None \<Rightarrow> False | Some f \<Rightarrow> sets_up f (k_data k' (private_data d'))"
    by (auto simp: bound_def)
  moreover have "dev_driver d' = Some drv" "dt_node_offset d' = dt_node_offset d"
    by (subst d', simp)+
  ultimately show ?thesis
    using drv by (auto simp: first_driver_def find_Some_iff split: option.splits)
qed

lemma reset_heap:
  assumes "reset_state k heap len"
  shows "\<exists>s. simple_init (k_mm k) heap len = Some (True, s) \<and> bus_inv (k\<lparr>k_mm := s\<rparr>) [] {}"
proof -
  obtain s where s: "simple_init (k_mm k) heap len = Some (True, s)"
    "heap_inv s (unat heap) [Blk (unat len div 8 * 8 - 24) True] [unat heap]"
    using simple_init_ok [of heap "unat heap" len "k_mm k"] assms by (auto simp: reset_state_def)
  moreover have "live (unat heap) [Blk (unat len div 8 * 8 - 24) True] = {}"
    by simp
  ultimately have "kheap s {}"
    by (metis kheap_def)
  with s assms show ?thesis
    by (auto simp: bus_inv_def reset_state_def)
qed

text \<open>The offsets of the nodes that are visited stay in the range of an \<^verbatim>\<open>int\<close>.\<close>

lemma enabled_nodes_range:
  assumes "dtb_ok dtb" "off < 2 ^ 31" "enabled_nodes dtb off depth = Some nodes"
  shows "\<forall>n \<in> set nodes. fst n < 2 ^ 31"
  using assms(2,3)
proof (induction arbitrary: depth nodes rule: offset_induct)
  case (step off)
  show ?case
  proof (cases "off \<ge> 0")
    case False
    with step.prems show ?thesis
      by (simp add: enabled_nodes.simps)
  next
    case True
    obtain next' d where nx: "fdt_next_node dtb off depth = Some (next', d)"
      and fwd: "next' < 0 \<or> off < next' \<and> next' < 2 ^ 31"
      using dtb_ok_buffer [OF assms(1)] step.hyps by (cases rule: fdt_next_node_total [where depth = depth]) auto
    from True nx step.prems obtain c rest where rest: "enabled_nodes dtb next' d = Some rest"
      "nodes = (case c of None \<Rightarrow> rest | Some c \<Rightarrow> (off, c) # rest)"
      by (auto simp: enabled_nodes.simps [of dtb off] split: bind_splits)
    have "\<forall>n \<in> set rest. fst n < 2 ^ 31"
    proof (cases "next' < 0")
      case True
      with rest(1) show ?thesis by (simp add: enabled_nodes.simps)
    qed (use step.IH [of next'] fwd rest(1) in auto)
    with rest(2) step.hyps show ?thesis
      by (auto split: option.splits)
  qed
qed

lemma enumerates_frame:
  assumes "enumerates dtb k nodes new k'"
  shows "g_dtb_ptr k' = g_dtb_ptr k" "system_console k' = system_console k" "mmio_in k' = mmio_in k"
proof -
  obtain s d b where "k' = k\<lparr>k_mm := s, k_devs := d, platform_bus := b\<rparr>"
    using assms unfolding enumerates_def by blast
  then show "g_dtb_ptr k' = g_dtb_ptr k" "system_console k' = system_console k" "mmio_in k' = mmio_in k"
    by simp_all
qed

lemma enumerates_reset:
  assumes "enumerates dtb k nodes new k1" "\<And>p. k_devs k p = None" "\<forall>n \<in> set nodes. fst n < 2 ^ 31" "k_devs k1 p = Some d"
  shows "p \<in> set new \<and> init_state d = DEVICE_STATE_UNINIT \<and> dt_node_offset d < 2 ^ 31"
proof -
  have p: "p \<in> set new"
    using assms(1,2,4) by (auto simp: enumerates_def)
  then obtain i where i: "i < length new" "p = new ! i"
    by (auto simp: in_set_conv_nth)
  then have "enumerated dtb (Some d) (nodes ! i)" "i < length nodes"
    using assms(1,4) by (auto simp: enumerates_def list_all2_conv_all_nth)
  then show ?thesis
    using p assms(3) by (auto simp: enumerated_def)
qed

lemma console_chosen_works:
  assumes "console_chosen k2 ps 0 c" "matches k1 ps k2" "\<And>p d. k_devs k1 p = Some d \<Longrightarrow> init_state d = DEVICE_STATE_UNINIT"
    and "g_dtb_ptr k2 = g_dtb_ptr k1" "driver_list k2 = driver_list k1"
  shows "console_works (k2\<lparr>system_console := c\<rparr>)"
proof -
  obtain d' where d': "c \<noteq> NULL" "c \<in> set ps" "k_devs k2 c = Some d'" "init_state d' = DEVICE_STATE_READY"
    using assms(1) by (auto simp: console_chosen_def split: option.splits)
  then obtain d where d: "k_devs k1 c = Some d" "matched (g_dtb_ptr k1) (driver_list k1) d k2 d'"
    using spec [OF assms(2) [unfolded matches_def], of c] by (auto split: option.splits)
  with matched_ready [OF d(2) _ d'(4)] assms(3-5) d' show ?thesis
    by (auto simp: console_works_def)
qed

text \<open>C4: from the reset state with a usable heap and an accepted device tree, the boot sequence up to the banner always ends, when
  the hardware answers one probe read per enabled node.  Either \<^verbatim>\<open>main\<close> goes on with a console that works, a device of the bus
  that the first driver named by its node has made ready and given private data, or no console was found and the kernel
  panics.  In both cases the bus is well formed and has at most one device per enabled node.\<close>
theorem bring_up_console:
  assumes "dtb_ok (g_dtb_ptr k)" and "reset_state k heap len"
    and "fdt_next_node (g_dtb_ptr k) (- 1) (Some 0) = Some (first, depth)"
    and "enabled_nodes (g_dtb_ptr k) first depth = Some nodes" and "length nodes \<le> length (mmio_in k)"
  shows "\<exists>k' ps L. (bring_up k heap len = Some (Ret () k') \<and> console_works k'
      \<or> bring_up k heap len = Some (Panic k') \<and> system_console k' = NULL)
    \<and> bus_inv k' ps L \<and> length ps \<le> length nodes"
proof -
  obtain s where s: "simple_init (k_mm k) heap len = Some (True, s)" "bus_inv (k\<lparr>k_mm := s\<rparr>) [] {}"
    using reset_heap [OF assms(2)] by blast
  have first: "first < 2 ^ 31"
    by (cases rule: fdt_next_node_total [OF dtb_ok_buffer [OF assms(1)], of "- 1" "Some 0"]) (use assms(3) in auto)
  obtain k1 new L1 where k1: "enumerate_loop (k\<lparr>k_mm := s\<rparr>) (g_dtb_ptr k) first depth = Some k1"
    "bus_inv k1 (rev new) L1" "enumerates (g_dtb_ptr k) (k\<lparr>k_mm := s\<rparr>) nodes new k1"
    using enumerate_loop_bus [OF assms(1) first s(2), of depth] assms(4) by (auto simp: enumerates_from_def)
  have dev: "p \<in> set new \<and> init_state d = DEVICE_STATE_UNINIT \<and> dt_node_offset d < 2 ^ 31"
    if "k_devs k1 p = Some d" for p d
    using k1(3) _ enabled_nodes_range [OF assms(1) first assms(4)] that
    by (rule enumerates_reset) (use assms(2) in \<open>simp add: reset_state_def\<close>)
  have same: "g_dtb_ptr k1 = g_dtb_ptr k" "system_console k1 = NULL" "length (rev new) \<le> length (mmio_in k1)" "length (rev new) \<le> length nodes"
    using enumerates_frame [OF k1(3)] k1(3) assms(2,5) by (simp_all add: reset_state_def enumerates_def)
  have "dev_chain (k_devs k1) (platform_bus k1) (rev new)" "distinct (rev new)"
    using k1(2) by (simp_all add: bus_inv_def)
  then obtain k2 L2 n where k2: "match_devices k1 (g_dtb_ptr k1) (platform_bus k1) 0 = Some (Ret n k2)"
    "matches k1 (rev new) k2" "bus_inv k2 (rev new) L2" "match_frame k1 k2"
    using match_devices_post [of k1 "platform_bus k1" "rev new" "rev new" L1 0] k1(2) assms(1) same dev by fastforce
  have same2: "g_dtb_ptr k2 = g_dtb_ptr k" "system_console k2 = NULL" "driver_list k2 = driver_list k1"
    using k2(4) same by (simp_all add: match_frame_def)
  then obtain ret c where c: "console_init k2 (g_dtb_ptr k2) = Some (ret, k2\<lparr>system_console := c\<rparr>)" "console_chosen k2 (rev new) ret c"
    using console_init_post [OF _ k2(3), of "g_dtb_ptr k2"] assms(1) by auto
  have run: "bring_up k heap len = Some (if ret < 0 then Panic (k2\<lparr>system_console := c\<rparr>) else Ret () (k2\<lparr>system_console := c\<rparr>))"
    using s(1) k1(1) k2(1) c(1) assms(3) same(1) same2(1)
    by (simp add: bring_up_def platform_bus_enumerate_def platform_bus_match_drivers_def)
  have "console_works (k2\<lparr>system_console := c\<rparr>)" if "ret = 0"
    using c(2) [unfolded that] k2(2) dev same2(1,3) same(1) by (intro console_chosen_works) auto
  moreover have "bus_inv (k2\<lparr>system_console := c\<rparr>) (rev new) L2"
    using k2(3) by (simp add: bus_inv_def)
  ultimately show ?thesis
    using run c(2) same2(2) same(4) by (auto simp: console_chosen_def split: if_splits)
qed

definition reset_board :: "nat \<Rightarrow> kernel" where
  "reset_board n = (board_kernel \<lparr>kmem = (\<lambda>_. 0), free_mem_list_head = 0x1000, klog = []\<rparr>)\<lparr>mmio_in := replicate n 0\<rparr>"

theorem bring_up_console_witness:
  "\<exists>n k' ps L. (bring_up (reset_board n) 0x10000 0x1000 = Some (Ret () k') \<and> console_works k'
      \<or> bring_up (reset_board n) 0x10000 0x1000 = Some (Panic k') \<and> system_console k' = NULL)
    \<and> bus_inv k' ps L \<and> length ps \<le> n"
proof -
  obtain first d where first: "fdt_next_node board_dtb (- 1) (Some 0) = Some (first, d)" "first < 2 ^ 31"
    by (cases rule: fdt_next_node_total [OF dtb_ok_buffer [OF board_dtb_ok], of "- 1" "Some 0"]) auto
  obtain nodes where nodes: "enabled_nodes board_dtb first d = Some nodes"
    using enumerate_loop_bus [OF board_dtb_ok first(2) board_bus [OF boot_heap], of d] by (auto simp: enumerates_from_def)
  have k: "g_dtb_ptr (reset_board (length nodes)) = board_dtb" "length nodes \<le> length (mmio_in (reset_board (length nodes)))"
    "reset_state (reset_board (length nodes)) 0x10000 0x1000"
    by (simp_all add: reset_board_def board_kernel_def reset_state_def)
  with bring_up_console [of "reset_board (length nodes)" "0x10000" "0x1000" first d nodes] board_dtb_ok first(1) nodes
  have "\<exists>k' ps L. (bring_up (reset_board (length nodes)) 0x10000 0x1000 = Some (Ret () k') \<and> console_works k'
      \<or> bring_up (reset_board (length nodes)) 0x10000 0x1000 = Some (Panic k') \<and> system_console k' = NULL)
    \<and> bus_inv k' ps L \<and> length ps \<le> length nodes"
    by simp
  then show ?thesis
    by (rule exI)
qed

end
