(* ===== verification/Riscv.thy ===== *)
theory Riscv
  imports Prelude
begin

unbundle bit_operations_syntax

text \<open>
  The RISC-V hart as the code of \<^verbatim>\<open>arch/riscv\<close> uses it, for the 32-bit board (\<^verbatim>\<open>boards/riscv/qemu_virt_rv32gc\<close>): integer
  registers, the machine-mode control registers, memory, and the C state that is not kept at a linker symbol.  The theory holds
  \<^verbatim>\<open>arch/riscv/core/riscv_cpu.c\<close> with the \<^verbatim>\<open>mstatus\<close> bit fields of its header, and the interrupt lock of
  \<^verbatim>\<open>include/arch/riscv/irq.h\<close>.  A call of \<^verbatim>\<open>printk\<close> is appended to \<open>klog\<close>.
\<close>

section \<open>The hart\<close>

record hart =
  xr :: "nat \<Rightarrow> u32"
  pc :: u32
  mstatus :: u32
  mie :: u32
  mip :: u32
  mepc :: u32
  mcause :: u32
  mtval :: u32
  mtvec :: u32
  mhartid :: u32
  ram :: mem
  ecall_handler :: "u32 list"
  g_intCnt :: int
  klog :: "kmsg list"

definition say :: "string \<Rightarrow> va list \<Rightarrow> hart \<Rightarrow> hart" where
  "say fmt args m = m\<lparr>klog := klog m @ [(fmt, args)]\<rparr>"

abbreviation U :: "u32 \<Rightarrow> va" where
  "U v \<equiv> VReg (ucast v)"

text \<open>A \<^verbatim>\<open>long\<close> argument is sign extended.\<close>

abbreviation L :: "u32 \<Rightarrow> va" where
  "L v \<equiv> VReg (scast v)"

definition MSTATUS_MIE :: u32 where "MSTATUS_MIE = push_bit 3 1"
definition MSTATUS_MPIE :: u32 where "MSTATUS_MPIE = push_bit 7 1"
definition MSTATUS_MPP :: u32 where "MSTATUS_MPP = push_bit 11 3"

definition RISCV_CPU_LOCAL_INTERRUPT_SW :: u32 where "RISCV_CPU_LOCAL_INTERRUPT_SW = 8"
definition RISCV_CPU_LOCAL_INTERRUPT_TMR :: u32 where "RISCV_CPU_LOCAL_INTERRUPT_TMR = 128"
definition RISCV_CPU_LOCAL_INTERRUPT_EXT :: u32 where "RISCV_CPU_LOCAL_INTERRUPT_EXT = 2048"

datatype riscv_cpu_interrupt_id_e =
    RISCV_CPU_INTERRUPT_ID_BASE | RISCV_CPU_INTERRUPT_ID_SW | RISCV_CPU_INTERRUPT_ID_TMR | RISCV_CPU_INTERRUPT_ID_EXT

fun interrupt_id :: "riscv_cpu_interrupt_id_e \<Rightarrow> nat" where
  "interrupt_id RISCV_CPU_INTERRUPT_ID_BASE = 0"
| "interrupt_id RISCV_CPU_INTERRUPT_ID_SW = 3"
| "interrupt_id RISCV_CPU_INTERRUPT_ID_TMR = 7"
| "interrupt_id RISCV_CPU_INTERRUPT_ID_EXT = 11"

section \<open>Control register operations\<close>

definition riscv_cpu_myhart_id :: "hart \<Rightarrow> u32" where
  "riscv_cpu_myhart_id m = mhartid m"

definition riscv_cpu_interrupt_global_enable :: "hart \<Rightarrow> hart" where
  "riscv_cpu_interrupt_global_enable m = m\<lparr>mstatus := mstatus m OR MSTATUS_MIE\<rparr>"

definition riscv_cpu_interrupt_global_disable :: "hart \<Rightarrow> hart" where
  "riscv_cpu_interrupt_global_disable m = m\<lparr>mstatus := mstatus m AND NOT MSTATUS_MIE\<rparr>"

definition riscv_cpu_save_and_disable_global_int :: "hart \<Rightarrow> u32 \<times> hart" where
  "riscv_cpu_save_and_disable_global_int m =
     (mstatus m AND MSTATUS_MIE, m\<lparr>mstatus := mstatus m AND NOT MSTATUS_MIE\<rparr>)"

definition riscv_cpu_restore_global_interrupts :: "u32 \<Rightarrow> hart \<Rightarrow> hart" where
  "riscv_cpu_restore_global_interrupts saved_mstatus_mie m =
     (if saved_mstatus_mie AND MSTATUS_MIE \<noteq> 0 then m\<lparr>mstatus := mstatus m OR MSTATUS_MIE\<rparr>
      else m\<lparr>mstatus := mstatus m AND NOT MSTATUS_MIE\<rparr>)"

definition riscv_cpu_interrupt_software_enable :: "hart \<Rightarrow> hart" where
  "riscv_cpu_interrupt_software_enable m = m\<lparr>mie := mie m OR RISCV_CPU_LOCAL_INTERRUPT_SW\<rparr>"

definition riscv_cpu_interrupt_software_disable :: "hart \<Rightarrow> hart" where
  "riscv_cpu_interrupt_software_disable m = m\<lparr>mie := mie m AND NOT RISCV_CPU_LOCAL_INTERRUPT_SW\<rparr>"

definition riscv_cpu_interrupt_mtimer_enable :: "hart \<Rightarrow> hart" where
  "riscv_cpu_interrupt_mtimer_enable m = m\<lparr>mie := mie m OR RISCV_CPU_LOCAL_INTERRUPT_TMR\<rparr>"

definition riscv_cpu_interrupt_mtimer_disable :: "hart \<Rightarrow> hart" where
  "riscv_cpu_interrupt_mtimer_disable m = m\<lparr>mie := mie m AND NOT RISCV_CPU_LOCAL_INTERRUPT_TMR\<rparr>"

definition riscv_cpu_interrupt_external_enable :: "hart \<Rightarrow> hart" where
  "riscv_cpu_interrupt_external_enable m = m\<lparr>mie := mie m OR RISCV_CPU_LOCAL_INTERRUPT_EXT\<rparr>"

definition riscv_cpu_interrupt_external_disable :: "hart \<Rightarrow> hart" where
  "riscv_cpu_interrupt_external_disable m = m\<lparr>mie := mie m AND NOT RISCV_CPU_LOCAL_INTERRUPT_EXT\<rparr>"

definition riscv_cpu_interrupt_local_enable :: "riscv_cpu_interrupt_id_e \<Rightarrow> hart \<Rightarrow> hart" where
  "riscv_cpu_interrupt_local_enable n m = m\<lparr>mie := mie m OR push_bit (interrupt_id n) 1\<rparr>"

definition riscv_cpu_interrupt_local_disable :: "riscv_cpu_interrupt_id_e \<Rightarrow> hart \<Rightarrow> hart" where
  "riscv_cpu_interrupt_local_disable n m = m\<lparr>mie := mie m AND NOT (push_bit (interrupt_id n) 1)\<rparr>"

section \<open>The cycle counter\<close>

text \<open>
  \<open>c n\<close> is the 64-bit counter when the \<open>n\<close>-th control register read of the loop happens; an iteration makes three reads.  Not
  returning is \<open>None\<close>.
\<close>

partial_function (option) riscv_cpu_mcycle_get :: "(nat \<Rightarrow> u64) \<Rightarrow> nat \<Rightarrow> u64 option" where
  "riscv_cpu_mcycle_get c n =
     (let hi = ucast (drop_bit 32 (c n)) :: u32;
          lo = ucast (c (n + 1)) :: u32;
          hi1 = ucast (drop_bit 32 (c (n + 2))) :: u32
      in if hi \<noteq> hi1 then riscv_cpu_mcycle_get c (n + 3)
         else Some (push_bit 32 (ucast hi) OR ucast lo))"

section \<open>Register dumps\<close>

text \<open>
  The bit-field view of the union \<^verbatim>\<open>mstatus_t\<close>, least significant field first.  The widths before \<^verbatim>\<open>sd\<close> add up to 32, so
  \<^verbatim>\<open>sd\<close> lies in a second 32-bit unit, which nothing writes: its content is the argument \<open>unit1\<close>.
\<close>

record mstatus_t =
  uie :: u32
  sie :: u32
  reserved1 :: u32
  mie_bit :: u32
  reserved2 :: u32
  spie :: u32
  reserved3 :: u32
  mpie :: u32
  spp :: u32
  reserved4 :: u32
  mpp :: u32
  fs :: u32
  xs :: u32
  mprv :: u32
  sum :: u32
  mxr :: u32
  tvm :: u32
  tw :: u32
  tsr :: u32
  reserved5 :: u32
  sd :: u32

definition bitfield :: "nat \<Rightarrow> nat \<Rightarrow> u32 \<Rightarrow> u32" where
  "bitfield pos width v = take_bit width (drop_bit pos v)"

definition mstatus_bits :: "u32 \<Rightarrow> u32 \<Rightarrow> mstatus_t" where
  "mstatus_bits v unit1 =
     \<lparr>uie = bitfield 0 1 v, sie = bitfield 1 1 v, reserved1 = bitfield 2 1 v, mie_bit = bitfield 3 1 v,
      reserved2 = bitfield 4 1 v, spie = bitfield 5 1 v, reserved3 = bitfield 6 1 v, mpie = bitfield 7 1 v,
      spp = bitfield 8 1 v, reserved4 = bitfield 9 2 v, mpp = bitfield 11 2 v, fs = bitfield 13 2 v,
      xs = bitfield 15 2 v, mprv = bitfield 17 1 v, sum = bitfield 18 1 v, mxr = bitfield 19 1 v,
      tvm = bitfield 20 1 v, tw = bitfield 21 1 v, tsr = bitfield 22 1 v, reserved5 = bitfield 23 9 v,
      sd = bitfield 0 1 unit1\<rparr>"

definition print_mstatus :: "u32 \<Rightarrow> hart \<Rightarrow> hart" where
  "print_mstatus unit1 m = (let b = mstatus_bits (mstatus m) unit1 in
     say ''MSTATUS: 0x%08x (uie:%u sie:%u mie:%u mpie:%u spie:%u spp:%u mpp:%u fs:%u xs:%u mprv:%u sum:%u mxr:%u tvm:%u tw:%u tsr:%u sd:%u)\<newline>''
       [U (mstatus m), U (uie b), U (sie b), U (mie_bit b), U (mpie b), U (spie b), U (spp b), U (mpp b), U (fs b), U (xs b),
        U (mprv b), U (sum b), U (mxr b), U (tvm b), U (tw b), U (tsr b), U (sd b)] m)"

definition riscv_cpu_interrupt_regs_info :: "u32 \<Rightarrow> hart \<Rightarrow> hart" where
  "riscv_cpu_interrupt_regs_info unit1 m =
     (let mie_val = mie m;
          mip_val = mip m;
          m = say ''MIE :0x%016lx  (msie:%lu  mtie:%lu  meie:%lu)\<newline>''
                [U mie_val, U (drop_bit 3 mie_val AND 1), U (drop_bit 7 mie_val AND 1), U (drop_bit 11 mie_val AND 1)] m;
          m = say ''MIP :0x%016lx  (msip:%lu  mtip:%lu  meip:%lu)\<newline>''
                [U mip_val, U (drop_bit 3 mip_val AND 1), U (drop_bit 7 mip_val AND 1), U (drop_bit 11 mip_val AND 1)] m
      in print_mstatus unit1 m)"

section \<open>The interrupt lock\<close>

definition arch_irq_lock :: "hart \<Rightarrow> u32 \<times> hart" where
  "arch_irq_lock m = (mstatus m, m\<lparr>mstatus := mstatus m AND NOT MSTATUS_MIE\<rparr>)"

definition arch_irq_unlock :: "u32 \<Rightarrow> hart \<Rightarrow> hart" where
  "arch_irq_unlock key m = m\<lparr>mstatus := mstatus m OR (key AND MSTATUS_MIE)\<rparr>"

text \<open>\<open>irqs_on\<close>: the hart takes interrupts.\<close>

definition irqs_on :: "hart \<Rightarrow> bool" where
  "irqs_on m = bit (mstatus m) 3"

lemma MSTATUS_MIE_bit [simp]: "bit MSTATUS_MIE n \<longleftrightarrow> n = 3"
  unfolding MSTATUS_MIE_def by (auto simp only: bit_push_bit_iff bit_1_iff possible_bit_word) simp_all

lemma and_MIE_zero: "w AND MSTATUS_MIE = 0 \<longleftrightarrow> \<not> bit w 3"
proof
  assume "w AND MSTATUS_MIE = 0"
  then have "\<not> bit (w AND MSTATUS_MIE) 3" by simp
  then show "\<not> bit w 3" by (simp add: bit_and_iff)
next
  assume "\<not> bit w 3"
  then show "w AND MSTATUS_MIE = 0"
    by (intro bit_word_eqI) (auto simp: bit_and_iff)
qed

lemma mstatus_relock [simp]:
  "(s AND NOT MSTATUS_MIE) OR (s AND MSTATUS_MIE) = s"
  "bit s 3 \<Longrightarrow> (s AND NOT MSTATUS_MIE) OR MSTATUS_MIE = s"
  "\<not> bit s 3 \<Longrightarrow> s AND NOT MSTATUS_MIE = s"
  "(s AND NOT MSTATUS_MIE) AND NOT MSTATUS_MIE = s AND NOT MSTATUS_MIE"
  by (rule bit_word_eqI; auto simp: bit_or_iff bit_and_iff bit_not_iff_eq)+

text \<open>
  Critical sections as a step system.  The state is the hart with the keys of the open sections, innermost first; the rest of the
  kernel may do anything that leaves \<^verbatim>\<open>mstatus\<close> alone.
\<close>

inductive section_step :: "(hart \<Rightarrow> u32 \<times> hart) \<Rightarrow> (u32 \<Rightarrow> hart \<Rightarrow> hart) \<Rightarrow> hart \<times> u32 list \<Rightarrow> hart \<times> u32 list \<Rightarrow> bool"
  for lock unlock where
  enter: "lock m = (key, m') \<Longrightarrow> section_step lock unlock (m, keys) (m', key # keys)"
| leave: "section_step lock unlock (m, key # keys) (unlock key m, keys)"
| work: "mstatus m' = mstatus m \<Longrightarrow> section_step lock unlock (m, keys) (m', keys)"

text \<open>
  What a pair of functions has to promise for critical sections to nest, and what follows from it for every run.
\<close>

locale irq_guard =
  fixes lock :: "hart \<Rightarrow> u32 \<times> hart" and unlock :: "u32 \<Rightarrow> hart \<Rightarrow> hart"
  assumes lock_off: "mstatus (snd (lock m)) = mstatus m AND NOT MSTATUS_MIE"
    and lock_key: "mstatus m1 = mstatus m2 \<Longrightarrow> fst (lock m1) = fst (lock m2)"
    and unlock_back: "mstatus m' = mstatus m AND NOT MSTATUS_MIE \<Longrightarrow> mstatus (unlock (fst (lock m)) m') = mstatus m"
begin

definition sections_ok :: "hart \<Rightarrow> hart \<times> u32 list \<Rightarrow> bool" where
  "sections_ok m0 = (\<lambda>(m, keys).
     if keys = [] then mstatus m = mstatus m0
     else mstatus m = mstatus m0 AND NOT MSTATUS_MIE \<and>
       (\<exists>n. keys = replicate n (fst (lock (m0\<lparr>mstatus := mstatus m0 AND NOT MSTATUS_MIE\<rparr>))) @ [fst (lock m0)]))"

lemma sections_ok_enter:
  assumes "sections_ok m0 (m, keys)"
  shows "sections_ok m0 (snd (lock m), fst (lock m) # keys)"
proof (cases "keys = []")
  case True
  then show ?thesis
    using assms lock_key [of m m0] by (simp add: sections_ok_def lock_off exI [of _ 0])
next
  case False
  let ?off = "m0\<lparr>mstatus := mstatus m0 AND NOT MSTATUS_MIE\<rparr>"
  from False assms obtain n where n: "keys = replicate n (fst (lock ?off)) @ [fst (lock m0)]"
      and m: "mstatus m = mstatus ?off"
    by (auto simp: sections_ok_def)
  from n lock_key [OF m] have "\<exists>n. fst (lock m) # keys = replicate n (fst (lock ?off)) @ [fst (lock m0)]"
    by (intro exI [of _ "Suc n"]) simp
  with m show ?thesis
    by (simp add: sections_ok_def lock_off del: replicate_Suc)
qed

lemma sections_ok_leave:
  assumes "sections_ok m0 (m, key # keys)"
  shows "sections_ok m0 (unlock key m, keys)"
proof -
  let ?off = "m0\<lparr>mstatus := mstatus m0 AND NOT MSTATUS_MIE\<rparr>"
  from assms obtain n where m: "mstatus m = mstatus m0 AND NOT MSTATUS_MIE"
      and n: "key # keys = replicate n (fst (lock ?off)) @ [fst (lock m0)]"
    by (auto simp: sections_ok_def)
  show ?thesis
  proof (cases n)
    case 0
    with n m show ?thesis
      by (auto simp: sections_ok_def unlock_back)
  next
    case (Suc k)
    with n have "key = fst (lock ?off)" "keys = replicate k (fst (lock ?off)) @ [fst (lock m0)]"
      by auto
    with m unlock_back [of m ?off] show ?thesis
      by (auto simp: sections_ok_def)
  qed
qed

lemma sections_ok_reachable:
  assumes "(section_step lock unlock)\<^sup>*\<^sup>* (m0, []) s"
  shows "sections_ok m0 s"
  using assms
proof (induction rule: rtranclp_induct)
  case base
  then show ?case by (simp add: sections_ok_def)
next
  case (step s t)
  from step(2) step.IH show ?case
  proof cases
    case (enter m key m' keys)
    then show ?thesis using step.IH sections_ok_enter [of m0 m keys] by simp
  next
    case (leave m key keys)
    then show ?thesis using step.IH sections_ok_leave by simp
  next
    case (work m' m keys)
    then show ?thesis using step.IH by (simp add: sections_ok_def)
  qed
qed

lemma nested_sections:
  assumes "(section_step lock unlock)\<^sup>*\<^sup>* (m0, []) (m, keys)"
  shows "if keys = [] then mstatus m = mstatus m0 else \<not> irqs_on m"
  using sections_ok_reachable [OF assms] by (auto simp: sections_ok_def irqs_on_def bit_simps)

end

interpretation irq_api: irq_guard arch_irq_lock arch_irq_unlock
  by unfold_locales (simp_all add: arch_irq_lock_def arch_irq_unlock_def)

interpretation cpu_api: irq_guard riscv_cpu_save_and_disable_global_int riscv_cpu_restore_global_interrupts
  by unfold_locales
    (auto simp: riscv_cpu_save_and_disable_global_int_def riscv_cpu_restore_global_interrupts_def and_MIE_zero bit_simps)

definition hart0 :: hart where
  "hart0 = \<lparr>xr = (\<lambda>_. 0), pc = 0x80000000, mstatus = 8, mie = 0, mip = 0, mepc = 0, mcause = 0, mtval = 0, mtvec = 0x80000080,
     mhartid = 0, ram = (\<lambda>_. 0), ecall_handler = replicate 128 0, g_intCnt = 0, klog = []\<rparr>"

text \<open>C30: However critical sections of \<^verbatim>\<open>arch_irq_lock\<close> and \<^verbatim>\<open>arch_irq_unlock\<close> are nested and
  interleaved with other code, interrupts are off while a section is open, and once all are closed \<^verbatim>\<open>mstatus\<close> is what it was.\<close>

theorem irq_lock_sections:
  assumes "(section_step arch_irq_lock arch_irq_unlock)\<^sup>*\<^sup>* (m0, []) (m, keys)"
  shows "if keys = [] then mstatus m = mstatus m0 else \<not> irqs_on m"
  using assms by (rule irq_api.nested_sections)

theorem irq_lock_sections_witness:
  "\<not> irqs_on (arch_irq_unlock 0 (hart0\<lparr>mstatus := 0\<rparr>)) \<and> irqs_on hart0"
proof -
  let ?step = "section_step arch_irq_lock arch_irq_unlock" and ?off = "hart0\<lparr>mstatus := 0\<rparr>"
  have "?step (hart0, []) (?off, [8])" "?step (?off, [8]) (?off, [0, 8])" "?step (?off, [0, 8]) (arch_irq_unlock 0 ?off, [8])"
    by (auto intro!: enter leave simp: arch_irq_lock_def hart0_def MSTATUS_MIE_def)
  then have "?step\<^sup>*\<^sup>* (hart0, []) (arch_irq_unlock 0 ?off, [8])"
    by (blast intro: rtranclp.rtrancl_into_rtrancl rtranclp.rtrancl_refl)
  from irq_lock_sections [OF this] show ?thesis
    by (simp add: irqs_on_def hart0_def bit_numeral_rec)
qed

section \<open>Reading the cycle counter\<close>

abbreviation hi_half :: "u64 \<Rightarrow> u32" where
  "hi_half v \<equiv> ucast (drop_bit 32 v)"

lemma unat_hi_half: "unat (hi_half v) = unat v div 4294967296"
proof -
  have "unat v div 4294967296 < 4294967296"
    using unat_u64_bound [of v] by (simp add: less_mult_imp_div_less)
  then show ?thesis
    by (simp add: unsigned_ucast_eq drop_bit_eq_div unat_div take_bit_nat_eq_self)
qed

lemma hi_half_eq: "hi_half a = hi_half b \<longleftrightarrow> unat a div 4294967296 = unat b div 4294967296"
  by (metis unat_hi_half word_unat_eq_iff)

lemma halves_join: "hi_half a = hi_half v \<Longrightarrow> push_bit 32 (ucast (hi_half a)) OR ucast (ucast v :: u32) = v"
  using word64_halves [of v] by (simp add: or.commute)

text \<open>The counter as the three reads of one round see it: it only grows, and does not wrap around at 64 bits.\<close>

definition counts_up :: "(nat \<Rightarrow> u64) \<Rightarrow> bool" where
  "counts_up c = (\<forall>i j. i \<le> j \<longrightarrow> unat (c i) \<le> unat (c j))"

lemma counts_up_div:
  "counts_up c \<Longrightarrow> i \<le> j \<Longrightarrow> unat (c i) div 4294967296 \<le> unat (c j) div 4294967296"
  by (simp add: counts_up_def div_le_mono)

lemma mcycle_round:
  assumes "counts_up c" "j = n + 1" "k = n + 2" "n' = n + 3"
  shows "riscv_cpu_mcycle_get c n = (if hi_half (c n) = hi_half (c k) then Some (c j) else riscv_cpu_mcycle_get c n')"
proof -
  have "hi_half (c n) = hi_half (c k) \<Longrightarrow> hi_half (c n) = hi_half (c j)"
    using counts_up_div [OF assms(1), of n j] counts_up_div [OF assms(1), of j k] assms(2,3)
    unfolding hi_half_eq by linarith
  from halves_join [OF this] assms(2-4) show ?thesis
    by (subst riscv_cpu_mcycle_get.simps) (auto simp: Let_def)
qed

text \<open>Two rounds that both see the upper half change span at least a whole turn of the lower half.\<close>

lemma hi_half_changes_once:
  assumes "counts_up c" and "unat (c 5) - unat (c 0) < 4294967296"
    and "hi_half (c 0) \<noteq> hi_half (c 2)"
  shows "hi_half (c 3) = hi_half (c 5)"
proof (rule ccontr)
  assume "hi_half (c 3) \<noteq> hi_half (c 5)"
  with assms(3) counts_up_div [OF assms(1), of 0 2] counts_up_div [OF assms(1), of 2 3] counts_up_div [OF assms(1), of 3 5]
  have "unat (c 0) div 4294967296 + 2 \<le> unat (c 5) div 4294967296"
    unfolding hi_half_eq by linarith
  then have "unat (c 0) + 4294967296 \<le> unat (c 5)"
    using div_mult_mod_eq [of "unat (c 0)" 4294967296] div_mult_mod_eq [of "unat (c 5)" 4294967296]
      mod_less_divisor [of 4294967296 "unat (c 0)"] by linarith
  with assms(2) show False by simp
qed

text \<open>Provided the counter does not advance by \<^verbatim>\<open>2^32\<close> cycles during six register reads, the loop of
  \<^verbatim>\<open>riscv_cpu_mcycle_get\<close> ends after at most two rounds, and the value it puts together from two 32-bit reads is the exact
  64-bit counter at the moment of one of them.\<close>

theorem mcycle_get_exact:
  assumes "counts_up c" and "unat (c 5) - unat (c 0) < 4294967296"
  shows "riscv_cpu_mcycle_get c 0 = Some (c 1) \<or> riscv_cpu_mcycle_get c 0 = Some (c 4)"
proof (cases "hi_half (c 0) = hi_half (c 2)")
  case True
  then show ?thesis by (simp add: mcycle_round [OF assms(1), where n = 0 and j = 1 and k = 2 and n' = 3])
next
  case False
  with hi_half_changes_once [OF assms False] show ?thesis
    by (simp add: mcycle_round [OF assms(1), where n = 0 and j = 1 and k = 2 and n' = 3]
        mcycle_round [OF assms(1), where n = 3 and j = 4 and k = 5 and n' = 6])
qed

text \<open>The lower half turns over between the first and the second read: the second round gives the value.\<close>

definition turning_counter :: "nat \<Rightarrow> u64" where
  "turning_counter n = (if n = 0 then 0xFFFFFFFF else if n < 6 then 0x100000000 + of_nat n else 0x100000006)"

theorem mcycle_get_exact_witness:
  "riscv_cpu_mcycle_get turning_counter 0 = Some 0x100000004"
proof -
  have "counts_up turning_counter"
    by (auto simp: counts_up_def turning_counter_def unat_word_ariths unat_of_nat)
  moreover have "unat (turning_counter 5) - unat (turning_counter 0) < 4294967296"
    by (simp add: turning_counter_def)
  ultimately have "riscv_cpu_mcycle_get turning_counter 0 = Some (turning_counter 1) \<or>
      riscv_cpu_mcycle_get turning_counter 0 = Some (turning_counter 4)"
    by (rule mcycle_get_exact)
  moreover have "riscv_cpu_mcycle_get turning_counter 0 \<noteq> Some (turning_counter 1)"
    by (subst riscv_cpu_mcycle_get.simps, subst riscv_cpu_mcycle_get.simps) (simp add: turning_counter_def)
  ultimately show ?thesis
    by (simp add: turning_counter_def)
qed

end
