(* ===== verification/Riscv_Trap.thy ===== *)
theory Riscv_Trap
  imports Riscv
begin

unbundle bit_operations_syntax

text \<open>
  The trap path of the RISC-V port for the 32-bit board: the context macros of \<^verbatim>\<open>arch/riscv/core/portContext.h\<close> as lists of
  instructions, the assembly handlers of \<^verbatim>\<open>trap.S\<close> and the vector table of \<^verbatim>\<open>vector.S\<close>, the C handlers of \<^verbatim>\<open>exception.c\<close> and
  \<^verbatim>\<open>interrupt.c\<close>, and the system call stubs of \<^verbatim>\<open>include/arch/riscv/syscall.h\<close>.

  A layout gives the addresses of the globals that both assembly and C use.  The compiled C code of a handler may leave anything in the
  caller-saved registers (\<open>junk\<close>) and keeps the others, as the calling convention says; its use of the stack is not modelled.
  The code at the addresses of the system call table is a parameter (\<open>code\<close>).
\<close>

section \<open>Instructions\<close>

datatype sym =
    G_exception_nest_cnt | G_current_stack_pointer | G_critical_nesting_cnt | P_critical_nesting_cnt | XISRStackTop

type_synonym layout = "sym \<Rightarrow> u32"

definition global :: "layout \<Rightarrow> sym \<Rightarrow> hart \<Rightarrow> u32" where
  "global lay s m = rd32 (ram m) (unat (lay s))"

datatype csr = Mstatus | Mepc | Mcause

text \<open>\<open>Bnez r n\<close> jumps forward over the next \<open>n\<close> instructions; \<open>Load_sym\<close> loads the word stored at a symbol, \<open>La\<close> its address.\<close>

datatype insn =
    Addi nat nat u32
  | Store_x nat u32 nat
  | Load_x nat u32 nat
  | Load_sym nat sym
  | La nat sym
  | Csrr nat csr
  | Csrw csr nat
  | Bnez nat nat
  | Mret

definition set_x :: "nat \<Rightarrow> u32 \<Rightarrow> hart \<Rightarrow> hart" where
  "set_x r v m = (if r = 0 then m else m\<lparr>xr := (xr m)(r := v)\<rparr>)"

text \<open>Taking a trap to machine mode and returning from it, on the bits of \<^verbatim>\<open>mstatus\<close>.\<close>

definition trap_status :: "u32 \<Rightarrow> u32" where
  "trap_status s = (s AND NOT (MSTATUS_MIE OR MSTATUS_MPIE)) OR MSTATUS_MPP OR (if bit s 3 then MSTATUS_MPIE else 0)"

definition mret_status :: "u32 \<Rightarrow> u32" where
  "mret_status s = (s AND NOT (MSTATUS_MIE OR MSTATUS_MPP)) OR MSTATUS_MPIE OR (if bit s 7 then MSTATUS_MIE else 0)"

fun csr_of :: "csr \<Rightarrow> hart \<Rightarrow> u32" where
  "csr_of Mstatus m = mstatus m"
| "csr_of Mepc m = mepc m"
| "csr_of Mcause m = mcause m"

fun csr_put :: "csr \<Rightarrow> u32 \<Rightarrow> hart \<Rightarrow> hart" where
  "csr_put Mstatus v m = m\<lparr>mstatus := v\<rparr>"
| "csr_put Mepc v m = m\<lparr>mepc := v\<rparr>"
| "csr_put Mcause v m = m\<lparr>mcause := v\<rparr>"

fun exec1 :: "layout \<Rightarrow> insn \<Rightarrow> hart \<Rightarrow> hart" where
  "exec1 lay (Addi d s i) m = set_x d (xr m s + i) m"
| "exec1 lay (Store_x s off b) m = m\<lparr>ram := wr32 (ram m) (unat (xr m b + off)) (xr m s)\<rparr>"
| "exec1 lay (Load_x d off b) m = set_x d (rd32 (ram m) (unat (xr m b + off))) m"
| "exec1 lay (Load_sym d s) m = set_x d (global lay s m) m"
| "exec1 lay (La d s) m = set_x d (lay s) m"
| "exec1 lay (Csrr d c) m = set_x d (csr_of c m) m"
| "exec1 lay (Csrw c s) m = csr_put c (xr m s) m"
| "exec1 lay (Bnez r n) m = m"
| "exec1 lay Mret m = m\<lparr>pc := mepc m, mstatus := mret_status (mstatus m)\<rparr>"

function run :: "layout \<Rightarrow> insn list \<Rightarrow> hart \<Rightarrow> hart" where
  "run lay [] m = m"
| "run lay (i # is) m = (case i of
     Bnez r n \<Rightarrow> run lay (if xr m r \<noteq> 0 then drop n is else is) m
   | _ \<Rightarrow> run lay is (exec1 lay i m))"
  by pat_completeness auto
termination
  by (relation "measure (\<lambda>(lay, is, m). length is)") auto

section \<open>Context macros\<close>

definition portWORD_SIZE :: u32 where "portWORD_SIZE = 4"
definition portMEPC_OFFSET :: u32 where "portMEPC_OFFSET = 0"
definition portMSTATUS_OFFSET :: u32 where "portMSTATUS_OFFSET = 1"
definition portCONTEXT_SIZE :: u32 where "portCONTEXT_SIZE = 31 * portWORD_SIZE"
definition portCRITICAL_NESTING_OFFSET :: u32 where "portCRITICAL_NESTING_OFFSET = 30"

definition portcontextSAVE_CONTEXT_INTERNAL :: "insn list" where
  "portcontextSAVE_CONTEXT_INTERNAL =
     [Addi 2 2 (- portCONTEXT_SIZE),
      Store_x 1 (2 * portWORD_SIZE) 2, Store_x 5 (3 * portWORD_SIZE) 2, Store_x 6 (4 * portWORD_SIZE) 2,
      Store_x 7 (5 * portWORD_SIZE) 2, Store_x 8 (6 * portWORD_SIZE) 2, Store_x 9 (7 * portWORD_SIZE) 2,
      Store_x 10 (8 * portWORD_SIZE) 2, Store_x 11 (9 * portWORD_SIZE) 2, Store_x 12 (10 * portWORD_SIZE) 2,
      Store_x 13 (11 * portWORD_SIZE) 2, Store_x 14 (12 * portWORD_SIZE) 2, Store_x 15 (13 * portWORD_SIZE) 2,
      Store_x 16 (14 * portWORD_SIZE) 2, Store_x 17 (15 * portWORD_SIZE) 2, Store_x 18 (16 * portWORD_SIZE) 2,
      Store_x 19 (17 * portWORD_SIZE) 2, Store_x 20 (18 * portWORD_SIZE) 2, Store_x 21 (19 * portWORD_SIZE) 2,
      Store_x 22 (20 * portWORD_SIZE) 2, Store_x 23 (21 * portWORD_SIZE) 2, Store_x 24 (22 * portWORD_SIZE) 2,
      Store_x 25 (23 * portWORD_SIZE) 2, Store_x 26 (24 * portWORD_SIZE) 2, Store_x 27 (25 * portWORD_SIZE) 2,
      Store_x 28 (26 * portWORD_SIZE) 2, Store_x 29 (27 * portWORD_SIZE) 2, Store_x 30 (28 * portWORD_SIZE) 2,
      Store_x 31 (29 * portWORD_SIZE) 2,
      Load_sym 5 G_critical_nesting_cnt,
      Store_x 5 (portCRITICAL_NESTING_OFFSET * portWORD_SIZE) 2,
      Csrr 5 Mstatus,
      Store_x 5 (portMSTATUS_OFFSET * portWORD_SIZE) 2,
      La 5 G_current_stack_pointer,
      Store_x 2 0 5]"

definition portcontextSAVE_EXCEPTION_CONTEXT :: "insn list" where
  "portcontextSAVE_EXCEPTION_CONTEXT = portcontextSAVE_CONTEXT_INTERNAL @
     [Csrr 10 Mcause, Csrr 11 Mepc, Addi 11 11 4, Store_x 11 0 2,
      La 5 G_exception_nest_cnt, Load_x 6 0 5, Bnez 6 1, Load_sym 2 XISRStackTop, Addi 6 6 1, Store_x 6 0 5]"

definition portcontextSAVE_INTERRUPT_CONTEXT :: "insn list" where
  "portcontextSAVE_INTERRUPT_CONTEXT = portcontextSAVE_CONTEXT_INTERNAL @
     [Csrr 10 Mcause, Csrr 11 Mepc, Store_x 11 0 2,
      La 5 G_exception_nest_cnt, Load_x 6 0 5, Bnez 6 1, Load_sym 2 XISRStackTop, Addi 6 6 1, Store_x 6 0 5]"

definition portcontextRESTORE_CONTEXT :: "insn list" where
  "portcontextRESTORE_CONTEXT =
     [La 5 G_exception_nest_cnt, Load_x 6 0 5, Addi 6 6 (- 1), Store_x 6 0 5,
      Bnez 6 2, La 6 G_current_stack_pointer, Load_x 2 0 6,
      Load_x 5 0 2, Csrw Mepc 5,
      Load_x 5 (portMSTATUS_OFFSET * portWORD_SIZE) 2, Csrw Mstatus 5,
      Load_x 5 (portCRITICAL_NESTING_OFFSET * portWORD_SIZE) 2, Load_sym 6 P_critical_nesting_cnt, Store_x 5 0 6,
      Load_x 1 (2 * portWORD_SIZE) 2, Load_x 5 (3 * portWORD_SIZE) 2, Load_x 6 (4 * portWORD_SIZE) 2,
      Load_x 7 (5 * portWORD_SIZE) 2, Load_x 8 (6 * portWORD_SIZE) 2, Load_x 9 (7 * portWORD_SIZE) 2,
      Load_x 10 (8 * portWORD_SIZE) 2, Load_x 11 (9 * portWORD_SIZE) 2, Load_x 12 (10 * portWORD_SIZE) 2,
      Load_x 13 (11 * portWORD_SIZE) 2, Load_x 14 (12 * portWORD_SIZE) 2, Load_x 15 (13 * portWORD_SIZE) 2,
      Load_x 16 (14 * portWORD_SIZE) 2, Load_x 17 (15 * portWORD_SIZE) 2, Load_x 18 (16 * portWORD_SIZE) 2,
      Load_x 19 (17 * portWORD_SIZE) 2, Load_x 20 (18 * portWORD_SIZE) 2, Load_x 21 (19 * portWORD_SIZE) 2,
      Load_x 22 (20 * portWORD_SIZE) 2, Load_x 23 (21 * portWORD_SIZE) 2, Load_x 24 (22 * portWORD_SIZE) 2,
      Load_x 25 (23 * portWORD_SIZE) 2, Load_x 26 (24 * portWORD_SIZE) 2, Load_x 27 (25 * portWORD_SIZE) 2,
      Load_x 28 (26 * portWORD_SIZE) 2, Load_x 29 (27 * portWORD_SIZE) 2, Load_x 30 (28 * portWORD_SIZE) 2,
      Load_x 31 (29 * portWORD_SIZE) 2,
      Addi 2 2 portCONTEXT_SIZE, Mret]"

section \<open>C handlers\<close>

text \<open>The indices of a stack frame.\<close>

definition IDX_MEPC_ADDED_4 :: u32 where "IDX_MEPC_ADDED_4 = 0"
definition IDX_MSTATUS :: u32 where "IDX_MSTATUS = 1"
definition IDX_X1_RA :: u32 where "IDX_X1_RA = 2"
definition IDX_X5_T0 :: u32 where "IDX_X5_T0 = 3"
definition IDX_X6_T1 :: u32 where "IDX_X6_T1 = 4"
definition IDX_X7_T2 :: u32 where "IDX_X7_T2 = 5"
definition IDX_X8_S0_FP :: u32 where "IDX_X8_S0_FP = 6"
definition IDX_X9_S1 :: u32 where "IDX_X9_S1 = 7"
definition IDX_X10_A0 :: u32 where "IDX_X10_A0 = 8"
definition IDX_X11_A1 :: u32 where "IDX_X11_A1 = 9"
definition IDX_X12_A2 :: u32 where "IDX_X12_A2 = 10"
definition IDX_X13_A3 :: u32 where "IDX_X13_A3 = 11"
definition IDX_X14_A4 :: u32 where "IDX_X14_A4 = 12"
definition IDX_X15_A5 :: u32 where "IDX_X15_A5 = 13"
definition IDX_X16_A6 :: u32 where "IDX_X16_A6 = 14"
definition IDX_X17_A7 :: u32 where "IDX_X17_A7 = 15"
definition IDX_X18_S2 :: u32 where "IDX_X18_S2 = 16"
definition IDX_X19_S3 :: u32 where "IDX_X19_S3 = 17"
definition IDX_X20_S4 :: u32 where "IDX_X20_S4 = 18"
definition IDX_X21_S5 :: u32 where "IDX_X21_S5 = 19"
definition IDX_X22_S6 :: u32 where "IDX_X22_S6 = 20"
definition IDX_X23_S7 :: u32 where "IDX_X23_S7 = 21"
definition IDX_X24_S8 :: u32 where "IDX_X24_S8 = 22"
definition IDX_X25_S9 :: u32 where "IDX_X25_S9 = 23"
definition IDX_X26_S10 :: u32 where "IDX_X26_S10 = 24"
definition IDX_X27_S11 :: u32 where "IDX_X27_S11 = 25"
definition IDX_X28_T3 :: u32 where "IDX_X28_T3 = 26"
definition IDX_X29_T4 :: u32 where "IDX_X29_T4 = 27"
definition IDX_X30_T5 :: u32 where "IDX_X30_T5 = 28"
definition IDX_X31_T6 :: u32 where "IDX_X31_T6 = 29"
definition IDX_XCRITICALNESTING :: u32 where "IDX_XCRITICALNESTING = 30"

definition mcause_messages :: "string list" where
  "mcause_messages =
     [''Instruction address misaligned'', ''Instruction access fault'', ''Illegal instruction'', ''Breakpoint'',
      ''Load address misaligned'', ''Load access fault'', ''Store/AMO address misaligned'', ''Store/AMO access fault'',
      ''Environment call from U-mode'', ''Environment call from S-mode'', ''Environment call from VS-mode'',
      ''Environment call from M-mode'', ''Instruction page fault'', ''Load page fault'', ''Store/AMO page fault'',
      ''Unknown cause'']"

definition print_mcause :: "u32 \<Rightarrow> hart \<Rightarrow> hart" where
  "print_mcause mc m =
     (if mc < 15 then say ''%s\<newline>'' [VStr (Some (mcause_messages ! unat mc))] m
      else say ''%s\<newline>'' [VStr (Some (mcause_messages ! 15))] m)"

definition say_all :: "kmsg list \<Rightarrow> hart \<Rightarrow> hart" where
  "say_all msgs m = fold (\<lambda>(fmt, args). say fmt args) msgs m"

definition exception_show_exc_stack_frame_registers :: "u32 \<Rightarrow> hart \<Rightarrow> hart" where
  "exception_show_exc_stack_frame_registers p m =
     (let stack_frame = (\<lambda>i. rd32 (ram m) (unat (p + 4 * i)));
          m = say ''Exception occurred! machine register info:\<newline>'' [] m;
          m = say ''mcause: 0x%08x   '' [U (mcause m)] m;
          m = print_mcause (mcause m) m
      in say_all
          [(''mepc: 0x%08x\<newline>'', [U (mepc m)]), (''mtval: 0x%08x\<newline>'', [U (mtval m)]),
           (''mstatus: 0x%08x\<newline>'', [U (mstatus m)]), (''mtvec: 0x%08x\<newline>'', [U (mtvec m)]),
           (''mip: 0x%08x\<newline>'', [U (mip m)]), (''mie: 0x%08x\<newline>\<newline>'', [U (mie m)]),
           (''Exception StackFrame Info:\<newline>'', []),
           (''sp: 0x%08x\<newline>'', [U p]), (''gp: 0x%08x\<newline>'', [U (xr m 3)]),
           (''tp: 0x%08x\<newline>'', [U (xr m 4)]), (''xCriticalNesting: 0x%08x\<newline>'', [U (stack_frame IDX_XCRITICALNESTING)]),
           (''mstatus: 0x%08x\<newline>'', [U (stack_frame IDX_MSTATUS)]), (''mepc: 0x%08x\<newline>'', [U (stack_frame IDX_MEPC_ADDED_4)]),
           (''ra: 0x%08x\<newline>\<newline>'', [U (stack_frame IDX_X1_RA)]), (''t0: 0x%08x\<newline>'', [U (stack_frame IDX_X5_T0)]),
           (''t1: 0x%08x\<newline>'', [U (stack_frame IDX_X6_T1)]), (''t2: 0x%08x\<newline>'', [U (stack_frame IDX_X7_T2)]),
           (''t3: 0x%08x\<newline>'', [U (stack_frame IDX_X28_T3)]), (''t4: 0x%08x\<newline>'', [U (stack_frame IDX_X29_T4)]),
           (''t5: 0x%08x\<newline>'', [U (stack_frame IDX_X30_T5)]), (''t6: 0x%08x\<newline>\<newline>'', [U (stack_frame IDX_X31_T6)]),
           (''a0: 0x%08x\<newline>'', [U (stack_frame IDX_X10_A0)]), (''a1: 0x%08x\<newline>'', [U (stack_frame IDX_X11_A1)]),
           (''a2: 0x%08x\<newline>'', [U (stack_frame IDX_X12_A2)]), (''a3: 0x%08x\<newline>'', [U (stack_frame IDX_X13_A3)]),
           (''a4: 0x%08x\<newline>'', [U (stack_frame IDX_X14_A4)]), (''a5: 0x%08x\<newline>'', [U (stack_frame IDX_X15_A5)]),
           (''a6: 0x%08x\<newline>'', [U (stack_frame IDX_X16_A6)]), (''a7: 0x%08x\<newline>\<newline>'', [U (stack_frame IDX_X17_A7)]),
           (''s0/fp: 0x%08x\<newline>'', [U (stack_frame IDX_X8_S0_FP)]), (''s1: 0x%08x\<newline>'', [U (stack_frame IDX_X9_S1)]),
           (''s2: 0x%08x\<newline>'', [U (stack_frame IDX_X18_S2)]), (''s3: 0x%08x\<newline>'', [U (stack_frame IDX_X19_S3)]),
           (''s4: 0x%08x\<newline>'', [U (stack_frame IDX_X20_S4)]), (''s5: 0x%08x\<newline>'', [U (stack_frame IDX_X21_S5)]),
           (''s6: 0x%08x\<newline>'', [U (stack_frame IDX_X22_S6)]), (''s7: 0x%08x\<newline>'', [U (stack_frame IDX_X23_S7)]),
           (''s8: 0x%08x\<newline>'', [U (stack_frame IDX_X24_S8)]), (''s9: 0x%08x\<newline>'', [U (stack_frame IDX_X25_S9)]),
           (''s10: 0x%08x\<newline>'', [U (stack_frame IDX_X26_S10)]), (''s11: 0x%08x\<newline>'', [U (stack_frame IDX_X27_S11)])] m)"

text \<open>\<^verbatim>\<open>pxCurrentTCB\<close> is a local null pointer, so the frame is always the one of \<^verbatim>\<open>g_current_stack_pointer\<close>.\<close>

definition risc_v_application_exception_handler :: "layout \<Rightarrow> u32 \<Rightarrow> hart \<Rightarrow> hart" where
  "risc_v_application_exception_handler lay ulMcause m =
     (let m = riscv_cpu_interrupt_global_disable m;
          m = print_mcause ulMcause m
      in exception_show_exc_stack_frame_registers (global lay G_current_stack_pointer m) m)"

definition MAX_ECALL_NUM :: nat where "MAX_ECALL_NUM = 128"

text \<open>
  The explicit register variables hold what the registers hold when the handler is entered.  The first component of the result is what
  the handler's last instruction leaves in \<^verbatim>\<open>a0\<close>.
\<close>

definition risc_v_ecall_handler ::
  "(u32 \<Rightarrow> u32 list \<Rightarrow> hart \<Rightarrow> u32 \<times> hart) \<Rightarrow> u32 \<Rightarrow> hart \<Rightarrow> u32 \<times> hart" where
  "risc_v_ecall_handler code ulMcause m =
     (let syscall_num = xr m 17;
          args = map (xr m) [10, 11, 12, 13, 14, 15, 16];
          m = say ''risc_v_ecall_handler ulMcause:0x%x \<newline>'' [U ulMcause] m;
          m = say ''Syscall number: %ld\<newline>'' [L syscall_num] m;
          m = say ''Arg0: %ld, Arg1: %ld, Arg2: %ld, Arg3: %ld, Arg4: %ld, Arg5: %ld, Arg6: %ld\<newline>'' (map (\<lambda>v. L v) args) m
      in if 0 \<le> sint syscall_num \<and> sint syscall_num < int MAX_ECALL_NUM \<and> ecall_handler m ! unat syscall_num \<noteq> 0
         then code (ecall_handler m ! unat syscall_num) args m
         else (- 1, say ''Unhandled syscall number: %ld\<newline>'' [L syscall_num] m))"

definition register_ecall_handler :: "u32 \<Rightarrow> u32 \<Rightarrow> hart \<Rightarrow> hart" where
  "register_ecall_handler syscall_num handler m =
     (if 0 \<le> sint syscall_num \<and> sint syscall_num < int MAX_ECALL_NUM
      then m\<lparr>ecall_handler := (ecall_handler m)[unat syscall_num := handler]\<rparr> else m)"

section \<open>Interrupt dispatch\<close>

datatype weak_handler =
    User_software_interrupt | Supervisor_software_interrupt | Machine_software_interrupt
  | User_timer_interrupt | Supervisor_timer_interrupt | Machine_timer_interrupt
  | User_external_interrupt | Supervisor_external_interrupt | Machine_external_interrupt_handler
  | Instruction_address_misaligned | Instruction_access_fault | Illegal_instruction | Breakpoint
  | Load_address_misaligned | Load_access_fault | Store_or_amo_address_misaligned | Store_or_amo_access_fault
  | Environment_call_from_u_mode | Environment_call_from_s_mode | Environment_call_from_m_mode
  | Instruction_page_fault | Load_page_fault | Store_or_amo_page_fault

definition INTERRUPT :: "u32 \<Rightarrow> u32" where
  "INTERRUPT n = n OR push_bit 31 1"

text \<open>The \<^verbatim>\<open>switch\<close> of \<^verbatim>\<open>risc_v_application_interrupt_handler\<close>, as the table from case label to handler.\<close>

definition interrupt_switch :: "(u32 \<times> weak_handler) list" where
  "interrupt_switch =
     [(INTERRUPT 0, User_software_interrupt), (INTERRUPT 1, Supervisor_software_interrupt),
      (INTERRUPT 3, Machine_software_interrupt), (INTERRUPT 4, User_timer_interrupt),
      (INTERRUPT 5, Supervisor_timer_interrupt), (INTERRUPT 7, Machine_timer_interrupt),
      (INTERRUPT 8, User_external_interrupt), (INTERRUPT 9, Supervisor_external_interrupt),
      (INTERRUPT 11, Machine_external_interrupt_handler), (0, Instruction_address_misaligned),
      (1, Instruction_access_fault), (2, Illegal_instruction), (3, Breakpoint), (4, Load_address_misaligned),
      (5, Load_access_fault), (6, Store_or_amo_address_misaligned), (7, Store_or_amo_access_fault),
      (8, Environment_call_from_u_mode), (9, Environment_call_from_s_mode), (11, Environment_call_from_m_mode),
      (12, Instruction_page_fault), (13, Load_page_fault), (15, Store_or_amo_page_fault)]"

definition cr_lf :: string where
  "cr_lf = [CHR 0x0D, CHR 0x0A]"

text \<open>The weak definitions: all are empty but the one for the software interrupt.\<close>

definition machine_software_interrupt :: "hart \<Rightarrow> hart" where
  "machine_software_interrupt m =
     say (cr_lf @ cr_lf @ ''[Core%lu ] machine_software_interrupt '' @ cr_lf) [U (riscv_cpu_myhart_id m)] m"

fun weak_default :: "weak_handler \<Rightarrow> hart \<Rightarrow> hart" where
  "weak_default Machine_software_interrupt m = machine_software_interrupt m"
| "weak_default _ m = m"

text \<open>\<open>hooks\<close> are the linked definitions of the two hooks and \<open>linked\<close> those of the handlers: the weak ones, or a strong definition elsewhere.\<close>

definition risc_v_application_interrupt_handler ::
  "layout \<Rightarrow> (hart \<Rightarrow> hart) \<times> (hart \<Rightarrow> hart) \<Rightarrow> (weak_handler \<Rightarrow> hart \<Rightarrow> hart) \<Rightarrow> u32 \<Rightarrow> hart \<Rightarrow> hart" where
  "risc_v_application_interrupt_handler lay hooks linked ulMcause m =
     (let m = say ''ulMcause:0x%x intCnt:%d g_exception_nest_cnt:%u \<newline>''
            [U ulMcause, VReg (word_of_int (g_intCnt m)), U (global lay G_exception_nest_cnt m)] m;
          m = fst hooks m;
          m = (case map_of interrupt_switch ulMcause of None \<Rightarrow> m | Some h \<Rightarrow> linked h m)
      in snd hooks m)"

section \<open>Assembly handlers and the vector table\<close>

text \<open>The registers a C function may change: \<^verbatim>\<open>ra\<close>, \<^verbatim>\<open>t0\<close>--\<^verbatim>\<open>t6\<close>, \<^verbatim>\<open>a0\<close>--\<^verbatim>\<open>a7\<close>.\<close>

definition caller_saved :: "nat \<Rightarrow> bool" where
  "caller_saved r = (r = 1 \<or> (5 \<le> r \<and> r \<le> 7) \<or> (10 \<le> r \<and> r \<le> 17) \<or> (28 \<le> r \<and> r \<le> 31))"

definition c_call :: "(nat \<Rightarrow> u32) \<Rightarrow> (hart \<Rightarrow> u32 \<times> hart) \<Rightarrow> hart \<Rightarrow> hart" where
  "c_call junk f m = (case f m of (a0, m') \<Rightarrow>
     m'\<lparr>xr := (\<lambda>r. if r = 10 then a0 else if caller_saved r then junk r else xr m r)\<rparr>)"

definition void_call :: "(nat \<Rightarrow> u32) \<Rightarrow> (hart \<Rightarrow> hart) \<Rightarrow> hart \<Rightarrow> hart" where
  "void_call junk f = c_call junk (\<lambda>m. (junk 10, f m))"

text \<open>What is linked into the image: the system call code, the hooks and the interrupt handlers.\<close>

record image =
  im_layout :: layout
  im_junk :: "nat \<Rightarrow> u32"
  im_code :: "u32 \<Rightarrow> u32 list \<Rightarrow> hart \<Rightarrow> u32 \<times> hart"
  im_hooks :: "(hart \<Rightarrow> hart) \<times> (hart \<Rightarrow> hart)"
  im_linked :: "weak_handler \<Rightarrow> hart \<Rightarrow> hart"

definition risc_v_exception_handler :: "image \<Rightarrow> hart \<Rightarrow> hart" where
  "risc_v_exception_handler im m =
     (let m = run (im_layout im) portcontextSAVE_EXCEPTION_CONTEXT m;
          m = set_x 5 11 m;
          m = (if xr m 10 \<noteq> xr m 5
               then void_call (im_junk im) (risc_v_application_exception_handler (im_layout im) (xr m 10)) m
               else c_call (im_junk im) (risc_v_ecall_handler (im_code im) (xr m 10)) m)
      in run (im_layout im) portcontextRESTORE_CONTEXT m)"

definition risc_v_interrupt_handler :: "image \<Rightarrow> hart \<Rightarrow> hart" where
  "risc_v_interrupt_handler im m =
     (let m = run (im_layout im) portcontextSAVE_INTERRUPT_CONTEXT m;
          m = void_call (im_junk im)
                (risc_v_application_interrupt_handler (im_layout im) (im_hooks im) (im_linked im) (xr m 10)) m
      in run (im_layout im) portcontextRESTORE_CONTEXT m)"

text \<open>
  The timer handler saves the context and calls \<^verbatim>\<open>risc_v_application_mtimer_interrupt_handler\<close>, which has only the weak definition of
  \<^verbatim>\<open>trap.S\<close>: three register reads and a jump to itself.  It never returns.
\<close>

definition risc_v_mtimer_interrupt_handler :: "image \<Rightarrow> hart \<Rightarrow> hart option" where
  "risc_v_mtimer_interrupt_handler im m = None"

datatype vector = J_exception | J_interrupt | J_mtimer

definition risc_v_vector_table :: "vector list" where
  "risc_v_vector_table = J_exception # replicate 6 J_interrupt @ [J_mtimer] @ replicate 24 J_interrupt"

text \<open>
  The hardware: the trap cause is saved, interrupts go off, and control goes to the base address in \<^verbatim>\<open>mtvec\<close>, or to the entry of the
  cause when the mode bits say vectored and the trap is an interrupt.
\<close>

definition take_trap :: "u32 \<Rightarrow> u32 \<Rightarrow> hart \<Rightarrow> hart" where
  "take_trap cause tval m =
     m\<lparr>mepc := pc m, mcause := cause, mtval := tval, mstatus := trap_status (mstatus m),
       pc := (mtvec m AND NOT 3) + (if mtvec m AND 3 = 1 \<and> bit cause 31 then 4 * (cause AND NOT (push_bit 31 1)) else 0)\<rparr>"

text \<open>A whole trap with the vector table installed at \<^verbatim>\<open>mtvec\<close>: \<open>None\<close> when the handler never returns.\<close>

definition risc_v_trap :: "image \<Rightarrow> u32 \<Rightarrow> u32 \<Rightarrow> hart \<Rightarrow> hart option" where
  "risc_v_trap im cause tval m =
     (let m' = take_trap cause tval m;
          entry = (pc m' - (mtvec m AND NOT 3)) div 4
      in if unat entry < length risc_v_vector_table
         then (case risc_v_vector_table ! unat entry of
             J_exception \<Rightarrow> Some (risc_v_exception_handler im m')
           | J_interrupt \<Rightarrow> Some (risc_v_interrupt_handler im m')
           | J_mtimer \<Rightarrow> risc_v_mtimer_interrupt_handler im m')
         else None)"

section \<open>System call stubs\<close>

text \<open>
  The stubs load the argument registers and the number into \<^verbatim>\<open>t0\<close> and execute \<^verbatim>\<open>ecall\<close> (cause 11 in machine mode).
\<close>

definition ecall :: "image \<Rightarrow> hart \<Rightarrow> (u32 \<times> hart) option" where
  "ecall im m = map_option (\<lambda>m. (xr m 10, m)) (risc_v_trap im 11 0 m)"

definition arch_syscall_invoke6 :: "image \<Rightarrow> u32 \<Rightarrow> u32 \<Rightarrow> u32 \<Rightarrow> u32 \<Rightarrow> u32 \<Rightarrow> u32 \<Rightarrow> u32 \<Rightarrow> hart \<Rightarrow> (u32 \<times> hart) option" where
  "arch_syscall_invoke6 im arg1 arg2 arg3 arg4 arg5 arg6 call_id m =
     ecall im (m\<lparr>xr := (xr m)(10 := arg1, 11 := arg2, 12 := arg3, 13 := arg4, 14 := arg5, 15 := arg6, 5 := call_id)\<rparr>)"

definition arch_syscall_invoke5 :: "image \<Rightarrow> u32 \<Rightarrow> u32 \<Rightarrow> u32 \<Rightarrow> u32 \<Rightarrow> u32 \<Rightarrow> u32 \<Rightarrow> hart \<Rightarrow> (u32 \<times> hart) option" where
  "arch_syscall_invoke5 im arg1 arg2 arg3 arg4 arg5 call_id m =
     ecall im (m\<lparr>xr := (xr m)(10 := arg1, 11 := arg2, 12 := arg3, 13 := arg4, 14 := arg5, 5 := call_id)\<rparr>)"

definition arch_syscall_invoke4 :: "image \<Rightarrow> u32 \<Rightarrow> u32 \<Rightarrow> u32 \<Rightarrow> u32 \<Rightarrow> u32 \<Rightarrow> hart \<Rightarrow> (u32 \<times> hart) option" where
  "arch_syscall_invoke4 im arg1 arg2 arg3 arg4 call_id m =
     ecall im (m\<lparr>xr := (xr m)(10 := arg1, 11 := arg2, 12 := arg3, 13 := arg4, 5 := call_id)\<rparr>)"

definition arch_syscall_invoke3 :: "image \<Rightarrow> u32 \<Rightarrow> u32 \<Rightarrow> u32 \<Rightarrow> u32 \<Rightarrow> hart \<Rightarrow> (u32 \<times> hart) option" where
  "arch_syscall_invoke3 im arg1 arg2 arg3 call_id m =
     ecall im (m\<lparr>xr := (xr m)(10 := arg1, 11 := arg2, 12 := arg3, 5 := call_id)\<rparr>)"

definition arch_syscall_invoke2 :: "image \<Rightarrow> u32 \<Rightarrow> u32 \<Rightarrow> u32 \<Rightarrow> hart \<Rightarrow> (u32 \<times> hart) option" where
  "arch_syscall_invoke2 im arg1 arg2 call_id m = ecall im (m\<lparr>xr := (xr m)(10 := arg1, 11 := arg2, 5 := call_id)\<rparr>)"

definition arch_syscall_invoke1 :: "image \<Rightarrow> u32 \<Rightarrow> u32 \<Rightarrow> hart \<Rightarrow> (u32 \<times> hart) option" where
  "arch_syscall_invoke1 im arg1 call_id m = ecall im (m\<lparr>xr := (xr m)(10 := arg1, 5 := call_id)\<rparr>)"

definition arch_syscall_invoke0 :: "image \<Rightarrow> u32 \<Rightarrow> hart \<Rightarrow> (u32 \<times> hart) option" where
  "arch_syscall_invoke0 im call_id m = ecall im (m\<lparr>xr := (xr m)(5 := call_id)\<rparr>)"

definition arch_is_user_context :: "hart \<Rightarrow> bool" where
  "arch_is_user_context m = False"

definition K_SYSCALL_USER_FAULT :: u32 where "K_SYSCALL_USER_FAULT = 0xff"

text \<open>
  \<^verbatim>\<open>ARCH_EXCEPT\<close>: \<^verbatim>\<open>ebreak\<close> (cause 3) with the reason in \<^verbatim>\<open>a0\<close> and zero in \<^verbatim>\<open>t0\<close>; the code after it is marked unreachable.
\<close>

definition ARCH_EXCEPT :: "image \<Rightarrow> u32 \<Rightarrow> hart \<Rightarrow> hart option" where
  "ARCH_EXCEPT im reason_p m =
     (if arch_is_user_context m then map_option snd (arch_syscall_invoke1 im reason_p K_SYSCALL_USER_FAULT m)
      else risc_v_trap im 3 (pc m) (m\<lparr>xr := (xr m)(10 := reason_p, 5 := 0)\<rparr>))"

end
