(* ===== verification/Frames.thy ===== *)
theory Frames
  imports Prelude
begin

text \<open>
  Register frames in memory: consecutive words written one after the other, and what a later load finds.  Shared by the trap paths of
  the RISC-V and the AArch64 port.
\<close>

fun wr_block32 :: "mem \<Rightarrow> nat \<Rightarrow> u32 list \<Rightarrow> mem" where
  "wr_block32 M b [] = M"
| "wr_block32 M b (v # vs) = wr_block32 (wr32 M b v) (b + 4) vs"

fun wr_block64 :: "mem \<Rightarrow> nat \<Rightarrow> u64 list \<Rightarrow> mem" where
  "wr_block64 M b [] = M"
| "wr_block64 M b (v # vs) = wr_block64 (wr64 M b v) (b + 8) vs"

lemma wr_block32_apply: "a < b \<or> b + 4 * length vs \<le> a \<Longrightarrow> wr_block32 M b vs a = M a"
  by (induction vs arbitrary: M b) (auto simp: wr32_apply)

lemma wr_block64_apply: "a < b \<or> b + 8 * length vs \<le> a \<Longrightarrow> wr_block64 M b vs a = M a"
  by (induction vs arbitrary: M b) (auto simp: wr64_apply)

lemma rd32_wr_block32_other [mem_simps]:
  "a + 4 \<le> b \<or> b + 4 * length vs \<le> a \<Longrightarrow> rd32 (wr_block32 M b vs) a = rd32 M a"
  by (rule rd32_cong) (auto intro: wr_block32_apply)

lemma rd64_wr_block64_other [mem_simps]:
  "a + 8 \<le> b \<or> b + 8 * length vs \<le> a \<Longrightarrow> rd64 (wr_block64 M b vs) a = rd64 M a"
  by (rule rd64_cong) (auto intro: wr_block64_apply)

lemma rd32_wr_block32: "i < length vs \<Longrightarrow> rd32 (wr_block32 M b vs) (b + 4 * i) = vs ! i"
proof (induction vs arbitrary: M b i)
  case (Cons v vs)
  show ?case
  proof (cases i)
    case 0
    then show ?thesis by (simp add: rd32_wr_block32_other)
  next
    case (Suc k)
    with Cons.IH [of k "wr32 M b v" "b + 4"] Cons.prems show ?thesis
      by (simp add: add.assoc)
  qed
qed simp

lemma rd64_wr_block64: "i < length vs \<Longrightarrow> rd64 (wr_block64 M b vs) (b + 8 * i) = vs ! i"
proof (induction vs arbitrary: M b i)
  case (Cons v vs)
  show ?case
  proof (cases i)
    case 0
    then show ?thesis by (simp add: rd64_wr_block64_other)
  next
    case (Suc k)
    with Cons.IH [of k "wr64 M b v" "b + 8"] Cons.prems show ?thesis
      by (simp add: add.assoc)
  qed
qed simp

lemma unat_add_u32 [word_nat]: "unat a + unat b < 2 ^ 32 \<Longrightarrow> unat (a + b :: u32) = unat a + unat b"
  by (simp add: unat_word_ariths)

lemma unat_sub_u32 [word_nat]: "unat b \<le> unat a \<Longrightarrow> unat (a - b :: u32) = unat a - unat b"
  by (simp add: unat_sub word_le_nat_alt)

text \<open>Memories that agree on a range of bytes.\<close>

definition agree :: "nat \<Rightarrow> nat \<Rightarrow> mem \<Rightarrow> mem \<Rightarrow> bool" where
  "agree a n M M' = (\<forall>x. a \<le> x \<and> x < a + n \<longrightarrow> M x = M' x)"

lemma agree_refl [simp]: "agree a n M M"
  by (simp add: agree_def)

lemma agree_sub: "agree a n M M' \<Longrightarrow> a \<le> b \<Longrightarrow> b + k \<le> a + n \<Longrightarrow> agree b k M M'"
  by (auto simp: agree_def)

lemma agree_rd32: "agree a 4 M M' \<Longrightarrow> rd32 M a = rd32 M' a"
  by (rule rd32_cong) (simp add: agree_def)

lemma agree_rd64: "agree a 8 M M' \<Longrightarrow> rd64 M a = rd64 M' a"
  by (rule rd64_cong) (simp add: agree_def)

definition apart :: "nat \<Rightarrow> nat \<Rightarrow> nat \<Rightarrow> nat \<Rightarrow> bool" where
  "apart a n b k = (a + n \<le> b \<or> b + k \<le> a)"

lemma agree_wr32: "apart a n b 4 \<Longrightarrow> agree a n M (wr32 M b v)"
  by (auto simp: agree_def apart_def wr32_apply)

lemma agree_wr32_both: "agree a n M M' \<Longrightarrow> agree a n (wr32 M b v) (wr32 M' b v)"
  by (auto simp: agree_def wr32_def)

lemma agree_trans: "agree a n M M' \<Longrightarrow> agree a n M' M'' \<Longrightarrow> agree a n M M''"
  by (simp add: agree_def)

lemma apart_sym: "apart a n b k \<longleftrightarrow> apart b k a n"
  by (auto simp: apart_def)

lemma rd32_bytes:
  "(ucast (rd32 M a) :: u8) = M a" "(ucast (drop_bit 8 (rd32 M a)) :: u8) = M (a + 1)"
  "(ucast (drop_bit 16 (rd32 M a)) :: u8) = M (a + 2)" "(ucast (drop_bit 24 (rd32 M a)) :: u8) = M (a + 3)"
  by (rule bit_word_eqI; auto simp: rd32_def bit_simps dest: bit_imp_le_length)+

lemma wr32_rd32: "wr32 M a (rd32 M a) = M"
  by (simp add: wr32_def rd32_bytes fun_eq_iff)

lemma wr32_inside: "a \<le> x \<Longrightarrow> x < a + 4 \<Longrightarrow> wr32 M a v x = wr32 M' a v x"
  by (auto simp: wr32_def)

text \<open>Writing back the word that another memory has at a cell brings back its bytes there.\<close>

lemma wr32_back: "wr32 M' a (rd32 M a) x = (if a \<le> x \<and> x < a + 4 then M x else M' x)"
  using wr32_inside [of a x M' "rd32 M a" M] by (auto simp: wr32_rd32 wr32_apply)

end
