(* ===== verification/Riscv_Trap_Correct.thy ===== *)
theory Riscv_Trap_Correct
  imports Riscv_Trap Frames
begin

unbundle bit_operations_syntax

text \<open>
  Correctness of the RISC-V trap path: what the context macros leave in memory, that restoring brings back the interrupted context
  around every handler that keeps its hands off the frame, and where the path goes wrong when traps nest.
\<close>

section \<open>Running the context macros\<close>

definition frame_regs :: "nat list" where
  "frame_regs = 1 # [5..<32]"

primrec stores :: "nat \<Rightarrow> nat list \<Rightarrow> insn list" where
  "stores k [] = []"
| "stores k (r # rs) = Store_x r (of_nat k * portWORD_SIZE) 2 # stores (Suc k) rs"

primrec loads :: "nat \<Rightarrow> nat list \<Rightarrow> insn list" where
  "loads k [] = []"
| "loads k (r # rs) = Load_x r (of_nat k * portWORD_SIZE) 2 # loads (Suc k) rs"

lemma slot_addr:
  "unat sp + 4 * i + 4 \<le> 2 ^ 32 \<Longrightarrow> unat (sp + of_nat i * portWORD_SIZE) = unat sp + 4 * i" for sp :: u32
  by (subst unat_add_u32) (simp_all add: portWORD_SIZE_def unat_word_ariths unat_of_nat)

lemma run_stores:
  "unat (xr m 2) + 4 * (k + length rs) \<le> 2 ^ 32 \<Longrightarrow>
   run lay (stores k rs @ is) m = run lay is (m\<lparr>ram := wr_block32 (ram m) (unat (xr m 2) + 4 * k) (map (xr m) rs)\<rparr>)"
proof (induction rs arbitrary: k m)
  case (Cons r rs)
  let ?m = "m\<lparr>ram := wr32 (ram m) (unat (xr m 2) + 4 * k) (xr m r)\<rparr>"
  have "run lay (stores k (r # rs) @ is) m = run lay (stores (Suc k) rs @ is) ?m"
    using Cons.prems by (simp add: slot_addr)
  also have "\<dots> = run lay is (?m\<lparr>ram := wr_block32 (ram ?m) (unat (xr ?m 2) + 4 * Suc k) (map (xr ?m) rs)\<rparr>)"
    using Cons.prems by (intro Cons.IH) simp
  finally show ?case by (simp add: add.commute add.left_commute)
qed simp

lemma run_loads:
  assumes "unat (xr m 2) + 4 * (k + length rs) \<le> 2 ^ 32" "2 \<notin> set rs" "0 \<notin> set rs" "distinct rs"
    and "\<And>i. i < length rs \<Longrightarrow> rd32 (ram m) (unat (xr m 2) + 4 * (k + i)) = v (rs ! i)"
  shows "run lay (loads k rs @ is) m = run lay is (m\<lparr>xr := (\<lambda>r. if r \<in> set rs then v r else xr m r)\<rparr>)"
  using assms
proof (induction rs arbitrary: k m)
  case (Cons r rs)
  let ?m = "m\<lparr>xr := (xr m)(r := v r)\<rparr>"
  have "run lay (loads k (r # rs) @ is) m = run lay (loads (Suc k) rs @ is) ?m"
    using Cons.prems(1,3) Cons.prems(5) [of 0] by (simp add: slot_addr set_x_def)
  also have "\<dots> = run lay is (?m\<lparr>xr := (\<lambda>q. if q \<in> set rs then v q else xr ?m q)\<rparr>)"
  proof (rule Cons.IH)
    fix i assume "i < length rs"
    with Cons.prems(2) Cons.prems(5) [of "Suc i"]
    show "rd32 (ram ?m) (unat (xr ?m 2) + 4 * (Suc k + i)) = v (rs ! i)" by auto
  qed (use Cons.prems in auto)
  also have "(\<lambda>q. if q \<in> set rs then v q else xr ?m q) = (\<lambda>q. if q \<in> set (r # rs) then v q else xr m q)"
    by auto
  finally show ?case by simp
qed simp

lemma save_internal_unfold:
  "portcontextSAVE_CONTEXT_INTERNAL = Addi 2 2 (- 124) # stores 2 frame_regs @
     [Load_sym 5 G_critical_nesting_cnt, Store_x 5 120 2, Csrr 5 Mstatus, Store_x 5 4 2, La 5 G_current_stack_pointer, Store_x 2 0 5]"
  by (simp add: portcontextSAVE_CONTEXT_INTERNAL_def frame_regs_def portCONTEXT_SIZE_def portWORD_SIZE_def
      portCRITICAL_NESTING_OFFSET_def portMSTATUS_OFFSET_def upt_rec)

lemma restore_unfold:
  "portcontextRESTORE_CONTEXT =
     [La 5 G_exception_nest_cnt, Load_x 6 0 5, Addi 6 6 (- 1), Store_x 6 0 5,
      Bnez 6 2, La 6 G_current_stack_pointer, Load_x 2 0 6, Load_x 5 0 2, Csrw Mepc 5, Load_x 5 4 2, Csrw Mstatus 5,
      Load_x 5 120 2, Load_sym 6 P_critical_nesting_cnt, Store_x 5 0 6] @ loads 2 frame_regs @ [Addi 2 2 124, Mret]"
  by (simp add: portcontextRESTORE_CONTEXT_def frame_regs_def portCONTEXT_SIZE_def portWORD_SIZE_def
      portCRITICAL_NESTING_OFFSET_def portMSTATUS_OFFSET_def upt_rec)


section \<open>The memory a trap needs\<close>

definition all_syms :: "sym list" where
  "all_syms = [G_exception_nest_cnt, G_current_stack_pointer, G_critical_nesting_cnt, P_critical_nesting_cnt, XISRStackTop]"

lemma all_syms: "s \<in> set all_syms"
  by (cases s) (simp_all add: all_syms_def)

text \<open>
  The linker has placed the globals apart, the stack has room for a frame apart from them, and the pointer to the critical nesting
  count points at it, as its initialiser says.
\<close>

definition frame_at :: "hart \<Rightarrow> nat" where
  "frame_at m = unat (xr m 2) - 124"

definition trap_ready :: "layout \<Rightarrow> hart \<Rightarrow> bool" where
  "trap_ready lay m =
     (124 \<le> unat (xr m 2) \<and> global lay P_critical_nesting_cnt m = lay G_critical_nesting_cnt \<and>
      (\<forall>s \<in> set all_syms. apart (unat (lay s)) 4 (frame_at m) 124 \<and>
        (\<forall>t \<in> set all_syms. s \<noteq> t \<longrightarrow> apart (unat (lay s)) 4 (unat (lay t)) 4)))"

lemma trap_readyD:
  assumes "trap_ready lay m"
  shows "124 \<le> unat (xr m 2)" "global lay P_critical_nesting_cnt m = lay G_critical_nesting_cnt"
    and "\<And>s. apart (unat (lay s)) 4 (frame_at m) 124"
    and "\<And>s t. s \<noteq> t \<Longrightarrow> apart (unat (lay s)) 4 (unat (lay t)) 4"
  using assms by (auto simp: trap_ready_def all_syms)

abbreviation frame_base :: "hart \<Rightarrow> u32" where
  "frame_base m \<equiv> xr m 2 - 124"

lemma unat_frame_base:
  assumes "124 \<le> unat (xr m 2)"
  shows "unat (frame_base m) = frame_at m" "unat (xr m 2 - 4) = frame_at m + 120" "unat (xr m 2 - 120) = frame_at m + 4"
    "unat (xr m 2) = frame_at m + 124" "frame_at m + 124 \<le> 4294967296"
  using assms unat_u32_bound [of "xr m 2"] by (simp_all add: unat_sub_u32 frame_at_def)

definition saved_ram :: "layout \<Rightarrow> hart \<Rightarrow> mem" where
  "saved_ram lay m = (let b = frame_at m in
     wr32 (wr32 (wr32 (wr_block32 (ram m) (b + 8) (map (xr m) frame_regs)) (b + 120) (global lay G_critical_nesting_cnt m))
       (b + 4) (mstatus m)) (unat (lay G_current_stack_pointer)) (frame_base m))"

lemma length_frame_regs [simp]: "length frame_regs = 28"
  by (simp add: frame_regs_def)

lemma run_save_internal:
  assumes "trap_ready lay m"
  shows "run lay (portcontextSAVE_CONTEXT_INTERNAL @ is) m =
    run lay is (m\<lparr>xr := (xr m)(2 := frame_base m, 5 := lay G_current_stack_pointer), ram := saved_ram lay m\<rparr>)"
proof -
  note r = trap_readyD [OF assms]
  note b = unat_frame_base [OF r(1)]
  have crit: "rd32 (wr_block32 (ram m) (frame_at m + 8) vs) (unat (lay G_critical_nesting_cnt)) = global lay G_critical_nesting_cnt m"
    if "length vs = 28" for vs
    using that r(3) [of G_critical_nesting_cnt] by (auto simp: global_def apart_def rd32_wr_block32_other)
  have regs: "map ((xr m)(2 := frame_base m)) frame_regs = map (xr m) frame_regs"
    by (simp add: frame_regs_def)
  show ?thesis
    using b(5) by (simp add: save_internal_unfold set_x_def run_stores b(1-3) regs crit global_def
        saved_ram_def Let_def del: map_eq_conv)
qed

definition trapped_ram :: "layout \<Rightarrow> u32 \<Rightarrow> hart \<Rightarrow> mem" where
  "trapped_ram lay ret m =
     wr32 (wr32 (saved_ram lay m) (frame_at m) ret) (unat (lay G_exception_nest_cnt)) (global lay G_exception_nest_cnt m + 1)"

text \<open>The context after saving: \<open>off\<close> is what is added to the return address.\<close>

definition trapped :: "layout \<Rightarrow> u32 \<Rightarrow> hart \<Rightarrow> hart" where
  "trapped lay off m =
     m\<lparr>xr := (xr m)(2 := (if global lay G_exception_nest_cnt m = 0 then global lay XISRStackTop m else frame_base m),
        5 := lay G_exception_nest_cnt, 6 := global lay G_exception_nest_cnt m + 1, 10 := mcause m, 11 := mepc m + off),
       ram := trapped_ram lay (mepc m + off) m\<rparr>"

lemma rd32_saved_ram_sym:
  assumes "trap_ready lay m" "s \<noteq> G_current_stack_pointer"
  shows "rd32 (saved_ram lay m) (unat (lay s)) = global lay s m"
  using assms(2) trap_readyD(3) [OF assms(1), of s] trap_readyD(4) [OF assms]
  by (auto simp: saved_ram_def Let_def apart_def global_def rd32_wr32_other rd32_wr_block32_other)

lemma rd32_ret_sym:
  assumes "trap_ready lay m" "s \<noteq> G_current_stack_pointer"
  shows "rd32 (wr32 (saved_ram lay m) (frame_at m) ret) (unat (lay s)) = global lay s m"
  using rd32_saved_ram_sym [OF assms] trap_readyD(3) [OF assms(1), of s] by (auto simp: apart_def rd32_wr32_other)

lemma run_save_exception:
  assumes "trap_ready lay m"
  shows "run lay portcontextSAVE_EXCEPTION_CONTEXT m = trapped lay 4 m"
  unfolding portcontextSAVE_EXCEPTION_CONTEXT_def run_save_internal [OF assms]
  using rd32_ret_sym [OF assms] trap_readyD(1) [OF assms]
  by (auto simp: set_x_def global_def trapped_def trapped_ram_def unat_frame_base fun_upd_twist)

lemma run_save_interrupt:
  assumes "trap_ready lay m"
  shows "run lay portcontextSAVE_INTERRUPT_CONTEXT m = trapped lay 0 m"
  unfolding portcontextSAVE_INTERRUPT_CONTEXT_def run_save_internal [OF assms]
  using rd32_ret_sym [OF assms] trap_readyD(1) [OF assms]
  by (auto simp: set_x_def global_def trapped_def trapped_ram_def unat_frame_base fun_upd_twist)


section \<open>Restoring\<close>

text \<open>\<open>holds_frame m ret crit M b\<close>: at \<open>b\<close> in memory \<open>M\<close> lies the frame of \<open>m\<close>.\<close>

definition holds_frame :: "hart \<Rightarrow> u32 \<Rightarrow> u32 \<Rightarrow> mem \<Rightarrow> nat \<Rightarrow> bool" where
  "holds_frame m ret crit M b =
     (rd32 M b = ret \<and> rd32 M (b + 4) = mstatus m \<and> rd32 M (b + 120) = crit \<and>
      (\<forall>i < 28. rd32 M (b + 4 * (2 + i)) = xr m (frame_regs ! i)))"

lemma holds_frame_agree:
  assumes "holds_frame m ret crit M b" "agree b 124 M M'"
  shows "holds_frame m ret crit M' b"
proof -
  have "rd32 M (b + 4 * i) = rd32 M' (b + 4 * i)" if "i < 31" for i
    using that by (intro agree_rd32 agree_sub [OF assms(2)]) auto
  from this [of 0] this [of 1] this [of 30] this [of "2 + i" for i] assms(1) show ?thesis
    unfolding holds_frame_def by simp
qed

lemma trapped_holds_frame:
  assumes "trap_ready lay m"
  shows "holds_frame m ret (global lay G_critical_nesting_cnt m) (trapped_ram lay ret m) (frame_at m)"
proof -
  note r = trap_readyD [OF assms]
  let ?M = "wr32 (wr32 (wr32 (wr_block32 (ram m) (frame_at m + 8) (map (xr m) frame_regs)) (frame_at m + 120)
      (global lay G_critical_nesting_cnt m)) (frame_at m + 4) (mstatus m)) (frame_at m) ret"
  have "holds_frame m ret (global lay G_critical_nesting_cnt m) ?M (frame_at m)"
    using rd32_wr_block32 [of _ "map (xr m) frame_regs" "ram m" "frame_at m + 8"]
    by (auto simp: holds_frame_def rd32_wr32_other algebra_simps)
  moreover have "agree (frame_at m) 124 ?M (trapped_ram lay ret m)"
    unfolding trapped_ram_def saved_ram_def Let_def
    using r(3) by (blast intro: agree_trans agree_wr32 agree_wr32_both apart_sym [THEN iffD1])
  ultimately show ?thesis
    by (rule holds_frame_agree)
qed

lemma trapped_globals:
  assumes "trap_ready lay m"
  shows "global lay G_exception_nest_cnt (trapped lay off m) = global lay G_exception_nest_cnt m + 1"
    and "global lay G_current_stack_pointer (trapped lay off m) = frame_base m"
    and "s \<noteq> G_exception_nest_cnt \<Longrightarrow> s \<noteq> G_current_stack_pointer \<Longrightarrow> global lay s (trapped lay off m) = global lay s m"
proof -
  note r = trap_readyD [OF assms]
  show "global lay G_exception_nest_cnt (trapped lay off m) = global lay G_exception_nest_cnt m + 1"
    by (simp add: global_def trapped_def trapped_ram_def)
  show "global lay G_current_stack_pointer (trapped lay off m) = frame_base m"
    using r(4) [of G_current_stack_pointer G_exception_nest_cnt] r(3) [of G_current_stack_pointer]
    by (auto simp: global_def trapped_def trapped_ram_def saved_ram_def Let_def apart_def rd32_wr32_other)
  show "global lay s (trapped lay off m) = global lay s m" if "s \<noteq> G_exception_nest_cnt" "s \<noteq> G_current_stack_pointer"
    using r(4) [OF that(1)] rd32_ret_sym [OF assms that(2), of "mepc m + off"]
    by (simp add: global_def trapped_def trapped_ram_def apart_def rd32_wr32_other)
qed

text \<open>
  \<^verbatim>\<open>portcontextRESTORE_CONTEXT\<close> gives back the context of \<open>m\<close> from its frame at \<open>sp\<close>, which it finds through
  \<^verbatim>\<open>g_current_stack_pointer\<close> when the nesting count drops to zero and otherwise in the stack pointer.
\<close>

lemma ram_xr_commute: "m\<lparr>ram := M, xr := X\<rparr> = m\<lparr>xr := X, ram := M\<rparr>"
  by (cases m) simp

lemma run_restore_sp:
  assumes sp: "if global lay G_exception_nest_cnt m2 = 1 then global lay G_current_stack_pointer m2 = sp else xr m2 2 = sp"
    and cells: "apart (unat (lay G_current_stack_pointer)) 4 (unat (lay G_exception_nest_cnt)) 4"
  shows "\<exists>X. X 2 = sp \<and> (\<forall>r. r \<notin> {2, 5, 6} \<longrightarrow> X r = xr m2 r) \<and>
    run lay ([La 5 G_exception_nest_cnt, Load_x 6 0 5, Addi 6 6 (- 1), Store_x 6 0 5,
      Bnez 6 2, La 6 G_current_stack_pointer, Load_x 2 0 6] @ is) m2 =
    run lay is (m2\<lparr>xr := X,
      ram := wr32 (ram m2) (unat (lay G_exception_nest_cnt)) (global lay G_exception_nest_cnt m2 - 1)\<rparr>)"
proof (cases "global lay G_exception_nest_cnt m2 = 1")
  case True
  with sp cells show ?thesis
    by (intro exI [of _ "(xr m2)(5 := lay G_exception_nest_cnt, 6 := lay G_current_stack_pointer, 2 := sp)"])
      (auto simp: set_x_def global_def apart_def rd32_wr32_other ram_xr_commute)
next
  case False
  with sp show ?thesis
    by (intro exI [of _ "(xr m2)(5 := lay G_exception_nest_cnt, 6 := global lay G_exception_nest_cnt m2 - 1)"])
      (auto simp: set_x_def global_def)
qed

lemma frame_regs_mem: "r \<in> set frame_regs \<longleftrightarrow> r = 1 \<or> (5 \<le> r \<and> r < 32)"
  unfolding frame_regs_def by (simp only: list.set set_upt) auto

lemma distinct_frame_regs [simp]: "distinct frame_regs"
  by (simp add: frame_regs_def)

lemma run_restore:
  assumes frame: "holds_frame m ret crit (ram m2) (unat sp)" "unat sp + 124 \<le> 4294967296" "xr m 2 = sp + 124"
    and sp: "if global lay G_exception_nest_cnt m2 = 1 then global lay G_current_stack_pointer m2 = sp else xr m2 2 = sp"
    and regs: "\<And>r. r \<notin> set frame_regs \<Longrightarrow> r \<noteq> 2 \<Longrightarrow> xr m2 r = xr m r"
    and cells: "global lay P_critical_nesting_cnt m2 = lay G_critical_nesting_cnt"
      "\<And>s. apart (unat (lay s)) 4 (unat sp) 124" "\<And>s t. s \<noteq> t \<Longrightarrow> apart (unat (lay s)) 4 (unat (lay t)) 4"
  shows "run lay portcontextRESTORE_CONTEXT m2 =
    m2\<lparr>xr := xr m, pc := ret, mepc := ret, mstatus := mret_status (mstatus m),
       ram := wr32 (wr32 (ram m2) (unat (lay G_exception_nest_cnt)) (global lay G_exception_nest_cnt m2 - 1))
                (unat (lay G_critical_nesting_cnt)) crit\<rparr>"
proof -
  let ?M = "wr32 (ram m2) (unat (lay G_exception_nest_cnt)) (global lay G_exception_nest_cnt m2 - 1)"
  let ?M' = "wr32 ?M (unat (lay G_critical_nesting_cnt)) crit"
  let ?loads = "loads 2 frame_regs @ [Addi 2 2 124, Mret]"
  let ?prog = "[Load_x 5 0 2, Csrw Mepc 5, Load_x 5 4 2, Csrw Mstatus 5, Load_x 5 120 2, Load_sym 6 P_critical_nesting_cnt,
      Store_x 5 0 6] @ ?loads"
  have prog: "portcontextRESTORE_CONTEXT = [La 5 G_exception_nest_cnt, Load_x 6 0 5, Addi 6 6 (- 1), Store_x 6 0 5,
      Bnez 6 2, La 6 G_current_stack_pointer, Load_x 2 0 6] @ ?prog"
    by (simp add: restore_unfold)
  have "apart (unat (lay G_current_stack_pointer)) 4 (unat (lay G_exception_nest_cnt)) 4"
    by (rule cells(3)) simp
  from run_restore_sp [OF sp this, of ?prog]
  obtain X where X: "run lay portcontextRESTORE_CONTEXT m2 = run lay ?prog (m2\<lparr>xr := X, ram := ?M\<rparr>)" "X 2 = sp"
    and Xr: "\<And>r. r \<notin> {2, 5, 6} \<Longrightarrow> X r = xr m2 r"
    unfolding prog by blast
  have M: "holds_frame m ret crit ?M (unat sp)" and M': "holds_frame m ret crit ?M' (unat sp)"
    by (blast intro: holds_frame_agree [OF frame(1)] agree_trans agree_wr32 apart_sym [THEN iffD1] cells(2))+
  have pcrit: "rd32 ?M (unat (lay P_critical_nesting_cnt)) = lay G_critical_nesting_cnt"
    using cells(1) cells(3) [of P_critical_nesting_cnt G_exception_nest_cnt]
    by (auto simp: global_def apart_def rd32_wr32_other)
  let ?m3 = "m2\<lparr>mepc := ret, mstatus := mstatus m, xr := X(5 := crit, 6 := lay G_critical_nesting_cnt), ram := ?M'\<rparr>"
  have "run lay ?prog (m2\<lparr>xr := X, ram := ?M\<rparr>) = run lay ?loads ?m3"
    using M frame(2) X(2) pcrit
    by (simp add: set_x_def global_def holds_frame_def unat_add_u32)
  also have "\<dots> = run lay [Addi 2 2 124, Mret] (?m3\<lparr>xr := (\<lambda>r. if r \<in> set frame_regs then xr m r else xr ?m3 r)\<rparr>)"
  proof (rule run_loads)
    fix i assume "i < length frame_regs"
    with M' X(2) show "rd32 (ram ?m3) (unat (xr ?m3 2) + 4 * (2 + i)) = xr m (frame_regs ! i)"
      by (simp add: holds_frame_def)
  qed (use frame(2) X(2) in \<open>simp_all add: frame_regs_mem\<close>)
  also have "\<dots> = m2\<lparr>xr := xr m, pc := ret, mepc := ret, mstatus := mret_status (mstatus m), ram := ?M'\<rparr>"
  proof -
    have "(\<lambda>r. if r \<in> set frame_regs then xr m r else xr ?m3 r)(2 := sp + 124) = xr m"
      using frame(3) X(2) Xr regs by (auto simp: fun_eq_iff frame_regs_mem)
    then show ?thesis
      using X(2) by (intro hart.equality) (simp_all add: set_x_def frame_regs_mem)
  qed
  finally show ?thesis
    using X(1) by simp
qed


section \<open>Handlers between save and restore\<close>

text \<open>
  What the trap path needs from the C handler it calls: the cells of the path and the frame of the interrupted context keep their
  bytes.  Everything else the handler may change.
\<close>

definition path_syms :: "sym list" where
  "path_syms = [G_exception_nest_cnt, G_current_stack_pointer, P_critical_nesting_cnt]"

locale trap_handler =
  fixes lay :: layout and h :: "hart \<Rightarrow> u32 \<times> hart"
  assumes keeps_cells: "s \<in> set path_syms \<Longrightarrow> agree (unat (lay s)) 4 (ram m) (ram (snd (h m)))"
    and keeps_frame: "agree (unat (global lay G_current_stack_pointer m)) 124 (ram m) (ram (snd (h m)))"
begin

lemma keeps_global: "s \<in> set path_syms \<Longrightarrow> global lay s (snd (h m)) = global lay s m"
  using agree_rd32 [OF keeps_cells, of s m] by (simp add: global_def)

text \<open>\<open>m\<close> is interrupted, \<open>m1\<close> is the state in which the assembly calls the handler.\<close>

lemma save_call_restore:
  assumes ready: "trap_ready lay m"
    and m1: "ram m1 = ram (trapped lay off m)" "xr m1 2 = xr (trapped lay off m) 2"
      "\<And>r. r \<notin> set frame_regs \<Longrightarrow> r \<noteq> 2 \<Longrightarrow> xr m1 r = xr m r"
  shows "run lay portcontextRESTORE_CONTEXT (c_call junk h m1) =
    (snd (h m1))\<lparr>xr := xr m, pc := mepc m + off, mepc := mepc m + off, mstatus := mret_status (mstatus m),
      ram := wr32 (wr32 (ram (snd (h m1))) (unat (lay G_exception_nest_cnt)) (global lay G_exception_nest_cnt m))
               (unat (lay G_critical_nesting_cnt)) (global lay G_critical_nesting_cnt m)\<rparr>"
proof -
  note r = trap_readyD [OF ready] and b = unat_frame_base [OF trap_readyD(1) [OF ready]]
  let ?m2 = "c_call junk h m1"
  have ram2: "ram ?m2 = ram (snd (h m1))" and x2: "xr ?m2 2 = xr m1 2"
    by (simp_all add: c_call_def caller_saved_def split: prod.splits)
  have glob1: "global lay s m1 = global lay s (trapped lay off m)" for s
    using m1(1) by (simp add: global_def)
  have glob2: "global lay s ?m2 = global lay s (trapped lay off m)" if "s \<in> set path_syms" for s
    using keeps_global [OF that, of m1] ram2 glob1 by (simp add: global_def)
  note g = glob2 [of G_exception_nest_cnt] glob2 [of G_current_stack_pointer] glob2 [of P_critical_nesting_cnt]
  have "holds_frame m (mepc m + off) (global lay G_critical_nesting_cnt m) (ram m1) (frame_at m)"
    using trapped_holds_frame [OF ready] m1(1) by (simp add: trapped_def)
  moreover have "agree (frame_at m) 124 (ram m1) (ram ?m2)"
    using keeps_frame [of m1] b(1) ram2 trapped_globals(2) [OF ready, of off] glob1 [of G_current_stack_pointer] by simp
  ultimately have "holds_frame m (mepc m + off) (global lay G_critical_nesting_cnt m) (ram ?m2) (unat (frame_base m))"
    unfolding b(1) by (rule holds_frame_agree)
  then have "run lay portcontextRESTORE_CONTEXT ?m2 =
      ?m2\<lparr>xr := xr m, pc := mepc m + off, mepc := mepc m + off, mstatus := mret_status (mstatus m),
         ram := wr32 (wr32 (ram ?m2) (unat (lay G_exception_nest_cnt)) (global lay G_exception_nest_cnt ?m2 - 1))
                  (unat (lay G_critical_nesting_cnt)) (global lay G_critical_nesting_cnt m)\<rparr>"
  proof (rule run_restore)
    show "if global lay G_exception_nest_cnt ?m2 = 1 then global lay G_current_stack_pointer ?m2 = frame_base m
        else xr ?m2 2 = frame_base m"
      using g(1,2) x2 m1(2) trapped_globals(1,2) [OF ready, of off] by (simp add: path_syms_def trapped_def)
    show "xr ?m2 r = xr m r" if "r \<notin> set frame_regs" "r \<noteq> 2" for r
      using that m1(3) [OF that] by (auto simp: c_call_def caller_saved_def frame_regs_mem split: prod.splits)
    show "global lay P_critical_nesting_cnt ?m2 = lay G_critical_nesting_cnt"
      using g(3) r(2) trapped_globals(3) [OF ready, of P_critical_nesting_cnt off] by (simp add: path_syms_def)
  qed (use r b in simp_all)
  moreover have "global lay G_exception_nest_cnt ?m2 - 1 = global lay G_exception_nest_cnt m"
    using g(1) trapped_globals(1) [OF ready, of off] by (simp add: path_syms_def)
  ultimately show ?thesis
    by (simp add: ram2) (simp add: c_call_def split: prod.splits)
qed

end


subsection \<open>The handlers of the kernel\<close>

lemma say_simps [simp]:
  "ram (say f a m) = ram m" "xr (say f a m) = xr m" "mstatus (say f a m) = mstatus m" "ecall_handler (say f a m) = ecall_handler m"
  by (simp_all add: say_def)

lemma say_all_simps [simp]:
  "ram (say_all ms m) = ram m" "xr (say_all ms m) = xr m" "ecall_handler (say_all ms m) = ecall_handler m"
proof -
  have "ram (say_all ms m) = ram m \<and> xr (say_all ms m) = xr m \<and> ecall_handler (say_all ms m) = ecall_handler m"
    by (induction ms arbitrary: m) (auto simp: say_all_def)
  then show "ram (say_all ms m) = ram m" "xr (say_all ms m) = xr m" "ecall_handler (say_all ms m) = ecall_handler m"
    by simp_all
qed

lemma exception_handler_simps [simp]:
  "ram (risc_v_application_exception_handler lay mc m) = ram m"
  "ecall_handler (risc_v_application_exception_handler lay mc m) = ecall_handler m"
  by (simp_all add: risc_v_application_exception_handler_def exception_show_exc_stack_frame_registers_def Let_def
      print_mcause_def riscv_cpu_interrupt_global_disable_def del: say_all_simps(2))

lemma weak_default_simps [simp]: "ram (weak_default w m) = ram m" "ecall_handler (weak_default w m) = ecall_handler m"
  by (cases w; simp add: machine_software_interrupt_def)+

lemma interrupt_handler_simps [simp]:
  "ram (risc_v_application_interrupt_handler lay (id, id) weak_default mc m) = ram m"
  "ecall_handler (risc_v_application_interrupt_handler lay (id, id) weak_default mc m) = ecall_handler m"
  by (simp_all add: risc_v_application_interrupt_handler_def Let_def split: option.splits)

interpretation exception_call: trap_handler lay "\<lambda>m. (a0, risc_v_application_exception_handler lay mc m)" for lay a0 mc
  by unfold_locales simp_all

interpretation interrupt_call: trap_handler lay "\<lambda>m. (a0, risc_v_application_interrupt_handler lay (id, id) weak_default mc m)"
  for lay a0 mc
  by unfold_locales simp_all

text \<open>The system call handler meets the contract when every registered handler does.\<close>

lemma ecall_call:
  assumes "\<And>f args. trap_handler lay (code f args)"
  shows "trap_handler lay (risc_v_ecall_handler code mc)"
proof -
  have cells: "agree (unat (lay s)) 4 (ram m) (ram (snd (code f args m')))" if "s \<in> set path_syms" "ram m' = ram m" for s f args m m'
    using trap_handler.keeps_cells [OF assms that(1), of m' f args] that(2) by simp
  have frame: "agree (unat (global lay G_current_stack_pointer m)) 124 (ram m) (ram (snd (code f args m')))"
    if "ram m' = ram m" for f args m m'
    using trap_handler.keeps_frame [OF assms, of m' f args] that by (simp add: global_def)
  show ?thesis
    by unfold_locales (simp_all add: risc_v_ecall_handler_def Let_def cells frame)
qed

section \<open>Whole traps\<close>

text \<open>Taking a trap and returning from it leaves the interrupt enable bit as it was.\<close>

lemma MPIE_bit [simp]: "bit MSTATUS_MPIE n \<longleftrightarrow> n = 7"
  unfolding MSTATUS_MPIE_def by (auto simp only: bit_push_bit_iff bit_1_iff possible_bit_word) simp_all

lemma MPP_bit [simp]: "\<not> bit MSTATUS_MPP 3" "\<not> bit MSTATUS_MPP 7"
  by (simp_all add: MSTATUS_MPP_def)

lemma mret_trap_status: "bit (mret_status (trap_status s)) 3 = bit s 3"
  by (simp add: mret_status_def trap_status_def bit_or_iff bit_and_iff bit_not_iff_eq)


text \<open>
  \<open>resumed_at lay ret m m'\<close>: \<open>m'\<close> is the interrupted context \<open>m\<close>, continued at \<open>ret\<close>: all registers, the interrupt enable
  bit, and every byte of memory outside the frame below the stack pointer and the cell \<^verbatim>\<open>g_current_stack_pointer\<close>.
\<close>

definition resumed_at :: "layout \<Rightarrow> u32 \<Rightarrow> hart \<Rightarrow> hart \<Rightarrow> bool" where
  "resumed_at lay ret m m' =
     (xr m' = xr m \<and> pc m' = ret \<and> irqs_on m' = irqs_on m \<and> ecall_handler m' = ecall_handler m \<and>
      (\<forall>a. (a < unat (xr m 2) - 124 \<or> unat (xr m 2) \<le> a) \<and>
        (a < unat (lay G_current_stack_pointer) \<or> unat (lay G_current_stack_pointer) + 4 \<le> a) \<longrightarrow> ram m' a = ram m a))"

lemma take_trap_simps [simp]:
  "xr (take_trap c t m) = xr m" "ram (take_trap c t m) = ram m" "mepc (take_trap c t m) = pc m" "mcause (take_trap c t m) = c"
  "mstatus (take_trap c t m) = trap_status (mstatus m)" "ecall_handler (take_trap c t m) = ecall_handler m"
  by (simp_all add: take_trap_def)

lemma trap_ready_take_trap [simp]: "trap_ready lay (take_trap c t m) = trap_ready lay m"
  by (simp add: trap_ready_def global_def frame_at_def)

lemma trapped_ram_outside:
  assumes "trap_ready lay m" "a < frame_at m \<or> frame_at m + 124 \<le> a"
    "a < unat (lay G_current_stack_pointer) \<or> unat (lay G_current_stack_pointer) + 4 \<le> a"
  shows "wr32 (wr32 (trapped_ram lay ret m) (unat (lay G_exception_nest_cnt)) (global lay G_exception_nest_cnt m))
      (unat (lay G_critical_nesting_cnt)) (global lay G_critical_nesting_cnt m) a = ram m a"
proof -
  have "trapped_ram lay ret m a = ram m a"
    if "a < unat (lay G_exception_nest_cnt) \<or> unat (lay G_exception_nest_cnt) + 4 \<le> a"
    using assms(2,3) that
    by (auto simp: trapped_ram_def saved_ram_def Let_def wr32_apply wr_block32_apply)
  then show ?thesis
    by (auto simp: global_def wr32_back)
qed

text \<open>A handler that leaves the memory alone.\<close>

lemma quiet_resumed:
  assumes ready: "trap_ready lay m"
    and m1: "ram m1 = ram (trapped lay off (take_trap c t m))"
    and quiet: "ram m2 = ram m1" "ecall_handler m2 = ecall_handler m"
  shows "resumed_at lay (pc m + off) m
    (m2\<lparr>xr := xr m, pc := pc m + off, mepc := pc m + off, mstatus := mret_status (trap_status (mstatus m)),
      ram := wr32 (wr32 (ram m2) (unat (lay G_exception_nest_cnt)) (global lay G_exception_nest_cnt m))
               (unat (lay G_critical_nesting_cnt)) (global lay G_critical_nesting_cnt m)\<rparr>)"
proof -
  have b: "frame_at m = unat (xr m 2) - 124" "frame_at m + 124 = unat (xr m 2)"
    using unat_frame_base(4) [OF trap_readyD(1) [OF ready]] by (simp_all add: frame_at_def)
  have "frame_at (take_trap c t m) = frame_at m" and g: "global lay s (take_trap c t m) = global lay s m" for s
    by (simp_all add: frame_at_def global_def)
  with trapped_ram_outside [of lay "take_trap c t m"] ready b m1 quiet show ?thesis
    by (auto simp: resumed_at_def irqs_on_def mret_trap_status trapped_def)
qed

text \<open>The state in which \<^verbatim>\<open>risc_v_exception_handler\<close> calls the C handler.\<close>

abbreviation at_call :: "image \<Rightarrow> u32 \<Rightarrow> u32 \<Rightarrow> hart \<Rightarrow> hart" where
  "at_call im c t m \<equiv> set_x 5 11 (trapped (im_layout im) 4 (take_trap c t m))"

definition after_exception :: "image \<Rightarrow> hart \<Rightarrow> hart \<Rightarrow> hart" where
  "after_exception im m m2 = (let lay = im_layout im in
     m2\<lparr>xr := xr m, pc := pc m + 4, mepc := pc m + 4, mstatus := mret_status (trap_status (mstatus m)),
       ram := wr32 (wr32 (ram m2) (unat (lay G_exception_nest_cnt)) (global lay G_exception_nest_cnt m))
                (unat (lay G_critical_nesting_cnt)) (global lay G_critical_nesting_cnt m)\<rparr>)"

lemma at_call_simps:
  "ram (at_call im c t m) = trapped_ram (im_layout im) (pc m + 4) (take_trap c t m)" "xr (at_call im c t m) 10 = c"
  "xr (at_call im c t m) 5 = 11" "xr (at_call im c t m) 11 = pc m + 4" "ecall_handler (at_call im c t m) = ecall_handler m"
  "12 \<le> r \<Longrightarrow> xr (at_call im c t m) r = xr m r"
  by (simp_all add: set_x_def trapped_def)

lemma exception_call_restore:
  assumes "trap_ready (im_layout im) m" and "trap_handler (im_layout im) h"
  shows "run (im_layout im) portcontextRESTORE_CONTEXT (c_call junk h (at_call im c t m)) =
    after_exception im m (snd (h (at_call im c t m)))"
proof -
  have "xr (at_call im c t m) r = xr (take_trap c t m) r" if "r \<notin> set frame_regs" "r \<noteq> 2" for r
    using that by (auto simp: set_x_def trapped_def frame_regs_mem)
  then show ?thesis
    using trap_handler.save_call_restore [OF assms(2), of "take_trap c t m" "at_call im c t m" 4 junk] assms(1)
    by (simp add: set_x_def after_exception_def Let_def global_def)
qed

lemma exception_handler_run:
  assumes "trap_ready (im_layout im) m" and "c \<noteq> 11"
  shows "risc_v_exception_handler im (take_trap c t m) =
    after_exception im m (risc_v_application_exception_handler (im_layout im) c (at_call im c t m))"
  using assms exception_call_restore [OF assms(1) exception_call.trap_handler_axioms, of "im_junk im" "im_junk im 10" c c t]
  by (simp add: risc_v_exception_handler_def run_save_exception void_call_def at_call_simps Let_def)

lemma ecall_handler_run:
  assumes "trap_ready (im_layout im) m" and "\<And>f args. trap_handler (im_layout im) (im_code im f args)"
  shows "risc_v_exception_handler im (take_trap 11 t m) =
    after_exception im m (snd (risc_v_ecall_handler (im_code im) 11 (at_call im 11 t m)))"
  using assms(1) exception_call_restore [OF assms(1) ecall_call [OF assms(2)]]
  by (simp add: risc_v_exception_handler_def run_save_exception at_call_simps Let_def)

lemma exception_handler_resumes:
  assumes "trap_ready (im_layout im) m" and "c \<noteq> 11"
  shows "resumed_at (im_layout im) (pc m + 4) m (risc_v_exception_handler im (take_trap c t m))"
  using quiet_resumed [OF assms(1), of "at_call im c t m" 4 c t
      "risc_v_application_exception_handler (im_layout im) c (at_call im c t m)"]
  by (simp add: exception_handler_run [OF assms] after_exception_def Let_def at_call_simps) (simp add: trapped_def)

lemma interrupt_handler_resumes:
  assumes ready: "trap_ready (im_layout im) m" and weak: "im_hooks im = (id, id)" "im_linked im = weak_default"
  shows "resumed_at (im_layout im) (pc m) m (risc_v_interrupt_handler im (take_trap c t m))"
proof -
  let ?lay = "im_layout im" and ?m = "take_trap c t m"
  let ?m1 = "trapped ?lay 0 ?m"
  let ?h = "\<lambda>m. (im_junk im 10, risc_v_application_interrupt_handler ?lay (id, id) weak_default c m)"
  have "xr ?m1 10 = c"
    by (simp add: trapped_def)
  then have "risc_v_interrupt_handler im ?m = run ?lay portcontextRESTORE_CONTEXT (c_call (im_junk im) ?h ?m1)"
    using ready weak by (simp add: risc_v_interrupt_handler_def run_save_interrupt void_call_def)
  moreover have "xr ?m1 r = xr ?m r" if "r \<notin> set frame_regs" "r \<noteq> 2" for r
    using that by (auto simp: trapped_def frame_regs_mem)
  ultimately have "risc_v_interrupt_handler im ?m =
      (snd (?h ?m1))\<lparr>xr := xr ?m, pc := mepc ?m + 0, mepc := mepc ?m + 0, mstatus := mret_status (mstatus ?m),
        ram := wr32 (wr32 (ram (snd (?h ?m1))) (unat (?lay G_exception_nest_cnt)) (global ?lay G_exception_nest_cnt ?m))
                 (unat (?lay G_critical_nesting_cnt)) (global ?lay G_critical_nesting_cnt ?m)\<rparr>"
    using interrupt_call.save_call_restore [of ?lay ?m ?m1 0 "im_junk im" "im_junk im 10" c] ready by simp
  then show ?thesis
    using quiet_resumed [OF ready, of ?m1 0 c t "risc_v_application_interrupt_handler ?lay (id, id) weak_default c ?m1"]
    by (simp add: trapped_def global_def)
qed

lemma INTERRUPT_bits:
  assumes "n < 32"
  shows "bit (INTERRUPT n) 31" "INTERRUPT n AND NOT (push_bit 31 1) = n"
proof -
  show "bit (INTERRUPT n) 31"
    by (simp add: INTERRUPT_def bit_or_iff)
  have "unat n < 32"
    using assms by (simp add: word_less_nat_alt)
  then have "\<not> bit (unat n) 31"
    by (simp add: bit_iff_odd)
  then have "\<not> bit n 31"
    by (simp add: bit_unsigned_iff)
  moreover have "bit (push_bit 31 1 :: u32) k \<longleftrightarrow> k = 31" for k
    by (auto simp only: bit_push_bit_iff bit_1_iff possible_bit_word) simp_all
  ultimately show "INTERRUPT n AND NOT (push_bit 31 1) = n"
    by (intro bit_word_eqI) (auto simp only: INTERRUPT_def bit_or_iff bit_and_iff bit_not_iff possible_bit_word)
qed

text \<open>A board for the examples: the globals at the start of the RAM, a stack above them.\<close>

definition rv_layout :: layout where
  "rv_layout s = (case s of G_exception_nest_cnt \<Rightarrow> 0x84000000 | G_current_stack_pointer \<Rightarrow> 0x84000004
     | G_critical_nesting_cnt \<Rightarrow> 0x84000008 | P_critical_nesting_cnt \<Rightarrow> 0x8400000C | XISRStackTop \<Rightarrow> 0x84000010)"

definition rv_image :: image where
  "rv_image = \<lparr>im_layout = rv_layout, im_junk = (\<lambda>r. of_nat r), im_code = (\<lambda>f args m. (42, m)), im_hooks = (id, id),
     im_linked = weak_default\<rparr>"

definition rv_hart :: hart where
  "rv_hart = hart0\<lparr>xr := (\<lambda>r. 0x1000 + of_nat r)(2 := 0x84400000), ram := wr32 (\<lambda>_. 0) 0x8400000C 0x84000008\<rparr>"

lemma rv_hart_ready [simp]: "trap_ready rv_layout rv_hart"
  by (simp add: trap_ready_def rv_hart_def all_syms_def rv_layout_def apart_def frame_at_def global_def)

lemma rv_image_simps [simp]:
  "im_layout rv_image = rv_layout" "im_hooks rv_image = (id, id)" "im_linked rv_image = weak_default"
  "pc rv_hart = 0x80000000" "mtvec rv_hart = 0x80000080" "xr rv_hart 7 = 0x1007"
  by (simp_all add: rv_image_def rv_hart_def hart0_def)






text \<open>Traps must not nest.  When a first-level handler is itself trapped in state \<open>q\<close> and that inner trap has returned, the exit
  of the outer handler (with whatever registers \<open>X\<close> it ends) does not resume the context that the outer trap interrupted: it goes
  back into the handler, to the point after the inner trap, because \<^verbatim>\<open>g_current_stack_pointer\<close> still points to the inner frame.\<close>

theorem nested_exit_resumes_handler:
  assumes ready: "trap_ready (im_layout im) q" and level: "global (im_layout im) G_exception_nest_cnt q = 1" and "c \<noteq> 11"
    and "\<forall>r. r \<notin> set frame_regs \<and> r \<noteq> 2 \<longrightarrow> X r = xr q r"
  shows "let q' = risc_v_exception_handler im (take_trap c t q);
             end = run (im_layout im) portcontextRESTORE_CONTEXT (q'\<lparr>xr := X\<rparr>)
         in xr end = xr q \<and> pc end = pc q + 4"
proof -
  let ?lay = "im_layout im" and ?q = "take_trap c t q"
  let ?q' = "risc_v_exception_handler im ?q"
  note r = trap_readyD [OF ready]
  have b: "frame_at ?q = frame_at q" "global ?lay s ?q = global ?lay s q" "frame_base ?q = frame_base q" for s
    by (simp_all add: frame_at_def global_def)
  have ram': "ram ?q' = wr32 (wr32 (trapped_ram ?lay (pc q + 4) ?q) (unat (?lay G_exception_nest_cnt)) 1)
      (unat (?lay G_critical_nesting_cnt)) (global ?lay G_critical_nesting_cnt q)"
    using level by (simp add: exception_handler_run [OF ready assms(3)] after_exception_def Let_def at_call_simps)
  have keep: "global ?lay s ?q' = rd32 (trapped_ram ?lay (pc q + 4) ?q) (unat (?lay s))"
    if "s \<noteq> G_exception_nest_cnt" "s \<noteq> G_critical_nesting_cnt" for s
    using r(4) [OF that(1)] r(4) [OF that(2)] by (auto simp: global_def ram' apart_def rd32_wr32_other)
  have nest: "global ?lay G_exception_nest_cnt ?q' = 1"
    using r(4) [of G_exception_nest_cnt G_critical_nesting_cnt] by (auto simp: global_def ram' apart_def rd32_wr32_other)
  have "holds_frame ?q (pc q + 4) (global ?lay G_critical_nesting_cnt q) (trapped_ram ?lay (pc q + 4) ?q) (frame_at q)"
    using trapped_holds_frame [of ?lay ?q "pc q + 4"] ready b by simp
  then have "holds_frame ?q (pc q + 4) (global ?lay G_critical_nesting_cnt q) (ram ?q') (unat (frame_base ?q))"
    unfolding unat_frame_base(1) [OF r(1)] b(3) ram'
    by (rule holds_frame_agree) (blast intro: agree_trans agree_wr32 apart_sym [THEN iffD1] r(3))
  then have "run ?lay portcontextRESTORE_CONTEXT (?q'\<lparr>xr := X\<rparr>) = (?q'\<lparr>xr := X\<rparr>)
      \<lparr>xr := xr ?q, pc := pc q + 4, mepc := pc q + 4, mstatus := mret_status (mstatus ?q),
       ram := wr32 (wr32 (ram (?q'\<lparr>xr := X\<rparr>)) (unat (?lay G_exception_nest_cnt)) (global ?lay G_exception_nest_cnt (?q'\<lparr>xr := X\<rparr>) - 1))
                (unat (?lay G_critical_nesting_cnt)) (global ?lay G_critical_nesting_cnt q)\<rparr>"
  proof (intro run_restore)
    show "if global ?lay G_exception_nest_cnt (?q'\<lparr>xr := X\<rparr>) = 1 then global ?lay G_current_stack_pointer (?q'\<lparr>xr := X\<rparr>) = frame_base ?q
        else xr (?q'\<lparr>xr := X\<rparr>) 2 = frame_base ?q"
      using nest keep [of G_current_stack_pointer] trapped_globals(2) [of ?lay ?q 4] ready
      by (simp add: global_def trapped_def)
    show "global ?lay P_critical_nesting_cnt (?q'\<lparr>xr := X\<rparr>) = ?lay G_critical_nesting_cnt"
      using keep [of P_critical_nesting_cnt] trapped_globals(3) [of ?lay ?q P_critical_nesting_cnt 4] ready r(2)
      by (simp add: global_def trapped_def)
  qed (use assms(4) r unat_frame_base [OF r(1)] in auto)
  then show ?thesis
    by (simp add: Let_def)
qed


lemma rv_hart_nested:
  "trap_ready rv_layout (rv_hart\<lparr>ram := wr32 (ram rv_hart) 0x84000000 1\<rparr>)"
  "global rv_layout G_exception_nest_cnt (rv_hart\<lparr>ram := wr32 (ram rv_hart) 0x84000000 1\<rparr>) = 1"
  by (simp_all add: trap_ready_def rv_hart_def all_syms_def rv_layout_def apart_def frame_at_def global_def rd32_wr32_other)

theorem nested_exit_resumes_handler_witness:
  "let q = rv_hart\<lparr>ram := wr32 (ram rv_hart) 0x84000000 1\<rparr>;
       q' = risc_v_exception_handler rv_image (take_trap 5 0 q)
   in pc (run rv_layout portcontextRESTORE_CONTEXT (q'\<lparr>xr := xr rv_hart\<rparr>)) = 0x80000004"
  using nested_exit_resumes_handler [of rv_image "rv_hart\<lparr>ram := wr32 (ram rv_hart) 0x84000000 1\<rparr>" 5 "xr rv_hart" 0] rv_hart_nested
  by (simp add: Let_def)

section \<open>System calls and panics\<close>

text \<open>Once \<^verbatim>\<open>register_ecall_handler\<close> has stored a handler under a number below 128, an environment call with that number in
  \<^verbatim>\<open>a7\<close> runs it; its first two arguments are the trap cause and the return address, because the entry code has overwritten
  \<^verbatim>\<open>a0\<close> and \<^verbatim>\<open>a1\<close>, and only the other five come from the caller.\<close>

theorem registered_handler_called:
  assumes "trap_ready lay m" and "length (ecall_handler m) = MAX_ECALL_NUM" and "0 \<le> sint (xr m 17)" "sint (xr m 17) < 128" and "f \<noteq> 0"
  shows "\<exists>m'. risc_v_ecall_handler code 11
      (set_x 5 11 (run lay portcontextSAVE_EXCEPTION_CONTEXT (take_trap 11 tval (register_ecall_handler (xr m 17) f m)))) =
    code f [11, pc m + 4, xr m 12, xr m 13, xr m 14, xr m 15, xr m 16] m'"
proof -
  let ?m = "register_ecall_handler (xr m 17) f m"
  have reg: "?m = m\<lparr>ecall_handler := (ecall_handler m)[unat (xr m 17) := f]\<rparr>"
    using assms(3,4) by (simp add: register_ecall_handler_def MAX_ECALL_NUM_def)
  have "uint (xr m 17) = sint (xr m 17)"
    using uint_sint [of "xr m 17"] assms(3,4) by (simp add: take_bit_int_eq_self)
  then have "unat (xr m 17) < 128"
    using assms(4) by (simp add: unat_eq_nat_uint)
  then have tab: "ecall_handler ?m ! unat (xr m 17) = f"
    using assms(2) by (simp add: reg MAX_ECALL_NUM_def)
  have "trap_ready lay ?m"
    using assms(1) by (simp add: reg trap_ready_def global_def frame_at_def)
  then show ?thesis
    using assms(3-5) tab
    by (simp add: run_save_exception risc_v_ecall_handler_def Let_def set_x_def trapped_def MAX_ECALL_NUM_def) (auto simp: reg)
qed

theorem registered_handler_called_witness:
  "\<exists>m'. risc_v_ecall_handler (im_code rv_image) 11 (set_x 5 11 (run rv_layout portcontextSAVE_EXCEPTION_CONTEXT
      (take_trap 11 0 (register_ecall_handler 3 0x80001000 (rv_hart\<lparr>xr := (xr rv_hart)(17 := 3)\<rparr>))))) = (42, m')"
proof -
  let ?m = "rv_hart\<lparr>xr := (xr rv_hart)(17 := 3)\<rparr>"
  have "trap_ready rv_layout ?m"
    using rv_hart_ready by (simp add: trap_ready_def global_def frame_at_def)
  moreover have "length (ecall_handler ?m) = MAX_ECALL_NUM"
    by (simp add: rv_hart_def hart0_def MAX_ECALL_NUM_def)
  ultimately show ?thesis
    using registered_handler_called [of rv_layout ?m "0x80001000" "im_code rv_image" "0"] by (simp add: rv_image_def)
qed

text \<open>Whatever handlers are registered, as long as they leave the frame and the cells of the trap path alone, a system call stub
  returns its own first argument: the result a handler computes stays in \<^verbatim>\<open>a0\<close> only until the exit code reloads \<^verbatim>\<open>a0\<close> from the
  frame.\<close>

theorem syscall_returns_argument:
  assumes "trap_ready (im_layout im) m" and "mtvec m AND 3 = 0" and "\<forall>f args. trap_handler (im_layout im) (im_code im f args)"
  shows "\<exists>m'. arch_syscall_invoke6 im arg1 arg2 arg3 arg4 arg5 arg6 call_id m = Some (arg1, m') \<and> pc m' = pc m + 4"
proof -
  let ?m = "m\<lparr>xr := (xr m)(10 := arg1, 11 := arg2, 12 := arg3, 13 := arg4, 14 := arg5, 15 := arg6, 5 := call_id)\<rparr>"
  have "trap_ready (im_layout im) ?m"
    using assms(1) by (simp add: trap_ready_def global_def frame_at_def)
  moreover have "pc (take_trap 11 0 ?m) - (mtvec m AND NOT 3) = 0"
    using assms(2) by (simp add: take_trap_def)
  ultimately show ?thesis
    using assms(3) ecall_handler_run [of im ?m 0]
    by (simp add: arch_syscall_invoke6_def ecall_def risc_v_trap_def Let_def risc_v_vector_table_def after_exception_def)
qed

theorem syscall_returns_argument_witness:
  "\<exists>m'. arch_syscall_invoke6 rv_image 5 0 0 0 0 0 3 rv_hart = Some (5, m') \<and> pc m' = 0x80000004"
proof -
  have "\<forall>f args. trap_handler rv_layout (im_code rv_image f args)"
    by (simp add: rv_image_def trap_handler_def)
  then show ?thesis
    using syscall_returns_argument [of rv_image rv_hart 5 0 0 0 0 0 3] by simp
qed

text \<open>On this port \<^verbatim>\<open>k_panic\<close> and \<^verbatim>\<open>k_oops\<close> return: \<^verbatim>\<open>ARCH_EXCEPT\<close> traps with \<^verbatim>\<open>ebreak\<close>, the handler prints the
  registers, and execution goes on behind the point that the macro marks unreachable, with interrupts as they were.\<close>

theorem panic_returns:
  assumes "trap_ready (im_layout im) m" and "mtvec m AND 3 = 0"
  shows "\<exists>m'. ARCH_EXCEPT im reason_p m = Some m' \<and> pc m' = pc m + 4 \<and> irqs_on m' = irqs_on m"
proof -
  let ?m = "m\<lparr>xr := (xr m)(10 := reason_p, 5 := 0)\<rparr>"
  have "trap_ready (im_layout im) ?m"
    using assms(1) by (simp add: trap_ready_def global_def frame_at_def)
  from exception_handler_resumes [OF this, of 3 "pc m"] assms(2) show ?thesis
    by (auto simp: ARCH_EXCEPT_def arch_is_user_context_def risc_v_trap_def Let_def risc_v_vector_table_def resumed_at_def
        irqs_on_def) (simp_all add: take_trap_def)
qed

theorem panic_returns_witness:
  "\<exists>m'. ARCH_EXCEPT rv_image 4 rv_hart = Some m' \<and> pc m' = 0x80000004 \<and> irqs_on m'"
  using panic_returns [of rv_image rv_hart 4] by (auto simp: irqs_on_def) (simp_all add: rv_hart_def hart0_def)

end
