(* ===== verification/Arm64.thy ===== *)
theory Arm64
  imports Frames
begin

unbundle bit_operations_syntax

text \<open>
  The AArch64 port: the exception vectors of \<^verbatim>\<open>arch/arm64/core/vector.S\<close> as lists of instructions, the sixteen C handlers of
  \<^verbatim>\<open>arch/arm64/core/exceptions.c\<close>, the fatal error path of \<^verbatim>\<open>kernel/fatal.c\<close> and \<^verbatim>\<open>arch/arm64/core/fatal.c\<close>, the interrupt lock of
  \<^verbatim>\<open>include/arch/arm64/irq.h\<close>, and the system call stubs and \<^verbatim>\<open>ARCH_EXCEPT\<close> of \<^verbatim>\<open>include/arch/arm64\<close>.
  Compiled C code may leave anything in the caller-saved registers (\<open>junk\<close>); its stack below the frame is not modelled.
\<close>

section \<open>The processor\<close>

text \<open>\<open>sp\<close> is \<^verbatim>\<open>SP_EL1\<close>, on which every handler runs; \<open>pstate\<close> has the layout of a saved program status register.\<close>

record arm =
  gpr :: "nat \<Rightarrow> u64"
  sp :: u64
  pc :: u64
  pstate :: u64
  elr_el1 :: u64
  spsr_el1 :: u64
  esr_el1 :: u64
  far_el1 :: u64
  ram :: mem
  interrupt_nesting_count :: int
  klog :: "kmsg list"

definition report :: "string \<Rightarrow> va list \<Rightarrow> arm \<Rightarrow> arm" where
  "report fmt args m = m\<lparr>klog := klog m @ [(fmt, args)]\<rparr>"

text \<open>The mask bits of \<^verbatim>\<open>DAIF\<close> in the status register; bit 7 masks interrupts.\<close>

definition DAIF :: u64 where "DAIF = push_bit 6 15"
definition PSTATE_I :: u64 where "PSTATE_I = push_bit 7 1"

definition irqs_on :: "arm \<Rightarrow> bool" where
  "irqs_on m = (\<not> bit (pstate m) 7)"

text \<open>
  \<^verbatim>\<open>arch_irq_lock\<close> declares its key as the output of an instruction that writes no register: the key is whatever the register held
  (\<open>junk\<close>).  \<^verbatim>\<open>arch_irq_unlock\<close> does not look at it.
\<close>

definition arch_irq_lock :: "u32 \<Rightarrow> arm \<Rightarrow> u32 \<times> arm" where
  "arch_irq_lock junk m = (junk, m\<lparr>pstate := pstate m OR PSTATE_I\<rparr>)"

definition arch_irq_unlock :: "u32 \<Rightarrow> arm \<Rightarrow> arm" where
  "arch_irq_unlock key m = m\<lparr>pstate := pstate m AND NOT PSTATE_I\<rparr>"

definition is_in_isr :: "arm \<Rightarrow> bool" where
  "is_in_isr m = (0 < interrupt_nesting_count m)"

section \<open>Fatal errors\<close>

datatype fate = Resume arm | Halted arm | Spin arm

text \<open>\<open>Halted\<close> is the endless \<^verbatim>\<open>wfi\<close> loop of \<^verbatim>\<open>arch_halt\<close>, \<open>Spin\<close> an endless empty loop.\<close>

definition arch_halt :: "arm \<Rightarrow> fate" where
  "arch_halt m = Halted (snd (arch_irq_lock 0 m))"

definition K_ERR_CPU_EXCEPTION :: u32 where "K_ERR_CPU_EXCEPTION = 0"
definition K_ERR_SPURIOUS_IRQ :: u32 where "K_ERR_SPURIOUS_IRQ = 1"
definition K_ERR_STACK_CHK_FAIL :: u32 where "K_ERR_STACK_CHK_FAIL = 2"
definition K_ERR_KERNEL_OOPS :: u32 where "K_ERR_KERNEL_OOPS = 3"
definition K_ERR_KERNEL_PANIC :: u32 where "K_ERR_KERNEL_PANIC = 4"

definition reason_to_str :: "u32 \<Rightarrow> string" where
  "reason_to_str reason =
     (if reason = K_ERR_CPU_EXCEPTION then ''CPU exception''
      else if reason = K_ERR_SPURIOUS_IRQ then ''Unhandled interrupt''
      else if reason = K_ERR_STACK_CHK_FAIL then ''Stack overflow''
      else if reason = K_ERR_KERNEL_OOPS then ''Kernel oops''
      else if reason = K_ERR_KERNEL_PANIC then ''Kernel panic''
      else ''Unknown error'')"

record arch_esf =
  esf_x :: "u64 list"
  esf_lr :: u64
  esf_elr_el1 :: u64
  esf_spsr_el1 :: u64

definition rule_line :: string where
  "rule_line = ''===================================================================\<newline>''"

text \<open>The siren of the message is the four bytes of its UTF-8 encoding.\<close>

definition siren :: string where
  "siren = [CHR 0xF0, CHR 0x9F, CHR 0x9A, CHR 0xA8]"

text \<open>The halt does not return, so the statements after it do nothing.\<close>

definition kernel_fatal_error :: "u32 \<Rightarrow> arch_esf \<Rightarrow> arm \<Rightarrow> fate" where
  "kernel_fatal_error reason esf m =
     (let (key, m) = arch_irq_lock 0 m;
          m = report (''\<newline>'' @ rule_line) [] m;
          m = report ('' '' @ siren @ '' KERNEL PANIC '' @ siren @ ''\<newline>'') [] m;
          m = report rule_line [] m;
          m = report ''System Halted.\<newline>'' [] m;
          m = report rule_line [] m
      in arch_halt m)"

definition kernel_fatal_error_arch :: "arch_esf \<Rightarrow> arm \<Rightarrow> fate" where
  "kernel_fatal_error_arch esf m = kernel_fatal_error K_ERR_CPU_EXCEPTION esf m"

section \<open>C handlers\<close>

definition exception_class :: "u64 \<Rightarrow> u32" where
  "exception_class esr = ucast (drop_bit 26 esr AND 0x3F)"

definition reason_line :: "u32 \<Rightarrow> string" where
  "reason_line ec =
     (if ec = 0x15 then ''Reason: SVC (System Call) in AArch64\<newline>''
      else if ec = 0x24 then ''Reason: Data Abort (Lower EL)\<newline>''
      else if ec = 0x25 then ''Reason: Data Abort (Current EL)\<newline>''
      else if ec = 0x20 then ''Reason: Instruction Abort (Lower EL)\<newline>''
      else if ec = 0x21 then ''Reason: Instruction Abort (Current EL)\<newline>''
      else if ec = 0x26 then ''Reason: SP Alignment Fault\<newline>''
      else if ec = 0x3C then ''Reason: BRK Instruction (AArch64)\<newline>''
      else ''Reason: Unknown (Check ARM Architecture Reference Manual)\<newline>'')"

definition dump_sync_state :: "string \<Rightarrow> arch_esf \<Rightarrow> arm \<Rightarrow> arm" where
  "dump_sync_state source esf m =
     (let esr = esr_el1 m;
          far = far_el1 m;
          ec = exception_class esr;
          m = report ''\<newline>=== SYNCHRONOUS EXCEPTION ===\<newline>'' [] m;
          m = report ''Source:  %s\<newline>'' [VStr (Some source)] m;
          m = report ''ELR:     0x%016lx\<newline>'' [VReg (esf_elr_el1 esf)] m;
          m = report ''SPSR:    0x%016lx\<newline>'' [VReg (esf_spsr_el1 esf)] m;
          m = report ''ESR:     0x%016lx (Class: 0x%02x)\<newline>'' [VReg esr, VReg (ucast ec)] m;
          m = report ''FAR:     0x%016lx\<newline>'' [VReg far] m
      in report (reason_line ec) [] m)"

definition do_sync_el1_sp0 :: "arch_esf \<Rightarrow> arm \<Rightarrow> fate" where
  "do_sync_el1_sp0 esf m = kernel_fatal_error_arch esf (dump_sync_state ''EL1_SP0'' esf m)"

definition do_irq_el1_sp0 :: "arch_esf \<Rightarrow> arm \<Rightarrow> fate" where
  "do_irq_el1_sp0 esf m = Resume (report ''IRQ triggered from EL1 using SP0\<newline>'' [] m)"

definition do_fiq_el1_sp0 :: "arch_esf \<Rightarrow> arm \<Rightarrow> fate" where
  "do_fiq_el1_sp0 esf m = Spin (report ''FIQ triggered from EL1 using SP0\<newline>'' [] m)"

definition do_serror_el1_sp0 :: "arch_esf \<Rightarrow> arm \<Rightarrow> fate" where
  "do_serror_el1_sp0 esf m = kernel_fatal_error_arch esf (report ''System Error (SError) from EL1 using SP0\<newline>'' [] m)"

definition do_sync_el1_spx :: "arch_esf \<Rightarrow> arm \<Rightarrow> fate" where
  "do_sync_el1_spx esf m = kernel_fatal_error_arch esf (dump_sync_state ''EL1_SPx (Kernel Bug)'' esf m)"

definition do_irq_el1_spx :: "arch_esf \<Rightarrow> arm \<Rightarrow> fate" where
  "do_irq_el1_spx esf m = Resume m"

definition do_fiq_el1_spx :: "arch_esf \<Rightarrow> arm \<Rightarrow> fate" where
  "do_fiq_el1_spx esf m = Spin (report ''FIQ triggered from Kernel (EL1_SPx)\<newline>'' [] m)"

definition do_serror_el1_spx :: "arch_esf \<Rightarrow> arm \<Rightarrow> fate" where
  "do_serror_el1_spx esf m = kernel_fatal_error_arch esf (report ''System Error (SError) from Kernel (EL1_SPx)\<newline>'' [] m)"

definition do_sync_el0_64 :: "arch_esf \<Rightarrow> arm \<Rightarrow> fate" where
  "do_sync_el0_64 esf m = kernel_fatal_error_arch esf (dump_sync_state ''EL0_64 (User Space Trap/Syscall)'' esf m)"

definition do_irq_el0_64 :: "arch_esf \<Rightarrow> arm \<Rightarrow> fate" where
  "do_irq_el0_64 esf m = Resume m"

definition do_fiq_el0_64 :: "arch_esf \<Rightarrow> arm \<Rightarrow> fate" where
  "do_fiq_el0_64 esf m = Resume (report ''FIQ triggered while in User Space (EL0_64)\<newline>'' [] m)"

definition do_serror_el0_64 :: "arch_esf \<Rightarrow> arm \<Rightarrow> fate" where
  "do_serror_el0_64 esf m = kernel_fatal_error_arch esf (dump_sync_state ''EL0_64 (System Error)'' esf m)"

definition do_sync_el0_32 :: "arch_esf \<Rightarrow> arm \<Rightarrow> fate" where
  "do_sync_el0_32 esf m = kernel_fatal_error_arch esf (dump_sync_state ''EL0_32'' esf m)"

definition do_irq_el0_32 :: "arch_esf \<Rightarrow> arm \<Rightarrow> fate" where
  "do_irq_el0_32 esf m = Resume (report ''IRQ triggered from 32-bit EL0\<newline>'' [] m)"

definition do_fiq_el0_32 :: "arch_esf \<Rightarrow> arm \<Rightarrow> fate" where
  "do_fiq_el0_32 esf m = Spin (report ''FIQ triggered from 32-bit EL0\<newline>'' [] m)"

definition do_serror_el0_32 :: "arch_esf \<Rightarrow> arm \<Rightarrow> fate" where
  "do_serror_el0_32 esf m = kernel_fatal_error_arch esf (report ''System Error (SError) from 32-bit EL0\<newline>'' [] m)"

section \<open>Assembly\<close>

datatype sysreg = Elr_el1 | Spsr_el1

datatype ainsn =
    Sub_sp u64
  | Add_sp u64
  | Stp nat nat u64
  | Ldp nat nat u64
  | Str nat u64
  | Ldr nat u64
  | Mrs nat sysreg
  | Msr sysreg nat
  | Mov_sp nat
  | Eret

definition set_gpr :: "nat \<Rightarrow> u64 \<Rightarrow> arm \<Rightarrow> arm" where
  "set_gpr r v m = m\<lparr>gpr := (gpr m)(r := v)\<rparr>"

fun aexec1 :: "ainsn \<Rightarrow> arm \<Rightarrow> arm" where
  "aexec1 (Sub_sp n) m = m\<lparr>sp := sp m - n\<rparr>"
| "aexec1 (Add_sp n) m = m\<lparr>sp := sp m + n\<rparr>"
| "aexec1 (Stp a b off) m =
     m\<lparr>ram := wr64 (wr64 (ram m) (unat (sp m + off)) (gpr m a)) (unat (sp m + off + 8)) (gpr m b)\<rparr>"
| "aexec1 (Ldp a b off) m =
     set_gpr b (rd64 (ram m) (unat (sp m + off + 8))) (set_gpr a (rd64 (ram m) (unat (sp m + off))) m)"
| "aexec1 (Str a off) m = m\<lparr>ram := wr64 (ram m) (unat (sp m + off)) (gpr m a)\<rparr>"
| "aexec1 (Ldr a off) m = set_gpr a (rd64 (ram m) (unat (sp m + off))) m"
| "aexec1 (Mrs a Elr_el1) m = set_gpr a (elr_el1 m) m"
| "aexec1 (Mrs a Spsr_el1) m = set_gpr a (spsr_el1 m) m"
| "aexec1 (Msr Elr_el1 a) m = m\<lparr>elr_el1 := gpr m a\<rparr>"
| "aexec1 (Msr Spsr_el1 a) m = m\<lparr>spsr_el1 := gpr m a\<rparr>"
| "aexec1 (Mov_sp a) m = set_gpr a (sp m) m"
| "aexec1 Eret m = m\<lparr>pc := elr_el1 m, pstate := spsr_el1 m\<rparr>"

definition arun :: "ainsn list \<Rightarrow> arm \<Rightarrow> arm" where
  "arun is m = fold aexec1 is m"

definition kernel_entry :: "ainsn list" where
  "kernel_entry =
     [Sub_sp 288,
      Stp 0 1 (16 * 0), Stp 2 3 (16 * 1), Stp 4 5 (16 * 2), Stp 6 7 (16 * 3),
      Stp 8 9 (16 * 4), Stp 10 11 (16 * 5), Stp 12 13 (16 * 6), Stp 14 15 (16 * 7),
      Stp 16 17 (16 * 8), Stp 18 19 (16 * 9), Stp 20 21 (16 * 10), Stp 22 23 (16 * 11),
      Stp 24 25 (16 * 12), Stp 26 27 (16 * 13), Stp 28 29 (16 * 14),
      Mrs 21 Elr_el1, Mrs 22 Spsr_el1, Stp 30 21 (16 * 15), Str 22 (16 * 16)]"

definition kernel_exit :: "ainsn list" where
  "kernel_exit =
     [Ldr 22 (16 * 16), Ldp 30 21 (16 * 15), Msr Spsr_el1 22, Msr Elr_el1 21,
      Ldp 28 29 (16 * 14), Ldp 26 27 (16 * 13), Ldp 24 25 (16 * 12), Ldp 22 23 (16 * 11),
      Ldp 20 21 (16 * 10), Ldp 18 19 (16 * 9), Ldp 16 17 (16 * 8), Ldp 14 15 (16 * 7),
      Ldp 12 13 (16 * 6), Ldp 10 11 (16 * 5), Ldp 8 9 (16 * 4), Ldp 6 7 (16 * 3),
      Ldp 4 5 (16 * 2), Ldp 2 3 (16 * 1), Ldp 0 1 (16 * 0),
      Add_sp 288, Eret]"

text \<open>The frame as the C code sees it through its pointer.\<close>

definition esf_at :: "mem \<Rightarrow> u64 \<Rightarrow> arch_esf" where
  "esf_at M p = \<lparr>esf_x = map (\<lambda>i. rd64 M (unat p + 8 * i)) [0..<30], esf_lr = rd64 M (unat p + 240),
     esf_elr_el1 = rd64 M (unat p + 248), esf_spsr_el1 = rd64 M (unat p + 256)\<rparr>"

text \<open>A C function may change \<^verbatim>\<open>x0\<close>--\<^verbatim>\<open>x18\<close> and \<^verbatim>\<open>x30\<close>.\<close>

definition caller_saved :: "nat \<Rightarrow> bool" where
  "caller_saved r = (r \<le> 18 \<or> r = 30)"

definition clobber :: "(nat \<Rightarrow> u64) \<Rightarrow> arm \<Rightarrow> arm" where
  "clobber junk m = m\<lparr>gpr := (\<lambda>r. if caller_saved r then junk r else gpr m r)\<rparr>"

text \<open>One vector: save, pass the frame in \<^verbatim>\<open>x0\<close>, call, restore.\<close>

definition handler :: "(nat \<Rightarrow> u64) \<Rightarrow> (arch_esf \<Rightarrow> arm \<Rightarrow> fate) \<Rightarrow> arm \<Rightarrow> fate" where
  "handler junk f m =
     (let m = arun [Mov_sp 0] (arun kernel_entry m)
      in case f (esf_at (ram m) (gpr m 0)) m of
           Resume m \<Rightarrow> Resume (arun kernel_exit (clobber junk m))
         | stuck \<Rightarrow> stuck)"

definition vector_table_el1 :: "(arch_esf \<Rightarrow> arm \<Rightarrow> fate) list" where
  "vector_table_el1 =
     [do_sync_el1_sp0, do_irq_el1_sp0, do_fiq_el1_sp0, do_serror_el1_sp0,
      do_sync_el1_spx, do_irq_el1_spx, do_fiq_el1_spx, do_serror_el1_spx,
      do_sync_el0_64, do_irq_el0_64, do_fiq_el0_64, do_serror_el0_64,
      do_sync_el0_32, do_irq_el0_32, do_fiq_el0_32, do_serror_el0_32]"

datatype egroup = El1_sp0 | El1_spx | El0_64 | El0_32
datatype ekind = Sync | Irq | Fiq | Serror

fun group_index :: "egroup \<Rightarrow> nat" where
  "group_index El1_sp0 = 0"
| "group_index El1_spx = 1"
| "group_index El0_64 = 2"
| "group_index El0_32 = 3"

fun kind_index :: "ekind \<Rightarrow> nat" where
  "kind_index Sync = 0"
| "kind_index Irq = 1"
| "kind_index Fiq = 2"
| "kind_index Serror = 3"

definition vector :: "egroup \<Rightarrow> ekind \<Rightarrow> arch_esf \<Rightarrow> arm \<Rightarrow> fate" where
  "vector g k = vector_table_el1 ! (4 * group_index g + kind_index k)"

text \<open>
  The hardware: return address \<open>ret\<close>, syndrome and fault address are recorded, the status is saved, everything is masked and the
  processor is in EL1 on \<^verbatim>\<open>SP_EL1\<close>.
\<close>

definition take_exception :: "u64 \<Rightarrow> u64 \<Rightarrow> u64 \<Rightarrow> arm \<Rightarrow> arm" where
  "take_exception ret esr far m =
     m\<lparr>elr_el1 := ret, spsr_el1 := pstate m, esr_el1 := esr, far_el1 := far, pstate := DAIF OR 5\<rparr>"

definition exception :: "(nat \<Rightarrow> u64) \<Rightarrow> egroup \<Rightarrow> ekind \<Rightarrow> u64 \<Rightarrow> u64 \<Rightarrow> u64 \<Rightarrow> arm \<Rightarrow> fate" where
  "exception junk g k ret esr far m =
     handler junk (vector g k) (take_exception ret esr far m)"

section \<open>System calls\<close>

text \<open>The syndrome of \<^verbatim>\<open>svc #0\<close>: class 0x15, a 32-bit instruction.\<close>

definition svc :: "(nat \<Rightarrow> u64) \<Rightarrow> arm \<Rightarrow> fate" where
  "svc junk m = exception junk El1_spx Sync (pc m + 4) 0x56000000 (far_el1 m) m"

definition arch_syscall_invoke6 ::
  "(nat \<Rightarrow> u64) \<Rightarrow> u64 \<Rightarrow> u64 \<Rightarrow> u64 \<Rightarrow> u64 \<Rightarrow> u64 \<Rightarrow> u64 \<Rightarrow> u64 \<Rightarrow> arm \<Rightarrow> fate" where
  "arch_syscall_invoke6 junk arg1 arg2 arg3 arg4 arg5 arg6 call_id m =
     svc junk (m\<lparr>gpr := (gpr m)(0 := arg1, 1 := arg2, 2 := arg3, 3 := arg4, 4 := arg5, 5 := arg6, 8 := call_id)\<rparr>)"

definition arch_syscall_invoke5 :: "(nat \<Rightarrow> u64) \<Rightarrow> u64 \<Rightarrow> u64 \<Rightarrow> u64 \<Rightarrow> u64 \<Rightarrow> u64 \<Rightarrow> u64 \<Rightarrow> arm \<Rightarrow> fate" where
  "arch_syscall_invoke5 junk arg1 arg2 arg3 arg4 arg5 call_id m =
     svc junk (m\<lparr>gpr := (gpr m)(0 := arg1, 1 := arg2, 2 := arg3, 3 := arg4, 4 := arg5, 8 := call_id)\<rparr>)"

definition arch_syscall_invoke4 :: "(nat \<Rightarrow> u64) \<Rightarrow> u64 \<Rightarrow> u64 \<Rightarrow> u64 \<Rightarrow> u64 \<Rightarrow> u64 \<Rightarrow> arm \<Rightarrow> fate" where
  "arch_syscall_invoke4 junk arg1 arg2 arg3 arg4 call_id m =
     svc junk (m\<lparr>gpr := (gpr m)(0 := arg1, 1 := arg2, 2 := arg3, 3 := arg4, 8 := call_id)\<rparr>)"

definition arch_syscall_invoke3 :: "(nat \<Rightarrow> u64) \<Rightarrow> u64 \<Rightarrow> u64 \<Rightarrow> u64 \<Rightarrow> u64 \<Rightarrow> arm \<Rightarrow> fate" where
  "arch_syscall_invoke3 junk arg1 arg2 arg3 call_id m =
     svc junk (m\<lparr>gpr := (gpr m)(0 := arg1, 1 := arg2, 2 := arg3, 8 := call_id)\<rparr>)"

definition arch_syscall_invoke2 :: "(nat \<Rightarrow> u64) \<Rightarrow> u64 \<Rightarrow> u64 \<Rightarrow> u64 \<Rightarrow> arm \<Rightarrow> fate" where
  "arch_syscall_invoke2 junk arg1 arg2 call_id m = svc junk (m\<lparr>gpr := (gpr m)(0 := arg1, 1 := arg2, 8 := call_id)\<rparr>)"

definition arch_syscall_invoke1 :: "(nat \<Rightarrow> u64) \<Rightarrow> u64 \<Rightarrow> u64 \<Rightarrow> arm \<Rightarrow> fate" where
  "arch_syscall_invoke1 junk arg1 call_id m = svc junk (m\<lparr>gpr := (gpr m)(0 := arg1, 8 := call_id)\<rparr>)"

definition arch_is_user_context :: "arm \<Rightarrow> bool" where
  "arch_is_user_context m = False"

definition k_is_user_context :: "arm \<Rightarrow> bool" where
  "k_is_user_context m = arch_is_user_context m"

definition K_SYSCALL_USER_FAULT :: u64 where "K_SYSCALL_USER_FAULT = 0xff"

definition ARCH_EXCEPT :: "(nat \<Rightarrow> u64) \<Rightarrow> u64 \<Rightarrow> arm \<Rightarrow> fate" where
  "ARCH_EXCEPT junk reason_p m =
     (if k_is_user_context m then arch_syscall_invoke1 junk reason_p K_SYSCALL_USER_FAULT m
      else svc junk (m\<lparr>gpr := (gpr m)(0 := reason_p, 1 := 0)\<rparr>))"

definition k_oops :: "(nat \<Rightarrow> u64) \<Rightarrow> arm \<Rightarrow> fate" where
  "k_oops junk = ARCH_EXCEPT junk (ucast K_ERR_KERNEL_OOPS)"

definition k_panic :: "(nat \<Rightarrow> u64) \<Rightarrow> arm \<Rightarrow> fate" where
  "k_panic junk = ARCH_EXCEPT junk (ucast K_ERR_KERNEL_PANIC)"

end
