(* ===== verification/Arm64_Correct.thy ===== *)
theory Arm64_Correct
  imports Arm64
begin

unbundle bit_operations_syntax

text \<open>
  Correctness of the AArch64 exception path: the frame that \<^verbatim>\<open>kernel_entry\<close> writes is the \<^verbatim>\<open>struct arch_esf\<close> the C handlers read, a
  vector whose handler returns resumes the interrupted context exactly, and every fatal vector ends halted with interrupts masked
  after its report.
\<close>

section \<open>Entry\<close>

lemma arun_simps [simp]: "arun [] m = m" "arun (i # is) m = arun is (aexec1 i m)"
  by (simp_all add: arun_def)

lemma arun_append: "arun (is @ js) m = arun js (arun is m)"
  by (simp add: arun_def)

primrec pair_stores :: "nat \<Rightarrow> nat \<Rightarrow> ainsn list" where
  "pair_stores k 0 = []"
| "pair_stores k (Suc n) = Stp (2 * k) (2 * k + 1) (16 * of_nat k) # pair_stores (Suc k) n"

lemma pair_addr:
  fixes s :: u64
  assumes "unat s + 16 * k + 16 \<le> 2 ^ 64"
  shows "unat (s + 16 * of_nat k) = unat s + 16 * k" "unat (s + 16 * of_nat k + 8) = unat s + 16 * k + 8"
proof -
  have k: "unat (16 * of_nat k :: u64) = 16 * k"
    using assms by (simp add: unat_word_ariths unat_of_nat)
  show first: "unat (s + 16 * of_nat k) = unat s + 16 * k"
    using assms k by (simp add: unat_add_u64)
  show "unat (s + 16 * of_nat k + 8) = unat s + 16 * k + 8"
    using assms first unat_add_u64 [of "s + 16 * of_nat k" 8] by simp
qed

lemma arun_pair_stores:
  "unat (sp m) + 16 * (k + n) \<le> 2 ^ 64 \<Longrightarrow>
   arun (pair_stores k n) m = m\<lparr>ram := wr_block64 (ram m) (unat (sp m) + 16 * k) (map (gpr m) [2 * k..<2 * k + 2 * n])\<rparr>"
proof (induction n arbitrary: k m)
  case (Suc n)
  let ?a = "unat (sp m) + 16 * k"
  let ?m = "m\<lparr>ram := wr64 (wr64 (ram m) ?a (gpr m (2 * k))) (?a + 8) (gpr m (2 * k + 1))\<rparr>"
  have regs: "[2 * k..<2 * k + 2 * Suc n] = 2 * k # (2 * k + 1) # [2 * Suc k..<2 * Suc k + 2 * n]"
    by (simp add: upt_rec)
  have "arun (pair_stores k (Suc n)) m = arun (pair_stores (Suc k) n) ?m"
    using Suc.prems by (simp add: pair_addr)
  also have "\<dots> = ?m\<lparr>ram := wr_block64 (ram ?m) (unat (sp ?m) + 16 * Suc k) (map (gpr ?m) [2 * Suc k..<2 * Suc k + 2 * n])\<rparr>"
    using Suc.prems by (intro Suc.IH) simp
  also have "unat (sp ?m) + 16 * Suc k = ?a + 8 + 8"
    by simp
  finally show ?case
    unfolding regs by simp
qed simp

lemma kernel_entry_unfold:
  "kernel_entry = Sub_sp 288 # pair_stores 0 15 @ [Mrs 21 Elr_el1, Mrs 22 Spsr_el1, Stp 30 21 240, Str 22 256]"
  by (simp add: kernel_entry_def numeral_eq_Suc)

definition holds_frame :: "arm \<Rightarrow> mem \<Rightarrow> nat \<Rightarrow> bool" where
  "holds_frame m M b = ((\<forall>i < 30. rd64 M (b + 8 * i) = gpr m i) \<and> rd64 M (b + 240) = gpr m 30 \<and>
     rd64 M (b + 248) = elr_el1 m \<and> rd64 M (b + 256) = spsr_el1 m)"

definition frame_ram :: "arm \<Rightarrow> mem" where
  "frame_ram m = (let b = unat (sp m - 288) in
     wr64 (wr64 (wr64 (wr_block64 (ram m) b (map (gpr m) [0..<30])) (b + 240) (gpr m 30)) (b + 248) (elr_el1 m)) (b + 256) (spsr_el1 m))"

lemma frame_base:
  assumes "288 \<le> unat (sp m)"
  shows "unat (sp m - 288) = unat (sp m) - 288" "unat (sp m - 288) + 288 = unat (sp m)" "unat (sp m - 288) + 288 < 2 ^ 64"
proof -
  show "unat (sp m - 288) = unat (sp m) - 288"
    using assms by (simp add: unat_sub_u64)
  then show "unat (sp m - 288) + 288 = unat (sp m)"
    using assms by simp
  then show "unat (sp m - 288) + 288 < 2 ^ 64"
    using unat_u64_bound [of "sp m"] by simp
qed

lemma frame_ram_holds: "holds_frame m (frame_ram m) (unat (sp m - 288))"
  using rd64_wr_block64 [of _ "map (gpr m) [0..<30]" "ram m" "unat (sp m - 288)"]
  by (auto simp: holds_frame_def frame_ram_def Let_def rd64_wr64_other)

lemma frame_ram_outside:
  assumes "288 \<le> unat (sp m)" "a < unat (sp m) - 288 \<or> unat (sp m) \<le> a"
  shows "frame_ram m a = ram m a"
proof -
  obtain b where b: "b = unat (sp m - 288)" by simp
  with assms frame_base(1,2) [OF assms(1)] have "a < b \<or> b + 288 \<le> a" by simp
  then show ?thesis
    by (auto simp: frame_ram_def Let_def wr64_apply wr_block64_apply b [symmetric])
qed

lemma run_entry:
  assumes "288 \<le> unat (sp m)"
  shows "arun [Mov_sp 0] (arun kernel_entry m) =
    m\<lparr>sp := sp m - 288, ram := frame_ram m, gpr := (gpr m)(21 := elr_el1 m, 22 := spsr_el1 m, 0 := sp m - 288)\<rparr>"
proof -
  note b = frame_base [OF assms]
  have slots: "unat (sp m - 48) = unat (sp m - 288) + 240" "unat (sp m - 40) = unat (sp m - 288) + 248"
    "unat (sp m - 32) = unat (sp m - 288) + 256"
    using assms b(1) by (simp_all add: unat_sub_u64)
  show ?thesis
    using b(3) by (intro arm.equality)
      (simp_all add: kernel_entry_unfold arun_append arun_pair_stores set_gpr_def slots frame_ram_def Let_def)
qed


section \<open>Exit\<close>

lemma entry_frame_agree:
  assumes "holds_frame m M b" "agree b 288 M M'"
  shows "holds_frame m M' b"
proof -
  have "rd64 M (b + 8 * i) = rd64 M' (b + 8 * i)" if "i < 33" for i
    using that by (intro agree_rd64 agree_sub [OF assms(2)]) auto
  from this [of 30] this [of 31] this [of 32] this assms(1) show ?thesis
    by (simp add: holds_frame_def)
qed

abbreviation pair_loads :: "nat list \<Rightarrow> ainsn list" where
  "pair_loads ks \<equiv> map (\<lambda>k. Ldp (2 * k) (2 * k + 1) (16 * of_nat k)) ks"

lemma arun_pair_loads:
  assumes "\<And>k. k \<in> set ks \<Longrightarrow> k < 15" "unat (sp m) + 288 \<le> 2 ^ 64" "\<And>i. i < 30 \<Longrightarrow> rd64 (ram m) (unat (sp m) + 8 * i) = v i"
  shows "arun (pair_loads ks) m = m\<lparr>gpr := (\<lambda>r. if r div 2 \<in> set ks then v r else gpr m r)\<rparr>"
  using assms
proof (induction ks arbitrary: m)
  case (Cons k ks)
  let ?m = "m\<lparr>gpr := (gpr m)(2 * k := v (2 * k), 2 * k + 1 := v (2 * k + 1))\<rparr>"
  have k: "k < 15"
    using Cons.prems(1) by simp
  have "rd64 (ram m) (unat (sp m) + 16 * k) = v (2 * k)" "rd64 (ram m) (unat (sp m) + 16 * k + 8) = v (2 * k + 1)"
    using Cons.prems(3) [of "2 * k"] Cons.prems(3) [of "2 * k + 1"] k by (simp_all add: algebra_simps)
  then have "arun (pair_loads (k # ks)) m = arun (pair_loads ks) ?m"
    using Cons.prems(2) k by (simp add: pair_addr set_gpr_def)
  also have "\<dots> = ?m\<lparr>gpr := (\<lambda>r. if r div 2 \<in> set ks then v r else gpr ?m r)\<rparr>"
    using Cons.prems by (intro Cons.IH) auto
  also have "(\<lambda>r. if r div 2 \<in> set ks then v r else gpr ?m r) = (\<lambda>r. if r div 2 \<in> set (k # ks) then v r else gpr m r)"
    by (auto simp: fun_eq_iff)
  finally show ?case by simp
qed simp

lemma kernel_exit_unfold:
  "kernel_exit = [Ldr 22 256, Ldp 30 21 240, Msr Spsr_el1 22, Msr Elr_el1 21] @ pair_loads (rev [0..<15]) @ [Add_sp 288, Eret]"
  by (simp add: kernel_exit_def upt_rec)

lemma run_exit:
  assumes "holds_frame m (ram m2) (unat (sp m2))" "unat (sp m2) + 288 \<le> 18446744073709551616"
  shows "arun kernel_exit m2 = m2\<lparr>gpr := (\<lambda>r. if r \<le> 30 then gpr m r else gpr m2 r), sp := sp m2 + 288, pc := elr_el1 m,
    pstate := spsr_el1 m, elr_el1 := elr_el1 m, spsr_el1 := spsr_el1 m\<rparr>"
proof -
  let ?m3 = "m2\<lparr>gpr := (gpr m2)(22 := spsr_el1 m, 30 := gpr m 30, 21 := elr_el1 m), spsr_el1 := spsr_el1 m, elr_el1 := elr_el1 m\<rparr>"
  have slots: "unat (sp m2 + 240) = unat (sp m2) + 240" "unat (sp m2 + 248) = unat (sp m2) + 248" "unat (sp m2 + 256) = unat (sp m2) + 256"
    "unat (248 + sp m2) = unat (sp m2) + 248"
    using assms(2) by (simp_all add: unat_add_u64)
  have "arun kernel_exit m2 = arun [Add_sp 288, Eret] (arun (pair_loads (rev [0..<15])) ?m3)"
    using assms(1) unfolding kernel_exit_unfold arun_append
    by (simp add: set_gpr_def slots holds_frame_def)
  also have "arun (pair_loads (rev [0..<15])) ?m3 = ?m3\<lparr>gpr := (\<lambda>r. if r div 2 \<in> set (rev [0..<15]) then gpr m r else gpr ?m3 r)\<rparr>"
    using assms by (intro arun_pair_loads) (auto simp: holds_frame_def)
  also have "(\<lambda>r. if r div 2 \<in> set (rev [0..<15]) then gpr m r else gpr ?m3 r) = (\<lambda>r. if r \<le> 30 then gpr m r else gpr m2 r)"
    by (auto simp: fun_eq_iff)
  finally show ?thesis
    by (intro arm.equality) simp_all
qed


section \<open>Vectors\<close>

lemma vector_simps [simp]:
  "vector El1_sp0 k =
     (case k of Sync \<Rightarrow> do_sync_el1_sp0 | Irq \<Rightarrow> do_irq_el1_sp0 | Fiq \<Rightarrow> do_fiq_el1_sp0 | Serror \<Rightarrow> do_serror_el1_sp0)"
  "vector El1_spx k =
     (case k of Sync \<Rightarrow> do_sync_el1_spx | Irq \<Rightarrow> do_irq_el1_spx | Fiq \<Rightarrow> do_fiq_el1_spx | Serror \<Rightarrow> do_serror_el1_spx)"
  "vector El0_64 k =
     (case k of Sync \<Rightarrow> do_sync_el0_64 | Irq \<Rightarrow> do_irq_el0_64 | Fiq \<Rightarrow> do_fiq_el0_64 | Serror \<Rightarrow> do_serror_el0_64)"
  "vector El0_32 k =
     (case k of Sync \<Rightarrow> do_sync_el0_32 | Irq \<Rightarrow> do_irq_el0_32 | Fiq \<Rightarrow> do_fiq_el0_32 | Serror \<Rightarrow> do_serror_el0_32)"
  by (cases k; simp add: vector_def vector_table_el1_def)+

lemmas do_irq_defs = do_irq_el1_sp0_def do_irq_el1_spx_def do_irq_el0_64_def do_irq_el0_32_def do_fiq_el0_64_def
lemmas do_spin_defs = do_fiq_el1_sp0_def do_fiq_el1_spx_def do_fiq_el0_32_def
lemmas do_sync_defs = do_sync_el1_sp0_def do_sync_el1_spx_def do_sync_el0_64_def do_sync_el0_32_def
lemmas do_serror_defs = do_serror_el1_sp0_def do_serror_el1_spx_def do_serror_el0_64_def do_serror_el0_32_def

text \<open>The vectors whose handler returns: interrupts of every group, and fast interrupts from 64-bit user space.\<close>

definition returning :: "egroup \<Rightarrow> ekind \<Rightarrow> bool" where
  "returning g k = (k = Irq \<or> k = Fiq \<and> g = El0_64)"

lemma returning_handler:
  assumes "returning g k"
  shows "\<exists>K. vector g k esf m = Resume (m\<lparr>klog := K\<rparr>)"
proof -
  from assms have "vector g k esf m = Resume m \<or> (\<exists>f. vector g k esf m = Resume (report f [] m))"
    by (cases g; cases k) (simp_all add: returning_def do_irq_defs, blast+)
  then show ?thesis
    by (elim disjE exE) (rule exI [of _ "klog m"], simp, unfold report_def, blast)
qed

lemma take_exception_simps [simp]:
  "sp (take_exception ret esr far m) = sp m" "gpr (take_exception ret esr far m) = gpr m" "ram (take_exception ret esr far m) = ram m"
  "elr_el1 (take_exception ret esr far m) = ret" "spsr_el1 (take_exception ret esr far m) = pstate m"
  "esr_el1 (take_exception ret esr far m) = esr" "far_el1 (take_exception ret esr far m) = far"
  "klog (take_exception ret esr far m) = klog m"
  by (simp_all add: take_exception_def)

text \<open>C16: An interrupt whose handler returns resumes the interrupted context exactly: all 31 registers, the stack pointer, the
  processor state with its interrupt masks, the return address, and every byte outside the 288 bytes below the stack pointer.\<close>

theorem interrupt_resumes:
  assumes "288 \<le> unat (sp m)" and "returning g k"
  shows "\<exists>m'. exception junk g k ret esr far m = Resume m' \<and> (\<forall>r \<le> 30. gpr m' r = gpr m r) \<and> sp m' = sp m \<and> pc m' = ret \<and>
    pstate m' = pstate m \<and> (\<forall>a. a < unat (sp m) - 288 \<or> unat (sp m) \<le> a \<longrightarrow> ram m' a = ram m a)"
proof -
  let ?m = "take_exception ret esr far m"
  obtain m1 where call: "m1 = arun [Mov_sp 0] (arun kernel_entry ?m)" by simp
  then have m1: "m1 = ?m\<lparr>sp := sp m - 288, ram := frame_ram ?m, gpr := (gpr m)(21 := ret, 22 := pstate m, 0 := sp m - 288)\<rparr>"
    using run_entry [of ?m] assms(1) by simp
  obtain K where f: "vector g k (esf_at (ram m1) (gpr m1 0)) m1 =
      Resume (m1\<lparr>klog := K\<rparr>)"
    using returning_handler [OF assms(2)] by blast
  let ?m2 = "clobber junk (m1\<lparr>klog := K\<rparr>)"
  have m2: "sp ?m2 = sp m - 288" "ram ?m2 = frame_ram ?m"
    by (simp_all add: clobber_def m1)
  have "holds_frame ?m (ram ?m2) (unat (sp ?m2))"
    using frame_ram_holds [of ?m] m2 by simp
  moreover have "unat (sp ?m2) + 288 \<le> 18446744073709551616"
    using frame_base(3) [OF assms(1)] m2 by simp
  ultimately have "arun kernel_exit ?m2 = ?m2\<lparr>gpr := (\<lambda>r. if r \<le> 30 then gpr ?m r else gpr ?m2 r), sp := sp ?m2 + 288,
      pc := elr_el1 ?m, pstate := spsr_el1 ?m, elr_el1 := elr_el1 ?m, spsr_el1 := spsr_el1 ?m\<rparr>"
    by (rule run_exit)
  moreover have "exception junk g k ret esr far m = Resume (arun kernel_exit ?m2)"
    by (simp only: exception_def handler_def Let_def call [symmetric] f fate.case)
  ultimately show ?thesis
    using m2 frame_ram_outside [of ?m] assms(1) by simp
qed

definition arm0 :: arm where
  "arm0 = \<lparr>gpr = (\<lambda>r. of_nat r), sp = 0x40100000, pc = 0x40001000, pstate = 5, elr_el1 = 0, spsr_el1 = 0, esr_el1 = 0, far_el1 = 0,
     ram = (\<lambda>_. 0), interrupt_nesting_count = 0, klog = []\<rparr>"

theorem interrupt_resumes_witness:
  "\<exists>m'. exception (\<lambda>_. 0) El1_spx Irq 0x40001000 0 0 arm0 = Resume m' \<and> pc m' = 0x40001000 \<and> gpr m' 21 = 21 \<and> irqs_on m'"
  using interrupt_resumes [of arm0 El1_spx Irq "\<lambda>_. 0" "0x40001000" 0 0]
  by (auto simp: arm0_def returning_def irqs_on_def bit_numeral_rec)


section \<open>Fatal exceptions\<close>

definition panic_banner :: "kmsg list" where
  "panic_banner = [(''\<newline>'' @ rule_line, []), ('' '' @ siren @ '' KERNEL PANIC '' @ siren @ ''\<newline>'', []), (rule_line, []),
     (''System Halted.\<newline>'', []), (rule_line, [])]"

lemma fatal_halts: "kernel_fatal_error_arch esf m = Halted (m\<lparr>pstate := pstate m OR PSTATE_I, klog := klog m @ panic_banner\<rparr>)"
  by (intro arg_cong [where f = Halted] arm.equality |
      simp add: kernel_fatal_error_arch_def kernel_fatal_error_def arch_irq_lock_def arch_halt_def report_def panic_banner_def)+


lemma entry_keeps:
  "klog (arun [Mov_sp 0] (arun kernel_entry m)) = klog m" "pstate (arun [Mov_sp 0] (arun kernel_entry m)) = pstate m"
  "esr_el1 (arun [Mov_sp 0] (arun kernel_entry m)) = esr_el1 m" "far_el1 (arun [Mov_sp 0] (arun kernel_entry m)) = far_el1 m"
  by (simp_all add: kernel_entry_def set_gpr_def)

lemma masked_bit: "bit (DAIF OR 5) 7" "bit (s OR PSTATE_I) 7"
  by (simp_all add: DAIF_def PSTATE_I_def bit_or_iff bit_numeral_rec)

lemma pstate_take_exception [simp]: "pstate (take_exception ret esr far m) = DAIF OR 5"
  by (simp add: take_exception_def)

definition sync_msgs :: "string \<Rightarrow> arch_esf \<Rightarrow> u64 \<Rightarrow> u64 \<Rightarrow> kmsg list" where
  "sync_msgs source esf esr far =
     [(''\<newline>=== SYNCHRONOUS EXCEPTION ===\<newline>'', []), (''Source:  %s\<newline>'', [VStr (Some source)]),
      (''ELR:     0x%016lx\<newline>'', [VReg (esf_elr_el1 esf)]), (''SPSR:    0x%016lx\<newline>'', [VReg (esf_spsr_el1 esf)]),
      (''ESR:     0x%016lx (Class: 0x%02x)\<newline>'', [VReg esr, VReg (ucast (exception_class esr))]),
      (''FAR:     0x%016lx\<newline>'', [VReg far]), (reason_line (exception_class esr), [])]"

lemma dump_sync_state_log: "dump_sync_state source esf m = m\<lparr>klog := klog m @ sync_msgs source esf (esr_el1 m) (far_el1 m)\<rparr>"
  by (simp add: dump_sync_state_def report_def sync_msgs_def Let_def)

fun group_source :: "egroup \<Rightarrow> string" where
  "group_source El1_sp0 = ''EL1_SP0''"
| "group_source El1_spx = ''EL1_SPx (Kernel Bug)''"
| "group_source El0_64 = ''EL0_64 (User Space Trap/Syscall)''"
| "group_source El0_32 = ''EL0_32''"

lemma sync_vector: "vector g Sync esf m = kernel_fatal_error_arch esf (dump_sync_state (group_source g) esf m)"
  by (cases g) (simp_all add: do_sync_defs)

lemma serror_vector: "\<exists>msgs. vector g Serror esf m = kernel_fatal_error_arch esf (m\<lparr>klog := klog m @ msgs\<rparr>)"
  by (cases g) (simp_all add: do_serror_defs dump_sync_state_log report_def, blast+)

lemma fiq_vector: "g \<noteq> El0_64 \<Longrightarrow> \<exists>msgs. vector g Fiq esf m = Spin (m\<lparr>klog := klog m @ msgs\<rparr>)"
  by (cases g) (simp_all add: do_spin_defs report_def, blast+)

text \<open>The state in which a vector calls its handler.\<close>

lemma exception_call:
  "\<exists>m1. klog m1 = klog m \<and> pstate m1 = DAIF OR 5 \<and> (\<forall>g k. exception junk g k ret esr far m =
     (case vector g k (esf_at (ram m1) (gpr m1 0)) m1 of Resume m \<Rightarrow> Resume (arun kernel_exit (clobber junk m)) | stuck \<Rightarrow> stuck))"
proof -
  obtain m1 where call: "m1 = arun [Mov_sp 0] (arun kernel_entry (take_exception ret esr far m))" by simp
  then have "klog m1 = klog m" "pstate m1 = DAIF OR 5"
    by (simp_all only: entry_keeps take_exception_simps pstate_take_exception)
  then show ?thesis
    by (intro exI [of _ m1]) (simp only: exception_def handler_def Let_def call [symmetric] simp_thms)
qed

lemma sync_outcome:
  "\<exists>m' msgs. exception junk g Sync ret esr far m = Halted m' \<and> \<not> irqs_on m' \<and> klog m' = klog m @ msgs @ panic_banner"
proof -
  obtain m1 where "klog m1 = klog m" "pstate m1 = DAIF OR 5" "exception junk g Sync ret esr far m =
      (case vector g Sync (esf_at (ram m1) (gpr m1 0)) m1 of Resume m \<Rightarrow> Resume (arun kernel_exit (clobber junk m)) | stuck \<Rightarrow> stuck)"
    using exception_call [of m junk ret esr far] by blast
  then show ?thesis
    by (simp add: sync_vector fatal_halts dump_sync_state_log irqs_on_def masked_bit)
qed


text \<open>The report of a synchronous exception is true: through the frame that the assembly wrote and the C structure that names its
  fields, it prints the address to return to, the status of the interrupted code, the syndrome with its class, and the fault address.\<close>

theorem sync_report:
  assumes "288 \<le> unat (sp m)"
  shows "\<exists>m'. exception junk g Sync ret esr far m = Halted m' \<and> klog m' = klog m @
    [(''\<newline>=== SYNCHRONOUS EXCEPTION ===\<newline>'', []), (''Source:  %s\<newline>'', [VStr (Some (group_source g))]),
     (''ELR:     0x%016lx\<newline>'', [VReg ret]), (''SPSR:    0x%016lx\<newline>'', [VReg (pstate m)]),
     (''ESR:     0x%016lx (Class: 0x%02x)\<newline>'', [VReg esr, VReg (ucast (exception_class esr))]),
     (''FAR:     0x%016lx\<newline>'', [VReg far]), (reason_line (exception_class esr), [])] @ panic_banner"
proof -
  let ?m = "take_exception ret esr far m"
  have "esf_elr_el1 (esf_at (frame_ram ?m) (sp m - 288)) = ret" "esf_spsr_el1 (esf_at (frame_ram ?m) (sp m - 288)) = pstate m"
    using frame_ram_holds [of ?m] by (simp_all add: esf_at_def holds_frame_def)
  moreover have "arun [Mov_sp 0] (arun kernel_entry ?m) =
      ?m\<lparr>sp := sp m - 288, ram := frame_ram ?m, gpr := (gpr m)(21 := ret, 22 := pstate m, 0 := sp m - 288)\<rparr>"
    using run_entry [of ?m] assms by simp
  ultimately show ?thesis
    unfolding exception_def handler_def Let_def
    by (simp only:) (simp add: sync_vector fatal_halts dump_sync_state_log sync_msgs_def)
qed

theorem sync_report_witness:
  "\<exists>m'. exception (\<lambda>_. 0) El1_spx Sync 0x40001000 0x96000045 0xDEAD arm0 = Halted m' \<and> klog m' =
    [(''\<newline>=== SYNCHRONOUS EXCEPTION ===\<newline>'', []), (''Source:  %s\<newline>'', [VStr (Some ''EL1_SPx (Kernel Bug)'')]),
     (''ELR:     0x%016lx\<newline>'', [VReg 0x40001000]), (''SPSR:    0x%016lx\<newline>'', [VReg 5]),
     (''ESR:     0x%016lx (Class: 0x%02x)\<newline>'', [VReg 0x96000045, VReg 0x25]),
     (''FAR:     0x%016lx\<newline>'', [VReg 0xDEAD]), (''Reason: Data Abort (Current EL)\<newline>'', [])] @ panic_banner"
  using sync_report [of arm0 "\<lambda>_. 0" El1_spx "0x40001000" "0x96000045" "0xDEAD"]
  by (simp add: arm0_def exception_class_def reason_line_def)


text \<open>Critical sections do not nest on this port: with interrupts enabled at the start, after two locks the first unlock, with any
  key, takes interrupts again although the outer section is still open.\<close>

theorem inner_unlock_enables:
  "\<not> irqs_on (snd (arch_irq_lock j1 m)) \<and> irqs_on (arch_irq_unlock key (snd (arch_irq_lock j2 (snd (arch_irq_lock j1 m)))))"
proof -
  have "bit PSTATE_I 7"
    by (simp add: PSTATE_I_def)
  then show ?thesis
    by (simp add: irqs_on_def arch_irq_unlock_def arch_irq_lock_def bit_and_iff bit_or_iff bit_not_iff_eq)
qed

end
