(* ===== verification/Fdt_Overlay_Props.thy ===== *)
theory Fdt_Overlay_Props
  imports Fdt_Overlay Fdt_Props
begin

unbundle bit_operations_syntax

text \<open>
  Overlays on arbitrary blobs.  The renumbering of the phandles runs over the whole overlay, whatever its bytes are: it ends, it
  does not leave the buffer, and it writes only inside the structure block.  Applying an overlay leaves no blob behind that passes
  for a tree when the two may be out of step.
\<close>

section \<open>Writes inside the structure block\<close>

text \<open>The structure block starts behind the header, so that a write into it keeps the offsets and sizes.\<close>

definition overlay_buffer :: "fdt \<Rightarrow> bool" where
  "overlay_buffer fdt \<longleftrightarrow> fdt_buffer fdt \<and> 40 \<le> uint (hdr fdt 8)"

definition struct_only :: "fdt \<Rightarrow> fdt \<Rightarrow> bool" where
  "struct_only fdt fdt' \<longleftrightarrow> length (fdt_bytes fdt') = length (fdt_bytes fdt) \<and>
     (\<forall>p. p < uint (hdr fdt 8) \<or> uint (hdr fdt 4) \<le> p \<longrightarrow> rd8 fdt' p = rd8 fdt p)"

lemma struct_only_refl [simp]: "struct_only fdt fdt"
  by (simp add: struct_only_def)

lemma struct_only_hdr:
  assumes "overlay_buffer fdt" "struct_only fdt fdt'" "q \<le> 36"
  shows "hdr fdt' q = hdr fdt q"
proof -
  have "rd8 fdt' p = rd8 fdt p" if "q \<le> p" "p < q + 4" for p
    using assms that by (simp add: overlay_buffer_def struct_only_def)
  then show ?thesis by (simp add: hdr_def fdt32_ld_def)
qed

lemma struct_only_buffer:
  assumes "overlay_buffer fdt" "struct_only fdt fdt'"
  shows "overlay_buffer fdt'"
proof -
  have len: "length (fdt_bytes fdt') = length (fdt_bytes fdt)"
    using assms(2) by (simp add: struct_only_def)
  then have "fdt_totalsize fdt' = Some (hdr fdt 4)"
    using hdr_fields(2) [of fdt'] struct_only_hdr [OF assms, of 4] assms(1) fdt_buffer_header [of fdt]
    by (simp add: overlay_buffer_def)
  moreover have "fdt_totalsize fdt = Some (hdr fdt 4)"
    using assms(1) by (simp add: overlay_buffer_def)
  ultimately show ?thesis
    using assms(1) len struct_only_hdr [OF assms, of 8]
    by (simp add: overlay_buffer_def fdt_buffer_def del: fdt_buffer_hdr)
qed

lemma struct_only_trans:
  assumes "overlay_buffer fdt" "struct_only fdt fdt'" "struct_only fdt' fdt''"
  shows "struct_only fdt fdt''"
  using assms(2,3) struct_only_hdr [OF assms(1,2), of 4] struct_only_hdr [OF assms(1,2), of 8]
  by (simp add: struct_only_def)

lemma struct_only_st:
  assumes "fdt32_st fdt p v = Some fdt'" "uint (hdr fdt 8) \<le> p" "p + 4 \<le> uint (hdr fdt 4)"
  shows "struct_only fdt fdt'"
  using assms fdt32_st_length [OF assms(1)] rd8_st_other [OF assms(1)] by (auto simp: struct_only_def)

text \<open>The value of a property lies in the structure block.\<close>

lemma fdt_getprop_cases:
  assumes "fdt_buffer fdt" "offset < 2 ^ 31"
  obtains e where "fdt_getprop fdt offset name = Some (Inl e)" "e < 0"
  | p len where "fdt_getprop fdt offset name = Some (Inr (p, len))" "uint (hdr fdt 8) \<le> p" "0 \<le> len"
      "p + len \<le> uint (hdr fdt 4)"
  using assms
proof (cases rule: fdt_get_property_namelen'_total [where name = name])
  case (1 e)
  then show thesis using that(1) by (simp add: fdt_getprop_def fdt_getprop_namelen_def)
next
  case (2 len n)
  from assms(1) 2(3) show thesis
  proof (cases rule: prop_at_fields)
    case (1 len' nameoff)
    have "prop_data fdt n (uint (hdr fdt 8) + n) = Some (uint (hdr fdt 8) + n + 12 + data_shift fdt n len)"
      using 1 2 assms(1) by (auto simp: prop_data_def data_shift_def)
    then show thesis
      using 1 2 by (intro that(2) [of "uint (hdr fdt 8) + n + 12 + data_shift fdt n len" "uint len"])
        (auto simp: fdt_getprop_def fdt_getprop_namelen_def)
  qed
qed

section \<open>Renumbering ends and stays inside\<close>

text \<open>What each step of the renumbering promises, for the rest of the walk to build on.\<close>

definition walks :: "fdt \<Rightarrow> (int \<times> fdt) option \<Rightarrow> bool" where
  "walks fdt r \<longleftrightarrow> (case r of None \<Rightarrow> False | Some (ret, fdt') \<Rightarrow> ret \<le> 0 \<and> overlay_buffer fdt' \<and> struct_only fdt fdt')"

lemma walks_Some [simp]:
  "walks fdt (Some (ret, fdt')) \<longleftrightarrow> ret \<le> 0 \<and> overlay_buffer fdt' \<and> struct_only fdt fdt'"
  by (simp add: walks_def)

lemma walks_bind:
  assumes "overlay_buffer fdt" "walks fdt r"
    and "\<And>ret fdt'. ret \<le> 0 \<Longrightarrow> overlay_buffer fdt' \<Longrightarrow> walks fdt' (k (ret, fdt'))"
  shows "walks fdt (r \<bind> k)"
proof -
  obtain ret fdt' where r: "r = Some (ret, fdt')" "ret \<le> 0" "overlay_buffer fdt'" "struct_only fdt fdt'"
    using assms(2) by (auto simp: walks_def split: option.splits)
  have "walks fdt' (k (ret, fdt'))" by (rule assms(3) [OF r(2,3)])
  then show ?thesis
    using r struct_only_trans [OF assms(1) r(4)] by (auto simp: walks_def split: option.splits)
qed

lemma phandle_add_offset_walks:
  assumes "overlay_buffer fdt" "node < 2 ^ 31"
  shows "walks fdt (overlay_phandle_add_offset fdt node name delta)"
proof -
  have buf: "fdt_buffer fdt" using assms(1) by (simp add: overlay_buffer_def)
  from buf assms(2) show ?thesis
  proof (cases rule: fdt_getprop_cases [where name = name])
    case (1 e)
    then show ?thesis using assms(1) by (simp add: overlay_phandle_add_offset_def)
  next
    case (2 p len)
    show ?thesis
    proof (cases "len = 4")
      case True
      have p: "0 \<le> p" "p + 4 \<le> int (length (fdt_bytes fdt))"
        using 2 True fdt_buffer_totalsize(1) [OF buf] order_trans [OF uint_ge_0 2(2)] by auto
      obtain v where v: "fdt32_ld fdt p = Some v"
        using fdt32_ld_total [OF p] by blast
      obtain fdt' where st: "fdt32_st fdt p (v + delta) = Some fdt'"
        using fdt32_st_total [OF p] by blast
      have so: "struct_only fdt fdt'"
        using struct_only_st [OF st] 2 True by simp
      show ?thesis
        using 2 True v st so struct_only_buffer [OF assms(1) so] assms(1)
        by (simp add: overlay_phandle_add_offset_def)
    next
      case False
      then show ?thesis using 2 assms(1) by (simp add: overlay_phandle_add_offset_def)
    qed
  qed
qed

lemma adjust_own_phandles_walks:
  assumes "overlay_buffer fdt" "node < 2 ^ 31"
  shows "walks fdt (adjust_own_phandles fdt node delta)"
  unfolding adjust_own_phandles_def
  by (rule walks_bind [OF assms(1) phandle_add_offset_walks [OF assms]])
    (auto intro!: walks_bind phandle_add_offset_walks assms(2))

lemma first_subnode_cases:
  assumes "fdt_buffer fdt" "offset < 2 ^ 31"
  obtains e where "fdt_first_subnode fdt offset = Some e" "e < 0"
  | n where "fdt_first_subnode fdt offset = Some n" "node_at fdt n" "offset < n" "n < 2 ^ 31"
  using assms
proof (cases rule: fdt_next_node_total [where depth = "Some 0"])
  case (1 e d)
  then show thesis using that(1) by (auto simp: fdt_first_subnode_def split: if_splits)
next
  case (2 n d)
  then show thesis using that(1) [of "- 1"] by (auto simp: fdt_first_subnode_def)
next
  case (3 n d)
  then show thesis
    using that(1) [of "- 1"] that(2) [of n] by (cases "n < 0 \<or> d \<noteq> Some 1") (auto simp: fdt_first_subnode_def)
qed

lemma adjust_children_walks:
  assumes "child < 2 ^ 31" "overlay_buffer fdt"
  shows "walks fdt (adjust_children fdt child delta)"
  using assms
proof (induction arbitrary: fdt rule: offset_induct)
  case (step child)
  have on: "walks fdt' (k fdt' child \<bind> (\<lambda>n. f n fdt'))"
    if "overlay_buffer fdt'" "\<exists>n. k fdt' child = Some n \<and> (n < 0 \<or> child < n \<and> n < 2 ^ 31)"
      "\<And>n. n < 0 \<or> child < n \<and> n < 2 ^ 31 \<Longrightarrow> walks fdt' (f n fdt')" for fdt' k f
    using that by auto
  have rec: "walks fdt' (adjust_children fdt' n delta)"
    if "overlay_buffer fdt'" "n < 0 \<or> child < n \<and> n < 2 ^ 31" for fdt' n
    using that step(2) [of n fdt'] by (cases "n < 0") (auto simp: adjust_children.simps)
  show ?case
  proof (cases "child < 0")
    case True
    then show ?thesis using step(3) by (simp add: adjust_children.simps)
  next
    case False
    have first: "\<exists>n. fdt_first_subnode fdt' child = Some n \<and> (n < 0 \<or> child < n \<and> n < 2 ^ 31)" if "overlay_buffer fdt'" for fdt'
      using that step(1) by (metis first_subnode_cases overlay_buffer_def)
    have sibling: "\<exists>n. fdt_next_subnode fdt' child = Some n \<and> (n < 0 \<or> child < n \<and> n < 2 ^ 31)" if "overlay_buffer fdt'" for fdt'
      using that step(1) by (metis subnodes.step_cases overlay_buffer_def)
    show ?thesis
      using False
      by (subst adjust_children.simps)
        (auto intro!: walks_bind step(3) step(1) adjust_own_phandles_walks on first sibling rec)
  qed
qed

lemma adjust_local_phandles_walks:
  assumes "overlay_buffer fdt"
  shows "walks fdt (overlay_adjust_local_phandles fdt delta)"
proof -
  have sub: "walks fdt' (fdt_first_subnode fdt' 0 \<bind> (\<lambda>n. adjust_children fdt' n delta))" if "overlay_buffer fdt'" for fdt'
    using that first_subnode_cases [of fdt' 0] adjust_children_walks [OF _ that]
    by (smt (verit) bind.bind_lunit overlay_buffer_def zero_less_power)
  have "walks fdt (adjust_own_phandles fdt 0 delta)"
    using adjust_own_phandles_walks [OF assms] by simp
  then show ?thesis
    unfolding overlay_adjust_local_phandles_def overlay_adjust_node_phandles_def
    by (rule walks_bind [OF assms]) (use sub in auto)
qed

section \<open>Sums and erased blobs\<close>

text \<open>The two comparisons of \<^verbatim>\<open>overlay_phandle_add_offset\<close> catch every sum that is not below the reserved phandle.\<close>

lemma phandle_sum:
  fixes v delta :: u32
  shows "v + delta < v \<or> v + delta = - 1 \<longleftrightarrow> 2 ^ 32 - 1 \<le> uint v + uint delta"
    and "\<not> 2 ^ 32 - 1 \<le> uint v + uint delta \<Longrightarrow> uint (v + delta) = uint v + uint delta"
proof -
  have bounds: "0 \<le> uint v" "uint v < 2 ^ 32" "0 \<le> uint delta" "uint delta < 2 ^ 32"
    using uint_bounded [of v] uint_bounded [of delta] by simp_all
  have wrap: "k mod l = k - l" if "l \<le> k" "k < 2 * l" "0 < l" for k l :: int
  proof -
    have "(k - l) mod l = k - l" using that by (intro mod_pos_pos_trivial) simp_all
    then show ?thesis by (simp only: minus_mod_self2)
  qed
  have mod: "uint (v + delta) = (uint v + uint delta) mod 2 ^ 32"
    by (simp add: uint_word_ariths)
  have sum: "uint (v + delta) = (if uint v + uint delta < 2 ^ 32 then uint v + uint delta else uint v + uint delta - 2 ^ 32)"
    unfolding mod using bounds wrap [of "2 ^ 32" "uint v + uint delta"] by auto
  have m1: "uint (- 1 :: u32) = 2 ^ 32 - 1" by (simp add: unsigned_minus_1_eq_mask mask_eq_exp_minus_1)
  show "v + delta < v \<or> v + delta = - 1 \<longleftrightarrow> 2 ^ 32 - 1 \<le> uint v + uint delta"
    unfolding word_less_def word_uint_eq_iff m1 sum using bounds by auto
  show "\<not> 2 ^ 32 - 1 \<le> uint v + uint delta \<Longrightarrow> uint (v + delta) = uint v + uint delta"
    unfolding sum by simp
qed

lemma erased_magic_refused: "fdt_magic fdt = Some (NOT 0) \<Longrightarrow> fdt_ro_probe' fdt = Some n \<Longrightarrow> n < 0"
  by (auto simp: fdt_ro_probe'_def split: if_splits bind_splits)

lemma set_magic_erases: "fdt_set_magic fdt (NOT 0) = Some fdt' \<Longrightarrow> fdt_magic fdt' = Some (NOT 0)"
  by (simp add: fdt_set_magic_def fdt_magic_def fdt32_ld_st_same)

section \<open>Properties\<close>

lemma sample_fdt_struct: "40 \<le> uint (hdr sample_fdt 8)"
  by code_simp



text \<open>Adding the offset to one phandle is exact or refused.  A property that is not one cell long is a bad phandle; a sum that
  does not fit below the reserved value \<^verbatim>\<open>0xffffffff\<close> is reported and nothing is written; otherwise the cell holds the sum, without
  wrap-around, and every other byte keeps its value.\<close>

theorem phandle_add_offset_exact:
  assumes "fdt_buffer fdt" "40 \<le> uint (hdr fdt 8)" "node < 2 ^ 31"
  shows "\<exists>r. fdt_getprop fdt node name = Some r \<and> (case r of
      Inl e \<Rightarrow> overlay_phandle_add_offset fdt node name delta = Some (e, fdt)
    | Inr (p, len) \<Rightarrow>
        if len \<noteq> 4 then overlay_phandle_add_offset fdt node name delta = Some (- FDT_ERR_BADPHANDLE, fdt)
        else \<exists>v. fdt32_ld fdt p = Some v \<and>
          (if 2 ^ 32 - 1 \<le> uint v + uint delta
           then overlay_phandle_add_offset fdt node name delta = Some (- FDT_ERR_NOPHANDLES, fdt)
           else \<exists>fdt' w. overlay_phandle_add_offset fdt node name delta = Some (0, fdt') \<and>
             fdt32_ld fdt' p = Some w \<and> uint w = uint v + uint delta \<and>
             (\<forall>q. q < p \<or> p + 4 \<le> q \<longrightarrow> rd8 fdt' q = rd8 fdt q)))"
  using assms(1,3)
proof (cases rule: fdt_getprop_cases [where name = name])
  case (1 e)
  then show ?thesis by (simp add: overlay_phandle_add_offset_def)
next
  case (2 p len)
  show ?thesis
  proof (cases "len = 4")
    case True
    have p: "0 \<le> p" "p + 4 \<le> int (length (fdt_bytes fdt))"
      using 2 True fdt_buffer_totalsize(1) [OF assms(1)] order_trans [OF uint_ge_0 2(2)] by auto
    obtain v where v: "fdt32_ld fdt p = Some v"
      using fdt32_ld_total [OF p] by blast
    obtain fdt' where st: "fdt32_st fdt p (v + delta) = Some fdt'"
      using fdt32_st_total [OF p] by blast
    show ?thesis
      using 2 True v st phandle_sum [of v delta] fdt32_ld_st_same [OF st] rd8_st_other [OF st]
      by (auto simp: overlay_phandle_add_offset_def)
  next
    case False
    then show ?thesis using 2 by (simp add: overlay_phandle_add_offset_def)
  qed
qed

theorem phandle_add_offset_exact_witness:
  "\<exists>fdt' w. overlay_phandle_add_offset sample_fdt 28 (bytes_of ''phandle'') 5 = Some (0, fdt') \<and>
    fdt32_ld fdt' 136 = Some w \<and> uint w = 6"
proof -
  have "fdt_getprop sample_fdt 28 (bytes_of ''phandle'') = Some (Inr (136, 4))" "fdt32_ld sample_fdt 136 = Some 1"
    by code_simp+
  then show ?thesis
    using phandle_add_offset_exact [OF sample_fdt_buffer, of 28 "bytes_of ''phandle''" 5] sample_fdt_struct by auto
qed

text \<open>C37: What applying an overlay leaves behind.  When a blob is refused by its probe, both are returned as they were, with a
  negative error.  Otherwise the overlay has lost its magic, so that no later call accepts it; the base tree keeps what the steps
  made of it on success, and has lost its magic, too, on any error.\<close>

theorem overlay_apply_invalidates:
  assumes "fdt_overlay_apply fdt fdto = Some (ret, fdt', fdto')"
  shows "if \<exists>e<0. fdt_ro_probe' fdt = Some e \<or> fdt_ro_probe' fdto = Some e
    then ret < 0 \<and> fdt' = fdt \<and> fdto' = fdto
    else fdt_magic fdto' = Some (NOT 0) \<and> (\<forall>n. fdt_ro_probe' fdto' = Some n \<longrightarrow> n < 0) \<and>
      (if ret = 0 then \<exists>fdto1. overlay_steps fdt fdto = Some (0, fdt', fdto1)
       else fdt_magic fdt' = Some (NOT 0) \<and> (\<forall>n. fdt_ro_probe' fdt' = Some n \<longrightarrow> n < 0))"
  using assms set_magic_erases erased_magic_refused
  by (fastforce simp: fdt_overlay_apply_def split: if_splits bind_splits)

theorem overlay_apply_invalidates_witness:
  "\<exists>fdt' fdto' fdto1. fdt_overlay_apply tiny_fdt tiny_fdt = Some (0, fdt', fdto') \<and>
     overlay_steps tiny_fdt tiny_fdt = Some (0, fdt', fdto1) \<and> fdt_magic fdto' = Some (NOT 0)"
proof -
  have "map_option fst (fdt_overlay_apply tiny_fdt tiny_fdt) = Some 0" and probe: "fdt_ro_probe' tiny_fdt = Some 84"
    by code_simp+
  then obtain fdt' fdto' where "fdt_overlay_apply tiny_fdt tiny_fdt = Some (0, fdt', fdto')"
    by auto
  then show ?thesis
    using overlay_apply_invalidates [of tiny_fdt tiny_fdt 0 fdt' fdto'] probe by auto
qed

end
