(* ===== verification/Spec2Isabelle.thy ===== *)
theory Spec2Isabelle
  imports Div64 Fdt_Lifecycle Boot Riscv_Trap_Correct Arm64_Correct Fdt_Overlay_Props
begin

text \<open>
  A verification library for QemuRTOS, a small kernel in C for the QEMU \<^verbatim>\<open>virt\<close> boards (AArch64, RISC-V).  The kernel boots from a
  flattened device tree: \<^verbatim>\<open>main\<close> sets up the heap, walks the tree, makes a device in a heap block for every enabled node, binds it
  to a driver, picks a console, and prints.  Exceptions and interrupts enter through assembly vectors that save a register frame and
  call C handlers; a panic is a software exception that ends in a halt.

  \<^bold>\<open>Conventions.\<close>  The development models the configuration of \<^verbatim>\<open>include/generated/autoconf.h\<close>: a 64-bit little-endian machine with
  the simple memory manager, assertions and allocator debugging; the RISC-V port is modelled for its 32-bit board.  C integers are
  words of their width, \<^verbatim>\<open>int\<close> results are integers reduced with \<open>c_int\<close> where the code may leave the range.  Code that works on raw
  memory (lists, strings, allocator, register frames) runs on a byte memory \<open>mem\<close> with little-endian loads and stores; a device tree
  is a buffer of bytes at an address (\<open>fdt\<close>).  A function that can fail to return is an \<open>option\<close>: \<open>None\<close> is an access outside a
  buffer, a null or dangling pointer that is followed, or a loop that does not end, so a theorem that gives \<open>Some\<close> proves memory
  safety and termination as well.  A panic is the value \<open>Panic\<close> of \<open>outcome\<close>.  Loops that the code does not bound are
  \<open>partial_function (option)\<close>, with theorems that they return; the other loops are terminating functions.  No fuel is used.

  \<^bold>\<open>Theories and what they model.\<close>
  \<^item> \<open>Prelude\<close>: types, byte memory, results, message log, collections of rewrite rules.  \<open>Frames\<close>: blocks of words in memory, shared
    by the two trap paths.
  \<^item> \<open>Bitops\<close> (\<^verbatim>\<open>lib/mylib/bitops.h\<close>), \<open>Div64\<close> (\<^verbatim>\<open>lib/mylib/math/helper.c\<close>), \<open>Cstring\<close> (\<^verbatim>\<open>lib/mylib/string/string.c\<close>) and
    \<open>Intrusive_List\<close> (\<^verbatim>\<open>lib/mylib/list/list.h\<close>): the support library, one definition per function or macro.  Division agrees with
    division of numbers, the copies and comparisons with their specification on byte sequences, and the list operations with
    operations on the sequence of nodes (locale \<open>linked_seq\<close>).
  \<^item> \<open>Simple_MM\<close> (\<^verbatim>\<open>mm/simple_mm.c\<close>, \<^verbatim>\<open>mm/kmalloc.c\<close>): state \<open>mm_state\<close> with memory, free list head, bounds and log.  \<open>Heap_Shape\<close> and
    \<open>Heap_Updates\<close> describe a heap as a list of blocks and what each sequence of stores does to it; \<open>Simple_MM_Correct\<close> lifts that to
    the operations, \<open>Kmalloc_Contract\<close> states what a client relies on as the locale \<open>allocator\<close> and interprets it on \<open>kmalloc\<close> and
    \<open>kfree\<close>, and \<open>Simple_MM_Props\<close> holds the properties: first fit, coalescing, the invariant after initialisation, disjoint blocks
    with kept contents over any sequence of requests, zeroed arrays, the panics on misuse, and two places where sizes go wrong.
  \<^item> \<open>Printk\<close> (format engine of \<^verbatim>\<open>kernel/printk.c\<close>): the text printed for a conversion is its specified layout.
  \<^item> \<open>Fdt_Base\<close>, \<open>Fdt_Ro\<close>, \<open>Fdt_Check\<close>, \<open>Fdt_Write\<close>, \<open>Fdt_Sw\<close>, \<open>Fdt_Rw\<close>, \<open>Fdt_Overlay\<close> (\<^verbatim>\<open>lib/libfdt\<close>: \<^verbatim>\<open>fdt.c\<close>; \<^verbatim>\<open>fdt_ro.c\<close>; \<^verbatim>\<open>fdt_check.c\<close>,
    \<^verbatim>\<open>fdt_addresses.c\<close>, \<^verbatim>\<open>fdt_strerror.c\<close>; \<^verbatim>\<open>fdt_wip.c\<close>; \<^verbatim>\<open>fdt_sw.c\<close>; \<^verbatim>\<open>fdt_rw.c\<close>, \<^verbatim>\<open>fdt_empty_tree.c\<close>; \<^verbatim>\<open>fdt_overlay.c\<close>), one definition per
    function and one per loop.  \<open>Fdt_Safe\<close>, \<open>Fdt_Iter\<close> and \<open>Fdt_Props\<close> show that the readers are memory safe and end on arbitrary
    bytes (locale \<open>fdt_iterator\<close>, interpreted for nodes, subnodes and properties) and what an accepted tree looks like.
    \<open>Fdt_Tokens\<close>, \<open>Fdt_Sw_Correct\<close>, \<open>Fdt_Sw_Props\<close>, \<open>Fdt_Finish\<close> and \<open>Fdt_Sw_Claims\<close> specify a tree under construction by a list of
    tokens: each write appends its token or reports an error, and the finished blob reads back as the list.  \<open>Fdt_Rw_Props\<close> has the
    splice under every edit, \<open>Fdt_Edit\<close> what it does to the tokens of a blob, and \<open>Fdt_Edit_Props\<close> shows that setting and deleting
    properties are the operations of an association list on the properties of the node, with the space error.  \<open>Fdt_Layout\<close> says what a
    whole blob holds, reservations and tokens, in whatever order its blocks lie; \<open>Fdt_Rsv\<close> shows that the functions on the reservation
    map are those of a list, \<open>Fdt_Space\<close> that opening a blob into a buffer and packing it keep what it holds, with the exact lack of
    space, and \<open>Fdt_Build\<close> that the writer builds a blob from nothing, as \<^verbatim>\<open>fdt_create_empty_tree\<close> does.
    \<open>Fdt_Nodes\<close> reads nodes as trees: every loop over \<^verbatim>\<open>fdt_next_node\<close> passes over the inside of a child (locale \<open>node_walk\<close>, interpreted for three loops), so searching, stepping through, adding and deleting subnodes are the
    operations on the list of children; \<open>Fdt_Accept\<close> shows that the full check accepts every blob that holds a tree.  On these trees \<open>Fdt_Merge\<close> and \<open>Fdt_Paths\<close> specify the merge of an overlay, node by node and
    fragment by fragment, and the lookup of a path; \<open>Fdt_Update\<close> adds renaming and appending and puts edits in sequence (locale
    \<open>node_edits\<close>, interpreted for the edits of one node and, in \<open>Fdt_Lifecycle\<close>, for edits at nodes that paths name).  \<open>Fdt_Lifecycle\<close>
    composes creation, edits, packing and the full check.  \<open>Fdt_Overlay_Props\<close> has the renumbering of phandles and the invalidation of used blobs.
  \<^item> \<open>Uart\<close> (\<^verbatim>\<open>drivers/serial\<close>, \<^verbatim>\<open>include/kernel/device.h\<close>, \<^verbatim>\<open>include/drivers/uart.h\<close>) with the kernel state \<open>kernel\<close>: device registers are a
    log of accesses and a stream of values read.  \<open>Device\<close> (\<^verbatim>\<open>kernel/device.c\<close>, the console of \<^verbatim>\<open>kernel/printk.c\<close>).  \<open>Uart_Correct\<close> shows
    what \<open>printk\<close> sends (locale \<open>transmitter\<close>, interpreted for both chips), \<open>Device_Correct\<close> that enumeration and matching build a
    well-formed bus out of heap blocks, through the contract of the allocator.
  \<^item> \<open>Mm_Tests\<close> (\<^verbatim>\<open>init/test.c\<close>) and \<open>Boot\<close> (\<^verbatim>\<open>init/main.c\<close>, \<^verbatim>\<open>init/test_printk.c\<close>): the self test gives back what it takes; boot ends with
    a ready console or a panic.  These compose heap, tree, bus, drivers and console.
  \<^item> \<open>Arm64\<close> (\<^verbatim>\<open>arch/arm64\<close>, \<^verbatim>\<open>include/arch/arm64\<close>, \<^verbatim>\<open>kernel/fatal.c\<close>): entry and exit macros as instruction lists run on registers and
    memory, the vectors, the handlers, the fatal path and the system call stubs.  \<open>Arm64_Correct\<close>: interrupts resume exactly where they
    came from, every vector has the outcome its handler is meant to have, a panic halts.
  \<^item> \<open>Riscv\<close> (\<^verbatim>\<open>riscv_cpu.c\<close>, \<^verbatim>\<open>irq.h\<close>) with nested critical sections as a step relation (locale \<open>irq_guard\<close>, interpreted for both lock
    interfaces); \<open>Riscv_Trap\<close> (\<^verbatim>\<open>portContext.h\<close>, \<^verbatim>\<open>trap.S\<close>, \<^verbatim>\<open>vector.S\<close>, \<^verbatim>\<open>exception.c\<close>, \<^verbatim>\<open>interrupt.c\<close>, \<^verbatim>\<open>syscall.h\<close>, \<^verbatim>\<open>error.h\<close>); and
    \<open>Riscv_Trap_Correct\<close>: a trap outside a handler restores the interrupted context around any handler that keeps off the frame
    (locale \<open>trap_handler\<close>), and what goes wrong when traps nest, when a system call returns, and after a panic.

  \<^bold>\<open>What is assumed.\<close>  Hypotheses are about inputs: the size of a buffer, a well-formed heap or bus, a layout in which the globals and
  the stack of a trap do not overlap.  The compiled C code between the context macros is a parameter (\<open>image\<close>, \<open>clobber\<close>) that may
  change the registers a call may change.

  \<^bold>\<open>Not modelled.\<close>  The reset code (\<^verbatim>\<open>startup.S\<close>), the linker scripts, device tree sources, build files and debugger scripts are not part
  of the C program; \<^verbatim>\<open>encoding.h\<close> is a table of constants, of which the used ones appear.  The 64-bit RISC-V build is not modelled
  separately.  The theorems on edits, opening and packing are about version 17 blobs, and those on merging overlays about fragments
  that name their target by path; the code for version 16 blobs and for targets by phandle is modelled without such theorems.  Caches, the memory order of device accesses and the interrupt controller are outside the code.

  \<^bold>\<open>Names.\<close>  The two ports define functions with the same C names; they are told apart by their theory.  A claim id in front of a
  theorem is its position in the list of properties.
\<close>

end
